(* ===== verification/Prelude.thy ===== *)
theory Prelude
  imports Complex_Main "HOL-Library.Word" "HOL-Library.Sublist"
begin

text \<open>
  The vocabulary shared by every component of the development.

  A Rust \<open>String\<close>/\<open>&str\<close> is its UTF-8 byte sequence, so it is modelled by the library's
  \<open>string\<close>: HOL's \<open>char\<close> is a byte, \<open>length\<close> is Rust's \<open>len()\<close> and every byte
  offset of the source is a list position.  What the source does per Unicode scalar value
  (\<open>chars()\<close>, \<open>is_char_boundary\<close>) is written out over lead and continuation bytes.
  The standard-library operations the source uses on strings and on \<open>f32\<close> values are defined
  here; every other theory imports this one.
\<close>

section \<open>Hint collections\<close>

named_theorems bytes_simps "evaluation of the byte classes"
named_theorems splice_simps "positions and lengths of spliced strings"

section \<open>Bytes\<close>

definition code :: "char \<Rightarrow> nat" where
  "code c = of_char c"

definition is_digit_b :: "char \<Rightarrow> bool" where
  "is_digit_b c \<longleftrightarrow> 48 \<le> code c \<and> code c \<le> 57"

definition is_upper_b :: "char \<Rightarrow> bool" where
  "is_upper_b c \<longleftrightarrow> 65 \<le> code c \<and> code c \<le> 90"

definition is_lower_b :: "char \<Rightarrow> bool" where
  "is_lower_b c \<longleftrightarrow> 97 \<le> code c \<and> code c \<le> 122"

definition is_alnum_b :: "char \<Rightarrow> bool" where
  "is_alnum_b c \<longleftrightarrow> is_digit_b c \<or> is_upper_b c \<or> is_lower_b c"

text \<open>The character class \<open>[0-9a-f]\<close>.\<close>

definition is_lhex :: "char \<Rightarrow> bool" where
  "is_lhex c \<longleftrightarrow> is_digit_b c \<or> (97 \<le> code c \<and> code c \<le> 102)"

definition is_hexdigit_b :: "char \<Rightarrow> bool" where
  "is_hexdigit_b c \<longleftrightarrow> is_lhex c \<or> (65 \<le> code c \<and> code c \<le> 70)"

text \<open>A UTF-8 continuation byte, \<open>10xxxxxx\<close>.\<close>

definition is_cont :: "char \<Rightarrow> bool" where
  "is_cont c \<longleftrightarrow> 128 \<le> code c \<and> code c < 192"

lemmas byte_class_defs =
  code_def is_digit_b_def is_upper_b_def is_lower_b_def is_alnum_b_def is_lhex_def
  is_hexdigit_b_def is_cont_def

declare byte_class_defs [bytes_simps]

definition ascii_upper :: "char \<Rightarrow> char" where
  "ascii_upper c = (if is_lower_b c then char_of (code c - 32) else c)"

definition ascii_lower :: "char \<Rightarrow> char" where
  "ascii_lower c = (if is_upper_b c then char_of (code c + 32) else c)"

lemma code_less: "code c < 256"
  by (simp add: code_def)

lemma code_char_of [simp]: "n < 256 \<Longrightarrow> code (char_of n) = n"
  by (simp add: code_def)

lemma code_eq_iff: "code a = code b \<longleftrightarrow> a = b"
  by (simp add: code_def)

lemma ascii_upper_alnum:
  "is_alnum_b c \<Longrightarrow> is_upper_b (ascii_upper c) \<or> is_digit_b (ascii_upper c)"
  by (auto simp: ascii_upper_def is_alnum_b_def is_lower_b_def is_upper_b_def is_digit_b_def)

lemma is_lhex_is_hexdigit: "is_lhex c \<Longrightarrow> is_hexdigit_b c"
  by (simp add: is_hexdigit_b_def)

section \<open>UTF-8\<close>

text \<open>\<open>str::is_char_boundary\<close>.\<close>

definition is_char_boundary :: "string \<Rightarrow> nat \<Rightarrow> bool" where
  "is_char_boundary s i \<longleftrightarrow>
     (if i = 0 then True else if i \<ge> length s then i = length s else \<not> is_cont (s ! i))"

lemma is_char_boundary_0 [simp, intro]: "is_char_boundary s 0"
  by (simp add: is_char_boundary_def)

lemma is_char_boundary_length [simp, intro]: "is_char_boundary s (length s)"
  by (simp add: is_char_boundary_def)

lemma is_char_boundary_le: "is_char_boundary s i \<Longrightarrow> i \<le> length s"
  by (auto simp: is_char_boundary_def split: if_splits)

text \<open>
  \<open>chars()\<close>: a lead byte with the continuation bytes that follow it.  On a valid UTF-8
  string each group is one Unicode scalar value.
\<close>

function utf8_chars :: "string \<Rightarrow> string list" where
  "utf8_chars [] = []"
| "utf8_chars (c # cs) = (c # takeWhile is_cont cs) # utf8_chars (dropWhile is_cont cs)"
  by pat_completeness auto
termination
  by (relation "measure length") (auto simp: le_imp_less_Suc length_dropWhile_le)

lemma concat_utf8_chars [simp]: "concat (utf8_chars s) = s"
  by (induction s rule: utf8_chars.induct) simp_all

text \<open>\<open>String::from_utf8\<close> accepts exactly the well-formed sequences of the Unicode standard.\<close>

fun utf8_ok :: "string \<Rightarrow> bool" where
  "utf8_ok [] = True"
| "utf8_ok [a] = (code a < 128)"
| "utf8_ok [a, b] =
     (if code a < 128 then utf8_ok [b]
      else 194 \<le> code a \<and> code a \<le> 223 \<and> is_cont b)"
| "utf8_ok [a, b, c] =
     (if code a < 128 then utf8_ok [b, c]
      else if code a \<le> 223 then 194 \<le> code a \<and> is_cont b \<and> utf8_ok [c]
      else code a \<le> 239 \<and> is_cont b \<and> is_cont c \<and> (code a = 224 \<longrightarrow> 160 \<le> code b) \<and>
        (code a = 237 \<longrightarrow> code b < 160))"
| "utf8_ok (a # b # c # d # r) =
     (if code a < 128 then utf8_ok (b # c # d # r)
      else if code a \<le> 223 then 194 \<le> code a \<and> is_cont b \<and> utf8_ok (c # d # r)
      else if code a \<le> 239 then is_cont b \<and> is_cont c \<and> (code a = 224 \<longrightarrow> 160 \<le> code b) \<and>
        (code a = 237 \<longrightarrow> code b < 160) \<and> utf8_ok (d # r)
      else code a \<le> 244 \<and> is_cont b \<and> is_cont c \<and> is_cont d \<and>
        (code a = 240 \<longrightarrow> 144 \<le> code b) \<and> (code a = 244 \<longrightarrow> code b < 144) \<and> utf8_ok r)"

section \<open>String search and replacement\<close>

text \<open>\<open>str::find\<close> with a string needle: the offset of the leftmost occurrence.\<close>

fun str_find :: "string \<Rightarrow> string \<Rightarrow> nat option" where
  "str_find p [] = (if p = [] then Some 0 else None)"
| "str_find p (c # cs) = (if prefix p (c # cs) then Some 0 else map_option Suc (str_find p cs))"

definition str_contains :: "string \<Rightarrow> string \<Rightarrow> bool" where
  "str_contains t p \<longleftrightarrow> str_find p t \<noteq> None"

lemma str_find_Some:
  "str_find p t = Some n \<Longrightarrow> n + length p \<le> length t \<and> take (length p) (drop n t) = p"
proof (induction t arbitrary: n)
  case Nil
  then show ?case by (auto split: if_splits)
next
  case (Cons c cs)
  show ?case
  proof (cases "prefix p (c # cs)")
    case True
    then obtain r where "c # cs = p @ r" by (auto simp: prefix_def)
    from True Cons.prems have n: "n = 0" by simp
    from True have "length p \<le> length (c # cs)" by (rule prefix_length_le)
    moreover have "take (length p) (c # cs) = p"
      using True by (auto simp: prefix_def)
    ultimately show ?thesis using n by simp
  next
    case False
    with Cons.prems obtain m where "str_find p cs = Some m" "n = Suc m" by auto
    with Cons.IH show ?thesis by auto
  qed
qed

lemma str_find_split:
  assumes "str_find p t = Some n"
  shows "t = take n t @ p @ drop (n + length p) t"
proof -
  have "drop n t = take (length p) (drop n t) @ drop (length p) (drop n t)"
    by (rule append_take_drop_id [symmetric])
  then have "drop n t = p @ drop (n + length p) t"
    by (simp only: str_find_Some [OF assms] drop_drop add.commute)
  then show ?thesis by (metis append_take_drop_id)
qed

lemma str_find_leftmost:
  "str_find p t = Some n \<Longrightarrow> m < n \<Longrightarrow> \<not> prefix p (drop m t)"
proof (induction t arbitrary: n m)
  case Nil
  then show ?case by (auto split: if_splits)
next
  case (Cons c cs)
  then show ?case by (cases m) (auto split: if_splits)
qed

lemma str_find_None: "str_find p t = None \<Longrightarrow> \<not> prefix p (drop m t)"
proof (induction t arbitrary: m)
  case Nil
  then show ?case by (auto split: if_splits)
next
  case (Cons c cs)
  then show ?case by (cases m) (auto split: if_splits)
qed

lemma str_find_NoneI: "(\<And>m. m \<le> length t \<Longrightarrow> \<not> prefix p (drop m t)) \<Longrightarrow> str_find p t = None"
proof (induction t)
  case Nil
  then show ?case by auto
next
  case (Cons c cs)
  have "\<not> prefix p (drop m cs)" if "m \<le> length cs" for m
    using Cons.prems [of "Suc m"] that by simp
  moreover have "\<not> prefix p (c # cs)"
    using Cons.prems [of 0] by simp
  ultimately show ?case using Cons.IH by simp
qed

lemma str_find_None_iff: "str_find p t = None \<longleftrightarrow> \<not> sublist p t"
proof
  assume none: "str_find p t = None"
  show "\<not> sublist p t"
  proof
    assume "sublist p t"
    then obtain u v where "t = u @ p @ v" by (auto simp: sublist_def)
    with str_find_None [OF none, of "length u"] show False by simp
  qed
next
  assume "\<not> sublist p t"
  then show "str_find p t = None"
    by (meson str_find_NoneI prefix_imp_sublist sublist_drop sublist_order.order_trans)
qed

text \<open>
  \<open>str::replace\<close>: non-overlapping occurrences from the left; an empty needle matches at every
  character boundary.
\<close>

function str_replace_ne :: "string \<Rightarrow> string \<Rightarrow> string \<Rightarrow> string" where
  "str_replace_ne p r [] = []"
| "str_replace_ne p r (c # cs) =
     (if prefix p (c # cs) then r @ str_replace_ne p r (drop (length p - 1) cs)
      else c # str_replace_ne p r cs)"
  by pat_completeness auto
termination
  by (relation "measure (\<lambda>(p, r, t). length t)") auto

definition str_replace :: "string \<Rightarrow> string \<Rightarrow> string \<Rightarrow> string" where
  "str_replace p r t =
     (if p = [] then r @ concat (map (\<lambda>ch. ch @ r) (utf8_chars t)) else str_replace_ne p r t)"

lemma str_replace_absent: "p \<noteq> [] \<Longrightarrow> \<not> sublist p t \<Longrightarrow> str_replace p r t = t"
proof -
  assume p: "p \<noteq> []" and t: "\<not> sublist p t"
  have "\<not> sublist p t \<Longrightarrow> str_replace_ne p r t = t"
    by (induction t) (auto dest: prefix_imp_sublist simp: sublist_Cons_right)
  with p t show ?thesis by (simp add: str_replace_def)
qed

lemma str_replace_Nil [simp]: "p \<noteq> [] \<Longrightarrow> str_replace p r [] = []"
  by (simp add: str_replace_def)

text \<open>\<open>str::strip_prefix\<close>.\<close>

definition strip_prefix :: "string \<Rightarrow> string \<Rightarrow> string option" where
  "strip_prefix p t = (if prefix p t then Some (drop (length p) t) else None)"

section \<open>Splicing\<close>

text \<open>
  \<open>String::replace_range(a..b, r)\<close>; None is the panic on a range that is decreasing, out of
  range or not on character boundaries.
\<close>

definition replace_range :: "nat \<Rightarrow> nat \<Rightarrow> string \<Rightarrow> string \<Rightarrow> string option" where
  "replace_range a b r t =
     (if a \<le> b \<and> is_char_boundary t a \<and> is_char_boundary t b
      then Some (take a t @ r @ drop b t) else None)"

text \<open>\<open>&text[a..b]\<close>; None is the panic.\<close>

definition str_slice :: "nat \<Rightarrow> nat \<Rightarrow> string \<Rightarrow> string option" where
  "str_slice a b t =
     (if a \<le> b \<and> is_char_boundary t a \<and> is_char_boundary t b
      then Some (take (b - a) (drop a t)) else None)"

definition slice :: "nat \<Rightarrow> nat \<Rightarrow> string \<Rightarrow> string" where
  "slice a b t = take (b - a) (drop a t)"

lemma length_slice [splice_simps]: "a \<le> b \<Longrightarrow> b \<le> length t \<Longrightarrow> length (slice a b t) = b - a"
  by (simp add: slice_def)

lemma slice_all [simp]: "slice 0 (length t) t = t"
  by (simp add: slice_def)

lemma slice_empty [simp]: "slice a a t = []"
  by (simp add: slice_def)

lemma slice_append_slice:
  "a \<le> b \<Longrightarrow> b \<le> c \<Longrightarrow> slice a b t @ slice b c t = slice a c t"
proof -
  assume ab: "a \<le> b" and bc: "b \<le> c"
  have "take (c - a) (drop a t) = take (b - a) (drop a t) @ take (c - b) (drop (b - a) (drop a t))"
    using ab bc take_add [of "b - a" "c - b" "drop a t"] by simp
  with ab show ?thesis by (simp add: slice_def add.commute)
qed

lemma take_slice: "take a t @ slice a b t = take b t" if "a \<le> b"
  using that slice_append_slice [of 0 a b t] by (simp add: slice_def)

lemma slice_drop: "slice a b t @ drop b t = drop a t" if "a \<le> b"
  using that by (metis append_take_drop_id drop_drop le_add_diff_inverse2 slice_def)

section \<open>Digits\<close>

definition hex_digit :: "nat \<Rightarrow> char" where
  "hex_digit n = (if n < 10 then char_of (48 + n) else char_of (87 + n))"

definition to_hex :: "string \<Rightarrow> string" where
  "to_hex bs = concat (map (\<lambda>b. [hex_digit (code b div 16), hex_digit (code b mod 16)]) bs)"

lemma is_lhex_hex_digit: "n < 16 \<Longrightarrow> is_lhex (hex_digit n)"
  by (auto simp: hex_digit_def is_lhex_def is_digit_b_def)

lemma list_all_to_hex: "list_all is_lhex (to_hex bs)"
proof -
  have "code b div 16 < 16" for b using code_less [of b] by simp
  then show ?thesis
    by (auto simp: to_hex_def list_all_iff intro!: is_lhex_hex_digit)
qed

lemma length_to_hex [simp]: "length (to_hex bs) = 2 * length bs"
  by (induction bs) (simp_all add: to_hex_def)

text \<open>Decimal rendering, \<open>usize::to_string\<close>.\<close>

fun dec_string :: "nat \<Rightarrow> string" where
  "dec_string n =
     (if n < 10 then [char_of (48 + n)] else dec_string (n div 10) @ [char_of (48 + n mod 10)])"

declare dec_string.simps [simp del]

text \<open>
  A \<open>u64\<close> fingerprint is kept as its eight little-endian bytes: \<open>u64::from_le_bytes\<close> of the
  first eight bytes of a digest is a bijection on them.  \<open>le_bytes\<close> is \<open>to_le_bytes\<close>.
\<close>

type_synonym u64fp = string

definition fp64 :: "string \<Rightarrow> u64fp" where
  "fp64 digest = take 8 digest"

fun le_bytes :: "nat \<Rightarrow> nat \<Rightarrow> string" where
  "le_bytes 0 n = []"
| "le_bytes (Suc k) n = char_of (n mod 256) # le_bytes k (n div 256)"

lemma length_le_bytes [simp]: "length (le_bytes k n) = k"
  by (induction k arbitrary: n) simp_all

lemma le_bytes_inj: "le_bytes k m = le_bytes k n \<Longrightarrow> m < 256 ^ k \<Longrightarrow> n < 256 ^ k \<Longrightarrow> m = n"
proof (induction k arbitrary: m n)
  case 0
  then show ?case by simp
next
  case (Suc k)
  from Suc.prems(1) have c: "(char_of (m mod 256) :: char) = char_of (n mod 256)"
    and t: "le_bytes k (m div 256) = le_bytes k (n div 256)" by auto
  from c have "code (char_of (m mod 256)) = code (char_of (n mod 256))" by (rule arg_cong)
  then have "m mod 256 = n mod 256"
    using code_char_of [of "m mod 256"] code_char_of [of "n mod 256"] by simp
  moreover have "m div 256 = n div 256"
    using Suc.IH [OF t] Suc.prems(2,3) by (simp add: less_mult_imp_div_less mult.commute)
  ultimately show ?case by (metis div_mult_mod_eq)
qed

section \<open>Single-precision values\<close>

text \<open>
  An \<open>f32\<close> is its IEEE bit pattern, an integer below \<open>2 ^ 32\<close>.  The source only compares such
  values, which is exact on the sign-magnitude reading of the bits; the one subtraction it
  performs is a parameter of the detector.
\<close>

type_synonym f32 = int

definition f32_nan :: "f32 \<Rightarrow> bool" where
  "f32_nan x \<longleftrightarrow> 2139095040 < x mod 2147483648"

definition f32_key :: "f32 \<Rightarrow> int" where
  "f32_key x = (if x < 2147483648 then x else 2147483648 - x)"

definition f32_lt :: "f32 \<Rightarrow> f32 \<Rightarrow> bool" where
  "f32_lt a b \<longleftrightarrow> \<not> f32_nan a \<and> \<not> f32_nan b \<and> f32_key a < f32_key b"

definition f32_le :: "f32 \<Rightarrow> f32 \<Rightarrow> bool" where
  "f32_le a b \<longleftrightarrow> \<not> f32_nan a \<and> \<not> f32_nan b \<and> f32_key a \<le> f32_key b"

definition f32_eq :: "f32 \<Rightarrow> f32 \<Rightarrow> bool" where
  "f32_eq a b \<longleftrightarrow> \<not> f32_nan a \<and> \<not> f32_nan b \<and> f32_key a = f32_key b"

section \<open>Orderings and stable sorting\<close>

datatype ordering = OLess | OEqual | OGreater

definition cmp_of :: "'a::linorder \<Rightarrow> 'a \<Rightarrow> ordering" where
  "cmp_of a b = (if a < b then OLess else if a = b then OEqual else OGreater)"

text \<open>\<open>Ordering::then\<close> and \<open>f32::partial_cmp\<close>.\<close>

definition ord_then :: "ordering \<Rightarrow> ordering \<Rightarrow> ordering" where
  "ord_then a b = (if a = OEqual then b else a)"

definition f32_partial_cmp :: "f32 \<Rightarrow> f32 \<Rightarrow> ordering option" where
  "f32_partial_cmp a b =
     (if f32_nan a \<or> f32_nan b then None else Some (cmp_of (f32_key a) (f32_key b)))"

text \<open>
  \<open>slice::sort_by\<close> is stable, so on a comparison that is a total preorder its result is
  determined: an insertion sort that puts an element before the first one it does not exceed.
\<close>

fun insert_by :: "('a \<Rightarrow> 'a \<Rightarrow> ordering) \<Rightarrow> 'a \<Rightarrow> 'a list \<Rightarrow> 'a list" where
  "insert_by cmp x [] = [x]"
| "insert_by cmp x (y # ys) =
     (if cmp x y = OGreater then y # insert_by cmp x ys else x # y # ys)"

definition sort_by :: "('a \<Rightarrow> 'a \<Rightarrow> ordering) \<Rightarrow> 'a list \<Rightarrow> 'a list" where
  "sort_by cmp xs = foldr (insert_by cmp) xs []"

lemma set_insert_by [simp]: "set (insert_by cmp x ys) = insert x (set ys)"
  by (induction ys) auto

lemma set_sort_by [simp]: "set (sort_by cmp xs) = set xs"
  unfolding sort_by_def by (induction xs) auto

lemma length_insert_by [simp]: "length (insert_by cmp x ys) = Suc (length ys)"
  by (induction ys) auto

lemma length_sort_by [simp]: "length (sort_by cmp xs) = length xs"
  unfolding sort_by_def by (induction xs) auto

text \<open>A comparison that agrees with a rank sorts by the rank, wherever it is used.\<close>

definition cmp_ranks :: "('a \<Rightarrow> 'a \<Rightarrow> ordering) \<Rightarrow> ('a \<Rightarrow> 'b::linorder) \<Rightarrow> 'a set \<Rightarrow> bool" where
  "cmp_ranks cmp rank A \<longleftrightarrow> (\<forall>x\<in>A. \<forall>y\<in>A. cmp x y = cmp_of (rank x) (rank y))"

lemma insert_by_insort:
  assumes "cmp_ranks cmp rank A" and "x \<in> A" and "set ys \<subseteq> A"
  shows "insert_by cmp x ys = insort_key rank x ys"
  using assms(3)
proof (induction ys)
  case Nil
  then show ?case by simp
next
  case (Cons y ys)
  have "cmp x y = cmp_of (rank x) (rank y)"
    using assms(1,2) Cons.prems by (auto simp: cmp_ranks_def)
  with Cons show ?case by (auto simp: cmp_of_def split: if_splits)
qed

lemma sort_by_sort_key:
  assumes "cmp_ranks cmp rank A" and "set xs \<subseteq> A"
  shows "sort_by cmp xs = sort_key rank xs"
  using assms(2)
proof (induction xs)
  case Nil
  then show ?case by (simp add: sort_by_def)
next
  case (Cons x xs)
  then have "sort_by cmp (x # xs) = insert_by cmp x (sort_key rank xs)"
    by (simp add: sort_by_def)
  also have "\<dots> = insort_key rank x (sort_key rank xs)"
    using Cons.prems by (intro insert_by_insort [OF assms(1)]) auto
  finally show ?case by simp
qed

section \<open>Results\<close>

text \<open>
  A Rust \<open>Result<T, E>\<close> is \<open>E + T\<close>; the \<open>?\<close> operator is \<open>bind_r\<close>.
\<close>

definition bind_r :: "'e + 'a \<Rightarrow> ('a \<Rightarrow> 'e + 'b) \<Rightarrow> 'e + 'b" where
  "bind_r m f = (case m of Inl e \<Rightarrow> Inl e | Inr x \<Rightarrow> f x)"

lemma bind_r_simps [simp]: "bind_r (Inl e) f = Inl e" "bind_r (Inr x) f = f x"
  by (simp_all add: bind_r_def)

lemma bind_r_Inr_iff: "bind_r m f = Inr y \<longleftrightarrow> (\<exists>x. m = Inr x \<and> f x = Inr y)"
  by (cases m) simp_all

lemma bind_r_cong [fundef_cong]:
  "m = m' \<Longrightarrow> (\<And>x. m' = Inr x \<Longrightarrow> f x = f' x) \<Longrightarrow> bind_r m f = bind_r m' f'"
  by (cases m') simp_all

end
