(* ===== verification/Externals.thy ===== *)
theory Externals
  imports Prelude
begin

text \<open>
  The code the sources call and that is not part of the repository: the blake3 digest, the
  AES-256-GCM cipher and the operating system's random source, the regex and Aho-Corasick
  engines, presidio's analyzer, globset, url, shlex and the Unicode tables of the standard
  library.  Each is a field of one record that the definitions take as their argument \<open>X\<close>;
  what a proof needs of such code is a named predicate on the record, stated where it is used.
\<close>

section \<open>Results of the external recognizers\<close>

text \<open>
  \<open>presidio_core::RecognizerResult\<close>, as far as the sources read it; the entity type is its
  \<open>Display\<close> string.
\<close>

record recog_result =
  rr_start :: nat
  rr_end :: nat
  rr_entity :: string
  rr_score :: f32
  rr_pattern_name :: "string option"

text \<open>\<open>presidio_core::Token\<close> and \<open>NlpArtifacts\<close>, as the sources build them.\<close>

record nlp_token =
  nt_text :: string
  nt_start :: nat
  nt_end :: nat

record nlp_artifacts =
  na_language :: string
  na_tokens :: "nlp_token list"
  na_lemmas :: "string list"

section \<open>The external functions\<close>

record ext =
  x_blake3 :: "string \<Rightarrow> string"
    \<comment> \<open>the 32-byte digest of everything fed to the hasher\<close>
  x_to_uppercase :: "string \<Rightarrow> string"
  x_to_lowercase :: "string \<Rightarrow> string"
  x_is_alphanumeric :: "string \<Rightarrow> bool"
    \<comment> \<open>\<open>char::is_alphanumeric\<close>, on one scalar value\<close>
  x_is_whitespace :: "string \<Rightarrow> bool"
    \<comment> \<open>\<open>char::is_whitespace\<close>, on one scalar value\<close>
  x_f32_sub :: "f32 \<Rightarrow> f32 \<Rightarrow> f32"
  x_encrypt :: "string \<Rightarrow> string \<Rightarrow> string \<Rightarrow> string + string"
    \<comment> \<open>key, nonce, plaintext; Inl is the cipher's error text\<close>
  x_decrypt :: "string \<Rightarrow> string \<Rightarrow> string \<Rightarrow> string + string"
    \<comment> \<open>key, nonce, ciphertext\<close>
  x_random :: "nat \<Rightarrow> nat \<Rightarrow> string"
    \<comment> \<open>\<open>OsRng.fill_bytes\<close>: the bytes of the i-th draw, of the given length\<close>
  x_re_escape :: "string \<Rightarrow> string"
  x_re_build :: "string \<Rightarrow> bool \<Rightarrow> string option"
    \<comment> \<open>pattern, case-insensitive; Some is the build error\<close>
  x_re_find_iter :: "string \<Rightarrow> bool \<Rightarrow> string \<Rightarrow> (nat \<times> nat) list"
  x_ac_build :: "bool \<Rightarrow> string \<Rightarrow> string option"
    \<comment> \<open>ASCII-case-insensitive, literal; Some is the build error\<close>
  x_ac_find_iter :: "bool \<Rightarrow> string \<Rightarrow> string \<Rightarrow> (nat \<times> nat) list"
  x_analyze :: "string \<Rightarrow> string \<Rightarrow> nlp_artifacts \<Rightarrow> f32 \<Rightarrow> recog_result list"
    \<comment> \<open>text, language, artifacts, score threshold\<close>
  x_rr_text :: "recog_result \<Rightarrow> string \<Rightarrow> string option"
  x_generic_entropy_pattern :: string
  x_entity_canonical :: "string \<Rightarrow> string option"
    \<comment> \<open>\<open>EntityType::from_str\<close>: None for \<open>Custom\<close>, else \<open>canonical_name\<close>\<close>
  x_glob_new :: "string \<Rightarrow> string option"
    \<comment> \<open>Some is the compile error\<close>
  x_glob_match :: "string \<Rightarrow> string \<Rightarrow> bool"
  x_url_host :: "string \<Rightarrow> string option"
    \<comment> \<open>\<open>Url::parse(s).ok()\<close> and its \<open>host_str()\<close>\<close>
  x_shlex_split :: "string \<Rightarrow> string list option"

section \<open>Standard-library operations that need the Unicode tables\<close>

text \<open>\<open>str::trim\<close>.\<close>

definition str_trim :: "('a ext_scheme) \<Rightarrow> string \<Rightarrow> string" where
  "str_trim X s =
     concat (rev (dropWhile (x_is_whitespace X)
       (rev (dropWhile (x_is_whitespace X) (utf8_chars s)))))"

text \<open>\<open>str::split\<close> with a predicate on scalar values.\<close>

fun split_chars :: "(string \<Rightarrow> bool) \<Rightarrow> string \<Rightarrow> string list \<Rightarrow> string list" where
  "split_chars P cur [] = [cur]"
| "split_chars P cur (ch # chs) =
     (if P ch then cur # split_chars P [] chs else split_chars P (cur @ ch) chs)"

definition str_split :: "(string \<Rightarrow> bool) \<Rightarrow> string \<Rightarrow> string list" where
  "str_split P s = split_chars P [] (utf8_chars s)"

text \<open>\<open>blake3\<close> digests have 32 bytes.\<close>

definition blake3_ok :: "('a ext_scheme) \<Rightarrow> bool" where
  "blake3_ok X \<longleftrightarrow> (\<forall>s. length (x_blake3 X s) = 32)"

text \<open>
  The Unicode upper-casing agrees with the ASCII one on ASCII text (\<open>str::to_uppercase\<close>'s
  documentation).
\<close>

definition upper_ascii_ok :: "('a ext_scheme) \<Rightarrow> bool" where
  "upper_ascii_ok X \<longleftrightarrow>
     (\<forall>s. list_all (\<lambda>c. code c < 128) s \<longrightarrow> x_to_uppercase X s = map ascii_upper s)"

end
