(* ===== verification/Tokens.thy ===== *)
theory Tokens
  imports Externals
begin

text \<open>
  \<open>token.rs\<close>: the minting of tokens, the salted and bare hash renderings, the slug of a
  registered name, and the token grammar.

  The grammar is the regular expression \<open>\[[A-Z0-9_]+_[0-9a-f]{12}\]\<close> of \<open>token_regex\<close>.  No
  character of its classes is a bracket, so a match that starts at a given position is unique
  and ends at the next closing bracket; \<open>match_token\<close> computes it, \<open>match_token_iff\<close> is the
  expression itself, and \<open>token_find_iter\<close> is \<open>Regex::find_iter\<close>.
\<close>

section \<open>Minting\<close>

definition TOKEN_HASH_HEX_LEN :: nat where
  "TOKEN_HASH_HEX_LEN = 12"

definition MAX_TOKEN_LEN :: nat where
  "MAX_TOKEN_LEN = 1 + 48 + 1 + TOKEN_HASH_HEX_LEN + 1"

definition BROKER_PREFIX :: string where
  "BROKER_PREFIX = ''BROKER__''"

definition make_token :: "'x ext_scheme \<Rightarrow> string \<Rightarrow> string \<Rightarrow> string \<Rightarrow> string" where
  "make_token X entity_type plaintext salt =
     (let suffix = take TOKEN_HASH_HEX_LEN
            (to_hex (x_blake3 X (salt @ entity_type @ '':'' @ plaintext)))
      in ''['' @ x_to_uppercase X entity_type @ ''_'' @ suffix @ '']'')"

definition hash_value :: "'x ext_scheme \<Rightarrow> string \<Rightarrow> string \<Rightarrow> string" where
  "hash_value X entity_type plaintext =
     (let suffix = take TOKEN_HASH_HEX_LEN (to_hex (x_blake3 X plaintext))
      in ''['' @ x_to_uppercase X entity_type @ '':'' @ suffix @ '']'')"

definition make_hash_token :: "'x ext_scheme \<Rightarrow> string \<Rightarrow> string \<Rightarrow> string \<Rightarrow> string" where
  "make_hash_token X entity_type plaintext salt =
     (let suffix = take TOKEN_HASH_HEX_LEN
            (to_hex (x_blake3 X (salt @ entity_type @ '':'' @ plaintext)))
      in ''['' @ x_to_uppercase X entity_type @ '':'' @ suffix @ '']'')"

definition is_broker_token :: "string \<Rightarrow> bool" where
  "is_broker_token token \<longleftrightarrow> prefix ''[BROKER__'' token"

text \<open>\<open>slugify\<close>: per scalar value, so a multi-byte one becomes a single underscore.\<close>

definition slug_char :: "string \<Rightarrow> char" where
  "slug_char ch =
     (case ch of [c] \<Rightarrow> if is_alnum_b c then ascii_upper c else CHR ''_'' | _ \<Rightarrow> CHR ''_'')"

definition MAX_SLUG :: nat where
  "MAX_SLUG = 32"

definition slugify :: "string \<Rightarrow> string" where
  "slugify name =
     (let s = map slug_char (utf8_chars name);
          s = (if length s > MAX_SLUG then take MAX_SLUG s else s)
      in if s = [] then ''_'' else s)"

section \<open>The token grammar\<close>

text \<open>The character class \<open>[A-Z0-9_]\<close>.\<close>

definition is_entity_char :: "char \<Rightarrow> bool" where
  "is_entity_char c \<longleftrightarrow> is_upper_b c \<or> is_digit_b c \<or> c = CHR ''_''"

definition token_body :: "string \<Rightarrow> bool" where
  "token_body b \<longleftrightarrow>
     (let n = length b - TOKEN_HASH_HEX_LEN - 1
      in TOKEN_HASH_HEX_LEN + 2 \<le> length b \<and> list_all is_entity_char (take n b) \<and>
         b ! n = CHR ''_'' \<and> list_all is_lhex (drop (Suc n) b))"

definition match_token :: "string \<Rightarrow> nat option" where
  "match_token s =
     (case s of
        [] \<Rightarrow> None
      | c # r \<Rightarrow>
          if c = CHR ''['' then
            (let b = takeWhile (\<lambda>x. x \<noteq> CHR '']'') r
             in if length b < length r \<and> token_body b then Some (length b + 2) else None)
          else None)"

lemma match_token_le: "match_token s = Some n \<Longrightarrow> 2 \<le> n \<and> n \<le> length s"
  by (auto simp: match_token_def Let_def split: list.splits if_splits)

function token_spans :: "nat \<Rightarrow> string \<Rightarrow> (nat \<times> nat) list" where
  "token_spans off s =
     (case match_token s of
        Some n \<Rightarrow> (off, off + n) # token_spans (off + n) (drop n s)
      | None \<Rightarrow> (case s of [] \<Rightarrow> [] | c # cs \<Rightarrow> token_spans (Suc off) cs))"
  by pat_completeness auto
termination
  by (relation "measure (\<lambda>(off, s). length s)") (auto dest!: match_token_le)

declare token_spans.simps [simp del]

text \<open>\<open>token_regex().find_iter(text)\<close> and \<open>is_match\<close>.\<close>

definition token_find_iter :: "string \<Rightarrow> (nat \<times> nat) list" where
  "token_find_iter text = token_spans 0 text"

definition token_is_match :: "string \<Rightarrow> bool" where
  "token_is_match text \<longleftrightarrow> token_find_iter text \<noteq> []"

text \<open>
  Replacing every token of a text, left to right: the specification of the loops that copy the
  text between the matches of \<open>find_iter\<close> and push a replacement for each match.
\<close>

function token_scan :: "(string \<Rightarrow> string) \<Rightarrow> string \<Rightarrow> string" where
  "token_scan f s =
     (case match_token s of
        Some n \<Rightarrow> f (take n s) @ token_scan f (drop n s)
      | None \<Rightarrow> (case s of [] \<Rightarrow> [] | c # cs \<Rightarrow> c # token_scan f cs))"
  by pat_completeness auto
termination
  by (relation "measure (\<lambda>(f, s). length s)") (auto dest!: match_token_le)

declare token_scan.simps [simp del]

text \<open>The loop itself, over the remaining matches, \<open>pos\<close> (the source's \<open>last\<close>) the end of the previous one.\<close>

fun splice_tokens :: "(string \<Rightarrow> string) \<Rightarrow> string \<Rightarrow> nat \<Rightarrow> (nat \<times> nat) list \<Rightarrow> string" where
  "splice_tokens f text pos [] = drop pos text"
| "splice_tokens f text pos ((a, b) # ms) =
     slice pos a text @ f (slice a b text) @ splice_tokens f text b ms"

text \<open>The tokens of a text, in order.\<close>

function tokens_in :: "string \<Rightarrow> string list" where
  "tokens_in s =
     (case match_token s of
        Some n \<Rightarrow> take n s # tokens_in (drop n s)
      | None \<Rightarrow> (case s of [] \<Rightarrow> [] | c # cs \<Rightarrow> tokens_in cs))"
  by pat_completeness auto
termination
  by (relation "measure length") (auto dest!: match_token_le)

declare tokens_in.simps [simp del]

section \<open>What the grammar matches\<close>

lemma bracket_not_in_class [simp]:
  "\<not> is_entity_char (CHR '']'')" "\<not> is_entity_char (CHR ''['')"
  "\<not> is_lhex (CHR '']'')" "\<not> is_lhex (CHR ''['')"
  by (simp_all add: is_entity_char_def bytes_simps)

definition is_token :: "string \<Rightarrow> bool" where
  "is_token t \<longleftrightarrow>
     (\<exists>e h. t = ''['' @ e @ ''_'' @ h @ '']'' \<and> e \<noteq> [] \<and> list_all is_entity_char e \<and>
        length h = TOKEN_HASH_HEX_LEN \<and> list_all is_lhex h)"

lemma token_body_iff:
  "token_body b \<longleftrightarrow>
     (\<exists>e h. b = e @ ''_'' @ h \<and> e \<noteq> [] \<and> list_all is_entity_char e \<and>
        length h = TOKEN_HASH_HEX_LEN \<and> list_all is_lhex h)"
proof
  assume b: "token_body b"
  define n where "n = length b - TOKEN_HASH_HEX_LEN - 1"
  from b have len: "TOKEN_HASH_HEX_LEN + 2 \<le> length b" by (simp add: token_body_def Let_def)
  then have "n < length b" by (simp add: n_def)
  then have "b = take n b @ [b ! n] @ drop (Suc n) b"
    by (simp add: Cons_nth_drop_Suc)
  moreover have "take n b \<noteq> []" and "length (drop (Suc n) b) = TOKEN_HASH_HEX_LEN"
    using len by (auto simp: n_def)
  ultimately show "\<exists>e h. b = e @ ''_'' @ h \<and> e \<noteq> [] \<and> list_all is_entity_char e \<and>
      length h = TOKEN_HASH_HEX_LEN \<and> list_all is_lhex h"
    using b unfolding token_body_def n_def [symmetric] Let_def by metis
next
  assume "\<exists>e h. b = e @ ''_'' @ h \<and> e \<noteq> [] \<and> list_all is_entity_char e \<and>
      length h = TOKEN_HASH_HEX_LEN \<and> list_all is_lhex h"
  then obtain e h where b: "b = e @ ''_'' @ h" "e \<noteq> []" "list_all is_entity_char e"
    "length h = TOKEN_HASH_HEX_LEN" "list_all is_lhex h" by blast
  then have n: "length b - TOKEN_HASH_HEX_LEN - 1 = length e" by simp
  from b show "token_body b"
    unfolding token_body_def n Let_def by (cases e) (simp_all add: nth_append)
qed

lemma token_body_no_bracket:
  assumes "token_body b"
  shows "CHR '']'' \<notin> set b" "CHR ''['' \<notin> set b"
proof -
  from assms obtain e h where "b = e @ ''_'' @ h" "list_all is_entity_char e" "list_all is_lhex h"
    by (auto simp: token_body_iff)
  then show "CHR '']'' \<notin> set b" "CHR ''['' \<notin> set b"
    by (auto simp: list_all_iff)
qed

lemma match_token_iff:
  "match_token s = Some n \<longleftrightarrow> n \<le> length s \<and> is_token (take n s)"
proof
  assume m: "match_token s = Some n"
  then obtain r where s: "s = CHR ''['' # r"
    and len: "length (takeWhile (\<lambda>x. x \<noteq> CHR '']'') r) < length r"
    and body: "token_body (takeWhile (\<lambda>x. x \<noteq> CHR '']'') r)"
    and n: "n = length (takeWhile (\<lambda>x. x \<noteq> CHR '']'') r) + 2"
    by (auto simp: match_token_def Let_def split: list.splits if_splits)
  define b where "b = takeWhile (\<lambda>x. x \<noteq> CHR '']'') r"
  have "r = b @ dropWhile (\<lambda>x. x \<noteq> CHR '']'') r" by (simp add: b_def)
  moreover have "dropWhile (\<lambda>x. x \<noteq> CHR '']'') r \<noteq> []"
  proof
    assume "dropWhile (\<lambda>x. x \<noteq> CHR '']'') r = []"
    then have "takeWhile (\<lambda>x. x \<noteq> CHR '']'') r = r"
      using takeWhile_dropWhile_id [of "\<lambda>x. x \<noteq> CHR '']''" r] by simp
    with len show False by simp
  qed
  then obtain c u where d: "dropWhile (\<lambda>x. x \<noteq> CHR '']'') r = c # u"
    by (cases "dropWhile (\<lambda>x. x \<noteq> CHR '']'') r") auto
  moreover have "c = CHR '']''"
    using hd_dropWhile [of "\<lambda>x. x \<noteq> CHR '']''" r] d by simp
  ultimately have r: "r = b @ CHR '']'' # u" by simp
  have nb: "n = length b + 2" by (simp add: n b_def)
  have "take n s = CHR ''['' # b @ '']''"
    by (simp add: s r nb)
  moreover have "is_token (CHR ''['' # b @ '']'')"
    using body by (auto simp: is_token_def token_body_iff b_def [symmetric])
  ultimately show "n \<le> length s \<and> is_token (take n s)"
    using match_token_le [OF m] by simp
next
  assume "n \<le> length s \<and> is_token (take n s)"
  then obtain e h where t: "take n s = ''['' @ e @ ''_'' @ h @ '']''" and e: "e \<noteq> []"
      "list_all is_entity_char e" and h: "length h = TOKEN_HASH_HEX_LEN" "list_all is_lhex h"
    and n: "n \<le> length s"
    by (auto simp: is_token_def)
  define b where "b = e @ ''_'' @ h"
  have body: "token_body b" using e h by (auto simp: token_body_iff b_def)
  have "s = take n s @ drop n s" by simp
  then have s: "s = CHR ''['' # b @ CHR '']'' # drop n s" by (simp add: t b_def)
  have nb: "n = length b + 2"
    using n t by (metis (no_types, lifting) b_def append_Cons append_Nil append_assoc length_append
        length_Cons length_take list.size(3) min.absorb2 numeral_2_eq_2 add_Suc_right add_0_right)
  have tw: "takeWhile (\<lambda>x. x \<noteq> CHR '']'') (b @ CHR '']'' # u) = b" for u
    using token_body_no_bracket(1) [OF body] by (subst takeWhile_append2) auto
  have "match_token (CHR ''['' # b @ CHR '']'' # u) = Some n" for u
    by (simp add: match_token_def Let_def tw body nb)
  with s show "match_token s = Some n" by metis
qed

lemma match_token_append: "match_token s = Some n \<Longrightarrow> match_token (s @ r) = Some n"
  by (auto simp: match_token_iff)

lemma is_token_match: "is_token t \<Longrightarrow> match_token (t @ r) = Some (length t)"
  by (simp add: match_token_iff)

lemma is_token_match_self: "is_token t \<Longrightarrow> match_token t = Some (length t)"
  using is_token_match [of t "[]"] by simp

lemma match_token_not_open: "c \<noteq> CHR ''['' \<Longrightarrow> match_token (c # cs) = None"
  by (simp add: match_token_def)

lemma match_token_Nil [simp]: "match_token [] = None"
  by (simp add: match_token_def)

text \<open>An opening bracket, or a closing one, ends every match that began before it.\<close>

lemma match_token_open:
  assumes "u \<noteq> []"
  shows "match_token (u @ CHR ''['' # v) = match_token u"
proof (cases "match_token u")
  case (Some n)
  then show ?thesis by (simp add: match_token_append)
next
  case None
  show ?thesis
  proof (rule ccontr)
    assume "match_token (u @ CHR ''['' # v) \<noteq> match_token u"
    with None obtain n where m: "match_token (u @ CHR ''['' # v) = Some n" by auto
    then obtain e h where t: "take n (u @ CHR ''['' # v) = CHR ''['' # e @ ''_'' @ h @ '']''"
      and eh: "list_all is_entity_char e" "list_all is_lhex h" "is_token (take n (u @ CHR ''['' # v))"
      by (auto simp: match_token_iff is_token_def)
    show False
    proof (cases "n \<le> length u")
      case True
      then have "take n (u @ CHR ''['' # v) = take n u" by simp
      with eh True have "match_token u = Some n" by (auto simp: match_token_iff)
      with None show False by simp
    next
      case False
      then obtain k where k: "n = Suc (length u + k)" by (metis less_imp_Suc_add not_le)
      from t have "u @ CHR ''['' # take k v = CHR ''['' # e @ ''_'' @ h @ '']''"
        by (simp add: k)
      then have "tl u @ CHR ''['' # take k v = e @ ''_'' @ h @ '']''"
        using assms by (cases u) auto
      then have "CHR ''['' \<in> set (e @ ''_'' @ h @ '']'')"
        by (metis in_set_conv_decomp)
      with eh show False by (auto simp: list_all_iff)
    qed
  qed
qed

lemma match_token_closed:
  assumes "CHR '']'' \<in> set u"
  shows "match_token (u @ v) = match_token u"
proof (cases u)
  case Nil
  with assms show ?thesis by simp
next
  case (Cons c r)
  show ?thesis
  proof (cases "c = CHR ''[''")
    case False
    with Cons show ?thesis by (simp add: match_token_not_open)
  next
    case True
    with assms Cons have in_r: "CHR '']'' \<in> set r" by auto
    then have "takeWhile (\<lambda>x. x \<noteq> CHR '']'') (r @ v) = takeWhile (\<lambda>x. x \<noteq> CHR '']'') r"
      by (simp add: takeWhile_append1)
    moreover have "length (takeWhile (\<lambda>x. x \<noteq> CHR '']'') r) < length r"
      using in_r by (metis (mono_tags, lifting) le_neq_implies_less length_takeWhile_le set_takeWhileD
          takeWhile_eq_take take_all_iff order_refl)
    ultimately show ?thesis using Cons True by (simp add: match_token_def Let_def)
  qed
qed

section \<open>Scanning a text\<close>

lemma token_scan_simps:
  "token_scan f [] = []"
  "match_token s = Some n \<Longrightarrow> token_scan f s = f (take n s) @ token_scan f (drop n s)"
  "match_token (c # cs) = None \<Longrightarrow> token_scan f (c # cs) = c # token_scan f cs"
  by (subst token_scan.simps; simp)+

lemma tokens_in_simps:
  "tokens_in [] = []"
  "match_token s = Some n \<Longrightarrow> tokens_in s = take n s # tokens_in (drop n s)"
  "match_token (c # cs) = None \<Longrightarrow> tokens_in (c # cs) = tokens_in cs"
  by (subst tokens_in.simps; simp)+

lemma token_spans_simps:
  "token_spans off [] = []"
  "match_token s = Some n \<Longrightarrow>
     token_spans off s = (off, off + n) # token_spans (off + n) (drop n s)"
  "match_token (c # cs) = None \<Longrightarrow> token_spans off (c # cs) = token_spans (Suc off) cs"
  by (subst token_spans.simps; simp)+

text \<open>Induction along a scan: at a token, at an ordinary byte, at the end.\<close>

lemma scan_induct [case_names Nil Token Char]:
  assumes "P []"
    and "\<And>s n. match_token s = Some n \<Longrightarrow> P (drop n s) \<Longrightarrow> P s"
    and "\<And>c cs. match_token (c # cs) = None \<Longrightarrow> P cs \<Longrightarrow> P (c # cs)"
  shows "P s"
proof (induction s rule: tokens_in.induct)
  case (1 s)
  show ?case
  proof (cases "match_token s")
    case (Some n)
    from assms(2) [OF Some 1(2) [OF Some]] show ?thesis .
  next
    case None
    show ?thesis
    proof (cases s)
      case Nil
      with assms(1) show ?thesis by simp
    next
      case (Cons c cs)
      from 1(1) [OF None Cons] None show ?thesis
        unfolding Cons by (intro assms(3)) simp_all
    qed
  qed
qed

lemma splice_tokens_shift:
  "pos \<le> length u \<Longrightarrow>
   splice_tokens f (u @ s) pos (token_spans (length u) s) = drop pos u @ token_scan f s"
proof (induction s arbitrary: u pos rule: scan_induct)
  case Nil
  then show ?case by (simp add: token_spans_simps token_scan_simps)
next
  case (Token s n)
  then have n: "n \<le> length s" by (blast dest: match_token_le)
  have u: "u @ s = (u @ take n s) @ drop n s" by simp
  have len: "length u + n = length (u @ take n s)" using n by simp
  have "slice pos (length u) (u @ s) = drop pos u"
    using Token.prems by (simp add: slice_def)
  moreover have "slice (length u) (length u + n) (u @ s) = take n s"
    by (simp add: slice_def)
  moreover have "splice_tokens f ((u @ take n s) @ drop n s) (length u + n)
      (token_spans (length (u @ take n s)) (drop n s)) = token_scan f (drop n s)"
    using Token.IH [of "length u + n" "u @ take n s"] n by simp
  ultimately show ?case
    using Token.hyps n by (simp add: token_spans_simps token_scan_simps)
next
  case (Char c cs)
  have "splice_tokens f ((u @ [c]) @ cs) pos (token_spans (length (u @ [c])) cs) =
      drop pos (u @ [c]) @ token_scan f cs"
    using Char.IH [of pos "u @ [c]"] Char.prems by simp
  then show ?case
    using Char.hyps Char.prems by (simp add: token_spans_simps token_scan_simps)
qed

text \<open>The loop over \<open>find_iter\<close> is the scan.\<close>

lemma splice_tokens_scan: "splice_tokens f text 0 (token_find_iter text) = token_scan f text"
  using splice_tokens_shift [where pos = 0 and u = "[]" and f = f and s = "text"]
  by (simp add: token_find_iter_def)

lemma token_spans_Nil_iff: "token_spans off s = [] \<longleftrightarrow> tokens_in s = []"
  by (induction s arbitrary: off rule: scan_induct)
    (simp_all add: token_spans_simps tokens_in_simps)

lemma token_is_match_iff: "token_is_match s \<longleftrightarrow> tokens_in s \<noteq> []"
  by (simp add: token_is_match_def token_find_iter_def token_spans_Nil_iff)

text \<open>No match begins in \<open>a\<close> and ends in \<open>b\<close>.\<close>

definition no_straddle :: "string \<Rightarrow> string \<Rightarrow> bool" where
  "no_straddle a b \<longleftrightarrow> (\<forall>i<length a. match_token (drop i a @ b) = match_token (drop i a))"

lemma no_straddle_drop: "no_straddle a b \<Longrightarrow> no_straddle (drop n a) b"
  unfolding no_straddle_def
proof (intro allI impI)
  fix i
  assume h: "\<forall>i<length a. match_token (drop i a @ b) = match_token (drop i a)"
    and "i < length (drop n a)"
  then have "match_token (drop (n + i) a @ b) = match_token (drop (n + i) a)"
    by (intro h [rule_format]) simp
  then show "match_token (drop i (drop n a) @ b) = match_token (drop i (drop n a))"
    by (simp add: add.commute)
qed

lemma no_straddle_head: "no_straddle (c # cs) b \<Longrightarrow> match_token (c # cs @ b) = match_token (c # cs)"
  unfolding no_straddle_def by force

lemma no_straddle_tl: "no_straddle (c # cs) b \<Longrightarrow> no_straddle cs b"
  using no_straddle_drop [of "c # cs" b 1] by simp

lemma token_scan_append:
  "no_straddle a b \<Longrightarrow> token_scan f (a @ b) = token_scan f a @ token_scan f b"
proof (induction a rule: scan_induct)
  case Nil
  then show ?case by (simp add: token_scan_simps)
next
  case (Token s n)
  then have n: "n \<le> length s" by (blast dest: match_token_le)
  have "match_token (s @ b) = Some n"
    using Token.hyps by (rule match_token_append)
  with Token n show ?case
    by (simp add: token_scan_simps no_straddle_drop)
next
  case (Char c cs)
  with no_straddle_head [OF Char.prems] show ?case
    by (simp add: token_scan_simps no_straddle_tl)
qed

lemma no_straddle_open [intro]: "no_straddle a (CHR ''['' # v)"
  unfolding no_straddle_def by (simp add: match_token_open)

lemma no_straddle_closed [intro]: "no_straddle (a @ '']'') v"
  unfolding no_straddle_def
proof (intro allI impI)
  fix i
  assume "i < length (a @ '']'')"
  then have "CHR '']'' \<in> set (drop i (a @ '']''))" by (auto simp: Suc_le_eq)
  then show "match_token (drop i (a @ '']'') @ v) = match_token (drop i (a @ '']''))"
    by (rule match_token_closed)
qed

lemma no_straddle_Nil [simp, intro]: "no_straddle [] b" "no_straddle a []"
  by (simp_all add: no_straddle_def)

lemma token_scan_cong:
  "(\<And>t. t \<in> set (tokens_in s) \<Longrightarrow> f t = g t) \<Longrightarrow> token_scan f s = token_scan g s"
  by (induction s rule: scan_induct) (simp_all add: token_scan_simps tokens_in_simps)

lemma token_scan_id:
  "(\<And>t. t \<in> set (tokens_in s) \<Longrightarrow> f t = t) \<Longrightarrow> token_scan f s = s"
  by (induction s rule: scan_induct) (simp_all add: token_scan_simps tokens_in_simps)

lemma token_scan_none: "tokens_in s = [] \<Longrightarrow> token_scan f s = s"
  by (rule token_scan_id) simp

lemma tokens_in_is_token: "t \<in> set (tokens_in s) \<Longrightarrow> is_token t \<and> sublist t s"
proof (induction s rule: scan_induct)
  case Nil
  then show ?case by (simp add: tokens_in_simps)
next
  case (Token s n)
  then show ?case
    by (auto simp: tokens_in_simps match_token_iff intro: sublist_order.order_trans)
next
  case (Char c cs)
  then show ?case
    by (auto simp: tokens_in_simps sublist_Cons_right)
qed

text \<open>Tokens do not overlap, so every occurrence is one the scan finds.\<close>

lemma is_token_shape:
  "is_token t \<Longrightarrow> \<exists>b. t = CHR ''['' # b @ '']'' \<and> CHR ''['' \<notin> set b \<and> CHR '']'' \<notin> set b"
proof -
  assume "is_token t"
  then obtain e h where t: "t = CHR ''['' # (e @ ''_'' @ h) @ '']''"
    and "list_all is_entity_char e" "list_all is_lhex h"
    by (auto simp: is_token_def)
  then have "CHR ''['' \<notin> set (e @ ''_'' @ h) \<and> CHR '']'' \<notin> set (e @ ''_'' @ h)"
    by (auto simp: list_all_iff)
  with t show ?thesis by blast
qed

lemma is_token_nonempty: "is_token t \<Longrightarrow> t \<noteq> []"
  by (auto simp: is_token_def)

lemma tokens_in_occurrence: "is_token t \<Longrightarrow> t \<in> set (tokens_in (u @ t @ v))"
proof (induction "u @ t @ v" arbitrary: u rule: scan_induct)
  case Nil
  then show ?case by (auto dest: is_token_nonempty)
next
  case (Token n)
  show ?case
  proof (cases "u = []")
    case True
    with Token.hyps(1) Token.prems have "n = length t"
      by (metis append_Nil is_token_match option.inject)
    with True Token.hyps(1) show ?thesis by (simp add: tokens_in_simps)
  next
    case False
    from Token.prems obtain b where t: "t = CHR ''['' # b @ '']''"
      by (auto dest: is_token_shape)
    have "match_token (u @ CHR ''['' # (b @ '']'' @ v)) = match_token u"
      using False by (rule match_token_open)
    with Token.hyps(1) t have "match_token u = Some n" by simp
    then have "n \<le> length u" by (blast dest: match_token_le)
    with Token.hyps(2) [of "drop n u"] Token.prems Token.hyps(1) show ?thesis
      by (simp add: tokens_in_simps)
  qed
next
  case (Char c cs)
  show ?case
  proof (cases u)
    case Nil
    with Char.hyps(1,3) Char.prems is_token_match [of t v] show ?thesis by simp
  next
    case (Cons d u')
    with Char.hyps Char.prems show ?thesis
      by (metis append_Cons list.inject tokens_in_simps(3))
  qed
qed

lemma set_tokens_in: "set (tokens_in s) = {t. is_token t \<and> sublist t s}"
  by (auto simp: sublist_def dest: tokens_in_is_token tokens_in_occurrence)

lemma tokens_in_sublist: "sublist a b \<Longrightarrow> set (tokens_in a) \<subseteq> set (tokens_in b)"
  by (auto simp: set_tokens_in intro: sublist_order.order_trans)

section \<open>Minted tokens are in the grammar\<close>

text \<open>The entity names the detectors use, and the slugs after a kind prefix.\<close>

definition entity_ok :: "string \<Rightarrow> bool" where
  "entity_ok e \<longleftrightarrow> e \<noteq> [] \<and> list_all (\<lambda>c. is_entity_char c \<or> is_lower_b c) e"

lemma is_entity_char_ascii_upper:
  "is_entity_char c \<or> is_lower_b c \<Longrightarrow> is_entity_char (ascii_upper c)"
  using ascii_upper_alnum [of c]
  by (auto simp: is_entity_char_def is_alnum_b_def ascii_upper_def)

lemma is_entity_char_ascii: "is_entity_char c \<or> is_lower_b c \<Longrightarrow> code c < 128"
  by (auto simp: is_entity_char_def bytes_simps)

lemma to_uppercase_entity:
  assumes "upper_ascii_ok X" and "entity_ok e"
  shows "x_to_uppercase X e = map ascii_upper e" "x_to_uppercase X e \<noteq> []"
    "list_all is_entity_char (x_to_uppercase X e)"
proof -
  have "list_all (\<lambda>c. code c < 128) e"
    using assms(2) is_entity_char_ascii by (auto simp: entity_ok_def list_all_iff)
  with assms(1) show up: "x_to_uppercase X e = map ascii_upper e"
    by (simp add: upper_ascii_ok_def)
  show "x_to_uppercase X e \<noteq> []"
    using assms(2) by (simp add: up entity_ok_def)
  show "list_all is_entity_char (x_to_uppercase X e)"
    using assms(2) is_entity_char_ascii_upper by (auto simp: up entity_ok_def list_all_iff)
qed

lemma length_digest_hex:
  "blake3_ok X \<Longrightarrow> length (take TOKEN_HASH_HEX_LEN (to_hex (x_blake3 X s))) = TOKEN_HASH_HEX_LEN"
  by (simp add: blake3_ok_def TOKEN_HASH_HEX_LEN_def)

lemma list_all_take: "list_all P xs \<Longrightarrow> list_all P (take n xs)"
  by (auto simp: list_all_iff dest: in_set_takeD)

lemma is_token_make_token:
  assumes "blake3_ok X" and "upper_ascii_ok X" and "entity_ok e"
  shows "is_token (make_token X e pt salt)"
proof -
  define h where "h = take TOKEN_HASH_HEX_LEN (to_hex (x_blake3 X (salt @ e @ '':'' @ pt)))"
  have "make_token X e pt salt = ''['' @ x_to_uppercase X e @ ''_'' @ h @ '']''"
    by (simp add: make_token_def Let_def h_def)
  moreover have "length h = TOKEN_HASH_HEX_LEN"
    unfolding h_def using assms(1) by (rule length_digest_hex)
  moreover have "list_all is_lhex h"
    unfolding h_def by (intro list_all_take list_all_to_hex)
  ultimately show ?thesis
    unfolding is_token_def using to_uppercase_entity [OF assms(2,3)] by blast
qed

lemma length_make_token:
  assumes "blake3_ok X" and "upper_ascii_ok X" and "entity_ok e"
  shows "length (make_token X e pt salt) = length e + 15"
  using length_digest_hex [OF assms(1)] to_uppercase_entity(1) [OF assms(2,3)]
  by (simp add: make_token_def Let_def TOKEN_HASH_HEX_LEN_def del: length_take)

lemma make_token_bound:
  assumes "blake3_ok X" and "upper_ascii_ok X" and "entity_ok e"
  shows "length (make_token X e pt salt) \<le> MAX_TOKEN_LEN \<longleftrightarrow> length e \<le> 48"
  by (simp add: length_make_token [OF assms] MAX_TOKEN_LEN_def TOKEN_HASH_HEX_LEN_def)

section \<open>Slugs\<close>

lemma is_entity_char_slug_char: "is_entity_char (slug_char ch)"
  using is_entity_char_ascii_upper
  by (auto simp: slug_char_def is_entity_char_def is_alnum_b_def split: list.splits)

lemma slugify_grammar:
  "list_all is_entity_char (slugify name)" "1 \<le> length (slugify name)"
  "length (slugify name) \<le> MAX_SLUG"
  by (auto simp: slugify_def Let_def list_all_iff MAX_SLUG_def is_entity_char_slug_char
      is_entity_char_def [of "CHR ''_''"] Suc_le_eq dest!: in_set_takeD)

lemma entity_ok_slug: "list_all is_entity_char p \<Longrightarrow> entity_ok (p @ slugify name)"
  using slugify_grammar [of name] by (auto simp: entity_ok_def list_all_iff)

section \<open>Hash renderings are outside the grammar\<close>

lemma tokens_in_bracketed:
  assumes "CHR ''['' \<notin> set b" and "CHR '']'' \<notin> set b" and "\<not> token_body b"
  shows "tokens_in (CHR ''['' # b @ '']'') = []"
proof -
  have "tokens_in (b @ '']'') = []"
  proof -
    have "u \<notin> set (tokens_in (b @ '']''))" for u
    proof
      assume "u \<in> set (tokens_in (b @ '']''))"
      then have u: "is_token u" and sub: "set u \<subseteq> set (b @ '']'')"
        using tokens_in_is_token set_mono_sublist by blast+
      from is_token_shape [OF u] have "CHR ''['' \<in> set u" by auto
      with sub assms(1) show False by auto
    qed
    then show ?thesis by (metis list.set_intros(1) neq_Nil_conv)
  qed
  moreover have "match_token (CHR ''['' # b @ '']'') = None"
  proof -
    have "takeWhile (\<lambda>x. x \<noteq> CHR '']'') (b @ '']'') = b"
      using assms(2) by (subst takeWhile_append2) auto
    with assms(3) show ?thesis by (simp add: match_token_def Let_def)
  qed
  ultimately show ?thesis by (simp add: tokens_in_simps)
qed

lemma colon_not_body: "CHR '':'' \<in> set b \<Longrightarrow> \<not> token_body b"
proof
  assume "CHR '':'' \<in> set b" and "token_body b"
  then obtain e h where "b = e @ ''_'' @ h" "list_all is_entity_char e" "list_all is_lhex h"
    by (auto simp: token_body_iff)
  with \<open>CHR '':'' \<in> set b\<close> have "is_entity_char (CHR '':'') \<or> is_lhex (CHR '':'')"
    by (auto simp: list_all_iff)
  then show False by (simp add: is_entity_char_def bytes_simps)
qed

lemma lhex_no_bracket: "list_all is_lhex h \<Longrightarrow> CHR ''['' \<notin> set h \<and> CHR '']'' \<notin> set h"
  by (auto simp: list_all_iff)

lemma hash_tokens_inert:
  assumes "CHR ''['' \<notin> set (x_to_uppercase X e)" and "CHR '']'' \<notin> set (x_to_uppercase X e)"
  shows "tokens_in (hash_value X e pt) = []" "tokens_in (make_hash_token X e pt salt) = []"
proof -
  have gen: "tokens_in (CHR ''['' # (x_to_uppercase X e @ '':'' @ h) @ '']'') = []"
    if "list_all is_lhex h" for h
    using assms lhex_no_bracket [OF that] by (intro tokens_in_bracketed colon_not_body) auto
  show "tokens_in (hash_value X e pt) = []"
    using gen [OF list_all_take [OF list_all_to_hex [of "x_blake3 X pt"], of TOKEN_HASH_HEX_LEN]]
    by (simp add: hash_value_def Let_def)
  show "tokens_in (make_hash_token X e pt salt) = []"
    using gen [OF list_all_take [OF list_all_to_hex, of TOKEN_HASH_HEX_LEN]]
    by (simp add: make_hash_token_def Let_def)
qed

lemma is_broker_make_token:
  assumes "upper_ascii_ok X" and "entity_ok e" and "prefix BROKER_PREFIX (map ascii_upper e)"
  shows "is_broker_token (make_token X e pt salt)"
  using assms(3) to_uppercase_entity(1) [OF assms(1,2)]
  by (auto simp: is_broker_token_def make_token_def Let_def BROKER_PREFIX_def prefix_def)

end
