(* ===== verification/Config.thy ===== *)
theory Config
  imports Externals "HOL-Library.Char_ord" "HOL-Library.List_Lexorder"
begin

text \<open>
  The engine's vocabulary and configuration: \<open>surface.rs\<close> (the four-arrow surfaces),
  \<open>error.rs\<close> (the error type) and \<open>config.rs\<close> (profiles, categories, operators, the
  allow-list, the reveal marker, the ML settings, the engine configuration and its detection
  fingerprint).
\<close>

section \<open>Surfaces\<close>

datatype surface = UserMessage | SystemPrompt | ToolResult | AssistantText | ToolUseInput

datatype direction = DirMask | DirUnmask

fun surface_direction :: "surface \<Rightarrow> direction" where
  "surface_direction UserMessage = DirMask"
| "surface_direction SystemPrompt = DirMask"
| "surface_direction ToolResult = DirMask"
| "surface_direction AssistantText = DirUnmask"
| "surface_direction ToolUseInput = DirUnmask"

text \<open>The discriminant, \<open>s as u8\<close>; also \<open>surface_tag\<close> of \<open>secrets.rs\<close>.\<close>

fun surface_tag :: "surface \<Rightarrow> nat" where
  "surface_tag UserMessage = 0"
| "surface_tag SystemPrompt = 1"
| "surface_tag ToolResult = 2"
| "surface_tag AssistantText = 3"
| "surface_tag ToolUseInput = 4"

lemma surface_tag_inj [simp]: "surface_tag a = surface_tag b \<longleftrightarrow> a = b"
  by (cases a; cases b) simp_all

section \<open>Profiles and categories\<close>

datatype profile = Strict | Balanced | Minimal | SecretsOnly

datatype category = Secrets | Financial | Identity | Contact | Network | Personal

fun category_tag :: "category \<Rightarrow> nat" where
  "category_tag Secrets = 0"
| "category_tag Financial = 1"
| "category_tag Identity = 2"
| "category_tag Contact = 3"
| "category_tag Network = 4"
| "category_tag Personal = 5"

lemma category_tag_inj [simp]: "category_tag a = category_tag b \<longleftrightarrow> a = b"
  by (cases a; cases b) simp_all

text \<open>\<open>#[derive(PartialOrd, Ord)]\<close> on \<open>Category\<close> orders by the discriminant.\<close>

instantiation category :: linorder
begin

definition less_eq_category :: "category \<Rightarrow> category \<Rightarrow> bool" where
  "less_eq_category a b \<longleftrightarrow> category_tag a \<le> category_tag b"

definition less_category :: "category \<Rightarrow> category \<Rightarrow> bool" where
  "less_category a b \<longleftrightarrow> category_tag a < category_tag b"

instance
  by standard (auto simp: less_eq_category_def less_category_def)

end

definition all_categories :: "category list" where
  "all_categories = [Secrets, Financial, Identity, Contact, Network, Personal]"

definition ENTITY_CVV :: string where
  "ENTITY_CVV = ''CVV''"

text \<open>\<open>Category::entity_types\<close>.\<close>

fun entity_types :: "category \<Rightarrow> string list" where
  "entity_types Secrets =
     [''API_KEY'', ''AWS_ACCESS_KEY'', ''AWS_SECRET_KEY'', ''AZURE_KEY'', ''GCP_API_KEY'',
      ''PRIVATE_KEY'', ''JWT'', ''URL_CREDENTIAL'']"
| "entity_types Financial =
     [''CREDIT_CARD'', ''IBAN_CODE'', ''CRYPTO'', ''US_BANK_NUMBER'', ''ABA_ROUTING_NUMBER'',
      ''CREDIT_CARD_EXPIRATION'', ''EXPIRATION_DATE'', ENTITY_CVV]"
| "entity_types Identity =
     [''US_SSN'', ''US_ITIN'', ''NATIONAL_ID'', ''PASSPORT'', ''US_PASSPORT'', ''UK_PASSPORT'',
      ''DRIVER_LICENSE'', ''US_DRIVER_LICENSE'', ''UK_DRIVING_LICENCE'', ''MEDICAL_LICENSE'',
      ''US_NPI'', ''US_MBI'', ''UK_NHS'', ''UK_NINO'', ''DATE_OF_BIRTH'', ''PRIVATE_DATE'',
      ''EXPIRATION_DATE'']"
| "entity_types Contact = [''EMAIL_ADDRESS'', ''PHONE_NUMBER'']"
| "entity_types Network = [''IP_ADDRESS'', ''URL'', ''MAC_ADDRESS'']"
| "entity_types Personal = [''PERSON'', ''LOCATION'', ''ORGANIZATION'']"

definition canonical_entity_types :: "string set" where
  "canonical_entity_types = set (concat (map entity_types all_categories))"

text \<open>\<open>Profile::default_threshold\<close>: the bits of 0.4, 0.5 and 0.6.\<close>

fun default_threshold :: "profile \<Rightarrow> f32" where
  "default_threshold Strict = 1053609165"
| "default_threshold Balanced = 1056964608"
| "default_threshold SecretsOnly = 1058642330"
| "default_threshold Minimal = 1058642330"

fun default_categories :: "profile \<Rightarrow> category set" where
  "default_categories Strict = {Secrets, Financial, Identity, Contact, Network, Personal}"
| "default_categories Balanced = {Secrets, Financial, Identity, Contact}"
| "default_categories Minimal = {Secrets, Financial}"
| "default_categories SecretsOnly = {Secrets}"

section \<open>Operators\<close>

text \<open>
  \<open>Operator::Mask { char, from_end }\<close> holds a scalar value, here its UTF-8 bytes.
\<close>

datatype operator =
    OpToken
  | OpRedact
  | OpMask string nat
  | OpHash
  | OpBroker
  | OpLocal
  | OpKeep

definition default_operator_of :: "profile \<Rightarrow> operator" where
  "default_operator_of p = OpToken"

section \<open>Errors\<close>

text \<open>
  \<open>EngineError\<close>.  The texts of \<open>InvalidSecret\<close> and \<open>Ml\<close> are formatted from a few cases in the
  sources; those cases are the constructors here.  \<open>RustPanic\<close> is the panic of a string
  operation whose range is not valid; the source has no such error value.
\<close>

datatype secret_error =
    OperatorNotForSecret string operator
  | EmptySecretValue string
  | SlugCollision string
  | MatcherError string string
  | OperatorNeedsSecret
  | BadBrokerGlob string string

datatype ml_status = MlDisabled | MlLoading | MlReady | MlFailed

datatype ml_error =
    MlNotReady ml_status "string option"
  | MlBatchLength nat nat
  | MlBackendError string

datatype engine_error =
    EncryptionFailed string
  | DecryptionFailed string
  | WrongDirection surface
  | DetectionFailed string
  | BadCustomRegex string string
  | MlError ml_error
  | InvalidSecret secret_error
  | RustPanic

type_synonym 'a result = "engine_error + 'a"

section \<open>The allow-list\<close>

record allow_list =
  al_exact :: "string set"
  al_exact_ci :: "string set"
  al_patterns :: "string list"

definition al_empty :: allow_list where
  "al_empty = \<lparr>al_exact = {}, al_exact_ci = {}, al_patterns = []\<rparr>"

definition al_add_exact :: "string \<Rightarrow> allow_list \<Rightarrow> allow_list" where
  "al_add_exact v al = al\<lparr>al_exact := insert v (al_exact al)\<rparr>"

definition al_add_exact_ci :: "'x ext_scheme \<Rightarrow> string \<Rightarrow> allow_list \<Rightarrow> allow_list" where
  "al_add_exact_ci X v al = al\<lparr>al_exact_ci := insert (x_to_lowercase X v) (al_exact_ci al)\<rparr>"

definition al_add_pattern :: "string \<Rightarrow> allow_list \<Rightarrow> allow_list" where
  "al_add_pattern p al = al\<lparr>al_patterns := al_patterns al @ [p]\<rparr>"

definition al_with_common_words :: "'x ext_scheme \<Rightarrow> allow_list" where
  "al_with_common_words X =
     al_add_exact_ci X ''localhost''
       (fold al_add_exact [''Anthropic'', ''Claude'', ''127.0.0.1''] al_empty)"

definition is_allowed :: "'x ext_scheme \<Rightarrow> allow_list \<Rightarrow> string \<Rightarrow> bool" where
  "is_allowed X al value \<longleftrightarrow>
     (if value \<in> al_exact al then True
      else if x_to_lowercase X value \<in> al_exact_ci al then True
      else list_ex (\<lambda>p. x_re_find_iter X p False value \<noteq> []) (al_patterns al))"

text \<open>\<open>AllowList::from_specs\<close>: the first pattern that does not compile is the error.\<close>

fun al_compile_patterns :: "'x ext_scheme \<Rightarrow> string list \<Rightarrow> allow_list \<Rightarrow> string + allow_list" where
  "al_compile_patterns X [] al = Inr al"
| "al_compile_patterns X (p # ps) al =
     (case x_re_build X p False of
        Some e \<Rightarrow> Inl e
      | None \<Rightarrow> al_compile_patterns X ps (al_add_pattern p al))"

definition al_from_specs ::
  "'x ext_scheme \<Rightarrow> string list \<Rightarrow> string list \<Rightarrow> string list \<Rightarrow> string + allow_list" where
  "al_from_specs X exact exact_ci patterns =
     al_compile_patterns X patterns
       (fold (al_add_exact_ci X) exact_ci (fold al_add_exact exact (al_with_common_words X)))"

lemma is_allowed_add_exact: "is_allowed X (al_add_exact v al) v"
  by (simp add: is_allowed_def al_add_exact_def)

lemma is_allowed_mono_exact: "is_allowed X al w \<Longrightarrow> is_allowed X (al_add_exact v al) w"
  by (auto simp: is_allowed_def al_add_exact_def split: if_splits)

section \<open>The reveal marker\<close>

record reveal_marker =
  rm_enabled :: bool
  rm_prefix :: string
  rm_suffix :: string

text \<open>The default delimiters are U+27E6 and U+27E7.\<close>

definition default_marker_prefix :: string where
  "default_marker_prefix = [char_of (226::nat), char_of (159::nat), char_of (166::nat)]"

definition default_marker_suffix :: string where
  "default_marker_suffix = [char_of (226::nat), char_of (159::nat), char_of (167::nat)]"

definition default_reveal_marker :: reveal_marker where
  "default_reveal_marker =
     \<lparr>rm_enabled = True, rm_prefix = default_marker_prefix, rm_suffix = default_marker_suffix\<rparr>"

definition rm_is_active :: "reveal_marker \<Rightarrow> bool" where
  "rm_is_active m \<longleftrightarrow> rm_enabled m \<and> (rm_prefix m \<noteq> [] \<or> rm_suffix m \<noteq> [])"

definition rm_wrap :: "reveal_marker \<Rightarrow> string \<Rightarrow> string" where
  "rm_wrap m v = rm_prefix m @ v @ rm_suffix m"

definition rm_contained_in :: "reveal_marker \<Rightarrow> string \<Rightarrow> bool" where
  "rm_contained_in m text \<longleftrightarrow>
     (rm_prefix m \<noteq> [] \<and> str_contains text (rm_prefix m)) \<or>
     (rm_suffix m \<noteq> [] \<and> str_contains text (rm_suffix m))"

definition rm_strip :: "reveal_marker \<Rightarrow> string \<Rightarrow> string" where
  "rm_strip m text =
     (let out = (if rm_prefix m = [] then text else str_replace (rm_prefix m) [] text)
      in if rm_suffix m \<noteq> [] \<and> rm_suffix m \<noteq> rm_prefix m
         then str_replace (rm_suffix m) [] out else out)"

section \<open>Custom rules and ML settings\<close>

record custom_replacement =
  cr_pattern :: string
  cr_entity_type :: string
  cr_is_regex :: bool
  cr_case_sensitive :: bool
  cr_priority :: nat
  cr_literal_token :: bool
  cr_token :: "string option"
  cr_apply_to_surfaces :: "surface set option"

datatype ml_backend = BackendLocal | BackendHttp | BackendSidecar

datatype quantization = QuantNone | Q8_0 | Bf16 | Bf16Vnni

datatype compute_precision = PrecF32 | PrecF16

fun backend_tag :: "ml_backend \<Rightarrow> nat" where
  "backend_tag BackendLocal = 0"
| "backend_tag BackendHttp = 1"
| "backend_tag BackendSidecar = 2"

fun quant_tag :: "quantization \<Rightarrow> nat" where
  "quant_tag QuantNone = 0"
| "quant_tag Q8_0 = 1"
| "quant_tag Bf16 = 2"
| "quant_tag Bf16Vnni = 3"

fun precision_tag :: "compute_precision \<Rightarrow> nat" where
  "precision_tag PrecF32 = 0"
| "precision_tag PrecF16 = 1"

lemma backend_tag_inj [simp]: "backend_tag a = backend_tag b \<longleftrightarrow> a = b"
  by (cases a; cases b) simp_all

lemma quant_tag_inj [simp]: "quant_tag a = quant_tag b \<longleftrightarrow> a = b"
  by (cases a; cases b) simp_all

lemma precision_tag_inj [simp]: "precision_tag a = precision_tag b \<longleftrightarrow> a = b"
  by (cases a; cases b) simp_all

record ml_config =
  mc_enabled :: bool
  mc_required :: "bool option"
  mc_backend :: ml_backend
  mc_model :: string
  mc_endpoint :: "string option"
  mc_auth_token_env :: "string option"
  mc_http_timeout_secs :: nat
  mc_sidecar_path :: "string option"
  mc_revision :: "string option"
  mc_min_score :: "f32 option"
  mc_prefer_gpu :: bool
  mc_compute_precision :: compute_precision
  mc_quant :: quantization
  mc_banded_attention :: bool

definition AUTHORIZED_ML_MODELS :: "string list" where
  "AUTHORIZED_ML_MODELS = [''openai/privacy-filter'']"

definition is_authorized_model :: "string \<Rightarrow> bool" where
  "is_authorized_model repo \<longleftrightarrow> repo \<in> set AUTHORIZED_ML_MODELS"

definition default_ml_config :: ml_config where
  "default_ml_config =
     \<lparr>mc_enabled = False, mc_required = None, mc_backend = BackendLocal,
      mc_model = hd AUTHORIZED_ML_MODELS, mc_endpoint = None, mc_auth_token_env = None,
      mc_http_timeout_secs = 30, mc_sidecar_path = None, mc_revision = None,
      mc_min_score = None, mc_prefer_gpu = False, mc_compute_precision = PrecF32,
      mc_quant = Bf16, mc_banded_attention = True\<rparr>"

definition required_effective :: "ml_config \<Rightarrow> bool" where
  "required_effective c =
     (case mc_required c of
        Some b \<Rightarrow> b
      | None \<Rightarrow> mc_backend c = BackendHttp \<or> mc_backend c = BackendSidecar)"

text \<open>\<open>Option<f32> ==\<close>: IEEE equality inside \<open>Some\<close>.\<close>

fun f32_opt_eq :: "f32 option \<Rightarrow> f32 option \<Rightarrow> bool" where
  "f32_opt_eq None None = True"
| "f32_opt_eq (Some a) (Some b) = f32_eq a b"
| "f32_opt_eq _ _ = False"

definition same_model_params :: "ml_config \<Rightarrow> ml_config \<Rightarrow> bool" where
  "same_model_params a b =
     (if mc_backend a \<noteq> mc_backend b then False
      else
        (let common = f32_opt_eq (mc_min_score a) (mc_min_score b)
         in case mc_backend a of
              BackendLocal \<Rightarrow>
                common \<and> mc_model a = mc_model b \<and> mc_revision a = mc_revision b \<and>
                mc_prefer_gpu a = mc_prefer_gpu b \<and>
                mc_compute_precision a = mc_compute_precision b \<and>
                mc_quant a = mc_quant b \<and> mc_banded_attention a = mc_banded_attention b
            | BackendHttp \<Rightarrow>
                common \<and> mc_endpoint a = mc_endpoint b \<and>
                mc_auth_token_env a = mc_auth_token_env b \<and>
                mc_http_timeout_secs a = mc_http_timeout_secs b
            | BackendSidecar \<Rightarrow>
                common \<and> mc_model a = mc_model b \<and> mc_revision a = mc_revision b \<and>
                mc_sidecar_path a = mc_sidecar_path b \<and>
                mc_banded_attention a = mc_banded_attention b))"

section \<open>The engine configuration\<close>

text \<open>
  \<open>HashMap<String, Operator>\<close> is an association list with distinct keys: the source looks keys
  up and lists them.
\<close>

record engine_config =
  ec_enabled :: bool
  ec_profile :: profile
  ec_score_threshold :: f32
  ec_enabled_categories :: "category set"
  ec_default_operator :: operator
  ec_entity_operators :: "(string \<times> operator) list"
  ec_language :: string
  ec_fail_closed :: bool
  ec_disabled_surfaces :: "surface set"
  ec_allow_list :: allow_list
  ec_custom_replacements :: "custom_replacement list"
  ec_ml :: ml_config
  ec_reveal_marker :: reveal_marker
  ec_detection_cache_cap :: nat

definition default_config :: "'x ext_scheme \<Rightarrow> engine_config" where
  "default_config X =
     \<lparr>ec_enabled = True, ec_profile = Balanced, ec_score_threshold = 1056964608,
      ec_enabled_categories = default_categories Balanced, ec_default_operator = OpToken,
      ec_entity_operators = [], ec_language = ''en'', ec_fail_closed = True,
      ec_disabled_surfaces = {}, ec_allow_list = al_with_common_words X,
      ec_custom_replacements = [], ec_ml = default_ml_config,
      ec_reveal_marker = default_reveal_marker, ec_detection_cache_cap = 50000\<rparr>"

definition for_profile :: "'x ext_scheme \<Rightarrow> profile \<Rightarrow> engine_config" where
  "for_profile X p =
     (default_config X)\<lparr>ec_profile := p, ec_score_threshold := default_threshold p,
        ec_enabled_categories := default_categories p,
        ec_default_operator := default_operator_of p\<rparr>"

text \<open>
  \<open>EngineConfigShadow\<close> after serde has filled the fields that have a serde default: only the
  three profile-derived fields can still be absent.
\<close>

record config_shadow =
  sh_enabled :: bool
  sh_profile :: profile
  sh_score_threshold :: "f32 option"
  sh_enabled_categories :: "category set option"
  sh_default_operator :: "operator option"
  sh_entity_operators :: "(string \<times> operator) list"
  sh_language :: string
  sh_fail_closed :: bool
  sh_disabled_surfaces :: "surface set"
  sh_custom_replacements :: "custom_replacement list"
  sh_ml :: ml_config
  sh_reveal_marker :: reveal_marker
  sh_detection_cache_cap :: nat

definition config_of_shadow :: "'x ext_scheme \<Rightarrow> config_shadow \<Rightarrow> engine_config" where
  "config_of_shadow X s =
     \<lparr>ec_enabled = sh_enabled s, ec_profile = sh_profile s,
      ec_score_threshold =
        (case sh_score_threshold s of Some t \<Rightarrow> t | None \<Rightarrow> default_threshold (sh_profile s)),
      ec_enabled_categories =
        (case sh_enabled_categories s of Some c \<Rightarrow> c | None \<Rightarrow> default_categories (sh_profile s)),
      ec_default_operator =
        (case sh_default_operator s of Some p \<Rightarrow> p | None \<Rightarrow> default_operator_of (sh_profile s)),
      ec_entity_operators = sh_entity_operators s, ec_language = sh_language s,
      ec_fail_closed = sh_fail_closed s, ec_disabled_surfaces = sh_disabled_surfaces s,
      ec_allow_list = al_with_common_words X,
      ec_custom_replacements = sh_custom_replacements s, ec_ml = sh_ml s,
      ec_reveal_marker = sh_reveal_marker s,
      ec_detection_cache_cap = sh_detection_cache_cap s\<rparr>"

text \<open>What serde hands over for a document that sets at most the profile.\<close>

definition shadow_of_profile :: "profile \<Rightarrow> config_shadow" where
  "shadow_of_profile p =
     \<lparr>sh_enabled = True, sh_profile = p, sh_score_threshold = None,
      sh_enabled_categories = None, sh_default_operator = None, sh_entity_operators = [],
      sh_language = ''en'', sh_fail_closed = True, sh_disabled_surfaces = {},
      sh_custom_replacements = [], sh_ml = default_ml_config,
      sh_reveal_marker = default_reveal_marker, sh_detection_cache_cap = 50000\<rparr>"

definition entity_enabled :: "engine_config \<Rightarrow> string \<Rightarrow> bool" where
  "entity_enabled cfg entity_type \<longleftrightarrow>
     (if map_of (ec_entity_operators cfg) entity_type \<noteq> None then True
      else \<exists>c\<in>ec_enabled_categories cfg. entity_type \<in> set (entity_types c))"

definition operator_for :: "engine_config \<Rightarrow> string \<Rightarrow> operator" where
  "operator_for cfg entity_type =
     (case map_of (ec_entity_operators cfg) entity_type of
        Some p \<Rightarrow> p
      | None \<Rightarrow>
          if entity_type = ENTITY_CVV then OpRedact
          else if entity_type = ''CREDIT_CARD'' then OpMask ''*'' 4
          else ec_default_operator cfg)"

definition surface_enabled :: "engine_config \<Rightarrow> surface \<Rightarrow> bool" where
  "surface_enabled cfg s \<longleftrightarrow> s \<notin> ec_disabled_surfaces cfg"

definition unknown_entity_types :: "'x ext_scheme \<Rightarrow> engine_config \<Rightarrow> string list" where
  "unknown_entity_types X cfg =
     (let custom = set (map cr_entity_type (ec_custom_replacements cfg))
      in filter (\<lambda>k. if k \<in> custom then False
           else if k \<in> canonical_entity_types then False
           else case x_entity_canonical X k of
                  None \<Rightarrow> True
                | Some canonical \<Rightarrow> canonical \<noteq> k)
         (map fst (ec_entity_operators cfg)))"

end
