(* ===== verification/Manifest.thy ===== *)
theory Manifest
  imports Config
begin

text \<open>
  \<open>manifest.rs\<close>: the per-call unmask manifest, the instrumentation counters of a mask call and
  its outcome.  The manifest's \<open>call_id\<close> is a random audit tag that nothing in the engine reads
  and is left out; the counters are natural numbers, one request having far fewer than
  \<open>2 ^ 32\<close> leaves.
\<close>

record manifest_entry =
  me_canonical_form :: string
  me_token_handle :: string
  me_entity_kind :: string
  me_arrow_origin :: surface
  me_exposed_at :: "(nat \<times> nat) option"
  me_broker :: bool
  me_local :: bool

type_synonym unmask_manifest = "manifest_entry list"

definition manifest_new :: unmask_manifest where
  "manifest_new = []"

definition manifest_merge :: "unmask_manifest \<Rightarrow> unmask_manifest \<Rightarrow> unmask_manifest" where
  "manifest_merge m other = m @ other"

definition manifest_push :: "unmask_manifest \<Rightarrow> manifest_entry \<Rightarrow> unmask_manifest" where
  "manifest_push m e = m @ [e]"

definition manifest_lookup :: "unmask_manifest \<Rightarrow> string \<Rightarrow> string option" where
  "manifest_lookup m token =
     map_option me_canonical_form (find (\<lambda>e. me_token_handle e = token) m)"

record mask_stats =
  st_leaves :: nat
  st_hit :: nat
  st_fresh_miss :: nat
  st_ml_ran :: nat
  st_fail_open :: nat
  st_disabled :: nat

definition stats_default :: mask_stats where
  "stats_default = \<lparr>st_leaves = 0, st_hit = 0, st_fresh_miss = 0, st_ml_ran = 0,
     st_fail_open = 0, st_disabled = 0\<rparr>"

definition stats_disabled :: mask_stats where
  "stats_disabled = stats_default\<lparr>st_leaves := 1, st_disabled := 1\<rparr>"

definition stats_merge :: "mask_stats \<Rightarrow> mask_stats \<Rightarrow> mask_stats" where
  "stats_merge a b =
     \<lparr>st_leaves = st_leaves a + st_leaves b, st_hit = st_hit a + st_hit b,
      st_fresh_miss = st_fresh_miss a + st_fresh_miss b, st_ml_ran = st_ml_ran a + st_ml_ran b,
      st_fail_open = st_fail_open a + st_fail_open b,
      st_disabled = st_disabled a + st_disabled b\<rparr>"

record mask_outcome =
  mo_masked_text :: string
  mo_manifest :: unmask_manifest
  mo_stats :: mask_stats

definition passthrough :: "string \<Rightarrow> mask_stats \<Rightarrow> mask_outcome" where
  "passthrough txt stats =
     \<lparr>mo_masked_text = txt, mo_manifest = manifest_new, mo_stats = stats\<rparr>"

section \<open>Lookup\<close>

lemma manifest_lookup_Nil [simp]: "manifest_lookup [] t = None"
  by (simp add: manifest_lookup_def)

lemma manifest_lookup_Cons [simp]:
  "manifest_lookup (e # m) t =
     (if me_token_handle e = t then Some (me_canonical_form e) else manifest_lookup m t)"
  by (simp add: manifest_lookup_def)

lemma manifest_lookup_append:
  "manifest_lookup (m @ n) t =
     (case manifest_lookup m t of None \<Rightarrow> manifest_lookup n t | Some v \<Rightarrow> Some v)"
  by (induction m) auto

lemma manifest_lookup_None_iff:
  "manifest_lookup m t = None \<longleftrightarrow> t \<notin> set (map me_token_handle m)"
  by (induction m) auto

text \<open>A manifest that gives one handle one plaintext is looked up as a relation.\<close>

definition manifest_functional :: "unmask_manifest \<Rightarrow> bool" where
  "manifest_functional m \<longleftrightarrow>
     (\<forall>a\<in>set m. \<forall>b\<in>set m. me_token_handle a = me_token_handle b \<longrightarrow>
        me_canonical_form a = me_canonical_form b)"

lemma manifest_functional_lookup:
  "manifest_functional m \<Longrightarrow> e \<in> set m \<Longrightarrow>
     manifest_lookup m (me_token_handle e) = Some (me_canonical_form e)"
proof (induction m)
  case Nil
  then show ?case by simp
next
  case (Cons a m)
  show ?case
  proof (cases "me_token_handle a = me_token_handle e")
    case True
    with Cons.prems have "me_canonical_form a = me_canonical_form e"
      unfolding manifest_functional_def by (meson list.set_intros(1))
    with True show ?thesis by simp
  next
    case False
    with Cons.prems(2) have "e \<in> set m" by auto
    moreover have "manifest_functional m"
      using Cons.prems(1) unfolding manifest_functional_def by (meson list.set_intros(2))
    ultimately show ?thesis using Cons.IH False by simp
  qed
qed

lemma stats_merge_assoc: "stats_merge (stats_merge a b) c = stats_merge a (stats_merge b c)"
  by (simp add: stats_merge_def)

end
