(* ===== verification/Instances.thy ===== *)
theory Instances
  imports Externals
begin

text \<open>
  One concrete choice of the external functions, on which the hypotheses about them hold and
  the definitions of the development evaluate.  The digest keeps the end of its input, the
  cipher is the identity, the pattern engines search for the pattern as a literal and the
  analyzer reports the first \<open>bob\<close> of a text as a person.
\<close>

function find_all :: "string \<Rightarrow> nat \<Rightarrow> string \<Rightarrow> (nat \<times> nat) list" where
  "find_all p off [] = []"
| "find_all p off (c # cs) =
     (if p \<noteq> [] \<and> prefix p (c # cs)
      then (off, off + length p) # find_all p (off + length p) (drop (length p - 1) cs)
      else find_all p (Suc off) cs)"
  by pat_completeness auto
termination
  by (relation "measure (\<lambda>(p, off, s). length s)") auto

definition sample_analyze ::
  "string \<Rightarrow> string \<Rightarrow> nlp_artifacts \<Rightarrow> f32 \<Rightarrow> recog_result list" where
  "sample_analyze txt lang na thr =
     (case str_find ''bob'' txt of
        None \<Rightarrow> []
      | Some i \<Rightarrow>
          [\<lparr>rr_start = i, rr_end = i + 3, rr_entity = ''PERSON'', rr_score = 1063675494,
            rr_pattern_name = None\<rparr>])"

definition sample_ext :: ext where
  "sample_ext =
     \<lparr>x_blake3 = (\<lambda>s. take 32 (rev s @ replicate 32 (CHR 0x00))),
      x_to_uppercase = map ascii_upper,
      x_to_lowercase = map ascii_lower,
      x_is_alphanumeric = (\<lambda>ch. case ch of [c] \<Rightarrow> is_alnum_b c | _ \<Rightarrow> False),
      x_is_whitespace = (\<lambda>ch. ch = '' ''),
      x_f32_sub = (\<lambda>a b. a),
      x_encrypt = (\<lambda>k n p. Inr p),
      x_decrypt = (\<lambda>k n c. Inr c),
      x_random = (\<lambda>i n. replicate n (CHR ''r'')),
      x_re_escape = id,
      x_re_build = (\<lambda>p ci. None),
      x_re_find_iter = (\<lambda>p ci s. find_all p 0 s),
      x_ac_build = (\<lambda>ci p. None),
      x_ac_find_iter = (\<lambda>ci p s. find_all p 0 s),
      x_analyze = sample_analyze,
      x_rr_text = (\<lambda>r s. str_slice (rr_start r) (rr_end r) s),
      x_generic_entropy_pattern = ''generic_high_entropy'',
      x_entity_canonical = (\<lambda>e. Some e),
      x_glob_new = (\<lambda>p. None),
      x_glob_match = (\<lambda>p s. p = s),
      x_url_host = (\<lambda>s. if prefix ''https://'' s then Some (drop 8 s) else None),
      x_shlex_split = (\<lambda>s. Some (str_split (\<lambda>ch. ch = '' '') s))\<rparr>"

lemma sample_ext_sel [simp]:
  "x_to_uppercase sample_ext = map ascii_upper"
  "x_encrypt sample_ext k n p = Inr p"
  "x_decrypt sample_ext k n p = Inr p"
  by (simp_all add: sample_ext_def)

lemma sample_blake3_ok: "blake3_ok sample_ext"
  by (auto simp: blake3_ok_def sample_ext_def min_def)

lemma sample_upper_ascii_ok: "upper_ascii_ok sample_ext"
  by (simp add: upper_ascii_ok_def)

lemma find_all_sound:
  "(a, b) \<in> set (find_all p off s) \<Longrightarrow> p \<noteq> [] \<and> off \<le> a \<and> b = a + length p \<and> b \<le> off + length s"
proof (induction p off s rule: find_all.induct)
  case (1 p off)
  then show ?case by simp
next
  case (2 p off c cs)
  show ?case
  proof (cases "p \<noteq> [] \<and> prefix p (c # cs)")
    case True
    then have le: "length p \<le> Suc (length cs)" by (auto dest: prefix_length_le)
    from True "2.prems" consider "a = off" "b = off + length p"
      | "(a, b) \<in> set (find_all p (off + length p) (drop (length p - 1) cs))" by auto
    then show ?thesis
    proof cases
      case 1
      with True le show ?thesis by simp
    next
      case 2
      with "2.IH"(1) [OF True] True le show ?thesis by auto
    qed
  next
    case False
    with "2.prems" have "(a, b) \<in> set (find_all p (Suc off) cs)" by (simp split: if_splits)
    from "2.IH"(2) [OF False this] show ?thesis by auto
  qed
qed

end
