(* ===== verification/Store.thy ===== *)
theory Store
  imports Tokens Manifest Instances
begin

text \<open>
  \<open>store.rs\<close>: the session store.  A store holds the session key, the token salt, the map from
  token handles to encrypted entries, the tombstoned handles and the handles promoted for tool
  input.  The state also counts the draws taken from the random source, and the operations that
  read the clock (\<open>Instant::now()\<close>) take the instant as an argument.  The hash map is an
  association list with distinct keys.
\<close>

section \<open>State\<close>

datatype token_kind = Pii | Broker | Local

record revealed =
  rv_value :: string
  rv_secret_name :: "string option"

record store_entry =
  se_original_encrypted :: string
  se_nonce :: string
  se_kind :: token_kind
  se_secret_name :: "string option"
  se_expires_at :: "nat option"

record session_store =
  ss_session_key :: string
  ss_salt :: string
  ss_token_map :: "(string \<times> store_entry) list"
  ss_tombstoned :: "string set"
  ss_tool_promoted :: "string set"
  ss_draws :: nat

section \<open>Operations\<close>

definition store_with_key_and_salt :: "string \<Rightarrow> string \<Rightarrow> nat \<Rightarrow> session_store" where
  "store_with_key_and_salt key salt draws =
     \<lparr>ss_session_key = key, ss_salt = salt, ss_token_map = [], ss_tombstoned = {},
      ss_tool_promoted = {}, ss_draws = draws\<rparr>"

definition store_new :: "'x ext_scheme \<Rightarrow> nat \<Rightarrow> session_store" where
  "store_new X draws =
     store_with_key_and_salt (x_random X draws 32) (x_random X (draws + 1) 16) (draws + 2)"

definition store_with_salt :: "'x ext_scheme \<Rightarrow> string \<Rightarrow> nat \<Rightarrow> session_store" where
  "store_with_salt X salt draws =
     store_with_key_and_salt (x_random X draws 32) salt (draws + 1)"

text \<open>The ciphertext and its nonce; the draw is taken whether or not the cipher succeeds.\<close>

definition store_encrypt ::
  "'x ext_scheme \<Rightarrow> session_store \<Rightarrow> string \<Rightarrow> (string \<times> string) result \<times> session_store" where
  "store_encrypt X s value =
     (let nonce = x_random X (ss_draws s) 12;
          s' = s\<lparr>ss_draws := ss_draws s + 1\<rparr>
      in case x_encrypt X (ss_session_key s) nonce value of
           Inl e \<Rightarrow> (Inl (EncryptionFailed e), s')
         | Inr ct \<Rightarrow> (Inr (ct, nonce), s'))"

text \<open>The wording of \<open>FromUtf8Error\<close> is not kept: every caller drops it.\<close>

definition store_decrypt :: "'x ext_scheme \<Rightarrow> session_store \<Rightarrow> string \<Rightarrow> string \<Rightarrow> string result" where
  "store_decrypt X s ct nonce =
     (case x_decrypt X (ss_session_key s) nonce ct of
        Inl e \<Rightarrow> Inl (DecryptionFailed e)
      | Inr pt \<Rightarrow> if utf8_ok pt then Inr pt else Inl (DecryptionFailed ''invalid utf-8 sequence''))"

definition insert_if_absent ::
  "'x ext_scheme \<Rightarrow> string \<Rightarrow> string \<Rightarrow> token_kind \<Rightarrow> string option \<Rightarrow> nat option \<Rightarrow>
   session_store \<Rightarrow> unit result \<times> session_store" where
  "insert_if_absent X token plaintext kind secret_name expires_at s =
     (if token \<in> ss_tombstoned s \<or> map_of (ss_token_map s) token \<noteq> None then (Inr (), s)
      else
        (case store_encrypt X s plaintext of
           (Inl e, s') \<Rightarrow> (Inl e, s')
         | (Inr (ct, nonce), s') \<Rightarrow>
             (Inr (),
              s'\<lparr>ss_token_map :=
                   (token,
                    \<lparr>se_original_encrypted = ct, se_nonce = nonce, se_kind = kind,
                     se_secret_name = secret_name, se_expires_at = expires_at\<rparr>)
                   # ss_token_map s'\<rparr>)))"

definition with_token :: "string \<Rightarrow> unit result \<times> session_store \<Rightarrow> string result \<times> session_store" where
  "with_token token r = (map_sum id (\<lambda>_. token) (fst r), snd r)"

definition intern ::
  "'x ext_scheme \<Rightarrow> string \<Rightarrow> string \<Rightarrow> session_store \<Rightarrow> string result \<times> session_store" where
  "intern X entity_type plaintext s =
     (let token = make_token X entity_type plaintext (ss_salt s)
      in with_token token (insert_if_absent X token plaintext Pii None None s))"

definition intern_fixed ::
  "'x ext_scheme \<Rightarrow> string \<Rightarrow> string \<Rightarrow> session_store \<Rightarrow> unit result \<times> session_store" where
  "intern_fixed X token plaintext s = insert_if_absent X token plaintext Pii None None s"

definition intern_broker ::
  "'x ext_scheme \<Rightarrow> nat \<Rightarrow> string \<Rightarrow> string \<Rightarrow> nat option \<Rightarrow> session_store \<Rightarrow>
   string result \<times> session_store" where
  "intern_broker X now name plaintext ttl s =
     (let entity = BROKER_PREFIX @ slugify name;
          token = make_token X entity plaintext (ss_salt s);
          expires_at = map_option (\<lambda>d. now + d) ttl
      in with_token token (insert_if_absent X token plaintext Broker (Some name) expires_at s))"

definition intern_local ::
  "'x ext_scheme \<Rightarrow> string \<Rightarrow> string \<Rightarrow> session_store \<Rightarrow> string result \<times> session_store" where
  "intern_local X name plaintext s =
     (let token = make_token X (slugify name) plaintext (ss_salt s)
      in with_token token (insert_if_absent X token plaintext Local None None s))"

definition live :: "nat \<Rightarrow> store_entry \<Rightarrow> bool" where
  "live now e = (case se_expires_at e of Some deadline \<Rightarrow> now < deadline | None \<Rightarrow> True)"

definition reveal :: "'x ext_scheme \<Rightarrow> nat \<Rightarrow> session_store \<Rightarrow> string \<Rightarrow> string option" where
  "reveal X now s token =
     (case map_of (ss_token_map s) token of
        None \<Rightarrow> None
      | Some e \<Rightarrow>
          if se_kind e \<noteq> Pii \<or> \<not> live now e then None
          else (case store_decrypt X s (se_original_encrypted e) (se_nonce e) of
                  Inl _ \<Rightarrow> None
                | Inr v \<Rightarrow> Some v))"

definition reveal_for ::
  "'x ext_scheme \<Rightarrow> nat \<Rightarrow> session_store \<Rightarrow> string \<Rightarrow> token_kind \<Rightarrow> revealed option" where
  "reveal_for X now s token want =
     (case map_of (ss_token_map s) token of
        None \<Rightarrow> None
      | Some e \<Rightarrow>
          if se_kind e \<noteq> want \<or> \<not> live now e then None
          else (case store_decrypt X s (se_original_encrypted e) (se_nonce e) of
                  Inl _ \<Rightarrow> None
                | Inr v \<Rightarrow> Some \<lparr>rv_value = v, rv_secret_name = se_secret_name e\<rparr>))"

definition class_of :: "nat \<Rightarrow> session_store \<Rightarrow> string \<Rightarrow> (token_kind \<times> string option) option" where
  "class_of now s token =
     (case map_of (ss_token_map s) token of
        None \<Rightarrow> None
      | Some e \<Rightarrow> if live now e then Some (se_kind e, se_secret_name e) else None)"

definition local_pairs :: "'x ext_scheme \<Rightarrow> nat \<Rightarrow> session_store \<Rightarrow> (string \<times> string) list" where
  "local_pairs X now s =
     List.map_filter
       (\<lambda>(handle, e).
          case store_decrypt X s (se_original_encrypted e) (se_nonce e) of
            Inl _ \<Rightarrow> None
          | Inr plain \<Rightarrow> Some (plain, handle))
       (filter (\<lambda>(_, e). se_kind e = Local \<and> live now e) (ss_token_map s))"

definition is_local :: "session_store \<Rightarrow> string \<Rightarrow> bool" where
  "is_local s token =
     (case map_of (ss_token_map s) token of None \<Rightarrow> False | Some e \<Rightarrow> se_kind e = Local)"

definition promote :: "string \<Rightarrow> session_store \<Rightarrow> session_store" where
  "promote token s =
     (if is_local s token then s\<lparr>ss_tool_promoted := insert token (ss_tool_promoted s)\<rparr> else s)"

definition is_tool_promoted :: "session_store \<Rightarrow> string \<Rightarrow> bool" where
  "is_tool_promoted s token \<longleftrightarrow> token \<in> ss_tool_promoted s"

definition remove_key :: "string \<Rightarrow> (string \<times> 'v) list \<Rightarrow> (string \<times> 'v) list" where
  "remove_key k kvs = filter (\<lambda>(k', _). k' \<noteq> k) kvs"

definition store_delete :: "string \<Rightarrow> session_store \<Rightarrow> bool \<times> session_store" where
  "store_delete token s =
     (map_of (ss_token_map s) token \<noteq> None,
      s\<lparr>ss_token_map := remove_key token (ss_token_map s),
        ss_tombstoned := insert token (ss_tombstoned s)\<rparr>)"

definition tombstone :: "string \<Rightarrow> session_store \<Rightarrow> session_store" where
  "tombstone token s =
     s\<lparr>ss_token_map := remove_key token (ss_token_map s),
       ss_tombstoned := insert token (ss_tombstoned s)\<rparr>"

definition store_len :: "session_store \<Rightarrow> nat" where
  "store_len s = length (ss_token_map s)"

section \<open>Sequences of operations\<close>

datatype store_op =
    SIntern string string
  | SInternFixed string string
  | SInternBroker nat string string "nat option"
  | SInternLocal string string
  | SPromote string
  | SDelete string
  | STombstone string

definition drop_value :: "'a result \<Rightarrow> unit result" where
  "drop_value r = map_sum id (\<lambda>_. ()) r"

fun store_exec :: "'x ext_scheme \<Rightarrow> store_op \<Rightarrow> session_store \<Rightarrow> unit result \<times> session_store" where
  "store_exec X (SIntern e p) s = map_prod drop_value id (intern X e p s)"
| "store_exec X (SInternFixed t p) s = intern_fixed X t p s"
| "store_exec X (SInternBroker now n p ttl) s =
     map_prod drop_value id (intern_broker X now n p ttl s)"
| "store_exec X (SInternLocal n p) s = map_prod drop_value id (intern_local X n p s)"
| "store_exec X (SPromote t) s = (Inr (), promote t s)"
| "store_exec X (SDelete t) s = (Inr (), snd (store_delete t s))"
| "store_exec X (STombstone t) s = (Inr (), tombstone t s)"

definition store_step :: "'x ext_scheme \<Rightarrow> store_op \<Rightarrow> session_store \<Rightarrow> session_store" where
  "store_step X p s = snd (store_exec X p s)"

definition store_get :: "session_store \<Rightarrow> string \<Rightarrow> store_entry option" where
  "store_get s t = map_of (ss_token_map s) t"

section \<open>Invariant\<close>

text \<open>
  Keys are distinct, no tombstoned handle has an entry, a promoted handle is a live \<open>Local\<close> one
  or has been tombstoned since, and only broker entries carry a registered name or a deadline.
\<close>

definition entry_wf :: "store_entry \<Rightarrow> bool" where
  "entry_wf e \<longleftrightarrow>
     (se_secret_name e \<noteq> None \<longleftrightarrow> se_kind e = Broker) \<and>
     (se_expires_at e \<noteq> None \<longrightarrow> se_kind e = Broker)"

definition store_wf :: "session_store \<Rightarrow> bool" where
  "store_wf s \<longleftrightarrow>
     distinct (map fst (ss_token_map s)) \<and>
     (\<forall>t\<in>ss_tombstoned s. store_get s t = None) \<and>
     (\<forall>t\<in>ss_tool_promoted s. t \<in> ss_tombstoned s \<or> is_local s t) \<and>
     (\<forall>(t, e)\<in>set (ss_token_map s). entry_wf e)"

lemma map_of_remove_key [simp]:
  "map_of (remove_key k kvs) = (map_of kvs)(k := None)"
  by (induction kvs) (auto simp: remove_key_def fun_eq_iff)

lemma fst_remove_key: "set (map fst (remove_key k kvs)) = set (map fst kvs) - {k}"
  by (auto simp: remove_key_def image_iff)

lemma distinct_remove_key [intro]:
  "distinct (map fst kvs) \<Longrightarrow> distinct (map fst (remove_key k kvs))"
  by (simp add: remove_key_def distinct_map_filter case_prod_unfold)

lemma set_remove_key_subset: "set (remove_key k kvs) \<subseteq> set kvs"
  by (auto simp: remove_key_def)

lemma is_local_iff: "is_local s t \<longleftrightarrow> (\<exists>e. store_get s t = Some e \<and> se_kind e = Local)"
  by (simp add: is_local_def store_get_def split: option.splits)

lemma store_wf_initial: "store_wf (store_with_key_and_salt k a n)"
  by (simp add: store_wf_def store_with_key_and_salt_def store_get_def)

text \<open>What an insertion does, on each branch.\<close>

lemma insert_if_absent_cases:
  obtains (skip) "t \<in> ss_tombstoned s \<or> store_get s t \<noteq> None"
      "insert_if_absent X t p k n x s = (Inr (), s)"
  | (failed) err where "t \<notin> ss_tombstoned s" "store_get s t = None"
      "x_encrypt X (ss_session_key s) (x_random X (ss_draws s) 12) p = Inl err"
      "insert_if_absent X t p k n x s =
         (Inl (EncryptionFailed err), s\<lparr>ss_draws := ss_draws s + 1\<rparr>)"
  | (stored) ct where "t \<notin> ss_tombstoned s" "store_get s t = None"
      "x_encrypt X (ss_session_key s) (x_random X (ss_draws s) 12) p = Inr ct"
      "insert_if_absent X t p k n x s =
         (Inr (), s\<lparr>ss_draws := ss_draws s + 1, ss_token_map :=
            (t, \<lparr>se_original_encrypted = ct, se_nonce = x_random X (ss_draws s) 12, se_kind = k,
                 se_secret_name = n, se_expires_at = x\<rparr>) # ss_token_map s\<rparr>)"
  by (cases "x_encrypt X (ss_session_key s) (x_random X (ss_draws s) 12) p")
    (auto simp: insert_if_absent_def store_encrypt_def store_get_def Let_def split: if_splits)

lemma snd_with_token [simp]: "snd (with_token t r) = snd r"
  by (simp add: with_token_def)

lemma fst_with_token: "fst (with_token t r) = (case fst r of Inl e \<Rightarrow> Inl e | Inr _ \<Rightarrow> Inr t)"
  by (auto simp: with_token_def split: sum.splits)

lemma insert_if_absent_wf:
  assumes "store_wf s" and "n \<noteq> None \<longleftrightarrow> k = Broker" and "x \<noteq> None \<longrightarrow> k = Broker"
  shows "store_wf (snd (insert_if_absent X t p k n x s))"
proof (cases rule: insert_if_absent_cases [of t s X p k n x])
  case skip
  with assms show ?thesis by simp
next
  case (failed err)
  with assms show ?thesis by (auto simp: store_wf_def store_get_def is_local_def)
next
  case (stored ct)
  then have "t \<notin> fst ` set (ss_token_map s)"
    by (metis map_of_eq_None_iff store_get_def)
  with stored assms show ?thesis
    by (auto simp: store_wf_def store_get_def is_local_def entry_wf_def split: option.splits)
qed

lemma tombstone_wf: "store_wf s \<Longrightarrow> store_wf (tombstone t s)"
  using set_remove_key_subset [of t "ss_token_map s"]
  by (auto simp: store_wf_def tombstone_def store_get_def is_local_def)

lemma snd_store_delete: "snd (store_delete t s) = tombstone t s"
  by (simp add: store_delete_def tombstone_def)

lemma promote_wf: "store_wf s \<Longrightarrow> store_wf (promote t s)"
  by (auto simp: store_wf_def promote_def store_get_def is_local_def)

lemmas store_step_defs =
  store_step_def intern_def intern_fixed_def intern_broker_def intern_local_def Let_def

lemma store_step_wf: "store_wf s \<Longrightarrow> store_wf (store_step X p s)"
  by (cases p) (simp_all add: store_step_defs insert_if_absent_wf promote_wf tombstone_wf
      snd_store_delete)

text \<open>Entries are written once, and tombstones stay.\<close>

lemma insert_if_absent_get:
  assumes "store_get s t' = Some e"
  shows "store_get (snd (insert_if_absent X t p k n x s)) t' = Some e"
  by (rule insert_if_absent_cases [of t s X p k n x]) (use assms in \<open>auto simp: store_get_def\<close>)

lemma insert_if_absent_fields [simp]:
  "ss_tombstoned (snd (insert_if_absent X t p k n x s)) = ss_tombstoned s"
  "ss_tool_promoted (snd (insert_if_absent X t p k n x s)) = ss_tool_promoted s"
  "ss_salt (snd (insert_if_absent X t p k n x s)) = ss_salt s"
  "ss_session_key (snd (insert_if_absent X t p k n x s)) = ss_session_key s"
  by (rule insert_if_absent_cases [of t s X p k n x], simp_all)+

lemma tombstone_get: "store_get (tombstone t s) t' = (if t' = t then None else store_get s t')"
  by (simp add: tombstone_def store_get_def)

lemma promote_fields [simp]:
  "store_get (promote t s) = store_get s" "ss_tombstoned (promote t s) = ss_tombstoned s"
  "ss_salt (promote t s) = ss_salt s" "ss_session_key (promote t s) = ss_session_key s"
  by (auto simp: promote_def store_get_def fun_eq_iff)

lemma tombstone_fields [simp]:
  "ss_tombstoned (tombstone t s) = insert t (ss_tombstoned s)"
  "ss_tool_promoted (tombstone t s) = ss_tool_promoted s"
  "ss_salt (tombstone t s) = ss_salt s" "ss_session_key (tombstone t s) = ss_session_key s"
  by (simp_all add: tombstone_def)

lemma store_step_fields [simp]:
  "ss_salt (store_step X p s) = ss_salt s"
  "ss_session_key (store_step X p s) = ss_session_key s"
  by (cases p; simp add: store_step_defs snd_store_delete)+

section \<open>The lifecycle of a token\<close>

text \<open>
  What the engine relies on, whatever operations are interleaved: an entry is written once, and
  a dead handle has no entry and stays dead.
\<close>

locale token_lifecycle =
  fixes wf :: "'s \<Rightarrow> bool"
    and known :: "'s \<Rightarrow> 't \<Rightarrow> 'e option"
    and dead :: "'s \<Rightarrow> 't set"
    and exec :: "'op \<Rightarrow> 's \<Rightarrow> 's"
  assumes wf_exec: "wf s \<Longrightarrow> wf (exec p s)"
    and dead_unknown: "wf s \<Longrightarrow> t \<in> dead s \<Longrightarrow> known s t = None"
    and dead_exec: "dead s \<subseteq> dead (exec p s)"
    and known_exec: "known s t = Some e \<Longrightarrow> known (exec p s) t = Some e \<or> t \<in> dead (exec p s)"
begin

lemma wf_run: "wf s \<Longrightarrow> wf (fold exec ops s)"
  by (induction ops arbitrary: s) (simp_all add: wf_exec)

lemma dead_run: "dead s \<subseteq> dead (fold exec ops s)"
proof (induction ops arbitrary: s)
  case Nil
  then show ?case by simp
next
  case (Cons p ops)
  from dead_exec [of s p] Cons [of "exec p s"] show ?case by simp
qed

lemma dead_forever: "wf s \<Longrightarrow> t \<in> dead s \<Longrightarrow> known (fold exec ops s) t = None"
  using dead_run [of s ops] by (blast intro: dead_unknown wf_run)

lemma known_run:
  "wf s \<Longrightarrow> known s t = Some e \<Longrightarrow>
   known (fold exec ops s) t = Some e \<or> t \<in> dead (fold exec ops s)"
proof (induction ops arbitrary: s)
  case Nil
  then show ?case by simp
next
  case (Cons p ops)
  from known_exec [OF Cons.prems(2), of p] show ?case
  proof
    assume "known (exec p s) t = Some e"
    with Cons.IH [of "exec p s"] Cons.prems(1) show ?thesis by (simp add: wf_exec)
  next
    assume "t \<in> dead (exec p s)"
    with dead_run [of "exec p s" ops] show ?thesis by auto
  qed
qed

text \<open>Two observations of a handle agree when both find it.\<close>

lemma known_stable:
  assumes "wf s" and "known s t = Some e" and "known (fold exec ops s) t = Some e'"
  shows "e' = e"
  using known_run [OF assms(1,2), of ops] assms dead_unknown [OF wf_run [OF assms(1)]] by auto

end

lemma store_step_dead: "ss_tombstoned s \<subseteq> ss_tombstoned (store_step X p s)"
  by (cases p) (auto simp: store_step_defs snd_store_delete)

lemma store_wf_dead: "store_wf s \<Longrightarrow> t \<in> ss_tombstoned s \<Longrightarrow> store_get s t = None"
  by (simp add: store_wf_def)

lemma store_step_get:
  "store_get s t = Some e \<Longrightarrow>
   store_get (store_step X p s) t = Some e \<or> t \<in> ss_tombstoned (store_step X p s)"
  by (cases p) (auto simp: store_step_defs snd_store_delete tombstone_get insert_if_absent_get)

interpretation store_life: token_lifecycle store_wf store_get ss_tombstoned "store_step X"
  for X :: "'x ext_scheme"
  by unfold_locales
    (auto simp: store_step_wf store_wf_dead intro: store_step_dead [THEN subsetD]
      dest: store_step_get)

lemma run_fields [simp]:
  "ss_salt (fold (store_step X) ops s) = ss_salt s"
  "ss_session_key (fold (store_step X) ops s) = ss_session_key s"
  by (induction ops arbitrary: s) simp_all

section \<open>Reading a token\<close>

text \<open>Decryption depends on the session key alone.\<close>

lemma store_decrypt_key:
  "ss_session_key s = ss_session_key s' \<Longrightarrow> store_decrypt X s = store_decrypt X s'"
  by (simp add: store_decrypt_def fun_eq_iff)

definition entry_value :: "'x ext_scheme \<Rightarrow> session_store \<Rightarrow> store_entry \<Rightarrow> string option" where
  "entry_value X s e =
     (case store_decrypt X s (se_original_encrypted e) (se_nonce e) of
        Inl _ \<Rightarrow> None | Inr v \<Rightarrow> Some v)"

lemma reveal_for_iff:
  "reveal_for X now s t k = Some r \<longleftrightarrow>
     (\<exists>e. store_get s t = Some e \<and> se_kind e = k \<and> live now e \<and>
        entry_value X s e = Some (rv_value r) \<and> rv_secret_name r = se_secret_name e)"
  by (auto simp: reveal_for_def store_get_def entry_value_def split: option.splits sum.splits)

lemma reveal_iff:
  "reveal X now s t = Some v \<longleftrightarrow>
     (\<exists>e. store_get s t = Some e \<and> se_kind e = Pii \<and> live now e \<and> entry_value X s e = Some v)"
  by (auto simp: reveal_def store_get_def entry_value_def split: option.splits sum.splits)

lemma reveal_reveal_for: "reveal X now s t = map_option rv_value (reveal_for X now s t Pii)"
  by (auto simp: reveal_def reveal_for_def split: option.splits sum.splits)

lemma class_of_iff:
  "class_of now s t = Some c \<longleftrightarrow>
     (\<exists>e. store_get s t = Some e \<and> live now e \<and> c = (se_kind e, se_secret_name e))"
  by (auto simp: class_of_def store_get_def split: option.splits)

lemma unknown_reads:
  assumes "store_get s t = None"
  shows "reveal X now s t = None" "reveal_for X now s t k = None" "class_of now s t = None"
    "\<not> is_local s t" "t \<notin> snd ` set (local_pairs X now s)"
proof -
  from assms have m: "map_of (ss_token_map s) t = None" by (simp add: store_get_def)
  then show "reveal X now s t = None" "reveal_for X now s t k = None" "class_of now s t = None"
    "\<not> is_local s t"
    by (simp_all add: reveal_def reveal_for_def class_of_def is_local_def)
  from m have "t \<notin> fst ` set (ss_token_map s)" by (simp add: map_of_eq_None_iff)
  then show "t \<notin> snd ` set (local_pairs X now s)"
    by (force simp: local_pairs_def List.map_filter_def split: sum.splits)
qed

text \<open>The cipher undoes itself under one key and nonce.\<close>

definition cipher_ok :: "'x ext_scheme \<Rightarrow> bool" where
  "cipher_ok X \<longleftrightarrow> (\<forall>k n p c. x_encrypt X k n p = Inr c \<longrightarrow> x_decrypt X k n c = Inr p)"

lemma insert_if_absent_value:
  assumes "cipher_ok X" and "utf8_ok p" and "t \<notin> ss_tombstoned s" and "store_get s t = None"
    and "insert_if_absent X t p k n x s = (Inr (), s')"
  shows "\<exists>e. store_get s' t = Some e \<and> se_kind e = k \<and> se_secret_name e = n \<and>
    se_expires_at e = x \<and> entry_value X s' e = Some p"
  by (rule insert_if_absent_cases [of t s X p k n x])
    (use assms in \<open>auto simp: store_get_def entry_value_def store_decrypt_def cipher_ok_def
        split: if_splits\<close>)

section \<open>The abstract store\<close>

text \<open>
  What the store promises: a table from handles to (plaintext, kind, name, deadline), a set of
  dead handles and a set of promoted ones.  No key, nonce, ciphertext or random draw is visible.
\<close>

record abs_entry =
  ae_value :: "string option"
  ae_kind :: token_kind
  ae_name :: "string option"
  ae_deadline :: "nat option"

record abs_store =
  as_table :: "string \<Rightarrow> abs_entry option"
  as_dead :: "string set"
  as_promoted :: "string set"

definition abs_entry :: "'x ext_scheme \<Rightarrow> session_store \<Rightarrow> store_entry \<Rightarrow> abs_entry" where
  "abs_entry X s e =
     \<lparr>ae_value = entry_value X s e, ae_kind = se_kind e, ae_name = se_secret_name e,
      ae_deadline = se_expires_at e\<rparr>"

definition abs_store :: "'x ext_scheme \<Rightarrow> session_store \<Rightarrow> abs_store" where
  "abs_store X s =
     \<lparr>as_table = (\<lambda>t. map_option (abs_entry X s) (store_get s t)), as_dead = ss_tombstoned s,
      as_promoted = ss_tool_promoted s\<rparr>"

definition spec_put :: "string \<Rightarrow> abs_entry \<Rightarrow> abs_store \<Rightarrow> abs_store" where
  "spec_put t e a =
     (if t \<in> as_dead a \<or> as_table a t \<noteq> None then a
      else a\<lparr>as_table := (as_table a)(t \<mapsto> e)\<rparr>)"

definition spec_kill :: "string \<Rightarrow> abs_store \<Rightarrow> abs_store" where
  "spec_kill t a = a\<lparr>as_table := (as_table a)(t := None), as_dead := insert t (as_dead a)\<rparr>"

definition pii_entry :: "string \<Rightarrow> abs_entry" where
  "pii_entry p = \<lparr>ae_value = Some p, ae_kind = Pii, ae_name = None, ae_deadline = None\<rparr>"

fun spec_exec :: "'x ext_scheme \<Rightarrow> string \<Rightarrow> store_op \<Rightarrow> abs_store \<Rightarrow> abs_store" where
  "spec_exec X salt (SIntern e p) a = spec_put (make_token X e p salt) (pii_entry p) a"
| "spec_exec X salt (SInternFixed t p) a = spec_put t (pii_entry p) a"
| "spec_exec X salt (SInternBroker now n p ttl) a =
     spec_put (make_token X (BROKER_PREFIX @ slugify n) p salt)
       \<lparr>ae_value = Some p, ae_kind = Broker, ae_name = Some n,
        ae_deadline = map_option (\<lambda>d. now + d) ttl\<rparr> a"
| "spec_exec X salt (SInternLocal n p) a =
     spec_put (make_token X (slugify n) p salt)
       \<lparr>ae_value = Some p, ae_kind = Local, ae_name = None, ae_deadline = None\<rparr> a"
| "spec_exec X salt (SPromote t) a =
     (if \<exists>e. as_table a t = Some e \<and> ae_kind e = Local
      then a\<lparr>as_promoted := insert t (as_promoted a)\<rparr> else a)"
| "spec_exec X salt (SDelete t) a = spec_kill t a"
| "spec_exec X salt (STombstone t) a = spec_kill t a"

fun op_text_ok :: "store_op \<Rightarrow> bool" where
  "op_text_ok (SIntern e p) = utf8_ok p"
| "op_text_ok (SInternFixed t p) = utf8_ok p"
| "op_text_ok (SInternBroker now n p ttl) = utf8_ok p"
| "op_text_ok (SInternLocal n p) = utf8_ok p"
| "op_text_ok _ = True"

lemma entry_value_key:
  "ss_session_key s = ss_session_key s' \<Longrightarrow> entry_value X s = entry_value X s'"
  by (simp add: fun_eq_iff entry_value_def store_decrypt_key [of s s'])

lemma abs_entry_key:
  "ss_session_key s = ss_session_key s' \<Longrightarrow> abs_entry X s = abs_entry X s'"
  by (simp add: fun_eq_iff abs_entry_def entry_value_key [of s s'])

lemma abs_entry_update [simp]:
  "abs_entry X (s\<lparr>ss_draws := d\<rparr>) = abs_entry X s"
  "abs_entry X (s\<lparr>ss_draws := d, ss_token_map := m\<rparr>) = abs_entry X s"
  "abs_entry X (s\<lparr>ss_tool_promoted := u\<rparr>) = abs_entry X s"
  "abs_entry X (tombstone t s) = abs_entry X s"
  by (rule abs_entry_key; simp)+

lemma store_get_update [simp]:
  "store_get (s\<lparr>ss_draws := d\<rparr>) = store_get s"
  "store_get (s\<lparr>ss_tool_promoted := u\<rparr>) = store_get s"
  "store_get (s\<lparr>ss_draws := d, ss_token_map := (t, e) # ss_token_map s\<rparr>) = (store_get s)(t \<mapsto> e)"
  by (auto simp: store_get_def)

lemma insert_if_absent_refines:
  assumes "cipher_ok X" and "utf8_ok p"
  shows "abs_store X (snd (insert_if_absent X t p k n x s)) =
    (if fst (insert_if_absent X t p k n x s) = Inr ()
     then spec_put t \<lparr>ae_value = Some p, ae_kind = k, ae_name = n, ae_deadline = x\<rparr>
            (abs_store X s)
     else abs_store X s)"
proof (cases rule: insert_if_absent_cases [of t s X p k n x])
  case skip
  then show ?thesis by (auto simp: spec_put_def abs_store_def)
next
  case (failed err)
  then show ?thesis by (simp add: abs_store_def)
next
  case (stored ct)
  have "abs_entry X s \<lparr>se_original_encrypted = ct, se_nonce = x_random X (ss_draws s) 12,
      se_kind = k, se_secret_name = n, se_expires_at = x\<rparr> =
    \<lparr>ae_value = Some p, ae_kind = k, ae_name = n, ae_deadline = x\<rparr>"
    using assms stored(3) by (simp add: abs_entry_def entry_value_def store_decrypt_def cipher_ok_def)
  with stored show ?thesis
    by (simp add: spec_put_def abs_store_def fun_eq_iff)
qed

lemma tombstone_refines: "abs_store X (tombstone t s) = spec_kill t (abs_store X s)"
  by (simp add: spec_kill_def abs_store_def tombstone_get fun_eq_iff)

lemma promote_refines: "abs_store X (promote t s) = spec_exec X salt (SPromote t) (abs_store X s)"
  by (auto simp: abs_store_def promote_def is_local_iff abs_entry_def)

lemma drop_value_with_token [simp]: "drop_value (fst (with_token t r)) = fst r"
  by (cases "fst r") (simp_all add: drop_value_def with_token_def)

text \<open>
  C16: every store operation implements the abstract one: under a cipher that decrypts what it
  encrypts, an operation that returns \<open>Ok\<close> changes the table of plaintexts, kinds, names and
  deadlines exactly as specified (first writer wins, tombstones win over both), and one that
  fails changes nothing that can be read.
\<close>

theorem store_refines:
  assumes "cipher_ok X" and "op_text_ok p"
  shows "abs_store X (store_step X p s) =
    (if fst (store_exec X p s) = Inr () then spec_exec X (ss_salt s) p (abs_store X s)
     else abs_store X s)"
proof (cases p)
  case (SPromote t)
  then show ?thesis
    by (simp add: store_step_def promote_refines [where salt = "ss_salt s"] del: spec_exec.simps)
qed (use assms in \<open>simp_all add: store_step_defs insert_if_absent_refines tombstone_refines
      snd_store_delete pii_entry_def\<close>)

lemma sample_cipher_ok: "cipher_ok sample_ext"
  by (simp add: cipher_ok_def)

definition sample_store :: session_store where
  "sample_store = store_with_key_and_salt ''k'' ''s'' 0"

lemma sample_store_wf: "store_wf sample_store"
  by (simp add: sample_store_def store_wf_initial)

theorem store_refines_witness:
  "abs_store sample_ext (store_step sample_ext (SIntern ''PERSON'' ''bob'') sample_store) =
   spec_exec sample_ext ''s'' (SIntern ''PERSON'' ''bob'') (abs_store sample_ext sample_store)"
proof -
  have "utf8_ok ''bob''" by code_simp
  moreover have "fst (store_exec sample_ext (SIntern ''PERSON'' ''bob'') sample_store) = Inr ()"
    by (simp add: intern_def insert_if_absent_def store_encrypt_def Let_def drop_value_def
        with_token_def sample_store_def store_with_key_and_salt_def)
  moreover have "ss_salt sample_store = ''s''"
    by (simp add: sample_store_def store_with_key_and_salt_def)
  ultimately show ?thesis
    using store_refines [OF sample_cipher_ok, of "SIntern ''PERSON'' ''bob''" sample_store] by simp
qed

text \<open>
  A deleted token never resolves again.  Once a handle is tombstoned, no sequence of store
  operations (re-interning it as any kind, promoting it, deleting others) makes it readable:
  both reveals, the class lookup, the local test and the local pairs all refuse it.
\<close>

lemma tombstone_never_resolves:
  assumes "store_wf s"
  shows "reveal X now (fold (store_step X) ops (tombstone t s)) t = None \<and>
    reveal_for X now (fold (store_step X) ops (tombstone t s)) t k = None \<and>
    class_of now (fold (store_step X) ops (tombstone t s)) t = None \<and>
    \<not> is_local (fold (store_step X) ops (tombstone t s)) t \<and>
    t \<notin> snd ` set (local_pairs X now (fold (store_step X) ops (tombstone t s)))"
proof -
  have "store_get (fold (store_step X) ops (tombstone t s)) t = None"
    by (rule store_life.dead_forever) (simp_all add: tombstone_wf assms)
  then show ?thesis by (simp add: unknown_reads)
qed

theorem tombstone_never_resolves_witness:
  "reveal sample_ext 0
     (fold (store_step sample_ext) [SInternFixed ''[A]'' ''bob''] (tombstone ''[A]'' sample_store))
     ''[A]'' = None"
  using tombstone_never_resolves [OF sample_store_wf] by blast

text \<open>
  Mint then reveal.  A value interned under a fresh handle of kind \<open>k\<close> is read back
  exactly, with the registered name of its entry, by the reveal of that kind as long as its
  deadline lies ahead, and keeps being read back after any further operations that do not
  delete the handle; a reveal of any other kind refuses it.
\<close>

lemma mint_reveal_stable:
  assumes "cipher_ok X" and "utf8_ok p" and "store_wf s"
    and "t \<notin> ss_tombstoned s" and "store_get s t = None"
    and "n \<noteq> None \<longleftrightarrow> k = Broker" and "x \<noteq> None \<longrightarrow> k = Broker"
    and "insert_if_absent X t p k n x s = (Inr (), s')"
    and "t \<notin> ss_tombstoned (fold (store_step X) ops s')"
    and "\<forall>d. x = Some d \<longrightarrow> now < d"
  shows "reveal_for X now (fold (store_step X) ops s') t want =
    (if want = k then Some \<lparr>rv_value = p, rv_secret_name = n\<rparr> else None)"
proof -
  obtain e where e: "store_get s' t = Some e" "se_kind e = k" "se_secret_name e = n"
    "se_expires_at e = x" "entry_value X s' e = Some p"
    using insert_if_absent_value [OF assms(1,2,4,5,8)] by blast
  have "store_wf s'"
    using insert_if_absent_wf [OF assms(3,6,7), of X t p] assms(8) by simp
  from store_life.known_run [OF this e(1)] assms(9)
  have get: "store_get (fold (store_step X) ops s') t = Some e" by blast
  have "entry_value X (fold (store_step X) ops s') e = Some p"
    using e(5) entry_value_key [of "fold (store_step X) ops s'" s' X] by simp
  moreover have "live now e"
    using e(4) assms(10) by (auto simp: live_def split: option.splits)
  ultimately show ?thesis
    using get e unfolding reveal_for_def store_get_def [symmetric] entry_value_def
    by (auto split: sum.splits)
qed

theorem mint_reveal_stable_witness:
  "\<exists>s'. insert_if_absent sample_ext ''[B]'' ''x'' Broker (Some ''db'') None sample_store = (Inr (), s') \<and>
     reveal_for sample_ext 0 (fold (store_step sample_ext) [] s') ''[B]'' Broker =
       Some \<lparr>rv_value = ''x'', rv_secret_name = Some ''db''\<rparr> \<and>
     reveal_for sample_ext 0 (fold (store_step sample_ext) [] s') ''[B]'' Pii = None"
proof -
  define s' where "s' = snd (insert_if_absent sample_ext ''[B]'' ''x'' Broker (Some ''db'') None sample_store)"
  have fresh: "''[B]'' \<notin> ss_tombstoned sample_store" "store_get sample_store ''[B]'' = None"
    by (simp_all add: sample_store_def store_with_key_and_salt_def store_get_def)
  then have ins: "insert_if_absent sample_ext ''[B]'' ''x'' Broker (Some ''db'') None sample_store = (Inr (), s')"
    by (simp add: s'_def insert_if_absent_def store_encrypt_def Let_def store_get_def)
  have "utf8_ok ''x''" by code_simp
  note r = mint_reveal_stable [OF sample_cipher_ok this sample_store_wf fresh _ _ ins, of "[]" 0]
  show ?thesis
    using ins fresh(1) r [of Broker] r [of Pii]
    by (intro exI [of _ s']) (simp add: s'_def)
qed

text \<open>
  The store invariant of every reachable store: handles are distinct, a tombstoned handle
  has no entry, every promoted handle is \<open>Local\<close> or has been deleted since, and exactly the
  broker entries carry the registered name (and alone may expire).
\<close>

lemma store_wf_reachable:
  "store_wf (fold (store_step X) ops (store_with_key_and_salt key salt draws))"
  by (intro store_life.wf_run store_wf_initial)

end
