(* ===== verification/Cache.thy ===== *)
theory Cache
  imports Config Instances
begin

text \<open>
  \<open>cache.rs\<close>: the content-addressed detection cache, a bounded least-recently-used map.  The
  \<open>lru\<close> crate's map is a list of entries, most recently used first; \<open>get\<close> moves an entry to
  the front, \<open>put\<close> adds there and evicts the last entry of a full map, \<open>resize\<close> evicts from
  the back.  \<open>memo_table\<close> states what the engine relies on, and proves that memoizing through
  any such table is invisible.
\<close>

section \<open>Detections\<close>

datatype source = SrcRegex | SrcMl | SrcCustom | SrcSecret

record cached_detection =
  cd_start :: nat
  cd_end :: nat
  cd_entity_type :: string
  cd_score :: f32
  cd_source :: source
  cd_literal :: bool
  cd_fixed_token :: "string option"
  cd_secret_op :: "operator option"

record cache_key =
  ck_text_hash :: string
  ck_surface :: surface
  ck_policy_fp :: u64fp
  ck_ml_fp :: u64fp
  ck_secrets_fp :: u64fp

definition HASH_TEXT_DOMAIN :: string where
  "HASH_TEXT_DOMAIN = ''zlauder-detection-cache-key-v1''"

definition MAX_CACHED_DETECTIONS :: nat where
  "MAX_CACHED_DETECTIONS = 8192"

definition hash_text :: "'x ext_scheme \<Rightarrow> string \<Rightarrow> string" where
  "hash_text X txt = x_blake3 X (HASH_TEXT_DOMAIN @ txt)"

section \<open>The least-recently-used map\<close>

definition lru_get :: "'k \<Rightarrow> ('k \<times> 'v) list \<Rightarrow> 'v option \<times> ('k \<times> 'v) list" where
  "lru_get k kvs =
     (case map_of kvs k of
        None \<Rightarrow> (None, kvs)
      | Some v \<Rightarrow> (Some v, (k, v) # filter (\<lambda>(k', _). k' \<noteq> k) kvs))"

definition lru_put :: "nat \<Rightarrow> 'k \<Rightarrow> 'v \<Rightarrow> ('k \<times> 'v) list \<Rightarrow> ('k \<times> 'v) list" where
  "lru_put cap k v kvs =
     (if map_of kvs k \<noteq> None then (k, v) # filter (\<lambda>(k', _). k' \<noteq> k) kvs
      else (k, v) # take (cap - 1) kvs)"

definition lru_resize :: "nat \<Rightarrow> ('k \<times> 'v) list \<Rightarrow> ('k \<times> 'v) list" where
  "lru_resize cap kvs = take cap kvs"

record detection_cache =
  dc_inner :: "(cache_key \<times> cached_detection list) list"
  dc_inner_cap :: nat
  dc_cap :: nat

definition cache_new :: "nat \<Rightarrow> detection_cache" where
  "cache_new cap = \<lparr>dc_inner = [], dc_inner_cap = max cap 1, dc_cap = cap\<rparr>"

definition cache_get ::
  "cache_key \<Rightarrow> detection_cache \<Rightarrow> cached_detection list option \<times> detection_cache" where
  "cache_get k c =
     (if dc_cap c = 0 then (None, c)
      else (let (r, kvs) = lru_get k (dc_inner c) in (r, c\<lparr>dc_inner := kvs\<rparr>)))"

definition cache_insert ::
  "cache_key \<Rightarrow> cached_detection list \<Rightarrow> detection_cache \<Rightarrow> detection_cache" where
  "cache_insert k v c =
     (if length v > MAX_CACHED_DETECTIONS then c
      else if dc_cap c = 0 then c
      else
        (let c = (if dc_inner_cap c \<noteq> dc_cap c
                  then c\<lparr>dc_inner := lru_resize (dc_cap c) (dc_inner c), dc_inner_cap := dc_cap c\<rparr>
                  else c)
         in c\<lparr>dc_inner := lru_put (dc_inner_cap c) k v (dc_inner c)\<rparr>))"

definition cache_set_cap :: "nat \<Rightarrow> detection_cache \<Rightarrow> detection_cache" where
  "cache_set_cap n c =
     (if n = 0 then c\<lparr>dc_cap := n, dc_inner := []\<rparr>
      else c\<lparr>dc_cap := n, dc_inner := lru_resize n (dc_inner c), dc_inner_cap := n\<rparr>)"

text \<open>What a key is mapped to.\<close>

definition cache_view :: "detection_cache \<Rightarrow> cache_key \<Rightarrow> cached_detection list option" where
  "cache_view c k = (if dc_cap c = 0 then None else map_of (dc_inner c) k)"

definition cache_wf :: "detection_cache \<Rightarrow> bool" where
  "cache_wf c \<longleftrightarrow>
     distinct (map fst (dc_inner c)) \<and> 1 \<le> dc_inner_cap c \<and> length (dc_inner c) \<le> dc_inner_cap c \<and>
     (dc_cap c \<noteq> 0 \<longrightarrow> dc_inner_cap c = dc_cap c) \<and> (dc_cap c = 0 \<longrightarrow> dc_inner c = [])"

section \<open>The map laws\<close>

lemma map_of_drop_key: "map_of (filter (\<lambda>(k', _). k' \<noteq> k) kvs) = (map_of kvs)(k := None)"
  by (induction kvs) (auto simp: fun_eq_iff)

lemma map_of_take: "map_of (take n kvs) k = Some v \<Longrightarrow> map_of kvs k = Some v"
proof (induction kvs arbitrary: n)
  case Nil
  then show ?case by simp
next
  case (Cons a kvs)
  then show ?case by (cases n; cases a) (auto split: if_splits)
qed

lemma lru_get_value: "fst (lru_get k kvs) = map_of kvs k"
  by (simp add: lru_get_def split: option.splits)

lemma lru_get_view: "map_of (snd (lru_get k kvs)) = map_of kvs"
  by (auto simp: lru_get_def map_of_drop_key fun_eq_iff split: option.splits)

lemma lru_put_view: "map_of (lru_put cap k v kvs) k' = Some w \<Longrightarrow>
    (if k' = k then w = v else map_of kvs k' = Some w)"
  by (auto simp: lru_put_def map_of_drop_key dest: map_of_take split: if_splits)

lemma lru_put_same [simp]: "map_of (lru_put cap k v kvs) k = Some v"
  by (simp add: lru_put_def)

lemma length_filter_key:
  "distinct (map fst kvs) \<Longrightarrow> map_of kvs k = Some v \<Longrightarrow>
   Suc (length (filter (\<lambda>(k', _). k' \<noteq> k) kvs)) = length kvs"
proof (induction kvs)
  case Nil
  then show ?case by simp
next
  case (Cons a kvs)
  have "filter (\<lambda>(k', _). k' \<noteq> k) kvs = kvs" if "k \<notin> fst ` set kvs"
    using that by (intro filter_True) (auto simp: image_iff)
  with Cons show ?case by (cases a) (auto split: if_splits)
qed

lemma distinct_filter_key:
  "distinct (map fst kvs) \<Longrightarrow> distinct (map fst (filter P kvs))"
  by (rule distinct_map_filter)

lemma lru_get_wf:
  assumes "distinct (map fst kvs)"
  shows "distinct (map fst (snd (lru_get k kvs)))" "length (snd (lru_get k kvs)) = length kvs"
  using assms length_filter_key [OF assms, of k]
  by (auto simp: lru_get_def distinct_filter_key split: option.splits)

lemma lru_put_wf:
  assumes "distinct (map fst kvs)" and "length kvs \<le> cap" and "1 \<le> cap"
  shows "distinct (map fst (lru_put cap k v kvs))" "length (lru_put cap k v kvs) \<le> cap"
proof -
  have "k \<notin> set (map fst (take n kvs))" if "map_of kvs k = None" for n
    using that set_take_subset [of n kvs] by (auto simp: map_of_eq_None_iff)
  moreover have "distinct (map fst (take n kvs))" for n
    using assms(1) by (simp add: take_map [symmetric])
  moreover have "k \<notin> set (map fst (filter (\<lambda>(k', _). k' \<noteq> k) kvs))" by auto
  ultimately show "distinct (map fst (lru_put cap k v kvs))"
    using assms(1) distinct_filter_key [of kvs]
    by (simp only: lru_put_def distinct.simps list.map fst_conv split: if_split) blast
  show "length (lru_put cap k v kvs) \<le> cap"
    using assms length_filter_key [OF assms(1), of k] by (auto simp: lru_put_def)
qed

lemma lru_resize_wf:
  assumes "distinct (map fst kvs)"
  shows "distinct (map fst (lru_resize cap kvs))" "length (lru_resize cap kvs) \<le> cap"
  using assms by (simp_all add: lru_resize_def take_map [symmetric])

section \<open>The cache invariant\<close>

lemma cache_new_wf: "cache_wf (cache_new cap)"
  by (simp add: cache_wf_def cache_new_def)

lemma cache_get_wf: "cache_wf c \<Longrightarrow> cache_wf (snd (cache_get k c))"
  using lru_get_wf [of "dc_inner c" k]
  by (auto simp: cache_wf_def cache_get_def case_prod_unfold Let_def)

lemma cache_insert_wf: "cache_wf c \<Longrightarrow> cache_wf (cache_insert k v c)"
  using lru_put_wf [of "dc_inner c" "dc_inner_cap c" k v]
  by (auto simp: cache_wf_def cache_insert_def Let_def)

lemma cache_set_cap_wf: "cache_wf c \<Longrightarrow> cache_wf (cache_set_cap n c)"
  using lru_resize_wf [of "dc_inner c" n]
  by (auto simp: cache_wf_def cache_set_cap_def)

lemma cache_get_value: "fst (cache_get k c) = cache_view c k"
  by (simp add: cache_get_def cache_view_def lru_get_value case_prod_unfold Let_def)

lemma cache_get_view: "cache_view (snd (cache_get k c)) = cache_view c"
  by (auto simp: cache_get_def cache_view_def lru_get_view case_prod_unfold Let_def fun_eq_iff)

lemma cache_insert_view:
  "cache_view (cache_insert k v c) k' = Some w \<Longrightarrow>
   (k' = k \<and> w = v) \<or> cache_view c k' = Some w"
  by (auto simp: cache_view_def cache_insert_def Let_def lru_resize_def dest!: lru_put_view
      dest: map_of_take split: if_splits)

lemma cache_set_cap_view: "cache_wf c \<Longrightarrow> cache_view (cache_set_cap n c) k = Some w \<Longrightarrow> cache_view c k = Some w"
  by (auto simp: cache_view_def cache_set_cap_def lru_resize_def cache_wf_def dest: map_of_take
      split: if_splits)

section \<open>Memoizing through a table\<close>

text \<open>
  What the engine relies on: a table only ever returns what was inserted under that very key,
  and may forget anything at any time.  Under a validity predicate \<open>ok\<close> (the value is the
  result the computation has for the key) that every insertion respects, a memoized
  computation returns what the computation returns.
\<close>

locale memo_table =
  fixes wf :: "'s \<Rightarrow> bool"
    and view :: "'s \<Rightarrow> 'k \<Rightarrow> 'v option"
    and get :: "'k \<Rightarrow> 's \<Rightarrow> 'v option \<times> 's"
    and put :: "'k \<Rightarrow> 'v \<Rightarrow> 's \<Rightarrow> 's"
    and resize :: "nat \<Rightarrow> 's \<Rightarrow> 's"
  assumes get_value: "fst (get k s) = view s k"
    and get_view: "view (snd (get k s)) k' = Some w \<Longrightarrow> view s k' = Some w"
    and put_view: "view (put k v s) k' = Some w \<Longrightarrow> (k' = k \<and> w = v) \<or> view s k' = Some w"
    and resize_view: "wf s \<Longrightarrow> view (resize n s) k' = Some w \<Longrightarrow> view s k' = Some w"
    and get_wf: "wf s \<Longrightarrow> wf (snd (get k s))"
    and put_wf: "wf s \<Longrightarrow> wf (put k v s)"
    and resize_wf: "wf s \<Longrightarrow> wf (resize n s)"
begin

definition coherent :: "('k \<Rightarrow> 'v \<Rightarrow> bool) \<Rightarrow> 's \<Rightarrow> bool" where
  "coherent ok s \<longleftrightarrow> wf s \<and> (\<forall>k v. view s k = Some v \<longrightarrow> ok k v)"

lemma coherent_get: "coherent ok s \<Longrightarrow> coherent ok (snd (get k s))"
  by (auto simp: coherent_def get_wf dest: get_view)

lemma coherent_put: "coherent ok s \<Longrightarrow> ok k v \<Longrightarrow> coherent ok (put k v s)"
  by (auto simp: coherent_def put_wf dest!: put_view)

lemma coherent_resize: "coherent ok s \<Longrightarrow> coherent ok (resize n s)"
  by (auto simp: coherent_def resize_wf dest: resize_view)

lemma coherent_hit: "coherent ok s \<Longrightarrow> fst (get k s) = Some v \<Longrightarrow> ok k v"
  by (simp add: coherent_def get_value)

lemma coherent_put_all:
  "coherent ok s \<Longrightarrow> (\<forall>(k, v)\<in>set kvs. ok k v) \<Longrightarrow>
   coherent ok (fold (\<lambda>(k, v). put k v) kvs s)"
  by (induction kvs arbitrary: s) (auto simp: coherent_put)

text \<open>Look up, and on a miss compute and remember.\<close>

definition memo :: "'k \<Rightarrow> 'e + 'v \<Rightarrow> 's \<Rightarrow> ('e + 'v) \<times> 's" where
  "memo k r s =
     (case get k s of
        (Some v, s') \<Rightarrow> (Inr v, s')
      | (None, s') \<Rightarrow> (case r of Inl e \<Rightarrow> (Inl e, s') | Inr v \<Rightarrow> (Inr v, put k v s')))"

lemma memo_transparent:
  assumes "coherent ok s" and "\<And>v. r = Inr v \<Longrightarrow> ok k v" and "\<And>v. ok k v \<Longrightarrow> r = Inr v"
  shows "fst (memo k r s) = r" "coherent ok (snd (memo k r s))"
proof -
  obtain c s' where g: "get k s = (c, s')" by fastforce
  have s': "coherent ok s'" using coherent_get [OF assms(1), of k] g by simp
  have hit: "ok k v" if "c = Some v" for v
    using coherent_hit [OF assms(1), of k v] g that by simp
  show "fst (memo k r s) = r"
    using hit assms(3) by (cases c) (auto simp: memo_def g split: sum.splits)
  show "coherent ok (snd (memo k r s))"
    using s' assms(2) by (auto simp: memo_def g coherent_put split: option.splits sum.splits)
qed

end

interpretation dcache: memo_table cache_wf cache_view cache_get cache_insert cache_set_cap
  by unfold_locales
    (auto simp: cache_get_value cache_get_view cache_get_wf cache_insert_wf cache_set_cap_wf
      dest: cache_insert_view cache_set_cap_view)

datatype cache_op =
    CGet cache_key
  | CInsert cache_key "cached_detection list"
  | CSetCap nat

fun cache_exec :: "cache_op \<Rightarrow> detection_cache \<Rightarrow> detection_cache" where
  "cache_exec (CGet k) c = snd (cache_get k c)"
| "cache_exec (CInsert k v) c = cache_insert k v c"
| "cache_exec (CSetCap n) c = cache_set_cap n c"

fun last_insert :: "cache_key \<Rightarrow> cache_op list \<Rightarrow> cached_detection list option" where
  "last_insert k [] = None"
| "last_insert k (p # ops) =
     (case p of
        CInsert k' v \<Rightarrow> if k' = k \<and> length v \<le> MAX_CACHED_DETECTIONS then Some v
                        else last_insert k ops
      | _ \<Rightarrow> last_insert k ops)"

lemma cache_exec_wf: "cache_wf c \<Longrightarrow> cache_wf (cache_exec p c)"
  by (cases p) (simp_all add: cache_get_wf cache_insert_wf cache_set_cap_wf)

lemma cache_insert_same:
  "length v \<le> MAX_CACHED_DETECTIONS \<Longrightarrow> cache_view (cache_insert k v c) k \<in> {None, Some v}"
  by (simp add: cache_view_def cache_insert_def Let_def)

lemma cache_insert_large:
  "\<not> length v \<le> MAX_CACHED_DETECTIONS \<Longrightarrow> cache_insert k v c = c"
  by (simp add: cache_insert_def)

lemma cache_exec_view:
  assumes "cache_wf c" and "cache_view c k \<in> {None, last_insert k ops}"
  shows "cache_view (cache_exec p c) k \<in> {None, last_insert k (p # ops)}"
proof (cases p)
  case (CGet k')
  with assms show ?thesis by (simp add: cache_get_view)
next
  case (CInsert k' v)
  show ?thesis
  proof (cases "length v \<le> MAX_CACHED_DETECTIONS \<and> k' = k")
    case True
    with CInsert cache_insert_same [of v k c] show ?thesis by auto
  next
    case False
    have "cache_view (cache_insert k' v c) k = Some w \<Longrightarrow> cache_view c k = Some w" for w
      using False cache_insert_view [of k' v c k w] cache_insert_large [of v k' c] by auto
    with False CInsert assms(2) show ?thesis
      by (cases "cache_view (cache_insert k' v c) k") auto
  qed
next
  case (CSetCap n)
  have "cache_view (cache_set_cap n c) k = Some w \<Longrightarrow> cache_view c k = Some w" for w
    by (rule cache_set_cap_view [OF assms(1)])
  with CSetCap assms(2) show ?thesis by (cases "cache_view (cache_set_cap n c) k") auto
qed

lemma cache_run:
  "cache_wf (fold cache_exec ops (cache_new n)) \<and>
   cache_view (fold cache_exec ops (cache_new n)) k \<in> {None, last_insert k (rev ops)}"
proof (induction ops rule: rev_induct)
  case Nil
  then show ?case by (simp add: cache_new_wf) (simp add: cache_view_def cache_new_def)
next
  case (snoc p ops)
  then show ?case
    using cache_exec_view [of "fold cache_exec ops (cache_new n)" k "rev ops" p] cache_exec_wf
    by (simp del: last_insert.simps)
qed

text \<open>
  C22: the cache is bounded and never invents.  From an empty cache of any capacity, after any
  sequence of lookups, insertions and live capacity changes, it holds at most its capacity,
  one list per key, nothing while disabled, and a lookup returns exactly the list most
  recently inserted under that key or a miss.
\<close>

theorem cache_bounded_faithful:
  "cache_wf (fold cache_exec ops (cache_new n)) \<and>
   fst (cache_get k (fold cache_exec ops (cache_new n))) \<in> {None, last_insert k (rev ops)}"
  using cache_run [of ops n k] by (simp only: cache_get_value)

end
