(* ===== verification/SecretRules.thy ===== *)
theory SecretRules
  imports Tokens Cache
begin

text \<open>
  \<open>secrets.rs\<close>: the registered secrets.  \<open>compile_secrets\<close> validates the rules in order,
  \<open>secrets_fingerprint\<close> hashes what the cache key holds of the compiled set, and
  \<open>detect_secrets\<close> is the exact-literal pass that runs before every other detector.  The
  Aho-Corasick matcher of a secret is its value and case flag, handed to the external engine.
\<close>

section \<open>Rules\<close>

record secret_rule =
  sr_name :: string
  sr_value :: string
  sr_operator :: operator
  sr_case_sensitive :: bool
  sr_apply_to_surfaces :: "surface set option"

record compiled_secret =
  cs_name :: string
  cs_operator :: operator
  cs_value_hash :: string
  cs_case_insensitive :: bool
  cs_value :: string
  cs_surfaces :: "surface set option"

record secret_set =
  sset_compiled :: "compiled_secret list"
  sset_fp :: u64fp

definition compile_secret :: "'x ext_scheme \<Rightarrow> secret_rule \<Rightarrow> compiled_secret" where
  "compile_secret X r =
     \<lparr>cs_name = sr_name r, cs_operator = sr_operator r, cs_value_hash = x_blake3 X (sr_value r),
      cs_case_insensitive = (\<not> sr_case_sensitive r), cs_value = sr_value r,
      cs_surfaces = sr_apply_to_surfaces r\<rparr>"

text \<open>The loop, with the slugs of the broker secrets seen so far.\<close>

fun compile_secrets_from ::
  "'x ext_scheme \<Rightarrow> string set \<Rightarrow> secret_rule list \<Rightarrow> compiled_secret list result" where
  "compile_secrets_from X seen [] = Inr []"
| "compile_secrets_from X seen (r # rs) =
     (if sr_operator r = OpToken \<or> sr_operator r = OpKeep
      then Inl (InvalidSecret (OperatorNotForSecret (sr_name r) (sr_operator r)))
      else if sr_value r = [] then Inl (InvalidSecret (EmptySecretValue (sr_name r)))
      else
        (let slug = slugify (sr_name r)
         in if sr_operator r = OpBroker \<and> slug \<in> seen
            then Inl (InvalidSecret (SlugCollision (sr_name r)))
            else
              (let seen = (if sr_operator r = OpBroker then insert slug seen else seen)
               in case x_ac_build X (\<not> sr_case_sensitive r) (sr_value r) of
                    Some e \<Rightarrow> Inl (InvalidSecret (MatcherError (sr_name r) e))
                  | None \<Rightarrow>
                      bind_r (compile_secrets_from X seen rs)
                        (\<lambda>out. Inr (compile_secret X r # out)))))"

definition compile_secrets :: "'x ext_scheme \<Rightarrow> secret_rule list \<Rightarrow> compiled_secret list result" where
  "compile_secrets X rules = compile_secrets_from X {} rules"

fun operator_tag :: "operator \<Rightarrow> nat" where
  "operator_tag OpToken = 0"
| "operator_tag OpRedact = 1"
| "operator_tag (OpMask c n) = 2"
| "operator_tag OpHash = 3"
| "operator_tag OpBroker = 4"
| "operator_tag OpKeep = 5"
| "operator_tag OpLocal = 6"

text \<open>The bytes fed to the hasher for one secret, and for the set.\<close>

definition surface_tags :: "surface set \<Rightarrow> string" where
  "surface_tags S =
     map char_of (filter (\<lambda>n. \<exists>s\<in>S. surface_tag s = n) [0..<5])"

definition secret_fp_bytes :: "compiled_secret \<Rightarrow> string" where
  "secret_fp_bytes c =
     cs_name c @ [CHR 0x00] @ [char_of (operator_tag (cs_operator c))] @ cs_value_hash c @
     (case cs_surfaces c of
        None \<Rightarrow> [CHR 0x00]
      | Some S \<Rightarrow> [CHR 0x01] @ surface_tags S) @
     [CHR 0xFF]"

definition secrets_fp_input :: "compiled_secret list \<Rightarrow> string" where
  "secrets_fp_input compiled = ''zlauder-secrets-fp-v1'' @ concat (map secret_fp_bytes compiled)"

definition secrets_fingerprint :: "'x ext_scheme \<Rightarrow> compiled_secret list \<Rightarrow> u64fp" where
  "secrets_fingerprint X compiled = fp64 (x_blake3 X (secrets_fp_input compiled))"

definition secret_set_empty :: "'x ext_scheme \<Rightarrow> secret_set" where
  "secret_set_empty X = \<lparr>sset_compiled = [], sset_fp = secrets_fingerprint X []\<rparr>"

definition secret_detection :: "compiled_secret \<Rightarrow> nat \<times> nat \<Rightarrow> cached_detection" where
  "secret_detection c m =
     \<lparr>cd_start = fst m, cd_end = snd m, cd_entity_type = cs_name c, cd_score = 1065353216,
      cd_source = SrcSecret, cd_literal = False, cd_fixed_token = None,
      cd_secret_op = Some (cs_operator c)\<rparr>"

definition surface_applies :: "surface set option \<Rightarrow> surface \<Rightarrow> bool" where
  "surface_applies S surface = (case S of None \<Rightarrow> True | Some surfs \<Rightarrow> surface \<in> surfs)"

definition detect_secrets ::
  "'x ext_scheme \<Rightarrow> compiled_secret list \<Rightarrow> string \<Rightarrow> surface \<Rightarrow> cached_detection list" where
  "detect_secrets X compiled txt surface =
     concat (map (\<lambda>c.
         if surface_applies (cs_surfaces c) surface
         then map (secret_detection c) (x_ac_find_iter X (cs_case_insensitive c) (cs_value c) txt)
         else []) compiled)"

section \<open>What compiles\<close>

definition secret_operator_ok :: "operator \<Rightarrow> bool" where
  "secret_operator_ok p \<longleftrightarrow> p \<noteq> OpToken \<and> p \<noteq> OpKeep"

definition broker_slugs :: "secret_rule list \<Rightarrow> string list" where
  "broker_slugs rules = map (slugify \<circ> sr_name) (filter (\<lambda>r. sr_operator r = OpBroker) rules)"

lemma compile_secrets_from_Inr_iff:
  "compile_secrets_from X seen rules = Inr out \<longleftrightarrow>
     out = map (compile_secret X) rules \<and>
     (\<forall>r\<in>set rules. secret_operator_ok (sr_operator r) \<and> sr_value r \<noteq> [] \<and>
        x_ac_build X (\<not> sr_case_sensitive r) (sr_value r) = None) \<and>
     distinct (broker_slugs rules) \<and> set (broker_slugs rules) \<inter> seen = {}"
proof (induction rules arbitrary: seen out)
  case Nil
  then show ?case by (auto simp: broker_slugs_def)
next
  case (Cons r rs)
  show ?case
    by (auto simp: Cons.IH Let_def bind_r_Inr_iff secret_operator_ok_def broker_slugs_def
        split: option.splits)
qed

text \<open>
  Exactly the safe rule sets compile.  Registration succeeds iff no secret asks for the
  display-revealable or pass-through operators, no value is empty, every matcher builds and no
  two broker secrets share a token slug; the compiled set then is the rules in order, and every
  other rule set is refused with an \<open>InvalidSecret\<close> error.
\<close>

lemma compile_secrets_iff:
  "(\<exists>out. compile_secrets X rules = Inr out \<and> out = map (compile_secret X) rules) =
     (list_all (\<lambda>r. secret_operator_ok (sr_operator r) \<and> sr_value r \<noteq> [] \<and>
         x_ac_build X (\<not> sr_case_sensitive r) (sr_value r) = None) rules \<and>
      distinct (broker_slugs rules)) \<and>
   (compile_secrets X rules \<in> range Inr \<union> range (Inl \<circ> InvalidSecret))"
proof -
  have "compile_secrets_from X seen rules \<in> range Inr \<union> range (Inl \<circ> InvalidSecret)" for seen
  proof (induction rules arbitrary: seen)
    case Nil
    then show ?case by simp
  next
    case (Cons r rs)
    have "bind_r (compile_secrets_from X seen' rs) (\<lambda>out. Inr (compile_secret X r # out))
        \<in> range Inr \<union> range (Inl \<circ> InvalidSecret)" for seen'
      using Cons.IH [of seen'] by auto
    then show ?case by (auto simp: Let_def split: option.splits)
  qed
  then show ?thesis
    by (auto simp: compile_secrets_def compile_secrets_from_Inr_iff list_all_iff)
qed

section \<open>What the fingerprint does not see\<close>

text \<open>
  The fingerprint of the secret set ignores the case flag of a secret and the parameters of
  the \<open>Mask\<close> operator, although both decide what the secrets pass detects and how a cached
  detection is rendered: two rule sets that differ only there share a cache key space.
\<close>

lemma secrets_fp_blind:
  "secrets_fingerprint X (map (compile_secret X)
     [\<lparr>sr_name = n, sr_value = v, sr_operator = OpMask c k, sr_case_sensitive = True,
       sr_apply_to_surfaces = S\<rparr>]) =
   secrets_fingerprint X (map (compile_secret X)
     [\<lparr>sr_name = n, sr_value = v, sr_operator = OpMask c' k', sr_case_sensitive = False,
       sr_apply_to_surfaces = S\<rparr>])"
  by (simp add: secrets_fingerprint_def secrets_fp_input_def secret_fp_bytes_def
      compile_secret_def)

section \<open>Detections of secrets\<close>

lemma in_detect_secrets:
  "d \<in> set (detect_secrets X cs txt surface) \<longleftrightarrow>
     (\<exists>c\<in>set cs. surface_applies (cs_surfaces c) surface \<and>
        (\<exists>m\<in>set (x_ac_find_iter X (cs_case_insensitive c) (cs_value c) txt).
           d = secret_detection c m))"
  by (auto simp: detect_secrets_def)

lemma detect_secrets_source:
  "d \<in> set (detect_secrets X cs txt surface) \<Longrightarrow>
     cd_source d = SrcSecret \<and> cd_score d = 1065353216 \<and> cd_literal d = False \<and>
     (\<exists>c\<in>set cs. cd_entity_type d = cs_name c \<and> cd_secret_op d = Some (cs_operator c))"
  by (auto simp: in_detect_secrets secret_detection_def)

lemma detect_secrets_Nil [simp]: "detect_secrets X [] txt surface = []"
  by (simp add: detect_secrets_def)

text \<open>
  The matcher's documented behaviour: \<open>find_iter\<close> reports non-empty, in-range, non-overlapping
  matches of the literal, and every occurrence of the (case-sensitive) literal overlaps one.
\<close>

definition ac_sound :: "'x ext_scheme \<Rightarrow> bool" where
  "ac_sound X \<longleftrightarrow>
     (\<forall>ci p txt. p \<noteq> [] \<longrightarrow>
        (\<forall>(a, b)\<in>set (x_ac_find_iter X ci p txt). a < b \<and> b \<le> length txt))"

definition ac_complete :: "'x ext_scheme \<Rightarrow> bool" where
  "ac_complete X \<longleftrightarrow>
     (\<forall>ci p u v. p \<noteq> [] \<longrightarrow>
        (\<exists>(a, b)\<in>set (x_ac_find_iter X ci p (u @ p @ v)).
           a < length u + length p \<and> length u < b))"

end
