(* ===== verification/Detect.thy ===== *)
theory Detect
  imports SecretRules "HOL-Library.Product_Lexorder"
begin

text \<open>
  \<open>detect.rs\<close>: custom rules, the base passes of a detection run, the policy filter on the
  results of a recognizer, the plausibility gate on generic keys, and overlap resolution.
  The analyzer is an external function of the text and the artifacts built here; an ML
  recognizer is a pair of fallible functions, \<open>MlRecognizer\<close> of \<open>ml_api.rs\<close>.  Entropies and
  ratios are computed in exact arithmetic where the source uses \<open>f64\<close>.
\<close>

section \<open>Constants\<close>

text \<open>The bits of 0.35, 0.4 and 1.0.\<close>

definition CONTEXT_BOOST :: f32 where
  "CONTEXT_BOOST = 1051931443"

definition PHONE_BASE_SCORE :: f32 where
  "PHONE_BASE_SCORE = 1053609165"

definition f32_one :: f32 where
  "f32_one = 1065353216"

definition f32_max :: "f32 \<Rightarrow> f32 \<Rightarrow> f32" where
  "f32_max a b =
     (if f32_nan a then b else if f32_nan b then a else if f32_key a < f32_key b then b else a)"

section \<open>Custom rules\<close>

record compiled_custom =
  cc_pattern :: string
  cc_case_insensitive :: bool
  cc_entity_type :: string
  cc_literal_token :: bool
  cc_token :: "string option"
  cc_priority :: nat
  cc_surfaces :: "surface set option"

definition custom_raw :: "'x ext_scheme \<Rightarrow> custom_replacement \<Rightarrow> string" where
  "custom_raw X r = (if cr_is_regex r then cr_pattern r else x_re_escape X (cr_pattern r))"

definition compile_custom :: "'x ext_scheme \<Rightarrow> custom_replacement \<Rightarrow> compiled_custom" where
  "compile_custom X r =
     \<lparr>cc_pattern = custom_raw X r, cc_case_insensitive = (\<not> cr_case_sensitive r),
      cc_entity_type = cr_entity_type r, cc_literal_token = cr_literal_token r,
      cc_token = cr_token r, cc_priority = cr_priority r,
      cc_surfaces = cr_apply_to_surfaces r\<rparr>"

fun compile_customs_loop ::
  "'x ext_scheme \<Rightarrow> custom_replacement list \<Rightarrow> compiled_custom list result" where
  "compile_customs_loop X [] = Inr []"
| "compile_customs_loop X (r # rs) =
     (case x_re_build X (custom_raw X r) (\<not> cr_case_sensitive r) of
        Some e \<Rightarrow> Inl (BadCustomRegex (cr_pattern r) e)
      | None \<Rightarrow> bind_r (compile_customs_loop X rs) (\<lambda>out. Inr (compile_custom X r # out)))"

definition compile_customs ::
  "'x ext_scheme \<Rightarrow> custom_replacement list \<Rightarrow> compiled_custom list result" where
  "compile_customs X rules =
     bind_r (compile_customs_loop X rules) (\<lambda>out. Inr (sort_key cc_priority out))"

definition resolve_operator :: "engine_config \<Rightarrow> cached_detection \<Rightarrow> operator" where
  "resolve_operator cfg det =
     (case cd_secret_op det of
        Some p \<Rightarrow> p
      | None \<Rightarrow> if cd_literal det then OpToken else operator_for cfg (cd_entity_type det))"

section \<open>The plausibility gate\<close>

definition byte_count :: "string \<Rightarrow> char \<Rightarrow> nat" where
  "byte_count s b = length (filter (\<lambda>x. x = b) s)"

definition all_bytes :: string where
  "all_bytes = map char_of [0..<256::nat]"

definition shannon_entropy :: "string \<Rightarrow> real" where
  "shannon_entropy s =
     (if s = [] then 0
      else - sum_list (map (\<lambda>c. let p = real c / real (length s) in p * log 2 p)
                 (filter (\<lambda>c. c > 0) (map (byte_count s) all_bytes))))"

definition is_alpha_b :: "char \<Rightarrow> bool" where
  "is_alpha_b c \<longleftrightarrow> is_upper_b c \<or> is_lower_b c"

definition is_vowel_b :: "char \<Rightarrow> bool" where
  "is_vowel_b c \<longleftrightarrow> ascii_lower c \<in> {CHR ''a'', CHR ''e'', CHR ''i'', CHR ''o'', CHR ''u''}"

definition vowel_ratio :: "string \<Rightarrow> real" where
  "vowel_ratio s =
     (let letters = length (filter is_alpha_b s);
          vowels = length (filter (\<lambda>c. is_alpha_b c \<and> is_vowel_b c) s)
      in if letters = 0 then 0 else real vowels / real letters)"

fun lowercase_run :: "nat \<Rightarrow> nat \<Rightarrow> string \<Rightarrow> nat" where
  "lowercase_run mx cur [] = mx"
| "lowercase_run mx cur (b # bs) =
     (if is_lower_b b then lowercase_run (max mx (cur + 1)) (cur + 1) bs
      else lowercase_run mx 0 bs)"

definition max_lowercase_run :: "string \<Rightarrow> nat" where
  "max_lowercase_run s = lowercase_run 0 0 s"

definition plausible_generic_secret :: "string \<Rightarrow> bool" where
  "plausible_generic_secret t \<longleftrightarrow>
     (if list_all is_hexdigit_b t then False
      else if shannon_entropy t < 4 then False
      else if \<not> (list_ex is_alpha_b t \<and> list_ex is_digit_b t) then False
      else if vowel_ratio t \<ge> 3 / 10 \<and> max_lowercase_run t \<ge> 6 then False
      else True)"

section \<open>Context artifacts\<close>

definition push_word :: "'x ext_scheme \<Rightarrow> nlp_artifacts \<Rightarrow> string \<Rightarrow> nat \<Rightarrow> nat \<Rightarrow> nlp_artifacts" where
  "push_word X a word start end =
     a\<lparr>na_tokens := na_tokens a @ [\<lparr>nt_text = word, nt_start = start, nt_end = end\<rparr>],
       na_lemmas := na_lemmas a @ [x_to_lowercase X word]\<rparr>"

text \<open>The loop over \<open>char_indices\<close>: the open run's start, the index, the remaining characters.\<close>

fun words_from ::
  "'x ext_scheme \<Rightarrow> string \<Rightarrow> nat option \<Rightarrow> nat \<Rightarrow> string list \<Rightarrow> nlp_artifacts \<Rightarrow> nlp_artifacts"
where
  "words_from X txt start idx [] a =
     (case start of
        Some s \<Rightarrow> push_word X a (drop s txt) s (length txt)
      | None \<Rightarrow> a)"
| "words_from X txt start idx (ch # chs) a =
     (if x_is_alphanumeric X ch
      then words_from X txt (case start of None \<Rightarrow> Some idx | Some s \<Rightarrow> Some s)
             (idx + length ch) chs a
      else
        (case start of
           Some s \<Rightarrow>
             words_from X txt None (idx + length ch) chs (push_word X a (slice s idx txt) s idx)
         | None \<Rightarrow> words_from X txt None (idx + length ch) chs a))"

definition context_artifacts :: "'x ext_scheme \<Rightarrow> string \<Rightarrow> string \<Rightarrow> nlp_artifacts" where
  "context_artifacts X txt language =
     words_from X txt None 0 (utf8_chars txt)
       \<lparr>na_language = language, na_tokens = [], na_lemmas = []\<rparr>"

section \<open>Filtering one recognizer's results\<close>

type_synonym partial_detections = "cached_detection list \<times> (nat \<times> nat) list"

definition ingest_one ::
  "'x ext_scheme \<Rightarrow> engine_config \<Rightarrow> string \<Rightarrow> source \<Rightarrow> recog_result \<Rightarrow>
   partial_detections \<Rightarrow> partial_detections" where
  "ingest_one X cfg txt source r acc =
     (let (dets, allowed) = acc; entity_type = rr_entity r in
      if f32_lt (rr_score r) (ec_score_threshold cfg) then acc
      else if entity_type = ''PHONE_NUMBER'' \<and> f32_le (rr_score r) PHONE_BASE_SCORE then acc
      else if \<not> entity_enabled cfg entity_type then acc
      else
        (case x_rr_text X r txt of
           None \<Rightarrow> acc
         | Some sl \<Rightarrow>
             if sl = [] then acc
             else if entity_type = ''API_KEY'' \<and>
                     rr_pattern_name r = Some (x_generic_entropy_pattern X) \<and>
                     \<not> plausible_generic_secret sl then acc
             else if is_allowed X (ec_allow_list cfg) sl
               then (dets, allowed @ [(rr_start r, rr_end r)])
             else
               (dets @ [\<lparr>cd_start = rr_start r, cd_end = rr_end r,
                  cd_entity_type = entity_type, cd_score = rr_score r, cd_source = source,
                  cd_literal = False, cd_fixed_token = None, cd_secret_op = None\<rparr>],
                allowed)))"

definition ingest_results ::
  "'x ext_scheme \<Rightarrow> engine_config \<Rightarrow> string \<Rightarrow> source \<Rightarrow> recog_result list \<Rightarrow>
   partial_detections \<Rightarrow> partial_detections" where
  "ingest_results X cfg txt source results acc =
     fold (ingest_one X cfg txt source) results acc"

section \<open>The base passes\<close>

definition custom_match ::
  "'x ext_scheme \<Rightarrow> engine_config \<Rightarrow> string \<Rightarrow> compiled_custom \<Rightarrow> nat \<times> nat \<Rightarrow>
   partial_detections \<Rightarrow> partial_detections" where
  "custom_match X cfg txt c m acc =
     (let (dets, allowed) = acc in
      if is_allowed X (ec_allow_list cfg) (slice (fst m) (snd m) txt)
      then (dets, allowed @ [m])
      else
        (dets @ [\<lparr>cd_start = fst m, cd_end = snd m, cd_entity_type = cc_entity_type c,
            cd_score = f32_one, cd_source = SrcCustom, cd_literal = cc_literal_token c,
            cd_fixed_token = (if cc_literal_token c then cc_token c else None),
            cd_secret_op = None\<rparr>],
         allowed))"

definition custom_pass ::
  "'x ext_scheme \<Rightarrow> engine_config \<Rightarrow> string \<Rightarrow> surface \<Rightarrow> compiled_custom \<Rightarrow>
   partial_detections \<Rightarrow> partial_detections" where
  "custom_pass X cfg txt surface c acc =
     (if surface_applies (cc_surfaces c) surface
      then fold (custom_match X cfg txt c)
             (x_re_find_iter X (cc_pattern c) (cc_case_insensitive c) txt) acc
      else acc)"

definition detect_base ::
  "'x ext_scheme \<Rightarrow> engine_config \<Rightarrow> compiled_custom list \<Rightarrow> compiled_secret list \<Rightarrow>
   string \<Rightarrow> surface \<Rightarrow> partial_detections" where
  "detect_base X cfg customs secrets txt surface =
     (let acc = (detect_secrets X secrets txt surface, []);
          acc = fold (custom_pass X cfg txt surface) customs acc;
          artifacts = context_artifacts X txt (ec_language cfg);
          pre_floor = f32_max (x_f32_sub X (ec_score_threshold cfg) CONTEXT_BOOST) 0;
          results = x_analyze X txt (ec_language cfg) artifacts pre_floor
      in ingest_results X cfg txt SrcRegex results acc)"

section \<open>Overlap resolution\<close>

fun tier :: "source \<Rightarrow> nat" where
  "tier SrcSecret = 0"
| "tier SrcCustom = 1"
| "tier SrcRegex = 2"
| "tier SrcMl = 2"

definition best_first :: "cached_detection \<Rightarrow> cached_detection \<Rightarrow> ordering" where
  "best_first a b =
     ord_then (cmp_of (tier (cd_source a)) (tier (cd_source b)))
       (ord_then
         (case f32_partial_cmp (cd_score b) (cd_score a) of Some r \<Rightarrow> r | None \<Rightarrow> OEqual)
         (cmp_of (cd_end b - cd_start b) (cd_end a - cd_start a)))"

definition overlaps :: "cached_detection \<Rightarrow> cached_detection \<Rightarrow> bool" where
  "overlaps d k \<longleftrightarrow> cd_start d < cd_end k \<and> cd_start k < cd_end d"

definition keep_best :: "cached_detection list \<Rightarrow> cached_detection list" where
  "keep_best dets =
     fold (\<lambda>d kept. if list_ex (overlaps d) kept then kept else kept @ [d]) dets []"

definition resolve_overlaps :: "cached_detection list \<Rightarrow> cached_detection list" where
  "resolve_overlaps dets = sort_key cd_start (keep_best (sort_by best_first dets))"

definition finish :: "partial_detections \<Rightarrow> cached_detection list" where
  "finish acc =
     (let (dets, allowed) = acc;
          dets = (if allowed \<noteq> []
                  then filter (\<lambda>d. cd_source d = SrcSecret \<or>
                         \<not> list_ex (\<lambda>(s, e). s \<le> cd_start d \<and> cd_end d \<le> e) allowed) dets
                  else dets)
      in resolve_overlaps dets)"

section \<open>Detection runs\<close>

record ml_recognizer =
  mr_analyze :: "string \<Rightarrow> recog_result list result"
  mr_analyze_batch :: "string list \<Rightarrow> recog_result list list result"

definition run_detection ::
  "'x ext_scheme \<Rightarrow> engine_config \<Rightarrow> compiled_custom list \<Rightarrow> compiled_secret list \<Rightarrow>
   ml_recognizer option \<Rightarrow> string \<Rightarrow> surface \<Rightarrow> cached_detection list result" where
  "run_detection X cfg customs secrets ml txt surface =
     (let acc = detect_base X cfg customs secrets txt surface
      in case ml of
           None \<Rightarrow> Inr (finish acc)
         | Some rec \<Rightarrow>
             bind_r (mr_analyze rec txt)
               (\<lambda>results. Inr (finish (ingest_results X cfg txt SrcMl results acc))))"

definition run_detection_batch ::
  "'x ext_scheme \<Rightarrow> engine_config \<Rightarrow> compiled_custom list \<Rightarrow> compiled_secret list \<Rightarrow>
   ml_recognizer \<Rightarrow> (string \<times> surface) list \<Rightarrow> cached_detection list list result" where
  "run_detection_batch X cfg customs secrets rec leaves =
     bind_r (mr_analyze_batch rec (map fst leaves))
       (\<lambda>ml_batch.
          if length ml_batch \<noteq> length leaves
          then Inl (MlError (MlBatchLength (length ml_batch) (length leaves)))
          else Inr (map (\<lambda>((txt, surface), results).
                 finish (ingest_results X cfg txt SrcMl results
                   (detect_base X cfg customs secrets txt surface)))
               (zip leaves ml_batch)))"

section \<open>What overlap resolution keeps\<close>

text \<open>The comparison is the lexicographic order of a rank, on scores that are numbers.\<close>

definition rank :: "cached_detection \<Rightarrow> nat \<times> int \<times> int" where
  "rank d =
     (tier (cd_source d), - f32_key (cd_score d), - int (cd_end d - cd_start d))"

definition scores_ok :: "cached_detection set \<Rightarrow> bool" where
  "scores_ok D \<longleftrightarrow> (\<forall>d\<in>D. \<not> f32_nan (cd_score d))"

lemma best_first_rank: "scores_ok D \<Longrightarrow> cmp_ranks best_first rank D"
  by (auto simp: cmp_ranks_def scores_ok_def best_first_def ord_then_def cmp_of_def rank_def
      f32_partial_cmp_def less_prod_def)

lemma sorted_best_first:
  "scores_ok (set dets) \<Longrightarrow> sorted (map rank (sort_by best_first dets))"
  by (simp add: sort_by_sort_key [OF best_first_rank])

definition non_overlapping :: "cached_detection list \<Rightarrow> bool" where
  "non_overlapping ds \<longleftrightarrow> sorted_wrt (\<lambda>a b. \<not> overlaps a b) ds"

lemma overlaps_sym: "overlaps a b \<longleftrightarrow> overlaps b a"
  by (auto simp: overlaps_def)

definition keep_step :: "cached_detection \<Rightarrow> cached_detection list \<Rightarrow> cached_detection list" where
  "keep_step d kept = (if list_ex (overlaps d) kept then kept else kept @ [d])"

lemma keep_best_fold: "keep_best dets = fold keep_step dets []"
  by (simp add: keep_best_def keep_step_def [abs_def])

lemma keep_set:
  "set kept \<subseteq> set (fold keep_step ds kept)" "set (fold keep_step ds kept) \<subseteq> set kept \<union> set ds"
  by (induction ds arbitrary: kept) (force simp: keep_step_def split: if_splits)+

lemma keep_non_overlapping: "non_overlapping kept \<Longrightarrow> non_overlapping (fold keep_step ds kept)"
proof (induction ds arbitrary: kept)
  case Nil
  then show ?case by simp
next
  case (Cons d ds)
  have "non_overlapping (keep_step d kept)"
    using Cons.prems
    by (auto simp: keep_step_def non_overlapping_def sorted_wrt_append list_ex_iff overlaps_sym)
  with Cons.IH show ?case by simp
qed

text \<open>A detection that is not kept overlaps one that is at least as good.\<close>

lemma keep_covers:
  "sorted (map rank ds) \<Longrightarrow> \<forall>k\<in>set kept. \<forall>d\<in>set ds. rank k \<le> rank d \<Longrightarrow> d \<in> set ds \<Longrightarrow>
   \<exists>k\<in>set (fold keep_step ds kept). (k = d \<or> overlaps d k) \<and> rank k \<le> rank d"
proof (induction ds arbitrary: kept)
  case Nil
  then show ?case by simp
next
  case (Cons a ds)
  have step: "set kept \<subseteq> set (keep_step a kept)" "set (keep_step a kept) \<subseteq> insert a (set kept)"
    by (auto simp: keep_step_def)
  show ?case
  proof (cases "d = a")
    case True
    then have "\<exists>k\<in>set (keep_step a kept). (k = d \<or> overlaps d k) \<and> rank k \<le> rank d"
      using Cons.prems(2) by (auto simp: keep_step_def list_ex_iff)
    then show ?thesis using keep_set(1) [of "keep_step a kept" ds] by auto
  next
    case False
    have "\<forall>k\<in>set (keep_step a kept). \<forall>d\<in>set ds. rank k \<le> rank d"
      using step(2) Cons.prems(1,2) by auto
    with Cons.IH [of "keep_step a kept"] Cons.prems(1,3) False show ?thesis by simp
  qed
qed

lemma sorted_wrt_insort:
  "sorted_wrt R xs \<Longrightarrow> (\<And>y. y \<in> set xs \<Longrightarrow> R x y \<and> R y x) \<Longrightarrow>
   sorted_wrt R (insort_key f x xs)"
  by (induction xs) (auto simp: set_insort_key)

lemma non_overlapping_sort_key: "non_overlapping ds \<Longrightarrow> non_overlapping (sort_key f ds)"
proof (induction ds)
  case Nil
  then show ?case by simp
next
  case (Cons d ds)
  then have "sorted_wrt (\<lambda>a b. \<not> overlaps a b) (sort_key f ds)" and "\<forall>y\<in>set ds. \<not> overlaps d y"
    by (auto simp: non_overlapping_def)
  then show ?case
    by (auto simp: non_overlapping_def overlaps_sym intro!: sorted_wrt_insort)
qed

lemma set_resolve_overlaps: "set (resolve_overlaps dets) \<subseteq> set dets"
  using keep_set(2) [of "sort_by best_first dets" "[]"]
  by (simp add: resolve_overlaps_def keep_best_fold)

lemma resolve_overlaps_sorted: "sorted (map cd_start (resolve_overlaps dets))"
  by (simp add: resolve_overlaps_def)

lemma resolve_overlaps_disjoint: "non_overlapping (resolve_overlaps dets)"
  unfolding resolve_overlaps_def keep_best_fold
  by (intro non_overlapping_sort_key keep_non_overlapping) (simp add: non_overlapping_def)

lemma resolve_overlaps_covers:
  assumes "scores_ok (set dets)" and "d \<in> set dets"
  shows "\<exists>k\<in>set (resolve_overlaps dets). (k = d \<or> overlaps d k) \<and> rank k \<le> rank d"
  using keep_covers [OF sorted_best_first [OF assms(1)], of "[]" d] assms(2)
  by (simp add: resolve_overlaps_def keep_best_fold)

text \<open>Spans in order, each ending before the next begins.\<close>

definition chained :: "cached_detection list \<Rightarrow> bool" where
  "chained ds \<longleftrightarrow> sorted_wrt (\<lambda>a b. cd_end a \<le> cd_start b) ds"

definition spans_ok :: "nat \<Rightarrow> cached_detection list \<Rightarrow> bool" where
  "spans_ok n ds \<longleftrightarrow> (\<forall>d\<in>set ds. cd_start d < cd_end d \<and> cd_end d \<le> n)"

lemma chainedI:
  "sorted (map cd_start ds) \<Longrightarrow> non_overlapping ds \<Longrightarrow> spans_ok n ds \<Longrightarrow> chained ds"
proof (induction ds)
  case Nil
  then show ?case by (simp add: chained_def)
next
  case (Cons d ds)
  have "cd_end d \<le> cd_start b" if "b \<in> set ds" for b
  proof -
    have "cd_start d \<le> cd_start b" "\<not> overlaps d b" "cd_start b < cd_end b"
      using Cons.prems that by (auto simp: non_overlapping_def spans_ok_def)
    then show ?thesis by (auto simp: overlaps_def)
  qed
  moreover have "chained ds"
    using Cons.prems by (intro Cons.IH) (auto simp: non_overlapping_def spans_ok_def)
  ultimately show ?case by (auto simp: chained_def)
qed

lemma spans_ok_subset: "set a \<subseteq> set b \<Longrightarrow> spans_ok n b \<Longrightarrow> spans_ok n a"
  by (auto simp: spans_ok_def)

lemma resolve_overlaps_chained:
  "spans_ok n dets \<Longrightarrow> chained (resolve_overlaps dets) \<and> spans_ok n (resolve_overlaps dets)"
  using chainedI [OF resolve_overlaps_sorted resolve_overlaps_disjoint]
    spans_ok_subset [OF set_resolve_overlaps] by blast

text \<open>
  Overlap resolution.  From any detections with numeric scores and non-empty in-range
  spans, the result is a sub-list of them in text order, each span ending before the next
  begins, and every detection that was dropped overlaps a kept one of at least its precedence
  (registered secret, then custom rule, then recognizer; then the higher score; then the longer
  span).
\<close>

lemma resolve_overlaps_correct:
  assumes "scores_ok (set dets)" and "spans_ok n dets"
  shows "set (resolve_overlaps dets) \<subseteq> set dets \<and> sorted (map cd_start (resolve_overlaps dets)) \<and>
    chained (resolve_overlaps dets) \<and>
    (\<forall>d\<in>set dets. \<exists>k\<in>set (resolve_overlaps dets). (k = d \<or> overlaps d k) \<and> rank k \<le> rank d)"
  using set_resolve_overlaps resolve_overlaps_sorted resolve_overlaps_chained [OF assms(2)]
    resolve_overlaps_covers [OF assms(1)] by blast

definition sample_det :: "nat \<Rightarrow> nat \<Rightarrow> source \<Rightarrow> cached_detection" where
  "sample_det a b src =
     \<lparr>cd_start = a, cd_end = b, cd_entity_type = ''PERSON'', cd_score = f32_one,
      cd_source = src, cd_literal = False, cd_fixed_token = None, cd_secret_op = None\<rparr>"

lemma sample_scores_ok:
  "scores_ok (set [sample_det 0 3 SrcRegex, sample_det 2 5 SrcSecret])"
  by (simp add: scores_ok_def sample_det_def f32_one_def f32_nan_def)

theorem resolve_overlaps_correct_witness:
  "chained (resolve_overlaps [sample_det 0 3 SrcRegex, sample_det 2 5 SrcSecret])"
proof -
  have "spans_ok 5 [sample_det 0 3 SrcRegex, sample_det 2 5 SrcSecret]"
    by (simp add: spans_ok_def sample_det_def)
  from resolve_overlaps_correct [OF sample_scores_ok this] show ?thesis by blast
qed

section \<open>The tail of a detection run\<close>

definition allowed_by :: "(nat \<times> nat) list \<Rightarrow> cached_detection \<Rightarrow> bool" where
  "allowed_by allowed d \<longleftrightarrow> list_ex (\<lambda>(s, e). s \<le> cd_start d \<and> cd_end d \<le> e) allowed"

definition unsuppressed :: "partial_detections \<Rightarrow> cached_detection list" where
  "unsuppressed acc =
     filter (\<lambda>d. cd_source d = SrcSecret \<or> \<not> allowed_by (snd acc) d) (fst acc)"

lemma finish_unsuppressed: "finish acc = resolve_overlaps (unsuppressed acc)"
  by (cases acc) (auto simp: finish_def unsuppressed_def allowed_by_def Let_def
      intro!: arg_cong [where f = resolve_overlaps] filter_True [symmetric])

lemma rank_secret: "rank k \<le> rank d \<Longrightarrow> cd_source d = SrcSecret \<Longrightarrow> cd_source k = SrcSecret"
  by (cases "cd_source k") (auto simp: rank_def less_eq_prod_def)

text \<open>
  What leaves a detection run.  No kept detection lies inside an allow-listed span unless
  it is a registered secret; a registered secret is never suppressed: each one is kept or
  overlapped by a kept secret, whatever the allow-list says and whatever else was detected.
\<close>

lemma finish_allow_list:
  assumes "scores_ok (set (fst acc))"
  shows "(\<forall>d\<in>set (finish acc). cd_source d = SrcSecret \<or> \<not> allowed_by (snd acc) d) \<and>
    (\<forall>d\<in>set (fst acc). cd_source d = SrcSecret \<longrightarrow>
       (\<exists>k\<in>set (finish acc). cd_source k = SrcSecret \<and> (k = d \<or> overlaps d k)))"
proof (intro conjI ballI impI)
  fix d
  assume "d \<in> set (finish acc)"
  then have "d \<in> set (unsuppressed acc)"
    unfolding finish_unsuppressed using set_resolve_overlaps by blast
  then show "cd_source d = SrcSecret \<or> \<not> allowed_by (snd acc) d"
    by (simp add: unsuppressed_def)
next
  fix d
  assume d: "d \<in> set (fst acc)" "cd_source d = SrcSecret"
  then have "d \<in> set (unsuppressed acc)" by (simp add: unsuppressed_def)
  moreover have "scores_ok (set (unsuppressed acc))"
    using assms by (auto simp: scores_ok_def unsuppressed_def)
  ultimately show "\<exists>k\<in>set (finish acc). cd_source k = SrcSecret \<and> (k = d \<or> overlaps d k)"
    using resolve_overlaps_covers [of "unsuppressed acc" d] rank_secret d(2)
    unfolding finish_unsuppressed by blast
qed

theorem finish_allow_list_witness:
  "\<exists>k\<in>set (finish ([sample_det 0 3 SrcRegex, sample_det 2 5 SrcSecret], [(0, 9)])).
     cd_source k = SrcSecret"
  using finish_allow_list
    [of "([sample_det 0 3 SrcRegex, sample_det 2 5 SrcSecret], [(0, 9)])"] sample_scores_ok
  by (auto simp: sample_det_def)

text \<open>Every detection of the base passes comes from its pass.\<close>

lemma ingest_one_fst:
  "set (fst acc) \<subseteq> set (fst (ingest_one X cfg txt src r acc))"
  "d \<in> set (fst (ingest_one X cfg txt src r acc)) \<Longrightarrow>
     d \<in> set (fst acc) \<or> (cd_source d = src \<and> cd_score d = rr_score r \<and>
       cd_start d = rr_start r \<and> cd_end d = rr_end r \<and> cd_secret_op d = None \<and>
       x_rr_text X r txt \<notin> {None, Some []})"
  by (cases acc; auto simp: ingest_one_def Let_def split: option.splits if_splits)+

lemma fold_fst_mono:
  assumes "\<And>x acc. set (fst acc) \<subseteq> set (fst (f x acc))"
  shows "set (fst acc) \<subseteq> set (fst (fold f xs acc))"
proof (induction xs arbitrary: acc)
  case Nil
  then show ?case by simp
next
  case (Cons x xs)
  from Cons [of "f x acc"] assms [where x = x and acc = acc] show ?case by auto
qed

lemma fold_fst_origin:
  assumes "\<And>x acc. x \<in> set xs \<Longrightarrow> d \<in> set (fst (f x acc)) \<Longrightarrow> d \<in> set (fst acc) \<or> P"
    and "d \<in> set (fst (fold f xs acc))"
  shows "d \<in> set (fst acc) \<or> P"
  using assms
proof (induction xs arbitrary: acc)
  case Nil
  then show ?case by simp
next
  case (Cons x xs)
  have "d \<in> set (fst (f x acc)) \<or> P"
  proof (rule Cons.IH)
    show "d \<in> set (fst a) \<or> P" if "y \<in> set xs" "d \<in> set (fst (f y a))" for y a
      using Cons.prems(1) [of y a] that by simp
    show "d \<in> set (fst (fold f xs (f x acc)))" using Cons.prems(2) by simp
  qed
  then show ?case
  proof
    assume "d \<in> set (fst (f x acc))"
    then show ?thesis by (intro Cons.prems(1) [of x]) simp_all
  qed simp
qed

lemma ingest_results_fst:
  "set (fst acc) \<subseteq> set (fst (ingest_results X cfg t src rs acc))"
  unfolding ingest_results_def by (intro fold_fst_mono ingest_one_fst(1))

definition det_of_result ::
  "'x ext_scheme \<Rightarrow> string \<Rightarrow> source \<Rightarrow> recog_result list \<Rightarrow> cached_detection \<Rightarrow> bool" where
  "det_of_result X t src rs d \<longleftrightarrow>
     cd_source d = src \<and> cd_secret_op d = None \<and>
     list_ex (\<lambda>r. cd_score d = rr_score r \<and> cd_start d = rr_start r \<and> cd_end d = rr_end r \<and>
        x_rr_text X r t \<notin> {None, Some []}) rs"

lemma ingest_results_origin:
  assumes "d \<in> set (fst (ingest_results X cfg t src rs acc))"
  shows "d \<in> set (fst acc) \<or> det_of_result X t src rs d"
proof -
  have "d \<in> set (fst acc') \<or> det_of_result X t src rs d"
    if "r \<in> set rs" and "d \<in> set (fst (ingest_one X cfg t src r acc'))" for r acc'
    using ingest_one_fst(2) [OF that(2)] that(1) unfolding det_of_result_def list_ex_iff by metis
  from fold_fst_origin [of rs d "ingest_one X cfg t src", OF this assms [unfolded ingest_results_def]]
  show ?thesis .
qed

lemma custom_match_fst:
  "set (fst acc) \<subseteq> set (fst (custom_match X cfg txt c m acc))"
  "d \<in> set (fst (custom_match X cfg txt c m acc)) \<Longrightarrow>
     d \<in> set (fst acc) \<or> (cd_source d = SrcCustom \<and> cd_score d = f32_one \<and>
       cd_start d = fst m \<and> cd_end d = snd m)"
  by (cases acc; auto simp: custom_match_def split: if_splits)+

lemma custom_pass_fst:
  "set (fst acc) \<subseteq> set (fst (custom_pass X cfg txt surface c acc))"
  by (auto simp: custom_pass_def fold_fst_mono [OF custom_match_fst(1), THEN subsetD])

lemma custom_pass_origin:
  assumes "d \<in> set (fst (custom_pass X cfg txt surface c acc))"
  shows "d \<in> set (fst acc) \<or> (cd_source d = SrcCustom \<and> cd_score d = f32_one \<and>
    (cd_start d, cd_end d) \<in> set (x_re_find_iter X (cc_pattern c) (cc_case_insensitive c) txt))"
proof (cases "surface_applies (cc_surfaces c) surface")
  case True
  with assms have "d \<in> set (fst (fold (custom_match X cfg txt c)
      (x_re_find_iter X (cc_pattern c) (cc_case_insensitive c) txt) acc))"
    by (simp add: custom_pass_def)
  then show ?thesis
    by (rule fold_fst_origin [rotated]) (drule custom_match_fst(2), auto)
next
  case False
  with assms show ?thesis by (simp add: custom_pass_def)
qed

section \<open>Detection runs\<close>

text \<open>
  What the detectors promise on a text: matches are non-empty and in range, scores are numbers,
  and \<open>RecognizerResult::text\<close> only succeeds inside the text.
\<close>

definition rr_text_ok :: "'x ext_scheme \<Rightarrow> bool" where
  "rr_text_ok X \<longleftrightarrow>
     (\<forall>r t u. x_rr_text X r t = Some u \<longrightarrow>
        rr_end r \<le> length t \<and> rr_start r \<le> rr_end r \<and> u = slice (rr_start r) (rr_end r) t)"

definition results_ok :: "recog_result list \<Rightarrow> bool" where
  "results_ok rs \<longleftrightarrow> (\<forall>r\<in>set rs. \<not> f32_nan (rr_score r))"

definition customs_ok :: "'x ext_scheme \<Rightarrow> compiled_custom list \<Rightarrow> string \<Rightarrow> bool" where
  "customs_ok X customs t \<longleftrightarrow>
     (\<forall>c\<in>set customs. \<forall>(a, b)\<in>set (x_re_find_iter X (cc_pattern c) (cc_case_insensitive c) t).
        a < b \<and> b \<le> length t)"

definition secrets_ok :: "compiled_secret list \<Rightarrow> bool" where
  "secrets_ok cs \<longleftrightarrow> (\<forall>c\<in>set cs. cs_value c \<noteq> [])"

definition analyzer_ok :: "'x ext_scheme \<Rightarrow> bool" where
  "analyzer_ok X \<longleftrightarrow> ac_sound X \<and> rr_text_ok X \<and> (\<forall>t l a f. results_ok (x_analyze X t l a f))"

lemma analyzer_ok_results: "analyzer_ok X \<Longrightarrow> results_ok (x_analyze X t l a f)"
  by (simp add: analyzer_ok_def)

text \<open>A detection with a number for a score and a non-empty span inside the text.\<close>

definition det_fits :: "nat \<Rightarrow> cached_detection \<Rightarrow> bool" where
  "det_fits n d \<longleftrightarrow> cd_start d < cd_end d \<and> cd_end d \<le> n \<and> \<not> f32_nan (cd_score d)"

lemma det_fits_result:
  assumes "analyzer_ok X" and "results_ok rs" and "det_of_result X t src rs d"
  shows "det_fits (length t) d"
proof -
  obtain r u where r: "r \<in> set rs" "cd_score d = rr_score r" "cd_start d = rr_start r"
      "cd_end d = rr_end r" "x_rr_text X r t = Some u" "u \<noteq> []"
    using assms(3) by (auto simp: det_of_result_def list_ex_iff)
  moreover from this assms(1) have "rr_end r \<le> length t" "rr_start r \<le> rr_end r"
      "u = slice (rr_start r) (rr_end r) t"
    by (auto simp: analyzer_ok_def rr_text_ok_def)
  moreover have "rr_start r \<noteq> rr_end r"
    using calculation by auto
  ultimately show ?thesis
    using assms(2) by (auto simp: det_fits_def results_ok_def)
qed

lemma det_fits_secret:
  assumes "ac_sound X" and "secrets_ok cs" and "d \<in> set (detect_secrets X cs t surface)"
  shows "det_fits (length t) d"
  using assms
  by (fastforce simp: in_detect_secrets secrets_ok_def ac_sound_def det_fits_def secret_detection_def
      f32_nan_def)

lemma detect_base_fits:
  assumes "analyzer_ok X" and "customs_ok X customs t" and "secrets_ok secrets"
    and "d \<in> set (fst (detect_base X cfg customs secrets t surface))"
  shows "det_fits (length t) d"
proof -
  let ?acc = "fold (custom_pass X cfg t surface) customs (detect_secrets X secrets t surface, [])"
  from assms(4) have "d \<in> set (fst ?acc) \<or>
      (\<exists>rs. results_ok rs \<and> det_of_result X t SrcRegex rs d)"
    unfolding detect_base_def Let_def
    using ingest_results_origin analyzer_ok_results [OF assms(1)] by blast
  moreover have "d \<in> set (detect_secrets X secrets t surface) \<or> det_fits (length t) d"
    if "d \<in> set (fst ?acc)"
  proof -
    have "d \<in> set (fst acc) \<or> det_fits (length t) d"
      if "c \<in> set customs" "d \<in> set (fst (custom_pass X cfg t surface c acc))" for c acc
      using custom_pass_origin [OF that(2)] that(1) assms(2)
      by (fastforce simp: customs_ok_def det_fits_def f32_one_def f32_nan_def)
    from fold_fst_origin [of customs d "custom_pass X cfg t surface", OF this \<open>d \<in> set (fst ?acc)\<close>]
    show ?thesis by simp
  qed
  ultimately show ?thesis
    using det_fits_secret [OF _ assms(3)] det_fits_result [OF assms(1)] assms(1)
    by (auto simp: analyzer_ok_def)
qed

definition ml_results_ok :: "ml_recognizer option \<Rightarrow> bool" where
  "ml_results_ok ml \<longleftrightarrow>
     (\<forall>rec t rs. ml = Some rec \<longrightarrow> mr_analyze rec t = Inr rs \<longrightarrow> results_ok rs)"

text \<open>What a run feeds to \<open>finish\<close>.\<close>

lemma run_detection_acc:
  assumes "run_detection X cfg customs secrets ml t surface = Inr dets"
  obtains acc where "dets = finish acc"
    "set (detect_secrets X secrets t surface) \<subseteq> set (fst acc)"
    "\<And>d. analyzer_ok X \<Longrightarrow> customs_ok X customs t \<Longrightarrow> secrets_ok secrets \<Longrightarrow> ml_results_ok ml \<Longrightarrow>
       d \<in> set (fst acc) \<Longrightarrow> det_fits (length t) d"
proof -
  define base where "base = detect_base X cfg customs secrets t surface"
  have sub: "set (detect_secrets X secrets t surface) \<subseteq> set (fst base)"
    using fold_fst_mono [of "custom_pass X cfg t surface" "(detect_secrets X secrets t surface, [])" customs,
        OF custom_pass_fst] ingest_results_fst
    unfolding base_def detect_base_def Let_def by fastforce
  show ?thesis
  proof (cases ml)
    case None
    with assms have "dets = finish base" by (simp add: run_detection_def base_def)
    from this sub show ?thesis
    proof (rule that)
      show "det_fits (length t) d"
        if "analyzer_ok X" "customs_ok X customs t" "secrets_ok secrets" "ml_results_ok ml"
          "d \<in> set (fst base)" for d
        using that(1-3,5) unfolding base_def by (rule detect_base_fits)
    qed
  next
    case (Some rec)
    with assms obtain rs where rs: "mr_analyze rec t = Inr rs"
      and dets: "dets = finish (ingest_results X cfg t SrcMl rs base)"
      by (auto simp: run_detection_def base_def bind_r_Inr_iff)
    show ?thesis
    proof (rule that [OF dets])
      show "set (detect_secrets X secrets t surface) \<subseteq> set (fst (ingest_results X cfg t SrcMl rs base))"
        using sub ingest_results_fst by blast
      show "det_fits (length t) d"
        if "analyzer_ok X" "customs_ok X customs t" "secrets_ok secrets" "ml_results_ok ml"
          "d \<in> set (fst (ingest_results X cfg t SrcMl rs base))" for d
        using ingest_results_origin [OF that(5)] that(1-4) rs Some detect_base_fits det_fits_result
        unfolding base_def ml_results_ok_def by blast
    qed
  qed
qed


lemma sample_analyzer_ok: "analyzer_ok sample_ext"
proof -
  have "ac_sound sample_ext"
    by (auto simp: ac_sound_def sample_ext_def dest!: find_all_sound)
  moreover have "rr_text_ok sample_ext"
    by (auto simp: rr_text_ok_def sample_ext_def str_slice_def slice_def
        dest: is_char_boundary_le split: if_splits)
  moreover have "results_ok (x_analyze sample_ext t l a f)" for t l a f
    by (auto simp: sample_ext_def sample_analyze_def results_ok_def f32_nan_def split: option.splits)
  ultimately show ?thesis by (simp add: analyzer_ok_def)
qed

definition sample_secret :: compiled_secret where
  "sample_secret = compile_secret sample_ext
     \<lparr>sr_name = ''db'', sr_value = ''hunter2'', sr_operator = OpBroker, sr_case_sensitive = True,
      sr_apply_to_surfaces = None\<rparr>"

lemma sample_secrets_ok: "secrets_ok [sample_secret]"
  by (simp add: secrets_ok_def sample_secret_def compile_secret_def)

lemma customs_ok_Nil [simp]: "customs_ok X [] t"
  by (simp add: customs_ok_def)

lemma ml_results_ok_None [simp]: "ml_results_ok None"
  by (simp add: ml_results_ok_def)


section \<open>The batched run\<close>

text \<open>The default \<open>analyze_batch\<close> of the trait: \<open>analyze\<close> in a loop, all or nothing.\<close>

fun default_analyze_batch ::
  "(string \<Rightarrow> recog_result list result) \<Rightarrow> string list \<Rightarrow> recog_result list list result" where
  "default_analyze_batch f [] = Inr []"
| "default_analyze_batch f (t # ts) =
     bind_r (f t) (\<lambda>r. bind_r (default_analyze_batch f ts) (\<lambda>rs. Inr (r # rs)))"

lemma default_analyze_batch_Inr:
  "default_analyze_batch f ts = Inr rs \<Longrightarrow> list_all2 (\<lambda>t r. f t = Inr r) ts rs"
  by (induction ts arbitrary: rs) (auto simp: bind_r_Inr_iff)

text \<open>The trait's contract: when the batch succeeds, its results are those of \<open>analyze\<close>.\<close>

definition batch_contract :: "ml_recognizer \<Rightarrow> bool" where
  "batch_contract rec \<longleftrightarrow>
     (\<forall>ts rs. mr_analyze_batch rec ts = Inr rs \<longrightarrow> length rs = length ts \<longrightarrow>
        list_all2 (\<lambda>t r. mr_analyze rec t = Inr r) ts rs)"

lemma default_batch_contract:
  "batch_contract \<lparr>mr_analyze = f, mr_analyze_batch = default_analyze_batch f\<rparr>"
  by (auto simp: batch_contract_def default_analyze_batch_Inr)

lemma run_detection_batch_each:
  assumes "batch_contract rec"
    and "run_detection_batch X cfg customs secrets rec leaves = Inr outs"
  shows "list_all2 (\<lambda>(t, s) dets. run_detection X cfg customs secrets (Some rec) t s = Inr dets)
    leaves outs"
proof -
  from assms(2) obtain rs where rs: "mr_analyze_batch rec (map fst leaves) = Inr rs"
    and len: "length rs = length leaves"
    and outs: "outs = map (\<lambda>((t, s), r). finish (ingest_results X cfg t SrcMl r
        (detect_base X cfg customs secrets t s))) (zip leaves rs)"
    by (auto simp: run_detection_batch_def bind_r_Inr_iff split: if_splits)
  have "list_all2 (\<lambda>t r. mr_analyze rec t = Inr r) (map fst leaves) rs"
    using assms(1) rs len by (simp add: batch_contract_def)
  then show ?thesis
    using len by (auto simp: outs list_all2_conv_all_nth run_detection_def split: prod.splits)
qed

text \<open>
  The batched run is the per-leaf run.  With a recognizer that keeps the batch contract, a
  batch that succeeds gives each leaf exactly the detections of its own run with that
  recognizer; a batch of the wrong length is refused as a whole.
\<close>

lemma run_detection_batch_eq:
  assumes "batch_contract rec"
  shows "(\<forall>outs. run_detection_batch X cfg customs secrets rec leaves = Inr outs \<longrightarrow>
      list_all2 (\<lambda>(t, s) dets. run_detection X cfg customs secrets (Some rec) t s = Inr dets)
        leaves outs) \<and>
    (\<forall>rs. mr_analyze_batch rec (map fst leaves) = Inr rs \<longrightarrow> length rs \<noteq> length leaves \<longrightarrow>
      run_detection_batch X cfg customs secrets rec leaves =
        Inl (MlError (MlBatchLength (length rs) (length leaves))))"
  by (rule conjI, blast intro: run_detection_batch_each [OF assms])
    (simp add: run_detection_batch_def)

definition sample_ml :: ml_recognizer where
  "sample_ml = \<lparr>mr_analyze = (\<lambda>t. Inr []),
     mr_analyze_batch = default_analyze_batch (\<lambda>t. Inr [])\<rparr>"

theorem run_detection_batch_eq_witness:
  "run_detection_batch sample_ext (default_config sample_ext) [] [] sample_ml
     [(''a'', UserMessage), (''b'', ToolResult)] \<noteq> Inr []"
  using run_detection_batch_eq [OF default_batch_contract [of "\<lambda>t. Inr []"], of sample_ext
      "default_config sample_ext" "[]" "[]" "[(''a'', UserMessage), (''b'', ToolResult)]"]
  by (auto simp: sample_ml_def)

end
