(* ===== verification/Fingerprint.thy ===== *)
theory Fingerprint
  imports Config
begin

text \<open>
  The byte strings the engine hashes into its cache-key fingerprints: the detection policy
  (\<open>EngineConfig::detection_fingerprint\<close>, \<open>fp_custom\<close>, \<open>fp_allow_list\<close>) and the identity of
  the ML recognizer (\<open>compute_ml_fp\<close>).  The digest is external, so the lemmas are about what is
  fed to it: which configurations share a preimage.
\<close>

section \<open>Definitions\<close>

definition byte :: "nat \<Rightarrow> char" where
  "byte n = char_of n"

definition bool_byte :: "bool \<Rightarrow> char" where
  "bool_byte b = byte (if b then 1 else 0)"

definition fp_nul :: "string list \<Rightarrow> string" where
  "fp_nul ks = concat (map (\<lambda>k. k @ [byte 0]) ks)"

definition fp_surfaces :: "surface set option \<Rightarrow> string" where
  "fp_surfaces sopt =
     (case sopt of
        None \<Rightarrow> [byte 0]
      | Some S \<Rightarrow> byte 1 # map byte (sorted_list_of_set (surface_tag ` S)))"

definition fp_custom :: "custom_replacement \<Rightarrow> string" where
  "fp_custom c =
     cr_pattern c @ [byte 0] @ cr_entity_type c @ [byte 0] @
     [bool_byte (cr_is_regex c), bool_byte (cr_case_sensitive c), bool_byte (cr_literal_token c)] @
     le_bytes 4 (cr_priority c) @
     (case cr_token c of Some t \<Rightarrow> byte 1 # t | None \<Rightarrow> [byte 0]) @ [byte 0] @
     fp_surfaces (cr_apply_to_surfaces c) @ [byte 254]"

definition fp_allow_list :: "allow_list \<Rightarrow> string" where
  "fp_allow_list al =
     fp_nul (sorted_list_of_set (al_exact al)) @ [byte 254] @
     fp_nul (sorted_list_of_set (al_exact_ci al)) @ [byte 254] @
     fp_nul (al_patterns al)"

definition DETECTOR_VERSION :: nat where
  "DETECTOR_VERSION = 8"

definition detection_fp_input :: "engine_config \<Rightarrow> string" where
  "detection_fp_input cfg =
     ''zlauder-policy-fp-v1'' @ le_bytes 8 DETECTOR_VERSION @
     le_bytes 4 (nat (ec_score_threshold cfg)) @ ec_language cfg @ [byte 255] @
     map byte (sorted_list_of_set (category_tag ` ec_enabled_categories cfg)) @ [byte 255] @
     fp_nul (sort (map fst (ec_entity_operators cfg))) @ [byte 255] @
     concat (map fp_custom (ec_custom_replacements cfg)) @ [byte 255] @
     fp_allow_list (ec_allow_list cfg)"

definition detection_fingerprint :: "'x ext_scheme \<Rightarrow> engine_config \<Rightarrow> u64fp" where
  "detection_fingerprint X cfg = fp64 (x_blake3 X (detection_fp_input cfg))"

definition fp_marked :: "string option \<Rightarrow> string" where
  "fp_marked o' = (case o' of Some s \<Rightarrow> byte 1 # s | None \<Rightarrow> [byte 0])"

definition ml_identity_bytes :: "ml_config \<Rightarrow> string" where
  "ml_identity_bytes d =
     [byte (backend_tag (mc_backend d))] @
     (case mc_min_score d of Some s \<Rightarrow> byte 1 # le_bytes 4 (nat s) | None \<Rightarrow> [byte 0]) @
     (case mc_backend d of
        BackendLocal \<Rightarrow>
          mc_model d @ [byte 0] @ fp_marked (mc_revision d) @
          [bool_byte (mc_prefer_gpu d), byte (precision_tag (mc_compute_precision d)),
           byte (quant_tag (mc_quant d)), bool_byte (mc_banded_attention d)]
      | BackendHttp \<Rightarrow>
          fp_marked (mc_endpoint d) @ [byte 0] @ fp_marked (mc_auth_token_env d) @
          le_bytes 8 (mc_http_timeout_secs d)
      | BackendSidecar \<Rightarrow>
          mc_model d @ [byte 0] @ fp_marked (mc_revision d) @ fp_marked (mc_sidecar_path d) @
          [bool_byte (mc_banded_attention d)])"

definition ml_fp_input :: "ml_status \<Rightarrow> bool \<Rightarrow> ml_config option \<Rightarrow> string" where
  "ml_fp_input status present desired =
     ''zlauder-ml-fp-v1'' @
     (if status = MlReady \<and> present
      then byte 1 # (case desired of Some d \<Rightarrow> ml_identity_bytes d | None \<Rightarrow> [])
      else [byte 0])"

section \<open>Self-delimiting encodings\<close>

lemma byte_inj: "m < 256 \<Longrightarrow> n < 256 \<Longrightarrow> byte m = byte n \<longleftrightarrow> m = n"
  unfolding byte_def by (metis code_char_of)

lemma byte_eq_numerals [simp]:
  "byte 0 \<noteq> byte 1" "byte 1 \<noteq> byte 0" "byte 0 \<noteq> byte 254" "byte 254 \<noteq> byte 0"
  "byte 254 \<noteq> byte 1" "byte 1 \<noteq> byte 254" "byte 255 \<noteq> byte 0" "byte 0 \<noteq> byte 255"
  "byte 255 \<noteq> byte 254" "byte 254 \<noteq> byte 255" "byte 255 \<noteq> byte 1" "byte 1 \<noteq> byte 255"
  by (simp_all add: byte_inj)

lemma byte_eq_0_Suc [simp]: "byte 0 \<noteq> byte (Suc 0)" "byte (Suc 0) \<noteq> byte 0"
  by (simp_all add: byte_inj)

lemma bool_byte_inj [simp]: "bool_byte a = bool_byte b \<longleftrightarrow> a = b"
  by (cases a; cases b) (simp_all add: bool_byte_def byte_inj)

text \<open>A terminator that does not occur in the two prefixes splits equal strings alike.\<close>

lemma terminated_eq_iff:
  "t \<notin> set x \<Longrightarrow> t \<notin> set y \<Longrightarrow> x @ t # r = y @ t # s \<longleftrightarrow> x = y \<and> r = s"
proof (induction x arbitrary: y)
  case Nil
  then show ?case by (cases y) auto
next
  case (Cons a x)
  then show ?case by (cases y) auto
qed

lemma map_byte_inj:
  assumes "\<forall>n\<in>set xs. n < 256" "\<forall>n\<in>set ys. n < 256"
  shows "map byte xs = map byte ys \<longleftrightarrow> xs = ys"
proof -
  have "inj_on byte {n. n < 256}" by (auto simp: inj_on_def byte_inj)
  then have "inj_on byte (set xs \<union> set ys)"
    by (rule inj_on_subset) (use assms in auto)
  then show ?thesis by (rule inj_on_map_eq_map)
qed

definition nul_free :: "string \<Rightarrow> bool" where
  "nul_free s \<longleftrightarrow> byte 0 \<notin> set s"

text \<open>Bytes 254 and 255 occur in no UTF-8 string.\<close>

definition text_ok :: "string \<Rightarrow> bool" where
  "text_ok s \<longleftrightarrow> nul_free s \<and> byte 254 \<notin> set s \<and> byte 255 \<notin> set s"

lemma fp_nul_Nil [simp]: "fp_nul [] = []"
  by (simp add: fp_nul_def)

lemma fp_nul_Cons [simp]: "fp_nul (k # ks) = k @ byte 0 # fp_nul ks"
  by (simp add: fp_nul_def)

lemma fp_nul_inj:
  "\<forall>k\<in>set ks. nul_free k \<Longrightarrow> \<forall>k\<in>set ls. nul_free k \<Longrightarrow> fp_nul ks = fp_nul ls \<longleftrightarrow> ks = ls"
proof (induction ks arbitrary: ls)
  case Nil
  then show ?case by (cases ls) auto
next
  case (Cons k ks)
  show ?case
  proof (cases ls)
    case Nil
    then show ?thesis by simp
  next
    case (Cons l ls')
    with Cons.prems Cons.IH [of ls'] show ?thesis
      by (auto simp: terminated_eq_iff nul_free_def)
  qed
qed

lemma set_fp_nul: "set (fp_nul ks) \<subseteq> insert (byte 0) (\<Union>k\<in>set ks. set k)"
  by (auto simp: fp_nul_def)

lemma fp_nul_free:
  "\<forall>k\<in>set ks. text_ok k \<Longrightarrow> byte 254 \<notin> set (fp_nul ks) \<and> byte 255 \<notin> set (fp_nul ks)"
  using set_fp_nul [of ks] by (auto simp: text_ok_def)

lemma fp_nul_terminated:
  assumes "\<forall>k\<in>set ks. text_ok k" and "\<forall>k\<in>set ls. text_ok k" and "t = byte 254 \<or> t = byte 255"
  shows "fp_nul ks @ t # r = fp_nul ls @ t # s \<longleftrightarrow> ks = ls \<and> r = s"
proof -
  have "t \<notin> set (fp_nul ks)" "t \<notin> set (fp_nul ls)"
    using assms fp_nul_free by blast+
  then have "fp_nul ks @ t # r = fp_nul ls @ t # s \<longleftrightarrow> fp_nul ks = fp_nul ls \<and> r = s"
    by (rule terminated_eq_iff)
  also have "fp_nul ks = fp_nul ls \<longleftrightarrow> ks = ls"
    using assms(1,2) by (intro fp_nul_inj) (auto simp: text_ok_def)
  finally show ?thesis .
qed

lemma fp_marked_terminated:
  assumes "\<forall>s. a = Some s \<longrightarrow> nul_free s" and "\<forall>s. b = Some s \<longrightarrow> nul_free s"
  shows "fp_marked a @ byte 0 # r = fp_marked b @ byte 0 # s \<longleftrightarrow> a = b \<and> r = s"
  using assms
  by (cases a; cases b) (auto simp: fp_marked_def terminated_eq_iff nul_free_def)

lemma fp_marked_inj: "fp_marked a = fp_marked b \<longleftrightarrow> a = b"
  by (cases a; cases b) (auto simp: fp_marked_def)

section \<open>The policy fingerprint\<close>

definition custom_ok :: "custom_replacement \<Rightarrow> bool" where
  "custom_ok c \<longleftrightarrow>
     text_ok (cr_pattern c) \<and> text_ok (cr_entity_type c) \<and> cr_priority c < 2 ^ 32 \<and>
     (\<forall>t. cr_token c = Some t \<longrightarrow> text_ok t)"

lemma surface_tags_small: "\<forall>n\<in>set (sorted_list_of_set (surface_tag ` S)). n < 5"
proof -
  have "surface_tag x < 5" for x by (cases x) simp_all
  moreover have "finite (surface_tag ` S)"
    by (rule finite_subset [of _ "{..<5}"]) (use calculation in auto)
  ultimately show ?thesis by auto
qed

lemma finite_surfaces [simp]: "finite (S :: surface set)"
proof -
  have "S \<subseteq> {UserMessage, SystemPrompt, ToolResult, AssistantText, ToolUseInput}"
  proof
    fix x :: surface
    show "x \<in> {UserMessage, SystemPrompt, ToolResult, AssistantText, ToolUseInput}"
      by (cases x) simp_all
  qed
  then show ?thesis by (rule finite_subset) simp
qed

lemma sorted_tags_inj:
  "sorted_list_of_set (surface_tag ` S) = sorted_list_of_set (surface_tag ` T) \<longleftrightarrow> S = T"
proof
  assume "sorted_list_of_set (surface_tag ` S) = sorted_list_of_set (surface_tag ` T)"
  then have "set (sorted_list_of_set (surface_tag ` S)) = set (sorted_list_of_set (surface_tag ` T))"
    by simp
  then have "surface_tag ` S = surface_tag ` T" by simp
  then show "S = T" by (simp add: inj_image_eq_iff inj_def)
qed simp

lemma fp_surfaces_terminated:
  "fp_surfaces a @ byte 254 # r = fp_surfaces b @ byte 254 # s \<longleftrightarrow> a = b \<and> r = s"
proof -
  have tags: "byte 254 \<notin> set (map byte (sorted_list_of_set (surface_tag ` S)))" for S :: "surface set"
    using surface_tags_small [of S] by (auto simp: byte_inj)
  have eq: "map byte (sorted_list_of_set (surface_tag ` S)) =
      map byte (sorted_list_of_set (surface_tag ` T)) \<longleftrightarrow> S = T" for S T :: "surface set"
  proof -
    have "\<forall>n\<in>set (sorted_list_of_set (surface_tag ` U)). n < 256" for U :: "surface set"
      using surface_tags_small [of U] by auto
    then show ?thesis by (subst map_byte_inj) (auto simp: sorted_tags_inj)
  qed
  show ?thesis
  proof (cases a)
    case None
    then show ?thesis by (cases b) (auto simp: fp_surfaces_def)
  next
    case a: (Some S)
    show ?thesis
    proof (cases b)
      case None
      with a show ?thesis by (auto simp: fp_surfaces_def)
    next
      case (Some T)
      with a show ?thesis
        using terminated_eq_iff [OF tags [of S] tags [of T]] eq [of S T]
        by (auto simp: fp_surfaces_def)
    qed
  qed
qed

text \<open>One rule's bytes determine the rule and where its encoding ends.\<close>

lemma fp_custom_prefix_code:
  assumes c: "custom_ok c" and d: "custom_ok d" and eq: "fp_custom c @ r = fp_custom d @ s"
  shows "c = d \<and> r = s"
proof -
  define rest where "rest x u = [bool_byte (cr_is_regex x), bool_byte (cr_case_sensitive x),
      bool_byte (cr_literal_token x)] @ le_bytes 4 (cr_priority x) @ fp_marked (cr_token x) @
      byte 0 # fp_surfaces (cr_apply_to_surfaces x) @ byte 254 # u"
    for x :: custom_replacement and u
  have form: "fp_custom x @ u = cr_pattern x @ byte 0 # cr_entity_type x @ byte 0 # rest x u"
    for x u by (simp add: fp_custom_def rest_def fp_marked_def)
  have nul: "byte 0 \<notin> set (cr_pattern x)" "byte 0 \<notin> set (cr_entity_type x)"
    "\<forall>t. cr_token x = Some t \<longrightarrow> nul_free t" if "custom_ok x" for x
    using that by (auto simp: custom_ok_def text_ok_def nul_free_def)
  from eq have pat: "cr_pattern c = cr_pattern d" and ent: "cr_entity_type c = cr_entity_type d"
    and rest: "rest c r = rest d s"
    by (simp_all add: form terminated_eq_iff nul [OF c] nul [OF d])
  from rest have flags: "cr_is_regex c = cr_is_regex d" "cr_case_sensitive c = cr_case_sensitive d"
      "cr_literal_token c = cr_literal_token d"
    and tl: "le_bytes 4 (cr_priority c) = le_bytes 4 (cr_priority d)"
      "fp_marked (cr_token c) @ byte 0 # fp_surfaces (cr_apply_to_surfaces c) @ byte 254 # r =
       fp_marked (cr_token d) @ byte 0 # fp_surfaces (cr_apply_to_surfaces d) @ byte 254 # s"
    by (simp_all add: rest_def)
  have prio: "cr_priority c = cr_priority d"
    using tl(1) by (rule le_bytes_inj) (use c d in \<open>auto simp: custom_ok_def\<close>)
  from tl(2) have "cr_token c = cr_token d"
    "fp_surfaces (cr_apply_to_surfaces c) @ byte 254 # r =
     fp_surfaces (cr_apply_to_surfaces d) @ byte 254 # s"
    by (simp_all add: fp_marked_terminated nul [OF c] nul [OF d])
  with pat ent flags prio show ?thesis
    by (simp add: fp_surfaces_terminated)
qed

lemma fp_custom_not_terminator: "custom_ok c \<Longrightarrow> fp_custom c @ r \<noteq> byte 255 # s"
proof -
  assume "custom_ok c"
  then have "byte 255 \<notin> set (cr_pattern c)" by (simp add: custom_ok_def text_ok_def)
  then show ?thesis by (cases "cr_pattern c") (auto simp: fp_custom_def)
qed

lemma fp_customs_terminated:
  "\<forall>c\<in>set cs. custom_ok c \<Longrightarrow> \<forall>c\<in>set ds. custom_ok c \<Longrightarrow>
   concat (map fp_custom cs) @ byte 255 # r = concat (map fp_custom ds) @ byte 255 # s \<longleftrightarrow>
   cs = ds \<and> r = s"
proof (induction cs arbitrary: ds)
  case Nil
  show ?case
  proof (cases ds)
    case Nil
    then show ?thesis by simp
  next
    case (Cons d ds')
    with Nil.prems fp_custom_not_terminator [of d] show ?thesis by auto metis
  qed
next
  case (Cons c cs)
  show ?case
  proof (cases ds)
    case Nil
    with Cons.prems fp_custom_not_terminator [of c] show ?thesis by auto
  next
    case (Cons d ds')
    with Cons.prems Cons.IH [of ds'] show ?thesis
      by (auto dest: fp_custom_prefix_code)
  qed
qed

definition allow_list_ok :: "allow_list \<Rightarrow> bool" where
  "allow_list_ok al \<longleftrightarrow>
     finite (al_exact al) \<and> finite (al_exact_ci al) \<and> (\<forall>k\<in>al_exact al. text_ok k) \<and>
     (\<forall>k\<in>al_exact_ci al. text_ok k) \<and> (\<forall>k\<in>set (al_patterns al). text_ok k)"

lemma fp_allow_list_inj:
  assumes a: "allow_list_ok a" and b: "allow_list_ok b"
  shows "fp_allow_list a = fp_allow_list b \<longleftrightarrow> a = b"
proof
  assume eq: "fp_allow_list a = fp_allow_list b"
  have ok: "\<forall>k\<in>set (sorted_list_of_set (al_exact x)). text_ok k"
    "\<forall>k\<in>set (sorted_list_of_set (al_exact_ci x)). text_ok k"
    "\<forall>k\<in>set (al_patterns x). nul_free k" if "allow_list_ok x" for x
    using that by (auto simp: allow_list_ok_def text_ok_def)
  from eq have "sorted_list_of_set (al_exact a) = sorted_list_of_set (al_exact b)"
    "sorted_list_of_set (al_exact_ci a) = sorted_list_of_set (al_exact_ci b)"
    "fp_nul (al_patterns a) = fp_nul (al_patterns b)"
    unfolding fp_allow_list_def
    by (simp_all add: fp_nul_terminated ok [OF a] ok [OF b])
  then have "al_exact a = al_exact b" "al_exact_ci a = al_exact_ci b" "al_patterns a = al_patterns b"
    using a b ok(3) [OF a] ok(3) [OF b]
    by (auto simp: allow_list_ok_def fp_nul_inj dest: sorted_list_of_set_inject)
  then show "a = b" by simp
qed simp

text \<open>
  The inputs of detection a policy consists of; the entity operators count by their key set.
\<close>

definition detection_view ::
  "engine_config \<Rightarrow> f32 \<times> string \<times> category set \<times> string set \<times> custom_replacement list \<times> allow_list"
where
  "detection_view cfg =
     (ec_score_threshold cfg, ec_language cfg, ec_enabled_categories cfg,
      fst ` set (ec_entity_operators cfg), ec_custom_replacements cfg, ec_allow_list cfg)"

definition policy_text_ok :: "engine_config \<Rightarrow> bool" where
  "policy_text_ok cfg \<longleftrightarrow>
     0 \<le> ec_score_threshold cfg \<and> ec_score_threshold cfg < 2 ^ 32 \<and> text_ok (ec_language cfg) \<and>
     distinct (map fst (ec_entity_operators cfg)) \<and>
     (\<forall>k\<in>fst ` set (ec_entity_operators cfg). text_ok k) \<and>
     (\<forall>c\<in>set (ec_custom_replacements cfg). custom_ok c) \<and> allow_list_ok (ec_allow_list cfg)"

lemma category_tags_small: "\<forall>n\<in>set (sorted_list_of_set (category_tag ` S)). n < 6"
proof -
  have "category_tag x < 6" for x by (cases x) simp_all
  moreover have "finite (category_tag ` S)"
    by (rule finite_subset [of _ "{..<6}"]) (use calculation in auto)
  ultimately show ?thesis by auto
qed

lemma finite_categories [simp]: "finite (S :: category set)"
proof -
  have "S \<subseteq> set all_categories"
  proof
    fix x :: category
    show "x \<in> set all_categories" by (cases x) (simp_all add: all_categories_def)
  qed
  then show ?thesis by (rule finite_subset) simp
qed

lemma category_bytes_inj:
  "map byte (sorted_list_of_set (category_tag ` S)) =
   map byte (sorted_list_of_set (category_tag ` T)) \<longleftrightarrow> S = T"
proof -
  have small: "\<forall>n\<in>set (sorted_list_of_set (category_tag ` U)). n < 256" for U
    using category_tags_small [of U] by auto
  have "map byte (sorted_list_of_set (category_tag ` S)) =
      map byte (sorted_list_of_set (category_tag ` T)) \<longleftrightarrow>
      sorted_list_of_set (category_tag ` S) = sorted_list_of_set (category_tag ` T)"
    by (rule map_byte_inj [OF small small])
  also have "\<dots> \<longleftrightarrow> category_tag ` S = category_tag ` T"
    by (metis finite_categories finite_imageI set_sorted_list_of_set)
  also have "\<dots> \<longleftrightarrow> S = T"
    by (simp add: inj_image_eq_iff inj_def)
  finally show ?thesis .
qed

lemma sort_distinct_eq_iff:
  fixes xs ys :: "'a::linorder list"
  assumes "distinct xs" and "distinct ys"
  shows "sort xs = sort ys \<longleftrightarrow> set xs = set ys"
proof
  assume "set xs = set ys"
  then show "sort xs = sort ys"
    using assms by (intro sorted_distinct_set_unique) auto
next
  assume "sort xs = sort ys"
  then have "set (sort xs) = set (sort ys)" by (rule arg_cong)
  then show "set xs = set ys" by simp
qed

text \<open>
  Two policies are hashed from the same bytes exactly when they agree on every input of
  detection, so a change that can alter a detection always moves the preimage and nothing else
  does.
\<close>

lemma detection_fp_input_eq_iff:
  assumes a: "policy_text_ok a" and b: "policy_text_ok b"
  shows "detection_fp_input a = detection_fp_input b \<longleftrightarrow> detection_view a = detection_view b"
proof -
  define tail where "tail x = fp_allow_list (ec_allow_list x)" for x :: engine_config
  define customs where "customs x = concat (map fp_custom (ec_custom_replacements x))" for x :: engine_config
  define keys where "keys x = sort (map fst (ec_entity_operators x))" for x :: engine_config
  define cats where "cats x = map byte (sorted_list_of_set (category_tag ` ec_enabled_categories x))"
    for x :: engine_config
  have form: "detection_fp_input x = ''zlauder-policy-fp-v1'' @ le_bytes 8 DETECTOR_VERSION @
      le_bytes 4 (nat (ec_score_threshold x)) @ ec_language x @ byte 255 # cats x @ byte 255 #
      fp_nul (keys x) @ byte 255 # customs x @ byte 255 # tail x" for x
    by (simp add: detection_fp_input_def tail_def customs_def keys_def cats_def)
  have cats_ok: "byte 255 \<notin> set (cats x)" for x
    using category_tags_small [of "ec_enabled_categories x"] by (auto simp: cats_def byte_inj)
  have lang_ok: "byte 255 \<notin> set (ec_language x)" if "policy_text_ok x" for x
    using that by (simp add: policy_text_ok_def text_ok_def)
  have keys_ok: "\<forall>k\<in>set (keys x). text_ok k" if "policy_text_ok x" for x
    using that by (auto simp: policy_text_ok_def keys_def)
  have customs_ok: "\<forall>c\<in>set (ec_custom_replacements x). custom_ok c" if "policy_text_ok x" for x
    using that by (auto simp: policy_text_ok_def)
  have "detection_fp_input a = detection_fp_input b \<longleftrightarrow>
      le_bytes 4 (nat (ec_score_threshold a)) = le_bytes 4 (nat (ec_score_threshold b)) \<and>
      ec_language a = ec_language b \<and> cats a = cats b \<and> keys a = keys b \<and>
      ec_custom_replacements a = ec_custom_replacements b \<and> tail a = tail b"
    by (auto simp: form terminated_eq_iff [OF lang_ok [OF a] lang_ok [OF b]]
        terminated_eq_iff [OF cats_ok cats_ok] fp_nul_terminated [OF keys_ok [OF a] keys_ok [OF b]]
        fp_customs_terminated [OF customs_ok [OF a] customs_ok [OF b]] customs_def)
  moreover have "le_bytes 4 (nat (ec_score_threshold a)) = le_bytes 4 (nat (ec_score_threshold b)) \<longleftrightarrow>
      ec_score_threshold a = ec_score_threshold b"
    using a b le_bytes_inj [of 4 "nat (ec_score_threshold a)" "nat (ec_score_threshold b)"]
    by (auto simp: policy_text_ok_def eq_nat_nat_iff)
  moreover have "keys a = keys b \<longleftrightarrow>
      fst ` set (ec_entity_operators a) = fst ` set (ec_entity_operators b)"
    using a b by (simp add: keys_def sort_distinct_eq_iff policy_text_ok_def)
  moreover have "tail a = tail b \<longleftrightarrow> ec_allow_list a = ec_allow_list b"
    using a b by (simp add: tail_def fp_allow_list_inj policy_text_ok_def)
  moreover have "cats a = cats b \<longleftrightarrow> ec_enabled_categories a = ec_enabled_categories b"
    by (simp add: cats_def category_bytes_inj)
  ultimately show ?thesis by (auto simp: detection_view_def)
qed

section \<open>The recognizer's identity\<close>

definition plain_text :: "string \<Rightarrow> bool" where
  "plain_text s \<longleftrightarrow> byte 0 \<notin> set s \<and> byte 1 \<notin> set s"

definition opt_all :: "('a \<Rightarrow> bool) \<Rightarrow> 'a option \<Rightarrow> bool" where
  "opt_all P v \<longleftrightarrow> (case v of None \<Rightarrow> True | Some x \<Rightarrow> P x)"

lemma opt_all_simps [simp]: "opt_all P None" "opt_all P (Some x) = P x"
  by (simp_all add: opt_all_def)

text \<open>
  The strings of a configuration hold no control bytes 0 and 1, the score is a bit pattern
  that is equal to another one only when the values are (no NaN, no negative zero), and the
  timeout is a \<open>u64\<close>.
\<close>

definition ml_config_ok :: "ml_config \<Rightarrow> bool" where
  "ml_config_ok d \<longleftrightarrow>
     plain_text (mc_model d) \<and> opt_all plain_text (mc_revision d) \<and>
     opt_all plain_text (mc_endpoint d) \<and> opt_all plain_text (mc_auth_token_env d) \<and>
     opt_all plain_text (mc_sidecar_path d) \<and>
     opt_all (\<lambda>s. 0 \<le> s \<and> s < 2 ^ 32 \<and> \<not> f32_nan s \<and> s \<noteq> 2147483648) (mc_min_score d) \<and>
     mc_http_timeout_secs d < 2 ^ 64"

lemma f32_eq_bits:
  assumes "0 \<le> a" "\<not> f32_nan a" "a \<noteq> 2147483648" "0 \<le> b" "\<not> f32_nan b" "b \<noteq> 2147483648"
  shows "f32_eq a b \<longleftrightarrow> a = b"
  using assms by (auto simp: f32_eq_def f32_key_def split: if_splits)

lemma fp_marked_pair:
  assumes "opt_all plain_text r" "opt_all plain_text p" "opt_all plain_text r'" "opt_all plain_text p'"
  shows "fp_marked r @ fp_marked p = fp_marked r' @ fp_marked p' \<longleftrightarrow> r = r' \<and> p = p'"
proof -
  have split: "x @ byte i # u = y @ byte j # v \<longleftrightarrow> x = y \<and> byte i = byte j \<and> u = v"
    if "plain_text x" "plain_text y" "i = 0 \<or> i = 1" "j = 0 \<or> j = 1" for x y u v i j
    using that
  proof (induction x arbitrary: y)
    case Nil
    then show ?case by (cases y) (auto simp: plain_text_def)
  next
    case (Cons c x)
    then show ?case by (cases y) (auto simp: plain_text_def)
  qed
  show ?thesis
    using assms by (cases r; cases r'; cases p; cases p') (auto simp: fp_marked_def split)
qed

lemma min_score_bytes:
  assumes "ml_config_ok a" and "ml_config_ok b"
  shows "(case mc_min_score a of Some s \<Rightarrow> byte 1 # le_bytes 4 (nat s) | None \<Rightarrow> [byte 0]) @ r =
         (case mc_min_score b of Some s \<Rightarrow> byte 1 # le_bytes 4 (nat s) | None \<Rightarrow> [byte 0]) @ s \<longleftrightarrow>
         f32_opt_eq (mc_min_score a) (mc_min_score b) \<and> r = s"
proof (cases "mc_min_score a")
  case None
  then show ?thesis by (cases "mc_min_score b") auto
next
  case sa: (Some x)
  show ?thesis
  proof (cases "mc_min_score b")
    case None
    with sa show ?thesis by auto
  next
    case sb: (Some y)
    have "le_bytes 4 (nat x) = le_bytes 4 (nat y) \<longleftrightarrow> f32_eq x y"
      using assms sa sb le_bytes_inj [of 4 "nat x" "nat y"]
      by (auto simp: ml_config_ok_def f32_eq_bits eq_nat_nat_iff)
    with sa sb show ?thesis by auto
  qed
qed

lemma ml_identity_bytes_iff:
  assumes a: "ml_config_ok a" and b: "ml_config_ok b"
  shows "ml_identity_bytes a = ml_identity_bytes b \<longleftrightarrow> same_model_params a b"
proof (cases "mc_backend a = mc_backend b")
  case False
  then have "byte (backend_tag (mc_backend a)) \<noteq> byte (backend_tag (mc_backend b))"
    by (cases "mc_backend a"; cases "mc_backend b") (simp_all add: byte_inj)
  with False show ?thesis by (simp add: ml_identity_bytes_def same_model_params_def)
next
  case True
  have nul: "byte 0 \<notin> set (mc_model a)" "byte 0 \<notin> set (mc_model b)"
    using a b by (auto simp: ml_config_ok_def plain_text_def)
  have tags: "byte (quant_tag x) = byte (quant_tag y) \<longleftrightarrow> x = y"
    "byte (precision_tag u) = byte (precision_tag v) \<longleftrightarrow> u = v" for x y u v
    by (cases x; cases y; simp add: byte_inj) (cases u; cases v; simp add: byte_inj)
  note score = min_score_bytes [OF a b]
  show ?thesis
  proof (cases "mc_backend a")
    case BackendLocal
    with True show ?thesis
      by (auto simp: ml_identity_bytes_def same_model_params_def score terminated_eq_iff [OF nul]
          fp_marked_inj tags)
  next
    case BackendHttp
    have tm: "le_bytes 8 (mc_http_timeout_secs a) = le_bytes 8 (mc_http_timeout_secs b) \<longleftrightarrow>
        mc_http_timeout_secs a = mc_http_timeout_secs b"
      using le_bytes_inj [of 8] a b by (auto simp: ml_config_ok_def)
    have mk: "fp_marked (mc_endpoint a) @ byte 0 # r = fp_marked (mc_endpoint b) @ byte 0 # s \<longleftrightarrow>
        mc_endpoint a = mc_endpoint b \<and> r = s" for r s
      using a b by (intro fp_marked_terminated) (auto simp: ml_config_ok_def plain_text_def nul_free_def)
    from BackendHttp True show ?thesis
      by (auto simp: ml_identity_bytes_def same_model_params_def score mk fp_marked_inj tm)
  next
    case BackendSidecar
    have pair: "fp_marked (mc_revision a) @ fp_marked (mc_sidecar_path a) =
        fp_marked (mc_revision b) @ fp_marked (mc_sidecar_path b) \<longleftrightarrow>
        mc_revision a = mc_revision b \<and> mc_sidecar_path a = mc_sidecar_path b"
      using a b by (intro fp_marked_pair) (auto simp: ml_config_ok_def)
    have flat: "fp_marked r @ fp_marked p @ [t] = fp_marked r' @ fp_marked p' @ [t'] \<longleftrightarrow>
        fp_marked r @ fp_marked p = fp_marked r' @ fp_marked p' \<and> t = t'" for r p r' p' t t'
      by (metis append_assoc append1_eq_conv)
    from BackendSidecar True show ?thesis
      by (auto simp: ml_identity_bytes_def same_model_params_def score terminated_eq_iff [OF nul]
          flat pair)
  qed
qed

text \<open>
  Without the restriction on control bytes the sidecar's encoding is ambiguous: the revision
  has no terminator, so a byte 1 inside it can be read as the marker of the path.
\<close>

lemma sidecar_identity_collision:
  defines "a \<equiv> default_ml_config\<lparr>mc_backend := BackendSidecar, mc_revision := Some [byte 1],
      mc_sidecar_path := Some []\<rparr>"
  defines "b \<equiv> default_ml_config\<lparr>mc_backend := BackendSidecar, mc_revision := Some [],
      mc_sidecar_path := Some [byte 1]\<rparr>"
  shows "\<not> same_model_params a b \<and> ml_identity_bytes a = ml_identity_bytes b"
  by (simp add: a_def b_def same_model_params_def ml_identity_bytes_def default_ml_config_def
      fp_marked_def)

end
