(* ===== verification/MlSlot.thy ===== *)
theory MlSlot
  imports Detect Fingerprint
begin

text \<open>
  The ML recognizer slot of \<open>lib.rs\<close>: \<open>MlRuntime\<close>, its operations (\<open>ml_begin_load\<close> to
  \<open>ml_clear_runtime_failure\<close>) and the snapshot \<open>ml_for_mask\<close> a mask call takes.  A recorded
  runtime failure keeps the error itself where the source keeps its text, and the refusal keeps
  the status and the load error that its text is formatted from.  \<open>ml_step\<close> is the transition
  relation of the slot, one transition per operation, interleaved in any order.
\<close>

section \<open>State and operations\<close>

record ml_runtime =
  rt_status :: ml_status
  rt_recognizer :: "ml_recognizer option"
  rt_error :: "string option"
  rt_last_runtime_error :: "engine_error option"
  rt_runtime_failures :: nat
  rt_desired :: "ml_config option"
  rt_generation :: nat
  rt_ml_fp :: u64fp

definition compute_ml_fp :: "'x ext_scheme \<Rightarrow> ml_runtime \<Rightarrow> u64fp" where
  "compute_ml_fp X rt =
     fp64 (x_blake3 X (ml_fp_input (rt_status rt) (rt_recognizer rt \<noteq> None) (rt_desired rt)))"

definition refresh_fp :: "'x ext_scheme \<Rightarrow> ml_runtime \<Rightarrow> ml_runtime" where
  "refresh_fp X rt = rt\<lparr>rt_ml_fp := compute_ml_fp X rt\<rparr>"

definition ml_default :: "'x ext_scheme \<Rightarrow> ml_runtime" where
  "ml_default X = refresh_fp X
     \<lparr>rt_status = MlDisabled, rt_recognizer = None, rt_error = None,
      rt_last_runtime_error = None, rt_runtime_failures = 0, rt_desired = None,
      rt_generation = 0, rt_ml_fp = []\<rparr>"

definition ml_begin_load :: "'x ext_scheme \<Rightarrow> ml_config \<Rightarrow> ml_runtime \<Rightarrow> nat \<times> ml_runtime" where
  "ml_begin_load X desired rt =
     (let rt' = refresh_fp X
            (rt\<lparr>rt_generation := rt_generation rt + 1, rt_status := MlLoading,
                rt_recognizer := None, rt_error := None, rt_last_runtime_error := None,
                rt_runtime_failures := 0, rt_desired := Some desired\<rparr>)
      in (rt_generation rt', rt'))"

definition ml_set_ready :: "'x ext_scheme \<Rightarrow> nat \<Rightarrow> ml_recognizer \<Rightarrow> ml_runtime \<Rightarrow> ml_runtime" where
  "ml_set_ready X generation recognizer rt =
     (if rt_generation rt \<noteq> generation then rt
      else refresh_fp X
        (rt\<lparr>rt_status := MlReady, rt_recognizer := Some recognizer, rt_error := None,
            rt_last_runtime_error := None, rt_runtime_failures := 0\<rparr>))"

definition ml_set_failed :: "'x ext_scheme \<Rightarrow> nat \<Rightarrow> string \<Rightarrow> ml_runtime \<Rightarrow> ml_runtime" where
  "ml_set_failed X generation err rt =
     (if rt_generation rt \<noteq> generation then rt
      else refresh_fp X
        (rt\<lparr>rt_status := MlFailed, rt_recognizer := None, rt_error := Some err\<rparr>))"

definition ml_disable :: "'x ext_scheme \<Rightarrow> ml_runtime \<Rightarrow> ml_runtime" where
  "ml_disable X rt =
     refresh_fp X
       (rt\<lparr>rt_generation := rt_generation rt + 1, rt_status := MlDisabled,
           rt_recognizer := None, rt_error := None, rt_last_runtime_error := None,
           rt_runtime_failures := 0, rt_desired := None\<rparr>)"

definition ml_update_required :: "bool option \<Rightarrow> ml_runtime \<Rightarrow> ml_runtime" where
  "ml_update_required required rt =
     (case rt_desired rt of
        Some d \<Rightarrow> rt\<lparr>rt_desired := Some (d\<lparr>mc_required := required\<rparr>)\<rparr>
      | None \<Rightarrow> rt)"

record ml_snapshot_t =
  sn_status :: ml_status
  sn_error :: "string option"
  sn_last_runtime_error :: "engine_error option"
  sn_runtime_failures :: nat
  sn_desired :: "ml_config option"

definition ml_snapshot :: "ml_runtime \<Rightarrow> ml_snapshot_t" where
  "ml_snapshot rt =
     \<lparr>sn_status = rt_status rt, sn_error = rt_error rt,
      sn_last_runtime_error = rt_last_runtime_error rt,
      sn_runtime_failures = rt_runtime_failures rt, sn_desired = rt_desired rt\<rparr>"

definition ml_active :: "ml_runtime \<Rightarrow> bool" where
  "ml_active rt \<longleftrightarrow> rt_status rt = MlReady"

definition ml_should_offload :: "ml_runtime \<Rightarrow> bool" where
  "ml_should_offload rt \<longleftrightarrow> rt_status rt = MlLoading \<or> rt_status rt = MlReady"

definition ml_refusal :: "ml_runtime \<Rightarrow> engine_error option" where
  "ml_refusal rt =
     (case rt_desired rt of
        Some d \<Rightarrow>
          if mc_enabled d \<and> required_effective d \<and> rt_status rt \<noteq> MlReady
          then Some (MlError (MlNotReady (rt_status rt) (rt_error rt))) else None
      | None \<Rightarrow> None)"

definition ml_for_mask ::
  "ml_runtime \<Rightarrow> ml_recognizer option \<times> u64fp \<times> nat \<times> engine_error option" where
  "ml_for_mask rt =
     (if rt_status rt = MlReady then rt_recognizer rt else None, rt_ml_fp rt, rt_generation rt,
      ml_refusal rt)"

definition ml_note_runtime_failure :: "nat \<Rightarrow> engine_error \<Rightarrow> ml_runtime \<Rightarrow> ml_runtime" where
  "ml_note_runtime_failure generation msg rt =
     (if rt_generation rt \<noteq> generation then rt
      else rt\<lparr>rt_runtime_failures := rt_runtime_failures rt + 1,
              rt_last_runtime_error := Some msg\<rparr>)"

definition ml_clear_runtime_failure :: "nat \<Rightarrow> ml_runtime \<Rightarrow> ml_runtime" where
  "ml_clear_runtime_failure generation rt =
     (if rt_generation rt \<noteq> generation \<or> rt_last_runtime_error rt = None then rt
      else rt\<lparr>rt_last_runtime_error := None\<rparr>)"

section \<open>The transition system\<close>

datatype ml_op =
    MBegin ml_config
  | MSetReady nat ml_recognizer
  | MSetFailed nat string
  | MDisable
  | MUpdateRequired "bool option"
  | MNoteFailure nat engine_error
  | MClearFailure nat

fun ml_exec :: "'x ext_scheme \<Rightarrow> ml_op \<Rightarrow> ml_runtime \<Rightarrow> ml_runtime" where
  "ml_exec X (MBegin d) rt = snd (ml_begin_load X d rt)"
| "ml_exec X (MSetReady g r) rt = ml_set_ready X g r rt"
| "ml_exec X (MSetFailed g e) rt = ml_set_failed X g e rt"
| "ml_exec X MDisable rt = ml_disable X rt"
| "ml_exec X (MUpdateRequired r) rt = ml_update_required r rt"
| "ml_exec X (MNoteFailure g e) rt = ml_note_runtime_failure g e rt"
| "ml_exec X (MClearFailure g) rt = ml_clear_runtime_failure g rt"

text \<open>
  A background load knows the generation it was given when it began; so does a mask call.  Only
  generations handed out so far can come back, as late as they like.
\<close>

inductive ml_step :: "'x ext_scheme \<Rightarrow> ml_runtime \<Rightarrow> ml_runtime \<Rightarrow> bool" for X where
  Begin: "ml_step X rt (ml_exec X (MBegin d) rt)"
| SetReady: "1 \<le> g \<Longrightarrow> g \<le> rt_generation rt \<Longrightarrow> ml_step X rt (ml_exec X (MSetReady g r) rt)"
| SetFailed: "1 \<le> g \<Longrightarrow> g \<le> rt_generation rt \<Longrightarrow> ml_step X rt (ml_exec X (MSetFailed g e) rt)"
| Disable: "ml_step X rt (ml_exec X MDisable rt)"
| UpdateRequired: "ml_step X rt (ml_exec X (MUpdateRequired r) rt)"
| NoteFailure: "g \<le> rt_generation rt \<Longrightarrow> ml_step X rt (ml_exec X (MNoteFailure g e) rt)"
| ClearFailure: "g \<le> rt_generation rt \<Longrightarrow> ml_step X rt (ml_exec X (MClearFailure g) rt)"

inductive_simps ml_step_iff: "ml_step X rt rt'"

inductive ml_reachable :: "'x ext_scheme \<Rightarrow> ml_runtime \<Rightarrow> bool" for X where
  Start: "ml_reachable X (ml_default X)"
| Step: "ml_reachable X rt \<Longrightarrow> ml_step X rt rt' \<Longrightarrow> ml_reachable X rt'"

text \<open>
  The recognizer is installed exactly while the slot is \<open>Ready\<close>, a load error is kept exactly
  in \<open>Failed\<close>, and the cached fingerprint is the one of the current state.
\<close>

definition ml_inv :: "'x ext_scheme \<Rightarrow> ml_runtime \<Rightarrow> bool" where
  "ml_inv X rt \<longleftrightarrow>
     (rt_recognizer rt \<noteq> None \<longleftrightarrow> rt_status rt = MlReady) \<and>
     (rt_error rt \<noteq> None \<longleftrightarrow> rt_status rt = MlFailed) \<and>
     rt_ml_fp rt = compute_ml_fp X rt"

lemmas ml_op_defs =
  ml_begin_load_def ml_set_ready_def ml_set_failed_def ml_disable_def ml_update_required_def
  ml_note_runtime_failure_def ml_clear_runtime_failure_def refresh_fp_def compute_ml_fp_def Let_def

text \<open>The fingerprint ignores the \<open>required\<close> flag, so flipping it live keeps the key space.\<close>

lemma ml_identity_required [simp]: "ml_identity_bytes (d\<lparr>mc_required := r\<rparr>) = ml_identity_bytes d"
  by (cases "mc_backend d") (simp_all add: ml_identity_bytes_def)

lemma ml_exec_inv: "ml_inv X rt \<Longrightarrow> ml_inv X (ml_exec X p rt)"
  by (cases p) (auto simp: ml_inv_def ml_op_defs ml_fp_input_def split: option.splits)

lemma ml_step_exec: "ml_step X rt rt' \<Longrightarrow> \<exists>p. rt' = ml_exec X p rt"
  by (induction rule: ml_step.induct) blast+

lemma ml_reachable_inv: "ml_reachable X rt \<Longrightarrow> ml_inv X rt"
proof (induction rule: ml_reachable.induct)
  case Start
  then show ?case by (simp add: ml_inv_def ml_default_def refresh_fp_def compute_ml_fp_def)
next
  case (Step rt rt')
  then show ?case using ml_step_exec ml_exec_inv by blast
qed

lemma ml_generation_mono: "rt_generation rt \<le> rt_generation (ml_exec X p rt)"
  by (cases p) (auto simp: ml_op_defs split: option.splits)

lemma ml_generation_run: "rt_generation rt \<le> rt_generation (fold (ml_exec X) ops rt)"
proof (induction ops arbitrary: rt)
  case Nil
  then show ?case by simp
next
  case (Cons p ops)
  from ml_generation_mono [of rt X p] Cons [of "ml_exec X p rt"] show ?case by simp
qed

fun op_generation :: "ml_op \<Rightarrow> nat option" where
  "op_generation (MSetReady g r) = Some g"
| "op_generation (MSetFailed g e) = Some g"
| "op_generation (MNoteFailure g e) = Some g"
| "op_generation (MClearFailure g) = Some g"
| "op_generation _ = None"

text \<open>
  A superseded load cannot come back.  Once a newer load begins, or ML is disabled, every
  result tagged with an older generation (an installed recognizer, a load failure, a recorded
  or cleared runtime failure) changes nothing, at whatever later point it arrives.
\<close>

lemma stale_results_ignored:
  assumes "op_generation late = Some g" and "g \<le> rt_generation rt"
    and "superseder = MDisable \<or> superseder = MBegin d"
  shows "ml_exec X late (fold (ml_exec X) ops (ml_exec X superseder rt)) =
    fold (ml_exec X) ops (ml_exec X superseder rt)"
proof -
  have "rt_generation (ml_exec X superseder rt) = rt_generation rt + 1"
    using assms(3) by (auto simp: ml_op_defs)
  then have "g < rt_generation (fold (ml_exec X) ops (ml_exec X superseder rt))"
    using ml_generation_run [of "ml_exec X superseder rt" X ops] assms(2) by simp
  then show ?thesis
    using assms(1) by (cases late) (auto simp: ml_op_defs)
qed

theorem stale_results_ignored_witness:
  "rt_recognizer (ml_exec sample_ext (MSetReady 0 sample_ml)
     (ml_exec sample_ext MDisable (ml_default sample_ext))) = None"
proof -
  have "ml_exec sample_ext (MSetReady 0 sample_ml)
      (fold (ml_exec sample_ext) [] (ml_exec sample_ext MDisable (ml_default sample_ext))) =
    fold (ml_exec sample_ext) [] (ml_exec sample_ext MDisable (ml_default sample_ext))"
    by (rule stale_results_ignored [where g = 0]) simp_all
  then show ?thesis by (simp add: ml_op_defs)
qed

text \<open>
  C24: the ML slot in every reachable state.  A mask call sees a recognizer exactly when the slot
  is \<open>Ready\<close>, the fingerprint it keys the cache with is the one of the current recognizer, every
  state without one shares a single key space, and the call is refused exactly when ML is
  desired, enabled and required but not \<open>Ready\<close>.
\<close>

theorem ml_slot_correct:
  assumes "ml_reachable X rt"
  shows "(fst (ml_for_mask rt) \<noteq> None \<longleftrightarrow> rt_status rt = MlReady) \<and>
    fst (snd (ml_for_mask rt)) = fp64 (x_blake3 X
      (''zlauder-ml-fp-v1'' @
       (if rt_status rt = MlReady
        then byte 1 # (case rt_desired rt of Some d \<Rightarrow> ml_identity_bytes d | None \<Rightarrow> [])
        else [byte 0]))) \<and>
    (snd (snd (snd (ml_for_mask rt))) \<noteq> None \<longleftrightarrow>
      (\<exists>d. rt_desired rt = Some d \<and> mc_enabled d \<and> required_effective d \<and>
         rt_status rt \<noteq> MlReady))"
  using ml_reachable_inv [OF assms]
  by (auto simp: ml_for_mask_def ml_inv_def compute_ml_fp_def ml_fp_input_def ml_refusal_def
      split: option.splits)

theorem ml_slot_correct_witness: "fst (ml_for_mask (ml_default sample_ext)) = None"
  using ml_slot_correct [OF ml_reachable.Start [of sample_ext]]
  by (auto simp: ml_default_def refresh_fp_def)

end
