(* ===== verification/BrokerPolicy.thy ===== *)
theory BrokerPolicy
  imports Tokens Config
begin

text \<open>
  \<open>broker.rs\<close>: the default-deny policy that decides whether a broker secret may be resolved into
  a tool-call parameter, and the parsing of the destination host.  Globs, URLs and shell words
  are parsed by external crates.
\<close>

section \<open>Policy\<close>

definition RESERVED_NONDEREF_SECRET :: string where
  "RESERVED_NONDEREF_SECRET = ''zlauder_admin_key''"

datatype dest_rule = HostAllowList "string list" | AnyHost

record broker_allow =
  ba_secret :: "string option"
  ba_tool :: string
  ba_param_pointer :: string
  ba_dest :: "dest_rule option"
  ba_ttl :: "nat option"

type_synonym broker_policy = "broker_allow list"

datatype deny_reason =
    NoRule
  | EgressBoundary
  | OpaqueCommand
  | HostNotAllowed string
  | HostUnparsed

datatype broker_decision = Resolve | Deny deny_reason

definition compile_glob :: "'x ext_scheme \<Rightarrow> string \<Rightarrow> string result" where
  "compile_glob X pat =
     (case x_glob_new X pat of
        Some e \<Rightarrow> Inl (InvalidSecret (BadBrokerGlob pat e))
      | None \<Rightarrow> Inr pat)"

definition broker_allow_new ::
  "'x ext_scheme \<Rightarrow> string option \<Rightarrow> string \<Rightarrow> string \<Rightarrow> dest_rule option \<Rightarrow> nat option \<Rightarrow>
   broker_allow result" where
  "broker_allow_new X secret tool param_pointer dest ttl =
     bind_r (case secret of
               None \<Rightarrow> Inr None
             | Some s \<Rightarrow> bind_r (compile_glob X s) (\<lambda>g. Inr (Some g)))
       (\<lambda>secret. bind_r (compile_glob X tool)
         (\<lambda>tool. bind_r (compile_glob X param_pointer)
           (\<lambda>param_pointer.
              Inr \<lparr>ba_secret = secret, ba_tool = tool, ba_param_pointer = param_pointer,
                   ba_dest = dest, ba_ttl = ttl\<rparr>)))"

definition is_egress_boundary_tool :: "string \<Rightarrow> bool" where
  "is_egress_boundary_tool t \<longleftrightarrow>
     prefix ''mcp__'' t \<or> t = ''Task'' \<or> t = ''Agent'' \<or> prefix ''subagent_'' t"

definition is_opaque_command_tool :: "string \<Rightarrow> bool" where
  "is_opaque_command_tool t \<longleftrightarrow>
     t \<in> set [''Bash'', ''bash'', ''sh'', ''shell'', ''Shell'', ''zsh'', ''fish'', ''dash'', ''ksh'',
       ''pwsh'', ''powershell'', ''PowerShell'', ''cmd'', ''Execute'', ''exec'', ''run_command'']"

definition host_eq :: "string \<Rightarrow> string \<Rightarrow> bool" where
  "host_eq rule parsed \<longleftrightarrow> map ascii_lower rule = map ascii_lower parsed"

section \<open>Destination hosts\<close>

text \<open>\<open>Url::parse\<close> and \<open>host_str\<close> on each word that holds a \<open>scheme://\<close>, the first that succeeds.\<close>

fun first_url_host :: "'x ext_scheme \<Rightarrow> string list \<Rightarrow> string option" where
  "first_url_host X [] = None"
| "first_url_host X (tok # toks) =
     (if str_contains tok ''://'' then
        (case x_url_host X tok of
           Some h \<Rightarrow> Some (map ascii_lower h)
         | None \<Rightarrow> first_url_host X toks)
      else first_url_host X toks)"

definition url_host :: "'x ext_scheme \<Rightarrow> string \<Rightarrow> string option" where
  "url_host X value =
     (case x_url_host X (str_trim X value) of
        Some h \<Rightarrow> Some (map ascii_lower h)
      | None \<Rightarrow>
          first_url_host X
            (str_split (\<lambda>ch. x_is_whitespace X ch \<or> ch = [CHR 0x22] \<or> ch = [CHR 0x27]) value))"

definition shell_words :: "'x ext_scheme \<Rightarrow> string \<Rightarrow> string list" where
  "shell_words X value = (case x_shlex_split X value of Some ts \<Rightarrow> ts | None \<Rightarrow> [])"

fun flag_host_of :: "string list \<Rightarrow> string option" where
  "flag_host_of [] = None"
| "flag_host_of (t # ts) =
     (case strip_prefix ''--host='' t of
        Some h \<Rightarrow> if h \<noteq> [] then Some (map ascii_lower h) else None
      | None \<Rightarrow>
          if t = ''-h'' \<or> t = ''--host''
          then (case ts of [] \<Rightarrow> None | h # _ \<Rightarrow> Some (map ascii_lower h))
          else flag_host_of ts)"

definition flag_host :: "'x ext_scheme \<Rightarrow> string \<Rightarrow> string option" where
  "flag_host X value = flag_host_of (shell_words X value)"

fun dsn_host_of :: "string list \<Rightarrow> string option" where
  "dsn_host_of [] = None"
| "dsn_host_of (t # ts) =
     (case strip_prefix ''host='' t of
        Some r \<Rightarrow> if r \<noteq> [] then Some (map ascii_lower r) else dsn_host_of ts
      | None \<Rightarrow> dsn_host_of ts)"

definition psql_host :: "'x ext_scheme \<Rightarrow> string \<Rightarrow> string option" where
  "psql_host X value =
     (case url_host X value of
        Some h \<Rightarrow> Some h
      | None \<Rightarrow>
          (case flag_host X value of
             Some h \<Rightarrow> Some h
           | None \<Rightarrow> dsn_host_of (shell_words X value)))"

text \<open>\<open>rsplit(c).next()\<close> and \<open>split(c).next()\<close>.\<close>

definition after_last :: "char \<Rightarrow> string \<Rightarrow> string" where
  "after_last c s = rev (takeWhile (\<lambda>x. x \<noteq> c) (rev s))"

definition before_first :: "char \<Rightarrow> string \<Rightarrow> string" where
  "before_first c s = takeWhile (\<lambda>x. x \<noteq> c) s"

fun ssh_host_of :: "bool \<Rightarrow> string list \<Rightarrow> string option" where
  "ssh_host_of skip_next [] = None"
| "ssh_host_of skip_next (t # ts) =
     (if skip_next then ssh_host_of False ts
      else if t \<in> set [''ssh'', ''scp'', ''sftp'', ''rsync''] then ssh_host_of False ts
      else if prefix ''-'' t then
        ssh_host_of (t \<in> set [''-i'', ''-p'', ''-l'', ''-o'', ''-F'', ''-c'']) ts
      else
        (let host = before_first (CHR '':'') (after_last (CHR ''@'') t)
         in if host \<noteq> [] then Some (map ascii_lower host) else ssh_host_of False ts))"

definition ssh_host :: "'x ext_scheme \<Rightarrow> string \<Rightarrow> string option" where
  "ssh_host X value = ssh_host_of False (shell_words X value)"

definition parse_dest_host :: "'x ext_scheme \<Rightarrow> string \<Rightarrow> string \<Rightarrow> string option" where
  "parse_dest_host X tool value =
     (if tool \<in> set [''curl'', ''wget'', ''http'', ''https'', ''httpie''] then url_host X value
      else if tool \<in> set [''psql'', ''pg_dump'', ''pg_restore'', ''pg_dumpall'', ''createdb'', ''dropdb'']
        then psql_host X value
      else if tool \<in> set [''mysql'', ''mariadb''] then
        (case flag_host X value of Some h \<Rightarrow> Some h | None \<Rightarrow> url_host X value)
      else if tool \<in> set [''ssh'', ''scp'', ''sftp'', ''rsync''] then ssh_host X value
      else None)"

section \<open>The decision\<close>

definition dest_decision ::
  "'x ext_scheme \<Rightarrow> string \<Rightarrow> string \<Rightarrow> dest_rule option \<Rightarrow> broker_decision" where
  "dest_decision X tool param_value dest =
     (case dest of
        None \<Rightarrow> Resolve
      | Some AnyHost \<Rightarrow> Resolve
      | Some (HostAllowList hosts) \<Rightarrow>
          (case parse_dest_host X tool param_value of
             Some h \<Rightarrow>
               if list_ex (\<lambda>x. host_eq x h) hosts then Resolve else Deny (HostNotAllowed h)
           | None \<Rightarrow> Deny HostUnparsed))"

definition rule_applies ::
  "'x ext_scheme \<Rightarrow> broker_allow \<Rightarrow> string \<Rightarrow> string \<Rightarrow> string \<Rightarrow> bool" where
  "rule_applies X a secret_name tool pointer \<longleftrightarrow>
     (case ba_secret a of None \<Rightarrow> True | Some g \<Rightarrow> x_glob_match X g secret_name) \<and>
     x_glob_match X (ba_tool a) tool \<and> x_glob_match X (ba_param_pointer a) pointer"

fun decide_rules ::
  "'x ext_scheme \<Rightarrow> broker_allow list \<Rightarrow> string \<Rightarrow> string \<Rightarrow> string \<Rightarrow> string \<Rightarrow> broker_decision" where
  "decide_rules X [] secret_name tool pointer param_value = Deny NoRule"
| "decide_rules X (a # rules) secret_name tool pointer param_value =
     (if \<not> rule_applies X a secret_name tool pointer
      then decide_rules X rules secret_name tool pointer param_value
      else dest_decision X tool param_value (ba_dest a))"

definition decide ::
  "'x ext_scheme \<Rightarrow> broker_policy \<Rightarrow> string \<Rightarrow> string \<Rightarrow> string \<Rightarrow> string \<Rightarrow> broker_decision" where
  "decide X policy secret_name tool pointer param_value =
     (if is_egress_boundary_tool tool then Deny EgressBoundary
      else if is_opaque_command_tool tool then Deny OpaqueCommand
      else decide_rules X policy secret_name tool pointer param_value)"

end
