(* ===== verification/Splice.thy ===== *)
theory Splice
  imports Prelude
begin

text \<open>
  Splicing replacements into a text.  The sources replace a list of spans from the back with
  \<open>String::replace_range\<close>, so that earlier offsets stay valid; \<open>assemble\<close> is what this
  achieves, the text between the spans with each span replaced, read from the front.
  \<open>apply_splices_assemble\<close> is the agreement of the two, with the absence of panics.
\<close>

type_synonym replacement = "(nat \<times> nat) \<times> string"

text \<open>The loop, last span first; None is the panic of \<open>replace_range\<close>.\<close>

fun apply_splices :: "replacement list \<Rightarrow> string \<Rightarrow> string option" where
  "apply_splices [] out = Some out"
| "apply_splices (((a, b), r) # rs) out =
     (case apply_splices rs out of
        None \<Rightarrow> None
      | Some out' \<Rightarrow> replace_range a b r out')"

fun assemble :: "string \<Rightarrow> nat \<Rightarrow> replacement list \<Rightarrow> string" where
  "assemble t pos [] = drop pos t"
| "assemble t pos (((a, b), r) # rs) = slice pos a t @ r @ assemble t b rs"

text \<open>Spans in order from \<open>pos\<close> on, not beyond \<open>n\<close>.\<close>

fun spans_from :: "nat \<Rightarrow> nat \<Rightarrow> replacement list \<Rightarrow> bool" where
  "spans_from n pos [] \<longleftrightarrow> pos \<le> n"
| "spans_from n pos (((a, b), r) # rs) \<longleftrightarrow> pos \<le> a \<and> a \<le> b \<and> spans_from n b rs"

definition bounds_ok :: "string \<Rightarrow> replacement list \<Rightarrow> bool" where
  "bounds_ok t rs \<longleftrightarrow>
     (\<forall>((a, b), r)\<in>set rs. is_char_boundary t a \<and> is_char_boundary t b)"

text \<open>A replacement that is a string of its own does not begin inside a character.\<close>

definition starts_char :: "string \<Rightarrow> bool" where
  "starts_char r \<longleftrightarrow> r = [] \<or> \<not> is_cont (hd r)"

lemma spans_from_le: "spans_from n pos rs \<Longrightarrow> pos \<le> n"
  by (induction n pos rs rule: spans_from.induct) auto

lemma assemble_prefix:
  "spans_from (length t) pos rs \<Longrightarrow> p \<le> pos \<Longrightarrow> slice p pos t @ assemble t pos rs = assemble t p rs"
proof (induction rs arbitrary: pos)
  case Nil
  then show ?case by (simp add: slice_drop)
next
  case (Cons s rs)
  obtain a b r where s: "s = ((a, b), r)" by (metis prod.exhaust)
  with Cons.prems show ?case
    by (simp add: slice_append_slice append_assoc [symmetric] del: append_assoc)
qed

lemma assemble_0: "spans_from (length t) pos rs \<Longrightarrow> assemble t 0 rs = take pos t @ assemble t pos rs"
  using assemble_prefix [of t pos rs 0] by (simp add: slice_def)

lemma boundary_lead:
  "starts_char t \<Longrightarrow> is_char_boundary t i \<Longrightarrow> i < length t \<Longrightarrow> \<not> is_cont (t ! i)"
  by (cases t) (auto simp: is_char_boundary_def starts_char_def split: if_splits)

text \<open>The assembled text begins a character wherever the original does.\<close>

lemma starts_assemble:
  assumes "spans_from (length t) pos rs" and "bounds_ok t rs" and "is_char_boundary t pos"
    and "starts_char t" and "\<forall>(s, r)\<in>set rs. starts_char r"
  shows "starts_char (assemble t pos rs)"
  using assms
proof (induction rs arbitrary: pos)
  case Nil
  then show ?case
    using boundary_lead [of t pos]
    by (cases "pos < length t") (auto simp: starts_char_def hd_drop_conv_nth)
next
  case (Cons s rs)
  obtain a b r where s: "s = ((a, b), r)" by (metis prod.exhaust)
  have b: "is_char_boundary t b" "bounds_ok t rs"
    using Cons.prems by (auto simp: s bounds_ok_def)
  have IH: "starts_char (assemble t b rs)"
    using Cons.prems b by (intro Cons.IH) (auto simp: s)
  have a: "pos \<le> a" "a \<le> length t"
    using Cons.prems(1) spans_from_le by (auto simp: s intro: order_trans)
  show ?case
  proof (cases "pos < a")
    case True
    with a have "slice pos a t \<noteq> []" "hd (slice pos a t) = t ! pos"
      by (auto simp: slice_def hd_drop_conv_nth)
    moreover have "\<not> is_cont (t ! pos)"
      using boundary_lead [OF Cons.prems(4,3)] True a by simp
    ultimately show ?thesis by (simp add: s starts_char_def)
  next
    case False
    with a have "slice pos a t = []" by simp
    then show ?thesis
      using IH Cons.prems(5) by (cases r) (auto simp: s starts_char_def)
  qed
qed

lemma apply_splices_assemble:
  assumes "spans_from (length t) pos rs" and "bounds_ok t rs" and "starts_char t"
    and "\<forall>(s, r)\<in>set rs. starts_char r"
  shows "apply_splices rs t = Some (assemble t 0 rs)"
  using assms
proof (induction rs arbitrary: pos)
  case Nil
  then show ?case by simp
next
  case (Cons s rs)
  obtain a b r where s: "s = ((a, b), r)" by (metis prod.exhaust)
  from Cons.prems have ab: "a \<le> b" "spans_from (length t) b rs"
    and bd: "is_char_boundary t a" "is_char_boundary t b" "bounds_ok t rs"
    by (auto simp: s bounds_ok_def)
  have bl: "b \<le> length t" using ab(2) by (rule spans_from_le)
  define rest where "rest = assemble t b rs"
  have out: "assemble t 0 rs = take b t @ rest"
    unfolding rest_def by (rule assemble_0 [OF ab(2)])
  have IH: "apply_splices rs t = Some (take b t @ rest)"
    using Cons.IH [OF ab(2) bd(3)] Cons.prems(3,4) by (simp add: s out)
  have "starts_char rest"
    unfolding rest_def using Cons.prems(3,4) ab bd by (intro starts_assemble) (auto simp: s)
  then have "is_char_boundary (take b t @ rest) b"
    using bl by (cases rest) (auto simp: is_char_boundary_def starts_char_def nth_append)
  moreover have "is_char_boundary (take b t @ rest) a"
  proof (cases "a = b")
    case True
    with calculation show ?thesis by simp
  next
    case False
    with ab bl boundary_lead [OF Cons.prems(3) bd(1)] show ?thesis
      by (auto simp: is_char_boundary_def nth_append)
  qed
  ultimately show ?case
    using ab bl by (simp add: s IH replace_range_def slice_def rest_def)
qed

text \<open>Replacing every span by itself changes nothing.\<close>

lemma assemble_id:
  "spans_from (length t) pos rs \<Longrightarrow> \<forall>((a, b), r)\<in>set rs. r = slice a b t \<Longrightarrow> assemble t pos rs = drop pos t"
proof (induction rs arbitrary: pos)
  case Nil
  then show ?case by simp
next
  case (Cons s rs)
  obtain a b r where s: "s = ((a, b), r)" by (metis prod.exhaust)
  with Cons show ?case
    by (simp add: slice_drop spans_from_le)
qed

end
