(* ===== verification/Engine.thy ===== *)
theory Engine
  imports Store MlSlot BrokerPolicy Splice
begin

text \<open>
  \<open>MaskEngine\<close> of \<open>lib.rs\<close>: the policy, the live switches, the mask path (user bypass, disabled
  surfaces, detection through the cache, back-to-front splicing), the prewarm pass and the
  unmask path.  The engine's locked slots are the fields of one record; an operation takes the
  record and returns it updated, so a history of calls is a sequence of operations.
\<close>

section \<open>Policy and state\<close>

record policy =
  po_config :: engine_config
  po_customs :: "compiled_custom list"
  po_policy_fp :: u64fp

definition policy_new :: "'x ext_scheme \<Rightarrow> engine_config \<Rightarrow> policy result" where
  "policy_new X config =
     (let config = config\<lparr>ec_fail_closed := True\<rparr>;
          bad_op = (\<lambda>p. p = OpBroker \<or> p = OpLocal)
      in if bad_op (ec_default_operator config) \<or> list_ex bad_op (map snd (ec_entity_operators config))
         then Inl (InvalidSecret OperatorNeedsSecret)
         else
           bind_r (compile_customs X (ec_custom_replacements config))
             (\<lambda>customs.
                Inr \<lparr>po_config = config, po_customs = customs,
                     po_policy_fp = detection_fingerprint X config\<rparr>))"

record mask_engine =
  en_policy :: policy
  en_ml :: ml_runtime
  en_store :: session_store
  en_cache :: detection_cache
  en_secrets :: secret_set
  en_broker_policy :: broker_policy

definition engine_from_parts ::
  "'x ext_scheme \<Rightarrow> engine_config \<Rightarrow> session_store \<Rightarrow> mask_engine result" where
  "engine_from_parts X config store =
     bind_r (policy_new X config)
       (\<lambda>policy.
          Inr \<lparr>en_policy = policy, en_ml = ml_default X, en_store = store,
               en_cache = cache_new (ec_detection_cache_cap config),
               en_secrets = secret_set_empty X, en_broker_policy = []\<rparr>)"

definition engine_new :: "'x ext_scheme \<Rightarrow> nat \<Rightarrow> engine_config \<Rightarrow> mask_engine result" where
  "engine_new X draws config = engine_from_parts X config (store_new X draws)"

definition engine_with_session ::
  "'x ext_scheme \<Rightarrow> nat \<Rightarrow> engine_config \<Rightarrow> string \<Rightarrow> string \<Rightarrow> mask_engine result" where
  "engine_with_session X draws config key salt =
     engine_from_parts X config (store_with_key_and_salt key salt draws)"

definition engine_with_salt ::
  "'x ext_scheme \<Rightarrow> nat \<Rightarrow> engine_config \<Rightarrow> string \<Rightarrow> mask_engine result" where
  "engine_with_salt X draws config salt =
     engine_from_parts X config (store_with_salt X salt draws)"

definition control_token :: "'x ext_scheme \<Rightarrow> mask_engine \<Rightarrow> string" where
  "control_token X e =
     to_hex (x_blake3 X (''zlauder-control-token-v1'' @ ss_session_key (en_store e)))"

definition set_enabled :: "bool \<Rightarrow> mask_engine \<Rightarrow> mask_engine" where
  "set_enabled enabled e =
     (if ec_enabled (po_config (en_policy e)) = enabled then e
      else e\<lparr>en_policy := (en_policy e)
               \<lparr>po_config := (po_config (en_policy e))\<lparr>ec_enabled := enabled\<rparr>\<rparr>\<rparr>)"

definition set_config ::
  "'x ext_scheme \<Rightarrow> engine_config \<Rightarrow> mask_engine \<Rightarrow> unit result \<times> mask_engine" where
  "set_config X config e =
     (case policy_new X config of
        Inl err \<Rightarrow> (Inl err, e)
      | Inr policy \<Rightarrow>
          (Inr (), e\<lparr>en_policy := policy,
             en_cache := cache_set_cap (ec_detection_cache_cap config) (en_cache e)\<rparr>))"

text \<open>The eager interning of \<open>Local\<close> secrets; the first failure ends the loop.\<close>

fun intern_locals ::
  "'x ext_scheme \<Rightarrow> compiled_secret list \<Rightarrow> session_store \<Rightarrow> unit result \<times> session_store" where
  "intern_locals X [] s = (Inr (), s)"
| "intern_locals X (c # cs) s =
     (if cs_operator c = OpLocal
      then (case intern_local X (cs_name c) (cs_value c) s of
              (Inl e, s') \<Rightarrow> (Inl e, s')
            | (Inr _, s') \<Rightarrow> intern_locals X cs s')
      else intern_locals X cs s)"

definition set_secret_rules ::
  "'x ext_scheme \<Rightarrow> secret_rule list \<Rightarrow> mask_engine \<Rightarrow> unit result \<times> mask_engine" where
  "set_secret_rules X rules e =
     (case compile_secrets X rules of
        Inl err \<Rightarrow> (Inl err, e)
      | Inr compiled \<Rightarrow>
          (let fp = secrets_fingerprint X compiled in
           case intern_locals X compiled (en_store e) of
             (Inl err, s) \<Rightarrow> (Inl err, e\<lparr>en_store := s\<rparr>)
           | (Inr _, s) \<Rightarrow>
               (Inr (), e\<lparr>en_store := s,
                  en_secrets := \<lparr>sset_compiled = compiled, sset_fp = fp\<rparr>\<rparr>)))"

definition secret_count :: "mask_engine \<Rightarrow> nat" where
  "secret_count e = length (sset_compiled (en_secrets e))"

definition set_broker_policy :: "broker_policy \<Rightarrow> mask_engine \<Rightarrow> mask_engine" where
  "set_broker_policy policy e = e\<lparr>en_broker_policy := policy\<rparr>"

definition token_count :: "mask_engine \<Rightarrow> nat" where
  "token_count e = store_len (en_store e)"

section \<open>Rendering one detection\<close>

fun snap_down :: "string \<Rightarrow> nat \<Rightarrow> nat" where
  "snap_down t 0 = 0"
| "snap_down t (Suc i) = (if \<not> is_char_boundary t (Suc i) then snap_down t i else Suc i)"

function snap_up :: "string \<Rightarrow> nat \<Rightarrow> nat" where
  "snap_up t i = (if i < length t \<and> \<not> is_char_boundary t i then snap_up t (Suc i) else i)"
  by pat_completeness auto
termination
  by (relation "measure (\<lambda>(t, i). length t - i)") auto

declare snap_up.simps [simp del]

definition snap_to_char_boundary :: "string \<Rightarrow> nat \<Rightarrow> nat \<Rightarrow> nat \<times> nat" where
  "snap_to_char_boundary t start end =
     (let start = min start (length t);
          end = max (min end (length t)) start
      in (snap_down t start, snap_up t end))"

definition mask_value :: "string \<Rightarrow> string \<Rightarrow> nat \<Rightarrow> string" where
  "mask_value sl ch from_end =
     (let chars = utf8_chars sl;
          n = length chars;
          keep = min from_end n
      in concat (replicate (n - keep) ch) @ concat (drop (n - keep) chars))"

definition minted_entry ::
  "surface \<Rightarrow> cached_detection \<Rightarrow> nat \<Rightarrow> string \<Rightarrow> string \<Rightarrow> bool \<Rightarrow> bool \<Rightarrow> manifest_entry" where
  "minted_entry surface d start sl token broker local =
     \<lparr>me_canonical_form = sl, me_token_handle = token, me_entity_kind = cd_entity_type d,
      me_arrow_origin = surface, me_exposed_at = Some (start, start + length token),
      me_broker = broker, me_local = local\<rparr>"

type_synonym rendering = "string \<times> manifest_entry option"

definition minted ::
  "surface \<Rightarrow> cached_detection \<Rightarrow> nat \<Rightarrow> string \<Rightarrow> bool \<Rightarrow> bool \<Rightarrow>
   string result \<times> session_store \<Rightarrow> rendering option result \<times> session_store" where
  "minted surface d start sl broker local r =
     (case r of
        (Inl e, s) \<Rightarrow> (Inl e, s)
      | (Inr token, s) \<Rightarrow>
          (Inr (Some (token, Some (minted_entry surface d start sl token broker local))), s))"

text \<open>
  The replacement of a detection and the manifest entry it adds; \<open>Inr None\<close> is the \<open>continue\<close>
  of \<open>Keep\<close>.  A broker token is minted without a deadline, so no clock is read.
\<close>

definition render ::
  "'x ext_scheme \<Rightarrow> engine_config \<Rightarrow> surface \<Rightarrow> string \<Rightarrow> cached_detection \<Rightarrow> nat \<Rightarrow> string \<Rightarrow>
   session_store \<Rightarrow> rendering option result \<times> session_store" where
  "render X cfg surface salt d start sl s =
     (case resolve_operator cfg d of
        OpKeep \<Rightarrow> (Inr None, s)
      | OpRedact \<Rightarrow> (Inr (Some (''[REDACTED]'', None)), s)
      | OpMask ch from_end \<Rightarrow> (Inr (Some (mask_value sl ch from_end, None)), s)
      | OpHash \<Rightarrow>
          (Inr (Some
             (if cd_secret_op d \<noteq> None then make_hash_token X (cd_entity_type d) sl salt
              else hash_value X (cd_entity_type d) sl, None)), s)
      | OpToken \<Rightarrow>
          minted surface d start sl False False
            (case cd_fixed_token d of
               Some fixed \<Rightarrow> with_token fixed (intern_fixed X fixed sl s)
             | None \<Rightarrow> intern X (cd_entity_type d) sl s)
      | OpLocal \<Rightarrow> minted surface d start sl False True (intern_local X (cd_entity_type d) sl s)
      | OpBroker \<Rightarrow>
          minted surface d start sl True False (intern_broker X 0 (cd_entity_type d) sl None s))"

text \<open>\<open>for d in dets.iter().rev()\<close>, on the reversed list.\<close>

fun apply_loop ::
  "'x ext_scheme \<Rightarrow> engine_config \<Rightarrow> string \<Rightarrow> surface \<Rightarrow> string \<Rightarrow> cached_detection list \<Rightarrow>
   string \<Rightarrow> unmask_manifest \<Rightarrow> session_store \<Rightarrow> (string \<times> unmask_manifest) result \<times> session_store"
where
  "apply_loop X cfg t surface salt [] out m s = (Inr (out, m), s)"
| "apply_loop X cfg t surface salt (d # ds) out m s =
     (let (start, end) = snap_to_char_boundary t (cd_start d) (cd_end d) in
      case str_slice start end t of
        None \<Rightarrow> (Inl RustPanic, s)
      | Some sl \<Rightarrow>
          (case render X cfg surface salt d start sl s of
             (Inl e, s') \<Rightarrow> (Inl e, s')
           | (Inr None, s') \<Rightarrow> apply_loop X cfg t surface salt ds out m s'
           | (Inr (Some (r, entry)), s') \<Rightarrow>
               (case replace_range start end r out of
                  None \<Rightarrow> (Inl RustPanic, s')
                | Some out' \<Rightarrow>
                    apply_loop X cfg t surface salt ds out'
                      (case entry of None \<Rightarrow> m | Some me \<Rightarrow> manifest_push m me) s')))"

definition apply_dets ::
  "'x ext_scheme \<Rightarrow> string \<Rightarrow> surface \<Rightarrow> engine_config \<Rightarrow> cached_detection list \<Rightarrow> session_store \<Rightarrow>
   (string \<times> unmask_manifest) result \<times> session_store" where
  "apply_dets X t surface cfg dets s =
     apply_loop X cfg t surface (ss_salt s) (rev dets) t manifest_new s"

definition apply_engine ::
  "'x ext_scheme \<Rightarrow> string \<Rightarrow> surface \<Rightarrow> cached_detection list \<Rightarrow> mask_stats \<Rightarrow> mask_engine \<Rightarrow>
   mask_outcome result \<times> mask_engine" where
  "apply_engine X t surface dets stats e =
     (case apply_dets X t surface (po_config (en_policy e)) dets (en_store e) of
        (Inl err, s) \<Rightarrow> (Inl err, e\<lparr>en_store := s\<rparr>)
      | (Inr (out, m), s) \<Rightarrow>
          (Inr \<lparr>mo_masked_text = out, mo_manifest = m, mo_stats = stats\<rparr>, e\<lparr>en_store := s\<rparr>))"

section \<open>The user bypass\<close>

datatype user_bypass_segment = SegMask string | SegBypass string

function bypass_segments :: "string \<Rightarrow> user_bypass_segment list" where
  "bypass_segments t =
     (case str_find ''>>'' t of
        None \<Rightarrow> [SegMask t]
      | Some start \<Rightarrow>
          (case str_find ''<<'' (drop (start + 2) t) of
             None \<Rightarrow> [SegMask t]
           | Some rel_end \<Rightarrow>
               SegMask (take start t) # SegBypass (take rel_end (drop (start + 2) t)) #
               bypass_segments (drop (start + 2 + rel_end + 2) t)))"
  by pat_completeness auto
termination
  by (relation "measure length") (auto dest!: str_find_Some)

declare bypass_segments.simps [simp del]

text \<open>None when nothing matched, that is when the text is one segment.\<close>

definition user_bypass_segments :: "string \<Rightarrow> user_bypass_segment list option" where
  "user_bypass_segments t =
     (let segments = bypass_segments t in if length segments = 1 then None else Some segments)"

section \<open>Masking\<close>

definition stripped_for_key :: "policy \<Rightarrow> string \<Rightarrow> surface \<Rightarrow> string" where
  "stripped_for_key policy t surface =
     (let m = ec_reveal_marker (po_config policy)
      in if surface = AssistantText \<and> rm_is_active m \<and> rm_contained_in m t then rm_strip m t else t)"

definition detection_key ::
  "'x ext_scheme \<Rightarrow> policy \<Rightarrow> secret_set \<Rightarrow> u64fp \<Rightarrow> string \<Rightarrow> surface \<Rightarrow> cache_key" where
  "detection_key X policy secrets ml_fp t surface =
     \<lparr>ck_text_hash = hash_text X t, ck_surface = surface, ck_policy_fp = po_policy_fp policy,
      ck_ml_fp = ml_fp, ck_secrets_fp = sset_fp secrets\<rparr>"

definition detect_and_cache ::
  "'x ext_scheme \<Rightarrow> ml_recognizer option \<Rightarrow> nat \<Rightarrow> string \<Rightarrow> surface \<Rightarrow> cache_key \<Rightarrow> mask_stats \<Rightarrow>
   mask_engine \<Rightarrow> (cached_detection list \<times> mask_stats) result \<times> mask_engine" where
  "detect_and_cache X ml generation t surface key stats e =
     (let stats = (if ml \<noteq> None then stats\<lparr>st_ml_ran := 1\<rparr> else stats);
          policy = en_policy e
      in case run_detection X (po_config policy) (po_customs policy)
                (sset_compiled (en_secrets e)) ml t surface of
           Inr d \<Rightarrow>
             (let e' = (if ml \<noteq> None
                        then e\<lparr>en_ml := ml_clear_runtime_failure generation (en_ml e)\<rparr> else e)
              in (Inr (d, stats\<lparr>st_fresh_miss := 1\<rparr>),
                  e'\<lparr>en_cache := cache_insert key d (en_cache e')\<rparr>))
         | Inl err \<Rightarrow>
             (Inl err,
              if ml \<noteq> None
              then e\<lparr>en_ml := ml_note_runtime_failure generation err (en_ml e)\<rparr> else e))"

text \<open>\<open>self.cache.get\<close>, which moves the entry to the front of the map.\<close>

definition engine_cache_get ::
  "cache_key \<Rightarrow> mask_engine \<Rightarrow> cached_detection list option \<times> mask_engine" where
  "engine_cache_get key e =
     (let (r, c) = cache_get key (en_cache e) in (r, e\<lparr>en_cache := c\<rparr>))"

text \<open>The lookup; with ML active, the second lookup is the one under the inference gate.\<close>

definition find_detections ::
  "'x ext_scheme \<Rightarrow> ml_recognizer option \<Rightarrow> nat \<Rightarrow> string \<Rightarrow> surface \<Rightarrow> cache_key \<Rightarrow> mask_engine \<Rightarrow>
   (cached_detection list \<times> mask_stats) result \<times> mask_engine" where
  "find_detections X ml generation t surface key e =
     (let stats = stats_default\<lparr>st_leaves := 1\<rparr> in
      case engine_cache_get key e of
        (Some hit, e1) \<Rightarrow> (Inr (hit, stats\<lparr>st_hit := 1\<rparr>), e1)
      | (None, e1) \<Rightarrow>
          if ml \<noteq> None then
            (case engine_cache_get key e1 of
               (Some hit, e2) \<Rightarrow> (Inr (hit, stats\<lparr>st_hit := 1\<rparr>), e2)
             | (None, e2) \<Rightarrow> detect_and_cache X ml generation t surface key stats e2)
          else detect_and_cache X None generation t surface key stats e1)"

definition mask_disabled ::
  "'x ext_scheme \<Rightarrow> string \<Rightarrow> surface \<Rightarrow> mask_engine \<Rightarrow> mask_outcome result \<times> mask_engine" where
  "mask_disabled X t surface e =
     (let secrets = sset_compiled (en_secrets e) in
      if secrets = [] then (Inr (passthrough t stats_disabled), e)
      else
        (let dets = resolve_overlaps (detect_secrets X secrets t surface)
         in if dets = [] then (Inr (passthrough t stats_disabled), e)
            else apply_engine X t surface dets stats_disabled e))"

definition mask_enabled ::
  "'x ext_scheme \<Rightarrow> string \<Rightarrow> surface \<Rightarrow> mask_engine \<Rightarrow> mask_outcome result \<times> mask_engine" where
  "mask_enabled X raw surface e =
     (let t = stripped_for_key (en_policy e) raw surface;
          (ml, ml_fp, generation, refusal) = ml_for_mask (en_ml e)
      in case refusal of
           Some reason \<Rightarrow> (Inl reason, e)
         | None \<Rightarrow>
             (let key = detection_key X (en_policy e) (en_secrets e) ml_fp t surface
              in case find_detections X ml generation t surface key e of
                   (Inl err, e') \<Rightarrow> (Inl err, e')
                 | (Inr (dets, stats), e') \<Rightarrow> apply_engine X t surface dets stats e'))"

text \<open>\<open>mask\<close> after the user-bypass check.\<close>

definition mask_leaf ::
  "'x ext_scheme \<Rightarrow> string \<Rightarrow> surface \<Rightarrow> mask_engine \<Rightarrow> mask_outcome result \<times> mask_engine" where
  "mask_leaf X t surface e =
     (let cfg = po_config (en_policy e)
      in if \<not> ec_enabled cfg \<or> \<not> surface_enabled cfg surface
         then mask_disabled X t surface e else mask_enabled X t surface e)"

text \<open>The scan of a bypassed segment for registered secrets: its text and what it minted.\<close>

definition mask_bypassed ::
  "'x ext_scheme \<Rightarrow> string \<Rightarrow> mask_engine \<Rightarrow> mask_outcome result \<times> mask_engine" where
  "mask_bypassed X t e =
     (let secrets = sset_compiled (en_secrets e);
          dets = (if secrets = [] then []
                  else resolve_overlaps (detect_secrets X secrets t UserMessage))
      in if dets = [] then (Inr (passthrough t stats_default), e)
         else apply_engine X t UserMessage dets stats_default e)"

fun seg_weight :: "user_bypass_segment \<Rightarrow> nat" where
  "seg_weight (SegMask s) = length s + 1"
| "seg_weight (SegBypass s) = length s + 1"

definition outcome_append :: "mask_outcome \<Rightarrow> mask_outcome \<Rightarrow> mask_outcome" where
  "outcome_append a b =
     \<lparr>mo_masked_text = mo_masked_text a @ mo_masked_text b,
      mo_manifest = manifest_merge (mo_manifest a) (mo_manifest b),
      mo_stats = stats_merge (mo_stats a) (mo_stats b)\<rparr>"

lemma bypass_weight:
  "sum_list (map seg_weight (bypass_segments t)) \<le> length t + 1 \<and>
   (length (bypass_segments t) \<noteq> 1 \<longrightarrow>
      sum_list (map seg_weight (bypass_segments t)) < length t)"
proof (induction t rule: bypass_segments.induct)
  case (1 t)
  show ?case
  proof (cases "str_find ''>>'' t")
    case None
    then show ?thesis by (subst (1 2 3) bypass_segments.simps) simp
  next
    case (Some i)
    show ?thesis
    proof (cases "str_find ''<<'' (drop (i + 2) t)")
      case None
      with Some show ?thesis by (subst (1 2 3) bypass_segments.simps) simp
    next
      case (Some j)
      have ij: "i + 2 \<le> length t" "j + 2 \<le> length t - (i + 2)"
        using str_find_Some [OF \<open>str_find ''>>'' t = Some i\<close>] str_find_Some [OF Some] by simp_all
      from "1.IH" [OF \<open>str_find ''>>'' t = Some i\<close> Some]
      have "sum_list (map seg_weight (bypass_segments (drop (i + 2 + j + 2) t)))
          \<le> length t - (i + 2 + j + 2) + 1" by simp
      then show ?thesis
        using ij \<open>str_find ''>>'' t = Some i\<close> Some
        by (subst (1 2 3) bypass_segments.simps) (simp, linarith)
    qed
  qed
qed

lemma bypass_shrinks:
  "user_bypass_segments t = Some segs \<Longrightarrow> sum_list (map seg_weight segs) < length t"
  using bypass_weight [of t] by (auto simp: user_bypass_segments_def Let_def split: if_splits)

function mask ::
    "'x ext_scheme \<Rightarrow> string \<Rightarrow> surface \<Rightarrow> mask_engine \<Rightarrow> mask_outcome result \<times> mask_engine"
  and mask_segments ::
    "'x ext_scheme \<Rightarrow> user_bypass_segment list \<Rightarrow> mask_outcome \<Rightarrow> mask_engine \<Rightarrow>
     mask_outcome result \<times> mask_engine"
where
  "mask X t surface e =
     (case (if surface = UserMessage then user_bypass_segments t else None) of
        Some segments \<Rightarrow> mask_segments X segments (passthrough [] stats_default) e
      | None \<Rightarrow> mask_leaf X t surface e)"
| "mask_segments X [] acc e = (Inr acc, e)"
| "mask_segments X (SegMask s # segs) acc e =
     (if s = [] then mask_segments X segs acc e
      else
        (case mask X s UserMessage e of
           (Inl err, e') \<Rightarrow> (Inl err, e')
         | (Inr outcome, e') \<Rightarrow> mask_segments X segs (outcome_append acc outcome) e'))"
| "mask_segments X (SegBypass s # segs) acc e =
     (case mask_bypassed X s e of
        (Inl err, e') \<Rightarrow> (Inl err, e')
      | (Inr outcome, e') \<Rightarrow> mask_segments X segs (outcome_append acc outcome) e')"
  by pat_completeness auto
termination
  by (relation "measure (\<lambda>a. case a of
        Inl (X, t, surface, e) \<Rightarrow> length t
      | Inr (X, segs, acc, e) \<Rightarrow> sum_list (map seg_weight segs))")
    (auto dest: bypass_shrinks split: if_splits)

declare mask.simps [simp del]

end
