(* ===== verification/Unmask.thy ===== *)
theory Unmask
  imports Engine
begin

text \<open>
  The rest of \<open>MaskEngine\<close>: the batched prewarm of the detection cache, the unmask path of the
  display and of the tool boundary, the audit reveal and the promotion of \<open>Local\<close> tokens.
\<close>

section \<open>Prewarm\<close>

type_synonym planned = "(cache_key \<times> string \<times> surface) list"

text \<open>One leaf of the planning loop: the planned leaves, the keys seen, and the engine.\<close>

definition plan_leaf ::
  "'x ext_scheme \<Rightarrow> u64fp \<Rightarrow> string \<times> surface \<Rightarrow> planned \<times> cache_key set \<times> mask_engine \<Rightarrow>
   planned \<times> cache_key set \<times> mask_engine" where
  "plan_leaf X ml_fp leaf st =
     (let (raw, surface) = leaf; (planned, seen, e) = st; policy = en_policy e in
      if \<not> surface_enabled (po_config policy) surface then st
      else if surface = UserMessage \<and> user_bypass_segments raw \<noteq> None then st
      else
        (let t = stripped_for_key policy raw surface;
             key = detection_key X policy (en_secrets e) ml_fp t surface;
             (hit, e) = engine_cache_get key e
         in if hit \<noteq> None then (planned, seen, e)
            else if key \<in> seen then (planned, seen, e)
            else (planned @ [(key, t, surface)], insert key seen, e)))"

text \<open>The filter under the inference gate, each lookup refreshing the map.\<close>

fun filter_pending :: "planned \<Rightarrow> mask_engine \<Rightarrow> planned \<times> mask_engine" where
  "filter_pending [] e = ([], e)"
| "filter_pending ((key, t, surface) # ps) e =
     (let (hit, e1) = engine_cache_get key e;
          (rest, e2) = filter_pending ps e1
      in (if hit = None then (key, t, surface) # rest else rest, e2))"

definition prewarm_batch ::
  "'x ext_scheme \<Rightarrow> (string \<times> surface) list \<Rightarrow> mask_engine \<Rightarrow> mask_engine" where
  "prewarm_batch X leaves e =
     (if leaves = [] then e
      else if \<not> ec_enabled (po_config (en_policy e)) then e
      else
        (case ml_for_mask (en_ml e) of
           (Some ml, ml_fp, generation, None) \<Rightarrow>
             (let (planned, seen, e1) = fold (plan_leaf X ml_fp) leaves ([], {}, e)
              in if planned = [] then e1
                 else
                   (let (pending, e2) = filter_pending planned e1
                    in if pending = [] then e2
                       else
                         (case run_detection_batch X (po_config (en_policy e2))
                                 (po_customs (en_policy e2)) (sset_compiled (en_secrets e2)) ml
                                 (map snd pending) of
                            Inr det_lists \<Rightarrow>
                              e2\<lparr>en_cache :=
                                   fold (\<lambda>(key, dets). cache_insert key dets)
                                     (zip (map fst pending) det_lists) (en_cache e2)\<rparr>
                          | Inl err \<Rightarrow> e2)))
         | _ \<Rightarrow> e))"

section \<open>Unmask\<close>

text \<open>What one matched token is replaced by.\<close>

definition unmask_token ::
  "'x ext_scheme \<Rightarrow> nat \<Rightarrow> session_store \<Rightarrow> unmask_manifest \<Rightarrow> reveal_marker option \<Rightarrow> bool \<Rightarrow>
   string \<Rightarrow> string" where
  "unmask_token X now s m marker reveal_local tok =
     (if is_broker_token tok then tok
      else
        (let mentry = find (\<lambda>e. me_token_handle e = tok) m;
             is_loc = (case mentry of Some e \<Rightarrow> me_local e | None \<Rightarrow> is_local s tok)
         in if is_loc \<and> \<not> reveal_local \<and> \<not> is_tool_promoted s tok then tok
            else
              (let plain =
                     (case mentry of
                        Some e \<Rightarrow> Some (me_canonical_form e)
                      | None \<Rightarrow>
                          (case reveal X now s tok of
                             Some v \<Rightarrow> Some v
                           | None \<Rightarrow> map_option rv_value (reveal_for X now s tok Local)))
               in case plain of
                    Some p \<Rightarrow> (case marker of Some mk \<Rightarrow> rm_wrap mk p | None \<Rightarrow> p)
                  | None \<Rightarrow> tok)))"

text \<open>Custom literal tokens outside the token grammar.\<close>

definition unmask_literal ::
  "reveal_marker option \<Rightarrow> manifest_entry \<Rightarrow> string \<Rightarrow> string" where
  "unmask_literal marker e out =
     (if me_broker e \<or> me_local e then out
      else if \<not> token_is_match (me_token_handle e)
        then str_replace (me_token_handle e)
               (case marker of
                  Some mk \<Rightarrow> rm_wrap mk (me_canonical_form e)
                | None \<Rightarrow> me_canonical_form e) out
      else out)"

definition unmask_inner ::
  "'x ext_scheme \<Rightarrow> nat \<Rightarrow> mask_engine \<Rightarrow> string \<Rightarrow> unmask_manifest \<Rightarrow> reveal_marker option \<Rightarrow>
   bool \<Rightarrow> string result" where
  "unmask_inner X now e t m marker reveal_local =
     (let out = splice_tokens (unmask_token X now (en_store e) m marker reveal_local) t 0
                  (token_find_iter t)
      in Inr (fold (unmask_literal marker) m out))"

definition unmask ::
  "'x ext_scheme \<Rightarrow> nat \<Rightarrow> mask_engine \<Rightarrow> string \<Rightarrow> unmask_manifest \<Rightarrow> string result" where
  "unmask X now e t m = unmask_inner X now e t m None False"

definition unmask_assistant ::
  "'x ext_scheme \<Rightarrow> nat \<Rightarrow> mask_engine \<Rightarrow> string \<Rightarrow> unmask_manifest \<Rightarrow> string result" where
  "unmask_assistant X now e t m =
     (let marker = ec_reveal_marker (po_config (en_policy e))
      in unmask_inner X now e t m (if rm_is_active marker then Some marker else None) True)"

definition strip_reveal_marker :: "mask_engine \<Rightarrow> string \<Rightarrow> string" where
  "strip_reveal_marker e t =
     (let marker = ec_reveal_marker (po_config (en_policy e))
      in if rm_is_active marker \<and> rm_contained_in marker t then rm_strip marker t else t)"

definition engine_reveal :: "'x ext_scheme \<Rightarrow> nat \<Rightarrow> mask_engine \<Rightarrow> string \<Rightarrow> string option" where
  "engine_reveal X now e token = reveal X now (en_store e) token"

datatype reveal_audit_t =
    AuditPii string
  | AuditLocal string
  | AuditBroker "string option"
  | AuditUnknown

definition reveal_audit :: "'x ext_scheme \<Rightarrow> nat \<Rightarrow> mask_engine \<Rightarrow> string \<Rightarrow> reveal_audit_t" where
  "reveal_audit X now e token =
     (let s = en_store e in
      case class_of now s token of
        None \<Rightarrow> AuditUnknown
      | Some (Broker, secret_name) \<Rightarrow> AuditBroker secret_name
      | Some (Pii, _) \<Rightarrow>
          (case reveal X now s token of None \<Rightarrow> AuditUnknown | Some v \<Rightarrow> AuditPii v)
      | Some (Local, _) \<Rightarrow>
          (case reveal_for X now s token Local of
             None \<Rightarrow> AuditUnknown
           | Some r \<Rightarrow> AuditLocal (rv_value r)))"

definition promote_token :: "string \<Rightarrow> mask_engine \<Rightarrow> mask_engine" where
  "promote_token token e = e\<lparr>en_store := promote token (en_store e)\<rparr>"

definition local_redaction_pairs ::
  "'x ext_scheme \<Rightarrow> nat \<Rightarrow> mask_engine \<Rightarrow> (string \<times> string) list" where
  "local_redaction_pairs X now e = local_pairs X now (en_store e)"

definition session_handle :: "mask_engine \<Rightarrow> string \<times> string" where
  "session_handle e = (ss_session_key (en_store e), ss_salt (en_store e))"

section \<open>The scan\<close>

lemma unmask_inner_scan:
  "unmask_inner X now e t m marker rl =
     Inr (fold (unmask_literal marker) m
       (token_scan (unmask_token X now (en_store e) m marker rl) t))"
  by (simp add: unmask_inner_def splice_tokens_scan)

text \<open>A manifest of grammar tokens has no literal pass.\<close>

definition grammar_manifest :: "unmask_manifest \<Rightarrow> bool" where
  "grammar_manifest m \<longleftrightarrow> (\<forall>e\<in>set m. is_token (me_token_handle e))"

lemma is_token_is_match: "is_token t \<Longrightarrow> token_is_match t"
  using set_tokens_in [of t] by (auto simp: token_is_match_iff)

lemma unmask_literals_grammar:
  "grammar_manifest m \<Longrightarrow> fold (unmask_literal marker) m out = out"
  by (induction m arbitrary: out)
    (simp_all add: grammar_manifest_def unmask_literal_def is_token_is_match)

end
