(* ===== verification/ApplyCorrect.thy ===== *)
theory ApplyCorrect
  imports Unmask
begin

text \<open>
  The splicing loop of the mask path.  \<open>rendered\<close> is the replacement of a detection as a function
  of the live policy, the salt and the matched text alone, \<open>plan\<close> the replacements of a
  detection list; \<open>apply_dets\<close> is shown to assemble exactly these from the front, whatever the
  store already holds.
\<close>

section \<open>Snapping to character boundaries\<close>

lemma snap_down_le: "snap_down t i \<le> i"
  by (induction i) (auto simp: le_SucI)

lemma snap_down_boundary': "is_char_boundary t (snap_down t i)"
  by (induction i) auto

lemma snap_down_tight: "snap_down t i < j \<Longrightarrow> j \<le> i \<Longrightarrow> \<not> is_char_boundary t j"
proof (induction i)
  case 0
  then show ?case by simp
next
  case (Suc i)
  then show ?case by (cases "j = Suc i") (auto split: if_splits)
qed

lemma snap_up_props:
  "i \<le> length t \<Longrightarrow> is_char_boundary t (snap_up t i) \<and> i \<le> snap_up t i \<and> snap_up t i \<le> length t \<and>
     (\<forall>j. i \<le> j \<longrightarrow> j < snap_up t i \<longrightarrow> \<not> is_char_boundary t j)"
proof (induction t i rule: snap_up.induct)
  case (1 t i)
  show ?case
  proof (cases "i < length t \<and> \<not> is_char_boundary t i")
    case True
    with 1 have IH: "is_char_boundary t (snap_up t (Suc i))" "Suc i \<le> snap_up t (Suc i)"
        "snap_up t (Suc i) \<le> length t"
        "\<And>j. Suc i \<le> j \<Longrightarrow> j < snap_up t (Suc i) \<Longrightarrow> \<not> is_char_boundary t j" by simp_all
    have eq: "snap_up t i = snap_up t (Suc i)"
      using True by (subst snap_up.simps) simp
    have "\<not> is_char_boundary t j" if "i \<le> j" "j < snap_up t i" for j
      using IH(4) [of j] that True eq by (cases "j = i") simp_all
    with IH(1-3) eq show ?thesis by simp
  next
    case False
    then have "snap_up t i = i" by (subst snap_up.simps) auto
    with False 1(2) show ?thesis by (auto simp: le_less)
  qed
qed

lemma snap_bounds:
  fixes x y :: nat
  assumes "snap_to_char_boundary t x y = (a, b)"
  shows "str_slice a b t = Some (slice a b t)" "a \<le> min x (length t)" "min y (length t) \<le> b"
    "j \<in> {a<..min x (length t)} \<Longrightarrow> \<not> is_char_boundary t j"
    "j \<in> {max (min y (length t)) (min x (length t))..<b} \<Longrightarrow> \<not> is_char_boundary t j"
proof -
  define x' where "x' = min x (length t)"
  define y' where "y' = max (min y (length t)) x'"
  have "y' \<le> length t" by (simp add: y'_def x'_def)
  note up = snap_up_props [OF this]
  have ab: "a = snap_down t x'" "b = snap_up t y'"
    using assms by (simp_all add: snap_to_char_boundary_def Let_def x'_def y'_def)
  have "a \<le> b" using up snap_down_le [of t x'] by (simp add: y'_def ab)
  then show "str_slice a b t = Some (slice a b t)"
    using up snap_down_boundary' [of t x'] by (simp add: str_slice_def slice_def ab)
  show "a \<le> min x (length t)" using snap_down_le [of t x'] by (simp add: ab x'_def)
  show "min y (length t) \<le> b" using up by (simp add: y'_def ab)
  show "\<not> is_char_boundary t j" if "j \<in> {a<..min x (length t)}"
    using that snap_down_tight [of t x' j] by (simp add: ab x'_def)
  show "\<not> is_char_boundary t j" if "j \<in> {max (min y (length t)) (min x (length t))..<b}"
    using that up unfolding ab y'_def x'_def by auto
qed

text \<open>
  Snapping a span.  Whatever offsets a detector reports, the snapped span is a valid slice
  of the text (ordered, in range, on character boundaries), contains the clamped span, and is
  the smallest such span.
\<close>

lemma snap_correct:
  "let (a, b) = snap_to_char_boundary t x y in
     str_slice a b t = Some (slice a b t) \<and> a \<le> min x (length t) \<and> min y (length t) \<le> b \<and>
     list_all (\<lambda>j. \<not> is_char_boundary t j) [Suc a..<Suc (min x (length t))] \<and>
     list_all (\<lambda>j. \<not> is_char_boundary t j) [max (min y (length t)) (min x (length t))..<b]"
proof -
  obtain a b where ab: "snap_to_char_boundary t x y = (a, b)" by fastforce
  note b = snap_bounds [OF ab]
  have "list_all (\<lambda>j. \<not> is_char_boundary t j) [Suc a..<Suc (min x (length t))]"
    unfolding list_all_iff set_upt
    by (intro ballI b(4)) (simp only: atLeastLessThan_iff greaterThanAtMost_iff Suc_le_eq less_Suc_eq_le)
  moreover have "list_all (\<lambda>j. \<not> is_char_boundary t j)
      [max (min y (length t)) (min x (length t))..<b]"
    unfolding list_all_iff set_upt by (intro ballI b(5))
  ultimately show ?thesis using b(1-3) by (simp only: ab Let_def prod.case)
qed

definition snapped :: "string \<Rightarrow> cached_detection \<Rightarrow> nat \<times> nat" where
  "snapped t d = snap_to_char_boundary t (cd_start d) (cd_end d)"

lemma snapped_props:
  assumes "snapped t d = (a, b)"
  shows "a \<le> b" "is_char_boundary t a" "is_char_boundary t b" "b \<le> length t"
    "str_slice a b t = Some (slice a b t)"
proof -
  have s: "str_slice a b t = Some (slice a b t)"
    by (rule snap_bounds(1) [OF assms [unfolded snapped_def]])
  then show "a \<le> b" "is_char_boundary t a" "is_char_boundary t b"
    by (simp_all add: str_slice_def split: if_splits)
  then show "b \<le> length t" by (simp add: is_char_boundary_le)
  show "str_slice a b t = Some (slice a b t)" by (rule s)
qed

definition aligned :: "string \<Rightarrow> cached_detection \<Rightarrow> bool" where
  "aligned t d \<longleftrightarrow>
     cd_start d \<le> cd_end d \<and> is_char_boundary t (cd_start d) \<and> is_char_boundary t (cd_end d)"

lemma snap_down_boundary: "is_char_boundary t i \<Longrightarrow> snap_down t i = i"
  by (cases i) auto

lemma snapped_aligned: "aligned t d \<Longrightarrow> snapped t d = (cd_start d, cd_end d)"
  using is_char_boundary_le [of t "cd_end d"]
  by (auto simp: aligned_def snapped_def snap_to_char_boundary_def Let_def min_def max_def
      snap_down_boundary snap_up.simps [of t "cd_end d"])

section \<open>Rendering\<close>

definition rendered ::
  "'x ext_scheme \<Rightarrow> engine_config \<Rightarrow> string \<Rightarrow> cached_detection \<Rightarrow> string \<Rightarrow> string option" where
  "rendered X cfg salt d sl =
     (case resolve_operator cfg d of
        OpKeep \<Rightarrow> None
      | OpRedact \<Rightarrow> Some ''[REDACTED]''
      | OpMask ch from_end \<Rightarrow> Some (mask_value sl ch from_end)
      | OpHash \<Rightarrow>
          Some (if cd_secret_op d \<noteq> None then make_hash_token X (cd_entity_type d) sl salt
                else hash_value X (cd_entity_type d) sl)
      | OpToken \<Rightarrow>
          Some (case cd_fixed_token d of
                  Some fixed \<Rightarrow> fixed
                | None \<Rightarrow> make_token X (cd_entity_type d) sl salt)
      | OpLocal \<Rightarrow> Some (make_token X (slugify (cd_entity_type d)) sl salt)
      | OpBroker \<Rightarrow> Some (make_token X (BROKER_PREFIX @ slugify (cd_entity_type d)) sl salt))"

definition entry_of ::
  "engine_config \<Rightarrow> surface \<Rightarrow> cached_detection \<Rightarrow> nat \<Rightarrow> string \<Rightarrow> string \<Rightarrow> manifest_entry list" where
  "entry_of cfg surface d start sl token =
     (let p = resolve_operator cfg d
      in if p \<in> {OpToken, OpLocal, OpBroker}
         then [minted_entry surface d start sl token (p = OpBroker) (p = OpLocal)] else [])"

definition opt_list :: "'a option \<Rightarrow> 'a list" where
  "opt_list x = (case x of None \<Rightarrow> [] | Some y \<Rightarrow> [y])"

text \<open>A rendering fails only when the cipher does, and never changes the salt.\<close>

definition cipher_err :: "'x ext_scheme \<Rightarrow> engine_error \<Rightarrow> bool" where
  "cipher_err X e \<longleftrightarrow> (\<exists>err k n p. e = EncryptionFailed err \<and> x_encrypt X k n p = Inl err)"

lemma insert_if_absent_result:
  "fst (insert_if_absent X t p k n x s) = Inr () \<or>
   (\<exists>err. fst (insert_if_absent X t p k n x s) = Inl err \<and> cipher_err X err)"
  by (rule insert_if_absent_cases [of t s X p k n x]) (auto simp: cipher_err_def)

lemma render_cases:
  assumes "render X cfg surface salt d start sl s = (r, s')" and "salt = ss_salt s"
  shows "ss_salt s' = salt"
    "(\<exists>err. r = Inl err \<and> cipher_err X err) \<or>
     (rendered X cfg salt d sl = None \<and> r = Inr None) \<or>
     (\<exists>txt me. rendered X cfg salt d sl = Some txt \<and> r = Inr (Some (txt, me)) \<and>
        opt_list me = entry_of cfg surface d start sl txt)"
proof -
  have mint: "snd (minted surface d start sl br lo (with_token tok (insert_if_absent X tok sl k n x s))) =
        snd (insert_if_absent X tok sl k n x s)"
    "(\<exists>err. fst (minted surface d start sl br lo (with_token tok (insert_if_absent X tok sl k n x s))) =
        Inl err \<and> cipher_err X err) \<or>
     fst (minted surface d start sl br lo (with_token tok (insert_if_absent X tok sl k n x s))) =
        Inr (Some (tok, Some (minted_entry surface d start sl tok br lo)))" for br lo tok k n x
    using insert_if_absent_result [of X tok sl k n x s]
    by (auto simp: minted_def with_token_def case_prod_unfold split: sum.splits)
  have rs: "r = fst (render X cfg surface salt d start sl s)"
      "s' = snd (render X cfg surface salt d start sl s)"
    using assms(1) by simp_all
  show "ss_salt s' = salt"
    using assms(2) by (auto simp: rs(2) render_def mint(1) intern_def intern_fixed_def
        intern_local_def intern_broker_def Let_def split: operator.splits option.splits)
  show "(\<exists>err. r = Inl err \<and> cipher_err X err) \<or>
     (rendered X cfg salt d sl = None \<and> r = Inr None) \<or>
     (\<exists>txt me. rendered X cfg salt d sl = Some txt \<and> r = Inr (Some (txt, me)) \<and>
        opt_list me = entry_of cfg surface d start sl txt)"
  proof (cases "resolve_operator cfg d")
    case OpToken
    show ?thesis
    proof (cases "cd_fixed_token d")
      case None
      with OpToken mint(2) [of False False "make_token X (cd_entity_type d) sl salt" Pii None None]
      show ?thesis
        by (auto simp: rs(1) render_def rendered_def entry_of_def opt_list_def intern_def Let_def assms(2))
    next
      case (Some f)
      with OpToken mint(2) [of False False f Pii None None] show ?thesis
        by (auto simp: rs(1) render_def rendered_def entry_of_def opt_list_def intern_fixed_def)
    qed
  next
    case OpLocal
    with mint(2) [of False True "make_token X (slugify (cd_entity_type d)) sl salt" Local None None]
    show ?thesis
      by (auto simp: rs(1) render_def rendered_def entry_of_def opt_list_def intern_local_def Let_def assms(2))
  next
    case OpBroker
    with mint(2) [of True False "make_token X (BROKER_PREFIX @ slugify (cd_entity_type d)) sl salt"
        Broker "Some (cd_entity_type d)" None]
    show ?thesis
      by (auto simp: rs(1) render_def rendered_def entry_of_def opt_list_def intern_broker_def Let_def assms(2))
  qed (auto simp: rs(1) render_def rendered_def entry_of_def opt_list_def)
qed

section \<open>The loop\<close>

definition slice_of :: "string \<Rightarrow> cached_detection \<Rightarrow> string" where
  "slice_of t d = slice (fst (snapped t d)) (snd (snapped t d)) t"

fun plan ::
  "'x ext_scheme \<Rightarrow> engine_config \<Rightarrow> string \<Rightarrow> string \<Rightarrow> cached_detection list \<Rightarrow> replacement list" where
  "plan X cfg salt t [] = []"
| "plan X cfg salt t (d # ds) =
     (case rendered X cfg salt d (slice_of t d) of
        None \<Rightarrow> plan X cfg salt t ds
      | Some r \<Rightarrow> (snapped t d, r) # plan X cfg salt t ds)"

fun plan_manifest ::
  "'x ext_scheme \<Rightarrow> engine_config \<Rightarrow> string \<Rightarrow> string \<Rightarrow> surface \<Rightarrow> cached_detection list \<Rightarrow>
   unmask_manifest" where
  "plan_manifest X cfg salt t surface [] = []"
| "plan_manifest X cfg salt t surface (d # ds) =
     plan_manifest X cfg salt t surface ds @
     (case rendered X cfg salt d (slice_of t d) of
        None \<Rightarrow> []
      | Some r \<Rightarrow> entry_of cfg surface d (fst (snapped t d)) (slice_of t d) r)"

lemma apply_loop_append:
  "apply_loop X cfg t surface salt (ds @ bs) out m s =
     (case apply_loop X cfg t surface salt ds out m s of
        (Inl e, s') \<Rightarrow> (Inl e, s')
      | (Inr (out', m'), s') \<Rightarrow> apply_loop X cfg t surface salt bs out' m' s')"
  by (induction ds arbitrary: out m s)
    (auto simp: Let_def split: prod.splits option.splits sum.splits)

lemma apply_loop_plan:
  assumes "salt = ss_salt s"
    and "apply_loop X cfg t surface salt (rev ds) t [] s = (r, s')"
  shows "ss_salt s' = salt \<and>
    ((\<exists>err. r = Inl err \<and> cipher_err X err) \<or>
     (r = Inl RustPanic \<and> apply_splices (plan X cfg salt t ds) t = None) \<or>
     (\<exists>out. r = Inr (out, plan_manifest X cfg salt t surface ds) \<and>
        apply_splices (plan X cfg salt t ds) t = Some out))"
  using assms(2)
proof (induction ds arbitrary: r s')
  case Nil
  with assms(1) show ?case by simp
next
  case (Cons d ds)
  obtain r1 s1 where step1: "apply_loop X cfg t surface salt (rev ds) t [] s = (r1, s1)" by fastforce
  from Cons.IH [OF this] have salt1: "ss_salt s1 = salt"
    and r1: "(\<exists>err. r1 = Inl err \<and> cipher_err X err) \<or>
     (r1 = Inl RustPanic \<and> apply_splices (plan X cfg salt t ds) t = None) \<or>
     (\<exists>out. r1 = Inr (out, plan_manifest X cfg salt t surface ds) \<and>
        apply_splices (plan X cfg salt t ds) t = Some out)" by auto
  obtain a b where sp: "snapped t d = (a, b)" by fastforce
  note sl = snapped_props(5) [OF sp]
  have sl_of: "slice_of t d = slice a b t" by (simp add: slice_of_def sp)
  show ?case
  proof (cases r1)
    case (Inl e)
    with Cons.prems step1 have "r = Inl e" "s' = s1" by (simp_all add: apply_loop_append)
    with r1 salt1 Inl show ?thesis
      by (auto simp: sp split: option.splits)
  next
    case (Inr p)
    with r1 obtain out where p: "r1 = Inr (out, plan_manifest X cfg salt t surface ds)"
      and out: "apply_splices (plan X cfg salt t ds) t = Some out" by auto
    obtain r2 s2 where rn: "render X cfg surface salt d a (slice a b t) s1 = (r2, s2)" by fastforce
    note rc = render_cases [OF rn salt1 [symmetric]]
    from Cons.prems step1 p sl sp rn have step:
      "(case r2 of Inl e \<Rightarrow> (Inl e, s2)
        | Inr None \<Rightarrow> (Inr (out, plan_manifest X cfg salt t surface ds), s2)
        | Inr (Some (txt, entry)) \<Rightarrow>
            (case replace_range a b txt out of
               None \<Rightarrow> (Inl RustPanic, s2)
             | Some out' \<Rightarrow> (Inr (out', plan_manifest X cfg salt t surface ds @ opt_list entry), s2)))
       = (r, s')"
      by (auto simp: apply_loop_append snapped_def [symmetric] opt_list_def manifest_push_def
          split: sum.splits option.splits)
    from rc(2) show ?thesis
    proof (elim disjE exE conjE)
      fix err
      assume "r2 = Inl err" "cipher_err X err"
      with step rc(1) show ?thesis by auto
    next
      assume "rendered X cfg salt d (slice a b t) = None" "r2 = Inr None"
      with step rc(1) out show ?thesis by (auto simp: sl_of)
    next
      fix u me
      assume "rendered X cfg salt d (slice a b t) = Some u" "r2 = Inr (Some (u, me))"
        "opt_list me = entry_of cfg surface d a (slice a b t) u"
      with step rc(1) out show ?thesis
        by (auto simp: sl_of sp split: option.splits)
    qed
  qed
qed

section \<open>What the loop computes\<close>

definition det_text_ok :: "engine_config \<Rightarrow> cached_detection \<Rightarrow> bool" where
  "det_text_ok cfg d \<longleftrightarrow>
     (\<forall>f. cd_fixed_token d = Some f \<longrightarrow> starts_char f) \<and>
     (\<forall>ch k. resolve_operator cfg d = OpMask ch k \<longrightarrow> ch \<noteq> [] \<and> starts_char ch)"

definition dets_ok :: "engine_config \<Rightarrow> string \<Rightarrow> cached_detection list \<Rightarrow> bool" where
  "dets_ok cfg t dets \<longleftrightarrow>
     starts_char t \<and> chained dets \<and> (\<forall>d\<in>set dets. aligned t d \<and> det_text_ok cfg d)"

lemma starts_char_slice: "starts_char t \<Longrightarrow> is_char_boundary t a \<Longrightarrow> starts_char (slice a b t)"
  using boundary_lead [of t a]
  by (cases "a < length t \<and> a < b") (auto simp: slice_def starts_char_def hd_drop_conv_nth)

lemma starts_char_bracket [simp]: "starts_char (CHR ''['' # s)"
  by (simp add: starts_char_def bytes_simps)

lemma starts_char_mask_value:
  assumes "starts_char sl" and "ch \<noteq> []" and "starts_char ch"
  shows "starts_char (mask_value sl ch k)"
proof (cases "length (utf8_chars sl) - min k (length (utf8_chars sl))")
  case 0
  with assms(1) show ?thesis by (simp add: mask_value_def Let_def)
next
  case (Suc n)
  then have "length (utf8_chars sl) - k = Suc n" by (auto simp: min_def split: if_splits)
  with assms(2,3) show ?thesis
    by (cases ch) (simp_all add: mask_value_def Let_def starts_char_def)
qed

lemma rendered_starts_char:
  assumes "det_text_ok cfg d" and "starts_char sl" and "rendered X cfg salt d sl = Some r"
  shows "starts_char r"
  using assms
  by (auto simp: rendered_def det_text_ok_def make_token_def make_hash_token_def hash_value_def Let_def
      starts_char_mask_value split: operator.splits option.splits if_splits)

lemma plan_ok:
  assumes "starts_char t" and "chained dets" and "\<forall>d\<in>set dets. aligned t d \<and> det_text_ok cfg d"
    and "\<forall>d\<in>set dets. pos \<le> cd_start d" and "pos \<le> length t"
  shows "spans_from (length t) pos (plan X cfg salt t dets) \<and> bounds_ok t (plan X cfg salt t dets) \<and>
    (\<forall>(s, r)\<in>set (plan X cfg salt t dets). starts_char r)"
  using assms(2-)
proof (induction dets arbitrary: pos)
  case Nil
  then show ?case by (simp add: bounds_ok_def)
next
  case (Cons d ds)
  have al: "aligned t d" "chained ds" "\<forall>x\<in>set ds. cd_end d \<le> cd_start x"
    using Cons.prems by (auto simp: chained_def)
  have end_le: "cd_end d \<le> length t" using al(1) is_char_boundary_le by (auto simp: aligned_def)
  have "\<forall>x\<in>set ds. pos \<le> cd_start x" using Cons.prems by auto
  with Cons.IH [of pos] Cons.prems al
  have 1: "spans_from (length t) pos (plan X cfg salt t ds) \<and> bounds_ok t (plan X cfg salt t ds) \<and>
      (\<forall>(s, r)\<in>set (plan X cfg salt t ds). starts_char r)" by simp
  from Cons.IH [of "cd_end d"] Cons.prems al end_le
  have 2: "spans_from (length t) (cd_end d) (plan X cfg salt t ds)" by simp
  have "starts_char (slice_of t d)"
    using al(1) assms(1) by (simp add: slice_of_def snapped_aligned starts_char_slice aligned_def)
  with 1 2 Cons.prems al show ?case
    by (auto simp: snapped_aligned bounds_ok_def aligned_def dest: rendered_starts_char
        split: option.splits)
qed

lemma apply_dets_plan:
  assumes "dets_ok cfg t dets"
  shows "case fst (apply_dets X t surface cfg dets s) of
      Inl err \<Rightarrow> cipher_err X err
    | Inr r \<Rightarrow> r = (assemble t 0 (plan X cfg (ss_salt s) t dets),
        plan_manifest X cfg (ss_salt s) t surface dets)"
proof -
  have ok: "spans_from (length t) 0 (plan X cfg (ss_salt s) t dets)"
    "bounds_ok t (plan X cfg (ss_salt s) t dets)"
    "\<forall>(u, r)\<in>set (plan X cfg (ss_salt s) t dets). starts_char r"
    using plan_ok [of t dets cfg 0 X "ss_salt s"] assms by (auto simp: dets_ok_def)
  have "apply_splices (plan X cfg (ss_salt s) t dets) t = Some (assemble t 0 (plan X cfg (ss_salt s) t dets))"
    using assms ok by (intro apply_splices_assemble) (auto simp: dets_ok_def)
  then show ?thesis
    using apply_loop_plan [OF refl, of X cfg t surface s dets]
    by (cases "apply_loop X cfg t surface (ss_salt s) (rev dets) t [] s")
      (auto simp: apply_dets_def manifest_new_def split: sum.splits)
qed

text \<open>
  C4: the splicing loop.  On disjoint aligned detections of a UTF-8 text in order, the
  back-to-front loop never panics: it either fails with an error of the cipher, or returns the
  text with exactly each detection's rendering in its place (\<open>Keep\<close> leaving it), together with
  one manifest entry per minted token, and both are functions of the policy, the salt and the
  text alone, so the same leaf masks to the same bytes whatever the store holds.
\<close>

theorem apply_dets_correct:
  assumes "dets_ok cfg t dets"
  shows "(\<exists>err. fst (apply_dets X t surface cfg dets s) = Inl err \<and> cipher_err X err) \<or>
    fst (apply_dets X t surface cfg dets s) =
      Inr (assemble t 0 (plan X cfg (ss_salt s) t dets),
           plan_manifest X cfg (ss_salt s) t surface dets)"
  using apply_dets_plan [OF assms, of X s surface] by (auto split: sum.splits)

definition sample_config :: engine_config where
  "sample_config = default_config sample_ext"

lemma sample_dets_ok: "dets_ok sample_config ''hi bob'' [sample_det 3 6 SrcRegex]"
proof -
  have "is_char_boundary ''hi bob'' 3" "is_char_boundary ''hi bob'' 6" "starts_char ''hi bob''"
    by (simp_all add: is_char_boundary_def starts_char_def bytes_simps)
  then show ?thesis
    by (simp add: dets_ok_def chained_def aligned_def det_text_ok_def sample_det_def
        resolve_operator_def operator_for_def sample_config_def default_config_def ENTITY_CVV_def)
qed

theorem apply_dets_correct_witness:
  "fst (apply_dets sample_ext ''hi bob'' UserMessage sample_config [sample_det 3 6 SrcRegex] sample_store)
     \<noteq> Inl RustPanic"
  using apply_dets_correct [OF sample_dets_ok, of sample_ext UserMessage sample_store]
  by (auto simp: cipher_err_def)

end
