(* ===== verification/RoundTrip.thy ===== *)
theory RoundTrip
  imports ApplyCorrect
begin

text \<open>
  Masking and unmasking against each other: the round trip through the manifest and the store,
  and what the unmask path never reveals.
\<close>

section \<open>Scanning an assembled text\<close>

text \<open>Which span each replacement stands for.\<close>

definition stands_for :: "(string \<Rightarrow> string) \<Rightarrow> string \<Rightarrow> replacement list \<Rightarrow> bool" where
  "stands_for f t rs \<longleftrightarrow> (\<forall>((a, b), r)\<in>set rs. is_token r \<and> f r = slice a b t)"

lemma sublist_slice: "sublist (slice a b t) t"
  by (metis append_take_drop_id slice_def sublist_appendI sublist_append_leftI sublist_order.order_trans)

lemma token_scan_inert:
  "\<forall>tok\<in>set (tokens_in t). f tok = tok \<Longrightarrow> sublist u t \<Longrightarrow> token_scan f u = u"
  using tokens_in_sublist by (intro token_scan_id) blast

lemma token_scan_token: "is_token r \<Longrightarrow> token_scan f (r @ u) = f r @ token_scan f u"
  by (simp add: token_scan_simps(2) [OF is_token_match])

lemma token_scan_assemble:
  assumes "\<forall>tok\<in>set (tokens_in t). f tok = tok"
  shows "spans_from (length t) pos rs \<Longrightarrow> stands_for f t rs \<Longrightarrow>
    token_scan f (assemble t pos rs) = drop pos t"
proof (induction rs arbitrary: pos)
  case Nil
  then show ?case using token_scan_inert [OF assms, of "drop pos t"] by simp
next
  case (Cons x rs)
  obtain a b r where x: "x = ((a, b), r)" by (metis prod.exhaust)
  from Cons.prems have tok: "is_token r" "f r = slice a b t" and ab: "pos \<le> a" "a \<le> b"
    "spans_from (length t) b rs" "stands_for f t rs"
    by (auto simp: x stands_for_def)
  from is_token_shape [OF tok(1)] obtain v where r: "r = CHR ''['' # v" by blast
  have "token_scan f (slice pos a t @ r @ assemble t b rs) =
      token_scan f (slice pos a t) @ token_scan f (r @ assemble t b rs)"
    unfolding r by (simp add: token_scan_append no_straddle_open)
  also have "\<dots> = slice pos a t @ slice a b t @ drop b t"
    using Cons.IH [OF ab(3,4)]
    by (simp add: token_scan_token [OF tok(1)] tok(2) token_scan_inert [OF assms sublist_slice])
  finally show ?case
    using ab by (simp add: x slice_drop)
qed

section \<open>Reversible detections\<close>

definition token_entity :: "engine_config \<Rightarrow> cached_detection \<Rightarrow> string" where
  "token_entity cfg d =
     (if resolve_operator cfg d = OpLocal then slugify (cd_entity_type d) else cd_entity_type d)"

text \<open>A detection that is kept, or becomes a display-revealable token of the grammar.\<close>

definition reversible :: "engine_config \<Rightarrow> cached_detection \<Rightarrow> bool" where
  "reversible cfg d \<longleftrightarrow>
     resolve_operator cfg d = OpKeep \<or>
     (resolve_operator cfg d \<in> {OpToken, OpLocal} \<and> cd_fixed_token d = None \<and>
      entity_ok (token_entity cfg d) \<and>
      \<not> prefix BROKER_PREFIX (map ascii_upper (token_entity cfg d) @ ''_''))"

lemma not_broker_make_token:
  assumes "blake3_ok X" and "upper_ascii_ok X" and "entity_ok e"
    and "\<not> prefix BROKER_PREFIX (map ascii_upper e @ ''_'')"
  shows "\<not> is_broker_token (make_token X e pt salt)"
proof
  define h where "h = take TOKEN_HASH_HEX_LEN (to_hex (x_blake3 X (salt @ e @ '':'' @ pt)))"
  define u where "u = map ascii_upper e @ ''_''"
  have hex: "list_all is_lhex h" unfolding h_def by (intro list_all_take list_all_to_hex)
  have tok: "make_token X e pt salt = ''['' @ u @ h @ '']''"
    using to_uppercase_entity(1) [OF assms(2,3)]
    by (simp add: make_token_def Let_def h_def u_def)
  assume "is_broker_token (make_token X e pt salt)"
  then have pre: "prefix BROKER_PREFIX (u @ h @ '']'')"
    by (simp add: tok is_broker_token_def BROKER_PREFIX_def)
  then have "prefix BROKER_PREFIX u \<or> (\<exists>v. BROKER_PREFIX = u @ v \<and> prefix v (h @ '']''))"
    by (subst (asm) prefix_append)
  then consider "prefix BROKER_PREFIX u" | v where "BROKER_PREFIX = u @ v" "prefix v (h @ '']'')" "v \<noteq> []"
    by (metis append_Nil2 prefix_order.refl)
  then show False
  proof cases
    case 1
    with assms(4) show False by (simp add: u_def)
  next
    case 2
    have "length h = TOKEN_HASH_HEX_LEN"
      unfolding h_def using assms(1) by (rule length_digest_hex)
    then obtain c h' where h: "h = c # h'" by (cases h) (auto simp: TOKEN_HASH_HEX_LEN_def)
    with 2(2,3) obtain v' where "v = c # v'" by (cases v) auto
    with 2(1) have "c \<in> set BROKER_PREFIX" by (metis in_set_conv_decomp)
    moreover have "is_lhex c" using hex h by simp
    ultimately show False by (auto simp: BROKER_PREFIX_def bytes_simps)
  qed
qed

lemma reversible_rendered:
  assumes "blake3_ok X" and "upper_ascii_ok X" and "reversible cfg d"
    and "rendered X cfg salt d sl = Some r"
  shows "is_token r" "\<not> is_broker_token r" "resolve_operator cfg d \<in> {OpToken, OpLocal}"
    "r = make_token X (token_entity cfg d) sl salt"
proof -
  from assms(3,4) show op: "resolve_operator cfg d \<in> {OpToken, OpLocal}"
    by (auto simp: rendered_def reversible_def)
  with assms(3) have e: "cd_fixed_token d = None" "entity_ok (token_entity cfg d)"
    "\<not> prefix BROKER_PREFIX (map ascii_upper (token_entity cfg d) @ ''_'')"
    by (auto simp: reversible_def)
  show r: "r = make_token X (token_entity cfg d) sl salt"
    using assms(4) op e by (auto simp: rendered_def token_entity_def)
  show "is_token r" unfolding r by (rule is_token_make_token [OF assms(1,2) e(2)])
  show "\<not> is_broker_token r" unfolding r by (rule not_broker_make_token [OF assms(1,2) e(2,3)])
qed

text \<open>Every replacement of the plan has its manifest entry.\<close>

lemma plan_entry:
  assumes "\<forall>d\<in>set dets. rendered X cfg salt d (slice_of t d) \<noteq> None \<longrightarrow>
      resolve_operator cfg d \<in> {OpToken, OpLocal}"
    and "((a, b), r) \<in> set (plan X cfg salt t dets)"
  shows "\<exists>e\<in>set (plan_manifest X cfg salt t surface dets).
    me_token_handle e = r \<and> me_canonical_form e = slice a b t"
  using assms
proof (induction dets)
  case Nil
  then show ?case by simp
next
  case (Cons d ds)
  show ?case
  proof (cases "((a, b), r) \<in> set (plan X cfg salt t ds)")
    case True
    with Cons show ?thesis by auto
  next
    case False
    with Cons.prems have "rendered X cfg salt d (slice_of t d) = Some r" "snapped t d = (a, b)"
      by (auto split: option.splits)
    with Cons.prems(1) show ?thesis
      by (auto simp: entry_of_def minted_entry_def slice_of_def Let_def)
  qed
qed

lemma plan_replacement:
  "((a, b), r) \<in> set (plan X cfg salt t dets) \<Longrightarrow>
   \<exists>d\<in>set dets. snapped t d = (a, b) \<and> rendered X cfg salt d (slice a b t) = Some r"
proof (induction dets)
  case Nil
  then show ?case by simp
next
  case (Cons d ds)
  show ?case
  proof (cases "((a, b), r) \<in> set (plan X cfg salt t ds)")
    case True
    with Cons.IH show ?thesis by auto
  next
    case False
    with Cons.prems have "rendered X cfg salt d (slice_of t d) = Some r" "snapped t d = (a, b)"
      by (auto split: option.splits)
    then show ?thesis by (auto simp: slice_of_def)
  qed
qed

lemma plan_manifest_handle:
  "e \<in> set (plan_manifest X cfg salt t surface dets) \<Longrightarrow>
   \<exists>d\<in>set dets. rendered X cfg salt d (slice_of t d) = Some (me_token_handle e) \<and>
      me_canonical_form e = slice_of t d \<and> me_broker e = (resolve_operator cfg d = OpBroker) \<and>
      me_local e = (resolve_operator cfg d = OpLocal)"
  by (induction dets) (auto simp: entry_of_def minted_entry_def Let_def split: option.splits if_splits)

lemma find_handle:
  "manifest_functional m \<Longrightarrow> e \<in> set m \<Longrightarrow>
   \<exists>e'. find (\<lambda>x. me_token_handle x = me_token_handle e) m = Some e' \<and>
      me_canonical_form e' = me_canonical_form e"
  using manifest_functional_lookup [of m e] by (auto simp: manifest_lookup_def)

lemma unmask_token_manifest:
  assumes "manifest_functional m" and "e \<in> set m" and "\<not> is_broker_token (me_token_handle e)"
  shows "unmask_token X now s m None True (me_token_handle e) = me_canonical_form e"
  using find_handle [OF assms(1,2)] assms(3) by (auto simp: unmask_token_def Let_def)

text \<open>
  C2: the round trip.  Masking a text with display-revealable detections and unmasking the
  masked text for display, with the manifest of the call and no marker, gives back the text
  exactly, on these assumptions: the digest is 32 bytes and upper-casing is the ASCII one on
  ASCII, the manifest gives one plaintext per handle (no collision of two 48-bit hashes), and
  the text did not already contain a token that resolves.
\<close>

theorem mask_unmask_round_trip:
  assumes "blake3_ok X" and "upper_ascii_ok X"
    and "dets_ok cfg t dets" and "\<forall>d\<in>set dets. reversible cfg d"
    and "fst (apply_dets X t surface cfg dets s) = Inr (out, m)"
    and "manifest_functional m"
    and "\<forall>tok\<in>set (tokens_in t). unmask_token X now (en_store e) m None True tok = tok"
    and "\<not> rm_is_active (ec_reveal_marker (po_config (en_policy e)))"
  shows "unmask_assistant X now e out m = Inr t"
proof -
  define rs where "rs = plan X cfg (ss_salt s) t dets"
  define f where "f = unmask_token X now (en_store e) m None True"
  have out: "out = assemble t 0 rs" and m: "m = plan_manifest X cfg (ss_salt s) t surface dets"
    using apply_dets_plan [OF assms(3), of X s surface] assms(5) by (auto simp: rs_def)
  have spans: "spans_from (length t) 0 rs"
    using plan_ok [of t dets cfg 0 X "ss_salt s"] assms(3) by (auto simp: dets_ok_def rs_def)
  have rev: "\<forall>d\<in>set dets. rendered X cfg (ss_salt s) d (slice_of t d) \<noteq> None \<longrightarrow>
      resolve_operator cfg d \<in> {OpToken, OpLocal}"
    using reversible_rendered(3) [OF assms(1,2)] assms(4) by blast
  have "stands_for f t rs"
    unfolding stands_for_def
  proof safe
    fix a b r
    assume r: "((a, b), r) \<in> set rs"
    from plan_replacement [OF r [unfolded rs_def]] show "is_token r"
      using reversible_rendered(1) [OF assms(1,2)] assms(4) by blast
    from plan_replacement [OF r [unfolded rs_def]] have "\<not> is_broker_token r"
      using reversible_rendered(2) [OF assms(1,2)] assms(4) by blast
    moreover from plan_entry [OF rev r [unfolded rs_def], of surface]
    obtain x where "x \<in> set m" "me_token_handle x = r" "me_canonical_form x = slice a b t"
      unfolding m by blast
    ultimately show "f r = slice a b t"
      unfolding f_def using unmask_token_manifest [OF assms(6)] by metis
  qed
  then have "token_scan f out = t"
    using token_scan_assemble [OF assms(7) [folded f_def] spans] by (simp add: out)
  moreover have "grammar_manifest m"
    using plan_manifest_handle reversible_rendered(1) [OF assms(1,2)] assms(4)
    unfolding grammar_manifest_def m by meson
  ultimately show ?thesis
    using assms(8)
    by (simp add: unmask_assistant_def unmask_inner_scan unmask_literals_grammar f_def)
qed

lemma sample_no_cipher_err [simp]: "\<not> cipher_err sample_ext e"
  by (simp add: cipher_err_def)

definition sample_engine :: mask_engine where
  "sample_engine =
     \<lparr>en_policy = \<lparr>po_config = sample_config\<lparr>ec_reveal_marker :=
          default_reveal_marker\<lparr>rm_enabled := False\<rparr>\<rparr>, po_customs = [], po_policy_fp = []\<rparr>,
      en_ml = ml_default sample_ext, en_store = sample_store, en_cache = cache_new 8,
      en_secrets = secret_set_empty sample_ext, en_broker_policy = []\<rparr>"

lemma sample_operator: "resolve_operator sample_config (sample_det a b SrcRegex) = OpToken"
  by (simp add: sample_det_def resolve_operator_def operator_for_def sample_config_def
      default_config_def ENTITY_CVV_def)

lemma sample_reversible: "reversible sample_config (sample_det a b SrcRegex)"
proof -
  have "entity_ok ''PERSON''" and "\<not> prefix BROKER_PREFIX (map ascii_upper ''PERSON'' @ ''_'')"
    by code_simp+
  moreover have "cd_entity_type (sample_det a b SrcRegex) = ''PERSON''"
    "cd_fixed_token (sample_det a b SrcRegex) = None" by (simp_all add: sample_det_def)
  ultimately show ?thesis
    unfolding reversible_def token_entity_def sample_operator by auto
qed

theorem mask_unmask_round_trip_witness:
  "\<exists>out m. fst (apply_dets sample_ext ''hi bob'' UserMessage sample_config [sample_det 3 6 SrcRegex]
        sample_store) = Inr (out, m) \<and>
     unmask_assistant sample_ext 0 sample_engine out m = Inr ''hi bob''"
proof -
  obtain out m where a: "fst (apply_dets sample_ext ''hi bob'' UserMessage sample_config
      [sample_det 3 6 SrcRegex] sample_store) = Inr (out, m)"
    and m: "m = plan_manifest sample_ext sample_config (ss_salt sample_store) ''hi bob'' UserMessage
      [sample_det 3 6 SrcRegex]"
    using apply_dets_plan [OF sample_dets_ok, of sample_ext sample_store UserMessage]
    by (auto split: sum.splits)
  have "manifest_functional m"
    by (auto simp: m manifest_functional_def entry_of_def minted_entry_def Let_def
        split: option.splits)
  moreover have "tokens_in ''hi bob'' = []" by code_simp
  moreover have "\<not> rm_is_active (ec_reveal_marker (po_config (en_policy sample_engine)))"
    by (simp add: sample_engine_def rm_is_active_def)
  ultimately have "unmask_assistant sample_ext 0 sample_engine out m = Inr ''hi bob''"
    using sample_reversible
    by (intro mask_unmask_round_trip [OF sample_blake3_ok sample_upper_ascii_ok sample_dets_ok _ a])
      simp_all
  with a show ?thesis by blast
qed

section \<open>What the unmask path never reveals\<close>

text \<open>
  An entry is sealed on a path when its value must not reach the output: broker entries always,
  \<open>Local\<close> ones on the tool path unless the handle was promoted.
\<close>

definition sealed :: "session_store \<Rightarrow> bool \<Rightarrow> string \<Rightarrow> token_kind \<Rightarrow> bool" where
  "sealed s reveal_local tok k \<longleftrightarrow>
     k = Broker \<or> (k = Local \<and> \<not> reveal_local \<and> \<not> is_tool_promoted s tok)"

definition entry_kind :: "manifest_entry \<Rightarrow> token_kind" where
  "entry_kind e = (if me_broker e then Broker else if me_local e then Local else Pii)"

definition overwrite_sealed ::
  "session_store \<Rightarrow> bool \<Rightarrow> string \<Rightarrow> manifest_entry \<Rightarrow> manifest_entry" where
  "overwrite_sealed s reveal_local v e =
     (if sealed s reveal_local (me_token_handle e) (entry_kind e)
      then e\<lparr>me_canonical_form := v\<rparr> else e)"

text \<open>Two stores that differ at most in the contents of their sealed entries.\<close>

definition sealed_eq :: "bool \<Rightarrow> session_store \<Rightarrow> session_store \<Rightarrow> bool" where
  "sealed_eq reveal_local s s' \<longleftrightarrow>
     ss_session_key s = ss_session_key s' \<and> ss_tool_promoted s = ss_tool_promoted s' \<and>
     (\<forall>tok. store_get s tok = store_get s' tok \<or>
        (\<exists>e e'. store_get s tok = Some e \<and> store_get s' tok = Some e' \<and>
           se_kind e = se_kind e' \<and> sealed s reveal_local tok (se_kind e)))"

lemma find_map_handle:
  "(\<And>e. me_token_handle (g e) = me_token_handle e) \<Longrightarrow>
   find (\<lambda>e. me_token_handle e = tok) (map g m) = map_option g (find (\<lambda>e. me_token_handle e = tok) m)"
  by (induction m) auto

lemma overwrite_sealed_fields [simp]:
  "me_token_handle (overwrite_sealed s rl v e) = me_token_handle e"
  "me_broker (overwrite_sealed s rl v e) = me_broker e"
  "me_local (overwrite_sealed s rl v e) = me_local e"
  by (simp_all add: overwrite_sealed_def)

lemma find_handle_eq: "find (\<lambda>e. me_token_handle e = tok) m = Some e \<Longrightarrow> e \<in> set m \<and> me_token_handle e = tok"
  by (auto simp: find_Some_iff)

lemma unmask_token_sealed:
  assumes "sealed_eq rl s s'" and "\<forall>e\<in>set m. me_broker e \<longrightarrow> is_broker_token (me_token_handle e)"
  shows "unmask_token X now s' (map (overwrite_sealed s rl v) m) marker rl tok =
    unmask_token X now s m marker rl tok"
proof (cases "is_broker_token tok")
  case True
  then show ?thesis by (simp add: unmask_token_def)
next
  case nb: False
  have prom: "is_tool_promoted s' tok = is_tool_promoted s tok"
    using assms(1) by (simp add: sealed_eq_def is_tool_promoted_def)
  show ?thesis
  proof (cases "find (\<lambda>e. me_token_handle e = tok) m")
    case (Some e)
    with find_handle_eq [OF Some] assms(2) nb have "\<not> me_broker e" "me_token_handle e = tok" by auto
    with Some nb show ?thesis
      by (auto simp: unmask_token_def find_map_handle prom overwrite_sealed_def sealed_def entry_kind_def)
  next
    case None
    from assms(1) consider "store_get s tok = store_get s' tok"
      | e e' where "store_get s tok = Some e" "store_get s' tok = Some e'" "se_kind e = se_kind e'"
          "sealed s rl tok (se_kind e)"
      unfolding sealed_eq_def by metis
    then show ?thesis
    proof cases
      case 1
      then have "map_of (ss_token_map s) tok = map_of (ss_token_map s') tok"
        by (simp add: store_get_def)
      moreover have "store_decrypt X s = store_decrypt X s'"
        using assms(1) by (intro store_decrypt_key) (simp add: sealed_eq_def)
      ultimately have "is_local s tok = is_local s' tok" "reveal X now s tok = reveal X now s' tok"
        "reveal_for X now s tok Local = reveal_for X now s' tok Local"
        unfolding is_local_def reveal_def reveal_for_def
        by (cases "map_of (ss_token_map s') tok"; simp)+
      then show ?thesis
        by (cases "reveal X now s' tok") (simp_all add: unmask_token_def find_map_handle None prom)
    next
      case 2
      then show ?thesis
        by (auto simp: unmask_token_def find_map_handle None prom is_local_def store_get_def reveal_def
            reveal_for_def sealed_def)
    qed
  qed
qed

lemma unmask_literal_sealed:
  "(me_broker e \<longrightarrow> is_broker_token (me_token_handle e)) \<Longrightarrow>
   unmask_literal marker (overwrite_sealed s rl v e) = unmask_literal marker e"
  by (auto simp: unmask_literal_def overwrite_sealed_def sealed_def entry_kind_def fun_eq_iff)

lemma unmask_inner_sealed:
  assumes "sealed_eq rl (en_store e) (en_store e')"
    and "\<forall>x\<in>set m. me_broker x \<longrightarrow> is_broker_token (me_token_handle x)"
  shows "unmask_inner X now e' t (map (overwrite_sealed (en_store e) rl v) m) marker rl =
    unmask_inner X now e t m marker rl"
proof -
  have "fold (unmask_literal marker) (map (overwrite_sealed (en_store e) rl v) m) =
      fold (unmask_literal marker) m"
    using assms(2) by (induction m) (simp_all add: unmask_literal_sealed)
  moreover have "unmask_token X now (en_store e') (map (overwrite_sealed (en_store e) rl v) m) marker rl =
      unmask_token X now (en_store e) m marker rl"
    by (rule ext) (rule unmask_token_sealed [OF assms])
  ultimately show ?thesis by (simp add: unmask_inner_scan)
qed

text \<open>
  C3: sealed values do not flow.  On the tool path the output is the same whatever the values
  of broker entries and of unpromoted \<open>Local\<close> entries are, in the manifest and in the store
  alike; on the display path the same holds for broker entries.  A broker manifest entry carries
  a broker handle, as every one the mask path mints does.
\<close>

theorem unmask_sealed_noninterference:
  assumes "\<forall>x\<in>set m. me_broker x \<longrightarrow> is_broker_token (me_token_handle x)"
  shows "(sealed_eq False (en_store e) (en_store e') \<longrightarrow>
      unmask X now e' t (map (overwrite_sealed (en_store e) False v) m) = unmask X now e t m) \<and>
    (sealed_eq True (en_store e) (en_store e') \<longrightarrow> en_policy e' = en_policy e \<longrightarrow>
      unmask_assistant X now e' t (map (overwrite_sealed (en_store e) True v) m) =
        unmask_assistant X now e t m)"
  by (simp add: unmask_def unmask_assistant_def Let_def unmask_inner_sealed assms)

definition sample_broker_entry :: manifest_entry where
  "sample_broker_entry =
     \<lparr>me_canonical_form = ''hunter2'', me_token_handle = ''[BROKER__DB_0123456789ab]'',
      me_entity_kind = ''db'', me_arrow_origin = UserMessage, me_exposed_at = None,
      me_broker = True, me_local = False\<rparr>"

theorem unmask_sealed_noninterference_witness:
  "unmask sample_ext 0 sample_engine ''x'' [sample_broker_entry\<lparr>me_canonical_form := ''y''\<rparr>] =
   unmask sample_ext 0 sample_engine ''x'' [sample_broker_entry]"
proof -
  have "\<forall>x\<in>set [sample_broker_entry]. me_broker x \<longrightarrow> is_broker_token (me_token_handle x)"
    by (simp add: sample_broker_entry_def is_broker_token_def)
  moreover have "sealed_eq False (en_store sample_engine) (en_store sample_engine)"
    by (simp add: sealed_eq_def)
  ultimately have "unmask sample_ext 0 sample_engine ''x''
      (map (overwrite_sealed (en_store sample_engine) False ''y'') [sample_broker_entry]) =
    unmask sample_ext 0 sample_engine ''x'' [sample_broker_entry]"
    using unmask_sealed_noninterference by blast
  then show ?thesis
    by (simp add: overwrite_sealed_def sealed_def entry_kind_def sample_broker_entry_def)
qed

end
