(* ===== verification/Residuals.thy ===== *)
theory Residuals
  imports RoundTrip
begin

text \<open>
  Behaviours of the code that its documentation rules out, each as a theorem about the model:
  an empty match of a custom rule at the start of a registered secret, and a deleted token in
  the turn that mentions it.
\<close>

section \<open>An empty match next to a secret\<close>

text \<open>
  A custom rule whose pattern matches the empty string reports a span that overlaps nothing at
  the edge of another span, so overlap resolution keeps both.  The sorting by precedence comes first
  and the sorting by position is stable, so that a secret comes before a custom match that starts
  where it does.
\<close>

abbreviation src_tier :: "cached_detection \<Rightarrow> nat" where
  "src_tier d \<equiv> tier (cd_source d)"

lemma insert_by_tier: "sorted (map src_tier ds) \<Longrightarrow> sorted (map src_tier (insert_by best_first d ds))"
proof (induction ds)
  case (Cons e ds)
  have "best_first d e = OGreater \<Longrightarrow> src_tier e \<le> src_tier d"
    "best_first d e \<noteq> OGreater \<Longrightarrow> src_tier d \<le> src_tier e"
    by (auto simp: best_first_def ord_then_def cmp_of_def split: if_splits)
  with Cons show ?case by auto
qed simp

lemma sort_by_tier: "sorted (map src_tier (sort_by best_first ds))"
  by (induction ds) (auto simp: sort_by_def intro: insert_by_tier)

lemma keep_tier:
  "sorted (map src_tier (kept @ ds)) \<Longrightarrow> sorted (map src_tier (fold keep_step ds kept))"
  by (induction ds arbitrary: kept) (auto simp: keep_step_def sorted_append)

lemma sorted_filter_tier: "sorted (map src_tier ds) \<Longrightarrow> sorted (map src_tier (filter P ds))"
  by (induction ds) auto

lemma secret_before_custom:
  assumes "resolve_overlaps ds = xs @ d # ys" and "c \<in> set (xs @ d # ys)"
    and "cd_source d = SrcSecret" and "cd_source c = SrcCustom" and "cd_start c = cd_start d"
  shows "c \<in> set ys"
proof -
  let ?at = "filter (\<lambda>x. cd_start x = cd_start d)"
  have "sorted (map src_tier (keep_best (sort_by best_first ds)))"
    using keep_tier [of "[]" "sort_by best_first ds"] sort_by_tier by (simp add: keep_best_fold)
  then have "sorted (map src_tier (?at (resolve_overlaps ds)))"
    by (simp add: resolve_overlaps_def sort_key_stable sorted_filter_tier)
  then have "src_tier x \<le> src_tier d" if "x \<in> set (?at xs)" for x
    using that by (auto simp: assms(1) sorted_append)
  then have "c \<notin> set xs" using assms(3-5) by force
  with assms(2-4) show ?thesis by auto
qed

text \<open>
  The splices of detections that start at the end of a span, or are empty at its start, leave it
  where it is, behind what was inserted at its start.
\<close>

lemma splices_behind:
  assumes "apply_splices (plan X cfg salt t ys) t = Some out" and "sorted (map cd_start ys)"
    and "\<forall>y\<in>set ys. aligned t y \<and> (b \<le> cd_start y \<or> (cd_start y = a \<and> cd_end y = a))"
    and "a < b" and "b \<le> length t"
  shows "\<exists>W V. out = take a t @ W @ slice a b t @ V \<and>
    ((\<forall>y\<in>set ys. b \<le> cd_start y) \<longrightarrow> W = []) \<and>
    (\<forall>c\<in>set ys. \<forall>r. cd_start c = a \<longrightarrow> rendered X cfg salt c (slice_of t c) = Some r \<longrightarrow> length r \<le> length W)"
  using assms(1-3)
proof (induction ys arbitrary: out)
  case Nil
  then have "out = take a t @ [] @ slice a b t @ drop b t"
    using assms(4) append_take_drop_id [of "b - a" "drop a t"] by (simp add: slice_def)
  then show ?case by force
next
  case (Cons y ys)
  obtain out' where out': "apply_splices (plan X cfg salt t ys) t = Some out'"
    and y: "out = (case rendered X cfg salt y (slice_of t y) of None \<Rightarrow> out'
      | Some r \<Rightarrow> take (cd_start y) out' @ r @ drop (cd_end y) out')"
    using Cons.prems(1,3)
    by (auto simp: snapped_aligned replace_range_def split: option.splits if_splits)
  obtain W V where IH: "out' = take a t @ W @ slice a b t @ V"
    "(\<forall>y\<in>set ys. b \<le> cd_start y) \<longrightarrow> W = []"
    "\<forall>c\<in>set ys. \<forall>r. cd_start c = a \<longrightarrow> rendered X cfg salt c (slice_of t c) = Some r \<longrightarrow> length r \<le> length W"
    using Cons.IH [OF out'] Cons.prems by auto
  have la: "length (take a t) = a" "length (slice a b t) = b - a" using assms(4,5) by (simp_all add: slice_def)
  show ?case
  proof (cases "rendered X cfg salt y (slice_of t y)")
    case None
    with y IH show ?thesis by (intro exI [of _ W] exI [of _ V]) auto
  next
    case (Some r)
    show ?thesis
    proof (cases "b \<le> cd_start y")
      case True
      with Cons.prems(2) have "\<forall>y\<in>set ys. b \<le> cd_start y" by auto
      with IH(2) have "W = []" by blast
      moreover have "cd_start y \<le> cd_end y" using Cons.prems(3) by (simp add: aligned_def)
      ultimately have "out = take a t @ [] @ slice a b t @
          (take (cd_start y - b) V @ r @ drop (cd_end y - b) V)"
        using y Some IH(1) True la assms(4) by simp
      with True IH(3) \<open>W = []\<close> assms(4) show ?thesis
        by (intro exI [of _ "[]"] exI [of _ "take (cd_start y - b) V @ r @ drop (cd_end y - b) V"]) auto
    next
      case False
      with Cons.prems(3) have "cd_start y = a" "cd_end y = a" by auto
      with y Some IH(1) la have "out = take a t @ (r @ W) @ slice a b t @ V" by simp
      with False Some IH(3) show ?thesis by (intro exI [of _ "r @ W"] exI [of _ V]) fastforce
    qed
  qed
qed

text \<open>
  The detections before the secret: the text in front of it stays long enough for the spans that
  are still to be spliced.
\<close>

lemma splices_before:
  assumes "apply_splices (plan X cfg salt t (xs @ ds)) t = Some out"
    and "\<And>out. apply_splices (plan X cfg salt t ds) t = Some out \<Longrightarrow>
      \<exists>P Q. out = P @ sec @ Q \<and> a \<le> length P"
    and "sorted (map cd_start xs)" and "non_overlapping xs"
    and "\<forall>x\<in>set xs. aligned t x \<and> cd_end x \<le> a"
  shows "\<exists>P Q. out = P @ sec @ Q \<and>
    (\<forall>e \<le> a. (\<forall>x\<in>set xs. cd_start x < cd_end x \<longrightarrow> e \<le> cd_start x) \<longrightarrow> e \<le> length P)"
  using assms(1,3-5)
proof (induction xs arbitrary: out)
  case Nil
  then show ?case using assms(2) by fastforce
next
  case (Cons x xs)
  obtain out' where out': "apply_splices (plan X cfg salt t (xs @ ds)) t = Some out'"
    and x: "out = (case rendered X cfg salt x (slice_of t x) of None \<Rightarrow> out'
      | Some r \<Rightarrow> take (cd_start x) out' @ r @ drop (cd_end x) out')"
    using Cons.prems(1,4)
    by (auto simp: snapped_aligned replace_range_def split: option.splits if_splits)
  obtain P Q where P: "out' = P @ sec @ Q"
    "\<And>e. e \<le> a \<Longrightarrow> (\<forall>x\<in>set xs. cd_start x < cd_end x \<longrightarrow> e \<le> cd_start x) \<Longrightarrow> e \<le> length P"
    using Cons.IH [OF out'] Cons.prems by (auto simp: non_overlapping_def)
  have le: "cd_start x \<le> cd_end x" "cd_end x \<le> a" using Cons.prems(4) by (auto simp: aligned_def)
  have "cd_end x \<le> cd_start y" if "y \<in> set xs" "cd_start y < cd_end y" for y
  proof -
    have "cd_start x \<le> cd_start y" "\<not> overlaps x y"
      using Cons.prems(2,3) that(1) by (auto simp: non_overlapping_def)
    with that(2) show ?thesis by (simp add: overlaps_def)
  qed
  with P(2) le(2) have fits: "cd_end x \<le> length P" by blast
  show ?case
  proof (cases "rendered X cfg salt x (slice_of t x)")
    case None
    with x P show ?thesis by (intro exI [of _ P] exI [of _ Q]) auto
  next
    case (Some r)
    let ?P = "take (cd_start x) P @ r @ drop (cd_end x) P"
    have "out = ?P @ sec @ Q" using x Some P(1) fits le(1) by simp
    moreover have "e \<le> length ?P"
      if "e \<le> a" "\<forall>y\<in>set (x # xs). cd_start y < cd_end y \<longrightarrow> e \<le> cd_start y" for e
    proof (cases "cd_start x < cd_end x")
      case True
      with that(2) fits show ?thesis by simp linarith
    next
      case False
      with le(1) fits P(2) [of e] that show ?thesis by simp
    qed
    ultimately show ?thesis by blast
  qed
qed

text \<open>
  C40: an empty match of a custom rule exposes a registered secret.  Whenever a detection run keeps
  a secret's span and an empty custom match at the start of it, and what the match is replaced
  with is at least as long as the secret, the masked text holds the secret in plaintext, whatever
  the other detections are: the replacement of the match is spliced in first, and the secret's own
  replacement then overwrites that instead of the secret.
\<close>

theorem empty_match_exposes_secret:
  assumes "run_detection X cfg customs secrets ml t surface = Inr dets"
    and "d \<in> set dets" and "cd_source d = SrcSecret" and "cd_start d < cd_end d"
    and "c \<in> set dets" and "cd_source c = SrcCustom"
    and "cd_start c = cd_start d" and "cd_end c = cd_start d"
    and "\<forall>x\<in>set dets. aligned t x"
    and "rendered X cfg (ss_salt s) c [] = Some r" and "cd_end d - cd_start d \<le> length r"
    and "fst (apply_dets X t surface cfg dets s) = Inr (out, m)"
  shows "sublist (slice (cd_start d) (cd_end d) t) out"
proof -
  let ?a = "cd_start d" and ?b = "cd_end d"
  obtain acc where "dets = finish acc" using run_detection_acc [OF assms(1)] by metis
  then have ds: "dets = resolve_overlaps (unsuppressed acc)" by (simp add: finish_unsuppressed)
  obtain xs ys where split: "dets = xs @ d # ys" using assms(2) by (meson split_list)
  have c: "c \<in> set ys"
  proof (rule secret_before_custom)
    show "resolve_overlaps (unsuppressed acc) = xs @ d # ys" using ds split by simp
    show "c \<in> set (xs @ d # ys)" using assms(5) unfolding split .
  qed (rule assms)+
  have sorted: "sorted (map cd_start (xs @ d # ys))" and apart: "non_overlapping (xs @ d # ys)"
    using resolve_overlaps_sorted [of "unsuppressed acc"] resolve_overlaps_disjoint [of "unsuppressed acc"]
    unfolding ds [symmetric] split by simp_all
  have al: "aligned t x" if "x \<in> set (xs @ d # ys)" for x using assms(9) that unfolding split by blast
  have b: "?b \<le> length t" using al [of d] is_char_boundary_le by (auto simp: aligned_def)
  have behind: "?b \<le> cd_start y \<or> cd_start y = ?a \<and> cd_end y = ?a" if "y \<in> set ys" for y
  proof -
    have "?a \<le> cd_start y" "\<not> overlaps d y"
      using that sorted apart by (auto simp: non_overlapping_def sorted_wrt_append sorted_append)
    with al [of y] that show ?thesis by (auto simp: overlaps_def aligned_def)
  qed
  have before: "cd_end x \<le> ?a" if "x \<in> set xs" for x
  proof -
    have "cd_start x \<le> ?a" "\<not> overlaps x d"
      using that sorted apart by (auto simp: non_overlapping_def sorted_wrt_append sorted_append)
    with assms(4) show ?thesis by (auto simp: overlaps_def)
  qed
  have "slice_of t c = []"
    using snapped_aligned [OF al [of c]] c assms(7,8) by (simp add: slice_of_def)
  with assms(10) have rc: "rendered X cfg (ss_salt s) c (slice_of t c) = Some r" by simp
  have whole: "apply_splices (plan X cfg (ss_salt s) t (xs @ d # ys)) t = Some out"
    using apply_loop_plan [OF refl, of X cfg t surface s "xs @ d # ys"] assms(12)
    by (cases "apply_loop X cfg t surface (ss_salt s) (rev (xs @ d # ys)) t [] s")
      (auto simp: apply_dets_def manifest_new_def split cipher_err_def)
  have "\<exists>P Q. u = P @ slice ?a ?b t @ Q \<and> ?a \<le> length P"
    if u: "apply_splices (plan X cfg (ss_salt s) t (d # ys)) t = Some u" for u
  proof -
    obtain v where v: "apply_splices (plan X cfg (ss_salt s) t ys) t = Some v"
      and d: "u = (case rendered X cfg (ss_salt s) d (slice_of t d) of None \<Rightarrow> v
        | Some r \<Rightarrow> take ?a v @ r @ drop ?b v)"
      using u al [of d] by (auto simp: snapped_aligned replace_range_def split: option.splits if_splits)
    obtain W V where W: "v = take ?a t @ W @ slice ?a ?b t @ V" "length r \<le> length W"
      using splices_behind [OF v _ _ assms(4) b] sorted al behind c rc assms(7)
      by (fastforce simp: sorted_append)
    have "length (take ?a t) = ?a" using assms(4) b by simp
    show ?thesis
    proof (cases "rendered X cfg (ss_salt s) d (slice_of t d)")
      case None
      with d W(1) \<open>length (take ?a t) = ?a\<close> show ?thesis
        by (intro exI [of _ "take ?a t @ W"] exI [of _ V]) simp
    next
      case (Some q)
      with d W assms(4,11) \<open>length (take ?a t) = ?a\<close> show ?thesis
        by (intro exI [of _ "take ?a t @ q @ drop (?b - ?a) W"] exI [of _ V]) simp
    qed
  qed
  from splices_before [OF whole this] sorted apart al before show ?thesis
    by (fastforce simp: sublist_def non_overlapping_def sorted_wrt_append sorted_append)
qed

text \<open>
  A rule whose pattern matches the empty string at the start of every text, and a registered secret
  that is the text: the run keeps both, and the secret follows the rest of the rule's token.
\<close>

definition empty_matcher :: ext where
  "empty_matcher = sample_ext\<lparr>x_re_find_iter := (\<lambda>p ci t. [(0, 0)])\<rparr>"

definition empty_rule :: compiled_custom where
  "empty_rule = \<lparr>cc_pattern = ''x*'', cc_case_insensitive = False, cc_entity_type = ''X'',
     cc_literal_token = True, cc_token = Some ''PROJECT_X'', cc_priority = 0, cc_surfaces = None\<rparr>"

definition redacted_secret :: compiled_secret where
  "redacted_secret = compile_secret sample_ext
     \<lparr>sr_name = ''db'', sr_value = ''hunter2'', sr_operator = OpRedact, sr_case_sensitive = True,
      sr_apply_to_surfaces = None\<rparr>"

abbreviation "secret_det \<equiv> \<lparr>cd_start = 0, cd_end = 7, cd_entity_type = ''db'', cd_score = f32_one,
   cd_source = SrcSecret, cd_literal = False, cd_fixed_token = None, cd_secret_op = Some OpRedact\<rparr>"

abbreviation "empty_det \<equiv> \<lparr>cd_start = 0, cd_end = 0, cd_entity_type = ''X'', cd_score = f32_one,
   cd_source = SrcCustom, cd_literal = True, cd_fixed_token = Some ''PROJECT_X'', cd_secret_op = None\<rparr>"

lemma empty_run:
  "run_detection empty_matcher sample_config [empty_rule] [redacted_secret] None ''hunter2'' UserMessage =
     Inr [secret_det, empty_det]"
proof -
  have "str_find ''bob'' ''hunter2'' = None" by code_simp
  then have an: "x_analyze empty_matcher ''hunter2'' l a f = []" for l a f
    by (simp add: empty_matcher_def sample_ext_def sample_analyze_def)
  have sec: "detect_secrets empty_matcher [redacted_secret] ''hunter2'' UserMessage = [secret_det]"
    by (simp add: detect_secrets_def redacted_secret_def compile_secret_def surface_applies_def
        empty_matcher_def sample_ext_def secret_detection_def f32_one_def)
  have "\<not> is_allowed empty_matcher (ec_allow_list sample_config) []"
    by (simp add: is_allowed_def sample_config_def default_config_def al_with_common_words_def
        al_add_exact_def al_add_exact_ci_def al_empty_def empty_matcher_def sample_ext_def)
  then have "custom_pass empty_matcher sample_config ''hunter2'' UserMessage empty_rule ([secret_det], []) =
      ([secret_det, empty_det], [])"
    by (simp add: custom_pass_def custom_match_def empty_rule_def surface_applies_def empty_matcher_def)
  then show ?thesis
    by (simp add: run_detection_def detect_base_def sec an ingest_results_def finish_def
        resolve_overlaps_def keep_best_def sort_by_def best_first_def overlaps_def ord_then_def cmp_of_def)
qed

lemma empty_applied:
  "\<exists>m. fst (apply_dets empty_matcher ''hunter2'' UserMessage sample_config [secret_det, empty_det]
     sample_store) = Inr (''[REDACTED]_Xhunter2'', m)"
proof -
  let ?ds = "[secret_det, empty_det]"
  have "snapped ''hunter2'' secret_det = (0, 7)" "snapped ''hunter2'' empty_det = (0, 0)"
    by (subst snapped_aligned; simp add: aligned_def is_char_boundary_def bytes_simps)+
  then have plan: "plan empty_matcher sample_config salt ''hunter2'' ?ds =
      [((0, 7), ''[REDACTED]''), ((0, 0), ''PROJECT_X'')]" for salt
    by (simp add: rendered_def resolve_operator_def)
  have out: "apply_splices [((0, 7), ''[REDACTED]''), ((0, 0), ''PROJECT_X'')] ''hunter2'' =
      Some ''[REDACTED]_Xhunter2''"
    by (simp add: replace_range_def is_char_boundary_def bytes_simps)
  obtain r s' where run: "apply_loop empty_matcher sample_config ''hunter2'' UserMessage
      (ss_salt sample_store) (rev ?ds) ''hunter2'' [] sample_store = (r, s')"
    by fastforce
  have "\<not> cipher_err empty_matcher err" for err
    by (simp add: cipher_err_def empty_matcher_def)
  with apply_loop_plan [OF refl run] have "\<exists>m. r = Inr (''[REDACTED]_Xhunter2'', m)"
    unfolding plan out by blast
  then show ?thesis by (simp only: apply_dets_def manifest_new_def run fst_conv)
qed

theorem empty_match_exposes_secret_witness:
  "\<exists>dets out m. run_detection empty_matcher sample_config [empty_rule] [redacted_secret] None
      ''hunter2'' UserMessage = Inr dets \<and>
     fst (apply_dets empty_matcher ''hunter2'' UserMessage sample_config dets sample_store) = Inr (out, m) \<and>
     sublist ''hunter2'' out"
proof -
  obtain m where m: "fst (apply_dets empty_matcher ''hunter2'' UserMessage sample_config
      [secret_det, empty_det] sample_store) = Inr (''[REDACTED]_Xhunter2'', m)"
    using empty_applied by blast
  have "\<forall>x\<in>set [secret_det, empty_det]. aligned ''hunter2'' x"
    by (simp add: aligned_def is_char_boundary_def bytes_simps)
  moreover have "rendered empty_matcher sample_config (ss_salt sample_store) empty_det [] = Some ''PROJECT_X''"
    by (simp add: rendered_def resolve_operator_def)
  ultimately have "sublist (slice 0 7 ''hunter2'') ''[REDACTED]_Xhunter2''"
    using empty_match_exposes_secret [OF empty_run, of secret_det empty_det sample_store "''PROJECT_X''"
        "''[REDACTED]_Xhunter2''" m] m by simp
  with m show ?thesis unfolding empty_run by (auto simp: slice_def)
qed

section \<open>A deleted token in its own turn\<close>

text \<open>
  Deletion does not reach the manifest.  A token that was deleted from the store before a
  text is masked is still minted into the masked text and its manifest, without being stored,
  and with that manifest both unmask paths resolve it, although a tombstoned handle is
  documented never to resolve again.
\<close>

lemma deleted_token_resolves_in_turn:
  assumes "is_token tok" and "\<not> is_broker_token tok" and "me_token_handle en = tok"
    and "\<not> me_broker en" and "\<not> me_local en"
    and "\<not> rm_is_active (ec_reveal_marker (po_config (en_policy e)))"
  shows "unmask X now (e\<lparr>en_store := tombstone tok (en_store e)\<rparr>) tok [en] =
      Inr (me_canonical_form en) \<and>
    unmask_assistant X now (e\<lparr>en_store := tombstone tok (en_store e)\<rparr>) tok [en] =
      Inr (me_canonical_form en) \<and>
    insert_if_absent X tok p k n x (tombstone tok (en_store e)) = (Inr (), tombstone tok (en_store e))"
proof -
  have "token_scan f tok = f tok" for f
    using token_scan_token [OF assms(1), of f "[]"] by (simp add: token_scan_simps)
  moreover have "unmask_literal marker en out = out" for marker out
    using assms(1,3) by (simp add: unmask_literal_def is_token_is_match)
  ultimately show ?thesis
    using assms(2-)
    by (simp add: unmask_def unmask_assistant_def Let_def unmask_inner_scan
        unmask_token_def insert_if_absent_def tombstone_def)
qed

theorem deleted_token_resolves_in_turn_witness:
  "unmask sample_ext 0
     (sample_engine\<lparr>en_store := tombstone ''[PERSON_0123456789ab]'' sample_store\<rparr>)
     ''[PERSON_0123456789ab]''
     [\<lparr>me_canonical_form = ''bob'', me_token_handle = ''[PERSON_0123456789ab]'',
       me_entity_kind = ''PERSON'', me_arrow_origin = UserMessage, me_exposed_at = None,
       me_broker = False, me_local = False\<rparr>] = Inr ''bob''"
proof -
  have "match_token ''[PERSON_0123456789ab]'' = Some 21" by code_simp
  then have tok: "is_token ''[PERSON_0123456789ab]''" by (simp add: match_token_iff)
  have "\<not> rm_is_active (ec_reveal_marker (po_config (en_policy sample_engine)))"
    by (simp add: sample_engine_def rm_is_active_def)
  from deleted_token_resolves_in_turn [OF tok _ _ _ _ this, where en = "\<lparr>me_canonical_form = ''bob'',
      me_token_handle = ''[PERSON_0123456789ab]'', me_entity_kind = ''PERSON'',
      me_arrow_origin = UserMessage, me_exposed_at = None, me_broker = False, me_local = False\<rparr>",
      of sample_ext 0]
  show ?thesis by (simp add: is_broker_token_def) (simp add: sample_engine_def)
qed

end
