(* ===== verification/Plausibility.thy ===== *)
theory Plausibility
  imports Detect
begin

text \<open>
  The plausibility gate of \<open>detect.rs\<close> in integer arithmetic: the Shannon entropy of a string
  compared with the floor of 4 bits, the vowel ratio compared with 0.3, and the code equation
  that makes the gate executable.
\<close>

section \<open>The plausibility gate in integers\<close>

lemma set_all_bytes [simp]: "set all_bytes = UNIV"
  by (simp add: all_bytes_def UNIV_char_of_nat)

lemma distinct_all_bytes: "distinct all_bytes"
  by (auto simp: all_bytes_def distinct_map inj_on_def dest: arg_cong [where f = code])

lemma sum_byte_count: "sum_list (map (byte_count s) all_bytes) = length s"
proof (induction s)
  case Nil
  then show ?case by (simp add: byte_count_def sum_list_eq_0_iff)
next
  case (Cons a s)
  have "map (byte_count (a # s)) all_bytes =
      map (\<lambda>b. (if a = b then 1 else 0) + byte_count s b) all_bytes"
    by (simp add: byte_count_def)
  moreover have "sum_list (map (\<lambda>b. if a = b then 1 else 0 :: nat) all_bytes) = 1"
    by (simp add: sum_list_distinct_conv_sum_set distinct_all_bytes)
  ultimately show ?case
    using Cons by (simp add: sum_list_addf)
qed

definition positive_counts :: "string \<Rightarrow> nat list" where
  "positive_counts s = filter (\<lambda>c. c > 0) (map (byte_count s) all_bytes)"

lemma sum_list_filter_pos: "sum_list (filter (\<lambda>c. c > 0) cs) = sum_list (cs :: nat list)"
  by (induction cs) auto

lemma sum_positive_counts: "sum_list (positive_counts s) = length s"
  by (simp add: positive_counts_def sum_list_filter_pos sum_byte_count)

text \<open>\<open>H < 4\<close> is \<open>n^n < 16^n * \<Prod>c. c^c\<close>, for the length \<open>n\<close> and the byte counts \<open>c\<close>.\<close>

definition entropy_below_4 :: "string \<Rightarrow> bool" where
  "entropy_below_4 s \<longleftrightarrow>
     length s ^ length s < 16 ^ length s * prod_list (map (\<lambda>c. c ^ c) (positive_counts s))"

lemma log_prod_counts:
  "\<forall>c\<in>set cs. 0 < c \<Longrightarrow>
   log 2 (real (prod_list (map (\<lambda>c. c ^ c) cs))) = sum_list (map (\<lambda>c. real c * log 2 (real c)) cs)"
proof (induction cs)
  case Nil
  then show ?case by simp
next
  case (Cons c cs)
  have "0 < prod_list (map (\<lambda>c. c ^ c) cs)"
    using Cons.prems by (fastforce simp: prod_list_zero_iff intro!: Nat.gr0I)
  with Cons show ?case
    by (simp add: log_mult log_nat_power)
qed

lemma entropy_sum:
  assumes "s \<noteq> []"
  shows "real (length s) * shannon_entropy s =
    real (length s) * log 2 (real (length s)) -
    sum_list (map (\<lambda>c. real c * log 2 (real c)) (positive_counts s))"
proof -
  define n where "n = real (length s)"
  have n: "0 < n" using assms by (simp add: n_def)
  have pos: "\<forall>c\<in>set (positive_counts s). 0 < c" by (simp add: positive_counts_def)
  have part: "n * (- sum_list (map (\<lambda>c. let p = real c / n in p * log 2 p) cs)) =
      real (sum_list cs) * log 2 n - sum_list (map (\<lambda>c. real c * log 2 (real c)) cs)"
    if "\<forall>c\<in>set cs. 0 < c" for cs
    using that
  proof (induction cs)
    case Nil
    then show ?case by simp
  next
    case (Cons c cs)
    have "n * (real c / n * log 2 (real c / n)) = real c * log 2 (real c) - real c * log 2 n"
      using n Cons.prems by (simp add: log_divide right_diff_distrib)
    with Cons show ?case by (simp add: Let_def algebra_simps)
  qed
  show ?thesis
    using part [OF pos] assms
    by (simp add: shannon_entropy_def positive_counts_def [symmetric] n_def sum_positive_counts)
qed

lemma shannon_entropy_below_4: "s \<noteq> [] \<Longrightarrow> shannon_entropy s < 4 \<longleftrightarrow> entropy_below_4 s"
proof -
  assume s: "s \<noteq> []"
  define n where "n = length s"
  define P where "P = prod_list (map (\<lambda>c. c ^ c) (positive_counts s))"
  have n: "0 < n" using s by (simp add: n_def)
  have P: "0 < P"
    by (auto simp: P_def positive_counts_def prod_list_zero_iff intro!: Nat.gr0I)
  have "shannon_entropy s < 4 \<longleftrightarrow> real n * shannon_entropy s < real n * 4"
    using n by simp
  also have "\<dots> \<longleftrightarrow> real n * log 2 (real n) < real n * 4 + log 2 (real P)"
    using entropy_sum [OF s] log_prod_counts [of "positive_counts s"]
    by (auto simp: n_def P_def positive_counts_def)
  also have "real n * log 2 (real n) = log 2 (real (n ^ n))"
    using n by (simp add: log_nat_power)
  also have "real n * 4 + log 2 (real P) = log 2 (real (16 ^ n * P))"
  proof -
    have "log 2 (16 :: real) = 4" using log_pow_cancel [of 2 4] by simp
    then have "log 2 ((16 :: real) ^ n) = real n * 4" by (simp add: log_nat_power)
    with P show ?thesis by (simp add: log_mult)
  qed
  also have "log 2 (real (n ^ n)) < log 2 (real (16 ^ n * P)) \<longleftrightarrow> n ^ n < 16 ^ n * P"
    using n P by (subst log_less_cancel_iff) (auto simp flip: of_nat_power of_nat_mult)
  finally show ?thesis by (simp add: entropy_below_4_def n_def P_def)
qed

text \<open>
  The entropy floor is exact in integers.  For every string, the Shannon entropy of its
  bytes is below the gate's floor of 4 bits per byte iff it is empty or \<open>n^n\<close> is below
  \<open>16^n\<close> times the product of \<open>c^c\<close> over its byte counts.
\<close>

lemma entropy_floor_exact: "shannon_entropy s < 4 \<longleftrightarrow> s = [] \<or> entropy_below_4 s"
proof (cases "s = []")
  case True
  then show ?thesis by (simp add: shannon_entropy_def)
next
  case False
  with shannon_entropy_below_4 [OF False] show ?thesis by simp
qed

lemma plausible_generic_secret_iff [code]:
  "plausible_generic_secret t \<longleftrightarrow>
     \<not> list_all is_hexdigit_b t \<and> \<not> entropy_below_4 t \<and> list_ex is_alpha_b t \<and> list_ex is_digit_b t \<and>
     \<not> (3 * length (filter is_alpha_b t) \<le>
          10 * length (filter (\<lambda>c. is_alpha_b c \<and> is_vowel_b c) t) \<and> 6 \<le> max_lowercase_run t)"
proof (cases "t = []")
  case True
  then show ?thesis by (simp add: plausible_generic_secret_def)
next
  case False
  have "filter is_alpha_b t \<noteq> []" if "list_ex is_alpha_b t"
    using that by (auto simp: filter_empty_conv list_ex_iff)
  then have "3 / 10 \<le> vowel_ratio t \<longleftrightarrow>
      3 * length (filter is_alpha_b t) \<le> 10 * length (filter (\<lambda>c. is_alpha_b c \<and> is_vowel_b c) t)"
    if "list_ex is_alpha_b t"
    using that by (simp add: vowel_ratio_def Let_def divide_simps) linarith
  with shannon_entropy_below_4 [OF False] show ?thesis
    by (auto simp: plausible_generic_secret_def)
qed

end
