(* ===== verification/BrokerPolicyCorrect.thy ===== *)
theory BrokerPolicyCorrect
  imports BrokerPolicy Instances
begin

text \<open>
  What the broker's policy decides, stated without its parsers: the destination of a command as a
  relation between the parameter's words and a host, one case for each family of tools, and the
  rule that decides as the first of the policy whose three patterns match.
\<close>

section \<open>The first that\<close>

text \<open>The first element with a property, and what holds of it and the elements after it.\<close>

definition first_that ::
  "('a \<Rightarrow> bool) \<Rightarrow> ('a \<Rightarrow> 'a list \<Rightarrow> bool) \<Rightarrow> 'a list \<Rightarrow> bool" where
  "first_that P Q ws \<longleftrightarrow>
     (\<exists>pre w post. ws = pre @ w # post \<and> (\<forall>u\<in>set pre. \<not> P u) \<and> P w \<and> Q w post)"

lemma first_that_simps [simp]:
  "\<not> first_that P Q []"
  "first_that P Q (w # ws) \<longleftrightarrow> (if P w then Q w ws else first_that P Q ws)"
proof -
  show "\<not> first_that P Q []" by (simp add: first_that_def)
  show "first_that P Q (w # ws) \<longleftrightarrow> (if P w then Q w ws else first_that P Q ws)"
  proof (cases "P w")
    case True
    then show ?thesis by (force simp: first_that_def Cons_eq_append_conv)
  next
    case False
    show ?thesis
    proof
      assume "first_that P Q (w # ws)"
      then obtain pre u post where f: "w # ws = pre @ u # post" "\<forall>u\<in>set pre. \<not> P u" "P u" "Q u post"
        by (auto simp: first_that_def)
      with False obtain pre' where "pre = w # pre'" by (cases pre) auto
      with f False show "if P w then Q w ws else first_that P Q ws" by (auto simp: first_that_def)
    next
      assume "if P w then Q w ws else first_that P Q ws"
      with False obtain pre u post where "ws = pre @ u # post" "\<forall>u\<in>set pre. \<not> P u" "P u" "Q u post"
        by (auto simp: first_that_def)
      with False show "first_that P Q (w # ws)"
        unfolding first_that_def by (intro exI [of _ "w # pre"]) auto
    qed
  qed
qed

section \<open>The host a command names\<close>

definition lower :: "string \<Rightarrow> string" where
  "lower = map ascii_lower"

text \<open>
  The parameter is a URL, or the first of its words that holds a scheme and is one names the host.
\<close>

definition names_url :: "'x ext_scheme \<Rightarrow> string \<Rightarrow> string \<Rightarrow> bool" where
  "names_url X v h \<longleftrightarrow>
     (case x_url_host X (str_trim X v) of
        Some host \<Rightarrow> h = lower host
      | None \<Rightarrow>
          first_that (\<lambda>w. sublist ''://'' w \<and> x_url_host X w \<noteq> None)
            (\<lambda>w _. \<exists>host. x_url_host X w = Some host \<and> h = lower host)
            (str_split (\<lambda>ch. x_is_whitespace X ch \<or> ch \<in> {[CHR 0x22], [CHR 0x27]}) v))"

text \<open>The first host flag has a host, after its equals sign or as the next word.\<close>

definition names_flag :: "string list \<Rightarrow> string \<Rightarrow> bool" where
  "names_flag ws h \<longleftrightarrow>
     first_that (\<lambda>w. prefix ''--host='' w \<or> w \<in> {''-h'', ''--host''})
       (\<lambda>w post. \<exists>host. h = lower host \<and>
          ((w = ''--host='' @ host \<and> host \<noteq> []) \<or>
           (w \<in> {''-h'', ''--host''} \<and> (\<exists>rest. post = host # rest)))) ws"

text \<open>The first non-empty \<open>host=\<close> word of a connection string.\<close>

definition names_dsn :: "string list \<Rightarrow> string \<Rightarrow> bool" where
  "names_dsn ws h \<longleftrightarrow>
     first_that (\<lambda>w. \<exists>host. w = ''host='' @ host \<and> host \<noteq> [])
       (\<lambda>w _. \<exists>host. w = ''host='' @ host \<and> h = lower host) ws"

text \<open>The host of \<open>user@host:path\<close>: behind the last at sign, up to the first colon.\<close>

definition host_part :: "string \<Rightarrow> string \<Rightarrow> bool" where
  "host_part w host \<longleftrightarrow>
     (\<exists>user path. w = user @ host @ path \<and> CHR ''@'' \<notin> set (host @ path) \<and> CHR '':'' \<notin> set host \<and>
        (user = [] \<or> last user = CHR ''@'') \<and> (path = [] \<or> hd path = CHR '':''))"

definition ssh_programs :: "string set" where
  "ssh_programs = {''ssh'', ''scp'', ''sftp'', ''rsync''}"

definition ssh_argument_options :: "string set" where
  "ssh_argument_options = {''-i'', ''-p'', ''-l'', ''-o'', ''-F'', ''-c''}"

definition ssh_operand :: "string \<Rightarrow> bool" where
  "ssh_operand w \<longleftrightarrow> w \<notin> ssh_programs \<and> \<not> prefix ''-'' w"

text \<open>
  The command line of the ssh family: programs, options, options with an argument and operands
  without a host come before the operand whose host counts.
\<close>

inductive names_ssh :: "string list \<Rightarrow> string \<Rightarrow> bool" where
  ssh_program: "w \<in> ssh_programs \<Longrightarrow> names_ssh ws h \<Longrightarrow> names_ssh (w # ws) h"
| ssh_argument:
    "w \<in> ssh_argument_options \<Longrightarrow> names_ssh ws h \<Longrightarrow> names_ssh (w # arg # ws) h"
| ssh_option:
    "prefix ''-'' w \<Longrightarrow> w \<notin> ssh_argument_options \<Longrightarrow> names_ssh ws h \<Longrightarrow>
     names_ssh (w # ws) h"
| ssh_no_host: "ssh_operand w \<Longrightarrow> host_part w [] \<Longrightarrow> names_ssh ws h \<Longrightarrow> names_ssh (w # ws) h"
| ssh_host: "ssh_operand w \<Longrightarrow> host_part w host \<Longrightarrow> host \<noteq> [] \<Longrightarrow> names_ssh (w # ws) (lower host)"

inductive_cases names_ssh_NilE: "names_ssh [] h"
inductive_cases names_ssh_ConsE: "names_ssh (w # ws) h"

definition words_of :: "'x ext_scheme \<Rightarrow> string \<Rightarrow> string list" where
  "words_of X v = (case x_shlex_split X v of None \<Rightarrow> [] | Some ws \<Rightarrow> ws)"

text \<open>The host that a tool would contact with a parameter.\<close>

definition contacts :: "'x ext_scheme \<Rightarrow> string \<Rightarrow> string \<Rightarrow> string \<Rightarrow> bool" where
  "contacts X tool v h \<longleftrightarrow>
     (tool \<in> {''curl'', ''wget'', ''http'', ''https'', ''httpie''} \<and> names_url X v h) \<or>
     (tool \<in> {''psql'', ''pg_dump'', ''pg_restore'', ''pg_dumpall'', ''createdb'', ''dropdb''} \<and>
        (names_url X v h \<or>
         ((\<nexists>u. names_url X v u) \<and>
            (names_flag (words_of X v) h \<or>
             (\<nexists>u. names_flag (words_of X v) u) \<and> names_dsn (words_of X v) h)))) \<or>
     (tool \<in> {''mysql'', ''mariadb''} \<and>
        (names_flag (words_of X v) h \<or> (\<nexists>u. names_flag (words_of X v) u) \<and> names_url X v h)) \<or>
     (tool \<in> ssh_programs \<and> names_ssh (words_of X v) h)"

section \<open>The parsers find it\<close>

lemma first_url_host_iff:
  "first_url_host X ws = Some h \<longleftrightarrow>
     first_that (\<lambda>w. sublist ''://'' w \<and> x_url_host X w \<noteq> None)
       (\<lambda>w _. \<exists>host. x_url_host X w = Some host \<and> h = lower host) ws"
  by (induction ws)
    (auto simp: str_contains_def str_find_None_iff lower_def split: option.splits)

lemma url_host_iff: "url_host X v = Some h \<longleftrightarrow> names_url X v h"
  by (auto simp: url_host_def names_url_def first_url_host_iff lower_def split: option.splits)

lemma strip_prefix_cases:
  obtains (strips) r where "w = p @ r" "strip_prefix p w = Some r" "prefix p w"
  | (keeps) "strip_prefix p w = None" "\<not> prefix p w"
  by (cases "prefix p w") (auto simp: strip_prefix_def prefix_def)

lemma flag_host_iff: "flag_host_of ws = Some h \<longleftrightarrow> names_flag ws h"
proof (induction ws)
  case Nil
  show ?case by (simp add: names_flag_def)
next
  case (Cons w ws)
  show ?case
  proof (cases "''--host=''" w rule: strip_prefix_cases)
    case (strips r)
    then have "names_flag (w # ws) h \<longleftrightarrow> r \<noteq> [] \<and> h = lower r"
      by (auto simp: names_flag_def)
    with strips(2) show ?thesis by (auto simp: lower_def)
  next
    case keeps
    show ?thesis
    proof (cases "w \<in> {''-h'', ''--host''}")
      case True
      with keeps(2) have "names_flag (w # ws) h \<longleftrightarrow> (\<exists>host rest. h = lower host \<and> ws = host # rest)"
        unfolding names_flag_def first_that_simps by (auto simp: prefix_def)
      with keeps(1) True show ?thesis by (cases ws) (auto simp: lower_def)
    next
      case False
      with keeps have "names_flag (w # ws) h \<longleftrightarrow> names_flag ws h"
        unfolding names_flag_def first_that_simps by (simp only: if_False simp_thms)
      with keeps(1) False Cons.IH show ?thesis by simp
    qed
  qed
qed

lemma dsn_host_iff: "dsn_host_of ws = Some h \<longleftrightarrow> names_dsn ws h"
proof (induction ws)
  case Nil
  show ?case by (simp add: names_dsn_def)
next
  case (Cons w ws)
  show ?case
  proof (cases "''host=''" w rule: strip_prefix_cases)
    case (strips r)
    then have "names_dsn (w # ws) h \<longleftrightarrow> (if r \<noteq> [] then h = lower r else names_dsn ws h)"
      by (auto simp: names_dsn_def)
    with strips(2) Cons.IH show ?thesis by (auto simp: lower_def)
  next
    case keeps
    then have "w \<noteq> ''host='' @ host" for host by (auto simp: prefix_def)
    then have "names_dsn (w # ws) h \<longleftrightarrow> names_dsn ws h" by (simp add: names_dsn_def)
    with keeps(1) Cons.IH show ?thesis by simp
  qed
qed

lemma takeWhile_part:
  "(\<exists>p. w = h @ p \<and> c \<notin> set h \<and> (p = [] \<or> hd p = c)) \<longleftrightarrow> h = takeWhile (\<lambda>x. x \<noteq> c) w"
proof
  assume "\<exists>p. w = h @ p \<and> c \<notin> set h \<and> (p = [] \<or> hd p = c)"
  then obtain p where p: "w = h @ p" "c \<notin> set h" "p = [] \<or> hd p = c" by blast
  then have "takeWhile (\<lambda>x. x \<noteq> c) w = h @ takeWhile (\<lambda>x. x \<noteq> c) p"
    unfolding p(1) by (intro takeWhile_append2) auto
  with p(3) show "h = takeWhile (\<lambda>x. x \<noteq> c) w" by (cases p) auto
next
  assume h: "h = takeWhile (\<lambda>x. x \<noteq> c) w"
  then have "w = h @ dropWhile (\<lambda>x. x \<noteq> c) w" "c \<notin> set h"
    by (auto dest: set_takeWhileD)
  moreover have "dropWhile (\<lambda>x. x \<noteq> c) w = [] \<or> hd (dropWhile (\<lambda>x. x \<noteq> c) w) = c"
    using hd_dropWhile [of "\<lambda>x. x \<noteq> c" w] by blast
  ultimately show "\<exists>p. w = h @ p \<and> c \<notin> set h \<and> (p = [] \<or> hd p = c)" by blast
qed

lemma host_part_iff:
  "host_part w host \<longleftrightarrow> host = before_first (CHR '':'') (after_last (CHR ''@'') w)"
proof -
  have behind: "(\<exists>user. w = user @ tl \<and> CHR ''@'' \<notin> set tl \<and> (user = [] \<or> last user = CHR ''@'')) \<longleftrightarrow>
      tl = after_last (CHR ''@'') w" for tl
  proof -
    have "tl = after_last (CHR ''@'') w \<longleftrightarrow>
        (\<exists>p. rev w = rev tl @ p \<and> CHR ''@'' \<notin> set (rev tl) \<and> (p = [] \<or> hd p = CHR ''@''))"
      unfolding takeWhile_part after_last_def by (metis rev_rev_ident)
    also have "\<dots> \<longleftrightarrow> (\<exists>user. w = user @ tl \<and> CHR ''@'' \<notin> set tl \<and> (user = [] \<or> last user = CHR ''@''))"
      (is "?l \<longleftrightarrow> ?r")
    proof
      assume ?l
      then obtain p where p: "rev w = rev tl @ p" "CHR ''@'' \<notin> set tl" "p = [] \<or> hd p = CHR ''@''"
        by auto
      from p(1) have "rev (rev w) = rev p @ tl" by simp
      with p(2,3) show ?r by (intro exI [of _ "rev p"]) (auto simp: last_rev)
    next
      assume ?r
      then obtain user where "w = user @ tl" "CHR ''@'' \<notin> set tl" "user = [] \<or> last user = CHR ''@''"
        by blast
      then show ?l by (intro exI [of _ "rev user"]) (auto simp: hd_rev)
    qed
    finally show ?thesis by simp
  qed
  have "host_part w host \<longleftrightarrow> (\<exists>path. (\<exists>user. w = user @ (host @ path) \<and>
      CHR ''@'' \<notin> set (host @ path) \<and> (user = [] \<or> last user = CHR ''@'')) \<and>
      CHR '':'' \<notin> set host \<and> (path = [] \<or> hd path = CHR '':''))"
    unfolding host_part_def by blast
  also have "\<dots> \<longleftrightarrow> (\<exists>path. after_last (CHR ''@'') w = host @ path \<and>
      CHR '':'' \<notin> set host \<and> (path = [] \<or> hd path = CHR '':''))"
    unfolding behind by (simp only: eq_commute)
  also have "\<dots> \<longleftrightarrow> host = before_first (CHR '':'') (after_last (CHR ''@'') w)"
    unfolding before_first_def by (rule takeWhile_part)
  finally show ?thesis .
qed

lemma ssh_options_dash: "w \<in> ssh_argument_options \<Longrightarrow> prefix ''-'' w"
  by (auto simp: ssh_argument_options_def)

lemma ssh_programs_plain: "w \<in> ssh_programs \<Longrightarrow> \<not> prefix ''-'' w"
  by (auto simp: ssh_programs_def)

lemma names_ssh_Nil: "\<not> names_ssh [] h"
  by (blast elim: names_ssh_NilE)

lemma names_ssh_Cons:
  "names_ssh (w # ws) h \<longleftrightarrow>
     (if w \<in> ssh_programs then names_ssh ws h
      else if prefix ''-'' w then
        (if w \<in> ssh_argument_options then (\<exists>arg ws'. ws = arg # ws' \<and> names_ssh ws' h) else names_ssh ws h)
      else (let host = before_first (CHR '':'') (after_last (CHR ''@'') w)
            in if host \<noteq> [] then h = lower host else names_ssh ws h))"
  (is "_ \<longleftrightarrow> ?r")
proof
  assume "names_ssh (w # ws) h"
  then show ?r
    by (rule names_ssh_ConsE)
      (auto simp: host_part_iff ssh_operand_def Let_def dest: ssh_options_dash ssh_programs_plain)
next
  assume ?r
  then show "names_ssh (w # ws) h"
    by (auto simp: host_part_iff ssh_operand_def Let_def split: if_splits
        intro: ssh_program ssh_argument ssh_option ssh_no_host ssh_host)
qed

lemma ssh_host_of_Cons:
  "ssh_host_of skip (w # ws) =
     (if skip then ssh_host_of False ws
      else if w \<in> ssh_programs then ssh_host_of False ws
      else if prefix ''-'' w then ssh_host_of (w \<in> ssh_argument_options) ws
      else (let host = before_first (CHR '':'') (after_last (CHR ''@'') w)
            in if host \<noteq> [] then Some (lower host) else ssh_host_of False ws))"
  by (simp add: ssh_programs_def ssh_argument_options_def lower_def Let_def)

lemma ssh_host_iff:
  "ssh_host_of skip ws = Some h \<longleftrightarrow>
     (if skip then (\<exists>w ws'. ws = w # ws' \<and> names_ssh ws' h) else names_ssh ws h)"
proof (induction ws arbitrary: skip)
  case Nil
  show ?case by (simp add: names_ssh_Nil)
next
  case (Cons w ws)
  show ?case
    by (auto simp: ssh_host_of_Cons names_ssh_Cons Cons.IH Let_def simp del: ssh_host_of.simps)
qed

lemma parse_dest_host_iff: "parse_dest_host X tool v = Some h \<longleftrightarrow> contacts X tool v h"
proof -
  have absent: "url_host X v = None \<longleftrightarrow> (\<nexists>u. names_url X v u)"
    "flag_host X v = None \<longleftrightarrow> (\<nexists>u. names_flag (words_of X v) u)"
    using url_host_iff [of X v] flag_host_iff [of "words_of X v"]
    unfolding flag_host_def shell_words_def words_of_def [symmetric] by (metis not_Some_eq)+
  have found: "flag_host X v = Some h \<longleftrightarrow> names_flag (words_of X v) h"
    "dsn_host_of (shell_words X v) = Some h \<longleftrightarrow> names_dsn (words_of X v) h"
    "ssh_host X v = Some h \<longleftrightarrow> names_ssh (words_of X v) h" for h
    using flag_host_iff dsn_host_iff ssh_host_iff [of False]
    by (simp_all add: flag_host_def ssh_host_def shell_words_def words_of_def)
  have psql: "psql_host X v = Some h \<longleftrightarrow> names_url X v h \<or> ((\<nexists>u. names_url X v u) \<and>
      (names_flag (words_of X v) h \<or> (\<nexists>u. names_flag (words_of X v) u) \<and> names_dsn (words_of X v) h))"
    unfolding absent [symmetric] found [symmetric] url_host_iff [symmetric]
    by (auto simp: psql_host_def split: option.splits)
  have mysql: "(case flag_host X v of Some h \<Rightarrow> Some h | None \<Rightarrow> url_host X v) = Some h \<longleftrightarrow>
      names_flag (words_of X v) h \<or> (\<nexists>u. names_flag (words_of X v) u) \<and> names_url X v h"
    unfolding absent [symmetric] found [symmetric] url_host_iff [symmetric]
    by (auto split: option.splits)
  show ?thesis
    unfolding parse_dest_host_def contacts_def
    by (auto simp: psql mysql url_host_iff found ssh_programs_def)
qed

section \<open>The decision\<close>

text \<open>The three patterns of a rule: the secret's name, the tool and the place of the parameter.\<close>

definition axes_match :: "'x ext_scheme \<Rightarrow> string \<Rightarrow> string \<Rightarrow> string \<Rightarrow> broker_allow \<Rightarrow> bool" where
  "axes_match X secret_name tool pointer a \<longleftrightarrow>
     (\<forall>g. ba_secret a = Some g \<longrightarrow> x_glob_match X g secret_name) \<and>
     x_glob_match X (ba_tool a) tool \<and> x_glob_match X (ba_param_pointer a) pointer"

definition allows :: "'x ext_scheme \<Rightarrow> string \<Rightarrow> string \<Rightarrow> broker_allow \<Rightarrow> bool" where
  "allows X tool v a \<longleftrightarrow>
     (\<forall>hosts. ba_dest a = Some (HostAllowList hosts) \<longrightarrow>
        (\<exists>host\<in>set hosts. \<exists>h. contacts X tool v h \<and> lower host = lower h))"

lemma dest_decision_iff: "dest_decision X tool v (ba_dest a) = Resolve \<longleftrightarrow> allows X tool v a"
  unfolding allows_def parse_dest_host_iff [symmetric]
  by (auto simp: dest_decision_def host_eq_def lower_def list_ex_iff
      split: option.splits dest_rule.splits)

lemma decide_rules_iff:
  "decide_rules X policy secret_name tool pointer v = Resolve \<longleftrightarrow>
     (\<exists>before a after. policy = before @ a # after \<and>
        (\<forall>b\<in>set before. \<not> axes_match X secret_name tool pointer b) \<and>
        axes_match X secret_name tool pointer a \<and> allows X tool v a)"
proof -
  have "rule_applies X a secret_name tool pointer \<longleftrightarrow> axes_match X secret_name tool pointer a" for a
    by (auto simp: rule_applies_def axes_match_def split: option.splits)
  then have "decide_rules X policy secret_name tool pointer v = Resolve \<longleftrightarrow>
      first_that (axes_match X secret_name tool pointer) (\<lambda>a _. allows X tool v a) policy"
    by (induction policy) (simp_all add: dest_decision_iff)
  then show ?thesis by (simp add: first_that_def conj_assoc)
qed

text \<open>
  C25: the broker is default-deny.  A secret resolves exactly when the tool is neither an egress
  boundary (MCP, sub-agents) nor a free-form command, and the first rule of the policy whose
  patterns match the secret's name, the tool and the place of the parameter either names no host
  list or lists, up to ASCII case, the host that the tool would contact: for the HTTP clients that of
  the parameter or of its first word that is a URL, for the database clients that of a URL, of the
  first host flag or of the connection string, for the ssh family that of the first operand with a
  host, and for any other tool none.
\<close>

theorem decide_resolves_iff:
  "decide X policy secret_name tool pointer v = Resolve \<longleftrightarrow>
     \<not> prefix ''mcp__'' tool \<and> \<not> prefix ''subagent_'' tool \<and> tool \<notin> {''Task'', ''Agent''} \<and>
     tool \<notin> {''Bash'', ''bash'', ''sh'', ''shell'', ''Shell'', ''zsh'', ''fish'', ''dash'', ''ksh'', ''pwsh'',
       ''powershell'', ''PowerShell'', ''cmd'', ''Execute'', ''exec'', ''run_command''} \<and>
     (\<exists>before a after. policy = before @ a # after \<and>
        (\<forall>b\<in>set before. \<not> axes_match X secret_name tool pointer b) \<and>
        axes_match X secret_name tool pointer a \<and> allows X tool v a)"
proof -
  have "is_egress_boundary_tool tool \<longleftrightarrow>
      prefix ''mcp__'' tool \<or> prefix ''subagent_'' tool \<or> tool \<in> {''Task'', ''Agent''}"
    by (auto simp: is_egress_boundary_tool_def)
  moreover have "is_opaque_command_tool tool \<longleftrightarrow>
      tool \<in> {''Bash'', ''bash'', ''sh'', ''shell'', ''Shell'', ''zsh'', ''fish'', ''dash'', ''ksh'', ''pwsh'',
        ''powershell'', ''PowerShell'', ''cmd'', ''Execute'', ''exec'', ''run_command''}"
    by (simp only: is_opaque_command_tool_def list.set)
  moreover have "decide X policy secret_name tool pointer v = Resolve \<longleftrightarrow>
      \<not> is_egress_boundary_tool tool \<and> \<not> is_opaque_command_tool tool \<and>
      decide_rules X policy secret_name tool pointer v = Resolve"
    by (simp add: decide_def)
  ultimately show ?thesis by (simp only: decide_rules_iff de_Morgan_disj conj_assoc)
qed

text \<open>
  A policy whose first rule is for another secret and whose second allows one host: the command that
  names it resolves, the one that has it for the key file and goes elsewhere does not.
\<close>

definition ssh_policy :: broker_policy where
  "ssh_policy =
     [\<lparr>ba_secret = Some ''mail'', ba_tool = ''ssh'', ba_param_pointer = ''/cmd'', ba_dest = None, ba_ttl = None\<rparr>,
      \<lparr>ba_secret = None, ba_tool = ''ssh'', ba_param_pointer = ''/cmd'',
       ba_dest = Some (HostAllowList [''Prod'']), ba_ttl = None\<rparr>]"

lemma ssh_words:
  "words_of sample_ext ''ssh -i k bob@prod:/x'' = [''ssh'', ''-i'', ''k'', ''bob@prod:/x'']"
  "words_of sample_ext ''ssh -i prod bob@evil'' = [''ssh'', ''-i'', ''prod'', ''bob@evil'']"
  by code_simp+

lemma lower_names [simp]:
  "lower ''prod'' = ''prod''" "lower ''Prod'' = ''prod''" "lower ''evil'' = ''evil''"
  by code_simp+

lemma ssh_contacts:
  "contacts sample_ext ''ssh'' ''ssh -i k bob@prod:/x'' h \<longleftrightarrow> h = ''prod''"
  "contacts sample_ext ''ssh'' ''ssh -i prod bob@evil'' h \<longleftrightarrow> h = ''evil''"
proof -
  have words: "w \<in> ssh_programs \<longleftrightarrow> w \<in> {''ssh'', ''scp'', ''sftp'', ''rsync''}"
    "w \<in> ssh_argument_options \<longleftrightarrow> w \<in> {''-i'', ''-p'', ''-l'', ''-o'', ''-F'', ''-c''}" for w
    by (simp_all only: ssh_programs_def ssh_argument_options_def)
  show "contacts sample_ext ''ssh'' ''ssh -i k bob@prod:/x'' h \<longleftrightarrow> h = ''prod''"
    "contacts sample_ext ''ssh'' ''ssh -i prod bob@evil'' h \<longleftrightarrow> h = ''evil''"
    by (simp_all add: contacts_def ssh_words names_ssh_Cons words before_first_def after_last_def)
qed

theorem decide_resolves_iff_witness:
  "decide sample_ext ssh_policy ''db'' ''ssh'' ''/cmd'' ''ssh -i k bob@prod:/x'' = Resolve \<and>
   decide sample_ext ssh_policy ''db'' ''ssh'' ''/cmd'' ''ssh -i prod bob@evil'' \<noteq> Resolve"
proof
  have "x_glob_match sample_ext p t \<longleftrightarrow> p = t" for p t by (simp add: sample_ext_def)
  note axes = axes_match_def ssh_policy_def this
  show "decide sample_ext ssh_policy ''db'' ''ssh'' ''/cmd'' ''ssh -i k bob@prod:/x'' = Resolve"
    unfolding decide_resolves_iff
  proof (intro conjI exI)
    show "ssh_policy = [hd ssh_policy] @ last ssh_policy # []" by (simp add: ssh_policy_def)
    show "\<forall>b\<in>set [hd ssh_policy]. \<not> axes_match sample_ext ''db'' ''ssh'' ''/cmd'' b"
      "axes_match sample_ext ''db'' ''ssh'' ''/cmd'' (last ssh_policy)"
      by (simp_all add: axes)
    show "allows sample_ext ''ssh'' ''ssh -i k bob@prod:/x'' (last ssh_policy)"
      by (simp add: allows_def ssh_policy_def ssh_contacts)
  qed simp_all
  show "decide sample_ext ssh_policy ''db'' ''ssh'' ''/cmd'' ''ssh -i prod bob@evil'' \<noteq> Resolve"
  proof
    assume "decide sample_ext ssh_policy ''db'' ''ssh'' ''/cmd'' ''ssh -i prod bob@evil'' = Resolve"
    then obtain before a after where r: "ssh_policy = before @ a # after"
      "axes_match sample_ext ''db'' ''ssh'' ''/cmd'' a"
      "allows sample_ext ''ssh'' ''ssh -i prod bob@evil'' a"
      unfolding decide_resolves_iff by (elim conjE exE) (rule that)
    have "a \<in> set ssh_policy" unfolding r(1) by simp
    then have "a = hd ssh_policy \<or> a = last ssh_policy" by (simp add: ssh_policy_def)
    with r(2) have "a = last ssh_policy" by (auto simp: axes)
    with r(3) show False
      by (simp add: allows_def ssh_policy_def ssh_contacts)
  qed
qed

end
