(* ===== verification/Json.thy ===== *)
theory Json
  imports Prelude
begin

text \<open>
  \<open>serde_json::Value\<close>: numbers keep their text, objects are the entries in the map's iteration
  order.  \<open>json_shape\<close> forgets the string leaves, so that a walk that only rewrites strings is
  one that keeps the shape.
\<close>

datatype json =
    JNull
  | JBool bool
  | JNum string
  | JStr string
  | JArr "json list"
  | JObj "(string \<times> json) list"

text \<open>\<open>Value::get(key)\<close>: None on a value that is not an object.\<close>

definition json_get :: "string \<Rightarrow> json \<Rightarrow> json option" where
  "json_get k v = (case v of JObj kvs \<Rightarrow> map_of kvs k | _ \<Rightarrow> None)"

definition json_str :: "json \<Rightarrow> string option" where
  "json_str v = (case v of JStr s \<Rightarrow> Some s | _ \<Rightarrow> None)"

text \<open>The string leaves, in the order of a walk.\<close>

primrec json_leaves :: "json \<Rightarrow> string list" where
  "json_leaves JNull = []"
| "json_leaves (JBool b) = []"
| "json_leaves (JNum n) = []"
| "json_leaves (JStr s) = [s]"
| "json_leaves (JArr vs) = concat (map json_leaves vs)"
| "json_leaves (JObj kvs) = concat (map snd (map (map_prod id json_leaves) kvs))"

primrec json_shape :: "json \<Rightarrow> json" where
  "json_shape JNull = JNull"
| "json_shape (JBool b) = JBool b"
| "json_shape (JNum n) = JNum n"
| "json_shape (JStr s) = JStr []"
| "json_shape (JArr vs) = JArr (map json_shape vs)"
| "json_shape (JObj kvs) = JObj (map (map_prod id json_shape) kvs)"

text \<open>Rewriting every string leaf.\<close>

primrec json_map :: "(string \<Rightarrow> string) \<Rightarrow> json \<Rightarrow> json" where
  "json_map f JNull = JNull"
| "json_map f (JBool b) = JBool b"
| "json_map f (JNum n) = JNum n"
| "json_map f (JStr s) = JStr (f s)"
| "json_map f (JArr vs) = JArr (map (json_map f) vs)"
| "json_map f (JObj kvs) = JObj (map (map_prod id (json_map f)) kvs)"

lemma json_leaves_Obj [simp]:
  "json_leaves (JObj kvs) = concat (map (\<lambda>(k, v). json_leaves v) kvs)"
  by (simp add: case_prod_unfold comp_def)

lemma json_map_shape [simp]: "json_shape (json_map f v) = json_shape v"
  by (induction v) (auto simp: map_prod_def)

lemma json_map_leaves: "json_leaves (json_map f v) = map f (json_leaves v)"
  by (induction v) (auto simp: map_concat comp_def case_prod_unfold intro!: arg_cong [where f = concat])

lemma json_map_cong: "(\<And>s. s \<in> set (json_leaves v) \<Longrightarrow> f s = g s) \<Longrightarrow> json_map f v = json_map g v"
  by (induction v) fastforce+

lemma json_map_id: "(\<And>s. s \<in> set (json_leaves v) \<Longrightarrow> f s = s) \<Longrightarrow> json_map f v = v"
proof (induction v)
  case (JObj kvs)
  then have "map_prod id (json_map f) kv = kv" if "kv \<in> set kvs" for kv
    using that by (cases kv) fastforce
  then show ?case by (simp add: map_idI)
qed (auto intro!: map_idI)

end
