(* ===== verification/BrokerWalk.thy ===== *)
theory BrokerWalk
  imports RoundTrip Json
begin

text \<open>
  The broker resolution at the tool boundary (\<open>MaskEngine::broker_resolve_pointers\<close>,
  \<open>broker_walk\<close>, \<open>rfc6901_escape\<close> and \<open>broker_resolve_leaf\<close> of \<open>lib.rs\<close>): a walk over a tool
  input that splices the value of every allowed broker token into its string leaf and reports
  the denials.  None is the panic of a splice outside the character boundaries.
\<close>

section \<open>The walk\<close>

record broker_resolve_report =
  br_resolved :: nat
  br_denied :: "(string \<times> deny_reason) list"

definition report_empty :: broker_resolve_report where
  "report_empty = \<lparr>br_resolved = 0, br_denied = []\<rparr>"

text \<open>\<open>str::replace\<close> with a character pattern, on an ASCII character.\<close>

definition replace_char :: "char \<Rightarrow> string \<Rightarrow> string \<Rightarrow> string" where
  "replace_char c r s = concat (map (\<lambda>x. if x = c then r else [x]) s)"

definition rfc6901_escape :: "string \<Rightarrow> string" where
  "rfc6901_escape k = replace_char (CHR ''/'') ''~1'' (replace_char (CHR ''~'') ''~0'' k)"

text \<open>The loop over the matches: the substitutions, whether a broker token was seen, the report.\<close>

fun collect_subs ::
  "'x ext_scheme \<Rightarrow> nat \<Rightarrow> session_store \<Rightarrow> broker_policy \<Rightarrow> string \<Rightarrow> string \<Rightarrow> string \<Rightarrow>
   (nat \<times> nat) list \<Rightarrow> replacement list \<Rightarrow> bool \<Rightarrow> broker_resolve_report \<Rightarrow>
   replacement list \<times> bool \<times> broker_resolve_report" where
  "collect_subs X now s policy tool pointer leaf [] subs saw rep = (subs, saw, rep)"
| "collect_subs X now s policy tool pointer leaf ((a, b) # ms) subs saw rep =
     (let tok = slice a b leaf in
      if \<not> is_broker_token tok then collect_subs X now s policy tool pointer leaf ms subs saw rep
      else
        (case reveal_for X now s tok Broker of
           Some rv \<Rightarrow>
             (let name = (case rv_secret_name rv of Some n \<Rightarrow> n | None \<Rightarrow> [])
              in case decide X policy name tool pointer leaf of
                   Resolve \<Rightarrow>
                     collect_subs X now s policy tool pointer leaf ms
                       (subs @ [((a, b), rv_value rv)]) True
                       (rep\<lparr>br_resolved := br_resolved rep + 1\<rparr>)
                 | Deny reason \<Rightarrow>
                     collect_subs X now s policy tool pointer leaf ms subs True
                       (rep\<lparr>br_denied := br_denied rep @ [(pointer, reason)]\<rparr>))
         | None \<Rightarrow>
             collect_subs X now s policy tool pointer leaf ms subs True
               (rep\<lparr>br_denied := br_denied rep @ [(pointer, NoRule)]\<rparr>)))"

text \<open>The splices in the order of the sorted list; None is the panic of \<open>replace_range\<close>.\<close>

fun splice_all :: "replacement list \<Rightarrow> string \<Rightarrow> string option" where
  "splice_all [] out = Some out"
| "splice_all (((a, b), r) # rs) out =
     (case replace_range a b r out of None \<Rightarrow> None | Some out' \<Rightarrow> splice_all rs out')"

text \<open>\<open>Some None\<close> is a leaf that does not change.\<close>

definition broker_resolve_leaf ::
  "'x ext_scheme \<Rightarrow> nat \<Rightarrow> session_store \<Rightarrow> broker_policy \<Rightarrow> string \<Rightarrow> string \<Rightarrow> string \<Rightarrow>
   broker_resolve_report \<Rightarrow> (string option \<times> broker_resolve_report) option" where
  "broker_resolve_leaf X now s policy tool pointer leaf rep =
     (case collect_subs X now s policy tool pointer leaf (token_find_iter leaf) [] False rep of
        (subs, saw, rep') \<Rightarrow>
          if \<not> saw \<or> subs = [] then Some (None, rep')
          else
            (case splice_all (sort_key (\<lambda>sub. - int (fst (fst sub))) subs) leaf of
               None \<Rightarrow> None
             | Some out \<Rightarrow> Some (Some out, rep')))"

fun broker_walk ::
    "'x ext_scheme \<Rightarrow> nat \<Rightarrow> session_store \<Rightarrow> broker_policy \<Rightarrow> string \<Rightarrow> string \<Rightarrow> json \<Rightarrow>
     broker_resolve_report \<Rightarrow> (json \<times> broker_resolve_report) option"
  and broker_walk_items ::
    "'x ext_scheme \<Rightarrow> nat \<Rightarrow> session_store \<Rightarrow> broker_policy \<Rightarrow> string \<Rightarrow> string \<Rightarrow> nat \<Rightarrow> json list \<Rightarrow>
     broker_resolve_report \<Rightarrow> (json list \<times> broker_resolve_report) option"
  and broker_walk_members ::
    "'x ext_scheme \<Rightarrow> nat \<Rightarrow> session_store \<Rightarrow> broker_policy \<Rightarrow> string \<Rightarrow> string \<Rightarrow>
     (string \<times> json) list \<Rightarrow> broker_resolve_report \<Rightarrow>
     ((string \<times> json) list \<times> broker_resolve_report) option"
where
  "broker_walk X now s policy tool pointer (JStr t) rep =
     (case broker_resolve_leaf X now s policy tool pointer t rep of
        None \<Rightarrow> None
      | Some (Some new, rep') \<Rightarrow> Some (JStr new, rep')
      | Some (None, rep') \<Rightarrow> Some (JStr t, rep'))"
| "broker_walk X now s policy tool pointer (JArr vs) rep =
     map_option (map_prod JArr id) (broker_walk_items X now s policy tool pointer 0 vs rep)"
| "broker_walk X now s policy tool pointer (JObj kvs) rep =
     map_option (map_prod JObj id) (broker_walk_members X now s policy tool pointer kvs rep)"
| "broker_walk X now s policy tool pointer v rep = Some (v, rep)"
| "broker_walk_items X now s policy tool pointer i [] rep = Some ([], rep)"
| "broker_walk_items X now s policy tool pointer i (v # vs) rep =
     (case broker_walk X now s policy tool (pointer @ ''/'' @ dec_string i) v rep of
        None \<Rightarrow> None
      | Some (v', rep') \<Rightarrow>
          map_option (map_prod (\<lambda>vs'. v' # vs') id)
            (broker_walk_items X now s policy tool pointer (Suc i) vs rep'))"
| "broker_walk_members X now s policy tool pointer [] rep = Some ([], rep)"
| "broker_walk_members X now s policy tool pointer ((k, v) # kvs) rep =
     (case broker_walk X now s policy tool (pointer @ ''/'' @ rfc6901_escape k) v rep of
        None \<Rightarrow> None
      | Some (v', rep') \<Rightarrow>
          map_option (map_prod (\<lambda>kvs'. (k, v') # kvs') id)
            (broker_walk_members X now s policy tool pointer kvs rep'))"

definition broker_resolve_pointers ::
  "'x ext_scheme \<Rightarrow> nat \<Rightarrow> mask_engine \<Rightarrow> string \<Rightarrow> json \<Rightarrow> (json \<times> broker_resolve_report) option"
where
  "broker_resolve_pointers X now e tool input =
     broker_walk X now (en_store e) (en_broker_policy e) tool [] input report_empty"

section \<open>Pointers\<close>

text \<open>A step of a path is an array index or a member name.\<close>

datatype path_step = Index nat | Member string

fun step_text :: "path_step \<Rightarrow> string" where
  "step_text (Index i) = ''/'' @ dec_string i"
| "step_text (Member k) = ''/'' @ rfc6901_escape k"

definition path_pointer :: "path_step list \<Rightarrow> string" where
  "path_pointer p = concat (map step_text p)"

text \<open>The string leaves with their paths, in the order of the walk.\<close>

fun leaf_paths :: "json \<Rightarrow> (path_step list \<times> string) list"
  and item_paths :: "nat \<Rightarrow> json list \<Rightarrow> (path_step list \<times> string) list"
  and member_paths :: "(string \<times> json) list \<Rightarrow> (path_step list \<times> string) list"
where
  "leaf_paths (JStr t) = [([], t)]"
| "leaf_paths (JArr vs) = item_paths 0 vs"
| "leaf_paths (JObj kvs) = member_paths kvs"
| "leaf_paths v = []"
| "item_paths i [] = []"
| "item_paths i (v # vs) =
     map (map_prod (\<lambda>p. Index i # p) id) (leaf_paths v) @ item_paths (Suc i) vs"
| "member_paths [] = []"
| "member_paths ((k, v) # kvs) =
     map (map_prod (\<lambda>p. Member k # p) id) (leaf_paths v) @ member_paths kvs"

text \<open>Rewriting every string leaf, given its path.\<close>

fun path_map :: "(path_step list \<Rightarrow> string \<Rightarrow> string) \<Rightarrow> json \<Rightarrow> json"
  and path_map_items :: "(path_step list \<Rightarrow> string \<Rightarrow> string) \<Rightarrow> nat \<Rightarrow> json list \<Rightarrow> json list"
  and path_map_members ::
    "(path_step list \<Rightarrow> string \<Rightarrow> string) \<Rightarrow> (string \<times> json) list \<Rightarrow> (string \<times> json) list"
where
  "path_map f (JStr t) = JStr (f [] t)"
| "path_map f (JArr vs) = JArr (path_map_items f 0 vs)"
| "path_map f (JObj kvs) = JObj (path_map_members f kvs)"
| "path_map f v = v"
| "path_map_items f i [] = []"
| "path_map_items f i (v # vs) =
     path_map (\<lambda>p. f (Index i # p)) v # path_map_items f (Suc i) vs"
| "path_map_members f [] = []"
| "path_map_members f ((k, v) # kvs) =
     (k, path_map (\<lambda>p. f (Member k # p)) v) # path_map_members f kvs"

section \<open>The specification\<close>

text \<open>What the policy says of one broker token in one leaf: its value, or the reason.\<close>

definition broker_verdict ::
  "'x ext_scheme \<Rightarrow> nat \<Rightarrow> session_store \<Rightarrow> broker_policy \<Rightarrow> string \<Rightarrow> string \<Rightarrow> string \<Rightarrow> string \<Rightarrow>
   deny_reason + string" where
  "broker_verdict X now s policy tool pointer leaf tok =
     (case reveal_for X now s tok Broker of
        None \<Rightarrow> Inl NoRule
      | Some rv \<Rightarrow>
          (case decide X policy (case rv_secret_name rv of Some n \<Rightarrow> n | None \<Rightarrow> []) tool pointer
                  leaf of
             Resolve \<Rightarrow> Inr (rv_value rv)
           | Deny reason \<Rightarrow> Inl reason))"

definition broker_subst ::
  "'x ext_scheme \<Rightarrow> nat \<Rightarrow> session_store \<Rightarrow> broker_policy \<Rightarrow> string \<Rightarrow> string \<Rightarrow> string \<Rightarrow> string \<Rightarrow>
   string" where
  "broker_subst X now s policy tool pointer leaf tok =
     (if is_broker_token tok
      then (case broker_verdict X now s policy tool pointer leaf tok of Inr v \<Rightarrow> v | Inl _ \<Rightarrow> tok)
      else tok)"

definition broker_leaf ::
  "'x ext_scheme \<Rightarrow> nat \<Rightarrow> session_store \<Rightarrow> broker_policy \<Rightarrow> string \<Rightarrow> string \<Rightarrow> string \<Rightarrow> string" where
  "broker_leaf X now s policy tool pointer leaf =
     token_scan (broker_subst X now s policy tool pointer leaf) leaf"

definition leaf_verdicts ::
  "'x ext_scheme \<Rightarrow> nat \<Rightarrow> session_store \<Rightarrow> broker_policy \<Rightarrow> string \<Rightarrow> string \<Rightarrow> string \<Rightarrow>
   (deny_reason + string) list" where
  "leaf_verdicts X now s policy tool pointer leaf =
     map (broker_verdict X now s policy tool pointer leaf) (filter is_broker_token (tokens_in leaf))"

text \<open>A report is a sum over verdicts.\<close>

definition add_verdicts ::
  "string \<Rightarrow> (deny_reason + string) list \<Rightarrow> broker_resolve_report \<Rightarrow> broker_resolve_report" where
  "add_verdicts pointer vs rep =
     \<lparr>br_resolved = br_resolved rep + length (filter (\<lambda>v. \<not> isl v) vs),
      br_denied = br_denied rep @ map (\<lambda>v. (pointer, projl v)) (filter isl vs)\<rparr>"

section \<open>One leaf\<close>

lemma collect_subs_spec:
  "collect_subs X now s policy tool pointer leaf spans subs saw rep =
     (subs @ concat (map (\<lambda>(a, b).
          if is_broker_token (slice a b leaf)
          then (case broker_verdict X now s policy tool pointer leaf (slice a b leaf) of
                  Inr v \<Rightarrow> [((a, b), v)] | Inl _ \<Rightarrow> [])
          else []) spans),
      saw \<or> (\<exists>(a, b)\<in>set spans. is_broker_token (slice a b leaf)),
      add_verdicts pointer
        (map (\<lambda>(a, b). broker_verdict X now s policy tool pointer leaf (slice a b leaf))
          (filter (\<lambda>(a, b). is_broker_token (slice a b leaf)) spans)) rep)"
proof (induction spans arbitrary: subs saw rep)
  case Nil
  then show ?case by (simp add: add_verdicts_def)
next
  case (Cons m spans)
  obtain a b where m: "m = (a, b)" by fastforce
  show ?case
    by (cases "reveal_for X now s (slice a b leaf) Broker")
      (auto simp: m Let_def Cons.IH broker_verdict_def add_verdicts_def split: broker_decision.splits)
qed

text \<open>The substitutions as replacements of all tokens.\<close>

lemma token_spans_bounds:
  "(a, b) \<in> set (token_spans off t) \<Longrightarrow> off \<le> a \<and> a < b \<and> b \<le> off + length t"
proof (induction t arbitrary: off rule: scan_induct)
  case Nil
  then show ?case by (simp add: token_spans_simps)
next
  case (Token t n)
  note n = match_token_le [OF Token.hyps]
  from Token.prems consider "(a, b) = (off, off + n)" | "(a, b) \<in> set (token_spans (off + n) (drop n t))"
    by (auto simp: token_spans_simps Token.hyps)
  then show ?case
  proof cases
    case 1
    with n show ?thesis by simp
  next
    case 2
    from Token.IH [OF this] n show ?thesis by simp
  qed
next
  case (Char c cs)
  then show ?case by (fastforce simp: token_spans_simps)
qed

lemma token_spans_sorted: "sorted_wrt (\<lambda>m m'. snd m \<le> fst m') (token_spans off t)"
proof (induction t arbitrary: off rule: scan_induct)
  case Nil
  then show ?case by (simp add: token_spans_simps)
next
  case (Token t n)
  then show ?case by (auto simp: token_spans_simps dest: token_spans_bounds)
next
  case (Char c cs)
  then show ?case by (simp add: token_spans_simps)
qed

lemma token_spans_tokens:
  "map (\<lambda>(a, b). slice a b (u @ t)) (token_spans (length u) t) = tokens_in t"
proof (induction t arbitrary: u rule: scan_induct)
  case Nil
  then show ?case by (simp add: token_spans_simps tokens_in_simps)
next
  case (Token t n)
  then have n: "n \<le> length t" by (blast dest: match_token_le)
  have "map (\<lambda>(a, b). slice a b ((u @ take n t) @ drop n t)) (token_spans (length u + n) (drop n t)) =
      tokens_in (drop n t)"
    using Token.IH [of "u @ take n t"] n by (simp add: min_absorb2)
  then show ?case
    using n by (simp add: token_spans_simps(2) [OF Token.hyps] tokens_in_simps(2) [OF Token.hyps] slice_def)
next
  case (Char c cs)
  with Char.IH [of "u @ [c]"] show ?case
    by (simp add: token_spans_simps tokens_in_simps)
qed

lemma token_find_iter_tokens: "map (\<lambda>(a, b). slice a b t) (token_find_iter t) = tokens_in t"
  using token_spans_tokens [of "[]" t] by (simp add: token_find_iter_def)

section \<open>Boundaries\<close>

text \<open>The first character of a well-formed text: an ASCII byte, or a lead byte and its tail.\<close>

lemma utf8_ok_Cons:
  assumes "utf8_ok (a # r)"
  shows "(code a < 128 \<and> utf8_ok r) \<or>
    (192 \<le> code a \<and> (\<exists>n\<le>length r. list_all is_cont (take n r) \<and> utf8_ok (drop n r)))"
proof (cases "code a < 128")
  case True
  then show ?thesis using assms by (cases "a # r" rule: utf8_ok.cases) simp_all
next
  case False
  consider b where "r = [b]" | b c where "r = [b, c]" | b c d r' where "r = b # c # d # r'" | "r = []"
    by (cases r rule: utf8_ok.cases) auto
  then show ?thesis
  proof cases
    case 1
    with assms False show ?thesis by (intro disjI2 conjI exI [of _ 1]) simp_all
  next
    case 2
    with assms False show ?thesis
      by (cases "code a \<le> 223")
        (simp_all add: exI [of _ 1] exI [of _ 2] numeral_2_eq_2)
  next
    case 3
    with assms False consider "194 \<le> code a" "is_cont b" "utf8_ok (c # d # r')"
      | "223 < code a" "is_cont b" "is_cont c" "utf8_ok (d # r')"
      | "223 < code a" "is_cont b" "is_cont c" "is_cont d" "utf8_ok r'"
      by (simp split: if_splits)
    then show ?thesis
    proof cases
      case 1
      with 3 show ?thesis by (intro disjI2 conjI exI [of _ 1]) simp_all
    next
      case 2
      with 3 show ?thesis by (intro disjI2 conjI exI [of _ 2]) simp_all
    next
      case 3
      with \<open>r = b # c # d # r'\<close> show ?thesis
        by (intro disjI2 conjI exI [of _ 3]) (simp_all add: eval_nat_numeral)
    qed
  next
    case 4
    with assms False show ?thesis by simp
  qed
qed

lemma utf8_ok_starts: "utf8_ok t \<Longrightarrow> starts_char t"
  by (cases t) (auto dest: utf8_ok_Cons simp: starts_char_def is_cont_def)

lemma utf8_ok_drop_ascii:
  "utf8_ok t \<Longrightarrow> i < length t \<Longrightarrow> code (t ! i) < 128 \<Longrightarrow> utf8_ok (drop (Suc i) t)"
proof (induction "length t" arbitrary: t i rule: less_induct)
  case less
  then obtain a r where t: "t = a # r" by (cases t) auto
  from utf8_ok_Cons [OF less.prems(1) [unfolded t]] show ?case
  proof
    assume "code a < 128 \<and> utf8_ok r"
    then show ?thesis
      using less.hyps [of r "i - 1"] less.prems by (cases i) (simp_all add: t)
  next
    assume "192 \<le> code a \<and> (\<exists>n\<le>length r. list_all is_cont (take n r) \<and> utf8_ok (drop n r))"
    then obtain n where a: "192 \<le> code a" and n: "n \<le> length r" "list_all is_cont (take n r)"
      "utf8_ok (drop n r)" by blast
    from less.prems(3) a obtain j where i: "i = Suc j" by (cases i) (auto simp: t)
    have "n \<le> j"
    proof (rule ccontr)
      assume "\<not> n \<le> j"
      then have "is_cont (r ! j)"
        using n less.prems(2) by (auto simp: list_all_length i t)
      then show False using less.prems(3) by (simp add: i t is_cont_def)
    qed
    then show ?thesis
      using less.hyps [OF _ n(3), of "j - n"] less.prems n(1) by (simp add: i t)
  qed
qed

section \<open>Splicing some of the tokens\<close>

definition picked :: "(string \<Rightarrow> string option) \<Rightarrow> string \<Rightarrow> nat \<times> nat \<Rightarrow> replacement list" where
  "picked g t m =
     (case g (slice (fst m) (snd m) t) of Some v \<Rightarrow> [(m, v)] | None \<Rightarrow> [])"

definition pick_or :: "(string \<Rightarrow> string option) \<Rightarrow> string \<Rightarrow> string" where
  "pick_or g tok = (case g tok of Some v \<Rightarrow> v | None \<Rightarrow> tok)"

text \<open>In order, on the text, on character boundaries.\<close>

definition tokens_placed :: "nat \<Rightarrow> string \<Rightarrow> (nat \<times> nat) list \<Rightarrow> bool" where
  "tokens_placed pos t ms \<longleftrightarrow>
     pos \<le> length t \<and> sorted_wrt (\<lambda>m m'. snd m \<le> fst m') ms \<and>
     (\<forall>(a, b)\<in>set ms. pos \<le> a \<and> a < b \<and> b \<le> length t)"

lemma tokens_placed_Cons:
  "tokens_placed pos t ((a, b) # ms) \<Longrightarrow> pos \<le> a \<and> a < b \<and> b \<le> length t \<and> tokens_placed b t ms"
  unfolding tokens_placed_def by auto

lemma tokens_placed_iter: "tokens_placed 0 t (token_find_iter t)"
  using token_spans_sorted token_spans_bounds
  by (fastforce simp: tokens_placed_def token_find_iter_def)

lemma picked_spans: "tokens_placed pos t ms \<Longrightarrow> spans_from (length t) pos (concat (map (picked g t) ms))"
proof (induction ms arbitrary: pos)
  case Nil
  then show ?case by (simp add: tokens_placed_def)
next
  case (Cons m ms)
  obtain a b where m: "m = (a, b)" by fastforce
  note c = tokens_placed_Cons [OF Cons.prems [unfolded m]]
  have mono: "spans_from n p rs \<Longrightarrow> q \<le> p \<Longrightarrow> spans_from n q rs" for n p q rs
    by (induction n p rs rule: spans_from.induct) auto
  show ?case
    using Cons.IH [of b] c
    by (auto simp: m picked_def split: option.splits intro: mono)
qed

lemma picked_assemble:
  "tokens_placed pos t ms \<Longrightarrow>
   assemble t pos (concat (map (picked g t) ms)) = splice_tokens (pick_or g) t pos ms"
proof (induction ms arbitrary: pos)
  case Nil
  then show ?case by simp
next
  case (Cons m ms)
  obtain a b where m: "m = (a, b)" by fastforce
  note c = tokens_placed_Cons [OF Cons.prems [unfolded m]]
  have IH: "assemble t b (concat (map (picked g t) ms)) = splice_tokens (pick_or g) t b ms"
    using Cons.IH c by blast
  show ?case
  proof (cases "g (slice a b t)")
    case None
    have "assemble t pos (concat (map (picked g t) ms)) =
        slice pos b t @ assemble t b (concat (map (picked g t) ms))"
      using assemble_prefix [OF picked_spans, of b t ms pos g] c by simp
    moreover have "slice pos b t = slice pos a t @ slice a b t"
      using slice_append_slice [of pos a b t] c by simp
    moreover have "picked g t (a, b) = []" "pick_or g (slice a b t) = slice a b t"
      by (simp_all add: picked_def pick_or_def None)
    ultimately show ?thesis by (simp add: m IH)
  next
    case (Some v)
    then have "picked g t (a, b) = [((a, b), v)]" "pick_or g (slice a b t) = v"
      by (simp_all add: picked_def pick_or_def)
    then show ?thesis by (simp add: m IH)
  qed
qed

text \<open>Token matches begin and end at ASCII bytes.\<close>

lemma token_spans_ascii:
  "(a, b) \<in> set (token_spans (length u) t) \<Longrightarrow>
   (u @ t) ! a = CHR ''['' \<and> (u @ t) ! (b - 1) = CHR '']''"
proof (induction t arbitrary: u rule: scan_induct)
  case Nil
  then show ?case by (simp add: token_spans_simps)
next
  case (Token t n)
  note n = match_token_le [OF Token.hyps]
  have ends: "t ! 0 = CHR ''['' \<and> t ! (n - 1) = CHR '']''"
    using Token.hyps
    by (auto simp: match_token_def Let_def dest: nth_length_takeWhile split: list.splits if_splits)
  from Token.prems consider "(a, b) = (length u, length u + n)"
    | "(a, b) \<in> set (token_spans (length (u @ take n t)) (drop n t))"
    using n by (auto simp: token_spans_simps(2) [OF Token.hyps] min_absorb2)
  then show ?case
  proof cases
    case 1
    have "length u + n - 1 = length u + (n - 1)" using n by simp
    with 1 ends show ?thesis by (simp add: nth_append)
  next
    case 2
    from Token.IH [OF this] show ?thesis by simp
  qed
next
  case (Char c cs)
  from Char.IH [of "u @ [c]"] Char.prems show ?case
    by (simp add: token_spans_simps(3) [OF Char.hyps])
qed

lemma token_bounds_ok:
  assumes "utf8_ok t"
  shows "bounds_ok t (concat (map (picked g t) (token_find_iter t)))"
proof -
  have "is_char_boundary t a \<and> is_char_boundary t b" if m: "(a, b) \<in> set (token_spans 0 t)" for a b
  proof -
    have ab: "a < b" "b \<le> length t" using token_spans_bounds [OF m] by simp_all
    have asc: "t ! a = CHR ''[''" "t ! (b - 1) = CHR '']''"
      using token_spans_ascii [of a b "[]" t] m by simp_all
    have "utf8_ok (drop b t)"
      using utf8_ok_drop_ascii [OF assms, of "b - 1"] ab asc by (simp add: code_def)
    then have "starts_char (drop b t)" by (rule utf8_ok_starts)
    then have "is_char_boundary t b"
      using ab by (cases "b = length t") (auto simp: starts_char_def is_char_boundary_def hd_drop_conv_nth)
    moreover have "is_char_boundary t a"
      using ab asc by (simp add: is_char_boundary_def is_cont_def code_def)
    ultimately show ?thesis by simp
  qed
  then show ?thesis
    by (fastforce simp: bounds_ok_def picked_def token_find_iter_def split: option.splits)
qed

lemma splice_all_append:
  "splice_all (xs @ ys) t = (case splice_all xs t of None \<Rightarrow> None | Some u \<Rightarrow> splice_all ys u)"
  by (induction xs t rule: splice_all.induct) (simp_all split: option.splits)

lemma splice_all_rev: "splice_all (rev rs) t = apply_splices rs t"
  by (induction rs t rule: apply_splices.induct) (simp_all add: splice_all_append split: option.splits)

lemma insort_key_last: "\<forall>y\<in>set ys. f y < f x \<Longrightarrow> insort_key f x ys = ys @ [x]"
  by (induction ys) auto

lemma spans_from_start: "spans_from n pos rs \<Longrightarrow> ((a, b), r) \<in> set rs \<Longrightarrow> pos \<le> a"
  by (induction n pos rs rule: spans_from.induct) fastforce+

lemma sort_descending:
  "spans_from n pos rs \<Longrightarrow> \<forall>((a, b), r)\<in>set rs. a < b \<Longrightarrow>
   sort_key (\<lambda>sub. - int (fst (fst sub))) rs = rev rs"
proof (induction n pos rs rule: spans_from.induct)
  case (2 n pos a b r rs)
  then have "b \<le> a'" if "((a', b'), r') \<in> set rs" for a' b' r'
    using that spans_from_start by auto
  moreover have "a < b" using 2(3) by simp
  ultimately have "\<forall>y\<in>set (rev rs). - int (fst (fst y)) < - int (fst (fst ((a, b), r)))"
    by fastforce
  then have "insort_key (\<lambda>sub. - int (fst (fst sub))) ((a, b), r) (rev rs) = rev rs @ [((a, b), r)]"
    by (rule insort_key_last)
  with 2 show ?case by simp
qed simp

section \<open>A leaf meets its specification\<close>

lemma verdict_value_ok:
  "broker_verdict X now s policy tool pointer leaf tok = Inr v \<Longrightarrow> starts_char v"
  by (auto simp: broker_verdict_def reveal_for_def store_decrypt_def utf8_ok_starts
      split: option.splits broker_decision.splits if_splits sum.splits)

lemma broker_resolve_leaf_spec:
  assumes "utf8_ok leaf"
  shows "\<exists>r. broker_resolve_leaf X now s policy tool pointer leaf rep =
      Some (r, add_verdicts pointer (leaf_verdicts X now s policy tool pointer leaf) rep) \<and>
    (case r of None \<Rightarrow> leaf | Some new \<Rightarrow> new) = broker_leaf X now s policy tool pointer leaf"
proof -
  define g where "g tok =
    (if is_broker_token tok
     then (case broker_verdict X now s policy tool pointer leaf tok of Inr v \<Rightarrow> Some v | Inl _ \<Rightarrow> None)
     else None)" for tok
  define spans where "spans = token_find_iter leaf"
  define subs where "subs = concat (map (picked g leaf) spans)"
  define rep' where "rep' = add_verdicts pointer (leaf_verdicts X now s policy tool pointer leaf) rep"
  have placed: "tokens_placed 0 leaf spans" unfolding spans_def by (rule tokens_placed_iter)
  have "pick_or g = broker_subst X now s policy tool pointer leaf"
    by (auto simp: fun_eq_iff pick_or_def g_def broker_subst_def split: sum.splits)
  then have out: "assemble leaf 0 subs = broker_leaf X now s policy tool pointer leaf"
    using picked_assemble [OF placed, of g]
    by (simp add: subs_def broker_leaf_def spans_def splice_tokens_scan)
  have "map (\<lambda>(a, b). broker_verdict X now s policy tool pointer leaf (slice a b leaf))
      (filter (\<lambda>(a, b). is_broker_token (slice a b leaf)) spans) =
    leaf_verdicts X now s policy tool pointer leaf"
    unfolding leaf_verdicts_def token_find_iter_tokens [symmetric] spans_def
    by (simp add: filter_map comp_def case_prod_unfold)
  moreover have "(\<lambda>(a, b). if is_broker_token (slice a b leaf)
      then (case broker_verdict X now s policy tool pointer leaf (slice a b leaf) of
              Inr v \<Rightarrow> [((a, b), v)] | Inl _ \<Rightarrow> [])
      else []) = picked g leaf"
    by (auto simp: fun_eq_iff picked_def g_def split: sum.splits)
  moreover define saw where "saw \<longleftrightarrow> (\<exists>(a, b)\<in>set spans. is_broker_token (slice a b leaf))"
  ultimately have coll: "collect_subs X now s policy tool pointer leaf spans [] False rep = (subs, saw, rep')"
    unfolding collect_subs_spec by (simp add: subs_def rep'_def)
  have from0: "spans_from (length leaf) 0 subs"
    unfolding subs_def by (rule picked_spans [OF placed])
  have "\<forall>((a, b), r)\<in>set subs. a < b"
    using placed by (auto simp: subs_def picked_def tokens_placed_def split: option.splits)
  then have "sort_key (\<lambda>sub. - int (fst (fst sub))) subs = rev subs"
    using from0 by (intro sort_descending)
  moreover have "apply_splices subs leaf = Some (assemble leaf 0 subs)"
  proof (rule apply_splices_assemble [OF from0 _ utf8_ok_starts [OF assms]])
    show "bounds_ok leaf subs" unfolding subs_def spans_def by (rule token_bounds_ok [OF assms])
    show "\<forall>(s, r)\<in>set subs. starts_char r"
      by (auto simp: subs_def picked_def g_def split: option.splits if_splits sum.splits
          dest: verdict_value_ok)
  qed
  ultimately have spl: "splice_all (sort_key (\<lambda>sub. - int (fst (fst sub))) subs) leaf =
      Some (broker_leaf X now s policy tool pointer leaf)"
    by (simp add: splice_all_rev out)
  have saw: "subs \<noteq> [] \<Longrightarrow> saw"
    by (auto simp: subs_def saw_def picked_def g_def split: option.splits if_splits)
  show ?thesis
  proof (cases "subs = []")
    case True
    then show ?thesis
      using out coll by (simp add: broker_resolve_leaf_def spans_def rep'_def)
  next
    case False
    then show ?thesis
      using spl coll saw by (simp add: broker_resolve_leaf_def spans_def rep'_def)
  qed
qed

section \<open>The walk meets its specification\<close>

definition walk_report ::
  "'x ext_scheme \<Rightarrow> nat \<Rightarrow> session_store \<Rightarrow> broker_policy \<Rightarrow> string \<Rightarrow> string \<Rightarrow>
   (path_step list \<times> string) list \<Rightarrow> broker_resolve_report \<Rightarrow> broker_resolve_report" where
  "walk_report X now s policy tool pointer ls rep =
     fold (\<lambda>(p, t). add_verdicts (pointer @ path_pointer p)
         (leaf_verdicts X now s policy tool (pointer @ path_pointer p) t)) ls rep"

definition leaves_utf8 :: "(path_step list \<times> string) list \<Rightarrow> bool" where
  "leaves_utf8 ls \<longleftrightarrow> (\<forall>(p, t)\<in>set ls. utf8_ok t)"

lemma leaves_utf8_simps [simp]:
  "leaves_utf8 []" "leaves_utf8 (ls @ ls') \<longleftrightarrow> leaves_utf8 ls \<and> leaves_utf8 ls'"
  "leaves_utf8 (map (map_prod f id) ls) \<longleftrightarrow> leaves_utf8 ls"
  by (auto simp: leaves_utf8_def)

lemma path_pointer_Cons [simp]: "path_pointer (st # p) = step_text st @ path_pointer p"
  by (simp add: path_pointer_def)

lemma path_pointer_Nil [simp]: "path_pointer [] = []"
  by (simp add: path_pointer_def)

lemma walk_report_simps:
  "walk_report X now s policy tool pointer [] rep = rep"
  "walk_report X now s policy tool pointer (ls @ ls') rep =
     walk_report X now s policy tool pointer ls' (walk_report X now s policy tool pointer ls rep)"
  "walk_report X now s policy tool pointer (map (map_prod ((#) st) id) ls) rep =
     walk_report X now s policy tool (pointer @ step_text st) ls rep"
  by (simp_all add: walk_report_def fold_map comp_def case_prod_unfold)

lemma broker_walk_spec:
  "leaves_utf8 (leaf_paths v) \<Longrightarrow>
     broker_walk X now s policy tool pointer v rep =
       Some (path_map (\<lambda>p. broker_leaf X now s policy tool (pointer @ path_pointer p)) v,
         walk_report X now s policy tool pointer (leaf_paths v) rep)"
  "leaves_utf8 (item_paths i vs) \<Longrightarrow>
     broker_walk_items X now s policy tool pointer i vs rep =
       Some (path_map_items (\<lambda>p. broker_leaf X now s policy tool (pointer @ path_pointer p)) i vs,
         walk_report X now s policy tool pointer (item_paths i vs) rep)"
  "leaves_utf8 (member_paths kvs) \<Longrightarrow>
     broker_walk_members X now s policy tool pointer kvs rep =
       Some (path_map_members (\<lambda>p. broker_leaf X now s policy tool (pointer @ path_pointer p)) kvs,
         walk_report X now s policy tool pointer (member_paths kvs) rep)"
proof (induction X now s policy tool pointer v rep
    and X now s policy tool pointer i vs rep
    and X now s policy tool pointer kvs rep
    rule: broker_walk_broker_walk_items_broker_walk_members.induct)
  case (1 X now s policy tool pointer t rep)
  then have "utf8_ok t" by (simp add: leaves_utf8_def)
  from broker_resolve_leaf_spec [OF this, of X now s policy tool pointer rep]
  obtain r where r: "broker_resolve_leaf X now s policy tool pointer t rep =
      Some (r, add_verdicts pointer (leaf_verdicts X now s policy tool pointer t) rep)"
    "broker_leaf X now s policy tool pointer t = (case r of None \<Rightarrow> t | Some new \<Rightarrow> new)"
    by metis
  then show ?case by (cases r) (simp_all add: walk_report_def)
next
  case (2 X now s policy tool pointer vs rep)
  then show ?case by simp
next
  case (3 X now s policy tool pointer kvs rep)
  then show ?case by simp
next
  case (6 X now s policy tool pointer i v vs rep)
  then have v: "broker_walk X now s policy tool (pointer @ ''/'' @ dec_string i) v rep =
      Some (path_map (\<lambda>p. broker_leaf X now s policy tool ((pointer @ ''/'' @ dec_string i) @ path_pointer p)) v,
        walk_report X now s policy tool (pointer @ ''/'' @ dec_string i) (leaf_paths v) rep)"
    by simp
  from 6(2) [OF v refl] 6(3) show ?case by (simp add: v [simplified] walk_report_simps)
next
  case (8 X now s policy tool pointer k v kvs rep)
  then have v: "broker_walk X now s policy tool (pointer @ ''/'' @ rfc6901_escape k) v rep =
      Some (path_map (\<lambda>p. broker_leaf X now s policy tool ((pointer @ ''/'' @ rfc6901_escape k) @ path_pointer p)) v,
        walk_report X now s policy tool (pointer @ ''/'' @ rfc6901_escape k) (leaf_paths v) rep)"
    by simp
  from 8(2) [OF v refl] 8(3) show ?case by (simp add: v [simplified] walk_report_simps)
qed (simp_all only: broker_walk.simps broker_walk_items.simps broker_walk_members.simps
      path_map.simps path_map_items.simps path_map_members.simps leaf_paths.simps item_paths.simps
      member_paths.simps walk_report_simps)

text \<open>
  C17: the broker resolution.  On a tool input with valid UTF-8 leaves the walk never panics; it
  keeps the shape and rewrites each string leaf to the leaf with exactly the broker tokens that
  the policy allows at that leaf's JSON pointer replaced by their values (every other token and
  all other text staying), and the report counts the resolved tokens and lists one denial, with
  the pointer and the reason, per denied one, in the order of the walk.
\<close>

theorem broker_resolve_correct:
  assumes "leaves_utf8 (leaf_paths input)"
  shows "broker_resolve_pointers X now e tool input =
    Some (path_map (\<lambda>p. broker_leaf X now (en_store e) (en_broker_policy e) tool (path_pointer p)) input,
      walk_report X now (en_store e) (en_broker_policy e) tool [] (leaf_paths input) report_empty)"
  using broker_walk_spec(1) [OF assms, of X now "en_store e" "en_broker_policy e" tool "[]"]
  by (simp add: broker_resolve_pointers_def)

definition sample_input :: json where
  "sample_input = JObj [(''host'', JStr ''db.internal''), (''args'', JArr [JStr ''a/b'', JNum ''1''])]"

theorem broker_resolve_correct_witness:
  "broker_resolve_pointers sample_ext 0 sample_engine ''psql'' sample_input \<noteq> None"
proof -
  have "leaves_utf8 (leaf_paths sample_input)"
    by (simp add: sample_input_def leaves_utf8_def code_def)
  from broker_resolve_correct [OF this, of sample_ext 0 sample_engine "''psql''"] show ?thesis by simp
qed

section \<open>What is never resolved\<close>

lemma path_map_id:
  "\<forall>(p, t)\<in>set (leaf_paths v). f p t = t \<Longrightarrow> path_map f v = v"
  "\<forall>(p, t)\<in>set (item_paths i vs). f p t = t \<Longrightarrow> path_map_items f i vs = vs"
  "\<forall>(p, t)\<in>set (member_paths kvs). f p t = t \<Longrightarrow> path_map_members f kvs = kvs"
  by (induction f v and f i vs and f kvs rule: path_map_path_map_items_path_map_members.induct)
    (fastforce simp: ball_Un)+

definition barred_tool :: "string \<Rightarrow> bool" where
  "barred_tool tool \<longleftrightarrow> is_egress_boundary_tool tool \<or> is_opaque_command_tool tool"

lemma barred_verdict:
  "barred_tool tool \<Longrightarrow> isl (broker_verdict X now s policy tool pointer leaf tok)"
  by (auto simp: barred_tool_def broker_verdict_def decide_def split: option.splits)

lemma barred_leaf: "barred_tool tool \<Longrightarrow> broker_leaf X now s policy tool pointer leaf = leaf"
  unfolding broker_leaf_def
proof (rule token_scan_id)
  fix tok
  assume "barred_tool tool"
  from barred_verdict [OF this] obtain r
    where "broker_verdict X now s policy tool pointer leaf tok = Inl r"
    unfolding isl_def by blast
  then show "broker_subst X now s policy tool pointer leaf tok = tok"
    by (simp add: broker_subst_def)
qed

lemma walk_report_resolved:
  "(\<And>p t v. (p, t) \<in> set ls \<Longrightarrow> v \<in> set (leaf_verdicts X now s policy tool (pointer @ path_pointer p) t) \<Longrightarrow>
      isl v) \<Longrightarrow>
   br_resolved (walk_report X now s policy tool pointer ls rep) = br_resolved rep"
proof (induction ls arbitrary: rep)
  case Nil
  then show ?case by (simp add: walk_report_def)
next
  case (Cons l ls)
  obtain p t where l: "l = (p, t)" by fastforce
  define rep' where "rep' = add_verdicts (pointer @ path_pointer p)
    (leaf_verdicts X now s policy tool (pointer @ path_pointer p) t) rep"
  have "br_resolved rep' = br_resolved rep"
    using Cons.prems [of p t] by (auto simp: rep'_def add_verdicts_def l filter_empty_conv)
  moreover have "br_resolved (walk_report X now s policy tool pointer ls rep') = br_resolved rep'"
    using Cons.prems by (intro Cons.IH) auto
  ultimately show ?case by (simp add: walk_report_def l rep'_def)
qed

text \<open>
  The egress boundary.  Whatever the policy and the store hold, a tool of an MCP server, a
  sub-agent or a free-form command tool gets its input back unchanged, with nothing resolved.
\<close>

lemma broker_never_to_barred_tool:
  assumes "leaves_utf8 (leaf_paths input)"
    and "is_egress_boundary_tool tool \<or> is_opaque_command_tool tool"
  shows "\<exists>rep. broker_resolve_pointers X now e tool input = Some (input, rep) \<and> br_resolved rep = 0"
proof -
  have b: "barred_tool tool" using assms(2) by (simp add: barred_tool_def)
  have "path_map (\<lambda>p. broker_leaf X now s policy tool (path_pointer p)) input = input" for s policy
    by (rule path_map_id) (simp add: barred_leaf [OF b])
  moreover have "br_resolved (walk_report X now s policy tool [] ls report_empty) = 0" for s policy ls
    by (subst walk_report_resolved)
      (auto simp: leaf_verdicts_def barred_verdict [OF b] report_empty_def)
  ultimately show ?thesis
    using broker_walk_spec(1) [OF assms(1), of X now "en_store e" "en_broker_policy e" tool "[]"]
    by (simp add: broker_resolve_pointers_def)
qed

theorem broker_never_to_barred_tool_witness:
  "\<exists>rep. broker_resolve_pointers sample_ext 0 sample_engine ''Bash'' sample_input = Some (sample_input, rep) \<and>
     br_resolved rep = 0"
  by (rule broker_never_to_barred_tool)
    (simp_all add: sample_input_def leaves_utf8_def code_def is_opaque_command_tool_def)

section \<open>Pointers are unambiguous\<close>

definition dec_value :: "string \<Rightarrow> nat" where
  "dec_value s = fold (\<lambda>c n. 10 * n + (code c - 48)) s 0"

lemma dec_value_dec_string: "dec_value (dec_string n) = n"
proof (induction n rule: dec_string.induct)
  case (1 n)
  show ?case
  proof (cases "n < 10")
    case True
    then show ?thesis by (subst dec_string.simps) (simp add: dec_value_def)
  next
    case False
    with 1 show ?thesis by (subst dec_string.simps) (simp add: dec_value_def)
  qed
qed

lemma dec_string_no_slash: "CHR ''/'' \<notin> set (dec_string n)"
proof (induction n rule: dec_string.induct)
  case (1 n)
  have "char_of (48 + m) \<noteq> CHR ''/''" if "m < 10" for m :: nat
  proof
    assume "char_of (48 + m) = CHR ''/''"
    then have "code (char_of (48 + m)) = 47" by (simp add: code_def)
    with that show False by simp
  qed
  from this [of n] this [of "n mod 10"] 1 show ?case
    by (subst dec_string.simps) (auto dest: sym)
qed

lemma rfc6901_escape_Nil: "rfc6901_escape [] = []"
  by (simp add: rfc6901_escape_def replace_char_def)

lemma rfc6901_escape_Cons:
  "rfc6901_escape (c # k) =
     (if c = CHR ''~'' then ''~0'' else if c = CHR ''/'' then ''~1'' else [c]) @ rfc6901_escape k"
  by (simp add: rfc6901_escape_def replace_char_def)

lemma rfc6901_escape_no_slash: "CHR ''/'' \<notin> set (rfc6901_escape k)"
  by (induction k) (auto simp: rfc6901_escape_Nil rfc6901_escape_Cons)

lemma rfc6901_escape_inj: "rfc6901_escape k = rfc6901_escape k' \<Longrightarrow> k = k'"
proof (induction k arbitrary: k')
  case Nil
  then show ?case by (cases k') (auto simp: rfc6901_escape_Nil rfc6901_escape_Cons split: if_splits)
next
  case (Cons c k)
  then show ?case
    by (cases k') (auto simp: rfc6901_escape_Nil rfc6901_escape_Cons split: if_splits)
qed

definition segment :: "path_step \<Rightarrow> string" where
  "segment st = (case st of Index i \<Rightarrow> dec_string i | Member k \<Rightarrow> rfc6901_escape k)"

lemma step_text_segment: "step_text st = CHR ''/'' # segment st"
  by (cases st) (simp_all add: segment_def)

lemma segment_no_slash: "CHR ''/'' \<notin> set (segment st)"
  by (cases st) (simp_all add: segment_def dec_string_no_slash rfc6901_escape_no_slash)

lemma path_pointer_head:
  assumes "path_pointer (st # p) = path_pointer (st' # p')"
  shows "segment st = segment st' \<and> path_pointer p = path_pointer p'"
proof -
  have hd: "takeWhile (\<lambda>c. c \<noteq> CHR ''/'') (path_pointer q) = []" for q
    by (cases q) (simp_all add: step_text_segment)
  have seg: "takeWhile (\<lambda>c. c \<noteq> CHR ''/'') (segment st @ path_pointer q) = segment st" for st q
    using segment_no_slash [of st] by (subst takeWhile_append2) (auto simp: hd)
  from assms have eq: "segment st @ path_pointer p = segment st' @ path_pointer p'"
    by (simp add: step_text_segment)
  then have "segment st = segment st'" using seg by metis
  with eq show ?thesis by simp
qed

lemma segment_inj:
  "segment (Index i) = segment (Index j) \<Longrightarrow> i = j"
  "segment (Member k) = segment (Member k') \<Longrightarrow> k = k'"
proof -
  show "segment (Index i) = segment (Index j) \<Longrightarrow> i = j"
    unfolding segment_def path_step.case using dec_value_dec_string by metis
  show "segment (Member k) = segment (Member k') \<Longrightarrow> k = k'"
    unfolding segment_def path_step.case by (rule rfc6901_escape_inj)
qed

fun keys_ok :: "json \<Rightarrow> bool" and items_ok :: "json list \<Rightarrow> bool"
  and members_ok :: "(string \<times> json) list \<Rightarrow> bool"
where
  "keys_ok (JArr vs) = items_ok vs"
| "keys_ok (JObj kvs) = (distinct (map fst kvs) \<and> members_ok kvs)"
| "keys_ok v = True"
| "items_ok [] = True"
| "items_ok (v # vs) = (keys_ok v \<and> items_ok vs)"
| "members_ok [] = True"
| "members_ok ((k, v) # kvs) = (keys_ok v \<and> members_ok kvs)"

definition pointers :: "(path_step list \<times> string) list \<Rightarrow> string list" where
  "pointers ls = map (path_pointer \<circ> fst) ls"

lemma distinct_pointers_cons:
  "distinct (pointers (map (map_prod ((#) st) id) ls)) \<longleftrightarrow> distinct (pointers ls)"
  by (simp add: pointers_def comp_def distinct_map inj_on_def step_text_segment)

lemma item_paths_head:
  "(p, t) \<in> set (item_paths i vs) \<Longrightarrow> \<exists>j q. i \<le> j \<and> p = Index j # q"
proof (induction vs arbitrary: i)
  case (Cons v vs)
  then consider q where "p = Index i # q" | "(p, t) \<in> set (item_paths (Suc i) vs)" by auto
  then show ?case using Cons.IH [of "Suc i"] by cases (auto dest: Suc_leD)
qed simp

lemma member_paths_head:
  "(p, t) \<in> set (member_paths kvs) \<Longrightarrow> \<exists>k q. k \<in> fst ` set kvs \<and> p = Member k # q"
proof (induction kvs)
  case (Cons kv kvs)
  obtain k v where "kv = (k, v)" by fastforce
  with Cons.prems consider q where "p = Member k # q" | "(p, t) \<in> set (member_paths kvs)" by auto
  then show ?case using Cons.IH \<open>kv = (k, v)\<close> by cases auto
qed simp

lemma pointers_distinct:
  "keys_ok v \<Longrightarrow> distinct (pointers (leaf_paths v))"
  "items_ok vs \<Longrightarrow> distinct (pointers (item_paths i vs))"
  "distinct (map fst kvs) \<Longrightarrow> members_ok kvs \<Longrightarrow> distinct (pointers (member_paths kvs))"
proof (induction v and i vs and kvs rule: leaf_paths_item_paths_member_paths.induct)
  case (6 i v vs)
  have "set (pointers (map (map_prod ((#) (Index i)) id) (leaf_paths v))) \<inter>
      set (pointers (item_paths (Suc i) vs)) = {}"
    by (auto simp: pointers_def simp del: path_pointer_Cons
        dest!: item_paths_head path_pointer_head segment_inj)
  moreover have "distinct (pointers (map (map_prod ((#) (Index i)) id) (leaf_paths v)))"
    unfolding distinct_pointers_cons using 6 by simp
  ultimately show ?case using 6 by (simp add: pointers_def)
next
  case (8 k v kvs)
  have "set (pointers (map (map_prod ((#) (Member k)) id) (leaf_paths v))) \<inter>
      set (pointers (member_paths kvs)) = {}"
    using 8(3)
    by (auto simp: pointers_def rev_image_eqI simp del: path_pointer_Cons
        dest!: member_paths_head path_pointer_head segment_inj)
  moreover have "distinct (pointers (map (map_prod ((#) (Member k)) id) (leaf_paths v)))"
    unfolding distinct_pointers_cons using 8 by simp
  ultimately show ?case using 8 by (simp add: pointers_def)
qed (simp_all add: pointers_def)

text \<open>
  JSON pointers are unambiguous.  In a value whose objects have distinct keys, two string
  leaves never get the same pointer from the walk, so a policy rule for one parameter cannot
  match another; in particular the escaping of \<open>~\<close> and \<open>/\<close> in member names is injective.
\<close>

lemma broker_pointers_distinct:
  assumes "keys_ok v"
  shows "distinct (map (path_pointer \<circ> fst) (leaf_paths v)) \<and>
    inj rfc6901_escape"
  using pointers_distinct(1) [OF assms] rfc6901_escape_inj by (simp add: pointers_def inj_def)

theorem broker_pointers_distinct_witness:
  "distinct (map (path_pointer \<circ> fst) (leaf_paths sample_input))"
  using broker_pointers_distinct [of sample_input] by (simp add: sample_input_def)

end
