(* ===== verification/Walk.thy ===== *)
theory Walk
  imports Unmask Json
begin

text \<open>
  The Anthropic request and response walks (\<open>walk.rs\<close> of the proxy).  The wire types come from an
  external crate: a datatype here has the constructors and fields the walk looks at, with one
  opaque component of type \<open>'o\<close> for all other fields and a last constructor for all other
  variants.  Parsing and printing of bodies are the functions of a record \<open>wire\<close>.
\<close>

section \<open>Wire types\<close>

datatype 'o source_ref = SrcUrl string | SrcOther 'o

datatype 'o tool_result_block =
    TrText string
  | TrImage "'o source_ref"
  | TrDocument "'o source_ref" 'o
  | TrOther 'o

datatype 'o tool_result_content =
    TrcText string
  | TrcBlocks "'o tool_result_block list"
  | TrcOther 'o

datatype 'o content_block =
    BText string 'o
  | BToolUse json 'o
  | BToolResult "'o tool_result_content" 'o
  | BImage "'o source_ref"
  | BDocument "'o source_ref" 'o
  | BCompaction string 'o
  | BThinking 'o
  | BRedactedThinking 'o
  | BOther 'o

datatype 'o system_content =
    SysText string
  | SysBlocks "(string \<times> 'o) list"
  | SysOther 'o

record 'o wire_message =
  wm_role :: string
  wm_content :: "'o content_block list"
  wm_rest :: 'o

record 'o api_request =
  rq_system :: "'o system_content option"
  rq_messages :: "'o wire_message list"
  rq_tools :: "(string \<times> 'o) list option"
  rq_metadata :: "json option"
  rq_context_management :: "json option"
  rq_rest :: 'o

record 'o api_response =
  rs_content :: "'o content_block list"
  rs_extra :: "(string \<times> json) list"
  rs_rest :: 'o

record ('o, 'j) wire =
  w_parse_request :: "string \<Rightarrow> 'j + 'o api_request"
  w_print_request :: "'o api_request \<Rightarrow> 'j + string"
  w_parse_value :: "string \<Rightarrow> 'j + json"
  w_print_value :: "json \<Rightarrow> 'j + string"
  w_parse_response :: "string \<Rightarrow> 'j + 'o api_response"
  w_print_response :: "'o api_response \<Rightarrow> 'j + string"

datatype 'j mask_error = MaskJson 'j | MaskEngineError engine_error

section \<open>The walker\<close>

text \<open>With \<open>mw_collect\<close> set, the walker gathers leaves and changes nothing.\<close>

record mask_walker =
  mw_engine :: mask_engine
  mw_manifest :: unmask_manifest
  mw_stats :: mask_stats
  mw_collect :: "(string \<times> surface) list option"

definition walker :: "mask_engine \<Rightarrow> mask_walker" where
  "walker e = \<lparr>mw_engine = e, mw_manifest = manifest_new, mw_stats = stats_default, mw_collect = None\<rparr>"

type_synonym 'a walk = "mask_walker \<Rightarrow> 'a result \<times> mask_walker"

definition ret :: "'a \<Rightarrow> 'a walk" where
  "ret x w = (Inr x, w)"

text \<open>The \<open>?\<close> operator: the first error ends the walk.\<close>

definition andThen :: "'a walk \<Rightarrow> ('a \<Rightarrow> 'b walk) \<Rightarrow> 'b walk" where
  "andThen m f w = (case m w of (Inl err, w') \<Rightarrow> (Inl err, w') | (Inr x, w') \<Rightarrow> f x w')"

definition mapW :: "('a \<Rightarrow> 'b) \<Rightarrow> 'a walk \<Rightarrow> 'b walk" where
  "mapW f m = andThen m (\<lambda>x. ret (f x))"

fun each :: "('a \<Rightarrow> 'a walk) \<Rightarrow> 'a list \<Rightarrow> 'a list walk" where
  "each f [] = ret []"
| "each f (x # xs) = andThen (f x) (\<lambda>x'. mapW (\<lambda>xs'. x' # xs') (each f xs))"

fun optional :: "('a \<Rightarrow> 'a walk) \<Rightarrow> 'a option \<Rightarrow> 'a option walk" where
  "optional f None = ret None"
| "optional f (Some x) = mapW Some (f x)"

lemma andThen_cong [fundef_cong]:
  "m w = m' w \<Longrightarrow> w = w' \<Longrightarrow> (\<And>x v. m' w' = (Inr x, v) \<Longrightarrow> f x v = f' x v) \<Longrightarrow>
   andThen m f w = andThen m' f' w'"
  by (auto simp: andThen_def split: prod.splits sum.splits)

text \<open>The single leaf sink.\<close>

definition walk_str :: "'x ext_scheme \<Rightarrow> surface \<Rightarrow> string \<Rightarrow> string walk" where
  "walk_str X surface t w =
     (case mw_collect w of
        Some leaves \<Rightarrow> (Inr t, w\<lparr>mw_collect := Some (leaves @ [(t, surface)])\<rparr>)
      | None \<Rightarrow>
          (case mask X t surface (mw_engine w) of
             (Inl err, e) \<Rightarrow> (Inl err, w\<lparr>mw_engine := e\<rparr>)
           | (Inr outcome, e) \<Rightarrow>
               (Inr (mo_masked_text outcome),
                w\<lparr>mw_engine := e, mw_manifest := manifest_merge (mw_manifest w) (mo_manifest outcome),
                  mw_stats := stats_merge (mw_stats w) (mo_stats outcome)\<rparr>)))"

section \<open>JSON values\<close>

definition preserves_contract_key :: "string \<Rightarrow> bool" where
  "preserves_contract_key key \<longleftrightarrow>
     key \<in> set [''model'', ''tool_choice'', ''thinking'', ''output_config'', ''format'', ''json_schema'',
       ''schema'', ''input_schema'', ''cache_control'', ''id'', ''tool_use_id'', ''signature'', ''data'',
       ''media_type'', ''type'']"

definition is_context_management_protocol_key :: "string \<Rightarrow> bool" where
  "is_context_management_protocol_key key \<longleftrightarrow>
     key \<in> set [''type'', ''keep'', ''trigger'', ''clear_at_least'', ''clear_tool_inputs'', ''exclude_tools'']"

definition surface_for_role :: "string \<Rightarrow> surface" where
  "surface_for_role role = (if role = ''assistant'' then AssistantText else UserMessage)"

text \<open>
  A value walk that skips the members a predicate names; the walks of the source are this one
  with no key skipped (\<open>value\<close>) and with the protocol keys skipped.
\<close>

fun value_except :: "'x ext_scheme \<Rightarrow> (string \<Rightarrow> bool) \<Rightarrow> surface \<Rightarrow> json \<Rightarrow> json walk"
  and items_except :: "'x ext_scheme \<Rightarrow> (string \<Rightarrow> bool) \<Rightarrow> surface \<Rightarrow> json list \<Rightarrow> json list walk"
  and members_except ::
    "'x ext_scheme \<Rightarrow> (string \<Rightarrow> bool) \<Rightarrow> surface \<Rightarrow> (string \<times> json) list \<Rightarrow> (string \<times> json) list walk"
where
  "value_except X skip surface (JStr t) = mapW JStr (walk_str X surface t)"
| "value_except X skip surface (JArr vs) = mapW JArr (items_except X skip surface vs)"
| "value_except X skip surface (JObj kvs) = mapW JObj (members_except X skip surface kvs)"
| "value_except X skip surface v = ret v"
| "items_except X skip surface [] = ret []"
| "items_except X skip surface (v # vs) =
     andThen (value_except X skip surface v)
       (\<lambda>v'. mapW (\<lambda>vs'. v' # vs') (items_except X skip surface vs))"
| "members_except X skip surface [] = ret []"
| "members_except X skip surface ((k, v) # kvs) =
     andThen (if skip k then ret v else value_except X skip surface v)
       (\<lambda>v'. mapW (\<lambda>kvs'. (k, v') # kvs') (members_except X skip surface kvs))"

definition walk_value :: "'x ext_scheme \<Rightarrow> surface \<Rightarrow> json \<Rightarrow> json walk" where
  "walk_value X = value_except X (\<lambda>k. False)"

definition value_skipping_protocol_keys :: "'x ext_scheme \<Rightarrow> surface \<Rightarrow> json \<Rightarrow> json walk" where
  "value_skipping_protocol_keys X = value_except X is_context_management_protocol_key"

definition context_management :: "'x ext_scheme \<Rightarrow> json \<Rightarrow> json walk" where
  "context_management X = value_skipping_protocol_keys X SystemPrompt"

text \<open>
  The walk over a request of unknown shape.  A member of an object is skipped, or goes to the
  walk of its key.
\<close>

definition is_base64_object :: "(string \<times> json) list \<Rightarrow> bool" where
  "is_base64_object kvs \<longleftrightarrow> Option.bind (map_of kvs ''type'') json_str = Some ''base64''"

function (sequential) value_safe :: "'x ext_scheme \<Rightarrow> surface \<Rightarrow> json \<Rightarrow> json walk"
  and items_safe :: "'x ext_scheme \<Rightarrow> surface \<Rightarrow> json list \<Rightarrow> json list walk"
  and members_safe ::
    "'x ext_scheme \<Rightarrow> bool \<Rightarrow> surface \<Rightarrow> (string \<times> json) list \<Rightarrow> (string \<times> json) list walk"
  and tools_value_safe :: "'x ext_scheme \<Rightarrow> json \<Rightarrow> json walk"
  and tool_items :: "'x ext_scheme \<Rightarrow> json list \<Rightarrow> json list walk"
  and tool_value_safe :: "'x ext_scheme \<Rightarrow> json \<Rightarrow> json walk"
  and tool_members :: "'x ext_scheme \<Rightarrow> (string \<times> json) list \<Rightarrow> (string \<times> json) list walk"
where
  "value_safe X surface (JStr t) = mapW JStr (walk_str X surface t)"
| "value_safe X surface (JArr vs) = mapW JArr (items_safe X surface vs)"
| "value_safe X surface (JObj kvs) = mapW JObj (members_safe X (is_base64_object kvs) surface kvs)"
| "value_safe X surface v = ret v"
| "items_safe X surface [] = ret []"
| "items_safe X surface (v # vs) =
     andThen (value_safe X surface v) (\<lambda>v'. mapW (\<lambda>vs'. v' # vs') (items_safe X surface vs))"
| "members_safe X b64 surface [] = ret []"
| "members_safe X b64 surface ((k, v) # kvs) =
     andThen
       (if b64 \<and> k = ''data'' then ret v
        else if k = ''context_management'' then context_management X v
        else if k = ''tools'' then tools_value_safe X v
        else if preserves_contract_key k then ret v
        else value_safe X surface v)
       (\<lambda>v'. mapW (\<lambda>kvs'. (k, v') # kvs') (members_safe X b64 surface kvs))"
| "tools_value_safe X (JArr vs) = mapW JArr (tool_items X vs)"
| "tools_value_safe X v = value_safe X SystemPrompt v"
| "tool_items X [] = ret []"
| "tool_items X (v # vs) =
     andThen (tool_value_safe X v) (\<lambda>v'. mapW (\<lambda>vs'. v' # vs') (tool_items X vs))"
| "tool_value_safe X (JObj kvs) = mapW JObj (tool_members X kvs)"
| "tool_value_safe X v = value_safe X SystemPrompt v"
| "tool_members X [] = ret []"
| "tool_members X ((k, v) # kvs) =
     andThen
       (if k = ''description'' then value_safe X SystemPrompt v
        else if k \<in> set [''input_schema'', ''cache_control'', ''name'', ''type''] then ret v
        else if preserves_contract_key k then ret v
        else value_safe X SystemPrompt v)
       (\<lambda>v'. mapW (\<lambda>kvs'. (k, v') # kvs') (tool_members X kvs))"
  by pat_completeness auto
termination
  by (relation "measures
      [\<lambda>a. case a of
          Inl (Inl (X, surface, v)) \<Rightarrow> 2 * size v
        | Inl (Inr (Inl (X, surface, vs))) \<Rightarrow> 2 * size_list size vs
        | Inl (Inr (Inr (X, b64, surface, kvs))) \<Rightarrow> 2 * size_list (size_prod (\<lambda>_. 0) size) kvs
        | Inr (Inl (Inl (X, v))) \<Rightarrow> 2 * size v + 1
        | Inr (Inl (Inr (X, vs))) \<Rightarrow> 2 * size_list size vs + 1
        | Inr (Inr (Inl (X, v))) \<Rightarrow> 2 * size v + 1
        | Inr (Inr (Inr (X, kvs))) \<Rightarrow> 2 * size_list (size_prod (\<lambda>_. 0) size) kvs]") auto

section \<open>The typed request\<close>

definition walk_image :: "'x ext_scheme \<Rightarrow> surface \<Rightarrow> 'o source_ref \<Rightarrow> 'o source_ref walk" where
  "walk_image X surface source =
     (case source of SrcUrl url \<Rightarrow> mapW SrcUrl (walk_str X surface url) | SrcOther r \<Rightarrow> ret (SrcOther r))"

definition walk_document :: "'x ext_scheme \<Rightarrow> surface \<Rightarrow> 'o source_ref \<Rightarrow> 'o source_ref walk" where
  "walk_document X surface source =
     (case source of SrcUrl url \<Rightarrow> mapW SrcUrl (walk_str X surface url) | SrcOther r \<Rightarrow> ret (SrcOther r))"

fun tool_result_part :: "'x ext_scheme \<Rightarrow> 'o tool_result_block \<Rightarrow> 'o tool_result_block walk" where
  "tool_result_part X (TrText t) = mapW TrText (walk_str X ToolResult t)"
| "tool_result_part X (TrImage source) = mapW TrImage (walk_image X ToolResult source)"
| "tool_result_part X (TrDocument source r) =
     mapW (\<lambda>source. TrDocument source r) (walk_document X ToolResult source)"
| "tool_result_part X (TrOther r) = ret (TrOther r)"

fun tool_result :: "'x ext_scheme \<Rightarrow> 'o tool_result_content \<Rightarrow> 'o tool_result_content walk" where
  "tool_result X (TrcText t) = mapW TrcText (walk_str X ToolResult t)"
| "tool_result X (TrcBlocks bs) = mapW TrcBlocks (each (tool_result_part X) bs)"
| "tool_result X (TrcOther r) = ret (TrcOther r)"

fun walk_block :: "'x ext_scheme \<Rightarrow> string \<Rightarrow> 'o content_block \<Rightarrow> 'o content_block walk" where
  "walk_block X role (BText t r) = mapW (\<lambda>t. BText t r) (walk_str X (surface_for_role role) t)"
| "walk_block X role (BToolUse input r) =
     mapW (\<lambda>input. BToolUse input r) (walk_value X ToolUseInput input)"
| "walk_block X role (BToolResult content r) =
     mapW (\<lambda>content. BToolResult content r) (tool_result X content)"
| "walk_block X role (BImage source) = mapW BImage (walk_image X UserMessage source)"
| "walk_block X role (BDocument source r) =
     mapW (\<lambda>source. BDocument source r) (walk_document X UserMessage source)"
| "walk_block X role (BCompaction content r) =
     mapW (\<lambda>content. BCompaction content r) (walk_str X AssistantText content)"
| "walk_block X role b = ret b"

fun walk_system :: "'x ext_scheme \<Rightarrow> 'o system_content \<Rightarrow> 'o system_content walk" where
  "walk_system X (SysText t) = mapW SysText (walk_str X SystemPrompt t)"
| "walk_system X (SysBlocks bs) =
     mapW SysBlocks (each (\<lambda>(t, extra). mapW (\<lambda>t. (t, extra)) (walk_str X SystemPrompt t)) bs)"
| "walk_system X (SysOther r) = ret (SysOther r)"

definition walk_message :: "'x ext_scheme \<Rightarrow> 'o wire_message \<Rightarrow> 'o wire_message walk" where
  "walk_message X msg =
     mapW (\<lambda>bs. msg\<lparr>wm_content := bs\<rparr>) (each (walk_block X (wm_role msg)) (wm_content msg))"

definition walk_metadata :: "'x ext_scheme \<Rightarrow> json \<Rightarrow> json walk" where
  "walk_metadata X meta =
     (case meta of
        JObj kvs \<Rightarrow>
          mapW JObj
            (each (\<lambda>(k, v). if k = ''user_id'' then ret (k, v)
                            else mapW (\<lambda>v. (k, v)) (walk_value X UserMessage v)) kvs)
      | other \<Rightarrow> walk_value X UserMessage other)"

definition walk_request :: "'x ext_scheme \<Rightarrow> 'o api_request \<Rightarrow> 'o api_request walk" where
  "walk_request X req =
     andThen (optional (walk_system X) (rq_system req))
       (\<lambda>sys. andThen (each (walk_message X) (rq_messages req))
         (\<lambda>msgs. andThen
             (optional (each (\<lambda>(d, r). mapW (\<lambda>d. (d, r)) (walk_str X SystemPrompt d))) (rq_tools req))
           (\<lambda>tools. andThen (optional (walk_metadata X) (rq_metadata req))
             (\<lambda>meta. mapW (\<lambda>ctx. req\<lparr>rq_system := sys, rq_messages := msgs, rq_tools := tools,
                                     rq_metadata := meta, rq_context_management := ctx\<rparr>)
               (optional (context_management X) (rq_context_management req))))))"

definition prewarm_request :: "'x ext_scheme \<Rightarrow> 'o api_request \<Rightarrow> mask_engine \<Rightarrow> mask_engine" where
  "prewarm_request X req e =
     (if \<not> ml_active (en_ml e) then e
      else
        (case walk_request X req ((walker e)\<lparr>mw_collect := Some []\<rparr>) of
           (Inl err, w) \<Rightarrow> mw_engine w
         | (Inr _, w) \<Rightarrow>
             (case mw_collect w of
                None \<Rightarrow> mw_engine w
              | Some leaves \<Rightarrow> prewarm_batch X leaves (mw_engine w))))"

text \<open>A body is printed only when the whole walk succeeded.\<close>

definition finish_mask ::
  "('a \<Rightarrow> 'j + string) \<Rightarrow> 'a result \<times> mask_walker \<Rightarrow>
   ('j mask_error + string \<times> unmask_manifest) \<times> mask_engine" where
  "finish_mask print r =
     (case r of
        (Inl err, w) \<Rightarrow> (Inl (MaskEngineError err), mw_engine w)
      | (Inr x, w) \<Rightarrow>
          (case print x of
             Inl j \<Rightarrow> (Inl (MaskJson j), mw_engine w)
           | Inr bytes \<Rightarrow> (Inr (bytes, mw_manifest w), mw_engine w)))"

definition mask_request ::
  "'x ext_scheme \<Rightarrow> ('o, 'j) wire \<Rightarrow> string \<Rightarrow> mask_engine \<Rightarrow>
   ('j mask_error + string \<times> unmask_manifest) \<times> mask_engine" where
  "mask_request X wr body e =
     (case w_parse_request wr body of
        Inr req \<Rightarrow>
          finish_mask (w_print_request wr) (walk_request X req (walker (prewarm_request X req e)))
      | Inl typed_err \<Rightarrow>
          (case w_parse_value wr body of
             Inl j \<Rightarrow> (Inl (MaskJson j), e)
           | Inr v \<Rightarrow> finish_mask (w_print_value wr) (value_safe X UserMessage v (walker e))))"

section \<open>The response\<close>

definition unmask_str :: "'x ext_scheme \<Rightarrow> nat \<Rightarrow> mask_engine \<Rightarrow> unmask_manifest \<Rightarrow> string \<Rightarrow> string" where
  "unmask_str X now e m t = (case unmask X now e t m of Inr out \<Rightarrow> out | Inl _ \<Rightarrow> t)"

definition unmask_str_assistant ::
  "'x ext_scheme \<Rightarrow> nat \<Rightarrow> mask_engine \<Rightarrow> unmask_manifest \<Rightarrow> string \<Rightarrow> string" where
  "unmask_str_assistant X now e m t =
     (case unmask_assistant X now e t m of Inr out \<Rightarrow> out | Inl _ \<Rightarrow> t)"

primrec unmask_value :: "'x ext_scheme \<Rightarrow> nat \<Rightarrow> mask_engine \<Rightarrow> unmask_manifest \<Rightarrow> json \<Rightarrow> json" where
  "unmask_value X now e m JNull = JNull"
| "unmask_value X now e m (JBool b) = JBool b"
| "unmask_value X now e m (JNum n) = JNum n"
| "unmask_value X now e m (JStr s) = JStr (unmask_str X now e m s)"
| "unmask_value X now e m (JArr vs) = JArr (map (unmask_value X now e m) vs)"
| "unmask_value X now e m (JObj kvs) = JObj (map (map_prod id (unmask_value X now e m)) kvs)"

definition unmask_map ::
  "'x ext_scheme \<Rightarrow> nat \<Rightarrow> mask_engine \<Rightarrow> unmask_manifest \<Rightarrow> (string \<times> json) list \<Rightarrow>
   (string \<times> json) list" where
  "unmask_map X now e m kvs = map (map_prod id (unmask_value X now e m)) kvs"

fun unmask_block ::
  "'x ext_scheme \<Rightarrow> nat \<Rightarrow> mask_engine \<Rightarrow> unmask_manifest \<Rightarrow> 'o content_block \<Rightarrow> 'o content_block"
where
  "unmask_block X now e m (BText t r) = BText (unmask_str_assistant X now e m t) r"
| "unmask_block X now e m (BToolUse input r) = BToolUse (unmask_value X now e m input) r"
| "unmask_block X now e m (BCompaction c r) = BCompaction (unmask_str X now e m c) r"
| "unmask_block X now e m b = b"

definition unmask_response ::
  "'x ext_scheme \<Rightarrow> nat \<Rightarrow> ('o, 'j) wire \<Rightarrow> mask_engine \<Rightarrow> unmask_manifest \<Rightarrow> string \<Rightarrow> 'j + string"
where
  "unmask_response X now wr e m body =
     bind_r (w_parse_response wr body)
       (\<lambda>resp. w_print_response wr
          (resp\<lparr>rs_content := map (unmask_block X now e m) (rs_content resp),
                rs_extra := unmask_map X now e m (rs_extra resp)\<rparr>))"

lemma unmask_value_map: "unmask_value X now e m v = json_map (unmask_str X now e m) v"
  by (induction v) (auto simp: map_prod_def)

end
