(* ===== verification/MaskSpec.thy ===== *)
theory MaskSpec
  imports ApplyCorrect
begin

text \<open>
  What a mask call promises, without cache, ML bookkeeping or counters: \<open>spec_mask\<close> runs
  detection afresh on every leaf and splices.  \<open>mask_sim\<close> shows that \<open>MaskEngine::mask\<close>
  implements it through the cache, with the interface of the cache as its only knowledge of it;
  Session shows that the prewarm pass keeps the simulation.
\<close>

fun map_res :: "('a \<Rightarrow> 'b) \<Rightarrow> 'e + 'a \<Rightarrow> 'e + 'b" where
  "map_res f (Inl err) = Inl err"
| "map_res f (Inr x) = Inr (f x)"

section \<open>The user bypass is flat\<close>

fun run_segments ::
  "(string \<Rightarrow> 's \<Rightarrow> ('e + 'a) \<times> 's) \<Rightarrow> (string \<Rightarrow> 's \<Rightarrow> ('e + 'a) \<times> 's) \<Rightarrow> ('a \<Rightarrow> 'a \<Rightarrow> 'a) \<Rightarrow>
   user_bypass_segment list \<Rightarrow> 'a \<Rightarrow> 's \<Rightarrow> ('e + 'a) \<times> 's" where
  "run_segments leaf byp app [] acc s = (Inr acc, s)"
| "run_segments leaf byp app (SegMask t # segs) acc s =
     (if t = [] then run_segments leaf byp app segs acc s
      else (case leaf t s of
              (Inl err, s') \<Rightarrow> (Inl err, s')
            | (Inr x, s') \<Rightarrow> run_segments leaf byp app segs (app acc x) s'))"
| "run_segments leaf byp app (SegBypass t # segs) acc s =
     (case byp t s of
        (Inl err, s') \<Rightarrow> (Inl err, s')
      | (Inr x, s') \<Rightarrow> run_segments leaf byp app segs (app acc x) s')"

text \<open>The text a segment list came from.\<close>

fun unsegment :: "user_bypass_segment list \<Rightarrow> string" where
  "unsegment [] = []"
| "unsegment (SegMask t # segs) = t @ unsegment segs"
| "unsegment (SegBypass t # segs) = ''>>'' @ t @ ''<<'' @ unsegment segs"

lemma bypass_none: "user_bypass_segments t = None \<longleftrightarrow> bypass_segments t = [SegMask t]"
proof -
  have "length (bypass_segments t) = 1 \<longleftrightarrow> bypass_segments t = [SegMask t]"
  proof (cases "str_find ''>>'' t")
    case None
    then show ?thesis by (subst (1 2) bypass_segments.simps) simp
  next
    case (Some i)
    then show ?thesis
      by (subst (1 2) bypass_segments.simps) (auto split: option.splits)
  qed
  then show ?thesis by (simp add: user_bypass_segments_def Let_def)
qed

lemma bypass_segments_flat:
  "SegMask s \<in> set (bypass_segments t) \<Longrightarrow> user_bypass_segments s = None"
proof (induction t rule: bypass_segments.induct)
  case (1 t)
  show ?case
  proof (cases "str_find ''>>'' t")
    case None
    with 1(2) have "s = t" by (subst (asm) bypass_segments.simps) simp
    with None show ?thesis unfolding bypass_none by (subst bypass_segments.simps) simp
  next
    case (Some i)
    show ?thesis
    proof (cases "str_find ''<<'' (drop (i + 2) t)")
      case None
      with Some 1(2) have "s = t" by (subst (asm) bypass_segments.simps) simp
      with None Some show ?thesis unfolding bypass_none by (subst bypass_segments.simps) simp
    next
      case (Some j)
      with \<open>str_find ''>>'' t = Some i\<close> 1(2)
      have "s = take i t \<or> SegMask s \<in> set (bypass_segments (drop (i + 2 + j + 2) t))"
        by (subst (asm) bypass_segments.simps) simp
      moreover have "str_find ''>>'' (take i t) = None"
      proof (rule str_find_NoneI)
        fix m
        assume m: "m \<le> length (take i t)"
        show "\<not> prefix ''>>'' (drop m (take i t))"
        proof
          assume p: "prefix ''>>'' (drop m (take i t))"
          then have "drop m (take i t) \<noteq> []" by auto
          then have "m < i" by simp
          moreover have "prefix ''>>'' (drop m t)"
            using p by (metis drop_take prefix_order.trans take_is_prefix)
          ultimately show False
            using str_find_leftmost [OF \<open>str_find ''>>'' t = Some i\<close>] by blast
        qed
      qed
      then have "user_bypass_segments (take i t) = None"
        unfolding bypass_none by (subst bypass_segments.simps) simp
      ultimately show ?thesis
        using 1(1) [OF \<open>str_find ''>>'' t = Some i\<close> Some] by blast
    qed
  qed
qed

lemma unsegment_bypass: "unsegment (bypass_segments t) = t"
proof (induction t rule: bypass_segments.induct)
  case (1 t)
  show ?case
  proof (cases "str_find ''>>'' t")
    case None
    then show ?thesis by (subst bypass_segments.simps) simp
  next
    case (Some i)
    show ?thesis
    proof (cases "str_find ''<<'' (drop (i + 2) t)")
      case None
      with Some show ?thesis by (subst bypass_segments.simps) simp
    next
      case (Some j)
      define u where "u = drop (i + 2) t"
      have u: "u = take j u @ ''<<'' @ drop (j + 2) u"
        using str_find_split [OF Some] by (simp add: u_def numeral_2_eq_2)
      have "unsegment (bypass_segments t) = take i t @ ''>>'' @ take j u @ ''<<'' @ drop (j + 2) u"
        using \<open>str_find ''>>'' t = Some i\<close> Some 1 [OF \<open>str_find ''>>'' t = Some i\<close> Some]
        by (subst bypass_segments.simps) (simp add: u_def add.commute add.left_commute)
      also have "\<dots> = take i t @ ''>>'' @ u" using u by simp
      also have "\<dots> = t"
        using str_find_split [OF \<open>str_find ''>>'' t = Some i\<close>] by (simp add: u_def numeral_2_eq_2)
      finally show ?thesis .
    qed
  qed
qed

lemma mask_segments_run:
  "(\<forall>s. SegMask s \<in> set segs \<longrightarrow> user_bypass_segments s = None) \<Longrightarrow>
   mask_segments X segs acc e =
     run_segments (\<lambda>s. mask_leaf X s UserMessage) (mask_bypassed X) outcome_append segs acc e"
proof (induction segs arbitrary: acc e)
  case Nil
  then show ?case by simp
next
  case (Cons seg segs)
  show ?case
  proof (cases seg)
    case (SegMask s)
    with Cons.prems have "mask X s UserMessage e = mask_leaf X s UserMessage e"
      by (subst mask.simps) simp
    with SegMask Cons show ?thesis
      by (auto split: prod.splits sum.splits)
  next
    case (SegBypass s)
    with Cons show ?thesis by (auto split: prod.splits sum.splits)
  qed
qed

lemma mask_flat:
  "mask X t surface e =
     (case (if surface = UserMessage then user_bypass_segments t else None) of
        None \<Rightarrow> mask_leaf X t surface e
      | Some segs \<Rightarrow>
          run_segments (\<lambda>s. mask_leaf X s UserMessage) (mask_bypassed X) outcome_append segs
            (passthrough [] stats_default) e)"
proof -
  have "mask_segments X (bypass_segments t) acc e =
      run_segments (\<lambda>s. mask_leaf X s UserMessage) (mask_bypassed X) outcome_append
        (bypass_segments t) acc e" for acc
    using bypass_segments_flat by (intro mask_segments_run) blast
  then show ?thesis
    by (subst mask.simps) (auto simp: user_bypass_segments_def Let_def split: option.splits)
qed

text \<open>
  The user bypass.  A user message is cut into segments that put together, with the markers
  around the bypassed ones, are the message; no masked segment contains a bypass of its own, so
  masking a message is one pass over its segments in order, masking the outer ones as plain
  leaves and scanning the bypassed ones for registered secrets, and the recursion of the code
  never goes deeper.
\<close>

lemma mask_bypass_flat:
  "mask X t UserMessage e =
     (case user_bypass_segments t of
        None \<Rightarrow> mask_leaf X t UserMessage e
      | Some segs \<Rightarrow>
          run_segments (\<lambda>s. mask_leaf X s UserMessage) (mask_bypassed X) outcome_append segs
            (passthrough [] stats_default) e) \<and>
   unsegment (bypass_segments t) = t"
  using mask_flat [of X t UserMessage e] by (simp add: unsegment_bypass)

section \<open>Detection environments and cache coherence\<close>

text \<open>
  What a detection depends on besides the text: the policy, the secrets, the recognizer and its
  fingerprint.  A query is such an environment with a text and a surface.
\<close>

type_synonym detect_env = "policy \<times> secret_set \<times> ml_recognizer option \<times> u64fp"

type_synonym query = "detect_env \<times> string \<times> surface"

definition env_of :: "mask_engine \<Rightarrow> detect_env" where
  "env_of e =
     (en_policy e, en_secrets e, fst (ml_for_mask (en_ml e)), fst (snd (ml_for_mask (en_ml e))))"

definition query_key :: "'x ext_scheme \<Rightarrow> query \<Rightarrow> cache_key" where
  "query_key X q =
     (let ((policy, secrets, ml, ml_fp), t, s) = q in detection_key X policy secrets ml_fp t s)"

definition query_run :: "'x ext_scheme \<Rightarrow> query \<Rightarrow> cached_detection list result" where
  "query_run X q =
     (let ((policy, secrets, ml, ml_fp), t, s) = q
      in run_detection X (po_config policy) (po_customs policy) (sset_compiled secrets) ml t s)"

text \<open>
  Over the queries of a session, the key determines the detections.  With one environment for
  the whole session this is the text hash not colliding on its texts.
\<close>

definition keys_determine :: "'x ext_scheme \<Rightarrow> query set \<Rightarrow> bool" where
  "keys_determine X W \<longleftrightarrow>
     (\<forall>q\<in>W. \<forall>q'\<in>W. query_key X q = query_key X q' \<longrightarrow> query_run X q = query_run X q')"

definition query_text :: "query \<Rightarrow> string" where
  "query_text q = fst (snd q)"

lemma keys_determine_texts:
  assumes "inj_on (hash_text X) (query_text ` W)" and "fst ` W \<subseteq> {env}"
  shows "keys_determine X W"
  unfolding keys_determine_def
proof (intro ballI impI)
  fix q q'
  assume q: "q \<in> W" "q' \<in> W" and k: "query_key X q = query_key X q'"
  obtain policy secrets ml fp where env: "env = (policy, secrets, ml, fp)" by (metis prod_cases4)
  obtain t s t' s' where eq: "q = (env, t, s)" "q' = (env, t', s')"
    using q assms(2) by (cases q; cases q') force
  with k env have "hash_text X t = hash_text X t'" "s = s'"
    by (simp_all add: query_key_def detection_key_def)
  moreover have "t \<in> query_text ` W" "t' \<in> query_text ` W"
    using q eq by (force simp: query_text_def)+
  ultimately show "query_run X q = query_run X q'" using assms(1) eq by (auto dest: inj_onD)
qed

definition valid_for :: "'x ext_scheme \<Rightarrow> query set \<Rightarrow> cache_key \<Rightarrow> cached_detection list \<Rightarrow> bool" where
  "valid_for X W k v \<longleftrightarrow> (\<forall>q\<in>W. query_key X q = k \<longrightarrow> query_run X q = Inr v)"

lemma valid_for_run:
  "keys_determine X W \<Longrightarrow> q \<in> W \<Longrightarrow> query_run X q = Inr v \<Longrightarrow> valid_for X W (query_key X q) v"
  unfolding keys_determine_def valid_for_def by metis

section \<open>The specification\<close>

type_synonym masked = "string \<times> unmask_manifest"

definition spec_leaf ::
  "'x ext_scheme \<Rightarrow> mask_engine \<Rightarrow> string \<Rightarrow> surface \<Rightarrow> session_store \<Rightarrow> masked result \<times> session_store"
where
  "spec_leaf X e t surface s =
     (let cfg = po_config (en_policy e); secrets = sset_compiled (en_secrets e) in
      if \<not> ec_enabled cfg \<or> \<not> surface_enabled cfg surface
      then apply_dets X t surface cfg (resolve_overlaps (detect_secrets X secrets t surface)) s
      else
        (let t' = stripped_for_key (en_policy e) t surface in
         case snd (snd (snd (ml_for_mask (en_ml e)))) of
           Some reason \<Rightarrow> (Inl reason, s)
         | None \<Rightarrow>
             (case query_run X (env_of e, t', surface) of
                Inl err \<Rightarrow> (Inl err, s)
              | Inr dets \<Rightarrow> apply_dets X t' surface cfg dets s)))"

definition spec_bypassed ::
  "'x ext_scheme \<Rightarrow> mask_engine \<Rightarrow> string \<Rightarrow> session_store \<Rightarrow> masked result \<times> session_store" where
  "spec_bypassed X e t s =
     apply_dets X t UserMessage (po_config (en_policy e))
       (resolve_overlaps (detect_secrets X (sset_compiled (en_secrets e)) t UserMessage)) s"

definition masked_append :: "masked \<Rightarrow> masked \<Rightarrow> masked" where
  "masked_append a b = (fst a @ fst b, snd a @ snd b)"

definition spec_mask ::
  "'x ext_scheme \<Rightarrow> mask_engine \<Rightarrow> string \<Rightarrow> surface \<Rightarrow> session_store \<Rightarrow> masked result \<times> session_store"
where
  "spec_mask X e t surface s =
     (case (if surface = UserMessage then user_bypass_segments t else None) of
        None \<Rightarrow> spec_leaf X e t surface s
      | Some segs \<Rightarrow>
          run_segments (\<lambda>u. spec_leaf X e u UserMessage) (spec_bypassed X e) masked_append segs
            ([], []) s)"

text \<open>What the specification sees of an outcome.\<close>

definition out_view :: "mask_outcome result \<Rightarrow> masked result" where
  "out_view r = map_res (\<lambda>x. (mo_masked_text x, mo_manifest x)) r"

section \<open>Simulation\<close>

text \<open>
  The engine has the environment of \<open>e0\<close>, the given store and a cache that is coherent for the
  queries of the session.
\<close>

definition sim ::
  "'x ext_scheme \<Rightarrow> query set \<Rightarrow> mask_engine \<Rightarrow> mask_engine \<Rightarrow> session_store \<Rightarrow> bool" where
  "sim X W e0 e s \<longleftrightarrow>
     en_policy e = en_policy e0 \<and> en_secrets e = en_secrets e0 \<and>
     ml_for_mask (en_ml e) = ml_for_mask (en_ml e0) \<and> en_store e = s \<and>
     dcache.coherent (valid_for X W) (en_cache e)"

lemma sim_env: "sim X W e0 e s \<Longrightarrow> env_of e = env_of e0"
  by (simp add: sim_def env_of_def)

lemma ml_for_mask_notes [simp]:
  "ml_for_mask (ml_note_runtime_failure g err rt) = ml_for_mask rt"
  "ml_for_mask (ml_clear_runtime_failure g rt) = ml_for_mask rt"
  by (cases "rt_desired rt";
      simp add: ml_for_mask_def ml_refusal_def ml_note_runtime_failure_def
        ml_clear_runtime_failure_def)+

lemma apply_engine_sim:
  assumes "sim X W e0 e s"
  shows "out_view (fst (apply_engine X t surface dets stats e)) =
      fst (apply_dets X t surface (po_config (en_policy e0)) dets s)"
    "sim X W e0 (snd (apply_engine X t surface dets stats e))
       (snd (apply_dets X t surface (po_config (en_policy e0)) dets s))"
  using assms
  by (auto simp: apply_engine_def out_view_def sim_def split: prod.splits sum.splits)

lemma apply_dets_Nil: "apply_dets X t surface cfg [] s = (Inr (t, []), s)"
  by (simp add: apply_dets_def manifest_new_def)

lemma engine_cache_get_sim:
  assumes "sim X W e0 e s" and "engine_cache_get k e = (r, e')"
  shows "sim X W e0 e' s" "r = Some v \<Longrightarrow> valid_for X W k v"
proof -
  from assms have c: "dcache.coherent (valid_for X W) (en_cache e)" by (simp add: sim_def)
  from assms(2) have r: "r = fst (cache_get k (en_cache e))"
    and e': "e' = e\<lparr>en_cache := snd (cache_get k (en_cache e))\<rparr>"
    by (auto simp: engine_cache_get_def Let_def case_prod_unfold)
  show "sim X W e0 e' s"
    using assms(1) dcache.coherent_get [OF c] by (simp add: sim_def e')
  show "r = Some v \<Longrightarrow> valid_for X W k v"
    using dcache.coherent_hit [OF c] r by simp
qed

lemma detect_and_cache_sim:
  assumes "keys_determine X W" and "sim X W e0 e s" and "q = (env_of e0, t, surface)" and "q \<in> W"
    and "ml = fst (ml_for_mask (en_ml e0))" and "k = query_key X q"
  shows "map_res fst (fst (detect_and_cache X ml g t surface k stats e)) = query_run X q"
    "sim X W e0 (snd (detect_and_cache X ml g t surface k stats e)) s"
proof -
  have same: "en_policy e = en_policy e0" "en_secrets e = en_secrets e0"
    "ml_for_mask (en_ml e) = ml_for_mask (en_ml e0)" "en_store e = s"
    "dcache.coherent (valid_for X W) (en_cache e)"
    using assms(2) by (simp_all add: sim_def)
  have run: "run_detection X (po_config (en_policy e0)) (po_customs (en_policy e0))
      (sset_compiled (en_secrets e0)) ml t surface = query_run X q"
    by (simp add: query_run_def env_of_def assms(3,5))
  show "map_res fst (fst (detect_and_cache X ml g t surface k stats e)) = query_run X q"
    by (cases "query_run X q") (simp_all add: detect_and_cache_def Let_def same(1,2) run)
  show "sim X W e0 (snd (detect_and_cache X ml g t surface k stats e)) s"
  proof (cases "query_run X q")
    case (Inl err)
    then show ?thesis
      unfolding sim_def by (simp add: detect_and_cache_def Let_def same run)
  next
    case (Inr d)
    then have "valid_for X W k d" unfolding assms(6) by (rule valid_for_run [OF assms(1,4)])
    then show ?thesis
      unfolding sim_def
      by (simp add: detect_and_cache_def Let_def same run Inr dcache.coherent_put)
  qed
qed

lemma find_detections_sim:
  assumes "keys_determine X W" and "sim X W e0 e s" and "q = (env_of e0, t, surface)" and "q \<in> W"
    and "ml = fst (ml_for_mask (en_ml e0))" and "k = query_key X q"
  shows "map_res fst (fst (find_detections X ml g t surface k e)) = query_run X q \<and>
    sim X W e0 (snd (find_detections X ml g t surface k e)) s"
proof -
  have hit: "query_run X q = Inr v" if "valid_for X W k v" for v
    using that assms(4,6) by (simp add: valid_for_def)
  obtain r1 e1 where g1: "engine_cache_get k e = (r1, e1)" by fastforce
  note s1 = engine_cache_get_sim [OF assms(2) g1]
  obtain r2 e2 where g2: "engine_cache_get k e1 = (r2, e2)" by fastforce
  note s2 = engine_cache_get_sim [OF s1(1) g2]
  note d1 = detect_and_cache_sim [OF assms(1) s1(1) assms(3-6)]
  note d2 = detect_and_cache_sim [OF assms(1) s2(1) assms(3-6)]
  show ?thesis
    using s1 s2 hit d1 d2 g1 g2
    by (cases r1; cases r2; cases ml) (simp_all add: find_detections_def Let_def)
qed

lemma mask_leaf_sim:
  assumes "keys_determine X W" and "sim X W e0 e s"
    and "(env_of e0, stripped_for_key (en_policy e0) t surface, surface) \<in> W"
  shows "out_view (fst (mask_leaf X t surface e)) = fst (spec_leaf X e0 t surface s) \<and>
    sim X W e0 (snd (mask_leaf X t surface e)) (snd (spec_leaf X e0 t surface s))"
proof -
  define cfg where "cfg = po_config (en_policy e0)"
  have same: "en_policy e = en_policy e0" "en_secrets e = en_secrets e0"
    "ml_for_mask (en_ml e) = ml_for_mask (en_ml e0)"
    using assms(2) by (simp_all add: sim_def)
  show ?thesis
  proof (cases "\<not> ec_enabled cfg \<or> \<not> surface_enabled cfg surface")
    case True
    define dets where "dets = resolve_overlaps (detect_secrets X (sset_compiled (en_secrets e0)) t surface)"
    have "mask_leaf X t surface e = mask_disabled X t surface e"
      "spec_leaf X e0 t surface s = apply_dets X t surface cfg dets s"
      using True by (simp_all add: mask_leaf_def spec_leaf_def Let_def same cfg_def dets_def)
    moreover have "dets = []" if "sset_compiled (en_secrets e0) = []"
      using that set_resolve_overlaps [of "detect_secrets X [] t surface"] by (simp add: dets_def)
    ultimately show ?thesis
      using apply_engine_sim [OF assms(2), of t surface dets stats_disabled] assms(2)
      by (auto simp: mask_disabled_def Let_def same dets_def [symmetric] cfg_def apply_dets_Nil
          out_view_def passthrough_def manifest_new_def)
  next
    case False
    obtain ml fp g rf where m: "ml_for_mask (en_ml e0) = (ml, fp, g, rf)" by (metis prod_cases4)
    define t' where "t' = stripped_for_key (en_policy e0) t surface"
    define q where "q = (env_of e0, t', surface)"
    have k: "detection_key X (en_policy e0) (en_secrets e0) fp t' surface = query_key X q"
      by (simp add: q_def query_key_def env_of_def m)
    have leaf: "mask_leaf X t surface e = mask_enabled X t surface e"
      using False by (simp add: mask_leaf_def same cfg_def)
    have spec: "spec_leaf X e0 t surface s =
      (case rf of Some reason \<Rightarrow> (Inl reason, s)
       | None \<Rightarrow> (case query_run X q of Inl err \<Rightarrow> (Inl err, s)
                  | Inr dets \<Rightarrow> apply_dets X t' surface cfg dets s))"
      using False unfolding t'_def q_def cfg_def by (simp add: spec_leaf_def Let_def m)
    show ?thesis
    proof (cases rf)
      case (Some reason)
      then show ?thesis
        using assms(2) unfolding leaf spec
        by (simp add: mask_enabled_def Let_def same m out_view_def)
    next
      case None
      have fd: "map_res fst (fst (find_detections X ml g t' surface (query_key X q) e)) = query_run X q"
        "sim X W e0 (snd (find_detections X ml g t' surface (query_key X q) e)) s"
        using find_detections_sim [OF assms(1,2) q_def, of ml "query_key X q" g] assms(3)
        by (simp_all add: q_def t'_def m)
      obtain r e' where f: "find_detections X ml g t' surface (query_key X q) e = (r, e')" by fastforce
      have en: "mask_enabled X t surface e =
        (case r of Inl err \<Rightarrow> (Inl err, e')
         | Inr (dets, stats) \<Rightarrow> apply_engine X t' surface dets stats e')"
        by (simp add: mask_enabled_def Let_def same m None k f t'_def [symmetric])
      show ?thesis
      proof (cases r)
        case (Inl err)
        with fd f have "query_run X q = Inl err" "sim X W e0 e' s" by simp_all
        with Inl None show ?thesis unfolding leaf spec en by (simp add: out_view_def)
      next
        case (Inr p)
        obtain dets stats where p: "p = (dets, stats)" by fastforce
        with fd f Inr have "query_run X q = Inr dets" and s': "sim X W e0 e' s" by simp_all
        with Inr None p show ?thesis
          unfolding leaf spec en
          using apply_engine_sim [OF s', of t' surface dets stats] by (simp add: cfg_def)
      qed
    qed
  qed
qed

lemma mask_bypassed_sim:
  assumes "sim X W e0 e s"
  shows "out_view (fst (mask_bypassed X t e)) = fst (spec_bypassed X e0 t s) \<and>
    sim X W e0 (snd (mask_bypassed X t e)) (snd (spec_bypassed X e0 t s))"
proof -
  define dets where
    "dets = resolve_overlaps (detect_secrets X (sset_compiled (en_secrets e0)) t UserMessage)"
  have same: "en_secrets e = en_secrets e0" using assms by (simp add: sim_def)
  have "dets = []" if "sset_compiled (en_secrets e0) = []"
    using that set_resolve_overlaps [of "detect_secrets X [] t UserMessage"] by (simp add: dets_def)
  then have d: "(if sset_compiled (en_secrets e) = [] then []
      else resolve_overlaps (detect_secrets X (sset_compiled (en_secrets e)) t UserMessage)) = dets"
    by (simp add: same dets_def)
  show ?thesis
    using apply_engine_sim [OF assms, of t UserMessage dets stats_default] assms
    by (auto simp: mask_bypassed_def spec_bypassed_def Let_def d [unfolded same] dets_def [symmetric]
        same apply_dets_Nil out_view_def passthrough_def manifest_new_def)
qed

section \<open>Refinement\<close>

lemma run_segments_sim:
  assumes "\<And>u e s. SegMask u \<in> set segs \<Longrightarrow> R e s \<Longrightarrow>
      map_res view (fst (leaf u e)) = fst (leaf' u s) \<and> R (snd (leaf u e)) (snd (leaf' u s))"
    and "\<And>u e s. R e s \<Longrightarrow>
      map_res view (fst (byp u e)) = fst (byp' u s) \<and> R (snd (byp u e)) (snd (byp' u s))"
    and "\<And>a b. view (app a b) = app' (view a) (view b)"
    and "R e s"
  shows "map_res view (fst (run_segments leaf byp app segs acc e)) =
      fst (run_segments leaf' byp' app' segs (view acc) s) \<and>
    R (snd (run_segments leaf byp app segs acc e))
      (snd (run_segments leaf' byp' app' segs (view acc) s))"
  using assms(1,4)
proof (induction segs arbitrary: acc e s)
  case Nil
  then show ?case by simp
next
  case (Cons seg segs)
  have IH: "map_res view (fst (run_segments leaf byp app segs acc e)) =
      fst (run_segments leaf' byp' app' segs (view acc) s) \<and>
    R (snd (run_segments leaf byp app segs acc e))
      (snd (run_segments leaf' byp' app' segs (view acc) s))" if "R e s" for acc e s
    by (rule Cons.IH [OF _ that]) (rule Cons.prems(1), simp_all)
  show ?case
  proof (cases seg)
    case (SegMask u)
    obtain r e1 r' s1 where eq: "leaf u e = (r, e1)" "leaf' u s = (r', s1)" by fastforce
    have "map_res view r = r' \<and> R e1 s1"
      by (rule Cons.prems(1) [OF _ Cons.prems(2), of u, unfolded eq fst_conv snd_conv])
        (simp add: SegMask)
    then show ?thesis
      using IH [of e1 s1 "app acc (projr r)"] IH [OF Cons.prems(2), of acc]
      by (cases r) (auto simp: SegMask eq assms(3))
  next
    case (SegBypass u)
    obtain r e1 r' s1 where eq: "byp u e = (r, e1)" "byp' u s = (r', s1)" by fastforce
    have "map_res view r = r' \<and> R e1 s1"
      by (rule assms(2) [OF Cons.prems(2), of u, unfolded eq fst_conv snd_conv])
    then show ?thesis
      using IH [of e1 s1 "app acc (projr r)"]
      by (cases r) (auto simp: SegBypass eq assms(3))
  qed
qed

text \<open>The leaves a text is detected on, and their queries.\<close>

definition mask_texts :: "string \<Rightarrow> surface \<Rightarrow> string set" where
  "mask_texts t surface =
     (case (if surface = UserMessage then user_bypass_segments t else None) of
        None \<Rightarrow> {t}
      | Some segs \<Rightarrow> {u. SegMask u \<in> set segs})"

definition queries_of :: "mask_engine \<Rightarrow> string \<times> surface \<Rightarrow> query set" where
  "queries_of e leaf =
     (\<lambda>u. (env_of e, stripped_for_key (en_policy e) u (snd leaf), snd leaf)) `
       mask_texts (fst leaf) (snd leaf)"

lemma view_append:
  "(\<lambda>x. (mo_masked_text x, mo_manifest x)) (outcome_append a b) =
   masked_append ((\<lambda>x. (mo_masked_text x, mo_manifest x)) a) ((\<lambda>x. (mo_masked_text x, mo_manifest x)) b)"
  by (simp add: outcome_append_def masked_append_def manifest_merge_def)

lemma mask_sim:
  assumes "keys_determine X W" and "sim X W e0 e s" and "queries_of e0 (t, surface) \<subseteq> W"
  shows "out_view (fst (mask X t surface e)) = fst (spec_mask X e0 t surface s) \<and>
    sim X W e0 (snd (mask X t surface e)) (snd (spec_mask X e0 t surface s))"
proof (cases "if surface = UserMessage then user_bypass_segments t else None")
  case None
  with assms(3) have "(env_of e0, stripped_for_key (en_policy e0) t surface, surface) \<in> W"
    by (simp add: queries_of_def mask_texts_def)
  from mask_leaf_sim [OF assms(1,2) this] None show ?thesis
    by (simp add: mask_flat spec_mask_def)
next
  case (Some segs)
  then have s: "surface = UserMessage" by (simp split: if_splits)
  have "(env_of e0, stripped_for_key (en_policy e0) u UserMessage, UserMessage) \<in> W"
    if "SegMask u \<in> set segs" for u
    using assms(3) that Some by (auto simp: queries_of_def mask_texts_def s)
  then have leaf: "map_res (\<lambda>x. (mo_masked_text x, mo_manifest x)) (fst (mask_leaf X u UserMessage e)) =
      fst (spec_leaf X e0 u UserMessage s) \<and>
    sim X W e0 (snd (mask_leaf X u UserMessage e)) (snd (spec_leaf X e0 u UserMessage s))"
    if "SegMask u \<in> set segs" "sim X W e0 e s" for u e s
    using mask_leaf_sim [OF assms(1) that(2)] that(1) unfolding out_view_def by blast
  show ?thesis
    using run_segments_sim [where R = "sim X W e0" and view = "\<lambda>x. (mo_masked_text x, mo_manifest x)"
        and leaf = "\<lambda>u. mask_leaf X u UserMessage" and leaf' = "\<lambda>u. spec_leaf X e0 u UserMessage"
        and byp = "mask_bypassed X" and byp' = "spec_bypassed X e0" and app = outcome_append
        and app' = masked_append and segs = segs and e = e and s = s
        and acc = "passthrough [] stats_default", OF leaf mask_bypassed_sim [unfolded out_view_def]
        view_append assms(2)] Some
    by (simp add: mask_flat spec_mask_def out_view_def passthrough_def manifest_new_def)
qed

end
