(* ===== verification/Session.thy ===== *)
theory Session
  imports MaskSpec RoundTrip
begin

text \<open>
  Sessions: the prewarm pass keeps the simulation of MaskSpec, so a session of mask, prewarm,
  unmask and reveal calls over one engine gives the results of a session that has no cache and
  no prewarm.
\<close>

section \<open>Prewarm\<close>

definition planned_ok :: "'x ext_scheme \<Rightarrow> query set \<Rightarrow> mask_engine \<Rightarrow> planned \<Rightarrow> bool" where
  "planned_ok X W e0 ps \<longleftrightarrow>
     (\<forall>(k, t, surface)\<in>set ps.
        k = query_key X (env_of e0, t, surface) \<and> (env_of e0, t, surface) \<in> W)"

lemma planned_ok_simps [simp]:
  "planned_ok X W e0 []"
  "planned_ok X W e0 ((k, t, surface) # ps) \<longleftrightarrow>
     k = query_key X (env_of e0, t, surface) \<and> (env_of e0, t, surface) \<in> W \<and> planned_ok X W e0 ps"
  "planned_ok X W e0 (ps @ qs) \<longleftrightarrow> planned_ok X W e0 ps \<and> planned_ok X W e0 qs"
  unfolding planned_ok_def set_append ball_Un by simp_all

lemma plan_leaf_sim:
  assumes "queries_of e0 (raw, surface) \<subseteq> W" and "sim X W e0 e s" and "planned_ok X W e0 ps"
    and "fp = fst (snd (ml_for_mask (en_ml e0)))"
    and "plan_leaf X fp (raw, surface) (ps, seen, e) = (ps', seen', e')"
  shows "sim X W e0 e' s \<and> planned_ok X W e0 ps'"
proof -
  have same: "en_policy e = en_policy e0" "en_secrets e = en_secrets e0"
    using assms(2) by (simp_all add: sim_def)
  define t' where "t' = stripped_for_key (en_policy e0) raw surface"
  define k where "k = detection_key X (en_policy e0) (en_secrets e0) fp t' surface"
  obtain r e1 where g: "engine_cache_get k e = (r, e1)" by fastforce
  have "sim X W e0 e1 s" by (rule engine_cache_get_sim [OF assms(2) g])
  moreover have "k = query_key X (env_of e0, t', surface)"
    by (simp add: k_def query_key_def env_of_def assms(4))
  moreover have "(env_of e0, t', surface) \<in> W"
    if "\<not> (surface = UserMessage \<and> user_bypass_segments raw \<noteq> None)"
    using assms(1) that by (auto simp: queries_of_def mask_texts_def t'_def split: if_splits)
  ultimately show ?thesis
    using assms(2,3,5) g
    by (auto simp: plan_leaf_def Let_def same t'_def [symmetric] k_def [symmetric] split: if_splits)
qed

lemma plan_leaves_sim:
  assumes "\<forall>leaf\<in>set leaves. queries_of e0 leaf \<subseteq> W" and "sim X W e0 e s"
    and "planned_ok X W e0 ps" and "fp = fst (snd (ml_for_mask (en_ml e0)))"
    and "fold (plan_leaf X fp) leaves (ps, seen, e) = (ps', seen', e')"
  shows "sim X W e0 e' s \<and> planned_ok X W e0 ps'"
  using assms(1,2,3,5)
proof (induction leaves arbitrary: ps seen e)
  case Nil
  then show ?case by simp
next
  case (Cons leaf leaves)
  obtain raw surface where l: "leaf = (raw, surface)" by fastforce
  obtain ps1 seen1 e1 where p: "plan_leaf X fp leaf (ps, seen, e) = (ps1, seen1, e1)"
    by (metis prod_cases3)
  have "sim X W e0 e1 s \<and> planned_ok X W e0 ps1"
    by (rule plan_leaf_sim [OF _ Cons.prems(2,3) assms(4) p [unfolded l]])
      (use Cons.prems(1) l in simp)
  with Cons.IH [of e1 ps1 seen1] Cons.prems(1,4) p show ?case by simp
qed

lemma filter_pending_sim:
  "sim X W e0 e s \<Longrightarrow> planned_ok X W e0 ps \<Longrightarrow>
   sim X W e0 (snd (filter_pending ps e)) s \<and> planned_ok X W e0 (fst (filter_pending ps e))"
proof (induction ps e rule: filter_pending.induct)
  case (1 e)
  then show ?case by simp
next
  case (2 k t surface ps e)
  obtain r e1 where g: "engine_cache_get k e = (r, e1)" by fastforce
  obtain rest e2 where f: "filter_pending ps e1 = (rest, e2)" by fastforce
  have "sim X W e0 e1 s" by (rule engine_cache_get_sim [OF 2(2) g])
  then have "sim X W e0 (snd (filter_pending ps e1)) s \<and> planned_ok X W e0 (fst (filter_pending ps e1))"
    using 2(1) [OF g [symmetric]] 2(3) by simp
  moreover have "filter_pending ((k, t, surface) # ps) e =
      (if r = None then (k, t, surface) # rest else rest, e2)"
    by (simp add: g f)
  ultimately show ?case using 2(3) by (simp only: f fst_conv snd_conv) simp
qed

definition recognizer_ok :: "ml_runtime \<Rightarrow> bool" where
  "recognizer_ok rt \<longleftrightarrow> (\<forall>ml. fst (ml_for_mask rt) = Some ml \<longrightarrow> batch_contract ml)"

lemma batch_valid:
  assumes "keys_determine X W" and "fst (ml_for_mask (en_ml e0)) = Some ml" and "batch_contract ml"
    and "planned_ok X W e0 ps"
    and "run_detection_batch X (po_config (en_policy e0)) (po_customs (en_policy e0))
      (sset_compiled (en_secrets e0)) ml (map snd ps) = Inr outs"
  shows "\<forall>(k, dets)\<in>set (zip (map fst ps) outs). valid_for X W k dets"
proof -
  note all = run_detection_batch_each [OF assms(3,5)]
  have "valid_for X W (fst (ps ! i)) (outs ! i)" if i: "i < length ps" for i
  proof -
    obtain k t surface where p: "ps ! i = (k, t, surface)" by (metis prod_cases3)
    have run: "query_run X (env_of e0, t, surface) = Inr (outs ! i)"
      using list_all2_nthD [OF all, of i] i p by (simp add: query_run_def env_of_def assms(2))
    have "(k, t, surface) \<in> set ps" using i p nth_mem [of i ps] by simp
    then have "k = query_key X (env_of e0, t, surface) \<and> (env_of e0, t, surface) \<in> W"
      using assms(4) by (auto simp: planned_ok_def)
    then show ?thesis using valid_for_run [OF assms(1) _ run] p by simp
  qed
  then show ?thesis by (auto simp: set_zip)
qed

lemma prewarm_sim:
  assumes "keys_determine X W" and "recognizer_ok (en_ml e0)" and "sim X W e0 e s"
    and "\<forall>leaf\<in>set leaves. queries_of e0 leaf \<subseteq> W"
  shows "sim X W e0 (prewarm_batch X leaves e) s"
proof -
  obtain ml fp g rf where m: "ml_for_mask (en_ml e0) = (ml, fp, g, rf)" by (metis prod_cases4)
  have same: "ml_for_mask (en_ml e) = ml_for_mask (en_ml e0)" using assms(3) by (simp add: sim_def)
  obtain ps seen e1 where p: "fold (plan_leaf X fp) leaves ([], {}, e) = (ps, seen, e1)"
    by (metis prod_cases3)
  have 1: "sim X W e0 e1 s \<and> planned_ok X W e0 ps"
    by (rule plan_leaves_sim [OF assms(4,3) _ _ p]) (simp_all add: m)
  obtain qs e2 where f: "filter_pending ps e1 = (qs, e2)" by fastforce
  have 2: "sim X W e0 e2 s \<and> planned_ok X W e0 qs"
    using filter_pending_sim [of X W e0 e1 s ps] 1 f by simp
  have same2: "en_policy e2 = en_policy e0" "en_secrets e2 = en_secrets e0"
    using 2 by (simp_all add: sim_def)
  have 3: "sim X W e0 (e2\<lparr>en_cache := fold (\<lambda>(key, dets). cache_insert key dets)
        (zip (map fst qs) outs) (en_cache e2)\<rparr>) s"
    if "ml = Some r" and "run_detection_batch X (po_config (en_policy e2)) (po_customs (en_policy e2))
      (sset_compiled (en_secrets e2)) r (map snd qs) = Inr outs" for r outs
  proof -
    have "\<forall>(k, dets)\<in>set (zip (map fst qs) outs). valid_for X W k dets"
      by (rule batch_valid [OF assms(1), of e0 r])
        (use assms(2) m that 2 same2 in \<open>simp_all add: recognizer_ok_def\<close>)
    with 2 show ?thesis by (simp add: sim_def dcache.coherent_put_all)
  qed
  show ?thesis
    using assms(3) 1 2 3
    by (cases ml; cases rf) (simp_all add: prewarm_batch_def same m p f Let_def split: sum.splits)
qed

section \<open>Sessions\<close>

datatype engine_call =
    CallMask string surface
  | CallPrewarm "(string \<times> surface) list"
  | CallUnmask nat string unmask_manifest
  | CallAssistant nat string unmask_manifest
  | CallPromote string

datatype call_answer = AnsMask "masked result" | AnsText "string result" | AnsUnit

fun call_engine :: "'x ext_scheme \<Rightarrow> engine_call \<Rightarrow> mask_engine \<Rightarrow> call_answer \<times> mask_engine" where
  "call_engine X (CallMask t surface) e =
     (AnsMask (out_view (fst (mask X t surface e))), snd (mask X t surface e))"
| "call_engine X (CallPrewarm leaves) e = (AnsUnit, prewarm_batch X leaves e)"
| "call_engine X (CallUnmask now t m) e = (AnsText (unmask X now e t m), e)"
| "call_engine X (CallAssistant now t m) e = (AnsText (unmask_assistant X now e t m), e)"
| "call_engine X (CallPromote tok) e = (AnsUnit, promote_token tok e)"

text \<open>The same call without cache and prewarm, on the store alone.\<close>

fun call_spec ::
  "'x ext_scheme \<Rightarrow> mask_engine \<Rightarrow> engine_call \<Rightarrow> session_store \<Rightarrow> call_answer \<times> session_store" where
  "call_spec X e0 (CallMask t surface) s =
     (AnsMask (fst (spec_mask X e0 t surface s)), snd (spec_mask X e0 t surface s))"
| "call_spec X e0 (CallPrewarm leaves) s = (AnsUnit, s)"
| "call_spec X e0 (CallUnmask now t m) s =
     (AnsText (unmask X now (e0\<lparr>en_store := s\<rparr>) t m), s)"
| "call_spec X e0 (CallAssistant now t m) s =
     (AnsText (unmask_assistant X now (e0\<lparr>en_store := s\<rparr>) t m), s)"
| "call_spec X e0 (CallPromote tok) s = (AnsUnit, promote tok s)"

fun run_calls :: "('c \<Rightarrow> 's \<Rightarrow> 'a \<times> 's) \<Rightarrow> 'c list \<Rightarrow> 's \<Rightarrow> 'a list" where
  "run_calls f [] s = []"
| "run_calls f (c # cs) s = (let (a, s') = f c s in a # run_calls f cs s')"

fun call_leaves :: "engine_call \<Rightarrow> (string \<times> surface) set" where
  "call_leaves (CallMask t surface) = {(t, surface)}"
| "call_leaves (CallPrewarm leaves) = set leaves"
| "call_leaves _ = {}"

definition session_queries :: "mask_engine \<Rightarrow> engine_call list \<Rightarrow> query set" where
  "session_queries e cs = (\<Union>c\<in>set cs. \<Union>leaf\<in>call_leaves c. queries_of e leaf)"

lemma call_sim:
  assumes "keys_determine X W" and "recognizer_ok (en_ml e0)" and "sim X W e0 e s"
    and "\<forall>leaf\<in>call_leaves c. queries_of e0 leaf \<subseteq> W"
  shows "fst (call_engine X c e) = fst (call_spec X e0 c s) \<and>
    sim X W e0 (snd (call_engine X c e)) (snd (call_spec X e0 c s))"
proof -
  have same: "en_policy e = en_policy e0" "en_store e = s" using assms(3) by (simp_all add: sim_def)
  show ?thesis
  proof (cases c)
    case (CallMask t surface)
    then show ?thesis using mask_sim [OF assms(1,3)] assms(4) by simp
  next
    case (CallPrewarm leaves)
    then show ?thesis using prewarm_sim [OF assms(1-3)] assms(4) by simp
  next
    case (CallUnmask now t m)
    then show ?thesis using assms(3) same by (simp add: unmask_def unmask_inner_def)
  next
    case (CallAssistant now t m)
    then show ?thesis
      using assms(3) same by (simp add: unmask_assistant_def unmask_inner_def Let_def)
  next
    case (CallPromote tok)
    then show ?thesis using assms(3) by (simp add: sim_def promote_token_def)
  qed
qed

lemma run_calls_sim:
  assumes "keys_determine X W" and "recognizer_ok (en_ml e0)"
  shows "sim X W e0 e s \<Longrightarrow> \<forall>c\<in>set cs. \<forall>leaf\<in>call_leaves c. queries_of e0 leaf \<subseteq> W \<Longrightarrow>
    run_calls (call_engine X) cs e = run_calls (call_spec X e0) cs s"
proof (induction cs arbitrary: e s)
  case Nil
  then show ?case by simp
next
  case (Cons c cs)
  then show ?case
    using call_sim [OF assms Cons.prems(1), of c] by (simp add: case_prod_unfold Let_def)
qed

text \<open>
  C1: the cache and the prewarm pass are invisible.  Over any sequence of mask, prewarm, unmask,
  assistant-unmask and promotion calls on an engine that starts with an empty cache of whatever
  capacity, every answer (masked text and manifest, unmasked text, or the error) is the one of
  the specification that detects afresh on every call, as long as the text hash does not collide
  on the texts of the session and the recognizer keeps the batch contract.
\<close>

theorem session_refines_spec:
  assumes "inj_on (hash_text X) (query_text ` session_queries e cs)" and "recognizer_ok (en_ml e)"
    and "en_cache e = cache_new n"
  shows "run_calls (call_engine X) cs e = run_calls (call_spec X e) cs (en_store e)"
proof (rule run_calls_sim [OF keys_determine_texts [OF assms(1)] assms(2)])
  show "fst ` session_queries e cs \<subseteq> {env_of e}" by (auto simp: session_queries_def queries_of_def)
  show "sim X (session_queries e cs) e e (en_store e)"
    by (simp add: sim_def assms(3) dcache.coherent_def cache_new_wf)
      (simp add: cache_view_def cache_new_def)
  show "\<forall>c\<in>set cs. \<forall>leaf\<in>call_leaves c. queries_of e leaf \<subseteq> session_queries e cs"
    unfolding session_queries_def by blast
qed

theorem session_refines_spec_witness:
  "run_calls (call_engine sample_ext)
     [CallMask ''hi bob'' ToolResult, CallMask ''hi bob'' ToolResult] sample_engine =
   run_calls (call_spec sample_ext sample_engine)
     [CallMask ''hi bob'' ToolResult, CallMask ''hi bob'' ToolResult] (en_store sample_engine)"
proof (rule session_refines_spec [where n = 8])
  show "inj_on (hash_text sample_ext) (query_text ` session_queries sample_engine
      [CallMask ''hi bob'' ToolResult, CallMask ''hi bob'' ToolResult])"
    by (simp add: session_queries_def queries_of_def mask_texts_def)
  show "recognizer_ok (en_ml sample_engine)"
    by (simp add: recognizer_ok_def sample_engine_def ml_for_mask_def ml_default_def refresh_fp_def)
  show "en_cache sample_engine = cache_new 8" by (simp add: sample_engine_def)
qed

end
