(* ===== verification/WalkCorrect.thy ===== *)
theory WalkCorrect
  imports Walk Session
begin

text \<open>
  The two modes of the request walk.  Collecting returns the request and the list of its leaves;
  masking masks exactly those leaves, in that order, and puts the results in their places.  With
  the refinement of Session this makes the prewarm pass and the cache invisible in a masked
  request.
\<close>

section \<open>Traversals\<close>

text \<open>Masking a list of leaves in order.\<close>

fun mask_all :: "'x ext_scheme \<Rightarrow> (string \<times> surface) list \<Rightarrow> string list walk" where
  "mask_all X [] = ret []"
| "mask_all X ((t, surface) # ls) =
     andThen (walk_str X surface t) (\<lambda>u. mapW (\<lambda>us. u # us) (mask_all X ls))"

text \<open>
  A walk \<open>F\<close> over \<open>x\<close> is a traversal of the leaves \<open>L x\<close>: collecting appends them, masking masks
  them and rebuilds with some \<open>fill\<close>, whose leaves are the masked ones; \<open>Q\<close> holds of a result.
\<close>

definition fills ::
  "('a \<Rightarrow> (string \<times> surface) list) \<Rightarrow> ('a \<Rightarrow> bool) \<Rightarrow> 'a \<Rightarrow> (string list \<Rightarrow> 'a) \<Rightarrow> bool" where
  "fills L Q x fill \<longleftrightarrow>
     fill (map fst (L x)) = x \<and>
     (\<forall>outs. length outs = length (L x) \<longrightarrow>
        L (fill outs) = zip outs (map snd (L x)) \<and> Q (fill outs))"

definition walks ::
  "'x ext_scheme \<Rightarrow> 'a walk \<Rightarrow> ('a \<Rightarrow> (string \<times> surface) list) \<Rightarrow> ('a \<Rightarrow> bool) \<Rightarrow> 'a \<Rightarrow> bool" where
  "walks X F L Q x \<longleftrightarrow>
     (\<forall>w acc. mw_collect w = Some acc \<longrightarrow> F w = (Inr x, w\<lparr>mw_collect := Some (acc @ L x)\<rparr>)) \<and>
     (\<exists>fill. fills L Q x fill \<and>
        (\<forall>w. mw_collect w = None \<longrightarrow> F w = mapW fill (mask_all X (L x)) w))"

lemma andThen_ret [simp]: "andThen (ret x) f = f x"
  by (simp add: andThen_def ret_def fun_eq_iff)

lemma andThen_ret_right [simp]: "andThen m ret = m"
  by (auto simp: andThen_def ret_def fun_eq_iff split: prod.splits sum.splits)

lemma andThen_assoc: "andThen (andThen m f) g = andThen m (\<lambda>x. andThen (f x) g)"
  by (auto simp: andThen_def fun_eq_iff split: prod.splits sum.splits)

lemma mapW_ret [simp]: "mapW f (ret x) = ret (f x)"
  by (simp add: mapW_def)

lemma mapW_mapW: "mapW g (mapW f m) = mapW (\<lambda>x. g (f x)) m"
  by (simp add: mapW_def andThen_assoc)

lemma mapW_andThen: "mapW g (andThen m f) = andThen m (\<lambda>x. mapW g (f x))"
  by (simp add: mapW_def andThen_assoc)

lemma andThen_mapW: "andThen (mapW f m) g = andThen m (\<lambda>x. g (f x))"
  by (simp add: mapW_def andThen_assoc)

lemma mapW_id [simp]: "mapW (\<lambda>x. x) m = m"
  by (auto simp: mapW_def andThen_def ret_def fun_eq_iff split: prod.splits sum.splits)

lemma walk_str_mode: "mw_collect w = None \<Longrightarrow> mw_collect (snd (walk_str X surface t w)) = None"
  by (auto simp: walk_str_def split: prod.splits sum.splits)

lemma mask_all_mode:
  "mw_collect w = None \<Longrightarrow> mask_all X ls w = (r, w') \<Longrightarrow>
   mw_collect w' = None \<and> (case r of Inl _ \<Rightarrow> True | Inr us \<Rightarrow> length us = length ls)"
proof (induction X ls arbitrary: w r w' rule: mask_all.induct)
  case (1 X)
  then show ?case by (auto simp: ret_def)
next
  case (2 X t surface ls)
  obtain r1 w1 where s: "walk_str X surface t w = (r1, w1)" by fastforce
  then have "mw_collect w1 = None" using walk_str_mode [OF 2(2), of X surface t] by simp
  with 2(1) [of w1] 2(3) s show ?case
    by (fastforce simp: andThen_def mapW_def ret_def split: prod.splits sum.splits)
qed

lemma mask_all_append:
  "mask_all X (ls @ ls') = andThen (mask_all X ls) (\<lambda>us. mapW (\<lambda>us'. us @ us') (mask_all X ls'))"
  by (induction X ls rule: mask_all.induct)
    (simp_all add: andThen_assoc mapW_def)

text \<open>Walks that agree in masking mode can be exchanged after a masking.\<close>

lemma andThen_mask_all_cong:
  assumes "mw_collect w = None"
    and "\<And>us v. length us = length ls \<Longrightarrow> mw_collect v = None \<Longrightarrow> f us v = g us v"
  shows "andThen (mask_all X ls) f w = andThen (mask_all X ls) g w"
proof -
  obtain r w' where m: "mask_all X ls w = (r, w')" by fastforce
  with mask_all_mode [OF assms(1) m] assms(2) show ?thesis
    by (auto simp: andThen_def split: sum.splits)
qed

section \<open>The rules of traversals\<close>

lemma walks_ret: "L x = [] \<Longrightarrow> Q x \<Longrightarrow> walks X (ret x) L Q x"
  unfolding walks_def fills_def by (auto simp: ret_def mapW_def andThen_def intro!: exI [of _ "\<lambda>_. x"])

lemma walks_str: "walks X (walk_str X surface t) (\<lambda>t. [(t, surface)]) (\<lambda>_. True) t"
proof -
  have "walk_str X surface t w = mapW hd (mask_all X [(t, surface)]) w" for w
    by (auto simp: mapW_def andThen_def ret_def split: prod.splits sum.splits)
  moreover have "fills (\<lambda>t. [(t, surface)]) (\<lambda>_. True) t hd"
    by (auto simp: fills_def length_Suc_conv)
  moreover have "walk_str X surface t w = (Inr t, w\<lparr>mw_collect := Some (acc @ [(t, surface)])\<rparr>)"
    if "mw_collect w = Some acc" for w acc
    using that by (simp add: walk_str_def)
  ultimately show ?thesis unfolding walks_def by blast
qed

lemma walks_map:
  assumes "walks X m L Q x" and "\<And>y. Q y \<Longrightarrow> L' (g y) = L y \<and> Q' (g y)" and "L' (g x) = L x"
  shows "walks X (mapW g m) L' Q' (g x)"
proof -
  obtain fill where f: "fills L Q x fill"
    and c: "\<And>w acc. mw_collect w = Some acc \<Longrightarrow> m w = (Inr x, w\<lparr>mw_collect := Some (acc @ L x)\<rparr>)"
    and k: "\<And>w. mw_collect w = None \<Longrightarrow> m w = mapW fill (mask_all X (L x)) w"
    using assms(1) unfolding walks_def by blast
  have "fills L' Q' (g x) (\<lambda>outs. g (fill outs))"
    using f assms(2,3) by (simp add: fills_def)
  moreover have "mapW g m w = mapW (\<lambda>outs. g (fill outs)) (mask_all X (L' (g x))) w"
    if "mw_collect w = None" for w
    using k [OF that] by (simp add: assms(3) mapW_def andThen_def ret_def split: prod.splits sum.splits)
  ultimately show ?thesis
    unfolding walks_def by (auto simp: c mapW_def andThen_def ret_def assms(3))
qed

lemma walks_two:
  assumes "walks X m L Q x" and "walks X n L2 Q2 y"
    and "\<And>a b. Q a \<Longrightarrow> Q2 b \<Longrightarrow> L' (c a b) = L a @ L2 b \<and> Q' (c a b)"
    and "L' (c x y) = L x @ L2 y"
  shows "walks X (andThen m (\<lambda>a. mapW (c a) n)) L' Q' (c x y)"
proof -
  obtain fill where f: "fills L Q x fill"
    and cm: "\<And>w acc. mw_collect w = Some acc \<Longrightarrow> m w = (Inr x, w\<lparr>mw_collect := Some (acc @ L x)\<rparr>)"
    and km: "\<And>w. mw_collect w = None \<Longrightarrow> m w = mapW fill (mask_all X (L x)) w"
    using assms(1) unfolding walks_def by blast
  obtain fill2 where f2: "fills L2 Q2 y fill2"
    and cn: "\<And>w acc. mw_collect w = Some acc \<Longrightarrow> n w = (Inr y, w\<lparr>mw_collect := Some (acc @ L2 y)\<rparr>)"
    and kn: "\<And>w. mw_collect w = None \<Longrightarrow> n w = mapW fill2 (mask_all X (L2 y)) w"
    using assms(2) unfolding walks_def by blast
  define k where "k = length (L x)"
  define fill' where "fill' outs = c (fill (take k outs)) (fill2 (drop k outs))" for outs
  have "fills L' Q' (c x y) fill'"
    unfolding fills_def
  proof safe
    show "fill' (map fst (L' (c x y))) = c x y"
      using f f2 by (simp add: fill'_def fills_def assms(4) k_def)
    fix outs :: "string list"
    assume "length outs = length (L' (c x y))"
    then have len: "length (take k outs) = length (L x)" "length (drop k outs) = length (L2 y)"
      by (simp_all add: k_def assms(4))
    have "zip outs (map snd (L x @ L2 y)) =
        zip (take k outs @ drop k outs) (map snd (L x) @ map snd (L2 y))" by simp
    also have "\<dots> = zip (take k outs) (map snd (L x)) @ zip (drop k outs) (map snd (L2 y))"
      using len by (intro zip_append) simp
    finally show "L' (fill' outs) = zip outs (map snd (L' (c x y)))"
      using f f2 len assms(3) by (simp add: fill'_def fills_def assms(4))
    show "Q' (fill' outs)"
      using f f2 len assms(3) by (simp add: fill'_def fills_def)
  qed
  moreover have "andThen m (\<lambda>a. mapW (c a) n) w = mapW fill' (mask_all X (L' (c x y))) w"
    if w: "mw_collect w = None" for w
  proof -
    have "andThen m (\<lambda>a. mapW (c a) n) w = andThen (mapW fill (mask_all X (L x))) (\<lambda>a. mapW (c a) n) w"
      using km [OF w] by (simp add: andThen_def)
    also have "\<dots> = andThen (mask_all X (L x)) (\<lambda>us. mapW (c (fill us)) n) w"
      by (simp add: andThen_mapW)
    also have "\<dots> = andThen (mask_all X (L x))
        (\<lambda>us. mapW (\<lambda>us'. fill' (us @ us')) (mask_all X (L2 y))) w"
    proof (rule andThen_mask_all_cong [OF w])
      fix us :: "string list" and v :: mask_walker
      assume us: "length us = length (L x)" and v: "mw_collect v = None"
      have "mapW (c (fill us)) n v = mapW (c (fill us)) (mapW fill2 (mask_all X (L2 y))) v"
        using kn [OF v] by (simp add: mapW_def andThen_def)
      also have "\<dots> = mapW (\<lambda>us'. fill' (us @ us')) (mask_all X (L2 y)) v"
        by (simp add: mapW_mapW fill'_def us k_def)
      finally show "mapW (c (fill us)) n v = mapW (\<lambda>us'. fill' (us @ us')) (mask_all X (L2 y)) v" .
    qed
    finally show ?thesis
      by (simp add: assms(4) mask_all_append mapW_andThen mapW_mapW)
  qed
  ultimately show ?thesis
    unfolding walks_def by (auto simp: cm cn mapW_def andThen_def ret_def assms(4))
qed

text \<open>Two values that agree but for their leaves.\<close>

abbreviation same :: "('a \<Rightarrow> 'b) \<Rightarrow> 'a \<Rightarrow> 'a \<Rightarrow> bool" where
  "same b x \<equiv> \<lambda>y. b y = b x"

lemma walks_each:
  "(\<And>x. x \<in> set xs \<Longrightarrow> walks X (f x) l (same b x) x) \<Longrightarrow>
   walks X (each f xs) (\<lambda>xs. concat (map l xs)) (same (map b) xs) xs"
proof (induction xs)
  case Nil
  then show ?case by (simp add: walks_ret)
next
  case (Cons x xs)
  then have "walks X (f x) l (same b x) x"
    "walks X (each f xs) (\<lambda>xs. concat (map l xs)) (same (map b) xs) xs"
    by simp_all
  then show ?case unfolding each.simps by (rule walks_two [where c = "\<lambda>x xs. x # xs"]) simp_all
qed

lemma walks_optional:
  "(\<And>x. v = Some x \<Longrightarrow> walks X (f x) l (same b x) x) \<Longrightarrow>
   walks X (optional f v) (\<lambda>v. case v of None \<Rightarrow> [] | Some x \<Rightarrow> l x) (same (map_option b) v) v"
proof (cases v)
  case None
  then show ?thesis by (simp add: walks_ret)
next
  case (Some x)
  assume "\<And>x. v = Some x \<Longrightarrow> walks X (f x) l (same b x) x"
  from walks_map [OF this [OF Some], of "\<lambda>v. case v of None \<Rightarrow> [] | Some x \<Rightarrow> l x" Some
      "same (map_option b) v"] Some
  show ?thesis by simp
qed

section \<open>The leaves of values and requests\<close>

type_synonym leaves = "(string \<times> surface) list"

fun leaves_except :: "(string \<Rightarrow> bool) \<Rightarrow> surface \<Rightarrow> json \<Rightarrow> leaves"
  and item_leaves_except :: "(string \<Rightarrow> bool) \<Rightarrow> surface \<Rightarrow> json list \<Rightarrow> leaves"
  and member_leaves_except :: "(string \<Rightarrow> bool) \<Rightarrow> surface \<Rightarrow> (string \<times> json) list \<Rightarrow> leaves"
where
  "leaves_except skip surface (JStr t) = [(t, surface)]"
| "leaves_except skip surface (JArr vs) = item_leaves_except skip surface vs"
| "leaves_except skip surface (JObj kvs) = member_leaves_except skip surface kvs"
| "leaves_except skip surface v = []"
| "item_leaves_except skip surface [] = []"
| "item_leaves_except skip surface (v # vs) =
     leaves_except skip surface v @ item_leaves_except skip surface vs"
| "member_leaves_except skip surface [] = []"
| "member_leaves_except skip surface ((k, v) # kvs) =
     (if skip k then [] else leaves_except skip surface v) @ member_leaves_except skip surface kvs"

definition ref_leaves :: "surface \<Rightarrow> 'o source_ref \<Rightarrow> leaves" where
  "ref_leaves surface r = (case r of SrcUrl u \<Rightarrow> [(u, surface)] | SrcOther _ \<Rightarrow> [])"

fun tool_part_leaves :: "'o tool_result_block \<Rightarrow> leaves" where
  "tool_part_leaves (TrText t) = [(t, ToolResult)]"
| "tool_part_leaves (TrImage r) = ref_leaves ToolResult r"
| "tool_part_leaves (TrDocument r _) = ref_leaves ToolResult r"
| "tool_part_leaves (TrOther _) = []"

fun tool_leaves :: "'o tool_result_content \<Rightarrow> leaves" where
  "tool_leaves (TrcText t) = [(t, ToolResult)]"
| "tool_leaves (TrcBlocks bs) = concat (map tool_part_leaves bs)"
| "tool_leaves (TrcOther _) = []"

fun block_leaves :: "string \<Rightarrow> 'o content_block \<Rightarrow> leaves" where
  "block_leaves role (BText t _) = [(t, surface_for_role role)]"
| "block_leaves role (BToolUse input _) = leaves_except (\<lambda>k. False) ToolUseInput input"
| "block_leaves role (BToolResult content _) = tool_leaves content"
| "block_leaves role (BImage r) = ref_leaves UserMessage r"
| "block_leaves role (BDocument r _) = ref_leaves UserMessage r"
| "block_leaves role (BCompaction content _) = [(content, AssistantText)]"
| "block_leaves role b = []"

fun system_leaves :: "'o system_content \<Rightarrow> leaves" where
  "system_leaves (SysText t) = [(t, SystemPrompt)]"
| "system_leaves (SysBlocks bs) = concat (map (\<lambda>(t, _). [(t, SystemPrompt)]) bs)"
| "system_leaves (SysOther _) = []"

definition message_leaves :: "'o wire_message \<Rightarrow> leaves" where
  "message_leaves msg = concat (map (block_leaves (wm_role msg)) (wm_content msg))"

definition tools_leaves :: "(string \<times> 'o) list \<Rightarrow> leaves" where
  "tools_leaves tools = concat (map (\<lambda>(d, _). [(d, SystemPrompt)]) tools)"

definition metadata_leaves :: "json \<Rightarrow> leaves" where
  "metadata_leaves meta =
     (case meta of
        JObj kvs \<Rightarrow>
          concat (map (\<lambda>(k, v). if k = ''user_id'' then []
                               else leaves_except (\<lambda>k. False) UserMessage v) kvs)
      | other \<Rightarrow> leaves_except (\<lambda>k. False) UserMessage other)"

abbreviation opt_leaves :: "('a \<Rightarrow> leaves) \<Rightarrow> 'a option \<Rightarrow> leaves" where
  "opt_leaves l v \<equiv> (case v of None \<Rightarrow> [] | Some x \<Rightarrow> l x)"

definition request_leaves :: "'o api_request \<Rightarrow> leaves" where
  "request_leaves req =
     opt_leaves system_leaves (rq_system req) @
     concat (map message_leaves (rq_messages req)) @
     opt_leaves tools_leaves (rq_tools req) @
     opt_leaves metadata_leaves (rq_metadata req) @
     opt_leaves (leaves_except is_context_management_protocol_key SystemPrompt)
       (rq_context_management req)"

text \<open>Everything but the leaves: the same values with every leaf emptied.\<close>

fun blank_except :: "(string \<Rightarrow> bool) \<Rightarrow> json \<Rightarrow> json"
  and blank_items_except :: "(string \<Rightarrow> bool) \<Rightarrow> json list \<Rightarrow> json list"
  and blank_members_except :: "(string \<Rightarrow> bool) \<Rightarrow> (string \<times> json) list \<Rightarrow> (string \<times> json) list"
where
  "blank_except skip (JStr t) = JStr []"
| "blank_except skip (JArr vs) = JArr (blank_items_except skip vs)"
| "blank_except skip (JObj kvs) = JObj (blank_members_except skip kvs)"
| "blank_except skip v = v"
| "blank_items_except skip [] = []"
| "blank_items_except skip (v # vs) = blank_except skip v # blank_items_except skip vs"
| "blank_members_except skip [] = []"
| "blank_members_except skip ((k, v) # kvs) =
     (k, if skip k then v else blank_except skip v) # blank_members_except skip kvs"

fun blank_ref :: "'o source_ref \<Rightarrow> 'o source_ref" where
  "blank_ref (SrcUrl u) = SrcUrl []"
| "blank_ref (SrcOther r) = SrcOther r"

fun blank_tool_part :: "'o tool_result_block \<Rightarrow> 'o tool_result_block" where
  "blank_tool_part (TrText t) = TrText []"
| "blank_tool_part (TrImage r) = TrImage (blank_ref r)"
| "blank_tool_part (TrDocument r rest) = TrDocument (blank_ref r) rest"
| "blank_tool_part (TrOther rest) = TrOther rest"

fun blank_tool :: "'o tool_result_content \<Rightarrow> 'o tool_result_content" where
  "blank_tool (TrcText t) = TrcText []"
| "blank_tool (TrcBlocks bs) = TrcBlocks (map blank_tool_part bs)"
| "blank_tool (TrcOther rest) = TrcOther rest"

fun blank_block :: "'o content_block \<Rightarrow> 'o content_block" where
  "blank_block (BText t rest) = BText [] rest"
| "blank_block (BToolUse input rest) = BToolUse (blank_except (\<lambda>k. False) input) rest"
| "blank_block (BToolResult content rest) = BToolResult (blank_tool content) rest"
| "blank_block (BImage r) = BImage (blank_ref r)"
| "blank_block (BDocument r rest) = BDocument (blank_ref r) rest"
| "blank_block (BCompaction content rest) = BCompaction [] rest"
| "blank_block b = b"

definition blank_text :: "string \<times> 'o \<Rightarrow> string \<times> 'o" where
  "blank_text p = ([], snd p)"

fun blank_system :: "'o system_content \<Rightarrow> 'o system_content" where
  "blank_system (SysText t) = SysText []"
| "blank_system (SysBlocks bs) = SysBlocks (map blank_text bs)"
| "blank_system (SysOther rest) = SysOther rest"

definition blank_message :: "'o wire_message \<Rightarrow> 'o wire_message" where
  "blank_message msg = msg\<lparr>wm_content := map blank_block (wm_content msg)\<rparr>"

definition blank_metadata :: "json \<Rightarrow> json" where
  "blank_metadata meta =
     (case meta of
        JObj kvs \<Rightarrow>
          JObj (map (\<lambda>(k, v). (k, if k = ''user_id'' then v else blank_except (\<lambda>k. False) v)) kvs)
      | other \<Rightarrow> blank_except (\<lambda>k. False) other)"

definition blank_request :: "'o api_request \<Rightarrow> 'o api_request" where
  "blank_request req =
     req\<lparr>rq_system := map_option blank_system (rq_system req),
         rq_messages := map blank_message (rq_messages req),
         rq_tools := map_option (map blank_text) (rq_tools req),
         rq_metadata := map_option blank_metadata (rq_metadata req),
         rq_context_management :=
           map_option (blank_except is_context_management_protocol_key) (rq_context_management req)\<rparr>"

text \<open>The leaves the walk over an unknown request visits.\<close>

function (sequential) safe_leaves :: "surface \<Rightarrow> json \<Rightarrow> leaves"
  and item_safe_leaves :: "surface \<Rightarrow> json list \<Rightarrow> leaves"
  and member_safe_leaves :: "bool \<Rightarrow> surface \<Rightarrow> (string \<times> json) list \<Rightarrow> leaves"
  and tools_safe_leaves :: "json \<Rightarrow> leaves"
  and tool_item_leaves :: "json list \<Rightarrow> leaves"
  and tool_safe_leaves :: "json \<Rightarrow> leaves"
  and tool_member_leaves :: "(string \<times> json) list \<Rightarrow> leaves"
where
  "safe_leaves surface (JStr t) = [(t, surface)]"
| "safe_leaves surface (JArr vs) = item_safe_leaves surface vs"
| "safe_leaves surface (JObj kvs) = member_safe_leaves (is_base64_object kvs) surface kvs"
| "safe_leaves surface v = []"
| "item_safe_leaves surface [] = []"
| "item_safe_leaves surface (v # vs) = safe_leaves surface v @ item_safe_leaves surface vs"
| "member_safe_leaves b64 surface [] = []"
| "member_safe_leaves b64 surface ((k, v) # kvs) =
     (if b64 \<and> k = ''data'' then []
      else if k = ''context_management''
        then leaves_except is_context_management_protocol_key SystemPrompt v
      else if k = ''tools'' then tools_safe_leaves v
      else if preserves_contract_key k then []
      else safe_leaves surface v) @ member_safe_leaves b64 surface kvs"
| "tools_safe_leaves (JArr vs) = tool_item_leaves vs"
| "tools_safe_leaves v = safe_leaves SystemPrompt v"
| "tool_item_leaves [] = []"
| "tool_item_leaves (v # vs) = tool_safe_leaves v @ tool_item_leaves vs"
| "tool_safe_leaves (JObj kvs) = tool_member_leaves kvs"
| "tool_safe_leaves v = safe_leaves SystemPrompt v"
| "tool_member_leaves [] = []"
| "tool_member_leaves ((k, v) # kvs) =
     (if k = ''description'' then safe_leaves SystemPrompt v
      else if k \<in> set [''input_schema'', ''cache_control'', ''name'', ''type''] then []
      else if preserves_contract_key k then []
      else safe_leaves SystemPrompt v) @ tool_member_leaves kvs"
  by pat_completeness auto
termination
  by (relation "measures
      [\<lambda>a. case a of
          Inl (Inl (surface, v)) \<Rightarrow> 2 * size v
        | Inl (Inr (Inl (surface, vs))) \<Rightarrow> 2 * size_list size vs
        | Inl (Inr (Inr (b64, surface, kvs))) \<Rightarrow> 2 * size_list (size_prod (\<lambda>_. 0) size) kvs
        | Inr (Inl (Inl v)) \<Rightarrow> 2 * size v + 1
        | Inr (Inl (Inr vs)) \<Rightarrow> 2 * size_list size vs + 1
        | Inr (Inr (Inl v)) \<Rightarrow> 2 * size v + 1
        | Inr (Inr (Inr kvs)) \<Rightarrow> 2 * size_list (size_prod (\<lambda>_. 0) size) kvs]") auto

section \<open>Every walk is a traversal\<close>

abbreviation any :: "'a \<Rightarrow> bool" where
  "any \<equiv> \<lambda>_. True"

lemma walks_value_except:
  "walks X (value_except X skip surface v) (leaves_except skip surface) (same (blank_except skip) v) v"
  "walks X (items_except X skip surface vs) (item_leaves_except skip surface) (same (blank_items_except skip) vs) vs"
  "walks X (members_except X skip surface kvs) (member_leaves_except skip surface)
     (same (blank_members_except skip) kvs) kvs"
proof (induction X skip surface v and X skip surface vs and X skip surface kvs
    rule: value_except_items_except_members_except.induct)
  case (1 X skip surface t)
  show ?case unfolding value_except.simps by (rule walks_map [OF walks_str]) simp_all
next
  case (2 X skip surface vs)
  then show ?case unfolding value_except.simps by (rule walks_map) simp_all
next
  case (3 X skip surface kvs)
  then show ?case unfolding value_except.simps by (rule walks_map) simp_all
next
  case (6 X skip surface v vs)
  show ?case unfolding items_except.simps by (rule walks_two [OF 6]) simp_all
next
  case (8 X skip surface k v kvs)
  show ?case
  proof (cases "skip k")
    case True
    show ?thesis
      unfolding members_except.simps if_P [OF True]
      by (rule walks_two [OF walks_ret [of "\<lambda>_. []" v "same (\<lambda>v. v) v"] 8(2), where c = "\<lambda>v kvs. (k, v) # kvs"])
        (simp_all add: True)
  next
    case False
    show ?thesis
      unfolding members_except.simps if_not_P [OF False]
      by (rule walks_two [OF 8(1) [OF False] 8(2), where c = "\<lambda>v kvs. (k, v) # kvs"])
        (simp_all add: False)
  qed
qed (simp_all add: walks_ret)

lemma walks_ref:
  "walks X (walk_image X surface r) (ref_leaves surface) (same blank_ref r) r"
  "walks X (walk_document X surface r) (ref_leaves surface) (same blank_ref r) r"
proof -
  show "walks X (walk_image X surface r) (ref_leaves surface) (same blank_ref r) r"
  proof (cases r)
    case (SrcUrl u)
    show ?thesis unfolding SrcUrl walk_image_def source_ref.case
      by (rule walks_map [OF walks_str]) (simp_all add: ref_leaves_def)
  qed (simp add: walk_image_def ref_leaves_def walks_ret)
  then show "walks X (walk_document X surface r) (ref_leaves surface) (same blank_ref r) r"
    by (simp add: walk_image_def walk_document_def)
qed

lemma walks_tool_part: "walks X (tool_result_part X b) tool_part_leaves (same blank_tool_part b) b"
proof (cases b)
  case (TrText t)
  show ?thesis unfolding TrText tool_result_part.simps by (rule walks_map [OF walks_str]) simp_all
next
  case (TrImage r)
  show ?thesis unfolding TrImage tool_result_part.simps by (rule walks_map [OF walks_ref(1)]) simp_all
next
  case (TrDocument r rest)
  show ?thesis unfolding TrDocument tool_result_part.simps
    by (rule walks_map [OF walks_ref(2), where g = "\<lambda>r. TrDocument r rest"]) simp_all
qed (simp add: walks_ret)

lemma walks_tool_result: "walks X (tool_result X c) tool_leaves (same blank_tool c) c"
proof (cases c)
  case (TrcText t)
  show ?thesis unfolding TrcText tool_result.simps by (rule walks_map [OF walks_str]) simp_all
next
  case (TrcBlocks bs)
  show ?thesis unfolding TrcBlocks tool_result.simps
    by (rule walks_map [OF walks_each [OF walks_tool_part]]) simp_all
qed (simp add: walks_ret)

lemma walks_block: "walks X (walk_block X role b) (block_leaves role) (same blank_block b) b"
proof (cases b)
  case (BText t r)
  show ?thesis unfolding BText walk_block.simps
    by (rule walks_map [OF walks_str, where g = "\<lambda>t. BText t r"]) simp_all
next
  case (BToolUse input r)
  show ?thesis unfolding BToolUse walk_block.simps walk_value_def
    by (rule walks_map [OF walks_value_except(1), where g = "\<lambda>i. BToolUse i r"]) simp_all
next
  case (BToolResult c r)
  show ?thesis unfolding BToolResult walk_block.simps
    by (rule walks_map [OF walks_tool_result, where g = "\<lambda>c. BToolResult c r"]) simp_all
next
  case (BImage r)
  show ?thesis unfolding BImage walk_block.simps by (rule walks_map [OF walks_ref(1)]) simp_all
next
  case (BDocument s r)
  show ?thesis unfolding BDocument walk_block.simps
    by (rule walks_map [OF walks_ref(2), where g = "\<lambda>s. BDocument s r"]) simp_all
next
  case (BCompaction c r)
  show ?thesis unfolding BCompaction walk_block.simps
    by (rule walks_map [OF walks_str, where g = "\<lambda>c. BCompaction c r"]) simp_all
qed (simp_all add: walks_ret)

text \<open>A text paired with fields that are left alone.\<close>

lemma walks_texts:
  "walks X (each (\<lambda>(t, r). mapW (\<lambda>t. (t, r)) (walk_str X surface t)) ps)
     (\<lambda>ps. concat (map (\<lambda>(t, _). [(t, surface)]) ps)) (same (map blank_text) ps) ps"
proof (rule walks_each)
  fix p :: "string \<times> 'o"
  show "walks X (case p of (t, r) \<Rightarrow> mapW (\<lambda>t. (t, r)) (walk_str X surface t))
      (\<lambda>(t, _). [(t, surface)]) (same blank_text p) p"
    unfolding case_prod_unfold
    using walks_map [OF walks_str [of X surface "fst p"], where L' = "\<lambda>(t, _). [(t, surface)]"
        and g = "\<lambda>t. (t, snd p)" and Q' = "same blank_text p"]
    by (simp add: case_prod_unfold blank_text_def)
qed

lemma walks_system: "walks X (walk_system X sys) system_leaves (same blank_system sys) sys"
proof (cases sys)
  case (SysText t)
  show ?thesis unfolding SysText walk_system.simps by (rule walks_map [OF walks_str]) simp_all
next
  case (SysBlocks bs)
  show ?thesis unfolding SysBlocks walk_system.simps
    by (rule walks_map [OF walks_texts]) simp_all
qed (simp add: walks_ret)

lemma walks_message: "walks X (walk_message X msg) message_leaves (same blank_message msg) msg"
proof -
  have "walks X (walk_message X msg) message_leaves (same blank_message msg) (msg\<lparr>wm_content := wm_content msg\<rparr>)"
    unfolding walk_message_def
    by (rule walks_map [OF walks_each [OF walks_block], where g = "\<lambda>bs. msg\<lparr>wm_content := bs\<rparr>"])
      (simp_all add: message_leaves_def blank_message_def)
  then show ?thesis by simp
qed

lemma walks_metadata: "walks X (walk_metadata X meta) metadata_leaves (same blank_metadata meta) meta"
proof (cases meta)
  case (JObj kvs)
  define l where "l = (\<lambda>(k, v). if k = ''user_id'' then [] else leaves_except (\<lambda>k. False) UserMessage v)"
  define bl where "bl = (\<lambda>(k, v). (k, if k = ''user_id'' then v else blank_except (\<lambda>k. False) v))"
  have "walks X (case kv of (k, v) \<Rightarrow> if k = ''user_id'' then ret (k, v)
      else mapW (\<lambda>v. (k, v)) (walk_value X UserMessage v)) l (same bl kv) kv" for kv
  proof (cases "fst kv = ''user_id''")
    case True
    then show ?thesis by (cases kv) (simp add: walks_ret l_def)
  next
    case False
    then show ?thesis
      using walks_map [OF walks_value_except(1) [of X "\<lambda>k. False" UserMessage "snd kv"],
          where L' = l and g = "\<lambda>v. (fst kv, v)" and Q' = "same bl kv"]
      by (cases kv) (simp add: l_def bl_def walk_value_def)
  qed
  from walks_each [OF this] show ?thesis
    unfolding JObj walk_metadata_def json.case
    by (rule walks_map) (simp_all add: metadata_leaves_def l_def blank_metadata_def bl_def)
next
  case (JStr t)
  show ?thesis
    unfolding JStr walk_metadata_def json.case walk_value_def value_except.simps
    by (rule walks_map [OF walks_str]) (simp_all add: metadata_leaves_def blank_metadata_def)
next
  case (JArr vs)
  show ?thesis
    unfolding JArr walk_metadata_def json.case walk_value_def value_except.simps
    by (rule walks_map [OF walks_value_except(2)]) (simp_all add: metadata_leaves_def blank_metadata_def)
qed (simp_all add: walk_metadata_def walk_value_def walks_ret metadata_leaves_def blank_metadata_def)

lemma walks_request: "walks X (walk_request X req) request_leaves (same blank_request req) req"
proof -
  have pair: "andThen m (\<lambda>a. andThen n (k a)) = andThen (andThen m (\<lambda>a. mapW (Pair a) n)) (\<lambda>p. k (fst p) (snd p))"
    for m :: "'p walk" and n :: "'q walk" and k :: "'p \<Rightarrow> 'q \<Rightarrow> 'r walk"
    by (simp add: andThen_assoc andThen_mapW)
  let ?sys = "optional (walk_system X) (rq_system req)"
  let ?msgs = "each (walk_message X) (rq_messages req)"
  let ?tools = "optional (each (\<lambda>(d, r). mapW (\<lambda>d. (d, r)) (walk_str X SystemPrompt d))) (rq_tools req)"
  let ?meta = "optional (walk_metadata X) (rq_metadata req)"
  let ?ctx = "optional (context_management X) (rq_context_management req)"
  let ?P2 = "andThen ?sys (\<lambda>a. mapW (Pair a) ?msgs)"
  let ?P3 = "andThen ?P2 (\<lambda>a. mapW (Pair a) ?tools)"
  let ?P4 = "andThen ?P3 (\<lambda>a. mapW (Pair a) ?meta)"
  let ?fill = "\<lambda>p ctx. req\<lparr>rq_system := fst (fst (fst p)), rq_messages := snd (fst (fst p)),
      rq_tools := snd (fst p), rq_metadata := snd p, rq_context_management := ctx\<rparr>"
  let ?l2 = "\<lambda>p. opt_leaves system_leaves (fst p) @ concat (map message_leaves (snd p))"
  let ?l3 = "\<lambda>p. ?l2 (fst p) @ opt_leaves tools_leaves (snd p)"
  let ?l4 = "\<lambda>p. ?l3 (fst p) @ opt_leaves metadata_leaves (snd p)"
  let ?b2 = "map_prod (map_option blank_system) (map blank_message)"
  let ?b3 = "map_prod ?b2 (map_option (map blank_text))"
  let ?b4 = "map_prod ?b3 (map_option blank_metadata)"
  have tools: "walks X (each (\<lambda>(d, r). mapW (\<lambda>d. (d, r)) (walk_str X SystemPrompt d)) ts) tools_leaves (same (map blank_text) ts) ts"
    for ts :: "(string \<times> 'b) list"
    unfolding tools_leaves_def by (rule walks_texts)
  have ctx: "walks X (context_management X v)
      (leaves_except is_context_management_protocol_key SystemPrompt)
      (same (blank_except is_context_management_protocol_key) v) v" for v
    unfolding context_management_def value_skipping_protocol_keys_def by (rule walks_value_except)
  have p2: "walks X ?P2 ?l2 (same ?b2 (rq_system req, rq_messages req)) (rq_system req, rq_messages req)"
    by (rule walks_two [OF walks_optional [OF walks_system] walks_each [OF walks_message]]) simp_all
  have p3: "walks X ?P3 ?l3 (same ?b3 ((rq_system req, rq_messages req), rq_tools req)) ((rq_system req, rq_messages req), rq_tools req)"
    by (rule walks_two [OF p2 walks_optional [OF tools]]) simp_all
  have p4: "walks X ?P4 ?l4
      (same ?b4 (((rq_system req, rq_messages req), rq_tools req), rq_metadata req)) (((rq_system req, rq_messages req), rq_tools req), rq_metadata req)"
    by (rule walks_two [OF p3 walks_optional [OF walks_metadata]]) simp_all
  have "walks X (andThen ?P4 (\<lambda>p. mapW (?fill p) ?ctx)) request_leaves (same blank_request req)
      (?fill (((rq_system req, rq_messages req), rq_tools req), rq_metadata req) (rq_context_management req))"
    by (rule walks_two [OF p4 walks_optional [OF ctx]]) (auto simp: request_leaves_def blank_request_def prod_eq_iff)
  moreover have "walk_request X req = andThen ?P4 (\<lambda>p. mapW (?fill p) ?ctx)"
    unfolding walk_request_def mapW_def by (simp add: pair [symmetric] andThen_assoc fun_eq_iff)
  ultimately show ?thesis by simp
qed

text \<open>
  The traversal of an object keeps its \<open>type\<close> member, so that the leaves of the result are again
  those of a base64 source or of an ordinary object.
\<close>

definition same_type :: "(string \<times> json) list \<Rightarrow> (string \<times> json) list \<Rightarrow> bool" where
  "same_type kvs kvs' \<longleftrightarrow> map_of kvs' ''type'' = map_of kvs ''type''"

lemma walks_collect:
  "walks X F L Q x \<Longrightarrow> mw_collect w = Some acc \<Longrightarrow>
   F w = (Inr x, w\<lparr>mw_collect := Some (acc @ L x)\<rparr>)"
  unfolding walks_def by blast

lemma walks_ret_leaves: "walks X (ret v) l Q v \<Longrightarrow> l v = []"
proof -
  define w where "w = (walker undefined)\<lparr>mw_collect := Some []\<rparr>"
  have w: "mw_collect w = Some []" by (simp add: w_def)
  assume "walks X (ret v) l Q v"
  from walks_collect [OF this w] have "mw_collect (snd (ret v w)) = Some (l v)" by simp
  then show ?thesis using w by (simp add: ret_def)
qed

lemma walks_member:
  assumes "walks X m l any v" and "walks X n L Q kvs"
    and "\<And>v' kvs'. Q kvs' \<Longrightarrow> L' ((k, v') # kvs') = l v' @ L kvs'"
    and "L' ((k, v) # kvs) = l v @ L kvs"
    and "\<And>v' kvs'. Q kvs' \<Longrightarrow> (m = ret v \<Longrightarrow> v' = v) \<Longrightarrow> Q' ((k, v') # kvs')"
  shows "walks X (andThen m (\<lambda>v'. mapW (\<lambda>kvs'. (k, v') # kvs') n)) L' Q' ((k, v) # kvs)"
proof (cases "m = ret v")
  case True
  with assms(1) have "l v = []" using walks_ret_leaves by metis
  then have "walks X m l (\<lambda>v'. v' = v) v" unfolding True by (rule walks_ret) simp
  then show ?thesis
    by (rule walks_two [OF _ assms(2), where c = "\<lambda>v kvs. (k, v) # kvs"])
      (use assms(3-5) in auto)
next
  case False
  then show ?thesis
    by (intro walks_two [OF assms(1,2), where c = "\<lambda>v kvs. (k, v) # kvs"])
      (use assms(3-5) in auto)
qed

lemma walks_leaves:
  assumes "walks X F L Q x" and "\<And>y. Q y \<Longrightarrow> L' y = L y" and "L' x = L x"
  shows "walks X F L' any x"
  using walks_map [OF assms(1), where g = "\<lambda>y. y" and L' = L' and Q' = any] assms(2,3) by simp

lemma walks_context: "walks X (context_management X v)
    (leaves_except is_context_management_protocol_key SystemPrompt) any v"
  unfolding context_management_def value_skipping_protocol_keys_def
  by (rule walks_leaves [OF walks_value_except(1)]) simp_all

lemma type_preserved: "preserves_contract_key ''type''" "''type'' \<noteq> ''context_management''" "''type'' \<noteq> ''tools''"
  by (simp_all add: preserves_contract_key_def)

text \<open>The walk of one member, by its key.\<close>

definition member_walk :: "'x ext_scheme \<Rightarrow> bool \<Rightarrow> surface \<Rightarrow> string \<Rightarrow> json \<Rightarrow> json walk" where
  "member_walk X b64 surface k v =
     (if b64 \<and> k = ''data'' then ret v
      else if k = ''context_management'' then context_management X v
      else if k = ''tools'' then tools_value_safe X v
      else if preserves_contract_key k then ret v
      else value_safe X surface v)"

definition member_leaves :: "bool \<Rightarrow> surface \<Rightarrow> string \<Rightarrow> json \<Rightarrow> leaves" where
  "member_leaves b64 surface k v =
     (if b64 \<and> k = ''data'' then []
      else if k = ''context_management''
        then leaves_except is_context_management_protocol_key SystemPrompt v
      else if k = ''tools'' then tools_safe_leaves v
      else if preserves_contract_key k then []
      else safe_leaves surface v)"

lemma member_walk_type: "k = ''type'' \<Longrightarrow> member_walk X b64 surface k v = ret v"
  by (simp add: member_walk_def preserves_contract_key_def)

text \<open>A result is an array or an object when the value was.\<close>

fun is_array :: "json \<Rightarrow> bool" where
  "is_array (JArr vs) = True"
| "is_array v = False"

fun is_object :: "json \<Rightarrow> bool" where
  "is_object (JObj kvs) = True"
| "is_object v = False"

definition same_kind :: "json \<Rightarrow> json \<Rightarrow> bool" where
  "same_kind v v' \<longleftrightarrow> is_array v' = is_array v \<and> is_object v' = is_object v"

lemma walks_member_walk:
  assumes "\<not> (b64 \<and> k = ''data'') \<Longrightarrow> k \<noteq> ''context_management'' \<Longrightarrow> k = ''tools'' \<Longrightarrow>
      walks X (tools_value_safe X v) tools_safe_leaves any v"
    and "\<not> (b64 \<and> k = ''data'') \<Longrightarrow> k \<noteq> ''context_management'' \<Longrightarrow> k \<noteq> ''tools'' \<Longrightarrow>
      \<not> preserves_contract_key k \<Longrightarrow>
      walks X (value_safe X surface v) (safe_leaves surface) (same_kind v) v"
  shows "walks X (member_walk X b64 surface k v) (member_leaves b64 surface k) any v"
proof -
  consider "b64 \<and> k = ''data''" | "\<not> (b64 \<and> k = ''data'')" "k = ''context_management''"
    | "\<not> (b64 \<and> k = ''data'')" "k \<noteq> ''context_management''" "k = ''tools''"
    | "\<not> (b64 \<and> k = ''data'')" "k \<noteq> ''context_management''" "k \<noteq> ''tools''" "preserves_contract_key k"
    | "\<not> (b64 \<and> k = ''data'')" "k \<noteq> ''context_management''" "k \<noteq> ''tools''" "\<not> preserves_contract_key k"
    by blast
  then show ?thesis
  proof cases
    case 1
    then have "member_walk X b64 surface k v = ret v" "member_leaves b64 surface k = (\<lambda>v. [])"
      by (simp_all add: member_walk_def member_leaves_def fun_eq_iff)
    then show ?thesis by (simp add: walks_ret)
  next
    case 2
    then have "member_walk X b64 surface k v = context_management X v"
      "member_leaves b64 surface k = leaves_except is_context_management_protocol_key SystemPrompt"
      by (simp_all add: member_walk_def member_leaves_def fun_eq_iff)
    then show ?thesis by (simp add: walks_context)
  next
    case 3
    then have "member_walk X b64 surface k v = tools_value_safe X v"
      "member_leaves b64 surface k = tools_safe_leaves"
      by (simp_all add: member_walk_def member_leaves_def fun_eq_iff)
    then show ?thesis using assms(1) [OF 3] by simp
  next
    case 4
    then have "member_walk X b64 surface k v = ret v" "member_leaves b64 surface k = (\<lambda>v. [])"
      by (simp_all only: member_walk_def member_leaves_def fun_eq_iff if_False if_True simp_thms)
    then show ?thesis by (simp add: walks_ret)
  next
    case 5
    then have "member_walk X b64 surface k v = value_safe X surface v"
      "member_leaves b64 surface k = safe_leaves surface"
      by (simp_all only: member_walk_def member_leaves_def fun_eq_iff if_False simp_thms)
    then show ?thesis using walks_leaves [OF assms(2) [OF 5]] by simp
  qed
qed

text \<open>The same for a member of a tool.\<close>

definition tool_kept :: "string \<Rightarrow> bool" where
  "tool_kept k \<longleftrightarrow> k \<noteq> ''description'' \<and>
     (k \<in> set [''input_schema'', ''cache_control'', ''name'', ''type''] \<or> preserves_contract_key k)"

lemma tool_member_split:
  "(if k = ''description'' then a else if k \<in> set [''input_schema'', ''cache_control'', ''name'', ''type'']
    then b else if preserves_contract_key k then b else a) = (if tool_kept k then b else a)"
  by (simp add: tool_kept_def del: set_simps)

lemma tools_leaves_value: "\<not> is_array v \<Longrightarrow> tools_safe_leaves v = safe_leaves SystemPrompt v"
  by (cases v) simp_all

lemma tool_leaves_value: "\<not> is_object v \<Longrightarrow> tool_safe_leaves v = safe_leaves SystemPrompt v"
  by (cases v) simp_all

lemma walks_value_safe_as:
  assumes "walks X (value_safe X SystemPrompt v) (safe_leaves SystemPrompt) (same_kind v) v"
  shows "\<not> is_array v \<Longrightarrow> walks X (value_safe X SystemPrompt v) tools_safe_leaves any v"
    and "\<not> is_object v \<Longrightarrow> walks X (value_safe X SystemPrompt v) tool_safe_leaves any v"
  by (rule walks_leaves [OF assms]; simp add: tools_leaves_value tool_leaves_value same_kind_def)+

lemmas value_safe_induct =
  value_safe_items_safe_members_safe_tools_value_safe_tool_items_tool_value_safe_tool_members.induct
  [case_names Str Arr Obj Null Bool Num ItemsNil ItemsCons MembersNil MembersCons ToolsArr ToolsNull ToolsBool ToolsNum ToolsStr ToolsObj
   ToolItemsNil ToolItemsCons ToolObj ToolNull ToolBool ToolNum ToolStr ToolArr ToolMembersNil ToolMembersCons]

lemma walks_value_safe:
  "walks X (value_safe X surface v) (safe_leaves surface) (same_kind v) v"
  "walks X (items_safe X surface vs) (item_safe_leaves surface) any vs"
  "walks X (members_safe X b64 surface kvs) (member_safe_leaves b64 surface) (same_type kvs) kvs"
  "walks X (tools_value_safe X v) tools_safe_leaves any v"
  "walks X (tool_items X vs) tool_item_leaves any vs"
  "walks X (tool_value_safe X v) tool_safe_leaves any v"
  "walks X (tool_members X kvs) tool_member_leaves any kvs"
proof (induction X surface v and X surface vs and X b64 surface kvs and X v and X vs and X v and X kvs
    rule: value_safe_induct)
  case (Str X surface t)
  show ?case unfolding value_safe.simps by (rule walks_map [OF walks_str]) (simp_all add: same_kind_def)
next
  case (Arr X surface vs)
  then show ?case unfolding value_safe.simps by (rule walks_map) (simp_all add: same_kind_def)
next
  case (Obj X surface kvs)
  then show ?case
    unfolding value_safe.simps
    by (rule walks_map) (simp_all add: same_type_def is_base64_object_def same_kind_def)
next
  case (MembersNil X b64 surface)
  show ?case unfolding members_safe.simps by (rule walks_ret) (simp_all add: same_type_def)
next
  case (ItemsCons X surface v vs)
  show ?case unfolding items_safe.simps by (rule walks_two [OF ItemsCons]) simp_all
next
  case (MembersCons X b64 surface k v kvs)
  have "walks X (member_walk X b64 surface k v) (member_leaves b64 surface k) any v"
    by (rule walks_member_walk [OF MembersCons(1,2)])
  then have "walks X (andThen (member_walk X b64 surface k v)
      (\<lambda>v'. mapW (\<lambda>kvs'. (k, v') # kvs') (members_safe X b64 surface kvs)))
    (member_safe_leaves b64 surface) (same_type ((k, v) # kvs)) ((k, v) # kvs)"
    by (rule walks_member [OF _ MembersCons(3)])
      (auto simp: member_leaves_def same_type_def member_walk_type)
  then show ?case by (simp only: member_walk_def members_safe.simps)
next
  case (ToolsArr X vs)
  then show ?case unfolding tools_value_safe.simps by (rule walks_map) simp_all
next
  case (ToolItemsCons X v vs)
  show ?case unfolding tool_items.simps by (rule walks_two [OF ToolItemsCons]) simp_all
next
  case (ToolObj X kvs)
  then show ?case unfolding tool_value_safe.simps by (rule walks_map) simp_all
next
  case (ToolMembersCons X k v kvs)
  show ?case
  proof (cases "tool_kept k")
    case True
    show ?thesis
      unfolding tool_members.simps tool_member_split if_P [OF True]
      by (rule walks_two [OF walks_ret [of "\<lambda>_. []" v any] ToolMembersCons(3), where c = "\<lambda>v kvs. (k, v) # kvs"])
        (simp_all only: tool_member_leaves.simps tool_member_split if_P [OF True] simp_thms)
  next
    case False
    have "walks X (value_safe X SystemPrompt v) (safe_leaves SystemPrompt) (same_kind v) v"
      using ToolMembersCons(1,2) False by (cases "k = ''description''") (auto simp: tool_kept_def)
    then show ?thesis
      unfolding tool_members.simps tool_member_split if_not_P [OF False]
      by (rule walks_two [OF _ ToolMembersCons(3), where c = "\<lambda>v kvs. (k, v) # kvs"])
        (simp_all only: tool_member_leaves.simps tool_member_split if_not_P [OF False] simp_thms)
  qed
next
  case (ToolsNull X)
  show ?case by (simp add: walks_ret)
next
  case (ToolsBool X b)
  show ?case by (simp add: walks_ret)
next
  case (ToolsNum X n)
  show ?case by (simp add: walks_ret)
next
  case (ToolsStr X t)
  show ?case unfolding tools_value_safe.simps by (rule walks_value_safe_as(1) [OF ToolsStr]) simp
next
  case (ToolsObj X kvs)
  show ?case unfolding tools_value_safe.simps by (rule walks_value_safe_as(1) [OF ToolsObj]) simp
next
  case (ToolStr X t)
  show ?case unfolding tool_value_safe.simps by (rule walks_value_safe_as(2) [OF ToolStr]) simp
next
  case (ToolArr X vs)
  show ?case unfolding tool_value_safe.simps by (rule walks_value_safe_as(2) [OF ToolArr]) simp
qed (simp_all add: walks_ret same_kind_def)

end
