(* ===== verification/RequestMask.thy ===== *)
theory RequestMask
  imports WalkCorrect
begin

text \<open>
  What \<open>mask_request\<close> promises: the body that leaves the proxy is the request with every leaf
  masked in order and nothing else changed, and with the refinement of Session it is the body a
  proxy without cache and prewarm would send.  An error on any leaf means that there is no body.
\<close>

section \<open>Requests without cache and prewarm\<close>

fun spec_all ::
  "'x ext_scheme \<Rightarrow> mask_engine \<Rightarrow> leaves \<Rightarrow> session_store \<Rightarrow>
   (string list \<times> unmask_manifest) result \<times> session_store" where
  "spec_all X e [] s = (Inr ([], []), s)"
| "spec_all X e ((t, surface) # ls) s =
     (case spec_mask X e t surface s of
        (Inl err, s1) \<Rightarrow> (Inl err, s1)
      | (Inr (u, m), s1) \<Rightarrow>
          (case spec_all X e ls s1 of
             (Inl err, s2) \<Rightarrow> (Inl err, s2)
           | (Inr (us, ms), s2) \<Rightarrow> (Inr (u # us, m @ ms), s2)))"

definition spec_body ::
  "'x ext_scheme \<Rightarrow> mask_engine \<Rightarrow> leaves \<Rightarrow> (string list \<Rightarrow> 'j + string) \<Rightarrow> session_store \<Rightarrow>
   ('j mask_error + string \<times> unmask_manifest) \<times> session_store" where
  "spec_body X e ls print s =
     (case spec_all X e ls s of
        (Inl err, s') \<Rightarrow> (Inl (MaskEngineError err), s')
      | (Inr (us, m), s') \<Rightarrow>
          (case print us of Inl j \<Rightarrow> (Inl (MaskJson j), s') | Inr bytes \<Rightarrow> (Inr (bytes, m), s')))"

text \<open>One leaf of the walker, seen through the simulation.\<close>

lemma walk_str_sim:
  assumes "keys_determine X W" and "sim X W e0 (mw_engine w) s" and "queries_of e0 (t, surface) \<subseteq> W"
    and "mw_collect w = None" and "walk_str X surface t w = (r, w')"
  shows "(case spec_mask X e0 t surface s of
      (Inl err, s') \<Rightarrow> r = Inl err \<and> sim X W e0 (mw_engine w') s'
    | (Inr (u, m), s') \<Rightarrow> r = Inr u \<and> mw_manifest w' = mw_manifest w @ m \<and>
        sim X W e0 (mw_engine w') s')"
proof -
  obtain x e where m: "mask X t surface (mw_engine w) = (x, e)" by fastforce
  obtain y s' where y: "spec_mask X e0 t surface s = (y, s')" by fastforce
  have "out_view x = y \<and> sim X W e0 e s'" using mask_sim [OF assms(1-3)] m y by simp
  with assms(4,5) m y show ?thesis
    by (cases x) (auto simp: walk_str_def out_view_def manifest_merge_def split: prod.splits)
qed

lemma mask_all_sim:
  assumes "keys_determine X W"
  shows "sim X W e0 (mw_engine w) s \<Longrightarrow> \<forall>leaf\<in>set ls. queries_of e0 leaf \<subseteq> W \<Longrightarrow>
    mw_collect w = None \<Longrightarrow> mask_all X ls w = (r, w') \<Longrightarrow>
    (case spec_all X e0 ls s of
       (Inl err, s') \<Rightarrow> r = Inl err \<and> sim X W e0 (mw_engine w') s'
     | (Inr (us, m), s') \<Rightarrow> r = Inr us \<and> mw_manifest w' = mw_manifest w @ m \<and>
         sim X W e0 (mw_engine w') s')"
proof (induction ls arbitrary: w s r w')
  case Nil
  then show ?case by (simp add: ret_def)
next
  case (Cons leaf ls)
  obtain t surface where l: "leaf = (t, surface)" by fastforce
  obtain r1 w1 where s1: "walk_str X surface t w = (r1, w1)" by fastforce
  obtain r2 w2 where s2: "mask_all X ls w1 = (r2, w2)" by fastforce
  have mode: "mw_collect w1 = None" using walk_str_mode [OF Cons.prems(3)] s1 by (metis snd_conv)
  have head: "queries_of e0 (t, surface) \<subseteq> W" using Cons.prems(2) l by simp
  note 1 = walk_str_sim [OF assms Cons.prems(1) head Cons.prems(3) s1]
  note 2 = Cons.IH [OF _ _ mode s2]
  have whole: "(r, w') = (case r1 of Inl err \<Rightarrow> (Inl err, w1)
      | Inr u \<Rightarrow> (case r2 of Inl err \<Rightarrow> (Inl err, w2) | Inr us \<Rightarrow> (Inr (u # us), w2)))"
    using Cons.prems(4) unfolding l
    by (auto simp: andThen_def mapW_def ret_def s1 s2 split: sum.splits)
  obtain y s' where y: "spec_mask X e0 t surface s = (y, s')" by fastforce
  show ?case
  proof (cases y)
    case (Inl err)
    then show ?thesis using 1 whole by (simp add: l y)
  next
    case (Inr p)
    obtain u m where p: "p = (u, m)" by fastforce
    from 1 have u: "r1 = Inr u" "mw_manifest w1 = mw_manifest w @ m" "sim X W e0 (mw_engine w1) s'"
      by (simp_all add: y Inr p)
    with 2 [of s'] Cons.prems(2) whole show ?thesis
      by (auto simp: l y Inr p split: prod.splits sum.splits)
  qed
qed

section \<open>The bodies\<close>

text \<open>A traversal run by \<open>finish_mask\<close>.\<close>

lemma finish_mask_walk:
  "finish_mask print (mapW fill (mask_all X ls) w) =
   finish_mask (\<lambda>us. print (fill us)) (mask_all X ls w)"
  by (auto simp: finish_mask_def mapW_def andThen_def ret_def split: prod.splits sum.splits)

lemma finish_mask_sim:
  assumes "keys_determine X W" and "sim X W e0 e s" and "\<forall>leaf\<in>set ls. queries_of e0 leaf \<subseteq> W"
  shows "fst (finish_mask print (mask_all X ls (walker e))) = fst (spec_body X e0 ls print s) \<and>
    en_store (snd (finish_mask print (mask_all X ls (walker e)))) = snd (spec_body X e0 ls print s)"
proof -
  obtain r w' where m: "mask_all X ls (walker e) = (r, w')" by fastforce
  have "sim X W e0 (mw_engine (walker e)) s" "mw_collect (walker e) = None"
    "mw_manifest (walker e) = []"
    using assms(2) by (simp_all add: walker_def manifest_new_def)
  from mask_all_sim [OF assms(1) this(1) assms(3) this(2) m] this(3) show ?thesis
    by (auto simp: m spec_body_def finish_mask_def sim_def split: prod.splits sum.splits)
qed

lemma collect_request:
  "walk_request X req ((walker e)\<lparr>mw_collect := Some []\<rparr>) =
     (Inr req, (walker e)\<lparr>mw_collect := Some (request_leaves req)\<rparr>)"
  by (simp add: walks_collect [OF walks_request, where acc = "[]"])

lemma prewarm_request_sim:
  assumes "keys_determine X W" and "recognizer_ok (en_ml e0)" and "sim X W e0 e s"
    and "\<forall>leaf\<in>set (request_leaves req). queries_of e0 leaf \<subseteq> W"
  shows "sim X W e0 (prewarm_request X req e) s"
  using prewarm_sim [OF assms] assms(3)
  by (simp add: prewarm_request_def collect_request) (simp add: walker_def)

definition request_queries :: "mask_engine \<Rightarrow> leaves \<Rightarrow> query set" where
  "request_queries e ls = (\<Union>leaf\<in>set ls. queries_of e leaf)"

lemma sim_start:
  "en_cache e = cache_new n \<Longrightarrow> sim X W e e (en_store e)"
  by (simp add: sim_def dcache.coherent_def cache_new_wf) (simp add: cache_view_def cache_new_def)

text \<open>
  The two passes of a request walk.  Collecting returns the request unchanged with the list
  of its leaves; masking masks exactly those leaves in that order and puts the results into a
  request that differs from the original in its leaves only, whose leaves are the results, and
  that is the original when no leaf changes.  The leaves are those of the system prompt, the
  messages, the tool descriptions, the metadata without \<open>user_id\<close> and the context management
  without protocol keys; thinking blocks, tool names, ids and signatures are not among them.
\<close>

lemma walk_request_traverses:
  "walk_request X req ((walker e)\<lparr>mw_collect := Some []\<rparr>) =
     (Inr req, (walker e)\<lparr>mw_collect := Some (request_leaves req)\<rparr>) \<and>
   (\<exists>fill. fills request_leaves (\<lambda>r. blank_request r = blank_request req) req fill \<and>
      walk_request X req (walker e) = mapW fill (mask_all X (request_leaves req)) (walker e))"
  using walks_request [of X req] unfolding walks_def collect_request
  by (auto simp: walker_def)

text \<open>
  C5: the request masker against its specification.  From an empty cache of any capacity, the
  masked body, the manifest, the error and the session store after \<open>mask_request\<close> are those of
  masking the leaves of the request one after the other with detection run afresh on each, and
  printing the request with its leaves replaced, when the text hash
  does not collide on the texts of the request: neither the prewarm pass, whose leaves are the
  collected ones, nor the detection cache can be seen.
\<close>

theorem mask_request_refines:
  assumes "w_parse_request wr body = Inr req"
    and "inj_on (hash_text X) (query_text ` request_queries e (request_leaves req))"
    and "recognizer_ok (en_ml e)" and "en_cache e = cache_new n"
  shows "\<exists>fill. fills request_leaves (\<lambda>r. blank_request r = blank_request req) req fill \<and>
    fst (mask_request X wr body e) =
      fst (spec_body X e (request_leaves req) (\<lambda>us. w_print_request wr (fill us)) (en_store e)) \<and>
    en_store (snd (mask_request X wr body e)) =
      snd (spec_body X e (request_leaves req) (\<lambda>us. w_print_request wr (fill us)) (en_store e))"
proof -
  let ?W = "request_queries e (request_leaves req)"
  have sub: "\<forall>leaf\<in>set (request_leaves req). queries_of e leaf \<subseteq> ?W"
    by (auto simp: request_queries_def)
  have keys: "keys_determine X ?W"
    by (rule keys_determine_texts [OF assms(2), of "env_of e"])
      (auto simp: request_queries_def queries_of_def)
  have pre: "sim X ?W e (prewarm_request X req e) (en_store e)"
    by (rule prewarm_request_sim [OF keys assms(3) sim_start [OF assms(4)] sub])
  obtain fill where f: "fills request_leaves (\<lambda>r. blank_request r = blank_request req) req fill"
    and w: "\<And>w. mw_collect w = None \<Longrightarrow>
      walk_request X req w = mapW fill (mask_all X (request_leaves req)) w"
    using walks_request [of X req] unfolding walks_def by blast
  have "mask_request X wr body e = finish_mask (\<lambda>us. w_print_request wr (fill us))
      (mask_all X (request_leaves req) (walker (prewarm_request X req e)))"
    by (simp add: mask_request_def assms(1) w walker_def finish_mask_walk)
  with f finish_mask_sim [OF keys pre sub] show ?thesis by auto
qed

text \<open>A request with one tool result, and a wire format that prints its leaves.\<close>

definition sample_request :: "unit api_request" where
  "sample_request =
     \<lparr>rq_system = None,
      rq_messages = [\<lparr>wm_role = ''user'', wm_content = [BThinking (), BToolResult (TrcText ''hi bob'') ()],
                      wm_rest = ()\<rparr>],
      rq_tools = None, rq_metadata = Some (JObj [(''user_id'', JStr ''u1'')]),
      rq_context_management = None, rq_rest = ()\<rparr>"

definition sample_wire :: "(unit, unit) wire" where
  "sample_wire =
     \<lparr>w_parse_request = (\<lambda>body. if body = ''{}'' then Inr sample_request else Inl ()),
      w_print_request = (\<lambda>req. Inr (concat (map fst (request_leaves req)))),
      w_parse_value = (\<lambda>body. Inr (JStr body)), w_print_value = (\<lambda>v. Inr (concat (json_leaves v))),
      w_parse_response = (\<lambda>body. Inl ()), w_print_response = (\<lambda>resp. Inl ())\<rparr>"

lemma sample_request_leaves: "request_leaves sample_request = [(''hi bob'', ToolResult)]"
  by (simp add: sample_request_def request_leaves_def message_leaves_def metadata_leaves_def)

theorem mask_request_refines_witness:
  "\<exists>fill. fills request_leaves (\<lambda>r. blank_request r = blank_request sample_request) sample_request fill \<and>
    fst (mask_request sample_ext sample_wire ''{}'' sample_engine) =
      fst (spec_body sample_ext sample_engine (request_leaves sample_request)
        (\<lambda>us. w_print_request sample_wire (fill us)) (en_store sample_engine)) \<and>
    en_store (snd (mask_request sample_ext sample_wire ''{}'' sample_engine)) =
      snd (spec_body sample_ext sample_engine (request_leaves sample_request)
        (\<lambda>us. w_print_request sample_wire (fill us)) (en_store sample_engine))"
proof (rule mask_request_refines [where n = 8])
  show "w_parse_request sample_wire ''{}'' = Inr sample_request" by (simp add: sample_wire_def)
  show "inj_on (hash_text sample_ext)
      (query_text ` request_queries sample_engine (request_leaves sample_request))"
    by (simp add: request_queries_def sample_request_leaves queries_of_def
        mask_texts_def)
  show "recognizer_ok (en_ml sample_engine)"
    by (simp add: recognizer_ok_def sample_engine_def ml_for_mask_def ml_default_def refresh_fp_def)
  show "en_cache sample_engine = cache_new 8" by (simp add: sample_engine_def)
qed

text \<open>The leaves masked one after the other on an engine, with neither walker nor request.\<close>

fun mask_each ::
  "'x ext_scheme \<Rightarrow> leaves \<Rightarrow> mask_engine \<Rightarrow> (string list \<times> unmask_manifest) result \<times> mask_engine" where
  "mask_each X [] e = (Inr ([], []), e)"
| "mask_each X ((t, surface) # ls) e =
     (case mask X t surface e of
        (Inl err, e1) \<Rightarrow> (Inl err, e1)
      | (Inr outcome, e1) \<Rightarrow>
          (case mask_each X ls e1 of
             (Inl err, e2) \<Rightarrow> (Inl err, e2)
           | (Inr (us, m), e2) \<Rightarrow> (Inr (mo_masked_text outcome # us, mo_manifest outcome @ m), e2)))"

lemma mask_all_each:
  assumes "mw_collect w = None" and "mask_all X ls w = (Inr us, w')"
  shows "\<exists>m. mask_each X ls (mw_engine w) = (Inr (us, m), mw_engine w') \<and>
    mw_manifest w' = mw_manifest w @ m"
  using assms
proof (induction ls arbitrary: w us)
  case Nil
  then show ?case by (simp add: ret_def)
next
  case (Cons leaf ls)
  obtain t surface where l: "leaf = (t, surface)" by fastforce
  obtain u w1 vs where s: "walk_str X surface t w = (Inr u, w1)" "mask_all X ls w1 = (Inr vs, w')"
    and us: "us = u # vs"
    using Cons.prems(2) unfolding l
    by (auto simp: andThen_def mapW_def ret_def split: prod.splits sum.splits)
  have "mw_collect w1 = None" using walk_str_mode [OF Cons.prems(1)] s(1) by (metis snd_conv)
  from Cons.IH [OF this s(2)] show ?case
    using s(1) Cons.prems(1)
    by (auto simp: l us walk_str_def manifest_merge_def split: prod.splits sum.splits)
qed

lemma finish_mask_each:
  assumes "finish_mask print (mask_all X ls (walker e)) = (Inr (bytes, m), e')"
  shows "\<exists>us. mask_each X ls e = (Inr (us, m), e') \<and> print us = Inr bytes \<and> length us = length ls"
proof -
  obtain us w' where w: "mask_all X ls (walker e) = (Inr us, w')"
    and p: "print us = Inr bytes" "m = mw_manifest w'" "e' = mw_engine w'"
    using assms by (auto simp: finish_mask_def split: prod.splits sum.splits)
  have "mw_collect (walker e) = None" "mw_manifest (walker e) = []" "mw_engine (walker e) = e"
    by (simp_all add: walker_def manifest_new_def)
  then show ?thesis
    using mask_all_each [OF _ w] mask_all_mode [OF _ w] p by auto
qed

text \<open>
  C6: nothing is sent unless every leaf was masked.  When \<open>mask_request\<close> returns a body, a
  manifest and an engine, either the body parsed as a request, masking its leaves one after the
  other on the prewarmed engine succeeded on each with this manifest and this engine, and the
  printed request differs from the parsed one in its leaves only, which are those results in order;
  or the body only parsed as a JSON value and the same holds for the leaves of the shape-agnostic
  walk, on the engine as it was.
\<close>

theorem mask_request_all_or_nothing:
  assumes "mask_request X wr body e = (Inr (bytes, m), e')"
  shows "(\<exists>req req' us. w_parse_request wr body = Inr req \<and>
      mask_each X (request_leaves req) (prewarm_request X req e) = (Inr (us, m), e') \<and>
      request_leaves req' = zip us (map snd (request_leaves req)) \<and>
      blank_request req' = blank_request req \<and> w_print_request wr req' = Inr bytes) \<or>
    (\<exists>j v v' us. w_parse_request wr body = Inl j \<and> w_parse_value wr body = Inr v \<and>
      mask_each X (safe_leaves UserMessage v) e = (Inr (us, m), e') \<and>
      safe_leaves UserMessage v' = zip us (map snd (safe_leaves UserMessage v)) \<and>
      same_kind v v' \<and> w_print_value wr v' = Inr bytes)"
proof (cases "w_parse_request wr body")
  case (Inr req)
  let ?e = "prewarm_request X req e"
  obtain fill where f: "fills request_leaves (\<lambda>r. blank_request r = blank_request req) req fill"
    and w: "walk_request X req (walker ?e) = mapW fill (mask_all X (request_leaves req)) (walker ?e)"
    using walks_request [of X req] unfolding walks_def by (auto simp: walker_def)
  have "finish_mask (\<lambda>us. w_print_request wr (fill us)) (mask_all X (request_leaves req) (walker ?e)) =
      (Inr (bytes, m), e')"
    using assms by (simp add: mask_request_def Inr w finish_mask_walk)
  from finish_mask_each [OF this] f show ?thesis unfolding Inr fills_def by blast
next
  case (Inl j)
  then obtain v where v: "w_parse_value wr body = Inr v"
    using assms by (auto simp: mask_request_def split: sum.splits)
  obtain fill where f: "fills (safe_leaves UserMessage) (same_kind v) v fill"
    and w: "value_safe X UserMessage v (walker e) =
      mapW fill (mask_all X (safe_leaves UserMessage v)) (walker e)"
    using walks_value_safe(1) [of X UserMessage v] unfolding walks_def by (auto simp: walker_def)
  have "finish_mask (\<lambda>us. w_print_value wr (fill us)) (mask_all X (safe_leaves UserMessage v) (walker e)) =
      (Inr (bytes, m), e')"
    using assms by (simp add: mask_request_def Inl v w finish_mask_walk)
  from finish_mask_each [OF this] f v show ?thesis unfolding Inl fills_def by blast
qed

text \<open>An engine that masks persons, and what it makes of a leaf with one.\<close>

definition person_engine :: mask_engine where
  "person_engine = sample_engine\<lparr>en_policy :=
     \<lparr>po_config = sample_config\<lparr>ec_entity_operators := [(''PERSON'', OpToken)]\<rparr>, po_customs = [],
      po_policy_fp = []\<rparr>\<rparr>"

abbreviation "person_config \<equiv> sample_config\<lparr>ec_entity_operators := [(''PERSON'', OpToken)]\<rparr>"

abbreviation "bob_det \<equiv> sample_det 3 6 SrcRegex\<lparr>cd_score := 1063675494\<rparr>"

abbreviation "bob_token \<equiv> ''[PERSON_626f623a4e4f]''"

lemma bob_token: "make_token sample_ext ''PERSON'' ''bob'' ''s'' = bob_token"
  by code_simp

lemma bob_ingested:
  "ingest_one sample_ext person_config ''hi bob'' SrcRegex
    \<lparr>rr_start = 3, rr_end = 6, rr_entity = ''PERSON'', rr_score = 1063675494, rr_pattern_name = None\<rparr>
    ([], []) = ([bob_det], [])"
proof -
  have "\<not> f32_lt 1063675494 (ec_score_threshold person_config)"
    by (simp add: f32_lt_def f32_nan_def f32_key_def sample_config_def default_config_def)
  moreover have "entity_enabled person_config ''PERSON''" by (simp add: entity_enabled_def)
  moreover have "str_slice 3 6 ''hi bob'' = Some ''bob''" by code_simp
  moreover have "\<not> is_allowed sample_ext (ec_allow_list person_config) ''bob''"
    by (simp add: is_allowed_def sample_config_def default_config_def al_with_common_words_def
        al_add_exact_def al_add_exact_ci_def al_empty_def sample_ext_def ascii_lower_def)
  ultimately show ?thesis by (simp add: ingest_one_def sample_det_def) (simp add: sample_ext_def)
qed

lemma bob_detected:
  "run_detection sample_ext person_config [] [] None ''hi bob'' ToolResult = Inr [bob_det]"
proof -
  have "str_find ''bob'' ''hi bob'' = Some 3" by code_simp
  then have "x_analyze sample_ext ''hi bob'' l a f = [\<lparr>rr_start = 3, rr_end = 6,
      rr_entity = ''PERSON'', rr_score = 1063675494, rr_pattern_name = None\<rparr>]" for l a f
    by (simp add: sample_ext_def sample_analyze_def)
  then show ?thesis
    by (simp add: run_detection_def detect_base_def ingest_results_def bob_ingested finish_def
        resolve_overlaps_def keep_best_def sort_by_def)
qed

lemma bob_applied:
  "\<exists>s m. apply_dets sample_ext ''hi bob'' ToolResult person_config [bob_det] sample_store =
     (Inr (''hi '' @ bob_token, m), s)"
proof -
  have al: "aligned ''hi bob'' bob_det"
    by (simp add: aligned_def sample_det_def is_char_boundary_def bytes_simps)
  have op: "resolve_operator person_config bob_det = OpToken"
    by (simp add: resolve_operator_def operator_for_def sample_det_def ENTITY_CVV_def)
  have ok: "dets_ok person_config ''hi bob'' [bob_det]"
    using al by (simp add: dets_ok_def chained_def det_text_ok_def op)
      (simp add: sample_det_def starts_char_def bytes_simps)
  have "slice_of ''hi bob'' bob_det = ''bob''" "snapped ''hi bob'' bob_det = (3, 6)"
    using snapped_aligned [OF al] by (simp_all add: slice_of_def sample_det_def slice_def)
  moreover have "rendered sample_ext person_config ''s'' bob_det ''bob'' = Some bob_token"
    using bob_token by (simp add: rendered_def op) (simp add: sample_det_def)
  moreover have "ss_salt sample_store = ''s''" by (simp add: sample_store_def store_with_key_and_salt_def)
  ultimately have "assemble ''hi bob'' 0 (plan sample_ext person_config (ss_salt sample_store) ''hi bob'' [bob_det])
      = ''hi '' @ bob_token"
    by (simp add: slice_def)
  with apply_dets_plan [OF ok, of sample_ext sample_store ToolResult] show ?thesis
    by (cases "apply_dets sample_ext ''hi bob'' ToolResult person_config [bob_det] sample_store")
      (auto simp: cipher_err_def split: sum.splits)
qed

lemma bob_masked:
  "\<exists>m st e'. mask sample_ext ''hi bob'' ToolResult person_engine =
     (Inr \<lparr>mo_masked_text = ''hi '' @ bob_token, mo_manifest = m, mo_stats = st\<rparr>, e')"
proof -
  obtain s m where a: "apply_dets sample_ext ''hi bob'' ToolResult person_config [bob_det] sample_store =
      (Inr (''hi '' @ bob_token, m), s)"
    using bob_applied by blast
  have "ec_enabled person_config" "surface_enabled person_config ToolResult"
    by (simp_all add: sample_config_def default_config_def surface_enabled_def)
  then show ?thesis
    using a bob_detected
    by (simp add: mask.simps mask_leaf_def mask_enabled_def find_detections_def detect_and_cache_def
        engine_cache_get_def cache_get_def cache_new_def lru_get_def person_engine_def sample_engine_def
        ml_for_mask_def ml_default_def refresh_fp_def secret_set_empty_def apply_engine_def
        stripped_for_key_def ml_refusal_def Let_def split: prod.splits)
qed

theorem mask_request_all_or_nothing_witness:
  "\<exists>m e'. mask_request sample_ext sample_wire ''{}'' person_engine = (Inr (''hi '' @ bob_token, m), e') \<and>
   (\<exists>req'. mask_each sample_ext [(''hi bob'', ToolResult)]
        (prewarm_request sample_ext sample_request person_engine) = (Inr ([''hi '' @ bob_token], m), e') \<and>
      request_leaves req' = [(''hi '' @ bob_token, ToolResult)] \<and>
      blank_request req' = blank_request sample_request)"
proof -
  obtain m st e' where out: "mask sample_ext ''hi bob'' ToolResult person_engine =
      (Inr \<lparr>mo_masked_text = ''hi '' @ bob_token, mo_manifest = m, mo_stats = st\<rparr>, e')"
    using bob_masked by blast
  have pre: "prewarm_request sample_ext sample_request person_engine = person_engine"
    by (simp add: prewarm_request_def person_engine_def sample_engine_def ml_default_def ml_active_def
        refresh_fp_def)
  have "mask_request sample_ext sample_wire ''{}'' person_engine = (Inr (''hi '' @ bob_token, m), e')"
    by (simp add: mask_request_def sample_wire_def finish_mask_def walk_request_def sample_request_def
        walker_def walk_message_def walk_str_def ret_def andThen_def mapW_def walk_metadata_def
        pre [unfolded sample_request_def] out manifest_merge_def manifest_new_def request_leaves_def
        message_leaves_def metadata_leaves_def)
  from mask_request_all_or_nothing [OF this] this show ?thesis
    by (auto simp: sample_wire_def sample_request_leaves pre out)
qed

section \<open>What the fallback does not see\<close>

lemma members_preserved:
  "preserves_contract_key k \<Longrightarrow> k \<noteq> ''context_management'' \<and> k \<noteq> ''tools''"
  by (auto simp: preserves_contract_key_def)

text \<open>
  The shape-agnostic walk does not mask every string leaf.  Whatever a member of an object is
  called like one of the contract keys, as deep as it may be, is left in the clear: the argument
  of a tool call named \<open>data\<close>, \<open>id\<close> or \<open>format\<close> leaves the proxy as it came when the body did not
  parse as a request, while the typed walk masks the same argument.
\<close>

lemma fallback_skips_contract_keys:
  assumes "preserves_contract_key k"
  shows "value_safe X surface (JObj [(''input'', JObj [(k, JStr t)])]) w =
      (Inr (JObj [(''input'', JObj [(k, JStr t)])]), w) \<and>
    safe_leaves surface (JObj [(''input'', JObj [(k, JStr t)])]) = [] \<and>
    block_leaves role (BToolUse (JObj [(k, JStr t)]) rest) = [(t, ToolUseInput)]"
proof -
  have "\<not> preserves_contract_key ''input''" by (simp add: preserves_contract_key_def)
  then show ?thesis
    using members_preserved [OF assms] assms by (simp add: andThen_def mapW_def ret_def)
qed

theorem fallback_skips_contract_keys_witness:
  "value_safe sample_ext UserMessage (JObj [(''input'', JObj [(''data'', JStr ''bob'')])]) (walker sample_engine) =
     (Inr (JObj [(''input'', JObj [(''data'', JStr ''bob'')])]), walker sample_engine) \<and>
   block_leaves ''assistant'' (BToolUse (JObj [(''data'', JStr ''bob'')]) ()) = [(''bob'', ToolUseInput)]"
  using fallback_skips_contract_keys [of "''data''" sample_ext UserMessage "''bob''" "walker sample_engine"]
  by (simp add: preserves_contract_key_def)

text \<open>And the account id that the typed walk passes verbatim is a leaf of the fallback.\<close>

lemma fallback_user_id_leaf:
  "safe_leaves UserMessage (JObj [(''metadata'', JObj [(''user_id'', JStr u)])]) = [(u, UserMessage)]"
  "metadata_leaves (JObj [(''user_id'', JStr u)]) = []"
  by (simp_all add: preserves_contract_key_def is_base64_object_def metadata_leaves_def)

end
