(* ===== verification/SafeWalk.thy ===== *)
theory SafeWalk
  imports Walk
begin

text \<open>
  The request and response walks of the two OpenAI adapters (\<open>openai_chat.rs\<close> and
  \<open>openai_responses.rs\<close> of the proxy).  Both have the walker of \<open>walk.rs\<close> and the same walk over
  values of unknown shape, which leaves the members of their own contract keys alone.  The wire
  types are those of an external crate, modelled as in Walk.
\<close>

section \<open>Values of unknown shape\<close>

fun safe_value :: "'x ext_scheme \<Rightarrow> (string \<Rightarrow> bool) \<Rightarrow> surface \<Rightarrow> json \<Rightarrow> json walk"
  and safe_items :: "'x ext_scheme \<Rightarrow> (string \<Rightarrow> bool) \<Rightarrow> surface \<Rightarrow> json list \<Rightarrow> json list walk"
  and safe_members ::
    "'x ext_scheme \<Rightarrow> (string \<Rightarrow> bool) \<Rightarrow> bool \<Rightarrow> surface \<Rightarrow> (string \<times> json) list \<Rightarrow>
     (string \<times> json) list walk"
where
  "safe_value X keep surface (JStr t) = mapW JStr (walk_str X surface t)"
| "safe_value X keep surface (JArr vs) = mapW JArr (safe_items X keep surface vs)"
| "safe_value X keep surface (JObj kvs) =
     mapW JObj (safe_members X keep (is_base64_object kvs) surface kvs)"
| "safe_value X keep surface v = ret v"
| "safe_items X keep surface [] = ret []"
| "safe_items X keep surface (v # vs) =
     andThen (safe_value X keep surface v) (\<lambda>v'. mapW (\<lambda>vs'. v' # vs') (safe_items X keep surface vs))"
| "safe_members X keep b64 surface [] = ret []"
| "safe_members X keep b64 surface ((k, v) # kvs) =
     andThen (if b64 \<and> k = ''data'' \<or> keep k then ret v else safe_value X keep surface v)
       (\<lambda>v'. mapW (\<lambda>kvs'. (k, v') # kvs') (safe_members X keep b64 surface kvs))"

definition map_safe ::
  "'x ext_scheme \<Rightarrow> (string \<Rightarrow> bool) \<Rightarrow> surface \<Rightarrow> (string \<times> json) list \<Rightarrow> (string \<times> json) list walk"
where
  "map_safe X keep surface kvs = safe_members X keep False surface kvs"

definition role_surface :: "string \<Rightarrow> surface" where
  "role_surface role =
     (if role = ''assistant'' then AssistantText
      else if role = ''tool'' then ToolResult
      else if role = ''system'' \<or> role = ''developer'' then SystemPrompt
      else UserMessage)"

definition is_data_url :: "string \<Rightarrow> bool" where
  "is_data_url url \<longleftrightarrow> prefix ''data:'' url"

text \<open>Reading and printing the bodies of one API.\<close>

record ('q, 'r, 'j) codec =
  co_parse_request :: "string \<Rightarrow> 'j + 'q"
  co_print_request :: "'q \<Rightarrow> 'j + string"
  co_parse_response :: "string \<Rightarrow> 'j + 'r"
  co_print_response :: "'r \<Rightarrow> 'j + string"

text \<open>The collecting pass over any walk.\<close>

definition prewarm_walk ::
  "'x ext_scheme \<Rightarrow> ('q \<Rightarrow> 'q walk) \<Rightarrow> 'q \<Rightarrow> mask_engine \<Rightarrow> mask_engine" where
  "prewarm_walk X F req e =
     (if \<not> ml_active (en_ml e) then e
      else
        (case F req ((walker e)\<lparr>mw_collect := Some []\<rparr>) of
           (Inl err, w) \<Rightarrow> mw_engine w
         | (Inr _, w) \<Rightarrow>
             (case mw_collect w of
                None \<Rightarrow> mw_engine w
              | Some leaves \<Rightarrow> prewarm_batch X leaves (mw_engine w))))"

section \<open>Chat Completions\<close>

datatype 'o chat_part =
    CpText string 'o
  | CpImageUrl string "(string \<times> json) list" 'o
  | CpOther 'o

datatype 'o chat_content =
    CcText string
  | CcParts "'o chat_part list"
  | CcOther 'o

record 'o chat_call =
  ca_arguments :: string
  ca_rest :: 'o

record 'o chat_message =
  cm_role :: string
  cm_content :: "'o chat_content option"
  cm_tool_call_id :: "string option"
  cm_name :: "string option"
  cm_tool_calls :: "'o chat_call list option"
  cm_extra :: "(string \<times> json) list"
  cm_rest :: 'o

record 'o chat_request =
  cr_messages :: "'o chat_message list"
  cr_extra_thinking :: "(string \<times> json) list option"
  cr_extra :: "(string \<times> json) list"
  cr_rest :: 'o

record 'o chat_response_choice =
  rc_message :: "'o chat_message"
  rc_extra :: "(string \<times> json) list"
  rc_rest :: 'o

record 'o chat_response =
  cs_choices :: "'o chat_response_choice list"
  cs_extra :: "(string \<times> json) list"
  cs_rest :: 'o

definition chat_contract_key :: "string \<Rightarrow> bool" where
  "chat_contract_key k \<longleftrightarrow>
     k \<in> set [''model'', ''tools'', ''tool_choice'', ''response_format'', ''json_schema'', ''schema'',
       ''input_schema'', ''parameters'', ''guided_regex'', ''guided_grammar'', ''guided_choice'']"

fun chat_walk_part :: "'x ext_scheme \<Rightarrow> surface \<Rightarrow> 'o chat_part \<Rightarrow> 'o chat_part walk" where
  "chat_walk_part X surface (CpText t r) = mapW (\<lambda>t. CpText t r) (walk_str X surface t)"
| "chat_walk_part X surface (CpImageUrl url extra r) =
     andThen (if is_data_url url then ret url else walk_str X surface url)
       (\<lambda>url'. mapW (\<lambda>extra'. CpImageUrl url' extra' r) (map_safe X chat_contract_key surface extra))"
| "chat_walk_part X surface (CpOther r) = ret (CpOther r)"

fun chat_walk_content :: "'x ext_scheme \<Rightarrow> surface \<Rightarrow> 'o chat_content \<Rightarrow> 'o chat_content walk" where
  "chat_walk_content X surface (CcText t) = mapW CcText (walk_str X surface t)"
| "chat_walk_content X surface (CcParts ps) = mapW CcParts (each (chat_walk_part X surface) ps)"
| "chat_walk_content X surface (CcOther r) = ret (CcOther r)"

definition chat_walk_call :: "'x ext_scheme \<Rightarrow> 'o chat_call \<Rightarrow> 'o chat_call walk" where
  "chat_walk_call X call =
     mapW (\<lambda>a. call\<lparr>ca_arguments := a\<rparr>) (walk_str X ToolUseInput (ca_arguments call))"

definition chat_walk_message :: "'x ext_scheme \<Rightarrow> 'o chat_message \<Rightarrow> 'o chat_message walk" where
  "chat_walk_message X msg =
     (let surface = role_surface (cm_role msg) in
      andThen (optional (chat_walk_content X surface) (cm_content msg))
        (\<lambda>content. andThen
            (if cm_role msg = ''tool'' then optional (walk_str X ToolResult) (cm_tool_call_id msg)
             else ret (cm_tool_call_id msg))
          (\<lambda>tid. andThen (optional (walk_str X UserMessage) (cm_name msg))
            (\<lambda>name. andThen (optional (each (chat_walk_call X)) (cm_tool_calls msg))
              (\<lambda>calls. mapW
                  (\<lambda>extra. msg\<lparr>cm_content := content, cm_tool_call_id := tid, cm_name := name,
                             cm_tool_calls := calls, cm_extra := extra\<rparr>)
                (map_safe X chat_contract_key surface (cm_extra msg)))))))"

text \<open>\<open>extra.entry(k).or_insert(v)\<close> for each folded member, on an insertion-ordered map.\<close>

definition or_insert :: "string \<times> 'v \<Rightarrow> (string \<times> 'v) list \<Rightarrow> (string \<times> 'v) list" where
  "or_insert kv m = (if map_of m (fst kv) = None then m @ [kv] else m)"

definition fold_thinking :: "'o chat_request \<Rightarrow> 'o chat_request" where
  "fold_thinking req =
     (case cr_extra_thinking req of
        None \<Rightarrow> req
      | Some th \<Rightarrow> req\<lparr>cr_extra := fold or_insert th (cr_extra req), cr_extra_thinking := None\<rparr>)"

definition chat_walk_request :: "'x ext_scheme \<Rightarrow> 'o chat_request \<Rightarrow> 'o chat_request walk" where
  "chat_walk_request X req0 =
     (let req = fold_thinking req0 in
      andThen (each (chat_walk_message X) (cr_messages req))
        (\<lambda>msgs. mapW (\<lambda>extra. req\<lparr>cr_messages := msgs, cr_extra := extra\<rparr>)
          (map_safe X chat_contract_key UserMessage (cr_extra req))))"

text \<open>The collecting pass leaves the folded request to the masking pass.\<close>

definition chat_mask_request ::
  "'x ext_scheme \<Rightarrow> ('o chat_request, 'r, 'j) codec \<Rightarrow> string \<Rightarrow> mask_engine \<Rightarrow>
   ('j mask_error + string \<times> unmask_manifest) \<times> mask_engine" where
  "chat_mask_request X co body e =
     (case co_parse_request co body of
        Inl j \<Rightarrow> (Inl (MaskJson j), e)
      | Inr req \<Rightarrow>
          (let req' = (if ml_active (en_ml e) then fold_thinking req else req)
           in finish_mask (co_print_request co)
                (chat_walk_request X req' (walker (prewarm_walk X (chat_walk_request X) req e)))))"

fun chat_unmask_part ::
  "'x ext_scheme \<Rightarrow> nat \<Rightarrow> mask_engine \<Rightarrow> unmask_manifest \<Rightarrow> 'o chat_part \<Rightarrow> 'o chat_part" where
  "chat_unmask_part X now e m (CpText t r) = CpText (unmask_str_assistant X now e m t) r"
| "chat_unmask_part X now e m p = p"

fun chat_unmask_content ::
  "'x ext_scheme \<Rightarrow> nat \<Rightarrow> mask_engine \<Rightarrow> unmask_manifest \<Rightarrow> 'o chat_content \<Rightarrow> 'o chat_content" where
  "chat_unmask_content X now e m (CcText t) = CcText (unmask_str_assistant X now e m t)"
| "chat_unmask_content X now e m (CcParts ps) = CcParts (map (chat_unmask_part X now e m) ps)"
| "chat_unmask_content X now e m (CcOther r) = CcOther r"

definition chat_unmask_message ::
  "'x ext_scheme \<Rightarrow> nat \<Rightarrow> mask_engine \<Rightarrow> unmask_manifest \<Rightarrow> 'o chat_message \<Rightarrow> 'o chat_message" where
  "chat_unmask_message X now e m msg =
     msg\<lparr>cm_content := map_option (chat_unmask_content X now e m) (cm_content msg),
         cm_tool_calls := map_option
           (map (\<lambda>c. c\<lparr>ca_arguments := unmask_str X now e m (ca_arguments c)\<rparr>)) (cm_tool_calls msg),
         cm_extra := unmask_map X now e m (cm_extra msg)\<rparr>"

definition chat_unmask_response ::
  "'x ext_scheme \<Rightarrow> nat \<Rightarrow> ('q, 'o chat_response, 'j) codec \<Rightarrow> mask_engine \<Rightarrow> unmask_manifest \<Rightarrow>
   string \<Rightarrow> 'j + string" where
  "chat_unmask_response X now co e m body =
     bind_r (co_parse_response co body)
       (\<lambda>resp. co_print_response co
          (resp\<lparr>cs_choices := map (\<lambda>c. c\<lparr>rc_message := chat_unmask_message X now e m (rc_message c),
                                         rc_extra := unmask_map X now e m (rc_extra c)\<rparr>) (cs_choices resp),
                cs_extra := unmask_map X now e m (cs_extra resp)\<rparr>))"

section \<open>Responses\<close>

text \<open>\<open>ResponseInputItem\<close> and \<open>ResponseOutputItem\<close> have the same variants; one type stands for both.\<close>

datatype 'o resp_part =
    RpInputText string "(string \<times> json) list"
  | RpOutputText string "(string \<times> json) list" 'o
  | RpRefusal string "(string \<times> json) list"
  | RpInputImage "string option" "(string \<times> json) list" 'o
  | RpInputFile "(string \<times> json) list" 'o
  | RpOther json
  | RpUnknown 'o

datatype 'o resp_content =
    RcText string
  | RcParts "'o resp_part list"
  | RcOther json
  | RcUnknown 'o

record 'o resp_message =
  rm_role :: string
  rm_content :: "'o resp_content option"
  rm_extra :: "(string \<times> json) list"
  rm_rest :: 'o

record 'o resp_call =
  rl_arguments :: string
  rl_extra :: "(string \<times> json) list"
  rl_rest :: 'o

record 'o resp_call_output =
  ro_output :: string
  ro_extra :: "(string \<times> json) list"
  ro_rest :: 'o

datatype 'o resp_item =
    RiMessage "'o resp_message"
  | RiCall "'o resp_call"
  | RiCallOutput "'o resp_call_output"
  | RiOther json
  | RiUnknown 'o

datatype 'o resp_input =
    RinText string
  | RinItems "'o resp_item list"
  | RinOther json
  | RinUnknown 'o

record 'o resp_request =
  rr_input :: "'o resp_input option"
  rr_instructions :: "string option"
  rr_metadata :: "json option"
  rr_extra :: "(string \<times> json) list"
  rr_rest :: 'o

record 'o resp_object =
  rb_output :: "'o resp_item list"
  rb_output_text :: "string option"
  rb_extra :: "(string \<times> json) list"
  rb_rest :: 'o

definition resp_contract_key :: "string \<Rightarrow> bool" where
  "resp_contract_key k \<longleftrightarrow>
     k \<in> set [''model'', ''tools'', ''tool_choice'', ''response_format'', ''text'', ''format'',
       ''json_schema'', ''schema'', ''input_schema'', ''parameters'', ''id'', ''item_id'', ''call_id'',
       ''file_id'', ''filename'', ''file_data'', ''image_file'', ''input_image'', ''encrypted_content'',
       ''signature'']"

abbreviation resp_map :: "'x ext_scheme \<Rightarrow> surface \<Rightarrow> (string \<times> json) list \<Rightarrow> (string \<times> json) list walk" where
  "resp_map X \<equiv> map_safe X resp_contract_key"

abbreviation resp_value :: "'x ext_scheme \<Rightarrow> surface \<Rightarrow> json \<Rightarrow> json walk" where
  "resp_value X \<equiv> safe_value X resp_contract_key"

fun resp_walk_part :: "'x ext_scheme \<Rightarrow> surface \<Rightarrow> 'o resp_part \<Rightarrow> 'o resp_part walk" where
  "resp_walk_part X surface (RpInputText t extra) =
     andThen (walk_str X surface t) (\<lambda>t'. mapW (\<lambda>extra'. RpInputText t' extra') (resp_map X surface extra))"
| "resp_walk_part X surface (RpOutputText t extra r) =
     andThen (walk_str X surface t) (\<lambda>t'. mapW (\<lambda>extra'. RpOutputText t' extra' r) (resp_map X surface extra))"
| "resp_walk_part X surface (RpRefusal t extra) =
     andThen (walk_str X AssistantText t)
       (\<lambda>t'. mapW (\<lambda>extra'. RpRefusal t' extra') (resp_map X AssistantText extra))"
| "resp_walk_part X surface (RpInputImage url extra r) =
     andThen (optional (\<lambda>u. if is_data_url u then ret u else walk_str X surface u) url)
       (\<lambda>url'. mapW (\<lambda>extra'. RpInputImage url' extra' r) (resp_map X surface extra))"
| "resp_walk_part X surface (RpInputFile extra r) =
     mapW (\<lambda>extra'. RpInputFile extra' r) (resp_map X surface extra)"
| "resp_walk_part X surface (RpOther v) = mapW RpOther (resp_value X surface v)"
| "resp_walk_part X surface (RpUnknown r) = ret (RpUnknown r)"

fun resp_walk_content :: "'x ext_scheme \<Rightarrow> surface \<Rightarrow> 'o resp_content \<Rightarrow> 'o resp_content walk" where
  "resp_walk_content X surface (RcText t) = mapW RcText (walk_str X surface t)"
| "resp_walk_content X surface (RcParts ps) = mapW RcParts (each (resp_walk_part X surface) ps)"
| "resp_walk_content X surface (RcOther v) = mapW RcOther (resp_value X surface v)"
| "resp_walk_content X surface (RcUnknown r) = ret (RcUnknown r)"

definition resp_walk_message :: "'x ext_scheme \<Rightarrow> 'o resp_message \<Rightarrow> 'o resp_message walk" where
  "resp_walk_message X msg =
     (let surface = role_surface (rm_role msg) in
      andThen (optional (resp_walk_content X surface) (rm_content msg))
        (\<lambda>content. mapW (\<lambda>extra. msg\<lparr>rm_content := content, rm_extra := extra\<rparr>)
          (resp_map X surface (rm_extra msg))))"

definition resp_walk_call :: "'x ext_scheme \<Rightarrow> 'o resp_call \<Rightarrow> 'o resp_call walk" where
  "resp_walk_call X call =
     andThen (walk_str X ToolUseInput (rl_arguments call))
       (\<lambda>a. mapW (\<lambda>extra. call\<lparr>rl_arguments := a, rl_extra := extra\<rparr>)
         (resp_map X ToolUseInput (rl_extra call)))"

definition resp_walk_output :: "'x ext_scheme \<Rightarrow> 'o resp_call_output \<Rightarrow> 'o resp_call_output walk" where
  "resp_walk_output X out =
     andThen (walk_str X ToolResult (ro_output out))
       (\<lambda>t. mapW (\<lambda>extra. out\<lparr>ro_output := t, ro_extra := extra\<rparr>) (resp_map X ToolResult (ro_extra out)))"

fun resp_walk_item :: "'x ext_scheme \<Rightarrow> 'o resp_item \<Rightarrow> 'o resp_item walk" where
  "resp_walk_item X (RiMessage msg) = mapW RiMessage (resp_walk_message X msg)"
| "resp_walk_item X (RiCall call) = mapW RiCall (resp_walk_call X call)"
| "resp_walk_item X (RiCallOutput out) = mapW RiCallOutput (resp_walk_output X out)"
| "resp_walk_item X (RiOther v) = mapW RiOther (resp_value X UserMessage v)"
| "resp_walk_item X (RiUnknown r) = ret (RiUnknown r)"

fun resp_walk_input :: "'x ext_scheme \<Rightarrow> 'o resp_input \<Rightarrow> 'o resp_input walk" where
  "resp_walk_input X (RinText t) = mapW RinText (walk_str X UserMessage t)"
| "resp_walk_input X (RinItems items) = mapW RinItems (each (resp_walk_item X) items)"
| "resp_walk_input X (RinOther v) = mapW RinOther (resp_value X UserMessage v)"
| "resp_walk_input X (RinUnknown r) = ret (RinUnknown r)"

definition resp_walk_request :: "'x ext_scheme \<Rightarrow> 'o resp_request \<Rightarrow> 'o resp_request walk" where
  "resp_walk_request X req =
     andThen (optional (resp_walk_input X) (rr_input req))
       (\<lambda>input. andThen (optional (walk_str X SystemPrompt) (rr_instructions req))
         (\<lambda>instr. andThen (optional (resp_value X UserMessage) (rr_metadata req))
           (\<lambda>meta. mapW (\<lambda>extra. req\<lparr>rr_input := input, rr_instructions := instr,
                                     rr_metadata := meta, rr_extra := extra\<rparr>)
             (resp_map X UserMessage (rr_extra req)))))"

definition resp_mask_request ::
  "'x ext_scheme \<Rightarrow> ('o resp_request, 'r, 'j) codec \<Rightarrow> string \<Rightarrow> mask_engine \<Rightarrow>
   ('j mask_error + string \<times> unmask_manifest) \<times> mask_engine" where
  "resp_mask_request X co body e =
     (case co_parse_request co body of
        Inl j \<Rightarrow> (Inl (MaskJson j), e)
      | Inr req \<Rightarrow>
          finish_mask (co_print_request co)
            (resp_walk_request X req (walker (prewarm_walk X (resp_walk_request X) req e))))"

fun resp_unmask_part ::
  "'x ext_scheme \<Rightarrow> nat \<Rightarrow> mask_engine \<Rightarrow> unmask_manifest \<Rightarrow> 'o resp_part \<Rightarrow> 'o resp_part" where
  "resp_unmask_part X now e m (RpOutputText t extra r) =
     RpOutputText (unmask_str_assistant X now e m t) (unmask_map X now e m extra) r"
| "resp_unmask_part X now e m (RpInputText t extra) =
     RpInputText (unmask_str X now e m t) (unmask_map X now e m extra)"
| "resp_unmask_part X now e m (RpRefusal t extra) =
     RpRefusal (unmask_str_assistant X now e m t) (unmask_map X now e m extra)"
| "resp_unmask_part X now e m (RpInputImage url extra r) =
     RpInputImage url (unmask_map X now e m extra) r"
| "resp_unmask_part X now e m (RpInputFile extra r) = RpInputFile (unmask_map X now e m extra) r"
| "resp_unmask_part X now e m (RpOther v) = RpOther (unmask_value X now e m v)"
| "resp_unmask_part X now e m (RpUnknown r) = RpUnknown r"

fun resp_unmask_content ::
  "'x ext_scheme \<Rightarrow> nat \<Rightarrow> mask_engine \<Rightarrow> unmask_manifest \<Rightarrow> 'o resp_content \<Rightarrow> 'o resp_content" where
  "resp_unmask_content X now e m (RcText t) = RcText (unmask_str_assistant X now e m t)"
| "resp_unmask_content X now e m (RcParts ps) = RcParts (map (resp_unmask_part X now e m) ps)"
| "resp_unmask_content X now e m (RcOther v) = RcOther (unmask_value X now e m v)"
| "resp_unmask_content X now e m (RcUnknown r) = RcUnknown r"

definition resp_unmask_message ::
  "'x ext_scheme \<Rightarrow> nat \<Rightarrow> mask_engine \<Rightarrow> unmask_manifest \<Rightarrow> 'o resp_message \<Rightarrow> 'o resp_message" where
  "resp_unmask_message X now e m msg =
     msg\<lparr>rm_content := map_option (resp_unmask_content X now e m) (rm_content msg),
         rm_extra := unmask_map X now e m (rm_extra msg)\<rparr>"

fun unmask_output_item ::
  "'x ext_scheme \<Rightarrow> nat \<Rightarrow> mask_engine \<Rightarrow> unmask_manifest \<Rightarrow> 'o resp_item \<Rightarrow> 'o resp_item" where
  "unmask_output_item X now e m (RiMessage msg) = RiMessage (resp_unmask_message X now e m msg)"
| "unmask_output_item X now e m (RiCall c) =
     RiCall (c\<lparr>rl_arguments := unmask_str X now e m (rl_arguments c),
               rl_extra := unmask_map X now e m (rl_extra c)\<rparr>)"
| "unmask_output_item X now e m (RiCallOutput out) =
     RiCallOutput (out\<lparr>ro_output := unmask_str X now e m (ro_output out),
                       ro_extra := unmask_map X now e m (ro_extra out)\<rparr>)"
| "unmask_output_item X now e m (RiOther v) = RiOther (unmask_value X now e m v)"
| "unmask_output_item X now e m (RiUnknown r) = RiUnknown r"

definition unmask_response_object ::
  "'x ext_scheme \<Rightarrow> nat \<Rightarrow> mask_engine \<Rightarrow> unmask_manifest \<Rightarrow> 'o resp_object \<Rightarrow> 'o resp_object" where
  "unmask_response_object X now e m resp =
     resp\<lparr>rb_output := map (unmask_output_item X now e m) (rb_output resp),
          rb_output_text := map_option (unmask_str_assistant X now e m) (rb_output_text resp),
          rb_extra := unmask_map X now e m (rb_extra resp)\<rparr>"

definition resp_unmask_response ::
  "'x ext_scheme \<Rightarrow> nat \<Rightarrow> ('q, 'o resp_object, 'j) codec \<Rightarrow> mask_engine \<Rightarrow> unmask_manifest \<Rightarrow>
   string \<Rightarrow> 'j + string" where
  "resp_unmask_response X now co e m body =
     bind_r (co_parse_response co body)
       (\<lambda>resp. co_print_response co (unmask_response_object X now e m resp))"

end
