(* ===== verification/OpenAiMask.thy ===== *)
theory OpenAiMask
  imports SafeWalk RequestMask
begin

text \<open>
  What the two OpenAI request maskers promise.  The leaves of a request and the request with its
  leaves replaced are functions of their own; a walk that traverses them collects the ones and
  masks into the other, and with the refinement of Session the masked body is the one of a proxy
  without cache and prewarm.
\<close>

section \<open>Filling leaves\<close>

text \<open>A value rebuilt from a list of new leaves, and the leaves it did not use.\<close>

type_synonym 'a fill = "string list \<Rightarrow> 'a \<times> string list"

definition fret :: "'a \<Rightarrow> 'a fill" where
  "fret x us = (x, us)"

definition fbind :: "'a fill \<Rightarrow> ('a \<Rightarrow> 'b fill) \<Rightarrow> 'b fill" where
  "fbind m f us = (case m us of (a, us') \<Rightarrow> f a us')"

definition fmap :: "('a \<Rightarrow> 'b) \<Rightarrow> 'a fill \<Rightarrow> 'b fill" where
  "fmap f m = fbind m (\<lambda>x. fret (f x))"

fun fleaf :: "string \<Rightarrow> string fill" where
  "fleaf t [] = (t, [])"
| "fleaf t (u # us) = (u, us)"

fun feach :: "('a \<Rightarrow> 'a fill) \<Rightarrow> 'a list \<Rightarrow> 'a list fill" where
  "feach f [] = fret []"
| "feach f (x # xs) = fbind (f x) (\<lambda>x'. fmap (\<lambda>xs'. x' # xs') (feach f xs))"

fun foptional :: "('a \<Rightarrow> 'a fill) \<Rightarrow> 'a option \<Rightarrow> 'a option fill" where
  "foptional f None = fret None"
| "foptional f (Some x) = fmap Some (f x)"

definition traverses :: "'x ext_scheme \<Rightarrow> 'a walk \<Rightarrow> leaves \<Rightarrow> 'a fill \<Rightarrow> 'a \<Rightarrow> bool" where
  "traverses X F L S x \<longleftrightarrow>
     (\<forall>w acc. mw_collect w = Some acc \<longrightarrow> F w = (Inr x, w\<lparr>mw_collect := Some (acc @ L)\<rparr>)) \<and>
     (\<forall>w. mw_collect w = None \<longrightarrow> F w = mapW (\<lambda>us. fst (S us)) (mask_all X L) w) \<and>
     (\<forall>us rest. length us = length L \<longrightarrow> S (us @ rest) = (fst (S us), rest)) \<and>
     S (map fst L) = (x, [])"

lemma traverses_ret: "traverses X (ret x) [] (fret x) x"
  by (simp add: traverses_def fret_def ret_def mapW_def andThen_def)

lemma traverses_str: "traverses X (walk_str X surface t) [(t, surface)] (fleaf t) t"
  unfolding traverses_def
  by (auto simp: walk_str_def mapW_def andThen_def ret_def length_Suc_conv
      split: option.splits prod.splits sum.splits)

lemma traverses_map:
  assumes "traverses X m L S x"
  shows "traverses X (mapW g m) L (fmap g S) (g x)"
proof -
  have S: "fmap g S us = (g (fst (S us)), snd (S us))" for us
    by (simp add: fmap_def fbind_def fret_def case_prod_unfold)
  have "mapW g m w = mapW (\<lambda>us. fst (fmap g S us)) (mask_all X L) w" if "mw_collect w = None" for w
  proof -
    have "mapW g m w = mapW g (mapW (\<lambda>us. fst (S us)) (mask_all X L)) w"
      using assms that by (simp add: traverses_def mapW_def andThen_def)
    then show ?thesis by (simp add: mapW_mapW S)
  qed
  then show ?thesis
    using assms unfolding traverses_def S
    by (simp add: mapW_def andThen_def ret_def)
qed

lemma traverses_then:
  assumes "traverses X m L S x" and "\<And>a. traverses X (K a) L2 (S2 a) (y a)"
  shows "traverses X (andThen m K) (L @ L2) (fbind S S2) (y x)"
proof -
  have split: "fbind S S2 (us @ vs) = S2 (fst (S us)) vs" if "length us = length L" for us vs
    using assms(1) that by (simp add: traverses_def fbind_def)
  have "andThen m K w = mapW (\<lambda>us. fst (fbind S S2 us)) (mask_all X (L @ L2)) w"
    if w: "mw_collect w = None" for w
  proof -
    have "andThen m K w = andThen (mapW (\<lambda>us. fst (S us)) (mask_all X L)) K w"
      using assms(1) w by (simp add: traverses_def andThen_def)
    also have "\<dots> = andThen (mask_all X L) (\<lambda>us. K (fst (S us))) w"
      by (simp add: andThen_mapW)
    also have "\<dots> = andThen (mask_all X L)
        (\<lambda>us. mapW (\<lambda>vs. fst (fbind S S2 (us @ vs))) (mask_all X L2)) w"
    proof (rule andThen_mask_all_cong [OF w])
      fix us :: "string list" and v :: mask_walker
      assume us: "length us = length L" and v: "mw_collect v = None"
      have "K (fst (S us)) v = mapW (\<lambda>vs. fst (S2 (fst (S us)) vs)) (mask_all X L2) v"
        using assms(2) v by (simp add: traverses_def)
      then show "K (fst (S us)) v = mapW (\<lambda>vs. fst (fbind S S2 (us @ vs))) (mask_all X L2) v"
        by (simp add: split [OF us])
    qed
    finally show ?thesis by (simp add: mask_all_append mapW_andThen mapW_mapW)
  qed
  moreover have "fbind S S2 (us @ rest) = (fst (fbind S S2 us), rest)"
    if "length us = length (L @ L2)" for us rest
  proof -
    define a b where "a = take (length L) us" and "b = drop (length L) us"
    have us: "us = a @ b" "length a = length L" "length b = length L2"
      using that by (simp_all add: a_def b_def)
    have "S2 (fst (S a)) (b @ rest) = (fst (S2 (fst (S a)) b), rest)"
      using assms(2) us(3) by (simp add: traverses_def)
    then show ?thesis using split [OF us(2), of "b @ rest"] split [OF us(2), of b] by (simp add: us(1))
  qed
  moreover have "fbind S S2 (map fst (L @ L2)) = (y x, [])"
    using split [of "map fst L" "map fst L2"] assms by (simp add: traverses_def)
  moreover have "andThen m K w = (Inr (y x), w\<lparr>mw_collect := Some (acc @ L @ L2)\<rparr>)"
    if "mw_collect w = Some acc" for w acc
    using assms that by (simp add: traverses_def andThen_def)
  ultimately show ?thesis unfolding traverses_def by blast
qed

lemma traverses_bind:
  "traverses X m L S x \<Longrightarrow> traverses X n L2 S2 y \<Longrightarrow>
   traverses X (andThen m (\<lambda>a. mapW (c a) n)) (L @ L2) (fbind S (\<lambda>a. fmap (c a) S2)) (c x y)"
  by (rule traverses_then [where y = "\<lambda>a. c a y"]) (simp_all add: traverses_map)

lemma traverses_each:
  "(\<And>x. x \<in> set xs \<Longrightarrow> traverses X (f x) (l x) (s x) x) \<Longrightarrow>
   traverses X (each f xs) (concat (map l xs)) (feach s xs) xs"
proof (induction xs)
  case Nil
  then show ?case by (simp add: traverses_ret)
next
  case (Cons x xs)
  then have "traverses X (f x) (l x) (s x) x"
    "traverses X (each f xs) (concat (map l xs)) (feach s xs) xs" by simp_all
  from traverses_bind [OF this, where c = "\<lambda>x xs. x # xs"] show ?case by simp
qed

lemma traverses_optional:
  assumes "\<And>x. v = Some x \<Longrightarrow> traverses X (f x) (l x) (s x) x"
  shows "traverses X (optional f v) (opt_leaves l v) (foptional s v) v"
proof (cases v)
  case None
  then show ?thesis by (simp add: traverses_ret)
next
  case (Some x)
  then show ?thesis using traverses_map [OF assms [OF Some], of Some] by simp
qed

section \<open>Values\<close>

fun value_leaves :: "(string \<Rightarrow> bool) \<Rightarrow> surface \<Rightarrow> json \<Rightarrow> leaves"
  and items_leaves :: "(string \<Rightarrow> bool) \<Rightarrow> surface \<Rightarrow> json list \<Rightarrow> leaves"
  and members_leaves :: "(string \<Rightarrow> bool) \<Rightarrow> bool \<Rightarrow> surface \<Rightarrow> (string \<times> json) list \<Rightarrow> leaves"
where
  "value_leaves keep surface (JStr t) = [(t, surface)]"
| "value_leaves keep surface (JArr vs) = items_leaves keep surface vs"
| "value_leaves keep surface (JObj kvs) = members_leaves keep (is_base64_object kvs) surface kvs"
| "value_leaves keep surface v = []"
| "items_leaves keep surface [] = []"
| "items_leaves keep surface (v # vs) = value_leaves keep surface v @ items_leaves keep surface vs"
| "members_leaves keep b64 surface [] = []"
| "members_leaves keep b64 surface ((k, v) # kvs) =
     (if b64 \<and> k = ''data'' \<or> keep k then [] else value_leaves keep surface v) @
     members_leaves keep b64 surface kvs"

fun value_fill :: "(string \<Rightarrow> bool) \<Rightarrow> json \<Rightarrow> json fill"
  and items_fill :: "(string \<Rightarrow> bool) \<Rightarrow> json list \<Rightarrow> json list fill"
  and members_fill :: "(string \<Rightarrow> bool) \<Rightarrow> bool \<Rightarrow> (string \<times> json) list \<Rightarrow> (string \<times> json) list fill"
where
  "value_fill keep (JStr t) = fmap JStr (fleaf t)"
| "value_fill keep (JArr vs) = fmap JArr (items_fill keep vs)"
| "value_fill keep (JObj kvs) = fmap JObj (members_fill keep (is_base64_object kvs) kvs)"
| "value_fill keep v = fret v"
| "items_fill keep [] = fret []"
| "items_fill keep (v # vs) = fbind (value_fill keep v) (\<lambda>v'. fmap (\<lambda>vs'. v' # vs') (items_fill keep vs))"
| "members_fill keep b64 [] = fret []"
| "members_fill keep b64 ((k, v) # kvs) =
     fbind (if b64 \<and> k = ''data'' \<or> keep k then fret v else value_fill keep v)
       (\<lambda>v'. fmap (\<lambda>kvs'. (k, v') # kvs') (members_fill keep b64 kvs))"

lemma traverses_value:
  "traverses X (safe_value X keep surface v) (value_leaves keep surface v) (value_fill keep v) v"
  "traverses X (safe_items X keep surface vs) (items_leaves keep surface vs) (items_fill keep vs) vs"
  "traverses X (safe_members X keep b64 surface kvs) (members_leaves keep b64 surface kvs)
     (members_fill keep b64 kvs) kvs"
proof (induction X keep surface v and X keep surface vs and X keep b64 surface kvs
    rule: safe_value_safe_items_safe_members.induct)
  case (8 X keep b64 surface k v kvs)
  show ?case
  proof (cases "b64 \<and> k = ''data'' \<or> keep k")
    case True
    show ?thesis
      unfolding safe_members.simps members_leaves.simps members_fill.simps if_P [OF True]
      by (rule traverses_bind [OF traverses_ret 8(2)])
  next
    case False
    show ?thesis
      unfolding safe_members.simps members_leaves.simps members_fill.simps if_not_P [OF False]
      by (rule traverses_bind [OF 8(1) [OF False] 8(2)])
  qed
next
  case (6 X keep surface v vs)
  from traverses_bind [OF 6, where c = "\<lambda>v vs. v # vs"] show ?case by simp
qed (simp_all add: traverses_ret traverses_map traverses_str)

abbreviation map_leaves :: "(string \<Rightarrow> bool) \<Rightarrow> surface \<Rightarrow> (string \<times> json) list \<Rightarrow> leaves" where
  "map_leaves keep \<equiv> members_leaves keep False"

abbreviation map_fill :: "(string \<Rightarrow> bool) \<Rightarrow> (string \<times> json) list \<Rightarrow> (string \<times> json) list fill" where
  "map_fill keep \<equiv> members_fill keep False"

lemma traverses_map_safe:
  "traverses X (map_safe X keep surface kvs) (map_leaves keep surface kvs) (map_fill keep kvs) kvs"
  by (simp add: map_safe_def traverses_value)

section \<open>The bodies\<close>

lemma traverses_collect:
  "traverses X F L S x \<Longrightarrow>
   F ((walker e)\<lparr>mw_collect := Some []\<rparr>) = (Inr x, (walker e)\<lparr>mw_collect := Some L\<rparr>)"
  by (simp add: traverses_def)

lemma prewarm_walk_sim:
  assumes "traverses X (F req) L S x" and "keys_determine X W" and "recognizer_ok (en_ml e0)"
    and "sim X W e0 e s" and "\<forall>leaf\<in>set L. queries_of e0 leaf \<subseteq> W"
  shows "sim X W e0 (prewarm_walk X F req e) s"
  using prewarm_sim [OF assms(2-5)] assms(4)
  by (simp add: prewarm_walk_def traverses_collect [OF assms(1)]) (simp add: walker_def)

text \<open>A masker that prewarms by a walk and then prints what the walk masks.\<close>

lemma traversed_body:
  assumes "traverses X (F req) L S x" and "traverses X (F req') L S x"
    and "inj_on (hash_text X) (query_text ` request_queries e L)" and "recognizer_ok (en_ml e)"
    and "en_cache e = cache_new n"
    and "r = finish_mask print (F req' (walker (prewarm_walk X F req e)))"
  shows "fst r = fst (spec_body X e L (\<lambda>us. print (fst (S us))) (en_store e)) \<and>
    en_store (snd r) = snd (spec_body X e L (\<lambda>us. print (fst (S us))) (en_store e))"
proof -
  let ?W = "request_queries e L"
  have sub: "\<forall>leaf\<in>set L. queries_of e leaf \<subseteq> ?W" by (auto simp: request_queries_def)
  have keys: "keys_determine X ?W"
    by (rule keys_determine_texts [OF assms(3), of "env_of e"])
      (auto simp: request_queries_def queries_of_def)
  have pre: "sim X ?W e (prewarm_walk X F req e) (en_store e)"
    by (rule prewarm_walk_sim [where F = F and req = req, OF assms(1) keys assms(4) sim_start [OF assms(5)] sub])
  have "mw_collect (walker (prewarm_walk X F req e)) = None" by (simp add: walker_def)
  then have "F req' (walker (prewarm_walk X F req e)) =
      mapW (\<lambda>us. fst (S us)) (mask_all X L) (walker (prewarm_walk X F req e))"
    using assms(2) unfolding traverses_def by blast
  then have "r = finish_mask (\<lambda>us. print (fst (S us))) (mask_all X L (walker (prewarm_walk X F req e)))"
    by (simp add: assms(6) finish_mask_walk)
  with finish_mask_sim [OF keys pre sub] show ?thesis by simp
qed

section \<open>Chat Completions\<close>

abbreviation url_leaves :: "surface \<Rightarrow> string \<Rightarrow> leaves" where
  "url_leaves surface url \<equiv> (if is_data_url url then [] else [(url, surface)])"

abbreviation url_fill :: "string \<Rightarrow> string fill" where
  "url_fill url \<equiv> (if is_data_url url then fret url else fleaf url)"

lemma traverses_url:
  "traverses X (if is_data_url url then ret url else walk_str X surface url) (url_leaves surface url)
     (url_fill url) url"
  by (simp add: traverses_ret traverses_str)

fun chat_part_leaves :: "surface \<Rightarrow> 'o chat_part \<Rightarrow> leaves" where
  "chat_part_leaves surface (CpText t r) = [(t, surface)]"
| "chat_part_leaves surface (CpImageUrl url extra r) =
     url_leaves surface url @ map_leaves chat_contract_key surface extra"
| "chat_part_leaves surface (CpOther r) = []"

fun chat_part_fill :: "'o chat_part \<Rightarrow> 'o chat_part fill" where
  "chat_part_fill (CpText t r) = fmap (\<lambda>t. CpText t r) (fleaf t)"
| "chat_part_fill (CpImageUrl url extra r) =
     fbind (url_fill url) (\<lambda>url'. fmap (\<lambda>extra'. CpImageUrl url' extra' r) (map_fill chat_contract_key extra))"
| "chat_part_fill (CpOther r) = fret (CpOther r)"

lemma traverses_chat_part:
  "traverses X (chat_walk_part X surface p) (chat_part_leaves surface p) (chat_part_fill p) p"
proof (cases p)
  case (CpImageUrl url extra r)
  show ?thesis unfolding CpImageUrl chat_walk_part.simps chat_part_leaves.simps chat_part_fill.simps
    by (rule traverses_bind [OF traverses_url traverses_map_safe, where c = "\<lambda>u x. CpImageUrl u x r"])
qed (simp_all add: traverses_ret traverses_map traverses_str
    traverses_map [OF traverses_str, where g = "\<lambda>t. CpText t r" for r])

fun chat_content_leaves :: "surface \<Rightarrow> 'o chat_content \<Rightarrow> leaves" where
  "chat_content_leaves surface (CcText t) = [(t, surface)]"
| "chat_content_leaves surface (CcParts ps) = concat (map (chat_part_leaves surface) ps)"
| "chat_content_leaves surface (CcOther r) = []"

fun chat_content_fill :: "'o chat_content \<Rightarrow> 'o chat_content fill" where
  "chat_content_fill (CcText t) = fmap CcText (fleaf t)"
| "chat_content_fill (CcParts ps) = fmap CcParts (feach chat_part_fill ps)"
| "chat_content_fill (CcOther r) = fret (CcOther r)"

lemma traverses_chat_content:
  "traverses X (chat_walk_content X surface c) (chat_content_leaves surface c) (chat_content_fill c) c"
  by (cases c) (simp_all add: traverses_ret traverses_map traverses_str traverses_each traverses_chat_part)

definition chat_call_leaves :: "'o chat_call \<Rightarrow> leaves" where
  "chat_call_leaves call = [(ca_arguments call, ToolUseInput)]"

definition chat_call_fill :: "'o chat_call \<Rightarrow> 'o chat_call fill" where
  "chat_call_fill call = fmap (\<lambda>a. call\<lparr>ca_arguments := a\<rparr>) (fleaf (ca_arguments call))"

lemma traverses_chat_call:
  "traverses X (chat_walk_call X call) (chat_call_leaves call) (chat_call_fill call) call"
  unfolding chat_walk_call_def chat_call_leaves_def chat_call_fill_def
  using traverses_map [OF traverses_str [of X ToolUseInput "ca_arguments call"],
      where g = "\<lambda>a. call\<lparr>ca_arguments := a\<rparr>"]
  by simp

definition chat_message_leaves :: "'o chat_message \<Rightarrow> leaves" where
  "chat_message_leaves msg =
     opt_leaves (chat_content_leaves (role_surface (cm_role msg))) (cm_content msg) @
     (if cm_role msg = ''tool'' then opt_leaves (\<lambda>t. [(t, ToolResult)]) (cm_tool_call_id msg) else []) @
     opt_leaves (\<lambda>t. [(t, UserMessage)]) (cm_name msg) @
     opt_leaves (\<lambda>cs. concat (map chat_call_leaves cs)) (cm_tool_calls msg) @
     map_leaves chat_contract_key (role_surface (cm_role msg)) (cm_extra msg)"

definition chat_message_fill :: "'o chat_message \<Rightarrow> 'o chat_message fill" where
  "chat_message_fill msg =
     fbind (foptional chat_content_fill (cm_content msg))
       (\<lambda>content. fbind (if cm_role msg = ''tool'' then foptional fleaf (cm_tool_call_id msg)
                         else fret (cm_tool_call_id msg))
         (\<lambda>tid. fbind (foptional fleaf (cm_name msg))
           (\<lambda>name. fbind (foptional (feach chat_call_fill) (cm_tool_calls msg))
             (\<lambda>calls. fmap
                 (\<lambda>extra. msg\<lparr>cm_content := content, cm_tool_call_id := tid, cm_name := name,
                            cm_tool_calls := calls, cm_extra := extra\<rparr>)
               (map_fill chat_contract_key (cm_extra msg))))))"

lemma traverses_chat_message:
  "traverses X (chat_walk_message X msg) (chat_message_leaves msg) (chat_message_fill msg) msg"
proof -
  have id: "traverses X
      (if cm_role msg = ''tool'' then optional (walk_str X ToolResult) (cm_tool_call_id msg)
       else ret (cm_tool_call_id msg))
      (if cm_role msg = ''tool'' then opt_leaves (\<lambda>t. [(t, ToolResult)]) (cm_tool_call_id msg) else [])
      (if cm_role msg = ''tool'' then foptional fleaf (cm_tool_call_id msg) else fret (cm_tool_call_id msg))
      (cm_tool_call_id msg)"
    by (simp add: traverses_ret traverses_optional traverses_str)
  have "traverses X (chat_walk_message X msg) (chat_message_leaves msg) (chat_message_fill msg)
      (msg\<lparr>cm_content := cm_content msg, cm_tool_call_id := cm_tool_call_id msg, cm_name := cm_name msg,
          cm_tool_calls := cm_tool_calls msg, cm_extra := cm_extra msg\<rparr>)"
    unfolding chat_walk_message_def Let_def chat_message_leaves_def chat_message_fill_def
    by (rule traverses_then [OF traverses_optional [OF traverses_chat_content]],
        rule traverses_then [OF id],
        rule traverses_then [OF traverses_optional [OF traverses_str]],
        rule traverses_then [OF traverses_optional [OF traverses_each [OF traverses_chat_call]]],
        rule traverses_map [OF traverses_map_safe])
  then show ?thesis by simp
qed

definition chat_request_leaves :: "'o chat_request \<Rightarrow> leaves" where
  "chat_request_leaves req =
     concat (map chat_message_leaves (cr_messages req)) @
     map_leaves chat_contract_key UserMessage (cr_extra (fold_thinking req))"

definition chat_request_fill :: "'o chat_request \<Rightarrow> 'o chat_request fill" where
  "chat_request_fill req =
     fbind (feach chat_message_fill (cr_messages req))
       (\<lambda>msgs. fmap (\<lambda>extra. (fold_thinking req)\<lparr>cr_messages := msgs, cr_extra := extra\<rparr>)
         (map_fill chat_contract_key (cr_extra (fold_thinking req))))"

lemma fold_thinking_simps [simp]:
  "cr_messages (fold_thinking req) = cr_messages req"
  "fold_thinking (fold_thinking req) = fold_thinking req"
  by (simp_all add: fold_thinking_def split: option.split)

lemma traverses_chat_request:
  "traverses X (chat_walk_request X req) (chat_request_leaves req) (chat_request_fill req)
     (fold_thinking req)"
proof -
  have "traverses X (chat_walk_request X req) (chat_request_leaves req) (chat_request_fill req)
      ((fold_thinking req)\<lparr>cr_messages := cr_messages req, cr_extra := cr_extra (fold_thinking req)\<rparr>)"
    unfolding chat_walk_request_def Let_def chat_request_leaves_def chat_request_fill_def fold_thinking_simps
    by (rule traverses_bind [OF traverses_each [OF traverses_chat_message] traverses_map_safe])
  moreover have "(fold_thinking req)\<lparr>cr_messages := cr_messages req, cr_extra := cr_extra (fold_thinking req)\<rparr>
      = fold_thinking req"
    using fold_thinking_simps(1) [of req] by (cases "fold_thinking req") simp
  ultimately show ?thesis by simp
qed

text \<open>
  C21: the Chat Completions masker.  The leaves of a request are the content of its messages, the
  id a tool message answers to, the names, the arguments of its calls and the members of unknown
  name, after the fold of the thinking members; from an empty cache, with a text hash that does
  not collide on them, the body, the manifest, the error and the store are those of masking the
  leaves one after the other with detection run afresh, and of printing the request with its
  leaves replaced in order and nothing else changed.
\<close>

theorem chat_mask_refines:
  assumes "co_parse_request co body = Inr req"
    and "inj_on (hash_text X) (query_text ` request_queries e (chat_request_leaves req))"
    and "recognizer_ok (en_ml e)" and "en_cache e = cache_new n"
  shows "fst (chat_mask_request X co body e) =
      fst (spec_body X e (chat_request_leaves req)
        (\<lambda>us. co_print_request co (fst (chat_request_fill req us))) (en_store e)) \<and>
    en_store (snd (chat_mask_request X co body e)) =
      snd (spec_body X e (chat_request_leaves req)
        (\<lambda>us. co_print_request co (fst (chat_request_fill req us))) (en_store e)) \<and>
    chat_request_fill req (map fst (chat_request_leaves req)) = (fold_thinking req, [])"
proof -
  have "chat_request_leaves (fold_thinking req) = chat_request_leaves req"
    "chat_request_fill (fold_thinking req) = chat_request_fill req"
    by (simp_all add: chat_request_leaves_def chat_request_fill_def)
  then have t: "traverses X (chat_walk_request X req') (chat_request_leaves req) (chat_request_fill req)
      (fold_thinking req)" if "req' = req \<or> req' = fold_thinking req" for req'
    using that traverses_chat_request [of X req] traverses_chat_request [of X "fold_thinking req"] by auto
  define req' where "req' = (if ml_active (en_ml e) then fold_thinking req else req)"
  have r: "chat_mask_request X co body e = finish_mask (co_print_request co)
      (chat_walk_request X req' (walker (prewarm_walk X (chat_walk_request X) req e)))"
    by (simp add: chat_mask_request_def assms(1) req'_def Let_def)
  have "traverses X (chat_walk_request X req') (chat_request_leaves req) (chat_request_fill req)
      (fold_thinking req)"
    by (rule t) (simp add: req'_def)
  from traversed_body [OF t this assms(2-4) r] t show ?thesis by (auto simp: traverses_def)
qed

section \<open>Responses\<close>

abbreviation rmap_leaves :: "surface \<Rightarrow> (string \<times> json) list \<Rightarrow> leaves" where
  "rmap_leaves \<equiv> map_leaves resp_contract_key"

abbreviation rmap_fill :: "(string \<times> json) list \<Rightarrow> (string \<times> json) list fill" where
  "rmap_fill \<equiv> map_fill resp_contract_key"

fun resp_part_leaves :: "surface \<Rightarrow> 'o resp_part \<Rightarrow> leaves" where
  "resp_part_leaves surface (RpInputText t extra) = [(t, surface)] @ rmap_leaves surface extra"
| "resp_part_leaves surface (RpOutputText t extra r) = [(t, surface)] @ rmap_leaves surface extra"
| "resp_part_leaves surface (RpRefusal t extra) = [(t, AssistantText)] @ rmap_leaves AssistantText extra"
| "resp_part_leaves surface (RpInputImage url extra r) =
     opt_leaves (url_leaves surface) url @ rmap_leaves surface extra"
| "resp_part_leaves surface (RpInputFile extra r) = rmap_leaves surface extra"
| "resp_part_leaves surface (RpOther v) = value_leaves resp_contract_key surface v"
| "resp_part_leaves surface (RpUnknown r) = []"

fun resp_part_fill :: "'o resp_part \<Rightarrow> 'o resp_part fill" where
  "resp_part_fill (RpInputText t extra) =
     fbind (fleaf t) (\<lambda>t'. fmap (\<lambda>extra'. RpInputText t' extra') (rmap_fill extra))"
| "resp_part_fill (RpOutputText t extra r) =
     fbind (fleaf t) (\<lambda>t'. fmap (\<lambda>extra'. RpOutputText t' extra' r) (rmap_fill extra))"
| "resp_part_fill (RpRefusal t extra) =
     fbind (fleaf t) (\<lambda>t'. fmap (\<lambda>extra'. RpRefusal t' extra') (rmap_fill extra))"
| "resp_part_fill (RpInputImage url extra r) =
     fbind (foptional url_fill url) (\<lambda>url'. fmap (\<lambda>extra'. RpInputImage url' extra' r) (rmap_fill extra))"
| "resp_part_fill (RpInputFile extra r) = fmap (\<lambda>extra'. RpInputFile extra' r) (rmap_fill extra)"
| "resp_part_fill (RpOther v) = fmap RpOther (value_fill resp_contract_key v)"
| "resp_part_fill (RpUnknown r) = fret (RpUnknown r)"

lemma traverses_resp_part:
  "traverses X (resp_walk_part X surface p) (resp_part_leaves surface p) (resp_part_fill p) p"
proof (cases p)
  case (RpInputText t extra)
  show ?thesis unfolding RpInputText resp_walk_part.simps resp_part_leaves.simps resp_part_fill.simps
    by (rule traverses_bind [OF traverses_str traverses_map_safe, where c = RpInputText])
next
  case (RpOutputText t extra r)
  show ?thesis unfolding RpOutputText resp_walk_part.simps resp_part_leaves.simps resp_part_fill.simps
    by (rule traverses_bind [OF traverses_str traverses_map_safe, where c = "\<lambda>t x. RpOutputText t x r"])
next
  case (RpRefusal t extra)
  show ?thesis unfolding RpRefusal resp_walk_part.simps resp_part_leaves.simps resp_part_fill.simps
    by (rule traverses_bind [OF traverses_str traverses_map_safe, where c = RpRefusal])
next
  case (RpInputImage url extra r)
  show ?thesis unfolding RpInputImage resp_walk_part.simps resp_part_leaves.simps resp_part_fill.simps
    by (rule traverses_bind [OF traverses_optional [OF traverses_url] traverses_map_safe,
          where c = "\<lambda>u x. RpInputImage u x r"])
next
  case (RpInputFile extra r)
  show ?thesis unfolding RpInputFile resp_walk_part.simps resp_part_leaves.simps resp_part_fill.simps
    by (rule traverses_map [OF traverses_map_safe, where g = "\<lambda>x. RpInputFile x r"])
qed (simp_all add: traverses_ret traverses_map traverses_value)

fun resp_content_leaves :: "surface \<Rightarrow> 'o resp_content \<Rightarrow> leaves" where
  "resp_content_leaves surface (RcText t) = [(t, surface)]"
| "resp_content_leaves surface (RcParts ps) = concat (map (resp_part_leaves surface) ps)"
| "resp_content_leaves surface (RcOther v) = value_leaves resp_contract_key surface v"
| "resp_content_leaves surface (RcUnknown r) = []"

fun resp_content_fill :: "'o resp_content \<Rightarrow> 'o resp_content fill" where
  "resp_content_fill (RcText t) = fmap RcText (fleaf t)"
| "resp_content_fill (RcParts ps) = fmap RcParts (feach resp_part_fill ps)"
| "resp_content_fill (RcOther v) = fmap RcOther (value_fill resp_contract_key v)"
| "resp_content_fill (RcUnknown r) = fret (RcUnknown r)"

lemma traverses_resp_content:
  "traverses X (resp_walk_content X surface c) (resp_content_leaves surface c) (resp_content_fill c) c"
  by (cases c)
    (simp_all add: traverses_ret traverses_map traverses_str traverses_each traverses_resp_part traverses_value)

definition resp_message_leaves :: "'o resp_message \<Rightarrow> leaves" where
  "resp_message_leaves msg =
     opt_leaves (resp_content_leaves (role_surface (rm_role msg))) (rm_content msg) @
     rmap_leaves (role_surface (rm_role msg)) (rm_extra msg)"

definition resp_message_fill :: "'o resp_message \<Rightarrow> 'o resp_message fill" where
  "resp_message_fill msg =
     fbind (foptional resp_content_fill (rm_content msg))
       (\<lambda>content. fmap (\<lambda>extra. msg\<lparr>rm_content := content, rm_extra := extra\<rparr>) (rmap_fill (rm_extra msg)))"

lemma traverses_resp_message:
  "traverses X (resp_walk_message X msg) (resp_message_leaves msg) (resp_message_fill msg) msg"
proof -
  have "traverses X (resp_walk_message X msg) (resp_message_leaves msg) (resp_message_fill msg)
      (msg\<lparr>rm_content := rm_content msg, rm_extra := rm_extra msg\<rparr>)"
    unfolding resp_walk_message_def Let_def resp_message_leaves_def resp_message_fill_def
    by (rule traverses_bind [OF traverses_optional [OF traverses_resp_content] traverses_map_safe])
  then show ?thesis by simp
qed

definition resp_call_leaves :: "'o resp_call \<Rightarrow> leaves" where
  "resp_call_leaves call = [(rl_arguments call, ToolUseInput)] @ rmap_leaves ToolUseInput (rl_extra call)"

definition resp_call_fill :: "'o resp_call \<Rightarrow> 'o resp_call fill" where
  "resp_call_fill call =
     fbind (fleaf (rl_arguments call))
       (\<lambda>a. fmap (\<lambda>extra. call\<lparr>rl_arguments := a, rl_extra := extra\<rparr>) (rmap_fill (rl_extra call)))"

definition resp_output_leaves :: "'o resp_call_output \<Rightarrow> leaves" where
  "resp_output_leaves out = [(ro_output out, ToolResult)] @ rmap_leaves ToolResult (ro_extra out)"

definition resp_output_fill :: "'o resp_call_output \<Rightarrow> 'o resp_call_output fill" where
  "resp_output_fill out =
     fbind (fleaf (ro_output out))
       (\<lambda>t. fmap (\<lambda>extra. out\<lparr>ro_output := t, ro_extra := extra\<rparr>) (rmap_fill (ro_extra out)))"

lemma traverses_resp_calls:
  "traverses X (resp_walk_call X call) (resp_call_leaves call) (resp_call_fill call) call"
  "traverses X (resp_walk_output X out) (resp_output_leaves out) (resp_output_fill out) out"
proof -
  have "traverses X (resp_walk_call X call) (resp_call_leaves call) (resp_call_fill call)
      (call\<lparr>rl_arguments := rl_arguments call, rl_extra := rl_extra call\<rparr>)"
    unfolding resp_walk_call_def resp_call_leaves_def resp_call_fill_def
    by (rule traverses_bind [OF traverses_str traverses_map_safe])
  then show "traverses X (resp_walk_call X call) (resp_call_leaves call) (resp_call_fill call) call"
    by simp
  have "traverses X (resp_walk_output X out) (resp_output_leaves out) (resp_output_fill out)
      (out\<lparr>ro_output := ro_output out, ro_extra := ro_extra out\<rparr>)"
    unfolding resp_walk_output_def resp_output_leaves_def resp_output_fill_def
    by (rule traverses_bind [OF traverses_str traverses_map_safe])
  then show "traverses X (resp_walk_output X out) (resp_output_leaves out) (resp_output_fill out) out"
    by simp
qed

fun resp_item_leaves :: "'o resp_item \<Rightarrow> leaves" where
  "resp_item_leaves (RiMessage msg) = resp_message_leaves msg"
| "resp_item_leaves (RiCall call) = resp_call_leaves call"
| "resp_item_leaves (RiCallOutput out) = resp_output_leaves out"
| "resp_item_leaves (RiOther v) = value_leaves resp_contract_key UserMessage v"
| "resp_item_leaves (RiUnknown r) = []"

fun resp_item_fill :: "'o resp_item \<Rightarrow> 'o resp_item fill" where
  "resp_item_fill (RiMessage msg) = fmap RiMessage (resp_message_fill msg)"
| "resp_item_fill (RiCall call) = fmap RiCall (resp_call_fill call)"
| "resp_item_fill (RiCallOutput out) = fmap RiCallOutput (resp_output_fill out)"
| "resp_item_fill (RiOther v) = fmap RiOther (value_fill resp_contract_key v)"
| "resp_item_fill (RiUnknown r) = fret (RiUnknown r)"

lemma traverses_resp_item:
  "traverses X (resp_walk_item X i) (resp_item_leaves i) (resp_item_fill i) i"
  by (cases i)
    (simp_all add: traverses_ret traverses_map traverses_resp_message traverses_resp_calls traverses_value)

fun resp_input_leaves :: "'o resp_input \<Rightarrow> leaves" where
  "resp_input_leaves (RinText t) = [(t, UserMessage)]"
| "resp_input_leaves (RinItems items) = concat (map resp_item_leaves items)"
| "resp_input_leaves (RinOther v) = value_leaves resp_contract_key UserMessage v"
| "resp_input_leaves (RinUnknown r) = []"

fun resp_input_fill :: "'o resp_input \<Rightarrow> 'o resp_input fill" where
  "resp_input_fill (RinText t) = fmap RinText (fleaf t)"
| "resp_input_fill (RinItems items) = fmap RinItems (feach resp_item_fill items)"
| "resp_input_fill (RinOther v) = fmap RinOther (value_fill resp_contract_key v)"
| "resp_input_fill (RinUnknown r) = fret (RinUnknown r)"

lemma traverses_resp_input:
  "traverses X (resp_walk_input X i) (resp_input_leaves i) (resp_input_fill i) i"
  by (cases i)
    (simp_all add: traverses_ret traverses_map traverses_str traverses_each traverses_resp_item traverses_value)

definition resp_request_leaves :: "'o resp_request \<Rightarrow> leaves" where
  "resp_request_leaves req =
     opt_leaves resp_input_leaves (rr_input req) @
     opt_leaves (\<lambda>t. [(t, SystemPrompt)]) (rr_instructions req) @
     opt_leaves (value_leaves resp_contract_key UserMessage) (rr_metadata req) @
     rmap_leaves UserMessage (rr_extra req)"

definition resp_request_fill :: "'o resp_request \<Rightarrow> 'o resp_request fill" where
  "resp_request_fill req =
     fbind (foptional resp_input_fill (rr_input req))
       (\<lambda>input. fbind (foptional fleaf (rr_instructions req))
         (\<lambda>instr. fbind (foptional (value_fill resp_contract_key) (rr_metadata req))
           (\<lambda>meta. fmap (\<lambda>extra. req\<lparr>rr_input := input, rr_instructions := instr,
                                    rr_metadata := meta, rr_extra := extra\<rparr>)
             (rmap_fill (rr_extra req)))))"

lemma traverses_resp_request:
  "traverses X (resp_walk_request X req) (resp_request_leaves req) (resp_request_fill req) req"
proof -
  have "traverses X (resp_walk_request X req) (resp_request_leaves req) (resp_request_fill req)
      (req\<lparr>rr_input := rr_input req, rr_instructions := rr_instructions req,
          rr_metadata := rr_metadata req, rr_extra := rr_extra req\<rparr>)"
    unfolding resp_walk_request_def resp_request_leaves_def resp_request_fill_def
    by (rule traverses_then [OF traverses_optional [OF traverses_resp_input]],
        rule traverses_then [OF traverses_optional [OF traverses_str]],
        rule traverses_then [OF traverses_optional [OF traverses_value(1)]],
        rule traverses_map [OF traverses_map_safe])
  then show ?thesis by simp
qed

text \<open>
  The Responses masker.  The leaves of a request are its input (texts, messages, calls and
  their outputs, and items of unknown shape), its instructions, its metadata and the members of
  unknown name, and what is sent is, as for the other two APIs, the request with these leaves
  masked by fresh detection in order and nothing else changed, or the first error.
\<close>

lemma resp_mask_refines:
  assumes "co_parse_request co body = Inr req"
    and "inj_on (hash_text X) (query_text ` request_queries e (resp_request_leaves req))"
    and "recognizer_ok (en_ml e)" and "en_cache e = cache_new n"
  shows "fst (resp_mask_request X co body e) =
      fst (spec_body X e (resp_request_leaves req)
        (\<lambda>us. co_print_request co (fst (resp_request_fill req us))) (en_store e)) \<and>
    en_store (snd (resp_mask_request X co body e)) =
      snd (spec_body X e (resp_request_leaves req)
        (\<lambda>us. co_print_request co (fst (resp_request_fill req us))) (en_store e)) \<and>
    resp_request_fill req (map fst (resp_request_leaves req)) = (req, [])"
proof -
  note t = traverses_resp_request [of X req]
  have r: "resp_mask_request X co body e = finish_mask (co_print_request co)
      (resp_walk_request X req (walker (prewarm_walk X (resp_walk_request X) req e)))"
    by (simp add: resp_mask_request_def assms(1))
  from traversed_body [OF t t assms(2-4) r] t show ?thesis by (simp add: traverses_def)
qed

text \<open>Requests with one text each.\<close>

definition sample_chat :: "unit chat_request" where
  "sample_chat =
     \<lparr>cr_messages = [\<lparr>cm_role = ''tool'', cm_content = Some (CcText ''hi bob''), cm_tool_call_id = None,
        cm_name = None, cm_tool_calls = None, cm_extra = [(''model'', JStr ''m'')], cm_rest = ()\<rparr>],
      cr_extra_thinking = Some [(''budget'', JNum ''1'')], cr_extra = [], cr_rest = ()\<rparr>"

definition sample_resp :: "unit resp_request" where
  "sample_resp =
     \<lparr>rr_input = Some (RinItems [RiCallOutput \<lparr>ro_output = ''hi bob'', ro_extra = [], ro_rest = ()\<rparr>]),
      rr_instructions = None, rr_metadata = None, rr_extra = [], rr_rest = ()\<rparr>"

definition const_codec :: "'q \<Rightarrow> ('q, unit, unit) codec" where
  "const_codec req =
     \<lparr>co_parse_request = (\<lambda>body. Inr req), co_print_request = (\<lambda>req. Inr ''{}''),
      co_parse_response = (\<lambda>body. Inl ()), co_print_response = (\<lambda>resp. Inl ())\<rparr>"

lemma sample_leaves:
  "chat_request_leaves sample_chat = [(''hi bob'', ToolResult)]"
  "resp_request_leaves sample_resp = [(''hi bob'', ToolResult)]"
  by (simp_all add: sample_chat_def chat_request_leaves_def chat_message_leaves_def fold_thinking_def
      or_insert_def role_surface_def chat_contract_key_def sample_resp_def resp_request_leaves_def
      resp_output_leaves_def)

lemma sample_premises:
  "inj_on (hash_text sample_ext) (query_text ` request_queries sample_engine [(''hi bob'', ToolResult)])"
  "recognizer_ok (en_ml sample_engine)" "en_cache sample_engine = cache_new 8"
  by (simp_all add: request_queries_def queries_of_def mask_texts_def recognizer_ok_def
      sample_engine_def ml_for_mask_def ml_default_def refresh_fp_def)

theorem chat_mask_refines_witness:
  "fst (chat_mask_request sample_ext (const_codec sample_chat) ''{}'' sample_engine) =
     fst (spec_body sample_ext sample_engine [(''hi bob'', ToolResult)]
       (\<lambda>us. Inr ''{}'') (en_store sample_engine)) \<and>
   chat_request_fill sample_chat [''hi bob''] = (fold_thinking sample_chat, [])"
  using chat_mask_refines [of "const_codec sample_chat" "''{}''" sample_chat sample_ext sample_engine 8]
    sample_premises by (simp add: sample_leaves const_codec_def)

theorem resp_mask_refines_witness:
  "fst (resp_mask_request sample_ext (const_codec sample_resp) ''{}'' sample_engine) =
     fst (spec_body sample_ext sample_engine [(''hi bob'', ToolResult)]
       (\<lambda>us. Inr ''{}'') (en_store sample_engine)) \<and>
   resp_request_fill sample_resp [''hi bob''] = (sample_resp, [])"
  using resp_mask_refines [of "const_codec sample_resp" "''{}''" sample_resp sample_ext sample_engine 8]
    sample_premises by (simp add: sample_leaves const_codec_def)

text \<open>An item of a shape the walk does not know, with one summary text.\<close>

definition reasoning_item :: "string \<Rightarrow> string \<Rightarrow> 'o resp_item" where
  "reasoning_item ty t =
     RiOther (JObj [(''summary'', JArr [JObj [(''type'', JStr ty), (''text'', JStr t)]])])"

text \<open>
  The text of an item of unknown shape goes upstream in the clear.  Such an item, for instance
  one with summary texts, is unmasked whole in a reply of the Responses API; when the client sends
  it back with the next request, the request walk takes the member \<open>text\<close> for a contract key and
  leaves the value in it as it is, although the reply had the token.
\<close>

lemma reasoning_text_leaks:
  assumes "unmask_str X now e m tok = p" and "unmask_str X now e m ty = ty"
  shows "unmask_output_item X now e m (reasoning_item ty tok) = reasoning_item ty p \<and>
    resp_item_leaves (reasoning_item ty p) = [(ty, UserMessage)] \<and>
    fst (resp_item_fill (reasoning_item ty p) [u]) = reasoning_item u p"
  using assms
  by (simp add: reasoning_item_def resp_contract_key_def is_base64_object_def json_str_def
      fmap_def fbind_def fret_def)

theorem reasoning_text_leaks_witness:
  "unmask_output_item sample_ext 0 sample_engine []
     (reasoning_item ''summary_text'' ''no token'' :: unit resp_item) =
     reasoning_item ''summary_text'' ''no token'' \<and>
   resp_item_leaves (reasoning_item ''summary_text'' ''no token'' :: unit resp_item) =
     [(''summary_text'', UserMessage)]"
proof -
  have plain: "unmask_str sample_ext 0 sample_engine [] t = t" if "tokens_in t = []" for t
    using that by (simp add: unmask_str_def unmask_def unmask_inner_scan token_scan_none)
  have "tokens_in ''no token'' = []" "tokens_in ''summary_text'' = []" by code_simp+
  then have "unmask_output_item sample_ext 0 sample_engine []
     (reasoning_item ''summary_text'' ''no token'' :: unit resp_item) =
       reasoning_item ''summary_text'' ''no token'' \<and>
     resp_item_leaves (reasoning_item ''summary_text'' ''no token'' :: unit resp_item) =
       [(''summary_text'', UserMessage)] \<and>
     fst (resp_item_fill (reasoning_item ''summary_text'' ''no token'' :: unit resp_item) [[]]) =
       reasoning_item [] ''no token''"
    by (intro reasoning_text_leaks plain)
  then show ?thesis by blast
qed

end
