(* ===== verification/Split.thy ===== *)
theory Split
  imports Tokens
begin

text \<open>
  The token-boundary core of the stream relays (\<open>classify\<close> and \<open>split_safe\<close> of \<open>sse.rs\<close>, repeated
  in the two OpenAI relays): a buffer is split into a prefix that is safe to unmask now and a
  held tail.  The interface \<open>stream_scan\<close> states what a relay needs of the split, and what
  follows for a text that arrives in chunks.
\<close>

section \<open>Splitting a buffer\<close>

datatype classify_result = Complete | Partial | No

definition partial_char :: "char \<Rightarrow> bool" where
  "partial_char c \<longleftrightarrow> is_upper_b c \<or> is_digit_b c \<or> c = CHR ''_'' \<or> is_hexdigit_b c"

text \<open>\<open>token_regex().find\<close> is the first match of \<open>find_iter\<close>.\<close>

definition classify :: "string \<Rightarrow> classify_result" where
  "classify tail =
     (if (case token_find_iter tail of [] \<Rightarrow> False | m # _ \<Rightarrow> fst m = 0) then Complete
      else if length tail > MAX_TOKEN_LEN then No
      else if list_all partial_char (drop 1 tail) then Partial else No)"

definition rfind_char :: "char \<Rightarrow> string \<Rightarrow> nat option" where
  "rfind_char c s =
     (if c \<in> set s then Some (length s - 1 - length (takeWhile (\<lambda>x. x \<noteq> c) (rev s))) else None)"

definition split_safe :: "string \<Rightarrow> string \<times> string" where
  "split_safe buf =
     (case rfind_char (CHR ''['') buf of
        None \<Rightarrow> (buf, [])
      | Some i \<Rightarrow>
          (case classify (drop i buf) of
             Partial \<Rightarrow> (take i buf, drop i buf)
           | _ \<Rightarrow> (buf, [])))"

section \<open>The split is sound\<close>

lemma rfind_char_Some:
  assumes "rfind_char c s = Some i"
  shows "i < length s" "drop i s = c # drop (Suc i) s" "c \<notin> set (drop (Suc i) s)"
proof -
  from assms have c: "c \<in> set s" by (simp add: rfind_char_def split: if_splits)
  then obtain u v where s: "s = u @ c # v" "c \<notin> set v" by (metis split_list_last)
  then have "takeWhile (\<lambda>x. x \<noteq> c) (rev s) = rev v"
    by (simp, subst takeWhile_append2) auto
  then have "i = length u" using assms c s by (simp add: rfind_char_def)
  with s show "i < length s" "drop i s = c # drop (Suc i) s" "c \<notin> set (drop (Suc i) s)"
    by simp_all
qed

lemma rfind_char_None: "rfind_char c s = None \<longleftrightarrow> c \<notin> set s"
  by (simp add: rfind_char_def)

lemma find_at_start:
  "(case token_find_iter tail of [] \<Rightarrow> False | m # _ \<Rightarrow> fst m = 0) \<longleftrightarrow> match_token tail \<noteq> None"
proof -
  have later: "\<forall>m\<in>set (token_spans off s). off \<le> fst m" for off s
  proof (induction s arbitrary: off rule: scan_induct)
    case (Token s n)
    from Token.IH [of "off + n"] show ?case by (auto simp: token_spans_simps(2) [OF Token.hyps])
  next
    case (Char c cs)
    from Char.IH [of "Suc off"] show ?case by (fastforce simp: token_spans_simps(3) [OF Char.hyps])
  qed (simp add: token_spans_simps)
  show ?thesis
  proof (cases "match_token tail")
    case (Some n)
    then show ?thesis by (simp add: token_find_iter_def token_spans_simps(2))
  next
    case None
    have "0 < fst m" if "token_find_iter tail = m # ms" for m ms
    proof (cases tail)
      case Nil
      with that show ?thesis by (simp add: token_find_iter_def token_spans_simps)
    next
      case (Cons c cs)
      with that None have "token_spans (Suc 0) cs = m # ms"
        by (simp add: token_find_iter_def token_spans_simps(3))
      with later [of "Suc 0" cs] show ?thesis by simp
    qed
    with None show ?thesis by (auto split: list.splits)
  qed
qed

definition short_tokens :: "string \<Rightarrow> bool" where
  "short_tokens s \<longleftrightarrow> (\<forall>t\<in>set (tokens_in s). length t \<le> MAX_TOKEN_LEN)"

lemma short_tokens_sublist: "sublist a b \<Longrightarrow> short_tokens b \<Longrightarrow> short_tokens a"
  using tokens_in_sublist [of a b] by (auto simp: short_tokens_def)

lemma partial_char_body: "is_entity_char c \<or> is_lhex c \<or> c = CHR ''_'' \<Longrightarrow> partial_char c"
  by (auto simp: partial_char_def is_entity_char_def is_lhex_is_hexdigit)

text \<open>A tail that is not held is not the beginning of a token that comes later.\<close>

lemma classify_No_inert:
  assumes "classify tail = No" and "tail = CHR ''['' # r" and "short_tokens (tail @ fut)"
  shows "match_token (tail @ fut) = None"
proof (rule ccontr)
  assume "match_token (tail @ fut) \<noteq> None"
  then obtain n where m: "match_token (tail @ fut) = Some n" by auto
  have no: "match_token tail = None"
    using assms(1) unfolding classify_def find_at_start by (simp split: if_splits)
  from m have n: "n \<le> length (tail @ fut)" "is_token (take n (tail @ fut))"
    by (simp_all add: match_token_iff)
  have "length tail < n"
  proof (rule ccontr)
    assume "\<not> length tail < n"
    with n have "match_token tail = Some n" by (simp add: match_token_iff)
    with no show False by simp
  qed
  then obtain k where k: "n = Suc (length tail + k)" by (metis less_imp_Suc_add)
  from n(2) obtain e h where t: "take n (tail @ fut) = ''['' @ e @ ''_'' @ h @ '']''"
    and eh: "list_all is_entity_char e" "list_all is_lhex h"
    by (auto simp: is_token_def)
  have "take n (tail @ fut) \<in> set (tokens_in (tail @ fut))"
    using n(2) sublist_take [of n "tail @ fut"] by (simp only: set_tokens_in mem_Collect_eq)
  then have "n \<le> MAX_TOKEN_LEN"
    using assms(3) n(1) by (fastforce simp: short_tokens_def)
  then have "\<not> list_all partial_char r"
    using assms(1,2) k unfolding classify_def by (simp split: if_splits)
  moreover have "list_all partial_char r"
  proof -
    define z where "z = e @ ''_'' @ h"
    have rz: "r @ take (Suc k) fut = z @ '']''"
      using t by (simp add: k assms(2) z_def)
    moreover have "0 < length (take (Suc k) fut)" using n(1) k by (cases fut) simp_all
    ultimately have "length r \<le> length z"
      by (metis Suc_leI add_less_cancel_left length_append length_append_singleton less_Suc_eq_le
          less_add_same_cancel1)
    then have "r = take (length r) z"
      using arg_cong [OF rz, of "take (length r)"] by simp
    then have "set r \<subseteq> set (e @ ''_'' @ h)" unfolding z_def by (metis set_take_subset)
    then show ?thesis
      using eh partial_char_body by (auto simp: list_all_iff)
  qed
  ultimately show False by simp
qed

lemma split_safe_cases:
  assumes "split_safe buf = (safe, held)"
  obtains (none) "safe = buf" "held = []" "CHR ''['' \<notin> set buf"
  | (partial) r where "buf = safe @ held" "held = CHR ''['' # r" "CHR ''['' \<notin> set r"
      "classify held = Partial"
  | (whole) u r where "safe = buf" "held = []" "buf = u @ CHR ''['' # r" "CHR ''['' \<notin> set r"
      "classify (CHR ''['' # r) \<noteq> Partial"
proof (cases "rfind_char (CHR ''['') buf")
  case None
  with assms none show ?thesis by (simp add: split_safe_def rfind_char_None)
next
  case (Some i)
  note i = rfind_char_Some [OF Some]
  have buf: "buf = take i buf @ CHR ''['' # drop (Suc i) buf"
    using i(2) by (metis append_take_drop_id)
  show ?thesis
  proof (cases "classify (drop i buf) = Partial")
    case True
    then have "safe = take i buf" "held = drop i buf"
      using assms Some by (simp_all add: split_safe_def)
    with partial [of "drop (Suc i) buf"] buf i True show ?thesis by simp
  next
    case False
    then have "safe = buf" "held = []"
      using assms Some by (auto simp: split_safe_def split: classify_result.splits)
    with whole [of "take i buf" "drop (Suc i) buf"] buf i False show ?thesis by simp
  qed
qed

lemma split_safe_parts: "split_safe buf = (safe, held) \<Longrightarrow> buf = safe @ held"
  by (erule split_safe_cases) simp_all

lemma split_safe_bound: "split_safe buf = (safe, held) \<Longrightarrow> length held \<le> MAX_TOKEN_LEN"
  by (erule split_safe_cases) (auto simp: classify_def split: if_splits)

lemma match_token_no_bracket: "CHR ''['' \<notin> set s \<Longrightarrow> match_token (s @ v) = None \<or> s = []"
  by (cases s) (auto simp: match_token_not_open)

lemma tokens_in_no_bracket: "CHR ''['' \<notin> set s \<Longrightarrow> tokens_in s = []"
  by (induction s) (simp_all add: tokens_in_simps match_token_not_open [OF not_sym])

lemma split_safe_held: "split_safe buf = (safe, held) \<Longrightarrow> tokens_in held = []"
proof (erule split_safe_cases)
  fix r
  assume "held = CHR ''['' # r" "CHR ''['' \<notin> set r" "classify held = Partial"
  moreover from this have "match_token held = None"
    unfolding classify_def find_at_start by (simp split: if_splits)
  ultimately show "tokens_in held = []" by (simp add: tokens_in_simps(3) tokens_in_no_bracket)
qed (simp_all add: tokens_in_simps)

lemma split_safe_no_straddle:
  assumes "split_safe buf = (safe, held)" and "short_tokens (buf @ fut)"
  shows "no_straddle safe (held @ fut)"
  using assms(1)
proof (cases rule: split_safe_cases)
  case none
  have "match_token (drop i buf @ fut) = match_token (drop i buf)" if "i < length buf" for i
  proof -
    have "CHR ''['' \<notin> set (drop i buf)" using none(3) by (meson in_set_dropD)
    then show ?thesis
      using match_token_no_bracket [of "drop i buf" fut] match_token_no_bracket [of "drop i buf" "[]"] that
      by auto
  qed
  with none show ?thesis by (simp add: no_straddle_def)
next
  case (partial r)
  then show ?thesis by auto
next
  case (whole u r)
  have tail: "match_token ((CHR ''['' # r) @ fut) = match_token (CHR ''['' # r)"
  proof (cases "match_token (CHR ''['' # r)")
    case (Some n)
    then show ?thesis using match_token_append [OF Some, of fut] by simp
  next
    case None
    with whole(5) have "classify (CHR ''['' # r) = No"
      unfolding classify_def find_at_start by (simp split: if_splits)
    moreover have "short_tokens ((CHR ''['' # r) @ fut)"
      by (rule short_tokens_sublist [OF _ assms(2)])
        (metis whole(3) append_assoc sublist_appendI append_Nil2)
    ultimately show ?thesis using classify_No_inert None by simp
  qed
  have "match_token (drop i buf @ fut) = match_token (drop i buf)" if i: "i < length buf" for i
  proof -
    consider "i < length u" | "i = length u" | "length u < i" by linarith
    then show ?thesis
    proof cases
      case 1
      then show ?thesis
        using match_token_open [of "drop i u" "r @ fut"] match_token_open [of "drop i u" r]
        by (simp add: whole(3))
    next
      case 2
      then show ?thesis using tail by (simp add: whole(3))
    next
      case 3
      then have "drop i buf = drop (i - Suc (length u)) r" by (simp add: whole(3) drop_Cons')
      then have "CHR ''['' \<notin> set (drop i buf)" using whole(4) by (auto dest: in_set_dropD)
      then show ?thesis
        using match_token_no_bracket [of "drop i buf" fut] match_token_no_bracket [of "drop i buf" "[]"] i
        by auto
    qed
  qed
  with whole show ?thesis by (simp add: no_straddle_def)
qed

text \<open>
  C20: the split of a stream buffer.  The parts put together are the buffer, the held tail is at
  most \<open>MAX_TOKEN_LEN\<close> bytes and holds no complete token, and whatever text follows, as long as
  no token is longer than \<open>MAX_TOKEN_LEN\<close>, rewriting the tokens of the safe part now and those
  of the rest later gives the tokens rewritten of the whole.
\<close>

theorem split_safe_correct:
  assumes "split_safe buf = (safe, held)" and "short_tokens (buf @ fut)"
  shows "buf = safe @ held \<and> length held \<le> MAX_TOKEN_LEN \<and> tokens_in held = [] \<and>
    token_scan f (buf @ fut) = token_scan f safe @ token_scan f (held @ fut)"
  using split_safe_parts [OF assms(1)] split_safe_bound [OF assms(1)] split_safe_held [OF assms(1)]
    token_scan_append [OF split_safe_no_straddle [OF assms]]
  by simp

theorem split_safe_correct_witness:
  "token_scan (map ascii_upper) (''ab [EMA'' @ ''IL'') =
     token_scan (map ascii_upper) ''ab '' @ token_scan (map ascii_upper) (''[EMA'' @ ''IL'')"
proof -
  have "split_safe ''ab [EMA'' = (''ab '', ''[EMA'')" by code_simp
  moreover have "tokens_in (''ab [EMA'' @ ''IL'') = []" by code_simp
  then have "short_tokens (''ab [EMA'' @ ''IL'')" by (simp add: short_tokens_def)
  ultimately show ?thesis using split_safe_correct by blast
qed

section \<open>The interface of a relay\<close>

locale stream_scan =
  fixes split :: "string \<Rightarrow> string \<times> string"
    and scan :: "string \<Rightarrow> string"
    and ok :: "string \<Rightarrow> bool"
  assumes parts: "split buf = (safe, held) \<Longrightarrow> buf = safe @ held"
    and scan_split: "ok (buf @ fut) \<Longrightarrow> split buf = (safe, held) \<Longrightarrow>
      scan (buf @ fut) = scan safe @ scan (held @ fut)"
    and scan_held: "split buf = (safe, held) \<Longrightarrow> scan held = held"
    and ok_suffix: "ok (u @ v) \<Longrightarrow> ok v"
    and scan_Nil: "scan [] = []"
begin

text \<open>One channel: the chunks in order, the carry; what is emitted and what stays held.\<close>

fun feed :: "string list \<Rightarrow> string \<Rightarrow> string \<times> string" where
  "feed [] c = ([], c)"
| "feed (x # xs) c =
     (let (safe, held) = split (c @ x); (out, c') = feed xs held in (scan safe @ out, c'))"

lemma feed_scan:
  "ok (c @ concat xs @ fut) \<Longrightarrow> feed xs c = (out, c') \<Longrightarrow>
   scan (c @ concat xs @ fut) = out @ scan (c' @ fut) \<and> ok (c' @ fut)"
proof (induction xs arbitrary: c out)
  case Nil
  then show ?case by simp
next
  case (Cons x xs)
  obtain safe held where s: "split (c @ x) = (safe, held)" by fastforce
  obtain out' c'' where f: "feed xs held = (out', c'')" by fastforce
  with Cons.prems(2) s have out: "out = scan safe @ out'" "c'' = c'" by simp_all
  have all: "c @ concat (x # xs) @ fut = safe @ held @ concat xs @ fut"
    using parts [OF s] by simp
  have "ok (held @ concat xs @ fut)"
    using Cons.prems(1) unfolding all by (rule ok_suffix)
  from Cons.IH [OF this f [unfolded out(2)]]
  have IH: "scan (held @ concat xs @ fut) = out' @ scan (c' @ fut) \<and> ok (c' @ fut)" .
  have "scan ((c @ x) @ concat xs @ fut) = scan safe @ scan (held @ concat xs @ fut)"
    using Cons.prems(1) by (intro scan_split [OF _ s]) simp
  with IH out show ?case by simp
qed

lemma feed_held: "scan c = c \<Longrightarrow> feed xs c = (out, c') \<Longrightarrow> scan c' = c'"
proof (induction xs arbitrary: c out)
  case (Cons x xs)
  obtain safe held where s: "split (c @ x) = (safe, held)" by fastforce
  obtain out' c'' where f: "feed xs held = (out', c'')" by fastforce
  with Cons s scan_held [OF s] show ?case by simp
qed simp

text \<open>The whole stream: what was emitted with the flushed tail is the scanned text.\<close>

lemma feed_all:
  assumes "ok (concat xs)" and "feed xs [] = (out, c)"
  shows "out @ scan c = scan (concat xs)"
  using feed_scan [of "[]" xs "[]" out c] assms by simp

text \<open>
  The same without the list: what was fed, what was emitted, and the carry, seen from any
  future.
\<close>

definition relayed :: "string \<Rightarrow> string \<Rightarrow> string \<Rightarrow> bool" where
  "relayed fed out c \<longleftrightarrow>
     scan c = c \<and> (\<forall>fut. ok (fed @ fut) \<longrightarrow> ok (c @ fut) \<and> scan (fed @ fut) = out @ scan (c @ fut))"

lemma relayed_Nil: "relayed [] [] []"
  by (simp add: relayed_def scan_Nil)

lemma relayed_step:
  assumes "relayed fed out c" and "split (c @ t) = (safe, held)"
  shows "relayed (fed @ t) (out @ scan safe) held"
  unfolding relayed_def
proof (intro conjI allI impI)
  show "scan held = held" by (rule scan_held [OF assms(2)])
  fix fut
  assume ok: "ok ((fed @ t) @ fut)"
  then have c: "ok (c @ t @ fut)" "scan (fed @ t @ fut) = out @ scan (c @ t @ fut)"
    using assms(1) by (simp_all add: relayed_def)
  have "c @ t @ fut = safe @ held @ fut" using parts [OF assms(2)] by (metis append_assoc)
  with c(1) show "ok (held @ fut)" by (metis ok_suffix)
  show "scan ((fed @ t) @ fut) = (out @ scan safe) @ scan (held @ fut)"
    using c scan_split [OF _ assms(2), of fut] by simp
qed

lemma relayed_end: "relayed fed out c \<Longrightarrow> ok fed \<Longrightarrow> out @ c = scan fed"
  unfolding relayed_def by (metis append_Nil2)

end

interpretation tokens: stream_scan split_safe "token_scan f" short_tokens for f
proof unfold_locales
  fix buf safe held fut u v
  show "split_safe buf = (safe, held) \<Longrightarrow> buf = safe @ held" by (rule split_safe_parts)
  show "short_tokens (buf @ fut) \<Longrightarrow> split_safe buf = (safe, held) \<Longrightarrow>
      token_scan f (buf @ fut) = token_scan f safe @ token_scan f (held @ fut)"
    using token_scan_append [OF split_safe_no_straddle] split_safe_parts by fastforce
  show "split_safe buf = (safe, held) \<Longrightarrow> token_scan f held = held"
    by (rule token_scan_none) (rule split_safe_held)
  show "short_tokens (u @ v) \<Longrightarrow> short_tokens v"
    using short_tokens_sublist [of v "u @ v"] by simp
  show "token_scan f [] = []" by (simp add: token_scan_simps)
qed

end
