(* ===== verification/Sse.thy ===== *)
theory Sse
  imports Walk Split "HOL-Library.AList"
begin

text \<open>
  The streaming unmasker of Anthropic responses (\<open>sse.rs\<close> of the proxy): one carry per content
  block, the kind of the block for the flush of its tail, and the relay that turns parsed events
  into frames.  The maps of the state are association lists; the order of the final drain is the
  order of the list, and no result depends on it.
\<close>

section \<open>Events and state\<close>

datatype held_kind = HeldText | HeldCompaction | HeldInputJson

datatype 'o content_delta =
    TextDelta string
  | CompactionDelta string
  | InputJsonDelta string
  | CitationsDelta json
  | OtherDelta 'o

datatype 'o stream_event =
    MessageStart 'o
  | ContentBlockStart nat "'o content_block"
  | ContentBlockDelta nat "'o content_delta"
  | ContentBlockStop nat
  | MessageDelta 'o
  | MessageStop
  | Ping
  | ErrorEvent 'o
  | UnknownEvent 'o

definition is_reveal :: "held_kind \<Rightarrow> bool" where
  "is_reveal kind \<longleftrightarrow> kind = HeldText"

fun kind_delta :: "held_kind \<Rightarrow> string \<Rightarrow> 'o content_delta" where
  "kind_delta HeldText t = TextDelta t"
| "kind_delta HeldCompaction t = CompactionDelta t"
| "kind_delta HeldInputJson t = InputJsonDelta t"

record sse_unmasker =
  su_carry :: "(nat \<times> string) list"
  su_held_kind :: "(nat \<times> held_kind) list"

definition sse_unmasker_new :: sse_unmasker where
  "sse_unmasker_new = \<lparr>su_carry = [], su_held_kind = []\<rparr>"

section \<open>One event\<close>

definition buffered ::
  "'x ext_scheme \<Rightarrow> nat \<Rightarrow> mask_engine \<Rightarrow> unmask_manifest \<Rightarrow> nat \<Rightarrow> string \<Rightarrow> held_kind \<Rightarrow>
   sse_unmasker \<Rightarrow> 'o stream_event list \<times> sse_unmasker" where
  "buffered X now e m index incoming kind u =
     (let buf = (case map_of (su_carry u) index of None \<Rightarrow> [] | Some c \<Rightarrow> c) @ incoming;
          (safe, held) = split_safe buf;
          emitted = (if is_reveal kind then unmask_str_assistant X now e m safe
                     else unmask_str X now e m safe);
          u' = u\<lparr>su_carry := AList.update index held (su_carry u),
                su_held_kind := AList.update index kind (su_held_kind u)\<rparr>
      in (if emitted = [] then [] else [ContentBlockDelta index (kind_delta kind emitted)], u'))"

fun on_delta ::
  "'x ext_scheme \<Rightarrow> nat \<Rightarrow> mask_engine \<Rightarrow> unmask_manifest \<Rightarrow> nat \<Rightarrow> 'o content_delta \<Rightarrow>
   sse_unmasker \<Rightarrow> 'o stream_event list \<times> sse_unmasker" where
  "on_delta X now e m index (TextDelta t) u = buffered X now e m index t HeldText u"
| "on_delta X now e m index (CompactionDelta t) u = buffered X now e m index t HeldCompaction u"
| "on_delta X now e m index (InputJsonDelta t) u = buffered X now e m index t HeldInputJson u"
| "on_delta X now e m index (CitationsDelta c) u =
     ([ContentBlockDelta index (CitationsDelta (unmask_value X now e m c))], u)"
| "on_delta X now e m index (OtherDelta r) u = ([ContentBlockDelta index (OtherDelta r)], u)"

definition kind_or_text :: "nat \<Rightarrow> sse_unmasker \<Rightarrow> held_kind" where
  "kind_or_text index u =
     (case map_of (su_held_kind u) index of None \<Rightarrow> HeldText | Some k \<Rightarrow> k)"

text \<open>The tail of a block, flushed as a delta of its kind.\<close>

definition flush ::
  "'x ext_scheme \<Rightarrow> nat \<Rightarrow> mask_engine \<Rightarrow> unmask_manifest \<Rightarrow> nat \<Rightarrow> held_kind \<Rightarrow> string \<Rightarrow>
   'o stream_event list" where
  "flush X now e m index kind held =
     (let flushed = unmask_str X now e m held
      in if held = [] \<or> flushed = [] then [] else [ContentBlockDelta index (kind_delta kind flushed)])"

fun process ::
  "'x ext_scheme \<Rightarrow> nat \<Rightarrow> mask_engine \<Rightarrow> unmask_manifest \<Rightarrow> 'o stream_event \<Rightarrow>
   sse_unmasker \<Rightarrow> 'o stream_event list \<times> sse_unmasker" where
  "process X now e m (ContentBlockStart index b) u =
     ([ContentBlockStart index b], u\<lparr>su_carry := AList.update index [] (su_carry u)\<rparr>)"
| "process X now e m (ContentBlockStop index) u =
     ((case map_of (su_carry u) index of
         None \<Rightarrow> []
       | Some held \<Rightarrow> flush X now e m index (kind_or_text index u) held) @ [ContentBlockStop index],
      u\<lparr>su_carry := AList.delete index (su_carry u),
        su_held_kind := AList.delete index (su_held_kind u)\<rparr>)"
| "process X now e m (ContentBlockDelta index d) u = on_delta X now e m index d u"
| "process X now e m ev u = ([ev], u)"

text \<open>What is still held at the end, each tail with its kind; the carries are gone.\<close>

definition drain :: "sse_unmasker \<Rightarrow> (nat \<times> held_kind \<times> string) list \<times> sse_unmasker" where
  "drain u =
     (map (\<lambda>(index, v). (index, kind_or_text index u, v)) (filter (\<lambda>(_, v). v \<noteq> []) (su_carry u)),
      u\<lparr>su_carry := []\<rparr>)"

fun process_all ::
  "'x ext_scheme \<Rightarrow> nat \<Rightarrow> mask_engine \<Rightarrow> unmask_manifest \<Rightarrow> 'o stream_event list \<Rightarrow>
   sse_unmasker \<Rightarrow> 'o stream_event list \<times> sse_unmasker" where
  "process_all X now e m [] u = ([], u)"
| "process_all X now e m (ev # evs) u =
     (let (out, u1) = process X now e m ev u; (outs, u2) = process_all X now e m evs u1
      in (out @ outs, u2))"

section \<open>The relay\<close>

fun event_name :: "'o stream_event \<Rightarrow> string" where
  "event_name (MessageStart _) = ''message_start''"
| "event_name (ContentBlockStart _ _) = ''content_block_start''"
| "event_name (ContentBlockDelta _ _) = ''content_block_delta''"
| "event_name (ContentBlockStop _) = ''content_block_stop''"
| "event_name (MessageDelta _) = ''message_delta''"
| "event_name MessageStop = ''message_stop''"
| "event_name Ping = ''ping''"
| "event_name (ErrorEvent _) = ''error''"
| "event_name (UnknownEvent _) = ''unknown''"

definition frame :: "string \<Rightarrow> string \<Rightarrow> string" where
  "frame name data = ''event: '' @ name @ [CHR 0x0A] @ ''data: '' @ data @ [CHR 0x0A, CHR 0x0A]"

text \<open>Reading and writing one event is the work of \<open>serde_json\<close>.\<close>

record 'o event_wire =
  ew_parse :: "string \<Rightarrow> 'o stream_event option"
  ew_print :: "'o stream_event \<Rightarrow> string option"

definition frame_for :: "'o event_wire \<Rightarrow> 'o stream_event \<Rightarrow> string" where
  "frame_for ew ev = (case ew_print ew ev of Some data \<Rightarrow> frame (event_name ev) data | None \<Rightarrow> [])"

text \<open>One item of the upstream: an event with its name and data, or a transport error.\<close>

datatype sse_item = SseData "string option" string | SseFailed

definition enqueue ::
  "'x ext_scheme \<Rightarrow> nat \<Rightarrow> mask_engine \<Rightarrow> unmask_manifest \<Rightarrow> 'o event_wire \<Rightarrow> string option \<Rightarrow>
   string \<Rightarrow> sse_unmasker \<Rightarrow> string list \<times> sse_unmasker" where
  "enqueue X now e m ew name data u =
     (case ew_parse ew data of
        Some ev \<Rightarrow> (let (out, u') = process X now e m ev u in (map (frame_for ew) out, u'))
      | None \<Rightarrow> ([frame (case name of None \<Rightarrow> ''message'' | Some n \<Rightarrow> n) data], u))"

text \<open>A transport error ends the stream without the drain.\<close>

fun unmask_sse_body ::
  "'x ext_scheme \<Rightarrow> nat \<Rightarrow> mask_engine \<Rightarrow> unmask_manifest \<Rightarrow> 'o event_wire \<Rightarrow> sse_item list \<Rightarrow>
   sse_unmasker \<Rightarrow> string list" where
  "unmask_sse_body X now e m ew [] u =
     map (frame_for ew)
       (concat (map (\<lambda>(index, kind, held). flush X now e m index kind held) (fst (drain u))))"
| "unmask_sse_body X now e m ew (SseFailed # items) u = []"
| "unmask_sse_body X now e m ew (SseData name data # items) u =
     (let (out, u') = enqueue X now e m ew name data u
      in out @ unmask_sse_body X now e m ew items u')"

section \<open>The monitor's copy\<close>

fun skip_csi :: "string \<Rightarrow> string" where
  "skip_csi [] = []"
| "skip_csi (c # cs) = (if 0x40 \<le> code c \<and> code c \<le> 0x7E then cs else skip_csi cs)"

lemma skip_csi_length: "length (skip_csi s) \<le> length s"
  by (induction s) auto

function strip_terminal_codes :: "string \<Rightarrow> string" where
  "strip_terminal_codes [] = []"
| "strip_terminal_codes (c # cs) =
     (if c \<noteq> CHR 0x1B then c # strip_terminal_codes cs
      else case cs of
          [] \<Rightarrow> []
        | d # ds \<Rightarrow>
            if d = CHR ''['' then strip_terminal_codes (skip_csi ds) else strip_terminal_codes cs)"
  by pat_completeness auto
termination
  by (relation "measure length") (auto simp: le_imp_less_Suc skip_csi_length less_Suc_eq_le le_Suc_eq)

definition clean_capture :: "mask_engine \<Rightarrow> string \<Rightarrow> string" where
  "clean_capture e t = strip_terminal_codes (strip_reveal_marker e t)"

end
