(* ===== verification/SseCorrect.thy ===== *)
theory SseCorrect
  imports Sse RoundTrip
begin

text \<open>
  The streamed reply against the whole one: blocks do not influence each other, and within a
  block the emitted text is the unmasked concatenation of what arrived, however the model's text
  was cut into deltas.  The proof is the interface \<open>stream_scan\<close> on the blocks' carries.
\<close>

section \<open>Blocks are independent\<close>

fun event_index :: "'o stream_event \<Rightarrow> nat option" where
  "event_index (ContentBlockStart i _) = Some i"
| "event_index (ContentBlockDelta i _) = Some i"
| "event_index (ContentBlockStop i) = Some i"
| "event_index ev = None"

definition of_block :: "nat \<Rightarrow> 'o stream_event list \<Rightarrow> 'o stream_event list" where
  "of_block i evs = filter (\<lambda>ev. event_index ev = Some i) evs"

lemma of_block_simps [simp]:
  "of_block i [] = []"
  "of_block i (ev # evs) = (if event_index ev = Some i then ev # of_block i evs else of_block i evs)"
  "of_block i (evs @ evs') = of_block i evs @ of_block i evs'"
  by (simp_all add: of_block_def)

text \<open>What the state holds for a block.\<close>

definition block_state :: "nat \<Rightarrow> sse_unmasker \<Rightarrow> string option \<times> held_kind option" where
  "block_state i u = (map_of (su_carry u) i, map_of (su_held_kind u) i)"

lemma on_delta_index:
  "list_all (\<lambda>ev. event_index ev = Some i) (fst (on_delta X now e m i d u))"
  by (cases d) (simp_all add: buffered_def Let_def case_prod_unfold)

lemma process_index:
  "list_all (\<lambda>ev'. event_index ev' = event_index ev) (fst (process X now e m ev u))"
  using on_delta_index
  by (cases ev) (auto simp: flush_def Let_def split: option.splits)

lemma of_block_all: "list_all (\<lambda>ev. event_index ev = Some i) evs \<Longrightarrow> of_block i evs = evs"
  unfolding of_block_def by (simp add: list_all_iff)

lemma of_block_none:
  "list_all (\<lambda>ev. event_index ev = j) evs \<Longrightarrow> j \<noteq> Some i \<Longrightarrow> of_block i evs = []"
  by (induction evs) auto

lemma process_other:
  assumes "event_index ev \<noteq> Some i"
  shows "of_block i (fst (process X now e m ev u)) = []"
    and "block_state i (snd (process X now e m ev u)) = block_state i u"
proof -
  show "of_block i (fst (process X now e m ev u)) = []"
    by (rule of_block_none [OF process_index assms])
  show "block_state i (snd (process X now e m ev u)) = block_state i u"
  proof (cases ev)
    case (ContentBlockDelta j d)
    with assms show ?thesis
      by (cases d) (simp_all add: buffered_def Let_def case_prod_unfold block_state_def update_conv')
  qed (use assms in \<open>simp_all add: block_state_def update_conv' delete_conv'\<close>)
qed

lemma process_same:
  assumes "event_index ev = Some i" and "block_state i u = block_state i v"
  shows "fst (process X now e m ev u) = fst (process X now e m ev v)"
    and "block_state i (snd (process X now e m ev u)) = block_state i (snd (process X now e m ev v))"
proof -
  have s: "map_of (su_carry u) i = map_of (su_carry v) i"
    "map_of (su_held_kind u) i = map_of (su_held_kind v) i"
    using assms(2) by (simp_all add: block_state_def)
  have "fst (process X now e m ev u) = fst (process X now e m ev v) \<and>
    block_state i (snd (process X now e m ev u)) = block_state i (snd (process X now e m ev v))"
  proof (cases ev)
    case (ContentBlockDelta j d)
    with assms(1) s show ?thesis
      by (cases d)
        (simp_all add: buffered_def Let_def case_prod_unfold block_state_def update_conv')
  qed (use assms(1) s in
      \<open>simp_all add: block_state_def update_conv' delete_conv' kind_or_text_def split: option.split\<close>)
  then show "fst (process X now e m ev u) = fst (process X now e m ev v)"
    "block_state i (snd (process X now e m ev u)) = block_state i (snd (process X now e m ev v))"
    by simp_all
qed

lemma process_all_append:
  "process_all X now e m (evs @ evs') u =
   (fst (process_all X now e m evs u) @
      fst (process_all X now e m evs' (snd (process_all X now e m evs u))),
    snd (process_all X now e m evs' (snd (process_all X now e m evs u))))"
  by (induction evs arbitrary: u) (simp_all add: case_prod_unfold Let_def)

lemma process_all_block:
  "block_state i u = block_state i v \<Longrightarrow>
   of_block i (fst (process_all X now e m evs u)) = fst (process_all X now e m (of_block i evs) v) \<and>
   block_state i (snd (process_all X now e m evs u)) =
     block_state i (snd (process_all X now e m (of_block i evs) v))"
proof (induction evs arbitrary: u v)
  case Nil
  then show ?case by simp
next
  case (Cons ev evs)
  show ?case
  proof (cases "event_index ev = Some i")
    case True
    note same = process_same [OF True Cons.prems, of X now e m]
    have "of_block i (fst (process X now e m ev v)) = fst (process X now e m ev v)"
      by (rule of_block_all) (use process_index [of ev X now e m v] True in simp)
    with True Cons.IH [OF same(2)] same(1) show ?thesis by (simp add: case_prod_unfold Let_def)
  next
    case False
    with process_other [OF False, of X now e m u] Cons.IH [of "snd (process X now e m ev u)" v] Cons.prems
    show ?thesis by (simp add: case_prod_unfold Let_def)
  qed
qed

section \<open>One block\<close>

text \<open>The rewriting of one token on the path of a block kind.\<close>

definition kind_token ::
  "'x ext_scheme \<Rightarrow> nat \<Rightarrow> mask_engine \<Rightarrow> unmask_manifest \<Rightarrow> held_kind \<Rightarrow> string \<Rightarrow> string" where
  "kind_token X now e m kind =
     (if is_reveal kind
      then (let marker = ec_reveal_marker (po_config (en_policy e))
            in unmask_token X now (en_store e) m (if rm_is_active marker then Some marker else None) True)
      else unmask_token X now (en_store e) m None False)"

definition unmask_kind ::
  "'x ext_scheme \<Rightarrow> nat \<Rightarrow> mask_engine \<Rightarrow> unmask_manifest \<Rightarrow> held_kind \<Rightarrow> string \<Rightarrow> string" where
  "unmask_kind X now e m kind t =
     (if is_reveal kind then unmask_str_assistant X now e m t else unmask_str X now e m t)"

lemma unmask_kind_scan:
  "grammar_manifest m \<Longrightarrow> unmask_kind X now e m kind t = token_scan (kind_token X now e m kind) t"
  by (simp add: unmask_kind_def kind_token_def unmask_str_def unmask_str_assistant_def unmask_def
      unmask_assistant_def unmask_inner_scan unmask_literals_grammar Let_def)

lemma unmask_str_held:
  "grammar_manifest m \<Longrightarrow> tokens_in t = [] \<Longrightarrow> unmask_str X now e m t = t"
  using unmask_kind_scan [of m X now e HeldInputJson t]
  by (simp add: unmask_kind_def is_reveal_def token_scan_none)

lemma kind_delta_step:
  "process X now e m (ContentBlockDelta i (kind_delta kind t)) u = buffered X now e m i t kind u"
  by (cases kind) simp_all

abbreviation deltas :: "nat \<Rightarrow> held_kind \<Rightarrow> string list \<Rightarrow> 'o stream_event list" where
  "deltas i kind ts \<equiv> map (\<lambda>t. ContentBlockDelta i (kind_delta kind t)) ts"

lemma process_deltas:
  assumes "grammar_manifest m"
  shows "map_of (su_carry u) i = Some c \<Longrightarrow>
    tokens.feed (kind_token X now e m kind) ts c = (out, c') \<Longrightarrow>
    \<exists>us u'. process_all X now e m (deltas i kind ts) u = (deltas i kind us :: 'o stream_event list, u') \<and>
      concat us = out \<and> [] \<notin> set us \<and> map_of (su_carry u') i = Some c' \<and>
      map_of (su_held_kind u') i = (if ts = [] then map_of (su_held_kind u) i else Some kind)"
proof (induction ts arbitrary: u c out)
  case Nil
  then show ?case by (intro exI [of _ "[]"] exI [of _ u]) simp
next
  case (Cons t ts)
  let ?f = "kind_token X now e m kind"
  obtain safe held where s: "split_safe (c @ t) = (safe, held)" by fastforce
  obtain out' c'' where f: "tokens.feed ?f ts held = (out', c'')" by fastforce
  with Cons.prems(2) s have out: "out = token_scan ?f safe @ out'" "c'' = c'" by simp_all
  define u1 where "u1 = u\<lparr>su_carry := AList.update i held (su_carry u),
    su_held_kind := AList.update i kind (su_held_kind u)\<rparr>"
  define vs where "vs = (if token_scan ?f safe = [] then [] else [token_scan ?f safe])"
  have step: "process X now e m (ContentBlockDelta i (kind_delta kind t)) u = (deltas i kind vs :: 'o stream_event list, u1)"
    unfolding kind_delta_step buffered_def
    using unmask_kind_scan [OF assms, of X now e kind safe]
    by (simp add: Cons.prems(1) s Let_def u1_def vs_def unmask_kind_def)
  have "map_of (su_carry u1) i = Some held" by (simp add: u1_def update_conv')
  from Cons.IH [OF this f [unfolded out(2)]] obtain us u' where
    IH: "process_all X now e m (deltas i kind ts) u1 = (deltas i kind us :: 'o stream_event list, u')" "concat us = out'"
      "[] \<notin> set us" "map_of (su_carry u') i = Some c'"
      "map_of (su_held_kind u') i = (if ts = [] then map_of (su_held_kind u1) i else Some kind)"
    by blast
  have "map_of (su_held_kind u1) i = Some kind" by (simp add: u1_def update_conv')
  with IH step out show ?case
    by (intro exI [of _ "vs @ us"] exI [of _ u']) (auto simp: vs_def)
qed

text \<open>A block that was started and not yet stopped.\<close>

lemma process_open_block:
  assumes "grammar_manifest m" and "short_tokens (concat ts)"
  shows "\<exists>us c u'. process_all X now e m (ContentBlockStart i (b :: 'o content_block) # deltas i kind ts) u =
      (ContentBlockStart i b # deltas i kind us, u') \<and>
    map_of (su_carry u') i = Some c \<and> [] \<notin> set us \<and>
    (flush X now e m i (kind_or_text i u') c :: 'o stream_event list) =
      deltas i kind (if c = [] then [] else [c]) \<and>
    concat us @ c = unmask_kind X now e m kind (concat ts)"
proof -
  let ?f = "kind_token X now e m kind"
  define u0 where "u0 = u\<lparr>su_carry := AList.update i [] (su_carry u)\<rparr>"
  obtain out c where f: "tokens.feed ?f ts [] = (out, c)" by fastforce
  have "map_of (su_carry u0) i = Some []" by (simp add: u0_def update_conv')
  from process_deltas [OF assms(1) this f] obtain us u' where
    ds: "process_all X now e m (deltas i kind ts) u0 = (deltas i kind us :: 'o stream_event list, u')"
      "concat us = out" "[] \<notin> set us" "map_of (su_carry u') i = Some c"
      "map_of (su_held_kind u') i = (if ts = [] then map_of (su_held_kind u0) i else Some kind)"
    by blast
  have whole: "out @ c = unmask_kind X now e m kind (concat ts)"
    using tokens.feed_all [OF assms(2) f] tokens.feed_held [OF _ f]
      unmask_kind_scan [OF assms(1), of X now e kind "concat ts"]
    by (simp add: token_scan_simps)
  have "tokens_in c = []"
  proof (cases ts rule: rev_cases)
    case Nil
    then show ?thesis using f by (simp add: tokens_in_simps)
  next
    case (snoc ts' t)
    have "snd (tokens.feed ?f (ts' @ [t]) a) = snd (split_safe (snd (tokens.feed ?f ts' a) @ t))" for a
      by (induction ts' arbitrary: a) (simp_all add: Let_def case_prod_unfold)
    then have "snd (split_safe (snd (tokens.feed ?f ts' []) @ t)) = c" by (metis f snoc snd_conv)
    then show ?thesis by (metis split_safe_held prod.collapse)
  qed
  then have "unmask_str X now e m c = c" by (rule unmask_str_held [OF assms(1)])
  moreover have "kind_or_text i u' = kind" if "c \<noteq> []"
  proof -
    have "ts \<noteq> []" using that f by auto
    with ds(5) show ?thesis by (simp add: kind_or_text_def)
  qed
  ultimately have "(flush X now e m i (kind_or_text i u') c :: 'o stream_event list) =
      deltas i kind (if c = [] then [] else [c])"
    by (auto simp: flush_def)
  moreover have "process_all X now e m (ContentBlockStart i b # deltas i kind ts) u =
      (ContentBlockStart i b # deltas i kind us, u')"
    by (simp add: u0_def [symmetric] ds(1))
  ultimately show ?thesis using ds(2-4) whole by blast
qed

lemma process_block:
  assumes "grammar_manifest m" and "short_tokens (concat ts)"
  shows "\<exists>us. fst (process_all X now e m
      (ContentBlockStart i (b :: 'o content_block) # deltas i kind ts @ [ContentBlockStop i]) u) =
      ContentBlockStart i b # deltas i kind us @ [ContentBlockStop i] \<and>
    [] \<notin> set us \<and> concat us = unmask_kind X now e m kind (concat ts)"
proof -
  obtain us c u' where
    o: "process_all X now e m (ContentBlockStart i b # deltas i kind ts) u =
        (ContentBlockStart i b # deltas i kind us, u')" "map_of (su_carry u') i = Some c"
      "[] \<notin> set us" "(flush X now e m i (kind_or_text i u') c :: 'o stream_event list) =
        deltas i kind (if c = [] then [] else [c])"
      "concat us @ c = unmask_kind X now e m kind (concat ts)"
    using process_open_block [OF assms] by blast
  have "fst (process_all X now e m
      ((ContentBlockStart i b # deltas i kind ts) @ [ContentBlockStop i]) u) =
      ContentBlockStart i b # deltas i kind (us @ (if c = [] then [] else [c])) @ [ContentBlockStop i]"
    unfolding process_all_append o(1) by (simp add: o(2,4))
  then show ?thesis using o(3,5) by (intro exI [of _ "us @ (if c = [] then [] else [c])"]) auto
qed

text \<open>
  C15: streaming changes nothing.  However the events of the blocks of a reply are interleaved
  and however the text of a block is cut into deltas, what is sent for the block is its start,
  non-empty deltas of the same kind and its stop, and the deltas put together are the whole text
  of the block unmasked at once, on the path of its kind.  The state before does not matter; the
  manifest holds tokens of the grammar and no token of the text is longer than
  \<open>MAX_TOKEN_LEN\<close>.
\<close>

theorem stream_equals_whole:
  assumes "grammar_manifest m" and "short_tokens (concat ts)"
    and "of_block i evs = ContentBlockStart i b # deltas i kind ts @ [ContentBlockStop i]"
  shows "\<exists>us. of_block i (fst (process_all X now e m evs u)) =
      ContentBlockStart i b # deltas i kind us @ [ContentBlockStop i] \<and>
    [] \<notin> set us \<and>
    concat us = (if kind = HeldText then unmask_str_assistant X now e m (concat ts)
                 else unmask_str X now e m (concat ts))"
  using process_all_block [of i u u X now e m evs] process_block [OF assms(1,2), of X now e i b kind u]
  by (simp add: assms(3) unmask_kind_def is_reveal_def)

theorem stream_equals_whole_witness:
  "\<exists>us. of_block 0 (fst (process_all sample_ext 0 sample_engine []
        [ContentBlockStart 0 (BText [] ()), Ping, ContentBlockDelta 0 (TextDelta ''hi [EMA''),
         ContentBlockDelta 1 (TextDelta ''x''), ContentBlockDelta 0 (TextDelta ''IL_''),
         ContentBlockStop 0] sse_unmasker_new)) =
      ContentBlockStart 0 (BText [] ()) # map (\<lambda>t. ContentBlockDelta 0 (kind_delta HeldText t)) us @
        [ContentBlockStop 0] \<and> [] \<notin> set us \<and>
    concat us = unmask_str_assistant sample_ext 0 sample_engine [] ''hi [EMAIL_''"
proof -
  have "tokens_in ''hi [EMAIL_'' = []" by code_simp
  then have "short_tokens (concat [''hi [EMA'', ''IL_''])" by (simp add: short_tokens_def)
  from stream_equals_whole [OF _ this, of "[]" 0 "[ContentBlockStart 0 (BText [] ()), Ping,
      ContentBlockDelta 0 (TextDelta ''hi [EMA''), ContentBlockDelta 1 (TextDelta ''x''),
      ContentBlockDelta 0 (TextDelta ''IL_''), ContentBlockStop 0]" "BText [] ()" HeldText sample_ext 0
      sample_engine sse_unmasker_new]
  show ?thesis by (simp add: grammar_manifest_def)
qed

section \<open>A stream that ends early\<close>

definition sse_ok :: "sse_unmasker \<Rightarrow> bool" where
  "sse_ok u \<longleftrightarrow> distinct (map fst (su_carry u))"

lemma sse_ok_new [simp]: "sse_ok sse_unmasker_new"
  by (simp add: sse_ok_def sse_unmasker_new_def)

lemma process_ok: "sse_ok u \<Longrightarrow> sse_ok (snd (process X now e m ev u))"
proof (cases ev)
  case (ContentBlockDelta i d)
  assume "sse_ok u"
  with ContentBlockDelta show ?thesis
    by (cases d) (simp_all add: sse_ok_def buffered_def Let_def case_prod_unfold distinct_update)
qed (simp_all add: sse_ok_def distinct_update distinct_delete)

lemma process_all_ok: "sse_ok u \<Longrightarrow> sse_ok (snd (process_all X now e m evs u))"
  by (induction evs arbitrary: u) (simp_all add: case_prod_unfold Let_def process_ok)

definition drained ::
  "'x ext_scheme \<Rightarrow> nat \<Rightarrow> mask_engine \<Rightarrow> unmask_manifest \<Rightarrow> sse_unmasker \<Rightarrow> 'o stream_event list" where
  "drained X now e m u =
     concat (map (\<lambda>(index, kind, held). flush X now e m index kind held) (fst (drain u)))"

lemma flush_block:
  "of_block i (flush X now e m j kind held) = (if j = i then flush X now e m j kind held else [])"
  by (simp add: flush_def Let_def)

lemma flush_Nil [simp]: "flush X now e m j kind [] = []"
  by (simp add: flush_def Let_def)

lemma of_block_drained:
  assumes "sse_ok u"
  shows "of_block i (drained X now e m u) =
    (case map_of (su_carry u) i of None \<Rightarrow> []
     | Some held \<Rightarrow> flush X now e m i (kind_or_text i u) held)"
proof -
  define k where "k = (\<lambda>i. kind_or_text i u)"
  have "of_block i (concat (map (\<lambda>(index, kind, held). flush X now e m index kind held)
      (map (\<lambda>(index, v). (index, k index, v)) (filter (\<lambda>(_, v). v \<noteq> []) al)))) =
    (case map_of al i of None \<Rightarrow> [] | Some held \<Rightarrow> flush X now e m i (k i) held)"
    if "distinct (map fst al)" for al
    using that
  proof (induction al)
    case Nil
    then show ?case by simp
  next
    case (Cons p al)
    obtain j v where p: "p = (j, v)" by fastforce
    have "map_of al i = None" if "j = i"
      using Cons.prems p that by (auto simp: map_of_eq_None_iff)
    with Cons p show ?case by (auto simp: flush_block)
  qed
  from this [of "su_carry u"] assms show ?thesis
    unfolding drained_def drain_def fst_conv sse_ok_def k_def by blast
qed

text \<open>
  A stream that ends in the middle of a block loses nothing.  When the upstream ends before
  the stop of a block, the drain sends the held tail with the kind of the block, and what was
  sent for the block is again its whole text unmasked.
\<close>

lemma truncated_stream_equals_whole:
  assumes "grammar_manifest m" and "short_tokens (concat ts)"
    and "of_block i evs = ContentBlockStart i (b :: 'o content_block) # deltas i kind ts" and "sse_ok u"
    and "process_all X now e m evs u = (out, u')"
  shows "\<exists>us. of_block i (out @ drained X now e m u') = ContentBlockStart i b # deltas i kind us \<and>
    [] \<notin> set us \<and>
    concat us = (if kind = HeldText then unmask_str_assistant X now e m (concat ts)
                 else unmask_str X now e m (concat ts))"
proof -
  obtain us c v' where
    o: "process_all X now e m (ContentBlockStart i b # deltas i kind ts) u =
        (ContentBlockStart i b # deltas i kind us, v')" "map_of (su_carry v') i = Some c"
      "[] \<notin> set us" "(flush X now e m i (kind_or_text i v') c :: 'o stream_event list) =
        deltas i kind (if c = [] then [] else [c])"
      "concat us @ c = unmask_kind X now e m kind (concat ts)"
    using process_open_block [OF assms(1,2)] by blast
  have blk: "of_block i out = ContentBlockStart i b # deltas i kind us"
    "block_state i u' = block_state i v'"
    using process_all_block [of i u u X now e m evs] unfolding assms(3,5) o(1) by simp_all
  then have "map_of (su_carry u') i = Some c" "kind_or_text i u' = kind_or_text i v'"
    using o(2) by (simp_all add: block_state_def kind_or_text_def)
  moreover have "sse_ok u'" using process_all_ok [OF assms(4), of X now e m evs] assms(5) by simp
  ultimately have "of_block i (drained X now e m u' :: 'o stream_event list) =
      deltas i kind (if c = [] then [] else [c])"
    using o(4) by (simp add: of_block_drained)
  with blk have "of_block i (out @ drained X now e m u') =
      ContentBlockStart i b # deltas i kind (us @ (if c = [] then [] else [c]))"
    by simp
  then show ?thesis
    using o(3,5)
    by (intro exI [of _ "us @ (if c = [] then [] else [c])"]) (auto simp: unmask_kind_def is_reveal_def)
qed

theorem truncated_stream_equals_whole_witness:
  "\<exists>out u' us. process_all sample_ext 0 sample_engine []
      [ContentBlockStart 0 (BText [] ()), ContentBlockDelta 0 (InputJsonDelta ''[A'')] sse_unmasker_new =
      (out, u') \<and>
    of_block 0 (out @ drained sample_ext 0 sample_engine [] u') =
      ContentBlockStart 0 (BText [] ()) # map (\<lambda>t. ContentBlockDelta 0 (kind_delta HeldInputJson t)) us \<and>
    concat us = unmask_str sample_ext 0 sample_engine [] ''[A''"
proof -
  have "tokens_in ''[A'' = []" by code_simp
  then have "short_tokens (concat [''[A''])" by (simp add: short_tokens_def)
  moreover obtain out u' where "process_all sample_ext 0 sample_engine []
      [ContentBlockStart 0 (BText [] ()), ContentBlockDelta 0 (InputJsonDelta ''[A'')] sse_unmasker_new =
      (out, u')" by fastforce
  ultimately show ?thesis
    using truncated_stream_equals_whole [of "[]" "[''[A'']" 0 "[ContentBlockStart 0 (BText [] ()),
      ContentBlockDelta 0 (InputJsonDelta ''[A'')]" "BText [] ()" HeldInputJson sse_unmasker_new
      sample_ext 0 sample_engine out u']
    by (simp add: grammar_manifest_def) blast
qed

section \<open>Tool arguments\<close>

lemma token_scan_framed:
  assumes "is_token tok" and "CHR ''['' \<notin> set pre" and "CHR ''['' \<notin> set post"
  shows "token_scan f (pre @ tok @ post) = pre @ f tok @ post"
proof -
  have inert: "tokens_in s = []" if "CHR ''['' \<notin> set s" for s
  proof (rule ccontr)
    assume "tokens_in s \<noteq> []"
    then obtain t where "t \<in> set (tokens_in s)" by (cases "tokens_in s") auto
    then have "is_token t" "sublist t s" using tokens_in_is_token by auto
    then show False using that by (auto simp: is_token_def sublist_def)
  qed
  have "\<exists>v. tok = CHR ''['' # v" using assms(1) by (auto simp: is_token_def)
  then have "no_straddle pre (tok @ post)" by auto
  then show ?thesis
    using assms by (simp add: token_scan_append token_scan_none inert token_scan_token)
qed

text \<open>
  Streamed tool arguments are not escaped.  The delta of a tool call is JSON text; a token
  in one of its strings is replaced by the value as it is, so a value with a quote, a backslash
  or a line break changes the JSON around it, while the walk over a whole response puts the same
  value into the string.
\<close>

lemma stream_tool_args_verbatim:
  assumes "grammar_manifest m" and "is_token tok" and "short_tokens (pre @ tok @ post)"
    and "CHR ''['' \<notin> set pre" and "CHR ''['' \<notin> set post"
  shows "\<exists>us. fst (process_all X now e m
      [ContentBlockStart i b, ContentBlockDelta i (InputJsonDelta (pre @ tok @ post)), ContentBlockStop i] u) =
      ContentBlockStart i b # deltas i HeldInputJson us @ [ContentBlockStop i] \<and>
    concat us = pre @ unmask_str X now e m tok @ post \<and>
    unmask_value X now e m (JObj [(k, JStr tok)]) = JObj [(k, JStr (unmask_str X now e m tok))]"
proof -
  have tok: "unmask_str X now e m tok = kind_token X now e m HeldInputJson tok"
    using unmask_kind_scan [OF assms(1), of X now e HeldInputJson tok]
      token_scan_framed [OF assms(2), of "[]" "[]"] by (simp add: unmask_kind_def is_reveal_def)
  have "unmask_kind X now e m HeldInputJson (pre @ tok @ post) = pre @ unmask_str X now e m tok @ post"
    by (simp add: unmask_kind_scan [OF assms(1)] token_scan_framed assms tok)
  moreover have "short_tokens (concat [pre @ tok @ post])" using assms(3) by simp
  ultimately obtain us where
    us: "fst (process_all X now e m
        (ContentBlockStart i b # deltas i HeldInputJson [pre @ tok @ post] @ [ContentBlockStop i]) u) =
        ContentBlockStart i b # deltas i HeldInputJson us @ [ContentBlockStop i]"
      "concat us = pre @ unmask_str X now e m tok @ post"
    using process_block [OF assms(1), of "[pre @ tok @ post]" X now e i b HeldInputJson u]
    by (metis concat.simps append_Nil2)
  have evs: "[ContentBlockStart i b, ContentBlockDelta i (InputJsonDelta (pre @ tok @ post)), ContentBlockStop i] =
      ContentBlockStart i b # deltas i HeldInputJson [pre @ tok @ post] @ [ContentBlockStop i]"
    by simp
  have "unmask_value X now e m (JObj [(k, JStr tok)]) = JObj [(k, JStr (unmask_str X now e m tok))]"
    by simp
  with us show ?thesis unfolding evs by blast
qed

text \<open>A value with a quote in it.\<close>

definition quote_manifest :: unmask_manifest where
  "quote_manifest =
     [\<lparr>me_canonical_form = ''a'' @ [CHR 0x22] @ ''b'', me_token_handle = ''[CARD_0123456789ab]'',
       me_entity_kind = ''CARD'', me_arrow_origin = UserMessage, me_exposed_at = None,
       me_broker = False, me_local = False\<rparr>]"

theorem stream_tool_args_verbatim_witness:
  "\<exists>us. fst (process_all sample_ext 0 sample_engine quote_manifest
      [ContentBlockStart 0 (BToolUse (JObj []) ()),
       ContentBlockDelta 0 (InputJsonDelta ([CHR 0x22] @ ''[CARD_0123456789ab]'' @ [CHR 0x22])),
       ContentBlockStop 0] sse_unmasker_new) =
      ContentBlockStart 0 (BToolUse (JObj []) ()) # deltas 0 HeldInputJson us @ [ContentBlockStop 0] \<and>
    concat us = [CHR 0x22] @ (''a'' @ [CHR 0x22] @ ''b'') @ [CHR 0x22]"
proof -
  have tok: "is_token ''[CARD_0123456789ab]''"
    unfolding is_token_def
    by (intro exI [of _ "''CARD''"] exI [of _ "''0123456789ab''"])
      (simp add: TOKEN_HASH_HEX_LEN_def is_entity_char_def is_upper_b_def is_digit_b_def is_lhex_def code_def)
  then have g: "grammar_manifest quote_manifest"
    by (simp add: grammar_manifest_def quote_manifest_def)
  have "tokens_in ([CHR 0x22] @ ''[CARD_0123456789ab]'' @ [CHR 0x22]) = [''[CARD_0123456789ab]'']"
    by code_simp
  then have "short_tokens ([CHR 0x22] @ ''[CARD_0123456789ab]'' @ [CHR 0x22])"
    by (simp add: short_tokens_def MAX_TOKEN_LEN_def TOKEN_HASH_HEX_LEN_def)
  note r = stream_tool_args_verbatim [OF g tok this, of sample_ext 0 sample_engine 0
      "BToolUse (JObj []) ()" sse_unmasker_new]
  have "unmask_str sample_ext 0 sample_engine quote_manifest ''[CARD_0123456789ab]'' = ''a'' @ [CHR 0x22] @ ''b''"
    using unmask_kind_scan [OF g, of sample_ext 0 sample_engine HeldInputJson "''[CARD_0123456789ab]''"]
      token_scan_framed [OF tok, of "[]" "[]"]
    by (simp add: unmask_kind_def is_reveal_def kind_token_def unmask_token_def quote_manifest_def
        sample_engine_def is_broker_token_def Let_def)
  with r show ?thesis by auto
qed

section \<open>The monitor's copy\<close>

lemma skip_csi_set: "set (skip_csi s) \<subseteq> set s"
  by (induction s) auto

lemma strip_no_escape: "CHR 0x1B \<notin> set (strip_terminal_codes s)"
  by (induction s rule: strip_terminal_codes.induct) (auto split: list.splits)

lemma strip_plain: "CHR 0x1B \<notin> set s \<Longrightarrow> strip_terminal_codes s = s"
  by (induction s rule: strip_terminal_codes.induct) auto

text \<open>
  The monitor's copy has no terminal escapes.  The result holds no escape character, a text
  without one is kept as it is, and stripping twice is stripping once.
\<close>

lemma strip_terminal_codes_clean:
  "CHR 0x1B \<notin> set (strip_terminal_codes s) \<and>
   strip_terminal_codes (strip_terminal_codes s) = strip_terminal_codes s \<and>
   (strip_terminal_codes s = s \<or> CHR 0x1B \<in> set s)"
  using strip_no_escape strip_plain by blast

end
