(* ===== verification/ChatStream.thy ===== *)
theory ChatStream
  imports Walk Split "HOL-Library.AList"
begin

text \<open>
  The streaming unmasker of Chat Completions (\<open>openai_chat.rs\<close> of the proxy): one carry per
  choice for the content and one per choice and call for the arguments, and the order in which
  held tails, terminal chunks and the end marker are sent.  Fields the code does not look at are
  one optional component, None standing for their default values.
\<close>

section \<open>Chunks\<close>

record 'o tool_function = fn_arguments :: "string option"
  fn_rest :: "'o option"

record 'o tool_call_delta =
  tc_index :: int
  tc_function :: "'o tool_function option"
  tc_rest :: "'o option"

record 'o chat_delta =
  cd_content :: "string option"
  cd_tool_calls :: "'o tool_call_delta list option"
  cd_extra :: "(string \<times> json) list"
  cd_rest :: "'o option"

record 'o stream_choice =
  sc_index :: int
  sc_delta :: "'o chat_delta"
  sc_finish_reason :: "string option"
  sc_extra :: "(string \<times> json) list"
  sc_rest :: "'o option"

record chunk_envelope =
  ce_id :: "string option"
  ce_object :: "string option"
  ce_created :: "nat option"
  ce_model :: "string option"
  ce_system_fingerprint :: "string option"

record 'o chat_chunk =
  ck_envelope :: chunk_envelope
  ck_choices :: "'o stream_choice list"
  ck_usage :: "'o option"
  ck_extra :: "(string \<times> json) list"
  ck_rest :: "'o option"

definition delta_default :: "'o chat_delta" where
  "delta_default = \<lparr>cd_content = None, cd_tool_calls = None, cd_extra = [], cd_rest = None\<rparr>"

definition envelope_default :: chunk_envelope where
  "envelope_default =
     \<lparr>ce_id = None, ce_object = None, ce_created = None, ce_model = None, ce_system_fingerprint = None\<rparr>"

definition envelope_chunk :: "chunk_envelope \<Rightarrow> 'o stream_choice \<Rightarrow> 'o chat_chunk" where
  "envelope_chunk env choice =
     \<lparr>ck_envelope = env, ck_choices = [choice], ck_usage = None, ck_extra = [], ck_rest = None\<rparr>"

definition content_chunk :: "chunk_envelope \<Rightarrow> int \<Rightarrow> string \<Rightarrow> 'o chat_chunk" where
  "content_chunk env index content =
     envelope_chunk env
       \<lparr>sc_index = index, sc_delta = delta_default\<lparr>cd_content := Some content\<rparr>,
        sc_finish_reason = None, sc_extra = [], sc_rest = None\<rparr>"

definition tool_chunk :: "chunk_envelope \<Rightarrow> int \<Rightarrow> int \<Rightarrow> string \<Rightarrow> 'o chat_chunk" where
  "tool_chunk env choice call arguments =
     envelope_chunk env
       \<lparr>sc_index = choice,
        sc_delta = delta_default\<lparr>cd_tool_calls := Some
          [\<lparr>tc_index = call, tc_function = Some \<lparr>fn_arguments = Some arguments, fn_rest = None\<rparr>,
            tc_rest = None\<rparr>]\<rparr>,
        sc_finish_reason = None, sc_extra = [], sc_rest = None\<rparr>"

section \<open>The unmasker\<close>

record chat_unmasker =
  cu_content_carry :: "(int \<times> string) list"
  cu_tool_carry :: "((int \<times> int) \<times> string) list"
  cu_envelope :: chunk_envelope

definition chat_unmasker_default :: chat_unmasker where
  "chat_unmasker_default =
     \<lparr>cu_content_carry = [], cu_tool_carry = [], cu_envelope = envelope_default\<rparr>"

definition carry_of :: "'k \<Rightarrow> ('k \<times> string) list \<Rightarrow> string" where
  "carry_of k al = (case map_of al k of None \<Rightarrow> [] | Some c \<Rightarrow> c)"

definition buffered_content ::
  "'x ext_scheme \<Rightarrow> nat \<Rightarrow> mask_engine \<Rightarrow> unmask_manifest \<Rightarrow> int \<Rightarrow> string \<Rightarrow> chat_unmasker \<Rightarrow>
   string option \<times> chat_unmasker" where
  "buffered_content X now e m index incoming u =
     (let (safe, held) = split_safe (carry_of index (cu_content_carry u) @ incoming);
          emitted = unmask_str_assistant X now e m safe
      in (if emitted = [] then None else Some emitted,
          u\<lparr>cu_content_carry := AList.update index held (cu_content_carry u)\<rparr>))"

definition buffered_tool ::
  "'x ext_scheme \<Rightarrow> nat \<Rightarrow> mask_engine \<Rightarrow> unmask_manifest \<Rightarrow> int \<Rightarrow> int \<Rightarrow> string \<Rightarrow> chat_unmasker \<Rightarrow>
   string option \<times> chat_unmasker" where
  "buffered_tool X now e m choice call incoming u =
     (let (safe, held) = split_safe (carry_of (choice, call) (cu_tool_carry u) @ incoming);
          emitted = unmask_str X now e m safe
      in (if emitted = [] then None else Some emitted,
          u\<lparr>cu_tool_carry := AList.update (choice, call) held (cu_tool_carry u)\<rparr>))"

text \<open>A loop over \<open>iter_mut\<close> that threads the unmasker.\<close>

fun thread :: "('a \<Rightarrow> 's \<Rightarrow> 'a \<times> 's) \<Rightarrow> 'a list \<Rightarrow> 's \<Rightarrow> 'a list \<times> 's" where
  "thread f [] s = ([], s)"
| "thread f (x # xs) s =
     (let (y, s1) = f x s; (ys, s2) = thread f xs s1 in (y # ys, s2))"

definition process_call ::
  "'x ext_scheme \<Rightarrow> nat \<Rightarrow> mask_engine \<Rightarrow> unmask_manifest \<Rightarrow> int \<Rightarrow> 'o tool_call_delta \<Rightarrow>
   chat_unmasker \<Rightarrow> 'o tool_call_delta \<times> chat_unmasker" where
  "process_call X now e m choice call u =
     (case tc_function call of
        None \<Rightarrow> (call, u)
      | Some fn \<Rightarrow>
          (case fn_arguments fn of
             None \<Rightarrow> (call, u)
           | Some args \<Rightarrow>
               (let (out, u') = buffered_tool X now e m choice (tc_index call) args u
                in (call\<lparr>tc_function := Some (fn\<lparr>fn_arguments := out\<rparr>)\<rparr>, u'))))"

definition process_choice ::
  "'x ext_scheme \<Rightarrow> nat \<Rightarrow> mask_engine \<Rightarrow> unmask_manifest \<Rightarrow> 'o stream_choice \<Rightarrow> chat_unmasker \<Rightarrow>
   'o stream_choice \<times> chat_unmasker" where
  "process_choice X now e m choice u =
     (let delta = sc_delta choice;
          (content, u1) =
            (case cd_content delta of
               None \<Rightarrow> (None, u)
             | Some t \<Rightarrow> buffered_content X now e m (sc_index choice) t u);
          (calls, u2) =
            (case cd_tool_calls delta of
               None \<Rightarrow> (None, u1)
             | Some cs \<Rightarrow> map_prod Some id (thread (process_call X now e m (sc_index choice)) cs u1))
      in (choice\<lparr>sc_delta := delta\<lparr>cd_content := content, cd_tool_calls := calls,
                   cd_extra := unmask_map X now e m (cd_extra delta)\<rparr>,
                 sc_extra := unmask_map X now e m (sc_extra choice)\<rparr>, u2))"

definition process_chunk ::
  "'x ext_scheme \<Rightarrow> nat \<Rightarrow> mask_engine \<Rightarrow> unmask_manifest \<Rightarrow> 'o chat_chunk \<Rightarrow> chat_unmasker \<Rightarrow>
   'o chat_chunk \<times> chat_unmasker" where
  "process_chunk X now e m chunk u =
     (let (choices, u') = thread (process_choice X now e m) (ck_choices chunk)
            (u\<lparr>cu_envelope := ck_envelope chunk\<rparr>)
      in (chunk\<lparr>ck_choices := choices, ck_extra := unmask_map X now e m (ck_extra chunk)\<rparr>, u'))"

definition chat_drain ::
  "chat_unmasker \<Rightarrow> ((int \<times> string) list \<times> ((int \<times> int) \<times> string) list) \<times> chat_unmasker" where
  "chat_drain u =
     ((filter (\<lambda>(_, v). v \<noteq> []) (cu_content_carry u), filter (\<lambda>(_, v). v \<noteq> []) (cu_tool_carry u)),
      u\<lparr>cu_content_carry := [], cu_tool_carry := []\<rparr>)"

section \<open>The relay\<close>

text \<open>What is queued for the client: a chunk, or data as it came, each with its event name.\<close>

datatype 'o chat_out = OutChunk "string option" "'o chat_chunk" | OutData "string option" string

definition flush_held ::
  "'x ext_scheme \<Rightarrow> nat \<Rightarrow> mask_engine \<Rightarrow> unmask_manifest \<Rightarrow> chat_unmasker \<Rightarrow>
   'o chat_out list \<times> chat_unmasker" where
  "flush_held X now e m u =
     (let ((content, tool), u') = chat_drain u;
          contents = concat (map (\<lambda>(index, held).
            let t = unmask_str_assistant X now e m held
            in if t = [] then [] else [OutChunk None (content_chunk (cu_envelope u) index t)]) content);
          tools = concat (map (\<lambda>((choice, call), held).
            let t = unmask_str X now e m held
            in if t = [] then [] else [OutChunk None (tool_chunk (cu_envelope u) choice call t)]) tool)
      in (contents @ tools, u'))"

definition is_terminal :: "'o chat_chunk \<Rightarrow> bool" where
  "is_terminal out \<longleftrightarrow>
     ck_usage out \<noteq> None \<or> list_ex (\<lambda>c. sc_finish_reason c \<noteq> None) (ck_choices out)"

definition has_content :: "'o chat_chunk \<Rightarrow> bool" where
  "has_content out \<longleftrightarrow>
     list_ex (\<lambda>c. cd_content (sc_delta c) \<noteq> None \<or> cd_tool_calls (sc_delta c) \<noteq> None) (ck_choices out)"

definition content_part :: "'o chat_chunk \<Rightarrow> 'o chat_chunk" where
  "content_part out =
     out\<lparr>ck_usage := None, ck_choices := map (\<lambda>c. c\<lparr>sc_finish_reason := None\<rparr>) (ck_choices out)\<rparr>"

definition term_part :: "'o chat_chunk \<Rightarrow> 'o chat_chunk" where
  "term_part out = out\<lparr>ck_choices := map (\<lambda>c. c\<lparr>sc_delta := delta_default\<rparr>) (ck_choices out)\<rparr>"

datatype 'o chat_item =
    ItemDone "string option"
  | ItemChunk "string option" "'o chat_chunk"
  | ItemRaw "string option" string

fun chat_enqueue ::
  "'x ext_scheme \<Rightarrow> nat \<Rightarrow> mask_engine \<Rightarrow> unmask_manifest \<Rightarrow> 'o chat_item \<Rightarrow> chat_unmasker \<Rightarrow>
   'o chat_out list \<times> chat_unmasker" where
  "chat_enqueue X now e m (ItemDone ev) u =
     map_prod (\<lambda>outs. outs @ [OutData ev ''[DONE]'']) id (flush_held X now e m u)"
| "chat_enqueue X now e m (ItemRaw ev data) u = ([OutData ev data], u)"
| "chat_enqueue X now e m (ItemChunk ev chunk) u =
     (let (out, u1) = process_chunk X now e m chunk u
      in if is_terminal out \<and> has_content out
         then map_prod (\<lambda>held. OutChunk ev (content_part out) # held @ [OutChunk ev (term_part out)]) id
                (flush_held X now e m u1)
         else if is_terminal out
         then map_prod (\<lambda>held. held @ [OutChunk ev out]) id (flush_held X now e m u1)
         else ([OutChunk ev out], u1))"

fun chat_relay ::
  "'x ext_scheme \<Rightarrow> nat \<Rightarrow> mask_engine \<Rightarrow> unmask_manifest \<Rightarrow> 'o chat_item list \<Rightarrow> chat_unmasker \<Rightarrow>
   'o chat_out list" where
  "chat_relay X now e m [] u = fst (flush_held X now e m u)"
| "chat_relay X now e m (item # items) u =
     (let (outs, u') = chat_enqueue X now e m item u in outs @ chat_relay X now e m items u')"

text \<open>From the events of the upstream to the bytes for the client.\<close>

record 'o chunk_wire =
  cw_parse :: "string \<Rightarrow> 'o chat_chunk option"
  cw_print :: "'o chat_chunk \<Rightarrow> string option"

definition chat_item_of ::
  "'x ext_scheme \<Rightarrow> 'o chunk_wire \<Rightarrow> string option \<times> string \<Rightarrow> 'o chat_item" where
  "chat_item_of X cw ev =
     (let (name, data) = ev in
      if str_trim X data = ''[DONE]'' then ItemDone name
      else (case cw_parse cw data of Some chunk \<Rightarrow> ItemChunk name chunk | None \<Rightarrow> ItemRaw name data))"

definition chat_frame :: "string option \<Rightarrow> string \<Rightarrow> string" where
  "chat_frame event data =
     (case event of None \<Rightarrow> [] | Some ev \<Rightarrow> ''event: '' @ ev @ [CHR 0x0A]) @
     ''data: '' @ data @ [CHR 0x0A, CHR 0x0A]"

definition chat_frames :: "'o chunk_wire \<Rightarrow> 'o chat_out \<Rightarrow> string list" where
  "chat_frames cw out =
     (case out of
        OutData ev data \<Rightarrow> [chat_frame ev data]
      | OutChunk ev chunk \<Rightarrow>
          (case cw_print cw chunk of Some data \<Rightarrow> [chat_frame ev data] | None \<Rightarrow> []))"

text \<open>The upstream events, and whether it closed or failed; a failure ends without a flush.\<close>

fun relay_open ::
  "'x ext_scheme \<Rightarrow> nat \<Rightarrow> mask_engine \<Rightarrow> unmask_manifest \<Rightarrow> 'o chat_item list \<Rightarrow> chat_unmasker \<Rightarrow>
   'o chat_out list" where
  "relay_open X now e m [] u = []"
| "relay_open X now e m (item # items) u =
     (let (outs, u') = chat_enqueue X now e m item u in outs @ relay_open X now e m items u')"

definition chat_sse_body ::
  "'x ext_scheme \<Rightarrow> nat \<Rightarrow> mask_engine \<Rightarrow> unmask_manifest \<Rightarrow> 'o chunk_wire \<Rightarrow>
   (string option \<times> string) list \<Rightarrow> bool \<Rightarrow> string list" where
  "chat_sse_body X now e m cw evs failed =
     concat (map (chat_frames cw)
       ((if failed then relay_open else chat_relay) X now e m (map (chat_item_of X cw) evs)
          chat_unmasker_default))"

end
