(* ===== verification/ChatStreamCorrect.thy ===== *)
theory ChatStreamCorrect
  imports ChatStream SseCorrect
begin

text \<open>
  The content of one choice of a streamed completion is its whole text unmasked, when no chunk
  before its last content ends the reply of any choice; a chunk that does, even of another
  choice, releases a held half of a token, which is then never unmasked.
\<close>

section \<open>What a choice says\<close>

definition choice_content :: "int \<Rightarrow> 'o stream_choice \<Rightarrow> string" where
  "choice_content i c =
     (if sc_index c = i then (case cd_content (sc_delta c) of None \<Rightarrow> [] | Some t \<Rightarrow> t) else [])"

definition chunk_content :: "int \<Rightarrow> 'o chat_chunk \<Rightarrow> string" where
  "chunk_content i chunk = concat (map (choice_content i) (ck_choices chunk))"

fun out_content :: "int \<Rightarrow> 'o chat_out \<Rightarrow> string" where
  "out_content i (OutChunk ev chunk) = chunk_content i chunk"
| "out_content i (OutData ev data) = []"

definition outs_content :: "int \<Rightarrow> 'o chat_out list \<Rightarrow> string" where
  "outs_content i outs = concat (map (out_content i) outs)"

lemma outs_content_simps [simp]:
  "outs_content i [] = []"
  "outs_content i (out # outs) = out_content i out @ outs_content i outs"
  "outs_content i (outs @ outs') = outs_content i outs @ outs_content i outs'"
  by (simp_all add: outs_content_def)

lemma choice_content_parts [simp]:
  "choice_content i (c\<lparr>sc_finish_reason := r\<rparr>) = choice_content i c"
  "choice_content i (c\<lparr>sc_delta := delta_default\<rparr>) = []"
  by (auto simp: choice_content_def delta_default_def)

lemma content_part_content [simp]: "chunk_content i (content_part chunk) = chunk_content i chunk"
  by (simp add: chunk_content_def content_part_def comp_def)

lemma term_part_content [simp]: "chunk_content i (term_part chunk) = []"
  by (simp add: chunk_content_def term_part_def comp_def)

lemma content_chunk_content [simp]:
  "chunk_content i (content_chunk env j t) = (if j = i then t else [])"
  by (simp add: chunk_content_def content_chunk_def envelope_chunk_def choice_content_def)

lemma tool_chunk_content [simp]: "chunk_content i (tool_chunk env j k t) = []"
  by (simp add: chunk_content_def tool_chunk_def envelope_chunk_def choice_content_def delta_default_def)

section \<open>The channel of a choice\<close>

abbreviation carry :: "int \<Rightarrow> chat_unmasker \<Rightarrow> string" where
  "carry i u \<equiv> carry_of i (cu_content_carry u)"

definition chat_ok :: "chat_unmasker \<Rightarrow> bool" where
  "chat_ok u \<longleftrightarrow> distinct (map fst (cu_content_carry u))"

lemma carry_update: "carry_of i (AList.update j c al) = (if j = i then c else carry_of i al)"
  by (simp add: carry_of_def update_conv')

lemma thread_keeps:
  "(\<And>x s. x \<in> set xs \<Longrightarrow> g (snd (f x s)) = g s) \<Longrightarrow> g (snd (thread f xs s)) = g s"
  by (induction xs arbitrary: s) (simp_all add: case_prod_unfold Let_def)

lemma process_call_content:
  "cu_content_carry (snd (process_call X now e m choice call u)) = cu_content_carry u"
  by (auto simp: process_call_def buffered_tool_def Let_def case_prod_unfold split: option.splits)

lemma process_calls_content:
  "cu_content_carry (snd (thread (process_call X now e m choice) calls u)) = cu_content_carry u"
  by (rule thread_keeps) (rule process_call_content)

text \<open>The relay of the assistant path.\<close>

abbreviation chat_token :: "'x ext_scheme \<Rightarrow> nat \<Rightarrow> mask_engine \<Rightarrow> unmask_manifest \<Rightarrow> string \<Rightarrow> string" where
  "chat_token X now e m \<equiv> kind_token X now e m HeldText"

abbreviation relayed :: "('x ext_scheme \<Rightarrow> nat \<Rightarrow> mask_engine \<Rightarrow> unmask_manifest \<Rightarrow> string \<Rightarrow> string \<Rightarrow> string \<Rightarrow> bool)" where
  "relayed X now e m \<equiv> tokens.relayed (chat_token X now e m)"

lemma assistant_scan:
  "grammar_manifest m \<Longrightarrow> unmask_str_assistant X now e m t = token_scan (chat_token X now e m) t"
  using unmask_kind_scan [of m X now e HeldText t] by (simp add: unmask_kind_def is_reveal_def)

lemma process_choice_content:
  assumes "grammar_manifest m" and "chat_ok u" and "relayed X now e m fed out (carry i u)"
    and "process_choice X now e m c u = (c', u')"
  shows "chat_ok u' \<and> relayed X now e m (fed @ choice_content i c) (out @ choice_content i c') (carry i u')"
proof -
  obtain content u1 where 1: "(case cd_content (sc_delta c) of None \<Rightarrow> (None, u)
      | Some t \<Rightarrow> buffered_content X now e m (sc_index c) t u) = (content, u1)" by fastforce
  obtain calls u2 where 2: "(case cd_tool_calls (sc_delta c) of None \<Rightarrow> (None, u1)
      | Some cs \<Rightarrow> map_prod Some id (thread (process_call X now e m (sc_index c)) cs u1)) = (calls, u2)"
    by fastforce
  have c': "u' = u2" "sc_index c' = sc_index c" "cd_content (sc_delta c') = content"
    using assms(4) unfolding process_choice_def Let_def 1 2 prod.case
    by (auto simp: case_prod_unfold)
  have "cu_content_carry u2 = cu_content_carry u1"
    using 2 by (cases "cd_tool_calls (sc_delta c)")
      (auto simp: map_prod_def case_prod_unfold process_calls_content)
  moreover have "chat_ok u1 \<and> relayed X now e m (fed @ choice_content i c) (out @ choice_content i c') (carry i u1)"
  proof (cases "cd_content (sc_delta c)")
    case None
    with 1 c' assms(2,3) show ?thesis by (simp add: choice_content_def)
  next
    case (Some t)
    obtain safe held where s: "split_safe (carry (sc_index c) u @ t) = (safe, held)" by fastforce
    have u1: "cu_content_carry u1 = AList.update (sc_index c) held (cu_content_carry u)"
      and "content = (if token_scan (chat_token X now e m) safe = [] then None
        else Some (token_scan (chat_token X now e m) safe))"
      using 1 by (auto simp: Some buffered_content_def s Let_def assistant_scan [OF assms(1)])
    then have out: "choice_content i c' =
        (if sc_index c = i then token_scan (chat_token X now e m) safe else [])"
      using c' by (simp add: choice_content_def)
    have "chat_ok u1" using assms(2) by (simp add: chat_ok_def u1 distinct_update)
    moreover have "relayed X now e m (fed @ choice_content i c) (out @ choice_content i c') (carry i u1)"
    proof (cases "sc_index c = i")
      case True
      with tokens.relayed_step [OF assms(3), of t safe held] s show ?thesis
        by (simp add: out u1 carry_update) (simp add: choice_content_def Some)
    next
      case False
      with assms(3) show ?thesis by (simp add: out u1 carry_update) (simp add: choice_content_def)
    qed
    ultimately show ?thesis ..
  qed
  ultimately show ?thesis by (simp add: c'(1) chat_ok_def)
qed

lemma process_choices_content:
  assumes "grammar_manifest m"
  shows "chat_ok u \<Longrightarrow> relayed X now e m fed out (carry i u) \<Longrightarrow>
    thread (process_choice X now e m) cs u = (cs', u') \<Longrightarrow>
    chat_ok u' \<and> relayed X now e m (fed @ concat (map (choice_content i) cs))
      (out @ concat (map (choice_content i) cs')) (carry i u')"
proof (induction cs arbitrary: u fed out cs')
  case Nil
  then show ?case by simp
next
  case (Cons c cs)
  obtain c1 u1 where 1: "process_choice X now e m c u = (c1, u1)" by fastforce
  obtain cs2 u2 where 2: "thread (process_choice X now e m) cs u1 = (cs2, u2)" by fastforce
  from Cons.prems(3) 1 2 have cs': "cs' = c1 # cs2" "u' = u2" by simp_all
  note step = process_choice_content [OF assms Cons.prems(1,2) 1]
  from Cons.IH [OF _ _ 2 [folded cs'(2)]] step show ?case by (fastforce simp: cs'(1))
qed

lemma process_chunk_content:
  assumes "grammar_manifest m" and "chat_ok u" and "relayed X now e m fed out (carry i u)"
    and "process_chunk X now e m chunk u = (chunk', u')"
  shows "chat_ok u' \<and>
    relayed X now e m (fed @ chunk_content i chunk) (out @ chunk_content i chunk') (carry i u')"
proof -
  obtain cs v where t: "thread (process_choice X now e m) (ck_choices chunk)
      (u\<lparr>cu_envelope := ck_envelope chunk\<rparr>) = (cs, v)" by fastforce
  have "chunk_content i chunk' = concat (map (choice_content i) cs)" "u' = v"
    using assms(4) t by (auto simp: process_chunk_def chunk_content_def)
  with process_choices_content [OF assms(1) _ _ t, of fed out i] assms(2,3) show ?thesis
    by (simp add: chat_ok_def chunk_content_def)
qed

section \<open>The flush\<close>

lemma alist_pick:
  "distinct (map fst al) \<Longrightarrow> g [] = [] \<Longrightarrow>
   concat (map (\<lambda>(k, v). if k = i then g v else []) (filter (\<lambda>(_, v). v \<noteq> []) al)) = g (carry_of i al)"
proof (induction al)
  case Nil
  then show ?case by (simp add: carry_of_def)
next
  case (Cons p al)
  obtain k v where p: "p = (k, v)" by fastforce
  have "map_of al i = None" if "k = i"
    using Cons.prems p that by (auto simp: map_of_eq_None_iff)
  with Cons p show ?case by (auto simp: carry_of_def)
qed

lemma outs_content_concat: "outs_content i (concat outss) = concat (map (outs_content i) outss)"
  by (induction outss) simp_all

lemma flush_held_content:
  assumes "grammar_manifest m" and "chat_ok u"
    and scan: "token_scan (chat_token X now e m) (carry i u) = carry i u"
  shows "outs_content i (fst (flush_held X now e m u) :: 'o chat_out list) = carry i u"
    and "chat_ok (snd (flush_held X now e m u :: 'o chat_out list \<times> chat_unmasker))"
    and "carry i (snd (flush_held X now e m u :: 'o chat_out list \<times> chat_unmasker)) = []"
proof -
  define contents where "contents = map (\<lambda>(index, held).
      let t = unmask_str_assistant X now e m held
      in if t = [] then [] else [OutChunk None (content_chunk (cu_envelope u) index t :: 'o chat_chunk)])
    (filter (\<lambda>(_, v). v \<noteq> []) (cu_content_carry u))"
  define tools where "tools = map (\<lambda>((choice, call), held).
      let t = unmask_str X now e m held
      in if t = [] then [] else [OutChunk None (tool_chunk (cu_envelope u) choice call t :: 'o chat_chunk)])
    (filter (\<lambda>(_, v). v \<noteq> []) (cu_tool_carry u))"
  have f: "(fst (flush_held X now e m u) :: 'o chat_out list) = concat contents @ concat tools"
    by (simp add: flush_held_def chat_drain_def contents_def tools_def)
  have "outs_content i (concat tools) = []"
    by (auto simp: outs_content_concat tools_def Let_def)
  moreover have "map (outs_content i) contents =
      map (\<lambda>(k, v). if k = i then token_scan (chat_token X now e m) v else [])
        (filter (\<lambda>(_, v). v \<noteq> []) (cu_content_carry u))"
    by (auto simp: contents_def Let_def assistant_scan [OF assms(1)])
  then have "outs_content i (concat contents) = token_scan (chat_token X now e m) (carry i u)"
    using assms(2) by (simp add: outs_content_concat alist_pick chat_ok_def token_scan_simps)
  ultimately show "outs_content i (fst (flush_held X now e m u) :: 'o chat_out list) = carry i u"
    by (simp add: f scan)
  show "chat_ok (snd (flush_held X now e m u :: 'o chat_out list \<times> chat_unmasker))"
    "carry i (snd (flush_held X now e m u :: 'o chat_out list \<times> chat_unmasker)) = []"
    by (simp_all add: flush_held_def chat_drain_def chat_ok_def carry_of_def)
qed

section \<open>A reply\<close>

fun item_content :: "int \<Rightarrow> 'o chat_item \<Rightarrow> string" where
  "item_content i (ItemChunk ev chunk) = chunk_content i chunk"
| "item_content i item = []"

fun quiet :: "'o chat_item \<Rightarrow> bool" where
  "quiet (ItemDone ev) = False"
| "quiet (ItemChunk ev chunk) = (\<not> is_terminal chunk)"
| "quiet (ItemRaw ev data) = True"

fun no_chunk :: "'o chat_item \<Rightarrow> bool" where
  "no_chunk (ItemChunk ev chunk) = False"
| "no_chunk item = True"

lemma process_choice_finish:
  "sc_finish_reason (fst (process_choice X now e m c u)) = sc_finish_reason c"
  by (simp add: process_choice_def Let_def case_prod_unfold)

lemma thread_choices_finish:
  "map sc_finish_reason (fst (thread (process_choice X now e m) cs u)) = map sc_finish_reason cs"
  by (induction cs arbitrary: u) (simp_all add: case_prod_unfold Let_def process_choice_finish)

lemma process_chunk_terminal: "is_terminal (fst (process_chunk X now e m chunk u)) = is_terminal chunk"
proof -
  have key: "list_ex (\<lambda>c. sc_finish_reason c \<noteq> None) cs \<longleftrightarrow>
      list_ex (\<lambda>r. r \<noteq> None) (map sc_finish_reason cs)" for cs :: "'o stream_choice list"
    by (simp add: list_ex_iff)
  show ?thesis
    unfolding is_terminal_def key
    by (simp add: process_chunk_def Let_def case_prod_unfold thread_choices_finish del: not_None_eq)
qed

lemma no_content: "\<not> has_content chunk \<Longrightarrow> chunk_content i chunk = []"
  by (auto simp: has_content_def chunk_content_def list_ex_iff choice_content_def)

lemma enqueue_chunk_content:
  fixes chunk :: "'o chat_chunk"
  assumes "grammar_manifest m" and "chat_ok u" and "relayed X now e m fed out (carry i u)"
    and "chat_enqueue X now e m (ItemChunk ev chunk) u = (outs, u')"
  obtains c where "relayed X now e m (fed @ chunk_content i chunk) (out @ c) (carry i u')"
      "chat_ok u'" "outs_content i outs = c" "\<not> is_terminal chunk"
  | c d where "relayed X now e m (fed @ chunk_content i chunk) (out @ c) d"
      "chat_ok u'" "outs_content i outs = c @ d" "carry i u' = []" "is_terminal chunk"
proof -
  obtain chunk' u1 where p: "process_chunk X now e m chunk u = (chunk', u1)" by fastforce
  note step = process_chunk_content [OF assms(1-3) p]
  have ends: "is_terminal chunk' = is_terminal chunk"
    using process_chunk_terminal [of X now e m chunk u] p by simp
  have scan: "token_scan (chat_token X now e m) (carry i u1) = carry i u1"
    using step by (simp add: tokens.relayed_def)
  obtain held u2 where f: "(flush_held X now e m u1 :: 'o chat_out list \<times> chat_unmasker) = (held, u2)"
    by fastforce
  have h: "outs_content i held = carry i u1" "chat_ok u2" "carry i u2 = []"
    using flush_held_content [OF assms(1) _ scan, where 'o = 'o] step f by simp_all
  show ?thesis
  proof (cases "is_terminal chunk")
    case True
    then have "u' = u2" "outs_content i outs = chunk_content i chunk' @ carry i u1"
      using assms(4) p f h(1) ends no_content [of chunk' i] by (auto split: if_splits)
    with True step h that(2) show ?thesis by metis
  next
    case False
    then have "u' = u1" "outs_content i outs = chunk_content i chunk'"
      using assms(4) p ends by auto
    with False step that(1) show ?thesis by metis
  qed
qed

lemma quiet_relay:
  fixes items :: "'o chat_item list"
  assumes "grammar_manifest m"
  shows "list_all quiet items \<Longrightarrow> chat_ok u \<Longrightarrow> relayed X now e m fed out (carry i u) \<Longrightarrow>
    \<exists>outs u'. (\<forall>rest. chat_relay X now e m (items @ rest) u = outs @ chat_relay X now e m rest u') \<and>
      chat_ok u' \<and>
      relayed X now e m (fed @ concat (map (item_content i) items)) (out @ outs_content i outs) (carry i u')"
proof (induction items arbitrary: u fed out)
  case Nil
  then show ?case by (intro exI [of _ "[]"] exI [of _ u]) simp
next
  case (Cons item items)
  obtain os1 u1 where 1: "chat_enqueue X now e m item u = (os1, u1)" by fastforce
  have step: "chat_ok u1 \<and> relayed X now e m (fed @ item_content i item) (out @ outs_content i os1) (carry i u1)"
  proof (cases item)
    case (ItemDone ev)
    then show ?thesis using Cons.prems(1) by simp
  next
    case (ItemRaw ev data)
    then show ?thesis using 1 Cons.prems(2,3) by auto
  next
    case (ItemChunk ev chunk)
    have "\<not> is_terminal chunk" using Cons.prems(1) by (simp add: ItemChunk)
    then show ?thesis
      using enqueue_chunk_content [OF assms Cons.prems(2,3) 1 [unfolded ItemChunk]]
      by (metis ItemChunk item_content.simps(1))
  qed
  with Cons.IH [of u1 "fed @ item_content i item" "out @ outs_content i os1"] Cons.prems(1)
  obtain outs u' where "\<And>rest. chat_relay X now e m (items @ rest) u1 = outs @ chat_relay X now e m rest u'"
    "chat_ok u'" "relayed X now e m (fed @ item_content i item @ concat (map (item_content i) items))
      (out @ outs_content i os1 @ outs_content i outs) (carry i u')"
    by auto
  then show ?case by (intro exI [of _ "os1 @ outs"] exI [of _ u']) (simp add: 1)
qed

lemma relay_rest:
  fixes rest :: "'o chat_item list"
  assumes "grammar_manifest m"
  shows "list_all no_chunk rest \<Longrightarrow> chat_ok u \<Longrightarrow> token_scan (chat_token X now e m) (carry i u) = carry i u \<Longrightarrow>
    outs_content i (chat_relay X now e m rest u) = carry i u"
proof (induction rest arbitrary: u)
  case Nil
  then show ?case using flush_held_content(1) [OF assms] by simp
next
  case (Cons item rest)
  show ?case
  proof (cases item)
    case (ItemDone ev)
    note f = flush_held_content [OF assms Cons.prems(2,3), where 'o = 'o]
    have "outs_content i (chat_relay X now e m rest (snd (flush_held X now e m u :: 'o chat_out list \<times> _))) = []"
      using Cons.IH [OF _ f(2)] Cons.prems(1) by (simp add: f(3) token_scan_simps)
    then show ?thesis using f(1) by (simp add: ItemDone case_prod_unfold Let_def)
  qed (use Cons in simp_all)
qed

text \<open>
  C18: the content of a streamed completion.  For every choice, when the chunks before the last
  one end no reply, the pieces of content sent for the choice put together, flushed tails
  included, are its whole content unmasked at once for the assistant's display, whatever the
  other choices and calls say in between and wherever the tokens were cut; a tail is sent before
  the end marker and before the chunk that ends the reply.
\<close>

theorem chat_content_equals_whole:
  assumes "grammar_manifest m" and "list_all quiet items" and "list_all no_chunk rest"
    and "short_tokens (concat (map (item_content i) (items @ ItemChunk ev chunk # rest)))"
  shows "outs_content i (chat_relay X now e m (items @ ItemChunk ev chunk # rest) chat_unmasker_default) =
    unmask_str_assistant X now e m
      (concat (map (item_content i) (items @ ItemChunk ev chunk # rest)))"
proof -
  have start: "chat_ok chat_unmasker_default" "relayed X now e m [] [] (carry i chat_unmasker_default)"
    by (simp_all add: chat_ok_def chat_unmasker_default_def carry_of_def tokens.relayed_Nil)
  from quiet_relay [OF assms(1,2) start] obtain outs u where
    q: "\<And>rest. chat_relay X now e m (items @ rest) chat_unmasker_default = outs @ chat_relay X now e m rest u"
      "chat_ok u" "relayed X now e m (concat (map (item_content i) items)) (outs_content i outs) (carry i u)"
    by auto
  obtain os u' where l: "chat_enqueue X now e m (ItemChunk ev chunk) u = (os, u')" by fastforce
  have rest: "concat (map (item_content i) rest) = []"
    using assms(3) by (induction rest) (auto elim!: no_chunk.elims)
  have whole: "outs_content i (chat_relay X now e m (items @ ItemChunk ev chunk # rest) chat_unmasker_default) =
      outs_content i outs @ outs_content i os @ outs_content i (chat_relay X now e m rest u')"
    by (simp add: q(1) l del: chat_enqueue.simps)
  have short: "short_tokens (concat (map (item_content i) items) @ chunk_content i chunk)"
    using assms(4) by (simp add: rest)
  have "outs_content i outs @ outs_content i os @ outs_content i (chat_relay X now e m rest u') =
      token_scan (chat_token X now e m) (concat (map (item_content i) items) @ chunk_content i chunk)"
  proof (cases rule: enqueue_chunk_content [OF assms(1) q(2,3) l])
    case (1 c)
    then have "outs_content i (chat_relay X now e m rest u') = carry i u'"
      by (intro relay_rest [OF assms(1,3)]) (simp_all add: tokens.relayed_def)
    with 1 tokens.relayed_end [OF 1(1) short] show ?thesis by simp
  next
    case (2 c d)
    then have "outs_content i (chat_relay X now e m rest u') = []"
      using relay_rest [OF assms(1,3) 2(2), of X now e i] by (simp add: token_scan_simps)
    with 2 tokens.relayed_end [OF 2(1) short] show ?thesis by simp
  qed
  then show ?thesis by (simp add: whole rest assistant_scan [OF assms(1)])
qed

definition says :: "int \<Rightarrow> string \<Rightarrow> unit chat_chunk" where
  "says i t = content_chunk envelope_default i t"

definition ends :: "int \<Rightarrow> unit chat_chunk" where
  "ends i = envelope_chunk envelope_default
     \<lparr>sc_index = i, sc_delta = delta_default, sc_finish_reason = Some ''stop'', sc_extra = [],
      sc_rest = None\<rparr>"

theorem chat_content_equals_whole_witness:
  "outs_content 0 (chat_relay sample_ext 0 sample_engine []
     ([ItemChunk None (says 0 ''hi [EM''), ItemChunk None (says 1 ''x'')] @
       ItemChunk None (says 0 ''AIL'') # [ItemDone None]) chat_unmasker_default) =
   unmask_str_assistant sample_ext 0 sample_engine [] ''hi [EMAIL''"
proof -
  have t: "concat (map (item_content 0) ([ItemChunk None (says 0 ''hi [EM''), ItemChunk None (says 1 ''x'')] @
       ItemChunk None (says 0 ''AIL'') # [ItemDone None])) = ''hi [EMAIL''"
    by (simp add: says_def)
  have "tokens_in ''hi [EMAIL'' = []" by code_simp
  then have "short_tokens ''hi [EMAIL''" by (simp add: short_tokens_def)
  then show ?thesis
    unfolding t [symmetric]
    by (intro chat_content_equals_whole)
      (simp_all add: grammar_manifest_def says_def is_terminal_def content_chunk_def envelope_chunk_def)
qed

text \<open>
  The end of one choice releases the half token of another.  With two choices, when the
  first half of a token of choice 0 is held and a chunk ends choice 1, the half is sent as it
  is, and so is the other half that follows: the client sees the token, although the text as a
  whole unmasks to its value.
\<close>

lemma chat_end_releases_other_half:
  assumes "grammar_manifest m" and "is_token (a @ b)" and "split_safe a = ([], a)"
    and "split_safe b = (b, [])" and "tokens_in a = []" and "tokens_in b = []"
  shows "outs_content 0 (chat_relay X now e m
      [ItemChunk None (says 0 a), ItemChunk None (ends 1), ItemChunk None (says 0 b)]
      chat_unmasker_default) = a @ b \<and>
    unmask_str_assistant X now e m (a @ b) = chat_token X now e m (a @ b)"
proof -
  let ?u1 = "chat_unmasker_default\<lparr>cu_content_carry := [(0, a)]\<rparr>"
  have a: "unmask_str_assistant X now e m a = a" and b: "unmask_str_assistant X now e m b = b"
    and n: "unmask_str_assistant X now e m [] = []"
    using assms(5,6) by (simp_all add: assistant_scan [OF assms(1)] token_scan_none token_scan_simps)
  note defs = process_chunk_def process_choice_def Let_def unmask_map_def envelope_chunk_def
    delta_default_def is_terminal_def has_content_def
  have 1: "chat_enqueue X now e m (ItemChunk None (says 0 a)) chat_unmasker_default =
      ([OutChunk None (term_part (says 0 a))], ?u1)"
    by (simp add: term_part_def says_def content_chunk_def buffered_content_def carry_of_def assms(3) n
        chat_unmasker_default_def defs)
  have 2: "chat_enqueue X now e m (ItemChunk None (ends 1)) ?u1 =
      (if a = [] then [OutChunk None (ends 1)]
       else [OutChunk None (content_chunk envelope_default 0 a), OutChunk None (ends 1)],
       chat_unmasker_default)"
    by (simp add: ends_def flush_held_def chat_drain_def a chat_unmasker_default_def defs)
  have 3: "outs_content 0 (chat_relay X now e m [ItemChunk None (says 0 b)] chat_unmasker_default) = b"
    by (simp add: says_def content_chunk_def buffered_content_def carry_of_def assms(4) b
        chat_unmasker_default_def defs flush_held_def chat_drain_def chunk_content_def choice_content_def
        outs_content_def)
  have ends_content: "chunk_content 0 (ends 1) = []"
    by (simp add: ends_def chunk_content_def choice_content_def envelope_chunk_def)
  have "outs_content 0 (chat_relay X now e m
      [ItemChunk None (says 0 a), ItemChunk None (ends 1), ItemChunk None (says 0 b)]
      chat_unmasker_default) = a @ b"
    unfolding chat_relay.simps(2) [where item = "ItemChunk None (says 0 a)"] 1
      chat_relay.simps(2) [where item = "ItemChunk None (ends 1)"] 2 Let_def prod.case
    using 3 by (simp add: ends_content del: chat_relay.simps)
  moreover have "token_scan (chat_token X now e m) (a @ b) = chat_token X now e m (a @ b)"
    using token_scan_token [OF assms(2), of "chat_token X now e m" "[]"] by (simp add: token_scan_simps)
  ultimately show ?thesis by (simp add: assistant_scan [OF assms(1)])
qed

definition half_manifest :: unmask_manifest where
  "half_manifest =
     [\<lparr>me_canonical_form = ''4111'', me_token_handle = ''[CARD_0123456789ab]'',
       me_entity_kind = ''CARD'', me_arrow_origin = UserMessage, me_exposed_at = None,
       me_broker = False, me_local = False\<rparr>]"

theorem chat_end_releases_other_half_witness:
  "outs_content 0 (chat_relay sample_ext 0 sample_engine half_manifest
      [ItemChunk None (says 0 ''[CARD_''), ItemChunk None (ends 1), ItemChunk None (says 0 ''0123456789ab]'')]
      chat_unmasker_default) = ''[CARD_0123456789ab]'' \<and>
   unmask_str_assistant sample_ext 0 sample_engine half_manifest ''[CARD_0123456789ab]'' = ''4111''"
proof -
  have tok: "is_token ''[CARD_0123456789ab]''"
    unfolding is_token_def
    by (intro exI [of _ "''CARD''"] exI [of _ "''0123456789ab''"])
      (simp add: TOKEN_HASH_HEX_LEN_def is_entity_char_def is_upper_b_def is_digit_b_def is_lhex_def code_def)
  have tok': "is_token (''[CARD_'' @ ''0123456789ab]'')" using tok by simp
  have g: "grammar_manifest half_manifest" using tok by (simp add: grammar_manifest_def half_manifest_def)
  have "split_safe ''[CARD_'' = ([], ''[CARD_'')" "split_safe ''0123456789ab]'' = (''0123456789ab]'', [])"
    "tokens_in ''[CARD_'' = []" "tokens_in ''0123456789ab]'' = []"
    by code_simp+
  note r = chat_end_releases_other_half [OF g tok' this, of sample_ext 0 sample_engine]
  have "chat_token sample_ext 0 sample_engine half_manifest ''[CARD_0123456789ab]'' = ''4111''"
    by (simp add: kind_token_def is_reveal_def unmask_token_def half_manifest_def sample_engine_def
        rm_is_active_def is_broker_token_def BROKER_PREFIX_def Let_def)
  with r show ?thesis by simp
qed

end
