(* ===== verification/RespStream.thy ===== *)
theory RespStream
  imports SafeWalk ChatStream
begin

text \<open>
  The streaming unmasker of the Responses API (\<open>openai_responses.rs\<close> of the proxy): a carry per
  part of an output text and one per function call, the whole items and responses that follow the
  deltas, and the order in which held tails, terminal events and the end marker are sent.  Fields
  the code does not look at are one optional component, None standing for their default values.
\<close>

section \<open>Events\<close>

type_synonym text_key = "string option \<times> nat option \<times> nat option"
type_synonym args_key = "string option \<times> nat option"

record 'o text_delta_event =
  te_item_id :: "string option"
  te_output_index :: "nat option"
  te_content_index :: "nat option"
  te_delta :: string
  te_rest :: "'o option"

record 'o args_delta_event =
  ae_item_id :: "string option"
  ae_output_index :: "nat option"
  ae_delta :: string
  ae_rest :: "'o option"

record 'o item_done_event =
  ie_item :: "'o resp_item option"
  ie_rest :: 'o

record 'o completed_event =
  ce_response :: "'o resp_object option"
  ce_extra :: "(string \<times> json) list"
  ce_rest :: 'o

datatype 'o resp_event =
    OutputTextDelta "'o text_delta_event"
  | ArgumentsDelta "'o args_delta_event"
  | OutputItemDone "'o item_done_event"
  | ResponseCompleted "'o completed_event"
  | ResponseFailed "'o completed_event"
  | ResponseIncomplete "'o completed_event"
  | OtherEvent json
  | PlainEvent 'o

definition text_key_of :: "'o text_delta_event \<Rightarrow> text_key" where
  "text_key_of d = (te_item_id d, te_output_index d, te_content_index d)"

definition args_key_of :: "'o args_delta_event \<Rightarrow> args_key" where
  "args_key_of d = (ae_item_id d, ae_output_index d)"

section \<open>The unmasker\<close>

record resp_unmasker =
  ru_text_carry :: "(text_key \<times> string) list"
  ru_args_carry :: "(args_key \<times> string) list"

definition resp_unmasker_default :: resp_unmasker where
  "resp_unmasker_default = \<lparr>ru_text_carry = [], ru_args_carry = []\<rparr>"

definition buffered_text ::
  "'x ext_scheme \<Rightarrow> nat \<Rightarrow> mask_engine \<Rightarrow> unmask_manifest \<Rightarrow> text_key \<Rightarrow> string \<Rightarrow> resp_unmasker \<Rightarrow>
   string \<times> resp_unmasker" where
  "buffered_text X now e m key incoming u =
     (let (safe, held) = split_safe (carry_of key (ru_text_carry u) @ incoming)
      in (unmask_str_assistant X now e m safe,
          u\<lparr>ru_text_carry := AList.update key held (ru_text_carry u)\<rparr>))"

definition buffered_args ::
  "'x ext_scheme \<Rightarrow> nat \<Rightarrow> mask_engine \<Rightarrow> unmask_manifest \<Rightarrow> args_key \<Rightarrow> string \<Rightarrow> resp_unmasker \<Rightarrow>
   string \<times> resp_unmasker" where
  "buffered_args X now e m key incoming u =
     (let (safe, held) = split_safe (carry_of key (ru_args_carry u) @ incoming)
      in (unmask_str X now e m safe,
          u\<lparr>ru_args_carry := AList.update key held (ru_args_carry u)\<rparr>))"

definition unmask_completed ::
  "'x ext_scheme \<Rightarrow> nat \<Rightarrow> mask_engine \<Rightarrow> unmask_manifest \<Rightarrow> 'o completed_event \<Rightarrow> 'o completed_event" where
  "unmask_completed X now e m c =
     c\<lparr>ce_response := map_option (unmask_response_object X now e m) (ce_response c),
       ce_extra := unmask_map X now e m (ce_extra c)\<rparr>"

fun resp_process ::
  "'x ext_scheme \<Rightarrow> nat \<Rightarrow> mask_engine \<Rightarrow> unmask_manifest \<Rightarrow> 'o resp_event \<Rightarrow> resp_unmasker \<Rightarrow>
   'o resp_event list \<times> resp_unmasker" where
  "resp_process X now e m (OutputTextDelta d) u =
     (let (t, u') = buffered_text X now e m (text_key_of d) (te_delta d) u
      in (if t = [] then [] else [OutputTextDelta (d\<lparr>te_delta := t\<rparr>)], u'))"
| "resp_process X now e m (ArgumentsDelta d) u =
     (let (t, u') = buffered_args X now e m (args_key_of d) (ae_delta d) u
      in (if t = [] then [] else [ArgumentsDelta (d\<lparr>ae_delta := t\<rparr>)], u'))"
| "resp_process X now e m (OutputItemDone d) u =
     ([OutputItemDone (d\<lparr>ie_item := map_option (unmask_output_item X now e m) (ie_item d)\<rparr>)], u)"
| "resp_process X now e m (ResponseCompleted c) u = ([ResponseCompleted (unmask_completed X now e m c)], u)"
| "resp_process X now e m (ResponseFailed c) u = ([ResponseFailed (unmask_completed X now e m c)], u)"
| "resp_process X now e m (ResponseIncomplete c) u = ([ResponseIncomplete (unmask_completed X now e m c)], u)"
| "resp_process X now e m (OtherEvent v) u = ([OtherEvent (unmask_value X now e m v)], u)"
| "resp_process X now e m (PlainEvent r) u = ([PlainEvent r], u)"

definition resp_drain ::
  "resp_unmasker \<Rightarrow> ((text_key \<times> string) list \<times> (args_key \<times> string) list) \<times> resp_unmasker" where
  "resp_drain u =
     ((filter (\<lambda>(_, v). v \<noteq> []) (ru_text_carry u), filter (\<lambda>(_, v). v \<noteq> []) (ru_args_carry u)),
      resp_unmasker_default)"

section \<open>The relay\<close>

datatype 'o resp_out = OutEvent "string option" "'o resp_event" | OutRaw "string option" string

definition text_event :: "text_key \<Rightarrow> string \<Rightarrow> 'o resp_event" where
  "text_event key t =
     (let (item_id, output_index, content_index) = key
      in OutputTextDelta \<lparr>te_item_id = item_id, te_output_index = output_index,
           te_content_index = content_index, te_delta = t, te_rest = None\<rparr>)"

definition args_event :: "args_key \<Rightarrow> string \<Rightarrow> 'o resp_event" where
  "args_event key t =
     (let (item_id, output_index) = key
      in ArgumentsDelta \<lparr>ae_item_id = item_id, ae_output_index = output_index, ae_delta = t, ae_rest = None\<rparr>)"

definition resp_flush_held ::
  "'x ext_scheme \<Rightarrow> nat \<Rightarrow> mask_engine \<Rightarrow> unmask_manifest \<Rightarrow> resp_unmasker \<Rightarrow>
   'o resp_out list \<times> resp_unmasker" where
  "resp_flush_held X now e m u =
     (let ((texts, args), u') = resp_drain u;
          text_outs = concat (map (\<lambda>(key, held).
            let t = unmask_str_assistant X now e m held
            in if t = [] then [] else [OutEvent (Some ''response.output_text.delta'') (text_event key t)]) texts);
          args_outs = concat (map (\<lambda>(key, held).
            let t = unmask_str X now e m held
            in if t = [] then []
               else [OutEvent (Some ''response.function_call_arguments.delta'') (args_event key t)]) args)
      in (text_outs @ args_outs, u'))"

fun resp_terminal :: "'o resp_event \<Rightarrow> bool" where
  "resp_terminal (ResponseCompleted c) = True"
| "resp_terminal (ResponseFailed c) = True"
| "resp_terminal (ResponseIncomplete c) = True"
| "resp_terminal _ = False"

datatype 'o resp_stream_item =
    RespDone "string option"
  | RespEvent "string option" "'o resp_event"
  | RespRaw "string option" string

fun resp_enqueue ::
  "'x ext_scheme \<Rightarrow> nat \<Rightarrow> mask_engine \<Rightarrow> unmask_manifest \<Rightarrow> 'o resp_stream_item \<Rightarrow> resp_unmasker \<Rightarrow>
   'o resp_out list \<times> resp_unmasker" where
  "resp_enqueue X now e m (RespDone ev) u =
     map_prod (\<lambda>outs. outs @ [OutRaw ev ''[DONE]'']) id (resp_flush_held X now e m u)"
| "resp_enqueue X now e m (RespRaw ev data) u = ([OutRaw ev data], u)"
| "resp_enqueue X now e m (RespEvent ev event) u =
     (let (outs, u1) = resp_process X now e m event u;
          (held, u2) = (if list_ex resp_terminal outs then resp_flush_held X now e m u1 else ([], u1))
      in (held @ map (OutEvent ev) outs, u2))"

fun resp_relay_open ::
  "'x ext_scheme \<Rightarrow> nat \<Rightarrow> mask_engine \<Rightarrow> unmask_manifest \<Rightarrow> 'o resp_stream_item list \<Rightarrow>
   resp_unmasker \<Rightarrow> 'o resp_out list \<times> resp_unmasker" where
  "resp_relay_open X now e m [] u = ([], u)"
| "resp_relay_open X now e m (item # items) u =
     (let (outs, u') = resp_enqueue X now e m item u;
          (outs', u'') = resp_relay_open X now e m items u' in (outs @ outs', u''))"

text \<open>A reply that closes flushes what is held; one that fails ends as it is.\<close>

definition resp_relay ::
  "'x ext_scheme \<Rightarrow> nat \<Rightarrow> mask_engine \<Rightarrow> unmask_manifest \<Rightarrow> 'o resp_stream_item list \<Rightarrow> bool \<Rightarrow>
   'o resp_out list" where
  "resp_relay X now e m items failed =
     (let (outs, u) = resp_relay_open X now e m items resp_unmasker_default
      in if failed then outs else outs @ fst (resp_flush_held X now e m u))"

text \<open>From the events of the upstream to the bytes for the client.\<close>

record 'o resp_wire =
  rw_parse :: "string \<Rightarrow> 'o resp_event option"
  rw_print :: "'o resp_event \<Rightarrow> string option"

definition resp_item_of ::
  "'x ext_scheme \<Rightarrow> 'o resp_wire \<Rightarrow> string option \<times> string \<Rightarrow> 'o resp_stream_item" where
  "resp_item_of X w ev =
     (let (name, data) = ev in
      if str_trim X data = ''[DONE]'' then RespDone name
      else (case rw_parse w data of Some event \<Rightarrow> RespEvent name event | None \<Rightarrow> RespRaw name data))"

definition resp_frames :: "'o resp_wire \<Rightarrow> 'o resp_out \<Rightarrow> string list" where
  "resp_frames w out =
     (case out of
        OutRaw ev data \<Rightarrow> [chat_frame ev data]
      | OutEvent ev event \<Rightarrow>
          (case rw_print w event of Some data \<Rightarrow> [chat_frame ev data] | None \<Rightarrow> []))"

definition resp_sse_body ::
  "'x ext_scheme \<Rightarrow> nat \<Rightarrow> mask_engine \<Rightarrow> unmask_manifest \<Rightarrow> 'o resp_wire \<Rightarrow>
   (string option \<times> string) list \<Rightarrow> bool \<Rightarrow> string list" where
  "resp_sse_body X now e m w evs failed =
     concat (map (resp_frames w) (resp_relay X now e m (map (resp_item_of X w) evs) failed))"

end
