(* ===== verification/RespStreamCorrect.thy ===== *)
theory RespStreamCorrect
  imports RespStream ChatStreamCorrect
begin

text \<open>
  Every channel of a streamed Responses reply, a part of an output text or the arguments of a
  call, is its whole text unmasked when no terminal event comes before its last delta.
\<close>

section \<open>Channels\<close>

datatype channel = TextChannel text_key | ArgsChannel args_key

fun ch_kind :: "channel \<Rightarrow> held_kind" where
  "ch_kind (TextChannel k) = HeldText"
| "ch_kind (ArgsChannel k) = HeldInputJson"

fun ch_carry :: "channel \<Rightarrow> resp_unmasker \<Rightarrow> string" where
  "ch_carry (TextChannel k) u = carry_of k (ru_text_carry u)"
| "ch_carry (ArgsChannel k) u = carry_of k (ru_args_carry u)"

fun event_says :: "channel \<Rightarrow> 'o resp_event \<Rightarrow> string" where
  "event_says (TextChannel k) (OutputTextDelta d) = (if text_key_of d = k then te_delta d else [])"
| "event_says (ArgsChannel k) (ArgumentsDelta d) = (if args_key_of d = k then ae_delta d else [])"
| "event_says ch ev = []"

fun resp_out_says :: "channel \<Rightarrow> 'o resp_out \<Rightarrow> string" where
  "resp_out_says ch (OutEvent name ev) = event_says ch ev"
| "resp_out_says ch (OutRaw name data) = []"

definition outs_say :: "channel \<Rightarrow> 'o resp_out list \<Rightarrow> string" where
  "outs_say ch outs = concat (map (resp_out_says ch) outs)"

lemma outs_say_simps [simp]:
  "outs_say ch [] = []"
  "outs_say ch (out # outs) = resp_out_says ch out @ outs_say ch outs"
  "outs_say ch (outs @ outs') = outs_say ch outs @ outs_say ch outs'"
  "outs_say ch (map (OutEvent ev) evs) = concat (map (event_says ch) evs)"
  by (simp_all add: outs_say_def comp_def)

definition resp_ok :: "resp_unmasker \<Rightarrow> bool" where
  "resp_ok u \<longleftrightarrow> distinct (map fst (ru_text_carry u)) \<and> distinct (map fst (ru_args_carry u))"

abbreviation ch_relayed ::
  "'x ext_scheme \<Rightarrow> nat \<Rightarrow> mask_engine \<Rightarrow> unmask_manifest \<Rightarrow> channel \<Rightarrow> string \<Rightarrow> string \<Rightarrow> string \<Rightarrow> bool" where
  "ch_relayed X now e m ch \<equiv> tokens.relayed (kind_token X now e m (ch_kind ch))"

lemma text_scan:
  "grammar_manifest m \<Longrightarrow> unmask_str_assistant X now e m t = token_scan (kind_token X now e m HeldText) t"
  using unmask_kind_scan [of m X now e HeldText t] by (simp add: unmask_kind_def is_reveal_def)

lemma args_scan:
  "grammar_manifest m \<Longrightarrow> unmask_str X now e m t = token_scan (kind_token X now e m HeldInputJson) t"
  using unmask_kind_scan [of m X now e HeldInputJson t] by (simp add: unmask_kind_def is_reveal_def)

lemmas channel_defs = buffered_text_def buffered_args_def text_key_of_def args_key_of_def carry_update
  resp_ok_def distinct_update Let_def

lemma process_says:
  assumes "grammar_manifest m" and "resp_ok u" and "ch_relayed X now e m ch fed out (ch_carry ch u)"
    and "resp_process X now e m ev u = (evs, u')"
  shows "resp_ok u' \<and>
    ch_relayed X now e m ch (fed @ event_says ch ev) (out @ concat (map (event_says ch) evs)) (ch_carry ch u')"
proof (cases ev)
  case (OutputTextDelta d)
  obtain safe held where s: "split_safe (carry_of (text_key_of d) (ru_text_carry u) @ te_delta d) = (safe, held)"
    by fastforce
  show ?thesis
  proof (cases ch)
    case (TextChannel k)
    then show ?thesis
      using assms s tokens.relayed_step [OF assms(3), of "te_delta d" safe held]
      by (auto simp: OutputTextDelta channel_defs text_scan [OF assms(1)])
  next
    case (ArgsChannel k)
    then show ?thesis using assms s by (auto simp: OutputTextDelta channel_defs)
  qed
next
  case (ArgumentsDelta d)
  obtain safe held where s: "split_safe (carry_of (args_key_of d) (ru_args_carry u) @ ae_delta d) = (safe, held)"
    by fastforce
  show ?thesis
  proof (cases ch)
    case (ArgsChannel k)
    then show ?thesis
      using assms s tokens.relayed_step [OF assms(3), of "ae_delta d" safe held]
      by (auto simp: ArgumentsDelta channel_defs args_scan [OF assms(1)])
  next
    case (TextChannel k)
    then show ?thesis using assms s by (auto simp: ArgumentsDelta channel_defs)
  qed
qed (use assms in \<open>cases ch; auto\<close>)+

section \<open>The flush\<close>

lemma outs_say_concat: "outs_say ch (concat outss) = concat (map (outs_say ch) outss)"
  by (induction outss) simp_all

lemma flush_says:
  fixes u :: resp_unmasker
  assumes "grammar_manifest m" and "resp_ok u"
    and scan: "token_scan (kind_token X now e m (ch_kind ch)) (ch_carry ch u) = ch_carry ch u"
  shows "outs_say ch (fst (resp_flush_held X now e m u) :: 'o resp_out list) = ch_carry ch u"
    and "snd (resp_flush_held X now e m u :: 'o resp_out list \<times> resp_unmasker) = resp_unmasker_default"
proof -
  define texts where "texts = map (\<lambda>(key, held).
      let t = unmask_str_assistant X now e m held
      in if t = [] then [] else [OutEvent (Some ''response.output_text.delta'') (text_event key t :: 'o resp_event)])
    (filter (\<lambda>(_, v). v \<noteq> []) (ru_text_carry u))"
  define args where "args = map (\<lambda>(key, held).
      let t = unmask_str X now e m held
      in if t = [] then []
         else [OutEvent (Some ''response.function_call_arguments.delta'') (args_event key t :: 'o resp_event)])
    (filter (\<lambda>(_, v). v \<noteq> []) (ru_args_carry u))"
  have f: "(fst (resp_flush_held X now e m u) :: 'o resp_out list) = concat texts @ concat args"
    by (simp add: resp_flush_held_def resp_drain_def texts_def args_def)
  have keys: "text_key_of \<lparr>te_item_id = a, te_output_index = b, te_content_index = c, te_delta = t, te_rest = r\<rparr> = (a, b, c)"
    "args_key_of \<lparr>ae_item_id = a, ae_output_index = b, ae_delta = t, ae_rest = r'\<rparr> = (a, b)"
    for a b c t and r r' :: "'o option"
    by (simp_all add: text_key_of_def args_key_of_def)
  have "outs_say ch (concat texts @ concat args) = ch_carry ch u"
  proof (cases ch)
    case (TextChannel k)
    have "map (outs_say ch) texts = map (\<lambda>(key, held).
        if key = k then token_scan (kind_token X now e m HeldText) held else [])
        (filter (\<lambda>(_, v). v \<noteq> []) (ru_text_carry u))"
      by (auto simp: texts_def Let_def text_event_def TextChannel keys text_scan [OF assms(1)])
    moreover have "map (outs_say ch) args = map (\<lambda>_. []) args"
      by (auto simp: args_def Let_def args_event_def TextChannel)
    ultimately show ?thesis
      using assms(2) scan
      by (simp add: outs_say_concat alist_pick resp_ok_def token_scan_simps TextChannel)
  next
    case (ArgsChannel k)
    have "map (outs_say ch) args = map (\<lambda>(key, held).
        if key = k then token_scan (kind_token X now e m HeldInputJson) held else [])
        (filter (\<lambda>(_, v). v \<noteq> []) (ru_args_carry u))"
      by (auto simp: args_def Let_def args_event_def ArgsChannel keys args_scan [OF assms(1)])
    moreover have "map (outs_say ch) texts = map (\<lambda>_. []) texts"
      by (auto simp: texts_def Let_def text_event_def ArgsChannel)
    ultimately show ?thesis
      using assms(2) scan
      by (simp add: outs_say_concat alist_pick resp_ok_def token_scan_simps ArgsChannel)
  qed
  then show "outs_say ch (fst (resp_flush_held X now e m u) :: 'o resp_out list) = ch_carry ch u"
    by (simp add: f)
  show "snd (resp_flush_held X now e m u :: 'o resp_out list \<times> resp_unmasker) = resp_unmasker_default"
    by (simp add: resp_flush_held_def resp_drain_def)
qed


section \<open>A reply\<close>

fun resp_item_says :: "channel \<Rightarrow> 'o resp_stream_item \<Rightarrow> string" where
  "resp_item_says ch (RespEvent name ev) = event_says ch ev"
| "resp_item_says ch item = []"

fun resp_quiet :: "'o resp_stream_item \<Rightarrow> bool" where
  "resp_quiet (RespDone name) = False"
| "resp_quiet (RespEvent name ev) = (\<not> resp_terminal ev)"
| "resp_quiet (RespRaw name data) = True"

fun resp_delta :: "'o resp_event \<Rightarrow> bool" where
  "resp_delta (OutputTextDelta d) = True"
| "resp_delta (ArgumentsDelta d) = True"
| "resp_delta ev = False"

fun resp_silent :: "'o resp_stream_item \<Rightarrow> bool" where
  "resp_silent (RespEvent name ev) = (\<not> resp_delta ev)"
| "resp_silent item = True"

lemma process_terminal: "list_ex resp_terminal (fst (resp_process X now e m ev u)) = resp_terminal ev"
  by (cases ev) (simp_all add: Let_def case_prod_unfold)

lemma process_silent:
  assumes "\<not> resp_delta ev"
  shows "snd (resp_process X now e m ev u) = u"
    and "event_says ch ev = []"
    and "concat (map (event_says ch) (fst (resp_process X now e m ev u))) = []"
  using assms by (cases ev; cases ch; simp)+

lemma resp_quiet_step:
  assumes "grammar_manifest m" and "resp_ok u" and "ch_relayed X now e m ch fed out (ch_carry ch u)"
    and "resp_quiet item" and "resp_enqueue X now e m item u = (outs, u')"
  shows "resp_ok u' \<and>
    ch_relayed X now e m ch (fed @ resp_item_says ch item) (out @ outs_say ch outs) (ch_carry ch u')"
proof (cases item)
  case (RespEvent name ev)
  obtain evs u1 where p: "resp_process X now e m ev u = (evs, u1)" by fastforce
  have "\<not> list_ex resp_terminal evs"
    using assms(4) process_terminal [of X now e m ev u] by (simp add: p RespEvent)
  then have "outs = map (OutEvent name) evs" "u' = u1"
    using assms(5) by (auto simp: RespEvent p split: if_splits)
  with process_says [OF assms(1-3) p] show ?thesis by (simp add: RespEvent)
qed (use assms in auto)

lemma resp_quiet_relay:
  assumes "grammar_manifest m"
  shows "list_all resp_quiet items \<Longrightarrow> resp_ok u \<Longrightarrow> ch_relayed X now e m ch fed out (ch_carry ch u) \<Longrightarrow>
    resp_relay_open X now e m items u = (outs, u') \<Longrightarrow>
    resp_ok u' \<and> ch_relayed X now e m ch (fed @ concat (map (resp_item_says ch) items))
      (out @ outs_say ch outs) (ch_carry ch u')"
proof (induction items arbitrary: u fed out outs)
  case Nil
  then show ?case by simp
next
  case (Cons item items)
  obtain os1 u1 where 1: "resp_enqueue X now e m item u = (os1, u1)" by fastforce
  obtain os2 u2 where 2: "resp_relay_open X now e m items u1 = (os2, u2)" by fastforce
  have e: "outs = os1 @ os2" "u' = u2" using Cons.prems(4) 1 2 by simp_all
  note step = resp_quiet_step [OF assms Cons.prems(2,3) _ 1]
  from Cons.IH [OF _ _ _ 2 [folded e(2)], of "fed @ resp_item_says ch item" "out @ outs_say ch os1"]
    step Cons.prems(1)
  show ?case by (simp add: e(1))
qed

lemma resp_flush_whole:
  fixes u :: resp_unmasker
  assumes "grammar_manifest m" and "resp_ok u"
    and "token_scan (kind_token X now e m (ch_kind ch)) (ch_carry ch u) = ch_carry ch u"
    and "resp_flush_held X now e m u = (held :: 'o resp_out list, u')"
  shows "outs_say ch held = ch_carry ch u \<and> resp_ok u' \<and> ch_carry ch u' = []"
  using flush_says [OF assms(1-3), where 'o = 'o] assms(4)
  by (cases ch) (auto simp: resp_ok_def resp_unmasker_default_def carry_of_def)

lemma resp_silent_step:
  fixes item :: "'o resp_stream_item"
  assumes "grammar_manifest m" and "resp_ok u"
    and "token_scan (kind_token X now e m (ch_kind ch)) (ch_carry ch u) = ch_carry ch u"
    and "resp_silent item" and "resp_enqueue X now e m item u = (outs, u')"
  shows "resp_ok u' \<and>
    token_scan (kind_token X now e m (ch_kind ch)) (ch_carry ch u') = ch_carry ch u' \<and>
    outs_say ch outs @ ch_carry ch u' = ch_carry ch u"
proof -
  obtain held u2 where f: "resp_flush_held X now e m u = (held :: 'o resp_out list, u2)" by fastforce
  note h = resp_flush_whole [OF assms(1-3) f]
  show ?thesis
  proof (cases item)
    case (RespDone name)
    then show ?thesis using assms(5) h by (auto simp: f token_scan_simps)
  next
    case (RespRaw name data)
    then show ?thesis using assms by auto
  next
    case (RespEvent name ev)
    obtain evs where p: "resp_process X now e m ev u = (evs, u)"
        "concat (map (event_says ch) evs) = []"
      using process_silent(1) [of ev X now e m u] process_silent(3) [of ev ch X now e m u] assms(4)
      by (cases "resp_process X now e m ev u") (simp add: RespEvent)
    show ?thesis
      using assms(2,3,5) h p by (auto simp: RespEvent f token_scan_simps split: if_splits)
  qed
qed

lemma resp_silent_relay:
  fixes rest :: "'o resp_stream_item list"
  assumes "grammar_manifest m"
  shows "list_all resp_silent rest \<Longrightarrow> resp_ok u \<Longrightarrow>
    token_scan (kind_token X now e m (ch_kind ch)) (ch_carry ch u) = ch_carry ch u \<Longrightarrow>
    resp_relay_open X now e m rest u = (outs, u') \<Longrightarrow>
    resp_ok u' \<and> token_scan (kind_token X now e m (ch_kind ch)) (ch_carry ch u') = ch_carry ch u' \<and>
    outs_say ch outs @ ch_carry ch u' = ch_carry ch u"
proof (induction rest arbitrary: u outs)
  case Nil
  then show ?case by simp
next
  case (Cons item rest)
  obtain os1 u1 where 1: "resp_enqueue X now e m item u = (os1, u1)" by fastforce
  obtain os2 u2 where 2: "resp_relay_open X now e m rest u1 = (os2, u2)" by fastforce
  have e: "outs = os1 @ os2" "u' = u2" using Cons.prems(4) 1 2 by simp_all
  have "resp_silent item" "list_all resp_silent rest" using Cons.prems(1) by simp_all
  with resp_silent_step [OF assms Cons.prems(2,3) _ 1] Cons.IH [OF _ _ _ 2 [folded e(2)]]
  show ?case by (auto simp: e(1))
qed

lemma resp_relay_open_append:
  "resp_relay_open X now e m (xs @ ys) u =
     (let (outs, u1) = resp_relay_open X now e m xs u;
          (outs', u2) = resp_relay_open X now e m ys u1 in (outs @ outs', u2))"
  by (induction xs arbitrary: u) (simp_all add: Let_def case_prod_unfold)

lemma silent_says: "list_all resp_silent rest \<Longrightarrow> concat (map (resp_item_says ch) rest) = []"
proof (induction rest)
  case (Cons item rest)
  then show ?case by (cases item) (simp_all add: process_silent)
qed simp

text \<open>
  C19: a channel of a streamed Responses reply.  For every part of an output text and every
  function call, when the upstream closes and no end marker and no terminal event comes before
  the last delta of the reply, the deltas sent for the channel put together, flushed tails
  included, are its whole text unmasked at once, decorated for a display when it is a text and
  plain when it is arguments, whatever the other channels say in between and wherever the
  tokens were cut.
\<close>

theorem resp_stream_equals_whole:
  assumes "grammar_manifest m" and "list_all resp_quiet items" and "list_all resp_silent rest"
    and "short_tokens (concat (map (resp_item_says ch) items))"
  shows "outs_say ch (resp_relay X now e m (items @ rest) False) =
    unmask_kind X now e m (ch_kind ch) (concat (map (resp_item_says ch) (items @ rest)))"
proof -
  let ?f = "kind_token X now e m (ch_kind ch)"
  obtain os1 u1 where 1: "resp_relay_open X now e m items resp_unmasker_default = (os1, u1)" by fastforce
  obtain os2 u2 where 2: "resp_relay_open X now e m rest u1 = (os2, u2)" by fastforce
  obtain os3 u3 where 3: "resp_flush_held X now e m u2 = (os3 :: 'a resp_out list, u3)" by fastforce
  have start: "resp_ok resp_unmasker_default" "ch_carry ch resp_unmasker_default = []"
    by (cases ch; simp add: resp_ok_def resp_unmasker_default_def carry_of_def)+
  then have "resp_ok u1" and
    r: "ch_relayed X now e m ch (concat (map (resp_item_says ch) items)) (outs_say ch os1) (ch_carry ch u1)"
    using resp_quiet_relay [OF assms(1,2) start(1) _ 1, of ch "[]" "[]"] by (simp_all add: tokens.relayed_Nil)
  moreover have "token_scan ?f (ch_carry ch u1) = ch_carry ch u1"
    using r by (simp add: tokens.relayed_def)
  ultimately have "outs_say ch os2 @ outs_say ch os3 = ch_carry ch u1"
    using resp_silent_relay [OF assms(1,3) _ _ 2, of ch] resp_flush_whole [OF assms(1) _ _ 3, of ch]
    by simp
  then have "outs_say ch (resp_relay X now e m (items @ rest) False) = outs_say ch os1 @ ch_carry ch u1"
    by (simp add: resp_relay_def resp_relay_open_append 1 2 3)
  also have "\<dots> = token_scan ?f (concat (map (resp_item_says ch) items))"
    using tokens.relayed_end [OF r assms(4)] by simp
  finally show ?thesis by (simp add: silent_says [OF assms(3)] unmask_kind_scan [OF assms(1)])
qed

definition text_says :: "nat \<Rightarrow> string \<Rightarrow> unit resp_stream_item" where
  "text_says i t = RespEvent None (text_event (Some ''msg'', Some i, Some 0) t)"

definition args_say :: "nat \<Rightarrow> string \<Rightarrow> unit resp_stream_item" where
  "args_say i t = RespEvent None (args_event (Some ''fc'', Some i) t)"

definition resp_completed :: "unit resp_stream_item" where
  "resp_completed = RespEvent None (ResponseCompleted \<lparr>ce_response = None, ce_extra = [], ce_rest = ()\<rparr>)"

theorem resp_stream_equals_whole_witness:
  "outs_say (TextChannel (Some ''msg'', Some 0, Some 0))
     (resp_relay sample_ext 0 sample_engine []
       ([text_says 0 ''hi [EM'', args_say 1 ''{}'', text_says 0 ''AIL''] @ [resp_completed, RespDone None]) False) =
   unmask_kind sample_ext 0 sample_engine [] HeldText ''hi [EMAIL''"
proof -
  let ?ch = "TextChannel (Some ''msg'', Some 0, Some 0)"
  let ?items = "[text_says 0 ''hi [EM'', args_say 1 ''{}'', text_says 0 ''AIL'']"
  have t: "concat (map (resp_item_says ?ch) ?items) = ''hi [EMAIL''"
    "concat (map (resp_item_says ?ch) (?items @ [resp_completed, RespDone None])) = ''hi [EMAIL''"
    by (simp_all add: text_says_def args_say_def text_event_def args_event_def text_key_of_def
        resp_completed_def)
  have "tokens_in ''hi [EMAIL'' = []" by code_simp
  then have "short_tokens ''hi [EMAIL''" by (simp add: short_tokens_def)
  with resp_stream_equals_whole [of "[]" ?items "[resp_completed, RespDone None]" ?ch sample_ext 0 sample_engine]
  show ?thesis unfolding t
    by (simp add: grammar_manifest_def text_says_def args_say_def text_event_def args_event_def
        resp_completed_def)
qed

end
