(* ===== verification/MonitorModel.thy ===== *)
theory MonitorModel
  imports Manifest Json "HOL-Library.AList"
begin

text \<open>
  The data of the request monitor (\<open>monitor/model.rs\<close> of the proxy): what it records of a request,
  the ledger of masked values, and the classes that decide whether a plaintext may be shown.
  Times are milliseconds, as natural numbers; the turn counters are natural numbers too, a
  conversation having far fewer than \<open>2 ^ 32\<close> requests.
\<close>

datatype monitor_mode = MonitorOff | ManualAllLlm | ManualOnDetection

datatype approval_decision = Approve | Reject string

datatype request_decision =
    AutoAccepted
  | Pending
  | Approved
  | InFlight
  | Rejected
  | BackpressureRejected
  | TimedOut
  | UpstreamError
  | Aborted
  | Completed

fun decision_terminal :: "request_decision \<Rightarrow> bool" where
  "decision_terminal Rejected = True"
| "decision_terminal BackpressureRejected = True"
| "decision_terminal TimedOut = True"
| "decision_terminal UpstreamError = True"
| "decision_terminal Aborted = True"
| "decision_terminal Completed = True"
| "decision_terminal _ = False"

section \<open>Classes of masked values\<close>

datatype token_class = AutoPii | CustomClass | GuardClass | BrokerClass | Sad | LocalClass

fun is_peekable :: "token_class \<Rightarrow> bool" where
  "is_peekable AutoPii = True"
| "is_peekable CustomClass = True"
| "is_peekable _ = False"

definition for_manifest_entry :: "manifest_entry \<Rightarrow> token_class" where
  "for_manifest_entry e =
     (if me_entity_kind e = ENTITY_CVV then Sad
      else if me_broker e then BrokerClass
      else if me_local e then LocalClass
      else AutoPii)"

text \<open>The plaintexts of an entry are secret: a CVV, or a brokered or owner-reveal secret.\<close>

definition secret_entry :: "manifest_entry \<Rightarrow> bool" where
  "secret_entry e \<longleftrightarrow> me_entity_kind e = ENTITY_CVV \<or> me_broker e \<or> me_local e"

lemma peekable_iff [simp]: "is_peekable (for_manifest_entry e) \<longleftrightarrow> \<not> secret_entry e"
  by (simp add: for_manifest_entry_def secret_entry_def)

section \<open>Records\<close>

record token_preview =
  tp_token :: string
  tp_value :: string
  tp_entity_kind :: string
  tp_surface :: string
  tp_request_start :: "nat option"
  tp_request_end :: "nat option"
  tp_class :: token_class
  tp_peekable :: bool

record preview_span =
  ps_start :: nat
  ps_end :: nat
  ps_token :: string
  ps_entity_kind :: string
  ps_surface :: string

record token_ref =
  tr_token :: string
  tr_value :: string
  tr_entity_kind :: string
  tr_surface :: string

record run =
  run_text :: string
  run_token :: "token_ref option"

text \<open>\<open>Surface\<close> of the monitor, not to be confused with the surfaces of the engine.\<close>

record msurface =
  sf_label :: string
  sf_role :: "string option"
  sf_kind :: string
  sf_provenance :: string
  sf_runs :: "run list"
  sf_block_hash :: string

record turn_delta =
  td_prev_turn :: "nat option"
  td_is_first :: bool
  td_prev_unavailable :: bool
  td_added_surface_hashes :: "string list"

definition delta_first :: turn_delta where
  "delta_first =
     \<lparr>td_prev_turn = None, td_is_first = True, td_prev_unavailable = False, td_added_surface_hashes = []\<rparr>"

definition delta_prev_unavailable :: "nat \<Rightarrow> turn_delta" where
  "delta_prev_unavailable prev_turn =
     \<lparr>td_prev_turn = Some prev_turn, td_is_first = False, td_prev_unavailable = True,
      td_added_surface_hashes = []\<rparr>"

record request_record =
  rec_id :: string
  rec_conversation_id :: string
  rec_endpoint :: string
  rec_method :: string
  rec_started_ms :: nat
  rec_updated_ms :: nat
  rec_decision :: request_decision
  rec_request_preview :: string
  rec_request_spans :: "preview_span list"
  rec_response_preview :: "string option"
  rec_response_spans :: "preview_span list"
  rec_response_status :: "nat option"
  rec_tokens :: "token_preview list"
  rec_tags :: "string list"
  rec_rejection_reason :: "string option"
  rec_turn_index :: nat
  rec_dispatched_ms :: "nat option"
  rec_request_surfaces :: "msurface list"
  rec_response_surfaces :: "msurface list"
  rec_delta :: turn_delta
  rec_human_turn_index :: nat

record token_ledger_entry =
  tl_token :: string
  tl_value :: string
  tl_entity_kind :: string
  tl_class :: token_class
  tl_peekable :: bool
  tl_first_seen_ms :: nat
  tl_last_seen_ms :: nat
  tl_count :: nat
  tl_provenance :: "string option"

record conversation_meta =
  cv_id :: string
  cv_label :: string
  cv_turn_count :: nat
  cv_last_updated_ms :: nat
  cv_pending_count :: nat

record monitor_snapshot =
  sn_mode :: monitor_mode
  sn_pending_count :: nat
  sn_max_pending_approvals :: nat
  sn_records :: "request_record list"
  sn_conversations :: "conversation_meta list"
  sn_approval_timeout_secs :: nat
  sn_session_tokens :: "token_ledger_entry list"

section \<open>Standard library and wire functions the monitor uses\<close>

text \<open>\<open>serde_json::from_slice\<close> and \<open>to_string\<close> on values of unknown shape.\<close>

record json_wire =
  jw_parse :: "string \<Rightarrow> json option"
  jw_print :: "json \<Rightarrow> string option"

text \<open>
  \<open>String::from_utf8_lossy\<close>: each maximal prefix of an ill-formed sequence becomes one
  replacement character.  \<open>utf8_step\<close> says whether a scalar value starts the text, and the bytes
  consumed.
\<close>

definition third_ok :: "char \<Rightarrow> char \<Rightarrow> bool" where
  "third_ok a b \<longleftrightarrow> is_cont b \<and> (code a = 224 \<longrightarrow> 160 \<le> code b) \<and> (code a = 237 \<longrightarrow> code b < 160)"

definition fourth_ok :: "char \<Rightarrow> char \<Rightarrow> bool" where
  "fourth_ok a b \<longleftrightarrow> is_cont b \<and> (code a = 240 \<longrightarrow> 144 \<le> code b) \<and> (code a = 244 \<longrightarrow> code b < 144)"

definition cont_at :: "nat \<Rightarrow> string \<Rightarrow> bool" where
  "cont_at i s \<longleftrightarrow> i < length s \<and> is_cont (s ! i)"

definition utf8_step :: "char \<Rightarrow> string \<Rightarrow> bool \<times> nat" where
  "utf8_step a s =
     (if code a < 128 then (True, 1)
      else if 194 \<le> code a \<and> code a \<le> 223 then (if cont_at 0 s then (True, 2) else (False, 1))
      else if 224 \<le> code a \<and> code a \<le> 239 then
        (if s = [] \<or> \<not> third_ok a (hd s) then (False, 1)
         else if \<not> cont_at 1 s then (False, 2) else (True, 3))
      else if 240 \<le> code a \<and> code a \<le> 244 then
        (if s = [] \<or> \<not> fourth_ok a (hd s) then (False, 1)
         else if \<not> cont_at 1 s then (False, 2)
         else if \<not> cont_at 2 s then (False, 3) else (True, 4))
      else (False, 1))"

function utf8_lossy :: "string \<Rightarrow> string" where
  "utf8_lossy [] = []"
| "utf8_lossy (a # s) =
     (let (ok, n) = utf8_step a s
      in (if ok then take n (a # s) else [CHR 0xEF, CHR 0xBF, CHR 0xBD]) @ utf8_lossy (drop n (a # s)))"
  by pat_completeness auto
termination
  by (relation "measure length") (auto simp: utf8_step_def Let_def split: if_splits)

text \<open>\<open>str::trim_start\<close>.\<close>

definition str_trim_start :: "('x ext_scheme) \<Rightarrow> string \<Rightarrow> string" where
  "str_trim_start X s = concat (dropWhile (x_is_whitespace X) (utf8_chars s))"

text \<open>\<open>format!("{:?}")\<close> of an arrow of the engine.\<close>

fun surface_debug :: "surface \<Rightarrow> string" where
  "surface_debug UserMessage = ''UserMessage''"
| "surface_debug SystemPrompt = ''SystemPrompt''"
| "surface_debug ToolResult = ''ToolResult''"
| "surface_debug AssistantText = ''AssistantText''"
| "surface_debug ToolUseInput = ''ToolUseInput''"

text \<open>
  A \<open>HashMap\<close> is an association list with distinct keys, updated and deleted by the functions of
  the library; the order is that of insertion, and no property below depends on it.
\<close>

lemma map_of_update [simp]: "map_of (AList.update k v m) = (map_of m)(k \<mapsto> v)"
  by (rule update_conv')

lemma map_of_delete [simp]: "map_of (AList.delete k m) = (map_of m)(k := None)"
  by (simp add: AList.delete_conv')

lemma length_update:
  "length (AList.update k v m) = (if k \<in> fst ` set m then length m else Suc (length m))"
  by (induction m) auto

end
