(* ===== verification/Spans.thy ===== *)
theory Spans
  imports MonitorModel "HOL-Library.Product_Lexorder"
begin

text \<open>
  \<open>monitor/spans.rs\<close> of the proxy: the previews of masked values, the scrub that puts secret
  values of a captured reply back behind their handles, and the byte spans of the raw preview.
\<close>

definition PREVIEW_LIMIT :: nat where
  "PREVIEW_LIMIT = 128 * 1024"

definition token_previews :: "unmask_manifest \<Rightarrow> token_preview list" where
  "token_previews manifest =
     map (\<lambda>e. let class = for_manifest_entry e; peekable = is_peekable class in
        \<lparr>tp_token = me_token_handle e,
         tp_value = (if peekable then me_canonical_form e else []),
         tp_entity_kind = me_entity_kind e,
         tp_surface = surface_debug (me_arrow_origin e),
         tp_request_start = map_option fst (me_exposed_at e),
         tp_request_end = map_option snd (me_exposed_at e),
         tp_class = class,
         tp_peekable = peekable\<rparr>) manifest"

section \<open>The scrub\<close>

definition longest_first :: "(string \<times> string) list \<Rightarrow> (string \<times> string) list" where
  "longest_first pairs = sort_by (\<lambda>a b. cmp_of (length (fst b)) (length (fst a))) pairs"

definition redaction_pairs :: "unmask_manifest \<Rightarrow> (string \<times> string) list" where
  "redaction_pairs manifest =
     longest_first
       (map (\<lambda>e. (me_canonical_form e, me_token_handle e))
         (filter (\<lambda>e. me_canonical_form e \<noteq> [])
           (filter (\<lambda>e. \<not> is_peekable (for_manifest_entry e)) manifest)))"

fun redact_secret_values :: "string \<Rightarrow> (string \<times> string) list \<Rightarrow> string" where
  "redact_secret_values out [] = out"
| "redact_secret_values out ((v, handle) # pairs) =
     redact_secret_values (if str_contains out v then str_replace v handle out else out) pairs"

definition json_body_expand :: "json_wire \<Rightarrow> (string \<times> string) list \<Rightarrow> (string \<times> string) list" where
  "json_body_expand jw pairs =
     longest_first
       (concat (map (\<lambda>(v, handle).
          (case jw_print jw (JStr v) of
             None \<Rightarrow> []
           | Some j \<Rightarrow>
               let escaped = slice 1 (length j - 1) j
               in if escaped \<noteq> v then [(escaped, handle)] else []) @
          [(v, handle)]) pairs))"

definition json_body_redaction_pairs :: "json_wire \<Rightarrow> unmask_manifest \<Rightarrow> (string \<times> string) list" where
  "json_body_redaction_pairs jw manifest = json_body_expand jw (redaction_pairs manifest)"

lemma set_longest_first [simp]: "set (longest_first pairs) = set pairs"
  by (simp add: longest_first_def)

lemma redaction_pairs_iff:
  "(v, h) \<in> set (redaction_pairs m) \<longleftrightarrow>
     v \<noteq> [] \<and> (\<exists>e\<in>set m. secret_entry e \<and> me_canonical_form e = v \<and> me_token_handle e = h)"
  by (auto simp: redaction_pairs_def)

lemma json_body_expand_keeps: "set pairs \<subseteq> set (json_body_expand jw pairs)"
  by (force simp: json_body_expand_def)

section \<open>The spans of the raw preview\<close>

definition spans_from_manifest :: "unmask_manifest \<Rightarrow> string \<Rightarrow> preview_span list" where
  "spans_from_manifest manifest preview =
     sort_key (\<lambda>s. (ps_start s, ps_end s))
       (List.map_filter (\<lambda>e.
          case me_exposed_at e of
            None \<Rightarrow> None
          | Some (a, b) \<Rightarrow>
              if a \<ge> b \<or> b > length preview then None
              else Some \<lparr>ps_start = a, ps_end = b, ps_token = me_token_handle e,
                         ps_entity_kind = me_entity_kind e,
                         ps_surface = surface_debug (me_arrow_origin e)\<rparr>) manifest)"

text \<open>
  The occurrences of a needle found from an offset on, each search starting at the end of the
  last hit.  The callers skip empty needles.
\<close>

function hits_from :: "string \<Rightarrow> string \<Rightarrow> nat \<Rightarrow> (nat \<times> nat) list" where
  "hits_from needle text from =
     (if needle = [] \<or> from > length text then []
      else
        (case str_find needle (drop from text) of
           None \<Rightarrow> []
         | Some rel \<Rightarrow>
             (from + rel, from + rel + length needle) #
             hits_from needle text (from + rel + length needle)))"
  by pat_completeness auto
termination
  by (relation "measure (\<lambda>(needle, text, from). Suc (length text) - from)")
    (auto intro!: diff_less_mono2 simp: trans_less_add2)

declare hits_from.simps [simp del]

definition overlapping :: "preview_span \<Rightarrow> preview_span \<Rightarrow> bool" where
  "overlapping s t \<longleftrightarrow> ps_start s < ps_end t \<and> ps_start t < ps_end s"

fun dedupe_from :: "preview_span list \<Rightarrow> preview_span list \<Rightarrow> preview_span list" where
  "dedupe_from out [] = out"
| "dedupe_from out (s # spans) =
     (if list_ex (overlapping s) out then dedupe_from out spans
      else dedupe_from (out @ [s]) spans)"

definition dedupe_overlapping_spans :: "preview_span list \<Rightarrow> preview_span list" where
  "dedupe_overlapping_spans spans = dedupe_from [] spans"

definition value_spans :: "token_preview \<Rightarrow> string \<Rightarrow> preview_span list" where
  "value_spans t preview =
     map (\<lambda>(a, b). \<lparr>ps_start = a, ps_end = b, ps_token = tp_token t,
                    ps_entity_kind = tp_entity_kind t, ps_surface = tp_surface t\<rparr>)
       (hits_from (tp_value t) preview 0)"

definition spans_from_values :: "token_preview list \<Rightarrow> string \<Rightarrow> preview_span list" where
  "spans_from_values tokens preview =
     dedupe_overlapping_spans
       (sort_key (\<lambda>s. (ps_start s, ps_end s)) (concat (map (\<lambda>t. value_spans t preview) tokens)))"

definition clip_preview :: "string \<Rightarrow> string" where
  "clip_preview body =
     utf8_lossy (if length body > PREVIEW_LIMIT then take PREVIEW_LIMIT body else body) @
     (if length body > PREVIEW_LIMIT then [CHR 0x0A] @ ''...[truncated]'' else [])"

section \<open>What the scrub leaves\<close>

definition bracketless :: "string \<Rightarrow> bool" where
  "bracketless s \<longleftrightarrow> CHR ''['' \<notin> set s \<and> CHR '']'' \<notin> set s"

text \<open>A handle opens and closes with a bracket.\<close>

definition bracketed :: "string \<Rightarrow> bool" where
  "bracketed h \<longleftrightarrow> h \<noteq> [] \<and> hd h = CHR ''['' \<and> last h = CHR '']''"

lemma prefix_replace:
  "bracketed h \<Longrightarrow> bracketless w \<Longrightarrow> prefix w (str_replace_ne p h t) \<Longrightarrow> prefix w t"
proof (induction p h t arbitrary: w rule: str_replace_ne.induct)
  case (2 p h c cs)
  show ?case
  proof (cases "prefix p (c # cs)")
    case True
    obtain h' where "h = CHR ''['' # h'" using "2.prems"(1) by (cases h) (auto simp: bracketed_def)
    with "2.prems" True have "w = []" by (cases w) (auto simp: bracketless_def)
    then show ?thesis by simp
  next
    case False
    show ?thesis
    proof (cases w)
      case (Cons d w')
      have "prefix w' cs"
        using "2.IH"(2) [OF False "2.prems"(1), of w'] "2.prems"(2,3) False
        by (auto simp: Cons bracketless_def)
      then show ?thesis using "2.prems"(3) False by (simp add: Cons)
    qed simp
  qed
qed simp

lemma sublist_bracketed:
  assumes "bracketed h" and "bracketless w" and "sublist w (h @ r)"
  shows "sublist w h \<or> sublist w r"
proof -
  from assms(3) consider "sublist w h" | "sublist w r"
    | u v where "w = u @ v" "suffix u h" "prefix v r"
    by (auto simp: sublist_append)
  then show ?thesis
  proof cases
    case (3 u v)
    show ?thesis
    proof (cases "u = []")
      case True
      with 3 show ?thesis by simp
    next
      case False
      with 3 have "last h = last u" by (auto simp: suffix_def)
      with False have "CHR '']'' \<in> set u" using assms(1) by (metis bracketed_def last_in_set)
      with 3(1) assms(2) show ?thesis by (simp add: bracketless_def)
    qed
  qed simp_all
qed

lemma replace_absent:
  assumes "bracketed h" and "bracketless w" and "w \<noteq> []" and "\<not> sublist w h"
  shows "w = p \<or> \<not> sublist w t \<Longrightarrow> \<not> sublist w (str_replace_ne p h t)"
proof (induction t rule: length_induct)
  case (1 t)
  show ?case
  proof (cases t)
    case Nil
    then show ?thesis using assms(3) by simp
  next
    case (Cons c cs)
    show ?thesis
    proof (cases "prefix p (c # cs)")
      case True
      let ?rest = "drop (length p - 1) cs"
      have "sublist ?rest t" by (simp add: Cons sublist_Cons_right)
      then have "w = p \<or> \<not> sublist w ?rest"
        using "1.prems" sublist_order.order_trans by blast
      then have "\<not> sublist w (str_replace_ne p h ?rest)"
        using "1.IH" [rule_format, of ?rest] by (simp add: Cons)
      then show ?thesis using True sublist_bracketed [OF assms(1,2)] assms(4) by (auto simp: Cons)
    next
      case False
      have "w = p \<or> \<not> sublist w cs" using "1.prems" by (auto simp: Cons sublist_Cons_right)
      then have "\<not> sublist w (str_replace_ne p h cs)"
        using "1.IH" [rule_format, of cs] by (simp add: Cons)
      moreover have "\<not> prefix w (str_replace_ne p h (c # cs))"
      proof
        assume "prefix w (str_replace_ne p h (c # cs))"
        then have "prefix w (c # cs)" by (rule prefix_replace [OF assms(1,2)])
        with "1.prems" False show False by (auto simp: Cons dest: prefix_imp_sublist)
      qed
      ultimately show ?thesis using False by (simp add: Cons sublist_Cons_right)
    qed
  qed
qed

lemma redact_step_absent:
  assumes "bracketed h" and "bracketless w" and "w \<noteq> []" and "\<not> sublist w h" and "p \<noteq> []"
    and "w = p \<or> \<not> sublist w t"
  shows "\<not> sublist w (if str_contains t p then str_replace p h t else t)"
  using replace_absent [OF assms(1-4), of p t] assms(5,6)
  by (auto simp: str_contains_def str_replace_def str_find_None_iff)

lemma redact_keeps_absent:
  assumes "bracketless w" and "w \<noteq> []"
  shows "(\<forall>(v, h)\<in>set pairs. bracketed h \<and> v \<noteq> [] \<and> \<not> sublist w h) \<Longrightarrow>
    \<not> sublist w t \<Longrightarrow> \<not> sublist w (redact_secret_values t pairs)"
proof (induction pairs arbitrary: t)
  case (Cons p pairs)
  obtain v h where p: "p = (v, h)" by fastforce
  show ?case
    using Cons.IH [OF _ redact_step_absent [of h w v t]] Cons.prems assms by (auto simp: p)
qed simp

text \<open>
  C26: the scrub of the monitor.  When the handles are bracketed, the secret values have no
  bracket and none of them occurs inside a handle, the scrubbed text has no secret value of the
  manifest anywhere, not even one that a replacement would have put together.
\<close>

theorem redact_removes_secrets:
  assumes "\<forall>(v, h)\<in>set pairs. bracketed h \<and> bracketless v"
    and "\<forall>(v, h)\<in>set pairs. \<forall>(v', h')\<in>set pairs. \<not> sublist v h'"
    and "set (redaction_pairs m) \<subseteq> set pairs" and "\<forall>(v, h)\<in>set pairs. v \<noteq> []"
    and "e \<in> set m" and "secret_entry e" and "me_canonical_form e \<noteq> []"
  shows "\<not> sublist (me_canonical_form e) (redact_secret_values t pairs)"
proof -
  have *: "\<not> sublist w (redact_secret_values t ps)"
    if "set ps \<subseteq> set pairs" "(w, h) \<in> set ps" for w h ps t
    using that
  proof (induction ps arbitrary: t)
    case (Cons p ps)
    obtain v h' where p: "p = (v, h')" by fastforce
    have in_pairs: "(w, h) \<in> set pairs" "(v, h') \<in> set pairs" using Cons.prems by (auto simp: p)
    then have w: "bracketless w" "w \<noteq> []" and h': "bracketed h'" "v \<noteq> []" "\<not> sublist w h'"
      using assms(1,2,4) by blast+
    show ?case
    proof (cases "w = v")
      case True
      have "bracketed k \<and> u \<noteq> [] \<and> \<not> sublist w k" if "(u, k) \<in> set ps" for u k
      proof -
        have "(u, k) \<in> set pairs" "(w, h) \<in> set pairs" using that Cons.prems by auto
        with assms(1,2,4) show ?thesis by blast
      qed
      then have "\<forall>(v, h)\<in>set ps. bracketed h \<and> v \<noteq> [] \<and> \<not> sublist w h" by blast
      then show ?thesis
        using redact_keeps_absent [OF w] redact_step_absent [OF h'(1) w h'(3,2), of t] True
        by (simp add: p)
    next
      case False
      with Cons.prems have "(w, h) \<in> set ps" by (auto simp: p)
      with Cons.IH Cons.prems show ?thesis by (simp add: p)
    qed
  qed simp
  have "(me_canonical_form e, me_token_handle e) \<in> set (redaction_pairs m)"
    using assms(5-7) redaction_pairs_iff by blast
  then show ?thesis using * assms(3) by blast
qed

section \<open>The spans of the response preview\<close>

lemma hits_from_sound:
  "(a, b) \<in> set (hits_from p t i) \<Longrightarrow> i \<le> a \<and> b = a + length p \<and> b \<le> length t \<and> slice a b t = p \<and> p \<noteq> []"
proof (induction p t i rule: hits_from.induct)
  case (1 p t i)
  show ?case
  proof (cases "p = [] \<or> i > length t")
    case True
    with "1.prems" show ?thesis by (simp add: hits_from.simps [of p t i])
  next
    case False
    then obtain rel where rel: "str_find p (drop i t) = Some rel"
      using "1.prems" by (cases "str_find p (drop i t)") (simp_all add: hits_from.simps [of p t i])
    then have "(a, b) = (i + rel, i + rel + length p) \<or> (a, b) \<in> set (hits_from p t (i + rel + length p))"
      using "1.prems" False by (simp add: hits_from.simps [of p t i])
    then show ?thesis
    proof
      assume "(a, b) = (i + rel, i + rel + length p)"
      moreover have "rel + length p \<le> length t - i" using str_find_Some [OF rel] by simp
      ultimately show ?thesis using str_find_Some [OF rel] False
        by (auto simp: slice_def drop_drop add.commute)
    next
      assume "(a, b) \<in> set (hits_from p t (i + rel + length p))"
      with "1.IH" [OF False rel] show ?thesis by auto
    qed
  qed
qed

lemma hits_from_disjoint:
  "sorted_wrt (\<lambda>s t. snd s \<le> fst t) (hits_from p t i)"
proof (induction p t i rule: hits_from.induct)
  case (1 p t i)
  then show ?case
    by (subst hits_from.simps) (auto split: option.split dest!: hits_from_sound)
qed

lemma dedupe_from_append:
  "\<exists>kept. dedupe_from out spans = out @ kept \<and> set kept \<subseteq> set spans"
proof (induction spans arbitrary: out)
  case (Cons s spans)
  show ?case
  proof (cases "list_ex (overlapping s) out")
    case True
    with Cons.IH [of out] show ?thesis by auto
  next
    case False
    obtain kept where "dedupe_from (out @ [s]) spans = (out @ [s]) @ kept" "set kept \<subseteq> set spans"
      using Cons.IH by blast
    with False show ?thesis by (intro exI [of _ "s # kept"]) auto
  qed
qed simp

lemma overlapping_sym: "overlapping s t = overlapping t s"
  by (auto simp: overlapping_def)

lemma dedupe_from_disjoint:
  "sorted_wrt (\<lambda>s t. \<not> overlapping s t) out \<Longrightarrow>
   sorted_wrt (\<lambda>s t. \<not> overlapping s t) (dedupe_from out spans)"
  by (induction out spans rule: dedupe_from.induct)
    (auto simp: sorted_wrt_append list_ex_iff overlapping_sym)

lemma dedupe_from_sorted:
  "sorted (map f out @ map f spans) \<Longrightarrow> sorted (map f (dedupe_from out spans))"
  by (induction out spans rule: dedupe_from.induct) (auto simp: sorted_append)

lemma dedupe_from_covers:
  "s \<in> set spans \<union> set out \<Longrightarrow>
   \<exists>s'\<in>set (dedupe_from out spans). s' = s \<or> overlapping s s'"
proof (induction out spans rule: dedupe_from.induct)
  case (2 out x spans)
  obtain kept where kept: "dedupe_from out spans = out @ kept" "set kept \<subseteq> set spans"
    using dedupe_from_append by blast
  show ?case
  proof (cases "list_ex (overlapping x) out")
    case True
    with 2 kept show ?thesis by (auto simp: list_ex_iff)
  next
    case False
    with 2 show ?thesis by auto
  qed
qed auto

text \<open>
  The spans shown over a captured reply are sorted and disjoint, each one is an occurrence of
  the non-empty value of one of the previewed tokens, and an occurrence the search found is
  dropped only where a span that overlaps it was kept.
\<close>

lemma spans_from_values_correct:
  "sorted_wrt (\<lambda>s s'. ps_end s \<le> ps_start s') (spans_from_values tokens preview) \<and>
   (\<forall>s\<in>set (spans_from_values tokens preview). \<exists>t\<in>set tokens.
      ps_token s = tp_token t \<and> tp_value t \<noteq> [] \<and> ps_end s \<le> length preview \<and>
      slice (ps_start s) (ps_end s) preview = tp_value t) \<and>
   (\<forall>t\<in>set tokens. \<forall>s\<in>set (value_spans t preview).
      \<exists>s'\<in>set (spans_from_values tokens preview). s' = s \<or> overlapping s s')"
proof -
  let ?key = "\<lambda>s. (ps_start s, ps_end s)"
  let ?all = "concat (map (\<lambda>t. value_spans t preview) tokens)"
  let ?r = "spans_from_values tokens preview"
  have sub: "set ?r \<subseteq> set ?all"
    using dedupe_from_append [of "[]" "sort_key ?key ?all"]
    by (auto simp: spans_from_values_def dedupe_overlapping_spans_def)
  have ok: "\<exists>t\<in>set tokens. ps_token s = tp_token t \<and> tp_value t \<noteq> [] \<and> ps_start s < ps_end s \<and>
      ps_end s \<le> length preview \<and> slice (ps_start s) (ps_end s) preview = tp_value t"
    if "s \<in> set ?r" for s
    using that sub by (fastforce simp: value_spans_def dest!: hits_from_sound)
  have sorted: "sorted (map ?key ?r)"
    unfolding spans_from_values_def dedupe_overlapping_spans_def
    by (rule dedupe_from_sorted) (simp only: list.map append.simps sorted_sort_key)
  have disj: "sorted_wrt (\<lambda>s t. \<not> overlapping s t) ?r"
    unfolding spans_from_values_def dedupe_overlapping_spans_def by (rule dedupe_from_disjoint) simp
  have "sorted_wrt (\<lambda>s s'. ps_end s \<le> ps_start s') ?r"
  proof (rule sorted_wrt_mono_rel [where P = "\<lambda>s t. ?key s \<le> ?key t \<and> \<not> overlapping s t"])
    show "sorted_wrt (\<lambda>s t. ?key s \<le> ?key t \<and> \<not> overlapping s t) ?r"
      using sorted disj by (auto simp: sorted_wrt_iff_nth_less sorted_map)
    fix s t assume "s \<in> set ?r" "t \<in> set ?r" "?key s \<le> ?key t \<and> \<not> overlapping s t"
    with ok [of s] ok [of t] show "ps_end s \<le> ps_start t"
      by (auto simp: overlapping_def less_eq_prod_def)
  qed
  moreover have "\<exists>s'\<in>set ?r. s' = s \<or> overlapping s s'" if "t \<in> set tokens" "s \<in> set (value_spans t preview)" for t s
    using dedupe_from_covers [of s "sort_key ?key ?all" "[]"] that
    by (auto simp: spans_from_values_def dedupe_overlapping_spans_def)
  ultimately show ?thesis using ok by blast
qed

definition cvv_manifest :: unmask_manifest where
  "cvv_manifest =
     [\<lparr>me_canonical_form = ''987'', me_token_handle = ''[CVV_bb]'', me_entity_kind = ''CVV'',
       me_arrow_origin = UserMessage, me_exposed_at = None, me_broker = False, me_local = False\<rparr>]"

theorem redact_removes_secrets_witness:
  "\<not> sublist ''987'' (redact_secret_values ''cvv 987, again 987'' (redaction_pairs cvv_manifest)) \<and>
   redact_secret_values ''cvv 987'' (redaction_pairs cvv_manifest) = ''cvv [CVV_bb]''"
proof -
  have pairs: "redaction_pairs cvv_manifest = [(''987'', ''[CVV_bb]'')]"
    by (simp add: redaction_pairs_def cvv_manifest_def for_manifest_entry_def ENTITY_CVV_def
        longest_first_def sort_by_def)
  have "\<not> sublist ''987'' (redact_secret_values ''cvv 987, again 987'' (redaction_pairs cvv_manifest))"
    using redact_removes_secrets [of "redaction_pairs cvv_manifest" cvv_manifest "hd cvv_manifest"
        "''cvv 987, again 987''"]
    by (simp add: pairs del: redact_secret_values.simps)
      (simp add: cvv_manifest_def secret_entry_def ENTITY_CVV_def bracketed_def bracketless_def
        sublist_Cons_right del: redact_secret_values.simps)
  moreover have "redact_secret_values ''cvv 987'' [(''987'', ''[CVV_bb]'')] = ''cvv [CVV_bb]''"
    by code_simp
  ultimately show ?thesis by (simp add: pairs)
qed

end
