(* ===== verification/Surfaces.thy ===== *)
theory Surfaces
  imports Spans
begin

text \<open>
  \<open>monitor/surfaces.rs\<close> and \<open>monitor/delta.rs\<close> of the proxy: the text surfaces of a body, their
  provenance lanes, the segmentation of a surface into plain and token runs, and what is new in
  a turn.
\<close>

definition block_hash :: "'x ext_scheme \<Rightarrow> string \<Rightarrow> string" where
  "block_hash X text = take 16 (to_hex (x_blake3 X text))"

definition masked_text :: "run list \<Rightarrow> string" where
  "masked_text runs =
     concat (map (\<lambda>r. case run_token r of Some t \<Rightarrow> tr_token t | None \<Rightarrow> run_text r) runs)"

definition egress_hash :: "'x ext_scheme \<Rightarrow> msurface \<Rightarrow> string" where
  "egress_hash X s =
     (if list_all (\<lambda>r. run_token r = None) (sf_runs s) then sf_block_hash s
      else block_hash X (masked_text (sf_runs s)))"

section \<open>Text surfaces of a body\<close>

record raw_surface =
  rw_label :: string
  rw_role :: "string option"
  rw_kind :: string
  rw_text :: string

definition canonical_args :: "json_wire \<Rightarrow> string \<Rightarrow> string" where
  "canonical_args jw raw =
     (case Option.bind (jw_parse jw raw) (jw_print jw) of None \<Rightarrow> raw | Some s \<Rightarrow> s)"

definition obj_str :: "(string \<times> json) list \<Rightarrow> string \<Rightarrow> string option" where
  "obj_str kvs k = Option.bind (map_of kvs k) json_str"

definition call_text :: "string \<Rightarrow> string \<Rightarrow> string" where
  "call_text name args = (if args = [] then name @ ''()'' else name @ ''('' @ args @ '')'')"

definition or_default :: "'a \<Rightarrow> 'a option \<Rightarrow> 'a" where
  "or_default d x = (case x of None \<Rightarrow> d | Some y \<Rightarrow> y)"

lemma size_map_of: "map_of kvs k = Some v \<Longrightarrow> size v < size (JObj kvs)"
  by (induction kvs) (auto split: if_splits)

lemma size_json_arr: "x \<in> set items \<Longrightarrow> size x < size (JArr items)"
  by (induction items) auto

function text_values :: "json_wire \<Rightarrow> json \<Rightarrow> string \<Rightarrow> (string \<times> string) list"
  and text_values_from_block ::
    "json_wire \<Rightarrow> (string \<times> json) list \<Rightarrow> string \<Rightarrow> (string \<times> string) list"
where
  "text_values jw v default_kind =
     (case v of
        JStr s \<Rightarrow> [(s, default_kind)]
      | JArr items \<Rightarrow>
          concat (map (\<lambda>x.
            (case x of
               JStr s \<Rightarrow> [(s, default_kind)]
             | JObj kvs \<Rightarrow> text_values_from_block jw kvs default_kind
             | _ \<Rightarrow> [])) items)
      | JObj kvs \<Rightarrow> text_values_from_block jw kvs default_kind
      | _ \<Rightarrow> [])"
| "text_values_from_block jw kvs default_kind =
     (let block_type = obj_str kvs ''type'' in
      if block_type = Some ''tool_use'' \<or> block_type = Some ''function_call'' then
        (let name = or_default ''tool'' (obj_str kvs ''name'');
             args =
               (case map_of kvs ''input'' of
                  Some v \<Rightarrow>
                    if v \<noteq> JNull then or_default [] (jw_print jw v)
                    else canonical_args jw (or_default [] (obj_str kvs ''arguments''))
                | None \<Rightarrow> canonical_args jw (or_default [] (obj_str kvs ''arguments'')))
         in [(call_text name args, ''tool_use'')])
      else
        (let is_tool_result =
               (block_type = Some ''tool_result'' \<or> block_type = Some ''function_call_output'' \<or>
                map_of kvs ''tool_use_id'' \<noteq> None);
             kind = (if is_tool_result then ''tool_result'' else default_kind)
         in
         (case obj_str kvs ''text'' of Some s \<Rightarrow> [(s, kind)] | None \<Rightarrow>
         (case obj_str kvs ''input_text'' of Some s \<Rightarrow> [(s, kind)] | None \<Rightarrow>
         (case obj_str kvs ''output_text'' of Some s \<Rightarrow> [(s, kind)] | None \<Rightarrow>
         (case (if is_tool_result then obj_str kvs ''output'' else None) of Some s \<Rightarrow> [(s, kind)] | None \<Rightarrow>
         (case map_of kvs ''content'' of Some c \<Rightarrow> text_values jw c kind | None \<Rightarrow> [])))))))"
  by pat_completeness auto
termination
proof (relation "measure (case_sum (\<lambda>(jw, v, k). 2 * size v + 1) (\<lambda>(jw, kvs, k). 2 * size (JObj kvs)))")
  fix jw :: json_wire and v k items x and kvs :: "(string \<times> json) list"
  assume "v = JArr items" "x \<in> set items" "x = JObj kvs"
  with size_json_arr [of x items]
  show "(Inr (jw, kvs, k), Inl (jw, v, k)) \<in>
      measure (case_sum (\<lambda>(jw, v, k). 2 * size v + 1) (\<lambda>(jw, kvs, k). 2 * size (JObj kvs)))" by simp
qed (auto dest!: size_map_of)

declare text_values.simps [simp del] text_values_from_block.simps [simp del]

definition push_texts ::
  "'x ext_scheme \<Rightarrow> json_wire \<Rightarrow> string \<Rightarrow> string \<Rightarrow> string option \<Rightarrow> json \<Rightarrow> raw_surface list" where
  "push_texts X jw label kind role v =
     List.map_filter (\<lambda>(text, resolved_kind).
       if str_trim X text = [] then None
       else Some \<lparr>rw_label = label, rw_role = role, rw_kind = resolved_kind, rw_text = text\<rparr>)
     (text_values jw v kind)"

definition json_obj :: "json \<Rightarrow> (string \<times> json) list option" where
  "json_obj v = (case v of JObj kvs \<Rightarrow> Some kvs | _ \<Rightarrow> None)"

definition tool_call_surface ::
  "json_wire \<Rightarrow> string \<Rightarrow> string option \<Rightarrow> nat \<Rightarrow> json \<Rightarrow> raw_surface" where
  "tool_call_surface jw label role j call =
     (let func = Option.bind (json_get ''function'' call) json_obj;
          name = or_default ''tool'' (Option.bind func (\<lambda>f. obj_str f ''name''));
          args = canonical_args jw (or_default [] (Option.bind func (\<lambda>f. obj_str f ''arguments'')))
      in \<lparr>rw_label = label @ [CHR '' '', CHR 0xC2, CHR 0xB7, CHR '' ''] @ ''tool_call['' @ dec_string j @ '']'',
          rw_role = role, rw_kind = ''tool_use'', rw_text = call_text name args\<rparr>)"

definition collect_message ::
  "'x ext_scheme \<Rightarrow> json_wire \<Rightarrow> string \<Rightarrow> nat \<Rightarrow> json \<Rightarrow> raw_surface list" where
  "collect_message X jw base i m =
     (let role = Option.bind (json_get ''role'' m) json_str;
          label = base @ ''['' @ dec_string i @ '']'' @
            (case role of Some r \<Rightarrow> '' - '' @ r | None \<Rightarrow> []);
          content = or_default m (json_get ''content'' m)
      in push_texts X jw label ''message'' role content @
         (case json_get ''tool_calls'' m of
            Some (JArr calls) \<Rightarrow> map (\<lambda>(j, call). tool_call_surface jw label role j call) (enumerate 0 calls)
          | _ \<Rightarrow> []))"

definition collect_message_list ::
  "'x ext_scheme \<Rightarrow> json_wire \<Rightarrow> string \<Rightarrow> json list \<Rightarrow> raw_surface list" where
  "collect_message_list X jw base items =
     concat (map (\<lambda>(i, m). collect_message X jw base i m) (enumerate 0 items))"

definition collect_surfaces :: "'x ext_scheme \<Rightarrow> json_wire \<Rightarrow> json \<Rightarrow> raw_surface list" where
  "collect_surfaces X jw doc =
     (case json_obj doc of
        None \<Rightarrow> []
      | Some obj \<Rightarrow>
          (case map_of obj ''system'' of
             Some v \<Rightarrow> push_texts X jw ''system'' ''system'' None v | None \<Rightarrow> []) @
          (case map_of obj ''instructions'' of
             Some v \<Rightarrow> push_texts X jw ''instructions'' ''instructions'' None v | None \<Rightarrow> []) @
          (case map_of obj ''messages'' of
             Some (JArr items) \<Rightarrow> collect_message_list X jw ''messages'' items | _ \<Rightarrow> []) @
          (case map_of obj ''input'' of
             Some (JArr items) \<Rightarrow> collect_message_list X jw ''input'' items
           | Some other \<Rightarrow> push_texts X jw ''input'' ''message'' None other
           | None \<Rightarrow> []))"

section \<open>Provenance\<close>

definition is_userctx_reminder :: "string \<Rightarrow> bool" where
  "is_userctx_reminder body =
     (let head = map ascii_lower (concat (take 600 (utf8_chars body))) in
      list_ex (str_contains head)
        [''claudemd'', ''claude.md'', ''memory.md'', ''# memory'', ''codebase and user instructions'',
         ''user'' @ [CHR 0x27] @ ''s private global instructions''])"

definition provenance_of :: "'x ext_scheme \<Rightarrow> string \<Rightarrow> string option \<Rightarrow> string \<Rightarrow> string" where
  "provenance_of X kind role text =
     (let t = str_trim_start X text in
      if kind = ''system'' \<or> kind = ''instructions'' then
        (if prefix ''x-anthropic'' t then ''harness_meta'' else ''harness_frame'')
      else if kind = ''tool_use'' \<or> kind = ''tool_result'' then ''tool_io''
      else if role = Some ''system'' then ''harness_frame''
      else if role = Some ''assistant'' then ''assistant''
      else
        (case strip_prefix ''<system-reminder>'' t of
           Some rest \<Rightarrow> if is_userctx_reminder rest then ''userctx'' else ''harness_frame''
         | None \<Rightarrow>
             if prefix ''<command-message>'' t \<or> prefix ''<command-name>'' t then ''harness_frame''
             else ''user_input''))"

section \<open>Segmentation\<close>

datatype needle_mode = HandleNeedle | ValueNeedle

fun needle :: "needle_mode \<Rightarrow> token_preview \<Rightarrow> string" where
  "needle HandleNeedle t = tp_token t"
| "needle ValueNeedle t = tp_value t"

definition ref_of :: "token_preview \<Rightarrow> token_ref" where
  "ref_of t =
     \<lparr>tr_token = tp_token t, tr_value = tp_value t, tr_entity_kind = tp_entity_kind t,
      tr_surface = tp_surface t\<rparr>"

type_synonym hit = "nat \<times> nat \<times> token_ref"

definition token_hits :: "needle_mode \<Rightarrow> string \<Rightarrow> token_preview list \<Rightarrow> hit list" where
  "token_hits mode text tokens =
     concat (map (\<lambda>t. map (\<lambda>(a, b). (a, b, ref_of t)) (hits_from (needle mode t) text 0)) tokens)"

definition cmp_hit :: "hit \<Rightarrow> hit \<Rightarrow> ordering" where
  "cmp_hit a b = ord_then (cmp_of (fst a) (fst b)) (cmp_of (fst (snd b)) (fst (snd a)))"

definition plain_run :: "string \<Rightarrow> run" where
  "plain_run text = \<lparr>run_text = text, run_token = None\<rparr>"

fun emit_runs :: "string \<Rightarrow> nat \<Rightarrow> hit list \<Rightarrow> run list" where
  "emit_runs text cursor [] =
     (if cursor < length text then [plain_run (drop cursor text)] else [])"
| "emit_runs text cursor ((start, stop, tref) # hits) =
     (if start < cursor then emit_runs text cursor hits
      else
        (if start > cursor then [plain_run (slice cursor start text)] else []) @
        \<lparr>run_text = slice start stop text, run_token = Some tref\<rparr> # emit_runs text stop hits)"

definition segment_runs_with :: "needle_mode \<Rightarrow> string \<Rightarrow> token_preview list \<Rightarrow> run list" where
  "segment_runs_with mode text tokens =
     (let runs = emit_runs text 0 (sort_by cmp_hit (token_hits mode text tokens))
      in if runs = [] then [plain_run text] else runs)"

definition segment ::
  "'x ext_scheme \<Rightarrow> token_preview list \<Rightarrow> needle_mode \<Rightarrow> raw_surface \<Rightarrow> msurface" where
  "segment X tokens mode raw =
     \<lparr>sf_label = rw_label raw, sf_role = rw_role raw, sf_kind = rw_kind raw,
      sf_provenance = provenance_of X (rw_kind raw) (rw_role raw) (rw_text raw),
      sf_runs = segment_runs_with mode (rw_text raw) tokens,
      sf_block_hash = block_hash X (rw_text raw)\<rparr>"

definition response_text_surface ::
  "'x ext_scheme \<Rightarrow> string \<Rightarrow> string option \<Rightarrow> string \<Rightarrow> string \<Rightarrow> token_preview list \<Rightarrow> msurface" where
  "response_text_surface X label role kind text tokens =
     \<lparr>sf_label = label, sf_role = role, sf_kind = kind,
      sf_provenance = provenance_of X kind role text,
      sf_runs = segment_runs_with ValueNeedle text tokens,
      sf_block_hash = block_hash X text\<rparr>"

definition surfaces_from_body_with ::
  "'x ext_scheme \<Rightarrow> json_wire \<Rightarrow> string \<Rightarrow> token_preview list \<Rightarrow> needle_mode \<Rightarrow> msurface list" where
  "surfaces_from_body_with X jw body tokens mode =
     (case jw_parse jw body of
        None \<Rightarrow> []
      | Some doc \<Rightarrow> map (segment X tokens mode) (collect_surfaces X jw doc))"

definition surfaces_from_body ::
  "'x ext_scheme \<Rightarrow> json_wire \<Rightarrow> string \<Rightarrow> token_preview list \<Rightarrow> msurface list" where
  "surfaces_from_body X jw body tokens = surfaces_from_body_with X jw body tokens HandleNeedle"

definition surfaces_from_response_body ::
  "'x ext_scheme \<Rightarrow> json_wire \<Rightarrow> string \<Rightarrow> token_preview list \<Rightarrow> msurface list" where
  "surfaces_from_response_body X jw body tokens = surfaces_from_body_with X jw body tokens ValueNeedle"

section \<open>What is new in a turn\<close>

fun added_hashes :: "string set \<Rightarrow> string set \<Rightarrow> msurface list \<Rightarrow> string list" where
  "added_hashes prev seen [] = []"
| "added_hashes prev seen (s # ss) =
     (let h = sf_block_hash s in
      if h \<in> prev then added_hashes prev seen ss
      else if h \<in> seen then added_hashes prev seen ss
      else h # added_hashes prev (insert h seen) ss)"

definition compute_delta ::
  "'x ext_scheme \<Rightarrow> msurface list \<Rightarrow> (nat \<times> msurface list \<times> msurface list) option \<Rightarrow> turn_delta" where
  "compute_delta X current previous =
     (case previous of
        None \<Rightarrow> delta_first
      | Some (prev_turn, prev_request, prev_response) \<Rightarrow>
          \<lparr>td_prev_turn = Some prev_turn, td_is_first = False, td_prev_unavailable = False,
           td_added_surface_hashes =
             added_hashes (sf_block_hash ` set prev_request \<union> egress_hash X ` set prev_response) {} current\<rparr>)"

lemma added_hashes_distinct:
  "distinct (added_hashes prev seen ss) \<and> set (added_hashes prev seen ss) = sf_block_hash ` set ss - prev - seen"
  by (induction prev seen ss rule: added_hashes.induct) (auto simp: Let_def)

end
