(* ===== verification/SurfacesCorrect.thy ===== *)
theory SurfacesCorrect
  imports Surfaces Instances
begin

text \<open>
  The segmentation of a surface shows the surface byte for byte, and in a request it marks every
  masked value.
\<close>

section \<open>Hits\<close>

definition valid_hit :: "needle_mode \<Rightarrow> token_preview list \<Rightarrow> string \<Rightarrow> hit \<Rightarrow> bool" where
  "valid_hit mode tokens str h \<longleftrightarrow>
     (case h of (a, b, tref) \<Rightarrow>
        a < b \<and> b \<le> length str \<and>
        (\<exists>t\<in>set tokens. tref = ref_of t \<and> slice a b str = needle mode t))"

lemma token_hits_valid: "h \<in> set (token_hits mode str tokens) \<Longrightarrow> valid_hit mode tokens str h"
  by (auto simp: token_hits_def valid_hit_def dest!: hits_from_sound)

abbreviation hit_rank :: "hit \<Rightarrow> nat \<times> int" where
  "hit_rank h \<equiv> (fst h, - int (fst (snd h)))"

lemma cmp_hit_ranks: "cmp_ranks cmp_hit hit_rank A"
  by (auto simp: cmp_ranks_def cmp_hit_def ord_then_def cmp_of_def)

lemma sorted_hits: "sorted (map fst (sort_by cmp_hit hits))"
proof -
  have "sorted (map hit_rank (sort_by cmp_hit hits))"
    by (simp add: sort_by_sort_key [OF cmp_hit_ranks [of UNIV]])
  then show ?thesis
    by (auto simp: sorted_map less_eq_prod_def elim!: sorted_wrt_mono_rel [rotated])
qed

section \<open>Runs\<close>

lemma emit_runs_concat:
  assumes "\<forall>h\<in>set hits. valid_hit mode tokens str h"
  shows "cursor \<le> length str \<Longrightarrow> concat (map run_text (emit_runs str cursor hits)) = drop cursor str"
  using assms
proof (induction str cursor hits rule: emit_runs.induct)
  case (2 str cursor start stop tref hits)
  show ?case
  proof (cases "start < cursor")
    case False
    have v: "start < stop" "stop \<le> length str" using "2.prems"(2) by (simp_all add: valid_hit_def)
    have "slice cursor start str @ slice start stop str @ drop stop str = drop cursor str"
      using False v by (metis append.assoc less_imp_le not_less slice_append_slice slice_drop)
    then show ?thesis using False v "2.IH"(2) [OF False] "2.prems"
      by (cases "start = cursor") (auto simp: plain_run_def)
  qed (use 2 in auto)
qed (auto simp: plain_run_def)

lemma emit_runs_token:
  "r \<in> set (emit_runs str cursor hits) \<Longrightarrow> run_token r = Some tref \<Longrightarrow>
   \<exists>a b. (a, b, tref) \<in> set hits \<and> run_text r = slice a b str"
  by (induction str cursor hits rule: emit_runs.induct)
    (auto simp: plain_run_def split: if_splits, blast+)

text \<open>The shape of a handle: nothing between its brackets is a bracket.\<close>

definition handle_shape :: "string \<Rightarrow> bool" where
  "handle_shape h \<longleftrightarrow> (\<exists>body. h = ''['' @ body @ '']'' \<and> bracketless body)"

lemma handle_shape_nth: "handle_shape h \<Longrightarrow> k < length h \<Longrightarrow> h ! k = CHR ''['' \<longleftrightarrow> k = 0"
  by (auto simp: handle_shape_def bracketless_def nth_Cons nth_append in_set_conv_nth split: nat.splits if_splits)

lemma handle_shape_nonempty: "handle_shape h \<Longrightarrow> h \<noteq> []"
  by (auto simp: handle_shape_def)

lemma handles_apart:
  assumes "handle_shape p" and "handle_shape q" and "prefix p (drop i str)" and "prefix q (drop a str)"
    and "i < a"
  shows "i + length p \<le> a"
proof (rule ccontr)
  assume *: "\<not> ?thesis"
  obtain u where u: "drop i str = p @ u" using assms(3) by (auto simp: prefix_def)
  obtain v where v: "drop a str = q @ v" using assms(4) by (auto simp: prefix_def)
  have k: "a - i < length p" using * assms(5) by linarith
  have len: "a < length str" using v handle_shape_nonempty [OF assms(2)]
    by (metis append_is_Nil_conv drop_all not_less)
  have "str ! a = q ! 0"
    using v len handle_shape_nonempty [OF assms(2)] by (metis Cons_nth_drop_Suc append_Cons nth_Cons_0 list.exhaust)
  moreover have "str ! a = p ! (a - i)"
  proof -
    have "str ! a = drop i str ! (a - i)" using assms(5) len by simp
    with k show ?thesis by (simp add: u nth_append)
  qed
  ultimately show False
    using handle_shape_nth [OF assms(1), of "a - i"] handle_shape_nth [OF assms(2), of 0]
      handle_shape_nonempty [OF assms(2)] k assms(5) by simp
qed

lemma hits_from_complete:
  "handle_shape p \<Longrightarrow> prefix p (drop a str) \<Longrightarrow> i \<le> a \<Longrightarrow> (a, a + length p) \<in> set (hits_from p str i)"
proof (induction p str i rule: hits_from.induct)
  case (1 p str i)
  have p: "p \<noteq> []" using "1.prems"(1) by (rule handle_shape_nonempty)
  have "a < length str" using "1.prems"(2) p by (metis drop_all not_less prefix_bot.extremum_unique)
  then have i: "\<not> (p = [] \<or> i > length str)" using "1.prems"(3) p by simp
  have at: "prefix p (drop (a - i) (drop i str))" using "1.prems"(2,3) by simp
  then obtain rel where rel: "str_find p (drop i str) = Some rel"
    using str_find_None by (metis option.exhaust)
  have le: "i + rel \<le> a"
    using str_find_leftmost [OF rel, of "a - i"] at "1.prems"(3) by linarith
  show ?case
  proof (cases "i + rel = a")
    case True
    then show ?thesis using i rel by (subst hits_from.simps) simp
  next
    case False
    have "prefix p (drop (i + rel) str)"
      using str_find_Some [OF rel] by (metis add.commute drop_drop take_is_prefix)
    then have "i + rel + length p \<le> a"
      using handles_apart [OF "1.prems"(1,1) _ "1.prems"(2)] False le by simp
    with "1.IH" [OF i rel "1.prems"(1,2)] show ?thesis using i rel by (subst hits_from.simps) simp
  qed
qed

lemma token_hits_complete:
  assumes "t \<in> set tokens" and "handle_shape (tp_token t)" and "prefix (tp_token t) (drop a str)"
  shows "a \<in> fst ` set (token_hits HandleNeedle str tokens)"
  using hits_from_complete [OF assms(2,3), of 0] assms(1) by (force simp: token_hits_def)

lemma sublist_at: "sublist p s \<Longrightarrow> \<exists>k. prefix p (drop k s) \<and> k + length p \<le> length s"
proof -
  assume "sublist p s"
  then obtain u v where "s = u @ p @ v" by (auto simp: sublist_def)
  then show ?thesis by (intro exI [of _ "length u"]) simp
qed

lemma emit_runs_plain:
  assumes "t \<in> set tokens" and "tp_token t \<noteq> []"
  shows "sorted (map fst hits) \<Longrightarrow> \<forall>h\<in>set hits. valid_hit HandleNeedle tokens str h \<Longrightarrow>
    \<forall>a\<ge>cursor. prefix (tp_token t) (drop a str) \<longrightarrow> a \<in> fst ` set hits \<Longrightarrow>
    r \<in> set (emit_runs str cursor hits) \<Longrightarrow> run_token r = None \<Longrightarrow> \<not> sublist (tp_token t) (run_text r)"
proof (induction str cursor hits rule: emit_runs.induct)
  case (1 str cursor)
  have "\<not> sublist (tp_token t) (drop cursor str)"
  proof
    assume "sublist (tp_token t) (drop cursor str)"
    then obtain k where "prefix (tp_token t) (drop (cursor + k) str)"
      using sublist_at by (metis add.commute drop_drop)
    with "1.prems"(3) show False by auto
  qed
  with 1 show ?case by (auto simp: plain_run_def split: if_splits)
next
  case (2 str cursor start stop tref hits)
  show ?case
  proof (cases "start < cursor")
    case True
    then have "\<forall>a\<ge>cursor. prefix (tp_token t) (drop a str) \<longrightarrow> a \<in> fst ` set hits"
      using "2.prems"(3) by force
    with 2 True show ?thesis by simp
  next
    case False
    have stop: "start < stop" using "2.prems"(2) by (simp add: valid_hit_def)
    have "\<not> sublist (tp_token t) (slice cursor start str)"
    proof
      assume "sublist (tp_token t) (slice cursor start str)"
      then obtain k where k: "prefix (tp_token t) (drop k (take (start - cursor) (drop cursor str)))"
        "k + length (tp_token t) \<le> start - cursor"
        by (auto simp: slice_def dest!: sublist_at)
      then have "prefix (tp_token t) (drop (cursor + k) str)"
        by (metis add.commute drop_drop drop_take prefix_order.order_trans take_is_prefix)
      with "2.prems"(3) have "cursor + k \<in> insert start (fst ` set hits)" by simp
      moreover have "cursor + k < start" using k(2) assms(2) by (cases "tp_token t") auto
      ultimately show False using "2.prems"(1) by auto
    qed
    moreover have "\<forall>a\<ge>stop. prefix (tp_token t) (drop a str) \<longrightarrow> a \<in> fst ` set hits"
    proof (intro allI impI)
      fix a assume "a \<ge> stop" "prefix (tp_token t) (drop a str)"
      moreover from this have "a \<ge> cursor" "a \<noteq> start" using stop False by simp_all
      ultimately show "a \<in> fst ` set hits" using "2.prems"(3) by auto
    qed
    ultimately show ?thesis using 2 False by (auto simp: plain_run_def split: if_splits)
  qed
qed

lemma segment_runs_cases:
  "segment_runs_with mode str tokens = emit_runs str 0 (sort_by cmp_hit (token_hits mode str tokens)) \<or>
   (str = [] \<and> segment_runs_with mode str tokens = [plain_run str])"
proof (cases "emit_runs str 0 (sort_by cmp_hit (token_hits mode str tokens)) = []")
  case True
  have "concat (map run_text (emit_runs str 0 (sort_by cmp_hit (token_hits mode str tokens)))) = str"
    using emit_runs_concat [of "sort_by cmp_hit (token_hits mode str tokens)" mode tokens str 0]
    by (simp add: token_hits_valid)
  with True show ?thesis by (simp add: segment_runs_with_def)
qed (simp add: segment_runs_with_def)

text \<open>
  The segmentation of a surface.  The texts of its runs put together are the text of the
  surface; a marked run shows the needle of a previewed token; and in a request whose handles
  have no inner brackets, no unmarked run contains a handle, so every masked value is marked,
  and the hash under which the surface goes out is its own.
\<close>

lemma segment_correct:
  assumes "\<forall>t\<in>set tokens. handle_shape (tp_token t)"
  shows "concat (map run_text (sf_runs (segment X tokens mode raw))) = rw_text raw \<and>
    (\<forall>r\<in>set (sf_runs (segment X tokens mode raw)). \<forall>tref. run_token r = Some tref \<longrightarrow>
       (\<exists>t\<in>set tokens. tref = ref_of t \<and> run_text r = needle mode t)) \<and>
    (\<forall>r\<in>set (sf_runs (segment X tokens HandleNeedle raw)). \<forall>t\<in>set tokens. run_token r = None \<longrightarrow>
       \<not> sublist (tp_token t) (run_text r)) \<and>
    egress_hash X (segment X tokens HandleNeedle raw) = sf_block_hash (segment X tokens HandleNeedle raw)"
proof -
  let ?str = "rw_text raw"
  let ?hits = "\<lambda>mode. sort_by cmp_hit (token_hits mode ?str tokens)"
  have valid: "\<forall>h\<in>set (?hits mode). valid_hit mode tokens ?str h" for mode
    by (simp add: token_hits_valid)
  have runs: "sf_runs (segment X tokens mode raw) = segment_runs_with mode ?str tokens" for mode
    by (simp add: segment_def)
  have cat: "concat (map run_text (segment_runs_with mode ?str tokens)) = ?str" for mode
    using segment_runs_cases [of mode ?str tokens] emit_runs_concat [OF valid, of 0 mode]
    by (auto simp: plain_run_def)
  have marked: "\<exists>t\<in>set tokens. tref = ref_of t \<and> run_text r = needle mode t"
    if r: "r \<in> set (segment_runs_with mode ?str tokens)" and tref: "run_token r = Some tref"
    for r tref mode
  proof -
    have "r \<in> set (emit_runs ?str 0 (?hits mode))"
      using r tref segment_runs_cases [of mode ?str tokens] by (auto simp: plain_run_def)
    then obtain a b where "(a, b, tref) \<in> set (?hits mode)" "run_text r = slice a b ?str"
      using emit_runs_token tref by blast
    with valid [of mode] show ?thesis by (fastforce simp: valid_hit_def)
  qed
  have plain: "\<not> sublist (tp_token t) (run_text r)"
    if "r \<in> set (segment_runs_with HandleNeedle ?str tokens)" "t \<in> set tokens" "run_token r = None" for r t
  proof (cases "?str = []")
    case True
    have "run_text r = []" using cat [of HandleNeedle] that(1) True by auto
    then show ?thesis using assms that(2) handle_shape_nonempty by auto
  next
    case False
    then have r: "r \<in> set (emit_runs ?str 0 (?hits HandleNeedle))"
      using that(1) segment_runs_cases [of HandleNeedle ?str tokens] by auto
    have shape: "handle_shape (tp_token t)" using assms that(2) by blast
    have "\<forall>a\<ge>0. prefix (tp_token t) (drop a ?str) \<longrightarrow> a \<in> fst ` set (?hits HandleNeedle)"
      using token_hits_complete [OF that(2) shape] by simp
    from emit_runs_plain [OF that(2) handle_shape_nonempty [OF shape] sorted_hits valid this r that(3)]
    show ?thesis .
  qed
  have "masked_text (segment_runs_with HandleNeedle ?str tokens) =
      concat (map run_text (segment_runs_with HandleNeedle ?str tokens))"
    unfolding masked_text_def using marked [of _ HandleNeedle]
    by (intro arg_cong [where f = concat] map_cong refl) (fastforce simp: ref_of_def split: option.split)
  then have "egress_hash X (segment X tokens HandleNeedle raw) = sf_block_hash (segment X tokens HandleNeedle raw)"
    by (simp add: egress_hash_def cat segment_def)
  with cat marked plain show ?thesis by (auto simp: runs)
qed

definition bob_preview :: token_preview where
  "bob_preview =
     \<lparr>tp_token = ''[PERSON_ab]'', tp_value = ''bob'', tp_entity_kind = ''PERSON'',
      tp_surface = ''UserMessage'', tp_request_start = None, tp_request_end = None,
      tp_class = AutoPii, tp_peekable = True\<rparr>"

theorem segment_correct_witness:
  "concat (map run_text (sf_runs (segment sample_ext [bob_preview] HandleNeedle
     \<lparr>rw_label = [], rw_role = None, rw_kind = ''message'', rw_text = ''hi [PERSON_ab]!''\<rparr>))) =
   ''hi [PERSON_ab]!'' \<and> length (segment_runs_with HandleNeedle ''hi [PERSON_ab]!'' [bob_preview]) = 3"
proof -
  have "handle_shape (tp_token bob_preview)"
    unfolding handle_shape_def by (intro exI [of _ "''PERSON_ab''"]) (simp add: bob_preview_def bracketless_def)
  then have "concat (map run_text (sf_runs (segment sample_ext [bob_preview] HandleNeedle
     \<lparr>rw_label = [], rw_role = None, rw_kind = ''message'', rw_text = ''hi [PERSON_ab]!''\<rparr>))) =
     ''hi [PERSON_ab]!''"
    using segment_correct [of "[bob_preview]" sample_ext HandleNeedle
      "\<lparr>rw_label = [], rw_role = None, rw_kind = ''message'', rw_text = ''hi [PERSON_ab]!''\<rparr>"] by simp
  moreover have "length (segment_runs_with HandleNeedle ''hi [PERSON_ab]!'' [bob_preview]) = 3"
    by code_simp
  ultimately show ?thesis ..
qed

end
