(* ===== verification/Capture.thy ===== *)
theory Capture
  imports Surfaces Instances
begin

text \<open>
  \<open>monitor/capture.rs\<close> of the proxy: the accumulator of a streamed reply, one block per content
  block of the stream, bounded by the preview limit.
\<close>

datatype cap_kind = CapText | CapToolUse

record cap_block =
  cb_kind :: cap_kind
  cb_label :: string
  cb_text :: string
  cb_name :: "string option"

record response_capture =
  cp_blocks :: "cap_block list"
  cp_slot :: "(string \<times> nat) list"
  cp_total :: nat
  cp_truncated :: bool

definition capture_new :: response_capture where
  "capture_new = \<lparr>cp_blocks = [], cp_slot = [], cp_total = 0, cp_truncated = False\<rparr>"

text \<open>The loop that moves a cut back to a character boundary.\<close>

fun boundary_below :: "string \<Rightarrow> nat \<Rightarrow> nat" where
  "boundary_below t 0 = 0"
| "boundary_below t (Suc n) = (if is_char_boundary t (Suc n) then Suc n else boundary_below t n)"

text \<open>The slot of a key, a new block at the end when there is none.\<close>

definition slot_for :: "string \<Rightarrow> cap_kind \<Rightarrow> string \<Rightarrow> response_capture \<Rightarrow> nat \<times> response_capture" where
  "slot_for key kind label c =
     (case map_of (cp_slot c) key of
        Some i \<Rightarrow> (i, c)
      | None \<Rightarrow>
          (length (cp_blocks c),
           c\<lparr>cp_blocks := cp_blocks c @
               [\<lparr>cb_kind = kind, cb_label = label, cb_text = [], cb_name = None\<rparr>],
             cp_slot := AList.update key (length (cp_blocks c)) (cp_slot c)\<rparr>))"

definition clamp :: "nat \<Rightarrow> string \<Rightarrow> string" where
  "clamp room t = (if length t \<le> room then t else take (boundary_below t room) t)"

definition cap_push ::
  "string \<Rightarrow> cap_kind \<Rightarrow> string \<Rightarrow> string \<Rightarrow> response_capture \<Rightarrow> response_capture" where
  "cap_push key kind label t c =
     (if t = [] then c
      else
        (let room = PREVIEW_LIMIT - cp_total c in
         if room = 0 then c\<lparr>cp_truncated := True\<rparr>
         else
           (let part = clamp room t;
                c1 = (if length t \<le> room then c else c\<lparr>cp_truncated := True\<rparr>)
            in if part = [] then c1
               else
                 (let (i, c2) = slot_for key kind label c1;
                      b = cp_blocks c2 ! i
                  in c2\<lparr>cp_blocks := (cp_blocks c2)[i := b\<lparr>cb_text := cb_text b @ part\<rparr>],
                        cp_total := cp_total c2 + length part\<rparr>))))"

definition cap_start_tool :: "string \<Rightarrow> string \<Rightarrow> response_capture \<Rightarrow> response_capture" where
  "cap_start_tool key name c =
     (let (i, c1) = slot_for key CapToolUse key c;
          b = cp_blocks c1 ! i
      in if name = [] then c1 else c1\<lparr>cp_blocks := (cp_blocks c1)[i := b\<lparr>cb_name := Some name\<rparr>]\<rparr>)"

definition cap_is_empty :: "response_capture \<Rightarrow> bool" where
  "cap_is_empty c \<longleftrightarrow> \<not> list_ex (\<lambda>b. cb_text b \<noteq> [] \<or> cb_name b \<noteq> None) (cp_blocks c)"

definition block_text :: "json_wire \<Rightarrow> cap_block \<Rightarrow> string" where
  "block_text jw b =
     (case (cb_kind b, cb_name b) of
        (CapToolUse, Some name) \<Rightarrow> call_text name (canonical_args jw (cb_text b))
      | _ \<Rightarrow> cb_text b)"

definition block_kind :: "cap_block \<Rightarrow> string" where
  "block_kind b = (case cb_kind b of CapText \<Rightarrow> ''message'' | CapToolUse \<Rightarrow> ''tool_use'')"

fun join_blocks :: "string \<Rightarrow> string list \<Rightarrow> string" where
  "join_blocks preview [] = preview"
| "join_blocks preview (t # ts) =
     join_blocks (preview @ (if preview = [] then [] else [CHR 0x0A, CHR 0x0A]) @ t) ts"

definition cap_render ::
  "'x ext_scheme \<Rightarrow> json_wire \<Rightarrow> token_preview list \<Rightarrow> response_capture \<Rightarrow> string \<times> msurface list" where
  "cap_render X jw tokens c =
     (let shown = filter (\<lambda>b. \<not> (cb_text b = [] \<and> cb_name b = None)) (cp_blocks c)
      in (join_blocks [] (map (block_text jw) shown) @
            (if cp_truncated c then [CHR 0x0A] @ ''...[truncated]'' else []),
          map (\<lambda>b. response_text_surface X (cb_label b) (Some ''assistant'') (block_kind b)
            (block_text jw b) tokens) shown))"

section \<open>The bound and the contents\<close>

definition cap_wf :: "response_capture \<Rightarrow> bool" where
  "cap_wf c \<longleftrightarrow>
     (\<forall>k i. map_of (cp_slot c) k = Some i \<longrightarrow> i < length (cp_blocks c)) \<and>
     (\<forall>k k' i. map_of (cp_slot c) k = Some i \<longrightarrow> map_of (cp_slot c) k' = Some i \<longrightarrow> k = k') \<and>
     cp_total c = sum_list (map (length \<circ> cb_text) (cp_blocks c)) \<and>
     cp_total c \<le> PREVIEW_LIMIT"

text \<open>The text of the block of a key.\<close>

definition text_of :: "response_capture \<Rightarrow> string \<Rightarrow> string" where
  "text_of c key =
     (case map_of (cp_slot c) key of None \<Rightarrow> [] | Some i \<Rightarrow> cb_text (cp_blocks c ! i))"

lemma boundary_below_le: "boundary_below t n \<le> n"
  by (induction n) (simp_all add: le_SucI)

lemma boundary_below_boundary: "is_char_boundary t (boundary_below t n)"
  by (induction n) simp_all

lemma length_clamp: "length (clamp room t) \<le> room"
  using boundary_below_le [of t room] by (auto simp: clamp_def)

lemma slot_for_wf:
  assumes "cap_wf c" and "slot_for key kind label c = (i, c')"
  shows "cap_wf c' \<and> i < length (cp_blocks c') \<and> map_of (cp_slot c') key = Some i \<and>
    text_of c' = text_of c \<and> cp_total c' = cp_total c \<and> cp_truncated c' = cp_truncated c"
proof (cases "map_of (cp_slot c) key")
  case None
  have fresh: "j < length (cp_blocks c)" if "map_of (cp_slot c) k = Some j" for k j
    using assms(1) that by (auto simp: cap_wf_def)
  have c': "i = length (cp_blocks c)" "map_of (cp_slot c') = (map_of (cp_slot c))(key \<mapsto> i)"
    "cp_blocks c' = cp_blocks c @ [\<lparr>cb_kind = kind, cb_label = label, cb_text = [], cb_name = None\<rparr>]"
    "cp_total c' = cp_total c" "cp_truncated c' = cp_truncated c"
    using assms(2) None by (auto simp: slot_for_def)
  have "text_of c' k = text_of c k" for k
    using None fresh [of k]
    by (cases "k = key") (auto simp: c' text_of_def nth_append split: option.split)
  moreover have "cap_wf c'"
    using assms(1) fresh unfolding cap_wf_def c' by (fastforce split: if_splits)
  ultimately show ?thesis using c' by auto
next
  case (Some j)
  with assms show ?thesis by (auto simp: slot_for_def cap_wf_def)
qed

lemma sum_list_update:
  "i < length xs \<Longrightarrow> sum_list (map f (xs[i := x])) + f (xs ! i) = sum_list (map f xs) + (f x :: nat)"
proof (induction xs arbitrary: i)
  case (Cons y xs)
  then show ?case by (cases i) auto
qed simp

lemma text_of_update:
  assumes "cap_wf c" and "map_of (cp_slot c) key = Some i"
  shows "text_of (c\<lparr>cp_blocks := (cp_blocks c)[i := b]\<rparr>) k =
    (if k = key then cb_text b else text_of c k)"
proof (cases "map_of (cp_slot c) k")
  case None
  with assms(2) show ?thesis by (auto simp: text_of_def)
next
  case (Some j)
  moreover have "i < length (cp_blocks c)" using assms by (simp add: cap_wf_def)
  moreover have "j = i \<longleftrightarrow> k = key" using assms Some unfolding cap_wf_def by (metis option.inject)
  ultimately show ?thesis by (auto simp: text_of_def nth_list_update)
qed

lemma text_of_slot: "map_of (cp_slot c) key = Some i \<Longrightarrow> text_of c key = cb_text (cp_blocks c ! i)"
  by (simp add: text_of_def)

text \<open>What one event does: a fragment is appended to its block whole, or the mark is set.\<close>

lemma cap_push_step:
  assumes "cap_wf c" and c'_def: "c' = cap_push key kind label t c"
  shows "cap_wf c'" and "cp_total c' \<le> cp_total c + length t"
    and "cp_truncated c' \<longleftrightarrow> cp_truncated c \<or> PREVIEW_LIMIT < cp_total c + length t"
    and "\<not> cp_truncated c' \<Longrightarrow> text_of c' k = text_of c k @ (if k = key then t else [])"
proof -
  define room where "room = PREVIEW_LIMIT - cp_total c"
  define part where "part = clamp room t"
  define c1 where "c1 = (if length t \<le> room then c else c\<lparr>cp_truncated := True\<rparr>)"
  have total: "cp_total c \<le> PREVIEW_LIMIT" using assms(1) by (simp add: cap_wf_def)
  have c1: "cap_wf c1" "text_of c1 = text_of c" "cp_total c1 = cp_total c"
    "cp_truncated c1 \<longleftrightarrow> cp_truncated c \<or> \<not> length t \<le> room"
    using assms(1) by (auto simp: c1_def cap_wf_def text_of_def fun_eq_iff split: option.split)
  obtain i c2 where s: "slot_for key kind label c1 = (i, c2)" by fastforce
  note c2 = slot_for_wf [OF c1(1) s]
  define b where "b = (cp_blocks c2 ! i)\<lparr>cb_text := cb_text (cp_blocks c2 ! i) @ part\<rparr>"
  define c3 where "c3 = c2\<lparr>cp_blocks := (cp_blocks c2)[i := b], cp_total := cp_total c2 + length part\<rparr>"
  have c': "c' = (if t = [] then c else if room = 0 then c\<lparr>cp_truncated := True\<rparr>
      else if part = [] then c1 else c3)"
    by (simp add: c'_def cap_push_def room_def [symmetric] part_def [symmetric] c1_def [symmetric] s Let_def
        c3_def b_def)
  have part: "length part \<le> room" by (simp add: part_def length_clamp)
  have "cap_wf c3"
    using c2 part total c1(3) sum_list_update [of i "cp_blocks c2" "length \<circ> cb_text" b]
    by (auto simp: cap_wf_def c3_def b_def room_def)
  with assms(1) c1(1) show "cap_wf c'" by (simp add: c' cap_wf_def)
  have tot3: "cp_total c3 = cp_total c + length part" using c2 c1(3) by (simp add: c3_def)
  have le: "length part \<le> length t" by (auto simp: part_def clamp_def)
  show "cp_total c' \<le> cp_total c + length t" using tot3 le c1(3) by (simp add: c')
  have full: "PREVIEW_LIMIT < cp_total c + length t \<longleftrightarrow> \<not> length t \<le> room" using total by (auto simp: room_def)
  show trunc: "cp_truncated c' \<longleftrightarrow> cp_truncated c \<or> PREVIEW_LIMIT < cp_total c + length t"
    unfolding full using c1(4) c2 by (auto simp: c' c3_def)
  show "text_of c' k = text_of c k @ (if k = key then t else [])" if "\<not> cp_truncated c'"
  proof (cases "t = []")
    case True
    then show ?thesis by (simp add: c')
  next
    case False
    have fits: "length t \<le> room" using that trunc full by blast
    with False have "c' = c3" "part = t" by (auto simp: c' part_def clamp_def)
    moreover have "text_of c3 = text_of (c2\<lparr>cp_blocks := (cp_blocks c2)[i := b]\<rparr>)"
      by (simp add: c3_def text_of_def fun_eq_iff split: option.split)
    moreover have "cb_text b = text_of c2 key @ part" using c2 text_of_slot [of c2 key i] by (simp add: b_def)
    ultimately show ?thesis using c2 c1(2) text_of_update [of c2 key i b k] by simp
  qed
qed

lemma cap_start_step:
  assumes "cap_wf c" and c'_def: "c' = cap_start_tool key name c"
  shows "cap_wf c' \<and> cp_total c' = cp_total c \<and> cp_truncated c' = cp_truncated c \<and> text_of c' = text_of c"
proof -
  obtain i c1 where s: "slot_for key CapToolUse key c = (i, c1)" by fastforce
  note c1 = slot_for_wf [OF assms(1) s]
  define b where "b = (cp_blocks c1 ! i)\<lparr>cb_name := Some name\<rparr>"
  have c': "c' = (if name = [] then c1 else c1\<lparr>cp_blocks := (cp_blocks c1)[i := b]\<rparr>)"
    by (simp add: c'_def cap_start_tool_def s b_def)
  have "text_of (c1\<lparr>cp_blocks := (cp_blocks c1)[i := b]\<rparr>) k = text_of c1 k" for k
  proof -
    have "text_of c1 key = cb_text b" using c1 text_of_slot [of c1 key i] by (simp add: b_def)
    then show ?thesis using text_of_update [of c1 key i b k] c1 by simp
  qed
  moreover have "cap_wf (c1\<lparr>cp_blocks := (cp_blocks c1)[i := b]\<rparr>)"
    using c1 sum_list_update [of i "cp_blocks c1" "length \<circ> cb_text" b] by (auto simp: cap_wf_def b_def)
  ultimately show ?thesis using c1 by (auto simp: c')
qed

text \<open>A history of the events of one stream.\<close>

datatype cap_event = CapPush string cap_kind string string | CapStart string string

fun cap_apply :: "cap_event \<Rightarrow> response_capture \<Rightarrow> response_capture" where
  "cap_apply (CapPush key kind label t) = cap_push key kind label t"
| "cap_apply (CapStart key name) = cap_start_tool key name"

fun fragment :: "string \<Rightarrow> cap_event \<Rightarrow> string" where
  "fragment k (CapPush key kind label t) = (if key = k then t else [])"
| "fragment k (CapStart key name) = []"

fun fragment_size :: "cap_event \<Rightarrow> nat" where
  "fragment_size (CapPush key kind label t) = length t"
| "fragment_size (CapStart key name) = 0"

definition captured :: "cap_event list \<Rightarrow> response_capture" where
  "captured es = fold cap_apply es capture_new"

lemma captured_snoc: "captured (es @ [e]) = cap_apply e (captured es)"
  by (simp add: captured_def)

lemma captured_step:
  "cap_wf (captured es) \<and> cp_total (captured es) \<le> sum_list (map fragment_size es) \<and>
   (cp_truncated (captured es) \<longleftrightarrow> PREVIEW_LIMIT < sum_list (map fragment_size es)) \<and>
   (\<not> cp_truncated (captured es) \<longrightarrow>
      cp_total (captured es) = sum_list (map fragment_size es) \<and>
      (\<forall>k. text_of (captured es) k = concat (map (fragment k) es)))"
proof (induction es rule: rev_induct)
  case Nil
  then show ?case by (simp add: captured_def capture_new_def cap_wf_def text_of_def)
next
  case (snoc e es)
  let ?c = "captured es"
  have wf: "cap_wf ?c" using snoc by blast
  show ?case
  proof (cases e)
    case (CapStart key name)
    with snoc cap_start_step [OF wf refl, of key name] show ?thesis by (simp add: captured_snoc)
  next
    case (CapPush key kind label t)
    note step = cap_push_step [OF wf refl, of key kind label t]
    have "cp_total (cap_push key kind label t ?c) = cp_total ?c + length t"
      if "\<not> cp_truncated (cap_push key kind label t ?c)"
    proof -
      have fits: "length t \<le> PREVIEW_LIMIT - cp_total ?c"
        using that step(3) wf by (auto simp: cap_wf_def)
      obtain i c2 where s: "slot_for key kind label ?c = (i, c2)" by fastforce
      show ?thesis using fits slot_for_wf [OF wf s] by (auto simp: cap_push_def Let_def s clamp_def)
    qed
    with snoc step show ?thesis by (auto simp: captured_snoc CapPush)
  qed
qed

text \<open>
  The capture of a streamed reply.  Whatever the order of the fragments, the captured text
  never exceeds the preview limit; the mark of a truncated capture is set exactly when the
  fragments put together exceed it, and otherwise the block of every key holds the fragments of
  that key in order, whatever came in between.
\<close>

lemma capture_correct:
  "sum_list (map (length \<circ> cb_text) (cp_blocks (captured es))) \<le> PREVIEW_LIMIT \<and>
   (cp_truncated (captured es) \<longleftrightarrow> PREVIEW_LIMIT < sum_list (map fragment_size es)) \<and>
   (sum_list (map fragment_size es) \<le> PREVIEW_LIMIT \<longrightarrow>
      text_of (captured es) k = concat (map (fragment k) es))"
  using captured_step [of es] by (auto simp: cap_wf_def)

theorem capture_correct_witness:
  "text_of (captured [CapStart ''j0'' ''Bash'', CapPush ''t0'' CapText ''assistant'' ''hi '',
      CapPush ''j0'' CapToolUse ''tool'' ''{}'', CapPush ''t0'' CapText ''assistant'' ''bob'']) ''t0'' = ''hi bob''"
  using capture_correct [of "[CapStart ''j0'' ''Bash'', CapPush ''t0'' CapText ''assistant'' ''hi '',
      CapPush ''j0'' CapToolUse ''tool'' ''{}'', CapPush ''t0'' CapText ''assistant'' ''bob'']" "''t0''"]
  by (simp add: PREVIEW_LIMIT_def)

end
