(* ===== verification/MonitorStore.thy ===== *)
theory MonitorStore
  imports Capture "HOL-Library.List_Lexorder" "HOL-Library.Char_ord"
begin

text \<open>
  \<open>monitor/store.rs\<close> of the proxy: the state of the monitor behind its mutex and every operation
  on it, with the time of a call as an argument.  An operation that takes the mutex twice is two
  definitions, composed where nothing comes in between and interleaved in MonitorLife.  Frames
  for subscribers are left out, they change no state.
\<close>

definition MAX_RECORDS :: nat where "MAX_RECORDS = 500"
definition PROGRESS_FLUSH_BYTES :: nat where "PROGRESS_FLUSH_BYTES = 160"
definition APPROVAL_TIMEOUT_SECS :: nat where "APPROVAL_TIMEOUT_SECS = 300"
definition DEFAULT_MAX_PENDING_APPROVALS :: nat where "DEFAULT_MAX_PENDING_APPROVALS = 32"
definition MAX_TRACKED_CONVERSATIONS :: nat where "MAX_TRACKED_CONVERSATIONS = 1024"
definition MAX_SESSION_TOKENS :: nat where "MAX_SESSION_TOKENS = 5000"

text \<open>A waiter is the sending half of the channel of the request it is filed under.\<close>

record monitor =
  mn_mode :: monitor_mode
  mn_max_pending_approvals :: nat
  mn_next_seq :: nat
  mn_records :: "request_record list"
  mn_waiters :: "string list"
  mn_turn_counts :: "(string \<times> nat) list"
  mn_human_turn_counts :: "(string \<times> nat) list"
  mn_prev_user_input_counts :: "(string \<times> nat) list"
  mn_conversation_anchors :: "(string \<times> string list) list"
  mn_last_seen :: "(string \<times> nat) list"
  mn_labels :: "(string \<times> string) list"
  mn_session_tokens :: "(string \<times> token_ledger_entry) list"
  mn_local_redactions :: "(string \<times> string) list"

definition monitor_new :: monitor where
  "monitor_new =
     \<lparr>mn_mode = MonitorOff, mn_max_pending_approvals = DEFAULT_MAX_PENDING_APPROVALS, mn_next_seq = 1,
      mn_records = [], mn_waiters = [], mn_turn_counts = [], mn_human_turn_counts = [],
      mn_prev_user_input_counts = [], mn_conversation_anchors = [], mn_last_seen = [],
      mn_labels = [], mn_session_tokens = [], mn_local_redactions = []\<rparr>"

definition set_local_redactions :: "(string \<times> string) list \<Rightarrow> monitor \<Rightarrow> monitor" where
  "set_local_redactions pairs m = m\<lparr>mn_local_redactions := pairs\<rparr>"

section \<open>The ledger of masked values\<close>

definition provenance_rank :: "string \<Rightarrow> nat" where
  "provenance_rank lane =
     (if lane = ''userctx'' then 5
      else if lane = ''tool_io'' then 4
      else if lane = ''user_input'' then 3
      else if lane = ''assistant'' then 2
      else if lane = ''harness_frame'' then 1
      else if lane = ''harness_meta'' then 0
      else 3)"

definition note_provenance :: "string \<Rightarrow> run \<Rightarrow> (string \<times> string) list \<Rightarrow> (string \<times> string) list" where
  "note_provenance lane r m =
     (case run_token r of
        None \<Rightarrow> m
      | Some tref \<Rightarrow>
          (let cur = or_default lane (map_of m (tr_token tref))
           in AList.update (tr_token tref)
                (if provenance_rank lane > provenance_rank cur then lane else cur) m))"

definition token_provenance_map :: "msurface list \<Rightarrow> (string \<times> string) list" where
  "token_provenance_map surfaces =
     fold (\<lambda>s. fold (note_provenance (sf_provenance s)) (sf_runs s)) surfaces []"

definition resight :: "nat \<Rightarrow> string option \<Rightarrow> token_ledger_entry \<Rightarrow> token_ledger_entry" where
  "resight now lane t =
     t\<lparr>tl_count := min (tl_count t + 1) (2 ^ 64 - 1),
       tl_last_seen_ms := now,
       tl_provenance :=
         (case lane of
            None \<Rightarrow> tl_provenance t
          | Some l \<Rightarrow>
              (case tl_provenance t of
                 None \<Rightarrow> Some l
               | Some cur \<Rightarrow> if provenance_rank l > provenance_rank cur then Some l else Some cur))\<rparr>"

definition ledger_entry :: "nat \<Rightarrow> string option \<Rightarrow> manifest_entry \<Rightarrow> token_ledger_entry" where
  "ledger_entry now lane e =
     (let class = for_manifest_entry e; peekable = is_peekable class in
      \<lparr>tl_token = me_token_handle e, tl_value = (if peekable then me_canonical_form e else []),
       tl_entity_kind = me_entity_kind e, tl_class = class, tl_peekable = peekable,
       tl_first_seen_ms = now, tl_last_seen_ms = now, tl_count = 1, tl_provenance = lane\<rparr>)"

definition ingest_entry ::
  "nat \<Rightarrow> (string \<times> string) list \<Rightarrow> manifest_entry \<Rightarrow> (string \<times> token_ledger_entry) list \<Rightarrow>
   (string \<times> token_ledger_entry) list" where
  "ingest_entry now prov e ledger =
     (let h = me_token_handle e in
      AList.update h
        (case map_of ledger h of
           Some existing \<Rightarrow> resight now (map_of prov h) existing
         | None \<Rightarrow> ledger_entry now (map_of prov h) e) ledger)"

text \<open>
  The victims past the cap are the entries of least rank, those of the request at hand ranking
  last.  Among entries of equal rank the code's unstable selection may take any; the model takes
  the first ones.
\<close>

definition eviction_rank :: "unmask_manifest \<Rightarrow> string \<times> token_ledger_entry \<Rightarrow> bool \<times> nat" where
  "eviction_rank manifest kv =
     (tl_token (snd kv) \<in> me_token_handle ` set manifest, tl_last_seen_ms (snd kv))"

definition evict_tokens ::
  "unmask_manifest \<Rightarrow> (string \<times> token_ledger_entry) list \<Rightarrow> (string \<times> token_ledger_entry) list" where
  "evict_tokens manifest ledger =
     (if length ledger > MAX_SESSION_TOKENS then
        fold (\<lambda>kv. AList.delete (tl_token (snd kv)))
          (take (length ledger - MAX_SESSION_TOKENS) (sort_key (eviction_rank manifest) ledger)) ledger
      else ledger)"

definition ingest_tokens_into ::
  "unmask_manifest \<Rightarrow> nat \<Rightarrow> (string \<times> string) list \<Rightarrow> monitor \<Rightarrow> monitor" where
  "ingest_tokens_into manifest now prov m =
     m\<lparr>mn_session_tokens :=
         evict_tokens manifest (fold (ingest_entry now prov) manifest (mn_session_tokens m))\<rparr>"

definition ingest_session_tokens :: "nat \<Rightarrow> unmask_manifest \<Rightarrow> monitor \<Rightarrow> monitor" where
  "ingest_session_tokens now manifest m =
     (if manifest = [] then m else ingest_tokens_into manifest now [] m)"

section \<open>Conversations\<close>

text \<open>\<open>char::is_control\<close>: the category Cc, which is fixed.\<close>

definition is_control :: "string \<Rightarrow> bool" where
  "is_control ch \<longleftrightarrow>
     (case ch of
        [a] \<Rightarrow> code a < 32 \<or> code a = 127
      | [a, b] \<Rightarrow> code a = 194 \<and> 128 \<le> code b \<and> code b < 160
      | _ \<Rightarrow> False)"

definition bound_id :: "'x ext_scheme \<Rightarrow> string \<Rightarrow> string" where
  "bound_id X raw0 =
     (let raw = str_trim X raw0 in
      if raw = [] then ''unknown''
      else if length raw \<le> 128 \<and> list_all (\<lambda>ch. \<not> is_control ch) (utf8_chars raw) then raw
      else ''h-'' @ take 16 (to_hex (x_blake3 X raw)))"

definition session_id_from_body :: "'x ext_scheme \<Rightarrow> json_wire \<Rightarrow> string \<Rightarrow> string option" where
  "session_id_from_body X jw body =
     Option.bind (jw_parse jw body) (\<lambda>doc.
     Option.bind (json_get ''metadata'' doc) (\<lambda>meta.
     Option.bind (Option.bind (json_get ''user_id'' meta) json_str) (\<lambda>user_id.
     Option.bind (jw_parse jw user_id) (\<lambda>inner.
     Option.bind (Option.bind (json_get ''session_id'' inner) json_str) (\<lambda>sid0.
       let sid = str_trim X sid0 in if sid = [] then None else Some (bound_id X sid))))))"

definition anchor_prefix_len :: "string list \<Rightarrow> string list \<Rightarrow> nat" where
  "anchor_prefix_len anchor sq =
     (if anchor = [] \<or> length anchor > length sq then 0
      else if list_all2 (=) anchor (take (length anchor) sq) then length anchor
      else 0)"

text \<open>The longest match, of these the least id.\<close>

fun best_anchor :: "(nat \<times> string) option \<Rightarrow> (nat \<times> string) list \<Rightarrow> (nat \<times> string) option" where
  "best_anchor best [] = best"
| "best_anchor None (c # cs) = best_anchor (Some c) cs"
| "best_anchor (Some (n, i)) ((n', i') # cs) =
     best_anchor (Some (if n' > n \<or> (n' = n \<and> i' \<le> i) then (n', i') else (n, i))) cs"

definition join_bar :: "string list \<Rightarrow> string" where
  "join_bar ss = concat (map (\<lambda>(i, s). if i = 0 then s else ''|'' @ s) (enumerate (0::nat) ss))"

definition resolve_content_conversation ::
  "'x ext_scheme \<Rightarrow> (string \<times> string list) list \<Rightarrow> string list \<Rightarrow> string \<times> (string \<times> string list) list" where
  "resolve_content_conversation X anchors sq =
     (case best_anchor None
        (List.map_filter (\<lambda>(i, anchor).
           let n = anchor_prefix_len anchor sq in if n > 0 then Some (n, i) else None) anchors) of
        Some (n, i) \<Rightarrow> (i, if n < length sq then AList.update i sq anchors else anchors)
      | None \<Rightarrow>
          (let base = ''auto-'' @ hd sq;
               i = (if map_of anchors base \<noteq> None
                    then base @ ''-'' @ take 8 (to_hex (x_blake3 X (join_bar sq))) else base)
           in (i, AList.update i sq anchors)))"

definition conversation_label :: "'x ext_scheme \<Rightarrow> string \<Rightarrow> string \<Rightarrow> string" where
  "conversation_label X endpoint conversation_id =
     (let leaf = or_default endpoint
            (find (\<lambda>s. s \<noteq> []) (rev (str_split (\<lambda>ch. ch = ''/'' \<or> ch = '':'') endpoint)));
          i = str_trim X conversation_id;
          dot = [CHR '' '', CHR 0xC2, CHR 0xB7, CHR '' '']
      in if i = ''unknown'' \<or> i = [] then leaf @ dot @ ''unknown''
         else
           (let chs = utf8_chars i; tail = concat (drop (length chs - 6) chs)
            in if tail = i then i else leaf @ dot @ tail))"

definition is_harness :: "msurface \<Rightarrow> bool" where
  "is_harness s \<longleftrightarrow> sf_provenance s = ''harness_frame'' \<or> sf_provenance s = ''harness_meta''"

definition collapse_whitespace :: "'x ext_scheme \<Rightarrow> string \<Rightarrow> string" where
  "collapse_whitespace X t =
     (let words = filter (\<lambda>w. w \<noteq> []) (str_split (x_is_whitespace X) t)
      in concat (map (\<lambda>(i, w). if i = 0 then w else '' '' @ w) (enumerate (0::nat) words)))"

definition first_message_label :: "'x ext_scheme \<Rightarrow> msurface list \<Rightarrow> string \<Rightarrow> string \<Rightarrow> string" where
  "first_message_label X surfaces endpoint conversation_id =
     (let chosen =
            (case find (\<lambda>s. sf_provenance s = ''user_input'') surfaces of
               Some s \<Rightarrow> Some s
             | None \<Rightarrow>
                 (case find (\<lambda>s. sf_kind s = ''message'' \<and> sf_role s = Some ''user'' \<and> \<not> is_harness s) surfaces of
                    Some s \<Rightarrow> Some s
                  | None \<Rightarrow> find (\<lambda>s. sf_kind s = ''message'' \<and> \<not> is_harness s) surfaces))
      in
      (case chosen of
         None \<Rightarrow> conversation_label X endpoint conversation_id
       | Some s \<Rightarrow>
           (let collapsed = collapse_whitespace X (concat (map run_text (sf_runs s)));
                chs = utf8_chars collapsed
            in if collapsed = [] then conversation_label X endpoint conversation_id
               else if length chs > 48 then concat (take 48 chs) @ [CHR 0xE2, CHR 0x80, CHR 0xA6]
               else collapsed)))"

text \<open>\<open>Iterator::max_by_key\<close> returns the last of the greatest elements, \<open>min_by_key\<close> the first of the least.\<close>

fun max_last :: "('a \<Rightarrow> 'b::linorder) \<Rightarrow> 'a list \<Rightarrow> 'a option" where
  "max_last f [] = None"
| "max_last f (x # xs) =
     (case max_last f xs of None \<Rightarrow> Some x | Some y \<Rightarrow> if f y \<ge> f x then Some y else Some x)"

fun min_first :: "('a \<Rightarrow> 'b::linorder) \<Rightarrow> 'a list \<Rightarrow> 'a option" where
  "min_first f [] = None"
| "min_first f (x # xs) =
     (case min_first f xs of None \<Rightarrow> Some x | Some y \<Rightarrow> if f y < f x then Some y else Some x)"

definition overlap :: "string set \<Rightarrow> request_record \<Rightarrow> nat" where
  "overlap current_hashes r =
     length (filter (\<lambda>s. sf_block_hash s \<in> current_hashes) (rec_request_surfaces r))"

definition previous_turn_surfaces ::
  "request_record list \<Rightarrow> string \<Rightarrow> nat \<Rightarrow> string set \<Rightarrow> (nat \<times> msurface list \<times> msurface list) option" where
  "previous_turn_surfaces records conversation_id turn_index current_hashes =
     map_option (\<lambda>r. (rec_turn_index r, rec_request_surfaces r, rec_response_surfaces r))
       (max_last (\<lambda>r. (overlap current_hashes r, rec_turn_index r))
         (filter (\<lambda>r. rec_conversation_id r = conversation_id \<and> rec_turn_index r < turn_index) records))"

definition forget_conversation :: "string \<Rightarrow> monitor \<Rightarrow> monitor" where
  "forget_conversation victim m =
     m\<lparr>mn_last_seen := AList.delete victim (mn_last_seen m),
       mn_turn_counts := AList.delete victim (mn_turn_counts m),
       mn_human_turn_counts := AList.delete victim (mn_human_turn_counts m),
       mn_prev_user_input_counts := AList.delete victim (mn_prev_user_input_counts m),
       mn_conversation_anchors := AList.delete victim (mn_conversation_anchors m),
       mn_labels := AList.delete victim (mn_labels m)\<rparr>"

lemma min_first_in: "min_first f xs = Some x \<Longrightarrow> x \<in> set xs"
  by (induction xs arbitrary: x) (auto split: option.splits if_splits)

lemma length_delete_less: "k \<in> fst ` set al \<Longrightarrow> length (AList.delete k al) < length al"
  by (induction al) (auto simp: AList.delete_eq intro: le_imp_less_Suc)

function evict_stale_conversation_state :: "monitor \<Rightarrow> monitor" where
  "evict_stale_conversation_state m =
     (if length (mn_last_seen m) > MAX_TRACKED_CONVERSATIONS then
        (case min_first snd (mn_last_seen m) of
           None \<Rightarrow> m
         | Some (victim, t) \<Rightarrow> evict_stale_conversation_state (forget_conversation victim m))
      else m)"
  by pat_completeness auto
termination
  by (relation "measure (length \<circ> mn_last_seen)")
    (auto simp: forget_conversation_def intro!: length_delete_less dest!: min_first_in intro: rev_image_eqI)

declare evict_stale_conversation_state.simps [simp del]

definition push_record :: "request_record \<Rightarrow> request_record list \<Rightarrow> request_record list" where
  "push_record r records = take MAX_RECORDS (r # records)"

end
