(* ===== verification/MonitorOps.thy ===== *)
theory MonitorOps
  imports MonitorStore
begin

text \<open>
  The operations of the monitor (\<open>monitor/store.rs\<close>): recording a request, its lifecycle, the
  approval of held requests, and the guard of a streamed reply.
\<close>

section \<open>Recording a request\<close>

text \<open>\<open>ReviewTicket\<close>; \<open>tk_held\<close> says that the ticket has the receiving half of a channel.\<close>

record review_ticket =
  tk_id :: string
  tk_held :: bool
  tk_immediate_reject :: "string option"

definition bump :: "string \<Rightarrow> nat \<Rightarrow> (string \<times> nat) list \<Rightarrow> nat \<times> (string \<times> nat) list" where
  "bump k d al = (let c = or_default 0 (map_of al k) + d in (c, AList.update k c al))"

definition request_conversation ::
  "'x ext_scheme \<Rightarrow> json_wire \<Rightarrow> string option \<Rightarrow> string \<Rightarrow> string list \<Rightarrow> monitor \<Rightarrow> string \<times> monitor" where
  "request_conversation X jw conversation_id masked_body anchor_seq m =
     (case conversation_id of
        Some i \<Rightarrow> (bound_id X i, m)
      | None \<Rightarrow>
          (case session_id_from_body X jw masked_body of
             Some sid \<Rightarrow> (''cc-'' @ sid, m)
           | None \<Rightarrow>
               if anchor_seq = [] then (''unknown'', m)
               else
                 (let (i, anchors) = resolve_content_conversation X (mn_conversation_anchors m) anchor_seq
                  in (i, m\<lparr>mn_conversation_anchors := anchors\<rparr>))))"

definition should_hold :: "monitor_mode \<Rightarrow> unmask_manifest \<Rightarrow> bool" where
  "should_hold mode manifest =
     (case mode of
        MonitorOff \<Rightarrow> False
      | ManualAllLlm \<Rightarrow> True
      | ManualOnDetection \<Rightarrow> manifest \<noteq> [])"

definition request_delta ::
  "'x ext_scheme \<Rightarrow> request_record list \<Rightarrow> string \<Rightarrow> nat \<Rightarrow> msurface list \<Rightarrow> turn_delta" where
  "request_delta X records conversation_id turn_index surfaces =
     (case previous_turn_surfaces records conversation_id turn_index (sf_block_hash ` set surfaces) of
        Some prev \<Rightarrow> compute_delta X surfaces (Some prev)
      | None \<Rightarrow> if turn_index = 1 then delta_first else delta_prev_unavailable (turn_index - 1))"

text \<open>The turn of the human: a new one when the request has more user input than the last one.\<close>

definition human_turn :: "string \<Rightarrow> msurface list \<Rightarrow> monitor \<Rightarrow> nat \<times> monitor" where
  "human_turn conversation_id surfaces m =
     (let n = length (filter (\<lambda>s. sf_provenance s = ''user_input'') surfaces);
          prev = or_default 0 (map_of (mn_prev_user_input_counts m) conversation_id);
          (i, counts) = bump conversation_id (if n > prev then 1 else 0) (mn_human_turn_counts m)
      in (i, m\<lparr>mn_prev_user_input_counts := AList.update conversation_id n (mn_prev_user_input_counts m),
               mn_human_turn_counts := counts\<rparr>))"

definition stamp_conversation ::
  "'x ext_scheme \<Rightarrow> nat \<Rightarrow> string \<Rightarrow> string \<Rightarrow> msurface list \<Rightarrow> monitor \<Rightarrow> monitor" where
  "stamp_conversation X now endpoint conversation_id surfaces m =
     evict_stale_conversation_state
       (m\<lparr>mn_last_seen := AList.update conversation_id now (mn_last_seen m),
          mn_labels :=
            (if map_of (mn_labels m) conversation_id = None
             then AList.update conversation_id (first_message_label X surfaces endpoint conversation_id) (mn_labels m)
             else mn_labels m)\<rparr>)"

definition pending_limit_reason :: "nat \<Rightarrow> string" where
  "pending_limit_reason n = ''pending approval limit reached ('' @ dec_string n @ '')''"

definition record_llm_request ::
  "'x ext_scheme \<Rightarrow> json_wire \<Rightarrow> nat \<Rightarrow> string \<Rightarrow> string \<Rightarrow> string option \<Rightarrow> string \<Rightarrow> unmask_manifest \<Rightarrow>
   monitor \<Rightarrow> review_ticket \<times> monitor" where
  "record_llm_request X jw now endpoint method conversation masked_body manifest m0 =
     (let request_preview = clip_preview masked_body;
          tokens = token_previews manifest;
          surfaces = surfaces_from_body X jw masked_body tokens;
          anchor_seq = map sf_block_hash
            (filter (\<lambda>s. sf_kind s \<noteq> ''system'' \<and> sf_kind s \<noteq> ''instructions'') surfaces);
          m1 = ingest_tokens_into manifest now (token_provenance_map surfaces) m0;
          i = ''req-'' @ dec_string (mn_next_seq m1);
          m2 = m1\<lparr>mn_next_seq := mn_next_seq m1 + 1\<rparr>;
          (conversation_id, m3) = request_conversation X jw conversation masked_body anchor_seq m2;
          hold = should_hold (mn_mode m3) manifest;
          (turn_index, turns) = bump conversation_id 1 (mn_turn_counts m3);
          m4 = m3\<lparr>mn_turn_counts := turns\<rparr>;
          delta = request_delta X (mn_records m4) conversation_id turn_index surfaces;
          (human_turn_index, m5) = human_turn conversation_id surfaces m4;
          m6 = stamp_conversation X now endpoint conversation_id surfaces m5;
          full = (hold \<and> length (mn_waiters m6) \<ge> mn_max_pending_approvals m6);
          reject = (if full then Some (pending_limit_reason (mn_max_pending_approvals m6)) else None);
          r = \<lparr>rec_id = i, rec_conversation_id = conversation_id, rec_endpoint = endpoint,
               rec_method = method, rec_started_ms = now, rec_updated_ms = now,
               rec_decision =
                 (if full then BackpressureRejected else if hold then Pending else AutoAccepted),
               rec_request_preview = request_preview,
               rec_request_spans = spans_from_manifest manifest request_preview,
               rec_response_preview = None, rec_response_spans = [], rec_response_status = None,
               rec_tokens = tokens, rec_tags = [], rec_rejection_reason = reject,
               rec_turn_index = turn_index, rec_dispatched_ms = None,
               rec_request_surfaces = surfaces, rec_response_surfaces = [], rec_delta = delta,
               rec_human_turn_index = human_turn_index\<rparr>
      in (\<lparr>tk_id = i, tk_held = (hold \<and> \<not> full), tk_immediate_reject = reject\<rparr>,
          m6\<lparr>mn_waiters := (if hold \<and> \<not> full then i # mn_waiters m6 else mn_waiters m6),
             mn_records := push_record r (mn_records m6)\<rparr>))"

section \<open>Updates of a record\<close>

text \<open>The first record of the id is updated; \<open>updated_ms\<close> is stamped whatever the update does.\<close>

fun update_first :: "(request_record \<Rightarrow> request_record) \<Rightarrow> string \<Rightarrow> request_record list \<Rightarrow> request_record list" where
  "update_first f i [] = []"
| "update_first f i (r # rs) = (if rec_id r = i then f r # rs else r # update_first f i rs)"

definition update_record ::
  "nat \<Rightarrow> string \<Rightarrow> (request_record \<Rightarrow> request_record) \<Rightarrow> monitor \<Rightarrow> monitor" where
  "update_record now i f m =
     m\<lparr>mn_records := update_first (\<lambda>r. (f r)\<lparr>rec_updated_ms := now\<rparr>) i (mn_records m)\<rparr>"

definition unless_terminal ::
  "(request_record \<Rightarrow> request_record) \<Rightarrow> request_record \<Rightarrow> request_record" where
  "unless_terminal f r = (if decision_terminal (rec_decision r) then r else f r)"

definition record_response ::
  "'x ext_scheme \<Rightarrow> json_wire \<Rightarrow> nat \<Rightarrow> string \<Rightarrow> nat \<Rightarrow> string option \<Rightarrow> unmask_manifest \<Rightarrow> monitor \<Rightarrow> monitor" where
  "record_response X jw now i status body manifest m =
     (let pairs = longest_first
            (json_body_redaction_pairs jw manifest @ json_body_expand jw (mn_local_redactions m));
          scrubbed = map_option (\<lambda>b. redact_secret_values (utf8_lossy b) pairs) body
      in update_record now i (unless_terminal (\<lambda>r.
           (let preview = map_option clip_preview scrubbed in
            r\<lparr>rec_response_status := Some status,
              rec_response_preview := preview,
              rec_response_spans :=
                (case preview of None \<Rightarrow> [] | Some p \<Rightarrow> spans_from_values (rec_tokens r) p),
              rec_response_surfaces :=
                (case scrubbed of None \<Rightarrow> [] | Some b \<Rightarrow> surfaces_from_response_body X jw b (rec_tokens r)),
              rec_decision := Completed\<rparr>))) m)"

definition with_response :: "nat \<Rightarrow> string \<Rightarrow> msurface list \<Rightarrow> request_record \<Rightarrow> request_record" where
  "with_response status preview surfaces r =
     r\<lparr>rec_response_status := Some status,
       rec_response_spans := spans_from_values (rec_tokens r) preview,
       rec_response_preview := Some preview,
       rec_response_surfaces := surfaces\<rparr>"

definition record_response_progress ::
  "nat \<Rightarrow> string \<Rightarrow> nat \<Rightarrow> string \<Rightarrow> msurface list \<Rightarrow> monitor \<Rightarrow> monitor" where
  "record_response_progress now i status preview surfaces m =
     m\<lparr>mn_records := update_first
         (unless_terminal (\<lambda>r. (with_response status preview surfaces r)\<lparr>rec_updated_ms := now\<rparr>)) i
         (mn_records m)\<rparr>"

definition complete_response ::
  "nat \<Rightarrow> string \<Rightarrow> nat \<Rightarrow> string option \<Rightarrow> msurface list \<Rightarrow> monitor \<Rightarrow> monitor" where
  "complete_response now i status preview surfaces m =
     update_record now i (unless_terminal (\<lambda>r.
       (case preview of
          None \<Rightarrow> r\<lparr>rec_response_status := Some status\<rparr>
        | Some p \<Rightarrow> with_response status p surfaces r)\<lparr>rec_decision := Completed\<rparr>)) m"

definition record_dispatched :: "nat \<Rightarrow> string \<Rightarrow> monitor \<Rightarrow> monitor" where
  "record_dispatched now i m =
     update_record now i (\<lambda>r.
       if rec_decision r = AutoAccepted \<or> rec_decision r = Approved
       then r\<lparr>rec_decision := InFlight, rec_dispatched_ms := Some now\<rparr> else r) m"

definition record_aborted :: "nat \<Rightarrow> string \<Rightarrow> monitor \<Rightarrow> monitor" where
  "record_aborted now i m =
     update_record now i (unless_terminal (\<lambda>r.
       r\<lparr>rec_decision := Aborted,
         rec_rejection_reason := Some ''client disconnected before response completed''\<rparr>)) m"

definition record_upstream_error :: "nat \<Rightarrow> string \<Rightarrow> string \<Rightarrow> monitor \<Rightarrow> monitor" where
  "record_upstream_error now i msg m =
     update_record now i (unless_terminal (\<lambda>r.
       r\<lparr>rec_decision := UpstreamError, rec_rejection_reason := Some msg\<rparr>)) m"

text \<open>
  What the caller of an update gets: the record as the update leaves it, before it is stamped, or
  the error for an unknown id.
\<close>

datatype decide_error = Unknown

definition find_record :: "string \<Rightarrow> monitor \<Rightarrow> request_record option" where
  "find_record i m = find (\<lambda>r. rec_id r = i) (mn_records m)"

definition updated ::
  "string \<Rightarrow> (request_record \<Rightarrow> request_record) \<Rightarrow> monitor \<Rightarrow> decide_error + request_record" where
  "updated i f m = (case find_record i m of None \<Rightarrow> Inl Unknown | Some r \<Rightarrow> Inr (f r))"

definition update_tags ::
  "nat \<Rightarrow> string \<Rightarrow> string list \<Rightarrow> monitor \<Rightarrow> (decide_error + request_record) \<times> monitor" where
  "update_tags now i tags m =
     (let f = (\<lambda>r. r\<lparr>rec_tags := tags\<rparr>) in (updated i f m, update_record now i f m))"

section \<open>Approval\<close>

text \<open>
  \<open>decide\<close> takes the mutex twice: it removes the waiter and sends the decision on its channel,
  then it marks the record.  None is the error for an id that has no waiter.
\<close>

definition decide_take :: "string \<Rightarrow> monitor \<Rightarrow> monitor option" where
  "decide_take i m =
     (if i \<in> set (mn_waiters m) then Some (m\<lparr>mn_waiters := removeAll i (mn_waiters m)\<rparr>) else None)"

definition mark_decided :: "approval_decision \<Rightarrow> request_record \<Rightarrow> request_record" where
  "mark_decided d r =
     (case d of
        Approve \<Rightarrow> r\<lparr>rec_decision := Approved\<rparr>
      | Reject reason \<Rightarrow> r\<lparr>rec_decision := Rejected, rec_rejection_reason := Some reason\<rparr>)"

definition decide_mark ::
  "nat \<Rightarrow> string \<Rightarrow> approval_decision \<Rightarrow> monitor \<Rightarrow> (decide_error + request_record) \<times> monitor" where
  "decide_mark now i d m =
     (updated i (mark_decided d) m, update_record now i (mark_decided d) m)"

definition decide_request ::
  "nat \<Rightarrow> string \<Rightarrow> approval_decision \<Rightarrow> monitor \<Rightarrow> (decide_error + request_record) \<times> monitor" where
  "decide_request now i d m =
     (case decide_take i m of
        None \<Rightarrow> (Inl Unknown, m)
      | Some m' \<Rightarrow> decide_mark now i d m')"

text \<open>
  \<open>wait_for_approval\<close>, by what the wait for the channel came to: a decision, a closed channel or
  the timeout, which removes the waiter and then marks the record.
\<close>

datatype wait_result = Received approval_decision | ChannelClosed | Elapsed

definition timeout_take :: "string \<Rightarrow> monitor \<Rightarrow> monitor" where
  "timeout_take i m = m\<lparr>mn_waiters := removeAll i (mn_waiters m)\<rparr>"

definition timeout_mark :: "nat \<Rightarrow> string \<Rightarrow> monitor \<Rightarrow> monitor" where
  "timeout_mark now i m =
     update_record now i (\<lambda>r.
       r\<lparr>rec_decision := TimedOut, rec_rejection_reason := Some ''approval timed out''\<rparr>) m"

definition wait_for_approval ::
  "nat \<Rightarrow> review_ticket \<Rightarrow> wait_result \<Rightarrow> monitor \<Rightarrow> approval_decision \<times> monitor" where
  "wait_for_approval now tk res m =
     (if \<not> tk_held tk then
        ((case tk_immediate_reject tk of Some reason \<Rightarrow> Reject reason | None \<Rightarrow> Approve), m)
      else
        (case res of
           Received d \<Rightarrow> (d, m)
         | ChannelClosed \<Rightarrow> (Reject ''approval channel closed'', m)
         | Elapsed \<Rightarrow> (Reject ''approval timed out'', timeout_mark now (tk_id tk) (timeout_take (tk_id tk) m))))"

definition set_mode :: "monitor_mode \<Rightarrow> nat option \<Rightarrow> monitor \<Rightarrow> monitor" where
  "set_mode mode max_pending m =
     (let m1 = m\<lparr>mn_mode := mode\<rparr> in
      (case max_pending of None \<Rightarrow> m1 | Some n \<Rightarrow> m1\<lparr>mn_max_pending_approvals := n\<rparr>))"

definition routed_recently :: "nat \<Rightarrow> string \<Rightarrow> nat \<Rightarrow> monitor \<Rightarrow> bool \<times> nat option" where
  "routed_recently now conversation_id window m =
     (let last_seen = map_of (mn_last_seen m) conversation_id
      in ((case last_seen of Some ts \<Rightarrow> now - ts \<le> window | None \<Rightarrow> False), last_seen))"

section \<open>The snapshot\<close>

definition meta_of :: "'x ext_scheme \<Rightarrow> (string \<times> string) list \<Rightarrow> request_record \<Rightarrow>
    (string \<times> conversation_meta) list \<Rightarrow> (string \<times> conversation_meta) list" where
  "meta_of X labels r metas =
     (let c = rec_conversation_id r;
          v = or_default
            \<lparr>cv_id = c, cv_label = or_default (conversation_label X (rec_endpoint r) c) (map_of labels c),
             cv_turn_count = 0, cv_last_updated_ms = 0, cv_pending_count = 0\<rparr> (map_of metas c);
          human_turns = (if rec_human_turn_index r > 0 then rec_human_turn_index r else rec_turn_index r)
      in AList.update c
           (v\<lparr>cv_turn_count := max (cv_turn_count v) human_turns,
              cv_last_updated_ms := max (cv_last_updated_ms v) (rec_updated_ms r),
              cv_pending_count := cv_pending_count v + (if rec_decision r = Pending then 1 else 0)\<rparr>) metas)"

definition conversations_from_records ::
  "'x ext_scheme \<Rightarrow> (string \<times> string) list \<Rightarrow> request_record list \<Rightarrow> conversation_meta list" where
  "conversations_from_records X labels records =
     sort_by (\<lambda>a b. cmp_of (cv_last_updated_ms b) (cv_last_updated_ms a))
       (map snd (fold (meta_of X labels) records []))"

definition monitor_snapshot_of :: "'x ext_scheme \<Rightarrow> monitor \<Rightarrow> monitor_snapshot" where
  "monitor_snapshot_of X m =
     \<lparr>sn_mode = mn_mode m, sn_pending_count = length (mn_waiters m),
      sn_max_pending_approvals = mn_max_pending_approvals m, sn_records = mn_records m,
      sn_conversations = conversations_from_records X (mn_labels m) (mn_records m),
      sn_approval_timeout_secs = APPROVAL_TIMEOUT_SECS,
      sn_session_tokens = sort_key tl_first_seen_ms (map snd (mn_session_tokens m))\<rparr>"

section \<open>The guard of a streamed reply\<close>

record completion_guard =
  cg_id :: string
  cg_status :: nat
  cg_armed :: bool
  cg_tokens :: "token_preview list"
  cg_redactions :: "(string \<times> string) list"
  cg_capture :: response_capture
  cg_flushed_len :: nat

definition guard_new :: "string \<Rightarrow> nat \<Rightarrow> unmask_manifest \<Rightarrow> monitor \<Rightarrow> completion_guard" where
  "guard_new i status manifest m =
     \<lparr>cg_id = i, cg_status = status, cg_armed = True, cg_tokens = token_previews manifest,
      cg_redactions = longest_first (redaction_pairs manifest @ mn_local_redactions m),
      cg_capture = capture_new, cg_flushed_len = 0\<rparr>"

definition persist_partial ::
  "'x ext_scheme \<Rightarrow> json_wire \<Rightarrow> nat \<Rightarrow> completion_guard \<Rightarrow> monitor \<Rightarrow> monitor" where
  "persist_partial X jw now g m =
     (if cap_is_empty (cg_capture g) then m
      else
        (let (preview, surfaces) = cap_render X jw (cg_tokens g) (cg_capture g)
         in record_response_progress now (cg_id g) (cg_status g) preview surfaces m))"

definition flush_progress ::
  "'x ext_scheme \<Rightarrow> json_wire \<Rightarrow> nat \<Rightarrow> completion_guard \<Rightarrow> monitor \<Rightarrow> completion_guard \<times> monitor" where
  "flush_progress X jw now g m =
     (if \<not> cg_armed g \<or> cap_is_empty (cg_capture g) then (g, m)
      else (g\<lparr>cg_flushed_len := cp_total (cg_capture g)\<rparr>, persist_partial X jw now g m))"

definition guard_capture ::
  "'x ext_scheme \<Rightarrow> json_wire \<Rightarrow> nat \<Rightarrow> string \<Rightarrow> cap_kind \<Rightarrow> string \<Rightarrow> string \<Rightarrow>
   completion_guard \<Rightarrow> monitor \<Rightarrow> completion_guard \<times> monitor" where
  "guard_capture X jw now key kind label t g m =
     (if \<not> cg_armed g then (g, m)
      else
        (let g1 = g\<lparr>cg_capture := cap_push key kind label (redact_secret_values t (cg_redactions g)) (cg_capture g)\<rparr>
         in if cp_total (cg_capture g1) - cg_flushed_len g1 \<ge> PROGRESS_FLUSH_BYTES
            then flush_progress X jw now g1 m else (g1, m)))"

definition guard_start_tool :: "string \<Rightarrow> string \<Rightarrow> completion_guard \<Rightarrow> completion_guard" where
  "guard_start_tool key name g =
     (if \<not> cg_armed g then g else g\<lparr>cg_capture := cap_start_tool key name (cg_capture g)\<rparr>)"

definition guard_complete ::
  "'x ext_scheme \<Rightarrow> json_wire \<Rightarrow> nat \<Rightarrow> completion_guard \<Rightarrow> monitor \<Rightarrow> completion_guard \<times> monitor" where
  "guard_complete X jw now g m =
     (if \<not> cg_armed g then (g, m)
      else
        (let (preview, surfaces) = cap_render X jw (cg_tokens g) (cg_capture g)
         in (g\<lparr>cg_armed := False\<rparr>,
             complete_response now (cg_id g) (cg_status g)
               (if cap_is_empty (cg_capture g) then None else Some preview) surfaces m)))"

definition guard_upstream_error ::
  "'x ext_scheme \<Rightarrow> json_wire \<Rightarrow> nat \<Rightarrow> string \<Rightarrow> completion_guard \<Rightarrow> monitor \<Rightarrow> completion_guard \<times> monitor" where
  "guard_upstream_error X jw now msg g m =
     (if \<not> cg_armed g then (g, m)
      else (g\<lparr>cg_armed := False\<rparr>,
            record_upstream_error now (cg_id g) msg (persist_partial X jw now g m)))"

definition guard_drop ::
  "'x ext_scheme \<Rightarrow> json_wire \<Rightarrow> nat \<Rightarrow> completion_guard \<Rightarrow> monitor \<Rightarrow> monitor" where
  "guard_drop X jw now g m =
     (if cg_armed g then record_aborted now (cg_id g) (persist_partial X jw now g m) else m)"

end
