(* ===== verification/MonitorLife.thy ===== *)
theory MonitorLife
  imports MonitorOps
begin

text \<open>
  The life of requests that share one monitor (\<open>messages_inner\<close> of \<open>routes.rs\<close>, the handlers of the
  OpenAI adapters, \<open>monitor/http.rs\<close> and \<open>wait_for_approval\<close>/\<open>decide\<close> of \<open>monitor/store.rs\<close>).  A
  world is the monitor with the phase of every request; an action is what happens between two
  points where the code gives up the mutex or awaits, so the actions of different requests and
  of the operator interleave freely.
\<close>

datatype phase =
    Held
  | Elapsed1
  | Elapsed2
  | Cleared
  | Sent
  | Streaming completion_guard
  | Refused string
  | Done
  | Gone

text \<open>
  \<open>w_chan\<close> is what the channels of the held requests carry, \<open>w_late\<close> the decisions that were sent
  and not marked yet.  The last four fields record the history: the requests that were to be held,
  the ones the operator approved and rejected, and those sent upstream.
\<close>

record world =
  w_mon :: monitor
  w_phase :: "string \<Rightarrow> phase option"
  w_chan :: "string \<Rightarrow> approval_decision option"
  w_late :: "(string \<times> approval_decision) list"
  w_gated :: "string set"
  w_approved :: "string set"
  w_rejected :: "string set"
  w_sent :: "string list"

definition world_new :: world where
  "world_new =
     \<lparr>w_mon = monitor_new, w_phase = Map.empty, w_chan = Map.empty, w_late = [], w_gated = {},
      w_approved = {}, w_rejected = {}, w_sent = []\<rparr>"

datatype action =
    Arrive nat string string "string option" string unmask_manifest
  | DecideTake string approval_decision
  | DecideMark nat string approval_decision
  | Receive string
  | Elapse string
  | ExpireTake string
  | ExpireMark nat string
  | Leave nat string
  | Dispatch nat string
  | UpstreamFail nat string string
  | Reply nat string nat string unmask_manifest
  | StartStream string nat unmask_manifest
  | Chunk nat string string cap_kind string string
  | FinishStream nat string
  | BreakStream nat string string
  | SetMode monitor_mode "nat option"
  | Tag nat string "string list"
  | CountTokens nat unmask_manifest

definition ticket_phase :: "review_ticket \<Rightarrow> phase" where
  "ticket_phase tk =
     (if tk_held tk then Held
      else (case tk_immediate_reject tk of Some reason \<Rightarrow> Refused reason | None \<Rightarrow> Cleared))"

definition verdict_phase :: "approval_decision \<Rightarrow> phase" where
  "verdict_phase d = (case d of Approve \<Rightarrow> Cleared | Reject reason \<Rightarrow> Refused reason)"

definition to_phase :: "string \<Rightarrow> phase \<Rightarrow> world \<Rightarrow> world" where
  "to_phase i p w = w\<lparr>w_phase := (w_phase w)(i \<mapsto> p)\<rparr>"

definition on_mon :: "(monitor \<Rightarrow> monitor) \<Rightarrow> world \<Rightarrow> world" where
  "on_mon f w = w\<lparr>w_mon := f (w_mon w)\<rparr>"

definition arrive ::
  "'x ext_scheme \<Rightarrow> json_wire \<Rightarrow> nat \<Rightarrow> string \<Rightarrow> string \<Rightarrow> string option \<Rightarrow> string \<Rightarrow> unmask_manifest \<Rightarrow>
   world \<Rightarrow> world" where
  "arrive X jw now endpoint method conversation body manifest w =
     (let (tk, m) = record_llm_request X jw now endpoint method conversation body manifest (w_mon w)
      in to_phase (tk_id tk) (ticket_phase tk)
           (w\<lparr>w_mon := m,
              w_gated := (if should_hold (mn_mode (w_mon w)) manifest then insert (tk_id tk) (w_gated w)
                          else w_gated w)\<rparr>))"

text \<open>A decision reaches the request only while its receiver waits; the send is not checked.\<close>

definition take_decision :: "string \<Rightarrow> approval_decision \<Rightarrow> monitor \<Rightarrow> world \<Rightarrow> world" where
  "take_decision i d m w =
     w\<lparr>w_mon := m, w_late := (i, d) # w_late w,
       w_chan := (if w_phase w i = Some Held then (w_chan w)(i \<mapsto> d) else w_chan w),
       w_approved := (if d = Approve then insert i (w_approved w) else w_approved w),
       w_rejected := (if d = Approve then w_rejected w else insert i (w_rejected w))\<rparr>"

text \<open>An action on a world; None when it cannot happen there.\<close>

fun exec :: "'x ext_scheme \<Rightarrow> json_wire \<Rightarrow> action \<Rightarrow> world \<Rightarrow> world option" where
  "exec X jw (Arrive now endpoint method conversation body manifest) w =
     Some (arrive X jw now endpoint method conversation body manifest w)"
| "exec X jw (DecideTake i d) w = map_option (\<lambda>m. take_decision i d m w) (decide_take i (w_mon w))"
| "exec X jw (DecideMark now i d) w =
     (if (i, d) \<in> set (w_late w) then
        Some (on_mon (\<lambda>m. snd (decide_mark now i d m)) (w\<lparr>w_late := remove1 (i, d) (w_late w)\<rparr>))
      else None)"
| "exec X jw (Receive i) w =
     (case (w_phase w i, w_chan w i) of
        (Some Held, Some d) \<Rightarrow> Some (to_phase i (verdict_phase d) w)
      | _ \<Rightarrow> None)"
| "exec X jw (Elapse i) w =
     (if w_phase w i = Some Held \<and> w_chan w i = None then Some (to_phase i Elapsed1 w) else None)"
| "exec X jw (ExpireTake i) w =
     (if w_phase w i = Some Elapsed1 then Some (to_phase i Elapsed2 (on_mon (timeout_take i) w)) else None)"
| "exec X jw (ExpireMark now i) w =
     (if w_phase w i = Some Elapsed2
      then Some (to_phase i (Refused ''approval timed out'') (on_mon (timeout_mark now i) w)) else None)"
| "exec X jw (Leave now i) w =
     (case w_phase w i of
        Some Held \<Rightarrow> Some (to_phase i Gone w)
      | Some Sent \<Rightarrow> Some (to_phase i Gone w)
      | Some (Streaming g) \<Rightarrow> Some (to_phase i Gone (on_mon (guard_drop X jw now g) w))
      | _ \<Rightarrow> None)"
| "exec X jw (Dispatch now i) w =
     (if w_phase w i = Some Cleared
      then Some (to_phase i Sent (on_mon (record_dispatched now i) (w\<lparr>w_sent := i # w_sent w\<rparr>))) else None)"
| "exec X jw (UpstreamFail now i msg) w =
     (if w_phase w i = Some Sent then Some (to_phase i Done (on_mon (record_upstream_error now i msg) w)) else None)"
| "exec X jw (Reply now i status body manifest) w =
     (if w_phase w i = Some Sent
      then Some (to_phase i Done (on_mon (record_response X jw now i status (Some body) manifest) w)) else None)"
| "exec X jw (StartStream i status manifest) w =
     (if w_phase w i = Some Sent
      then Some (to_phase i (Streaming (guard_new i status manifest (w_mon w))) w) else None)"
| "exec X jw (Chunk now i key kind label t) w =
     (case w_phase w i of
        Some (Streaming g) \<Rightarrow>
          (let (g', m) = guard_capture X jw now key kind label t g (w_mon w)
           in Some (to_phase i (Streaming g') (w\<lparr>w_mon := m\<rparr>)))
      | _ \<Rightarrow> None)"
| "exec X jw (FinishStream now i) w =
     (case w_phase w i of
        Some (Streaming g) \<Rightarrow> Some (to_phase i Done (on_mon (\<lambda>m. snd (guard_complete X jw now g m)) w))
      | _ \<Rightarrow> None)"
| "exec X jw (BreakStream now i msg) w =
     (case w_phase w i of
        Some (Streaming g) \<Rightarrow>
          Some (to_phase i Done (on_mon (\<lambda>m. snd (guard_upstream_error X jw now msg g m)) w))
      | _ \<Rightarrow> None)"
| "exec X jw (SetMode mode max_pending) w = Some (on_mon (set_mode mode max_pending) w)"
| "exec X jw (Tag now i tags) w = Some (on_mon (\<lambda>m. snd (update_tags now i tags m)) w)"
| "exec X jw (CountTokens now manifest) w = Some (on_mon (ingest_session_tokens now manifest) w)"

fun run_actions :: "'x ext_scheme \<Rightarrow> json_wire \<Rightarrow> action list \<Rightarrow> world \<Rightarrow> world option" where
  "run_actions X jw [] w = Some w"
| "run_actions X jw (a # as) w = Option.bind (exec X jw a w) (run_actions X jw as)"

inductive reaches :: "'x ext_scheme \<Rightarrow> json_wire \<Rightarrow> world \<Rightarrow> bool" for X jw where
  start: "reaches X jw world_new"
| step: "reaches X jw w \<Longrightarrow> exec X jw a w = Some w' \<Longrightarrow> reaches X jw w'"

lemma reaches_run: "run_actions X jw as w = Some w' \<Longrightarrow> reaches X jw w \<Longrightarrow> reaches X jw w'"
  by (induction as arbitrary: w) (auto simp: bind_eq_Some_conv intro: reaches.step)

section \<open>What the operations leave alone\<close>

named_theorems keeps "fields of the monitor an operation does not touch"

lemma ops_keep_waiters [keeps]:
  "mn_waiters (update_record now i f m) = mn_waiters m"
  "mn_waiters (record_response X jw now i status body manifest m) = mn_waiters m"
  "mn_waiters (record_response_progress now i status preview surfaces m) = mn_waiters m"
  "mn_waiters (complete_response now i status prev surfaces m) = mn_waiters m"
  "mn_waiters (record_dispatched now i m) = mn_waiters m"
  "mn_waiters (record_aborted now i m) = mn_waiters m"
  "mn_waiters (record_upstream_error now i msg m) = mn_waiters m"
  "mn_waiters (snd (update_tags now i tags m)) = mn_waiters m"
  "mn_waiters (snd (decide_mark now i d m)) = mn_waiters m"
  "mn_waiters (timeout_mark now i m) = mn_waiters m"
  "mn_waiters (set_mode mode n m) = mn_waiters m"
  "mn_waiters (ingest_tokens_into manifest now prov m) = mn_waiters m"
  "mn_waiters (ingest_session_tokens now manifest m) = mn_waiters m"
  by (simp_all add: update_record_def record_response_def record_response_progress_def
      complete_response_def record_dispatched_def record_aborted_def record_upstream_error_def
      update_tags_def decide_mark_def timeout_mark_def set_mode_def ingest_tokens_into_def
      ingest_session_tokens_def Let_def split: option.split)

lemma ops_keep_seq [keeps]:
  "mn_next_seq (update_record now i f m) = mn_next_seq m"
  "mn_next_seq (record_response X jw now i status body manifest m) = mn_next_seq m"
  "mn_next_seq (record_response_progress now i status preview surfaces m) = mn_next_seq m"
  "mn_next_seq (complete_response now i status prev surfaces m) = mn_next_seq m"
  "mn_next_seq (record_dispatched now i m) = mn_next_seq m"
  "mn_next_seq (record_aborted now i m) = mn_next_seq m"
  "mn_next_seq (record_upstream_error now i msg m) = mn_next_seq m"
  "mn_next_seq (snd (update_tags now i tags m)) = mn_next_seq m"
  "mn_next_seq (snd (decide_mark now i d m)) = mn_next_seq m"
  "mn_next_seq (timeout_mark now i m) = mn_next_seq m"
  "mn_next_seq (timeout_take i m) = mn_next_seq m"
  "mn_next_seq (set_mode mode n m) = mn_next_seq m"
  "mn_next_seq (ingest_tokens_into manifest now prov m) = mn_next_seq m"
  "mn_next_seq (ingest_session_tokens now manifest m) = mn_next_seq m"
  by (simp_all add: update_record_def record_response_def record_response_progress_def
      complete_response_def record_dispatched_def record_aborted_def record_upstream_error_def
      update_tags_def decide_mark_def timeout_mark_def timeout_take_def set_mode_def
      ingest_tokens_into_def ingest_session_tokens_def Let_def split: option.split)

lemma guard_keeps [keeps]:
  "mn_waiters (persist_partial X jw now g m) = mn_waiters m"
  "mn_waiters (snd (guard_capture X jw now key kind label t g m)) = mn_waiters m"
  "mn_waiters (snd (guard_complete X jw now g m)) = mn_waiters m"
  "mn_waiters (snd (guard_upstream_error X jw now msg g m)) = mn_waiters m"
  "mn_waiters (guard_drop X jw now g m) = mn_waiters m"
  "mn_next_seq (persist_partial X jw now g m) = mn_next_seq m"
  "mn_next_seq (snd (guard_capture X jw now key kind label t g m)) = mn_next_seq m"
  "mn_next_seq (snd (guard_complete X jw now g m)) = mn_next_seq m"
  "mn_next_seq (snd (guard_upstream_error X jw now msg g m)) = mn_next_seq m"
  "mn_next_seq (guard_drop X jw now g m) = mn_next_seq m"
  by (simp_all add: persist_partial_def guard_capture_def flush_progress_def guard_complete_def
      guard_upstream_error_def guard_drop_def Let_def keeps case_prod_unfold)

lemma evict_keeps [keeps]:
  "mn_waiters (evict_stale_conversation_state m) = mn_waiters m"
  "mn_next_seq (evict_stale_conversation_state m) = mn_next_seq m"
  "mn_records (evict_stale_conversation_state m) = mn_records m"
  "mn_max_pending_approvals (evict_stale_conversation_state m) = mn_max_pending_approvals m"
  "mn_mode (evict_stale_conversation_state m) = mn_mode m"
  "mn_session_tokens (evict_stale_conversation_state m) = mn_session_tokens m"
  by (induction m rule: evict_stale_conversation_state.induct;
      subst evict_stale_conversation_state.simps; auto simp: forget_conversation_def split: option.split)+

lemma conversation_keeps [keeps]:
  "request_conversation X jw c body sq m = (i, m') \<Longrightarrow>
     mn_waiters m' = mn_waiters m \<and> mn_next_seq m' = mn_next_seq m \<and> mn_mode m' = mn_mode m \<and>
     mn_records m' = mn_records m \<and> mn_max_pending_approvals m' = mn_max_pending_approvals m \<and>
     mn_session_tokens m' = mn_session_tokens m"
  "human_turn i ss m = (n, m') \<Longrightarrow>
     mn_waiters m' = mn_waiters m \<and> mn_next_seq m' = mn_next_seq m \<and> mn_mode m' = mn_mode m \<and>
     mn_records m' = mn_records m \<and> mn_max_pending_approvals m' = mn_max_pending_approvals m \<and>
     mn_session_tokens m' = mn_session_tokens m"
  by (auto simp: request_conversation_def human_turn_def Let_def case_prod_unfold
      split: option.splits if_splits)

lemma stamp_keeps [keeps]:
  "mn_waiters (stamp_conversation X now ep c ss m) = mn_waiters m"
  "mn_next_seq (stamp_conversation X now ep c ss m) = mn_next_seq m"
  "mn_records (stamp_conversation X now ep c ss m) = mn_records m"
  "mn_max_pending_approvals (stamp_conversation X now ep c ss m) = mn_max_pending_approvals m"
  "mn_mode (stamp_conversation X now ep c ss m) = mn_mode m"
  "mn_session_tokens (stamp_conversation X now ep c ss m) = mn_session_tokens m"
  by (simp_all add: stamp_conversation_def keeps)

end
