(* ===== verification/MonitorGate.thy ===== *)
theory MonitorGate
  imports MonitorLife
begin

text \<open>
  What holds in every world: held requests go upstream only after the operator approved them, every
  body goes at most once, a held request is always on its way to a verdict; and what does not: a
  verdict can be overwritten by a decision that is marked late, and a slot is not given back when
  the client of a held request leaves.
\<close>

section \<open>Ids\<close>

definition req_id :: "nat \<Rightarrow> string" where
  "req_id n = ''req-'' @ dec_string n"

definition req_value :: "string \<Rightarrow> nat" where
  "req_value s = foldl (\<lambda>v c. 10 * v + (code c - 48)) 0 s"

lemma req_value_dec_string: "req_value (dec_string n) = n"
proof (induction n rule: dec_string.induct)
  case (1 n)
  show ?case
  proof (cases "n < 10")
    case True
    then show ?thesis by (subst dec_string.simps) (simp add: req_value_def)
  next
    case False
    have "req_value (dec_string n) = 10 * req_value (dec_string (n div 10)) + n mod 10"
      using False by (subst dec_string.simps) (simp add: req_value_def)
    with 1 False show ?thesis by simp
  qed
qed

lemma req_id_inject [simp]: "req_id m = req_id n \<longleftrightarrow> m = n"
  by (metis append_same_eq req_value_dec_string req_id_def same_append_eq)

section \<open>Arrivals\<close>

lemma record_llm_effect:
  assumes "record_llm_request X jw now endpoint meth conv body manifest m = (tk, m')"
  defines "hold \<equiv> should_hold (mn_mode m) manifest"
    and "full \<equiv> mn_max_pending_approvals m \<le> length (mn_waiters m)"
  obtains r where "tk_id tk = req_id (mn_next_seq m)" "mn_next_seq m' = mn_next_seq m + 1"
    "tk_held tk \<longleftrightarrow> hold \<and> \<not> full"
    "tk_immediate_reject tk =
       (if hold \<and> full then Some (pending_limit_reason (mn_max_pending_approvals m)) else None)"
    "mn_waiters m' = (if tk_held tk then tk_id tk # mn_waiters m else mn_waiters m)"
    "mn_records m' = push_record r (mn_records m)" "rec_id r = tk_id tk"
    "rec_decision r = (if hold \<and> full then BackpressureRejected else if hold then Pending else AutoAccepted)"
    "mn_session_tokens m' = mn_session_tokens (ingest_tokens_into manifest now
       (token_provenance_map (surfaces_from_body X jw body (token_previews manifest))) m)"
    "mn_max_pending_approvals m' = mn_max_pending_approvals m" "mn_mode m' = mn_mode m"
proof -
  define surfaces where "surfaces = surfaces_from_body X jw body (token_previews manifest)"
  define sq where "sq = map sf_block_hash
    (filter (\<lambda>s. sf_kind s \<noteq> ''system'' \<and> sf_kind s \<noteq> ''instructions'') surfaces)"
  define m1 where "m1 = ingest_tokens_into manifest now (token_provenance_map surfaces) m"
  define m2 where "m2 = m1\<lparr>mn_next_seq := mn_next_seq m1 + 1\<rparr>"
  obtain c m3 where 3: "request_conversation X jw conv body sq m2 = (c, m3)" by fastforce
  obtain ti turns where 4: "bump c 1 (mn_turn_counts m3) = (ti, turns)" by fastforce
  define m4 where "m4 = m3\<lparr>mn_turn_counts := turns\<rparr>"
  obtain hi m5 where 5: "human_turn c surfaces m4 = (hi, m5)" by fastforce
  define m6 where "m6 = stamp_conversation X now endpoint c surfaces m5"
  have m1: "mn_waiters m1 = mn_waiters m" "mn_next_seq m1 = mn_next_seq m" "mn_mode m1 = mn_mode m"
    "mn_records m1 = mn_records m" "mn_max_pending_approvals m1 = mn_max_pending_approvals m"
    by (simp_all add: m1_def ingest_tokens_into_def)
  note k3 = conversation_keeps(1) [OF 3]
  note k5 = conversation_keeps(2) [OF 5]
  have m6: "mn_waiters m6 = mn_waiters m" "mn_next_seq m6 = mn_next_seq m + 1"
    "mn_records m6 = mn_records m" "mn_max_pending_approvals m6 = mn_max_pending_approvals m"
    "mn_mode m3 = mn_mode m" "mn_mode m6 = mn_mode m" "mn_session_tokens m6 = mn_session_tokens m1"
    using k3 k5 m1 by (simp_all add: m6_def m4_def m2_def keeps)
  note unfolded = assms(1) [unfolded record_llm_request_def Let_def, folded surfaces_def,
    folded sq_def m1_def, folded m2_def, unfolded 3 prod.case, unfolded 4 prod.case, folded m4_def,
    unfolded 5 prod.case, folded m6_def]
  show ?thesis
    using unfolded m6 m1
    by (intro that [of "hd (mn_records m')"])
      (auto simp: hold_def full_def req_id_def push_record_def MAX_RECORDS_def m1_def surfaces_def
        split: if_splits)
qed

section \<open>The invariant\<close>

fun past_gate :: "phase \<Rightarrow> bool" where
  "past_gate Cleared = True"
| "past_gate Sent = True"
| "past_gate (Streaming g) = True"
| "past_gate Done = True"
| "past_gate _ = False"

abbreviation waiters :: "world \<Rightarrow> string set" where
  "waiters w \<equiv> set (mn_waiters (w_mon w))"

definition ids_ok :: "world \<Rightarrow> bool" where
  "ids_ok w \<longleftrightarrow>
     (\<forall>n\<ge>mn_next_seq (w_mon w). w_phase w (req_id n) = None \<and> w_chan w (req_id n) = None) \<and>
     (\<forall>i\<in>w_gated w. w_phase w i \<noteq> None) \<and> waiters w \<subseteq> w_gated w \<and>
     w_approved w \<subseteq> w_gated w \<and> w_rejected w \<subseteq> w_gated w \<and>
     waiters w \<inter> (w_approved w \<union> w_rejected w) = {} \<and> w_approved w \<inter> w_rejected w = {}"

definition waiting_ok :: "world \<Rightarrow> bool" where
  "waiting_ok w \<longleftrightarrow>
     (\<forall>i\<in>waiters w. (w_phase w i = Some Held \<and> w_chan w i = None) \<or> w_phase w i = Some Elapsed1 \<or>
        (w_phase w i = Some Gone \<and> i \<notin> set (w_sent w))) \<and>
     (\<forall>i. w_phase w i = Some Held \<longrightarrow> w_chan w i = None \<longrightarrow> i \<in> waiters w) \<and>
     (\<forall>i. w_phase w i = Some Held \<longrightarrow> w_chan w i = Some Approve \<longrightarrow> i \<in> w_approved w) \<and>
     (\<forall>i r. w_phase w i = Some Held \<longrightarrow> w_chan w i = Some (Reject r) \<longrightarrow> i \<in> w_rejected w)"

definition sent_ok :: "world \<Rightarrow> bool" where
  "sent_ok w \<longleftrightarrow>
     (\<forall>i p. w_phase w i = Some p \<longrightarrow> past_gate p \<longrightarrow> i \<in> w_gated w \<longrightarrow> i \<in> w_approved w) \<and>
     (\<forall>i\<in>set (w_sent w). i \<in> w_gated w \<longrightarrow> i \<in> w_approved w) \<and>
     (\<forall>i\<in>set (w_sent w). w_phase w i = Some Gone \<or> (\<exists>p. w_phase w i = Some p \<and> past_gate p \<and> p \<noteq> Cleared)) \<and>
     (\<forall>i. w_phase w i = Some Sent \<longrightarrow> i \<in> set (w_sent w)) \<and>
     distinct (w_sent w)"

definition life_ok :: "world \<Rightarrow> bool" where
  "life_ok w \<longleftrightarrow> ids_ok w \<and> waiting_ok w \<and> sent_ok w"

lemmas life_defs = life_ok_def ids_ok_def waiting_ok_def sent_ok_def

lemma world_sel [simp]:
  "w_mon (to_phase i p w) = w_mon w" "w_phase (to_phase i p w) = (w_phase w)(i \<mapsto> p)"
  "w_chan (to_phase i p w) = w_chan w" "w_late (to_phase i p w) = w_late w"
  "w_gated (to_phase i p w) = w_gated w" "w_approved (to_phase i p w) = w_approved w"
  "w_rejected (to_phase i p w) = w_rejected w" "w_sent (to_phase i p w) = w_sent w"
  "w_mon (on_mon f w) = f (w_mon w)" "w_phase (on_mon f w) = w_phase w"
  "w_chan (on_mon f w) = w_chan w" "w_late (on_mon f w) = w_late w"
  "w_gated (on_mon f w) = w_gated w" "w_approved (on_mon f w) = w_approved w"
  "w_rejected (on_mon f w) = w_rejected w" "w_sent (on_mon f w) = w_sent w"
  by (simp_all add: to_phase_def on_mon_def)

lemma life_ok_new: "life_ok world_new"
  by (simp add: life_defs world_new_def monitor_new_def)

text \<open>A change of the monitor that keeps the waiters and the counter.\<close>

lemma life_ok_mon:
  "life_ok w \<Longrightarrow> mn_waiters (f (w_mon w)) = mn_waiters (w_mon w) \<Longrightarrow>
   mn_next_seq (f (w_mon w)) = mn_next_seq (w_mon w) \<Longrightarrow> life_ok (on_mon f w)"
  by (simp add: life_defs)

text \<open>A request that moves on after the gate.\<close>

lemma life_ok_move:
  assumes "life_ok w" and "w_phase w i = Some p" and "past_gate p" and "p \<noteq> Cleared"
    and "q = Gone \<or> (past_gate q \<and> q \<noteq> Cleared \<and> (q = Sent \<longrightarrow> p = Sent))"
  shows "life_ok (to_phase i q w)"
proof -
  have "i \<notin> waiters w" using assms(1-3) by (auto simp: life_defs)
  moreover have "ids_ok (to_phase i q w)" using assms(1,2) by (auto simp: life_defs)
  moreover have "sent_ok (to_phase i q w)" using assms unfolding life_defs by auto
  ultimately show ?thesis using assms by (auto simp: life_ok_def waiting_ok_def)
qed

lemma life_ok_arrive:
  fixes X :: "'x ext_scheme"
  assumes ok: "life_ok w"
  shows "life_ok (arrive X jw now ep meth conv body manifest w)"
proof -
  obtain tk m' where r: "record_llm_request X jw now ep meth conv body manifest (w_mon w) = (tk, m')"
    by fastforce
  define w' where "w' = arrive X jw now ep meth conv body manifest w"
  define i where "i = req_id (mn_next_seq (w_mon w))"
  define hold where "hold = should_hold (mn_mode (w_mon w)) manifest"
  obtain p where w': "w_phase w' = (w_phase w)(i \<mapsto> p)" "w_chan w' = w_chan w" "w_sent w' = w_sent w"
      "w_approved w' = w_approved w" "w_rejected w' = w_rejected w"
      "w_gated w' = (if hold then insert i (w_gated w) else w_gated w)"
      "mn_next_seq (w_mon w') = mn_next_seq (w_mon w) + 1"
      "waiters w' = (if p = Held then insert i (waiters w) else waiters w)"
    and p: "p = Held \<and> hold \<or> (\<exists>reason. p = Refused reason \<and> hold) \<or> p = Cleared \<and> \<not> hold"
  proof (cases rule: record_llm_effect [OF r])
    case (1 rec)
    then show ?thesis
      by (intro that [of "ticket_phase tk"])
        (auto simp: w'_def arrive_def r i_def hold_def ticket_phase_def)
  qed
  have free: "w_phase w i = None" "w_chan w i = None" using ok by (simp_all add: life_defs i_def)
  then have fresh: "i \<notin> w_gated w" using ok by (auto simp: life_defs)
  then have fresh': "i \<notin> waiters w" "i \<notin> w_approved w" "i \<notin> w_rejected w" using ok by (auto simp: life_defs)
  have unsent: "i \<notin> set (w_sent w)" using ok free by (auto simp: life_defs)
  have "ids_ok w'"
    using ok free fresh fresh' p unfolding life_ok_def ids_ok_def w' by (auto simp: i_def)
  moreover have "waiting_ok w'"
    using ok free fresh' p unfolding life_ok_def waiting_ok_def w' by auto
  moreover have "sent_ok w'"
    using ok free fresh unsent p unfolding life_ok_def sent_ok_def w' by auto
  ultimately show ?thesis by (simp add: life_ok_def w'_def)
qed

lemma life_ok_take:
  assumes ok: "life_ok w" and take: "decide_take i (w_mon w) = Some m"
  shows "life_ok (take_decision i d m w)"
proof -
  define w' where "w' = take_decision i d m w"
  have i: "i \<in> waiters w" and m: "m = (w_mon w)\<lparr>mn_waiters := removeAll i (mn_waiters (w_mon w))\<rparr>"
    using take by (auto simp: decide_take_def split: if_splits)
  have w': "w_phase w' = w_phase w" "w_sent w' = w_sent w" "w_gated w' = w_gated w"
    "mn_next_seq (w_mon w') = mn_next_seq (w_mon w)" "waiters w' = waiters w - {i}"
    "w_chan w' = (if w_phase w i = Some Held then (w_chan w)(i \<mapsto> d) else w_chan w)"
    "w_approved w' = (if d = Approve then insert i (w_approved w) else w_approved w)"
    "w_rejected w' = (if d = Approve then w_rejected w else insert i (w_rejected w))"
    by (auto simp: w'_def take_decision_def m)
  have gated: "i \<in> w_gated w" "i \<notin> w_approved w" "i \<notin> w_rejected w" using ok i by (auto simp: life_defs)
  have "w_phase w (req_id n) = None" if "n \<ge> mn_next_seq (w_mon w)" for n
    using ok that by (simp add: life_defs)
  then have "ids_ok w'" using ok gated unfolding life_ok_def ids_ok_def w' by auto
  moreover have "waiting_ok w'" using ok i unfolding life_ok_def waiting_ok_def w' by auto
  moreover have "sent_ok w'" using ok unfolding life_ok_def sent_ok_def w' by auto
  ultimately show ?thesis by (simp add: life_ok_def w'_def)
qed

lemma life_ok_late [simp]: "life_ok (w\<lparr>w_late := l\<rparr>) = life_ok w"
  by (simp add: life_defs)

lemma life_ok_receive:
  assumes "life_ok w" and "w_phase w i = Some Held" and "w_chan w i = Some d"
  shows "life_ok (to_phase i (verdict_phase d) w)"
proof -
  have i: "i \<notin> waiters w" "i \<notin> set (w_sent w)" "w_chan w i \<noteq> None" using assms by (auto simp: life_defs)
  have "d = Approve \<Longrightarrow> i \<in> w_approved w" using assms by (auto simp: life_defs)
  then show ?thesis using assms i
    unfolding life_ok_def ids_ok_def waiting_ok_def sent_ok_def world_sel
    by (cases d) (auto simp: verdict_phase_def)
qed

lemma life_ok_wait:
  assumes "life_ok w" and "w_phase w i = Some p" and "p = Held \<and> w_chan w i = None \<or> p = Elapsed1"
    and "q = Elapsed1 \<or> q = Gone"
  shows "life_ok (to_phase i q w)"
proof -
  have "i \<notin> set (w_sent w)" using assms(1-3) by (auto simp: life_defs)
  then show ?thesis using assms
    unfolding life_ok_def ids_ok_def waiting_ok_def sent_ok_def world_sel by auto
qed

lemma life_ok_leave_held:
  assumes "life_ok w" and "w_phase w i = Some Held"
  shows "life_ok (to_phase i Gone w)"
proof (cases "w_chan w i")
  case None
  then show ?thesis using life_ok_wait [OF assms] by simp
next
  case (Some d)
  then have "i \<notin> waiters w" "i \<notin> set (w_sent w)" using assms by (auto simp: life_defs)
  then show ?thesis using assms Some
    unfolding life_ok_def ids_ok_def waiting_ok_def sent_ok_def world_sel by auto
qed

lemma life_ok_expire:
  assumes "life_ok w" and "w_phase w i = Some Elapsed1"
  shows "life_ok (to_phase i Elapsed2 (on_mon (timeout_take i) w))"
proof -
  have "i \<notin> set (w_sent w)" using assms by (auto simp: life_defs)
  then show ?thesis using assms
    unfolding life_ok_def ids_ok_def waiting_ok_def sent_ok_def world_sel
    by (auto simp: timeout_take_def)
qed

lemma life_ok_expired:
  assumes "life_ok w" and "w_phase w i = Some Elapsed2"
  shows "life_ok (to_phase i (Refused reason) (on_mon (timeout_mark now i) w))"
proof -
  have "i \<notin> waiters w" "i \<notin> set (w_sent w)" using assms by (auto simp: life_defs)
  then show ?thesis using assms
    unfolding life_ok_def ids_ok_def waiting_ok_def sent_ok_def world_sel by (auto simp: keeps)
qed

lemma life_ok_dispatch:
  assumes "life_ok w" and "w_phase w i = Some Cleared"
  shows "life_ok (to_phase i Sent (on_mon (record_dispatched now i) (w\<lparr>w_sent := i # w_sent w\<rparr>)))"
proof -
  have i: "i \<notin> waiters w" "i \<notin> set (w_sent w)" "i \<in> w_gated w \<longrightarrow> i \<in> w_approved w"
    using assms by (auto simp: life_defs)
  have "waiting_ok (w\<lparr>w_sent := i # w_sent w\<rparr>)" using assms i by (auto simp: life_defs)
  then show ?thesis using assms i
    unfolding life_ok_def ids_ok_def waiting_ok_def sent_ok_def world_sel by (auto simp: keeps)
qed

lemma life_ok_drop:
  "life_ok w \<Longrightarrow> w_phase w i = Some (Streaming g) \<Longrightarrow>
   life_ok (to_phase i Gone (on_mon (guard_drop X jw now g) w))"
  by (rule life_ok_move [where p = "Streaming g"], rule life_ok_mon) (simp_all add: keeps)

lemma life_ok_exec: "life_ok w \<Longrightarrow> exec X jw a w = Some w' \<Longrightarrow> life_ok w'"
proof (cases a)
  case (DecideTake i d)
  assume "life_ok w" "exec X jw a w = Some w'"
  then show ?thesis using life_ok_take by (auto simp: DecideTake)
next
  case (Receive i)
  assume "life_ok w" "exec X jw a w = Some w'"
  then show ?thesis using life_ok_receive
    by (auto simp: Receive split: option.splits phase.splits)
next
  case (Leave now i)
  assume "life_ok w" "exec X jw a w = Some w'"
  then show ?thesis
    by (auto simp: Leave keeps split: option.splits phase.splits
        intro: life_ok_leave_held life_ok_move life_ok_drop)
next
  case (StartStream i status manifest)
  assume "life_ok w" "exec X jw a w = Some w'"
  then show ?thesis by (auto simp: StartStream split: if_splits intro: life_ok_move)
next
  case (Chunk now i key kind label t)
  assume ok: "life_ok w" and "exec X jw a w = Some w'"
  then obtain g where g: "w_phase w i = Some (Streaming g)"
    and w': "w' = to_phase i (Streaming (fst (guard_capture X jw now key kind label t g (w_mon w))))
      (on_mon (\<lambda>m. snd (guard_capture X jw now key kind label t g m)) w)"
    by (auto simp: Chunk case_prod_unfold Let_def on_mon_def split: option.splits phase.splits)
  have "life_ok (on_mon (\<lambda>m. snd (guard_capture X jw now key kind label t g m)) w)"
    using ok by (rule life_ok_mon) (simp_all add: keeps)
  with g show ?thesis unfolding w' by (intro life_ok_move [where p = "Streaming g"]) simp_all
next
  case (FinishStream now i)
  assume ok: "life_ok w" and "exec X jw a w = Some w'"
  then show ?thesis
    by (auto simp: FinishStream keeps split: option.splits phase.splits intro!: life_ok_move life_ok_mon)
next
  case (BreakStream now i msg)
  assume ok: "life_ok w" and "exec X jw a w = Some w'"
  then show ?thesis
    by (auto simp: BreakStream keeps split: option.splits phase.splits intro!: life_ok_move life_ok_mon)
next
  case (Elapse i)
  assume "life_ok w" "exec X jw a w = Some w'"
  then show ?thesis by (auto simp: Elapse split: if_splits intro: life_ok_wait)
next
  case (UpstreamFail now i msg)
  assume "life_ok w" "exec X jw a w = Some w'"
  then show ?thesis by (auto simp: UpstreamFail keeps split: if_splits intro!: life_ok_move life_ok_mon)
next
  case (Reply now i status body manifest)
  assume "life_ok w" "exec X jw a w = Some w'"
  then show ?thesis by (auto simp: Reply keeps split: if_splits intro!: life_ok_move life_ok_mon)
next
  case (DecideMark now i d)
  assume "life_ok w" "exec X jw a w = Some w'"
  then show ?thesis by (auto simp: DecideMark keeps split: if_splits intro!: life_ok_mon)
qed (auto simp: keeps life_ok_arrive life_ok_expire life_ok_expired life_ok_dispatch
    intro!: life_ok_mon split: if_splits)

lemma life_ok_reaches: "reaches X jw w \<Longrightarrow> life_ok w"
  by (induction rule: reaches.induct) (auto intro: life_ok_new life_ok_exec)

section \<open>The gate\<close>

text \<open>
  C7: the approval gate.  In every reachable world, a body that arrived when the mode asked for its
  approval was sent upstream only if the operator approved it; a request the operator rejected was
  not sent; and no body was sent twice, however the requests, the operator, the timeouts and the
  clients that leave interleave.
\<close>

theorem approval_gate:
  assumes "reaches X jw w"
  shows "(\<forall>i\<in>set (w_sent w). i \<in> w_gated w \<longrightarrow> i \<in> w_approved w) \<and>
    set (w_sent w) \<inter> w_rejected w = {} \<and> distinct (w_sent w)"
proof -
  have ok: "ids_ok w" "sent_ok w" using life_ok_reaches [OF assms] by (simp_all add: life_ok_def)
  then have "i \<notin> w_rejected w" if "i \<in> set (w_sent w)" for i
    using that unfolding ids_ok_def sent_ok_def by blast
  with ok show ?thesis by (auto simp: sent_ok_def)
qed

section \<open>Progress\<close>

text \<open>The actions of the handler of a request while it waits.\<close>

fun waits_on :: "string \<Rightarrow> action \<Rightarrow> bool" where
  "waits_on i (Receive j) = (j = i)"
| "waits_on i (Elapse j) = (j = i)"
| "waits_on i (ExpireTake j) = (j = i)"
| "waits_on i (ExpireMark now j) = (j = i)"
| "waits_on i _ = False"

fun wait_rank :: "phase option \<Rightarrow> nat" where
  "wait_rank (Some Held) = 3"
| "wait_rank (Some Elapsed1) = 2"
| "wait_rank (Some Elapsed2) = 1"
| "wait_rank _ = 0"

lemma wait_step:
  assumes "life_ok w" and "exec X jw a w = Some w'" and "wait_rank (w_phase w i) > 0"
  shows "wait_rank (w_phase w' i) \<le> wait_rank (w_phase w i)"
    and "waits_on i a \<Longrightarrow> wait_rank (w_phase w' i) < wait_rank (w_phase w i)"
proof -
  have fresh: "w_phase w (req_id (mn_next_seq (w_mon w))) = None" using assms(1) by (simp add: life_defs)
  have arrive: "wait_rank (w_phase (arrive X jw now ep meth conv body manifest w) i) \<le> wait_rank (w_phase w i)"
    for now ep meth conv body manifest
  proof -
    obtain tk m' where r: "record_llm_request X jw now ep meth conv body manifest (w_mon w) = (tk, m')"
      by fastforce
    show ?thesis
      by (cases rule: record_llm_effect [OF r]) (use fresh assms(3) in \<open>auto simp: arrive_def r\<close>)
  qed
  show "wait_rank (w_phase w' i) \<le> wait_rank (w_phase w i)"
    using assms(2,3) arrive
    by (cases a) (auto simp: take_decision_def verdict_phase_def Let_def case_prod_unfold
        split: if_splits option.splits phase.splits approval_decision.split)
  show "wait_rank (w_phase w' i) < wait_rank (w_phase w i)" if "waits_on i a"
    using assms(2,3) that
    by (cases a) (auto simp: verdict_phase_def split: if_splits option.splits phase.splits approval_decision.split)
qed

lemma wait_enabled:
  assumes "wait_rank (w_phase w i) > 0"
  obtains a w' where "waits_on i a" "exec X jw a w = Some w'"
proof -
  consider (rx) d where "w_phase w i = Some Held" "w_chan w i = Some d"
    | (held) "w_phase w i = Some Held" "w_chan w i = None"
    | (el1) "w_phase w i = Some Elapsed1" | (el2) "w_phase w i = Some Elapsed2"
    using assms by (cases "w_phase w i" rule: wait_rank.cases; cases "w_chan w i") auto
  then show ?thesis
  proof cases
    case rx
    then show ?thesis using that [of "Receive i"] by simp
  next
    case held
    then show ?thesis using that [of "Elapse i"] by simp
  next
    case el1
    then show ?thesis using that [of "ExpireTake i"] by simp
  next
    case el2
    then show ?thesis using that [of "ExpireMark 0 i"] by simp
  qed
qed

text \<open>An endless schedule: an action or a pause at every instant.\<close>

definition schedule :: "'x ext_scheme \<Rightarrow> json_wire \<Rightarrow> (nat \<Rightarrow> action option) \<Rightarrow> (nat \<Rightarrow> world) \<Rightarrow> bool" where
  "schedule X jw acts ws \<longleftrightarrow>
     reaches X jw (ws 0) \<and>
     (\<forall>n. (case acts n of None \<Rightarrow> ws (Suc n) = ws n | Some a \<Rightarrow> exec X jw a (ws n) = Some (ws (Suc n))))"

lemma schedule_step:
  assumes "schedule X jw acts ws"
  shows "acts n = None \<Longrightarrow> ws (Suc n) = ws n"
    and "acts n = Some a \<Longrightarrow> exec X jw a (ws n) = Some (ws (Suc n))"
  using assms unfolding schedule_def by (auto dest: spec [of _ n])

lemma schedule_reaches: "schedule X jw acts ws \<Longrightarrow> reaches X jw (ws n)"
proof (induction n)
  case (Suc n)
  then have "case acts n of None \<Rightarrow> ws (Suc n) = ws n | Some a \<Rightarrow> exec X jw a (ws n) = Some (ws (Suc n))"
    unfolding schedule_def by blast
  with Suc show ?case by (auto split: option.splits intro: reaches.step)
qed (simp add: schedule_def)

text \<open>
  C8: a held request comes to an end.  In every schedule in which the handler of a request gets a
  turn again as long as the request waits (for which an action of the handler is always possible),
  the request leaves the gate: approved, refused, timed out or with its client gone.
\<close>

theorem held_request_ends:
  assumes "schedule X jw acts ws"
    and "\<And>n. wait_rank (w_phase (ws n) i) > 0 \<Longrightarrow> \<exists>m\<ge>n. \<exists>a. acts m = Some a \<and> waits_on i a"
  shows "(\<exists>m\<ge>n. wait_rank (w_phase (ws m) i) = 0) \<and>
    (wait_rank (w_phase (ws n) i) > 0 \<longrightarrow> (\<exists>a w'. waits_on i a \<and> exec X jw a (ws n) = Some w'))"
proof
  let ?rank = "\<lambda>n. wait_rank (w_phase (ws n) i)"
  have mono: "?rank (Suc n) \<le> ?rank n" if "?rank n > 0" for n
  proof (cases "acts n")
    case None
    then have "ws (Suc n) = ws n" using schedule_step [OF assms(1)] by blast
    then show ?thesis by simp
  next
    case (Some a)
    then have "exec X jw a (ws n) = Some (ws (Suc n))" using schedule_step [OF assms(1)] by blast
    then show ?thesis using wait_step(1) [OF life_ok_reaches] schedule_reaches [OF assms(1)] that by blast
  qed
  show "\<exists>m\<ge>n. ?rank m = 0"
  proof (induction "?rank n" arbitrary: n rule: less_induct)
    case less
    show ?case
    proof (cases "?rank n > 0")
      case True
      then obtain m a where m: "m \<ge> n" "acts m = Some a" "waits_on i a" using assms(2) by blast
      have "(\<exists>k\<ge>n. ?rank k = 0) \<or> ?rank m \<le> ?rank n"
        using m(1)
      proof (induction rule: dec_induct)
        case (step k)
        then show ?case using mono [of k] by (metis dual_order.trans neq0_conv)
      qed simp
      then show ?thesis
      proof
        assume le: "?rank m \<le> ?rank n"
        show ?thesis
        proof (cases "?rank m = 0")
          case False
          have "exec X jw a (ws m) = Some (ws (Suc m))"
            using schedule_step [OF assms(1)] m(2) by blast
          then have "?rank (Suc m) < ?rank m"
            using wait_step(2) [OF life_ok_reaches] schedule_reaches [OF assms(1)] m(3) False by blast
          then have "?rank (Suc m) < ?rank n" using le by simp
          then obtain k where "k \<ge> Suc m" "?rank k = 0" using less by blast
          then show ?thesis using m(1) by (intro exI [of _ k]) simp
        qed (use m in blast)
      qed
    qed auto
  qed
  show "?rank n > 0 \<longrightarrow> (\<exists>a w'. waits_on i a \<and> exec X jw a (ws n) = Some w')"
    using wait_enabled by metis
qed

end
