(* ===== verification/MonitorLedger.thy ===== *)
theory MonitorLedger
  imports MonitorGate
begin

text \<open>
  What the monitor keeps: the ledger of masked values (its cap, what it withholds and what survives
  an eviction), the bounds of its tables, and the delta of a turn.
\<close>

section \<open>The ledger\<close>

definition entry_ok :: "string \<times> token_ledger_entry \<Rightarrow> bool" where
  "entry_ok kv \<longleftrightarrow>
     tl_token (snd kv) = fst kv \<and> tl_peekable (snd kv) = is_peekable (tl_class (snd kv)) \<and>
     (\<not> tl_peekable (snd kv) \<longrightarrow> tl_value (snd kv) = [])"

definition ledger_ok :: "(string \<times> token_ledger_entry) list \<Rightarrow> bool" where
  "ledger_ok ledger \<longleftrightarrow> distinct (map fst ledger) \<and> list_all entry_ok ledger"

lemma set_update_sub: "set (AList.update k v al) \<subseteq> insert (k, v) (set al)"
  by (induction al) auto

lemma ledger_ok_update:
  "ledger_ok ledger \<Longrightarrow> entry_ok (h, t) \<Longrightarrow> ledger_ok (AList.update h t ledger)"
  using set_update_sub [of h t ledger] by (auto simp: ledger_ok_def distinct_update list_all_iff)

lemma entry_ok_resight: "entry_ok (h, t) \<Longrightarrow> entry_ok (h, resight now lane t)"
  by (simp add: entry_ok_def resight_def)

lemma entry_ok_new: "entry_ok (me_token_handle e, ledger_entry now lane e)"
  by (simp add: entry_ok_def ledger_entry_def Let_def)

lemma ledger_ok_ingest: "ledger_ok ledger \<Longrightarrow> ledger_ok (ingest_entry now prov e ledger)"
  unfolding ingest_entry_def Let_def
  by (rule ledger_ok_update)
    (auto simp: ledger_ok_def list_all_iff dest!: map_of_SomeD intro: entry_ok_resight entry_ok_new
      split: option.split)

lemma ledger_ok_ingests: "ledger_ok ledger \<Longrightarrow> ledger_ok (fold (ingest_entry now prov) manifest ledger)"
  by (induction manifest arbitrary: ledger) (auto intro: ledger_ok_ingest)

lemma ledger_ok_delete: "ledger_ok ledger \<Longrightarrow> ledger_ok (AList.delete k ledger)"
  by (auto simp: ledger_ok_def list_all_iff AList.delete_eq intro: distinct_map_filter)

section \<open>Eviction\<close>

lemma fold_delete:
  "fold (\<lambda>kv. AList.delete (tl_token (snd kv))) vs al = filter (\<lambda>kv. fst kv \<notin> (tl_token \<circ> snd) ` set vs) al"
proof (induction vs arbitrary: al)
  case (Cons v vs)
  have "filter (\<lambda>(k', _). tl_token (snd v) \<noteq> k') al = filter (\<lambda>kv. fst kv \<noteq> tl_token (snd v)) al"
    by (rule filter_cong) auto
  then show ?case by (simp add: Cons [unfolded AList.delete_eq] AList.delete_eq conj_commute)
qed simp

definition victims ::
  "unmask_manifest \<Rightarrow> (string \<times> token_ledger_entry) list \<Rightarrow> (string \<times> token_ledger_entry) list" where
  "victims manifest ledger =
     take (length ledger - MAX_SESSION_TOKENS) (sort_key (eviction_rank manifest) ledger)"

lemma victims_sub: "set (victims manifest ledger) \<subseteq> set ledger"
  unfolding victims_def by (metis set_sort set_take_subset)

lemma evict_eq:
  assumes "ledger_ok ledger"
  shows "evict_tokens manifest ledger = filter (\<lambda>kv. kv \<notin> set (victims manifest ledger)) ledger"
proof (cases "length ledger > MAX_SESSION_TOKENS")
  case True
  have key: "tl_token (snd kv) = fst kv" if "kv \<in> set ledger" for kv
    using assms that by (auto simp: ledger_ok_def list_all_iff entry_ok_def)
  have inj: "fst kv = fst kv' \<longleftrightarrow> kv = kv'" if "kv \<in> set ledger" "kv' \<in> set ledger" for kv kv'
    using assms that by (cases kv; cases kv') (auto simp: ledger_ok_def dest: eq_key_imp_eq_value)
  have "evict_tokens manifest ledger =
      filter (\<lambda>kv. fst kv \<notin> (tl_token \<circ> snd) ` set (victims manifest ledger)) ledger"
    using True by (simp add: evict_tokens_def fold_delete victims_def)
  also have "\<dots> = filter (\<lambda>kv. kv \<notin> set (victims manifest ledger)) ledger"
    using key inj victims_sub by (intro filter_cong) (auto simp: image_iff, metis subsetD)
  finally show ?thesis .
next
  case False
  then show ?thesis by (simp add: evict_tokens_def victims_def)
qed

lemma ledger_distinct: "ledger_ok ledger \<Longrightarrow> distinct ledger"
  by (auto simp: ledger_ok_def distinct_map)

lemma length_evict:
  assumes "ledger_ok ledger"
  shows "length (evict_tokens manifest ledger) = min (length ledger) MAX_SESSION_TOKENS"
proof -
  let ?v = "victims manifest ledger"
  have d: "distinct ledger" using assms by (rule ledger_distinct)
  have "length (evict_tokens manifest ledger) = card (set ledger - set ?v)"
    using d by (simp add: evict_eq [OF assms] distinct_length_filter set_diff_eq Int_def conj_commute)
  also have "\<dots> = length ledger - (length ledger - MAX_SESSION_TOKENS)"
    using d victims_sub [of manifest ledger]
    by (simp add: card_Diff_subset distinct_card victims_def)
  finally show ?thesis by auto
qed

lemma ledger_ok_evict: "ledger_ok ledger \<Longrightarrow> ledger_ok (evict_tokens manifest ledger)"
  by (auto simp: evict_eq ledger_ok_def list_all_iff distinct_map_filter)

text \<open>In a list sorted by rank, what is ranked last is not among the first ones if it fits.\<close>

lemma sorted_prefix:
  fixes f :: "'a \<Rightarrow> bool \<times> 'b::linorder"
  assumes "sorted (map f xs)" and "x \<in> set (take n xs)" and "fst (f x)"
  shows "length xs - n < length (filter (fst \<circ> f) xs)"
proof -
  obtain i where i: "i < n" "i < length xs" "x = xs ! i"
    using assms(2) by (auto simp: in_set_conv_nth)
  have "fst (f y)" if "y \<in> set (drop i xs)" for y
  proof -
    obtain k where "k < length xs - i" "y = xs ! (i + k)"
      using \<open>y \<in> set (drop i xs)\<close> by (auto simp: in_set_conv_nth)
    then obtain j where j: "i \<le> j" "j < length xs" "y = xs ! j"
      using i(2) that [of "i + k"] by simp
    then have "f x \<le> f y" using assms(1) i(3) by (simp add: sorted_iff_nth_mono)
    then show ?thesis using assms(3) by (cases "f x"; cases "f y") (auto simp: less_eq_prod_def)
  qed
  then have "filter (fst \<circ> f) (drop i xs) = drop i xs" by (simp add: filter_id_conv)
  then have "length xs - i \<le> length (filter (fst \<circ> f) xs)"
    using append_take_drop_id [of i xs] by (metis filter_append le_add2 length_append length_drop)
  with i show ?thesis by simp
qed

lemma current_survives:
  assumes ok: "ledger_ok ledger" and few: "card (me_token_handle ` set manifest) \<le> MAX_SESSION_TOKENS"
    and kv: "(h, t) \<in> set ledger" "h \<in> me_token_handle ` set manifest"
  shows "(h, t) \<in> set (evict_tokens manifest ledger)"
proof (rule ccontr)
  let ?f = "eviction_rank manifest" and ?n = "length ledger - MAX_SESSION_TOKENS"
  assume "(h, t) \<notin> set (evict_tokens manifest ledger)"
  then have v: "(h, t) \<in> set (take ?n (sort_key ?f ledger))"
    using kv by (simp add: evict_eq [OF ok] victims_def)
  have key: "tl_token (snd kv) = fst kv" if "kv \<in> set ledger" for kv
    using ok that by (auto simp: ledger_ok_def list_all_iff entry_ok_def)
  have cur: "fst (?f (h, t))" using kv key [OF kv(1)] by (simp add: eviction_rank_def)
  have "length ledger - ?n < length (filter (fst \<circ> ?f) (sort_key ?f ledger))"
    using sorted_prefix [OF sorted_sort_key v cur] by simp
  also have "\<dots> = length (filter (fst \<circ> ?f) ledger)"
    by (simp add: filter_sort)
  also have "\<dots> = card (fst ` set (filter (fst \<circ> ?f) ledger))"
    using ok distinct_card [of "map fst (filter (fst \<circ> ?f) ledger)"]
    by (simp add: ledger_ok_def distinct_map_filter)
  also have "\<dots> \<le> card (me_token_handle ` set manifest)"
    using key by (intro card_mono) (auto simp: eviction_rank_def)
  finally have "length ledger - ?n < MAX_SESSION_TOKENS" using few by simp
  moreover have "?n \<noteq> 0" using v by (cases "?n") auto
  ultimately show False by simp
qed

section \<open>Sightings\<close>

definition same_value :: "token_ledger_entry \<Rightarrow> token_ledger_entry \<Rightarrow> bool" where
  "same_value t t' \<longleftrightarrow>
     tl_value t = tl_value t' \<and> tl_class t = tl_class t' \<and> tl_peekable t = tl_peekable t' \<and>
     tl_first_seen_ms t = tl_first_seen_ms t'"

lemma ingest_keeps:
  "map_of ledger h = Some t \<Longrightarrow> \<exists>t'. map_of (ingest_entry now prov e ledger) h = Some t' \<and> same_value t t'"
  by (auto simp: ingest_entry_def Let_def same_value_def resight_def)

lemma ingests_keep:
  "map_of ledger h = Some t \<Longrightarrow>
   \<exists>t'. map_of (fold (ingest_entry now prov) manifest ledger) h = Some t' \<and> same_value t t'"
proof (induction manifest arbitrary: ledger t)
  case (Cons e manifest)
  obtain t1 where "map_of (ingest_entry now prov e ledger) h = Some t1" "same_value t t1"
    using ingest_keeps [OF Cons.prems] by blast
  then show ?case using Cons.IH by (fastforce simp: same_value_def)
qed (simp add: same_value_def)

lemma ingest_fresh:
  "\<exists>t. map_of (ingest_entry now prov e ledger) (me_token_handle e) = Some t \<and>
     (map_of ledger (me_token_handle e) = None \<longrightarrow> same_value (ledger_entry now (map_of prov (me_token_handle e)) e) t)"
  by (auto simp: ingest_entry_def Let_def same_value_def split: option.split)

lemma ingests_have:
  "e \<in> set manifest \<Longrightarrow> \<exists>t. map_of (fold (ingest_entry now prov) manifest ledger) (me_token_handle e) = Some t"
proof (induction manifest arbitrary: ledger)
  case (Cons a manifest)
  show ?case
  proof (cases "e = a")
    case True
    obtain t where "map_of (ingest_entry now prov a ledger) (me_token_handle a) = Some t"
      using ingest_fresh by blast
    from ingests_keep [OF this, of now prov manifest] show ?thesis using True by auto
  next
    case False
    then show ?thesis using Cons by simp
  qed
qed simp

lemma ingests_fresh:
  "map_of ledger h = None \<Longrightarrow> map_of (fold (ingest_entry now prov) manifest ledger) h = Some t \<Longrightarrow>
   \<exists>e\<in>set manifest. me_token_handle e = h \<and> same_value (ledger_entry now (map_of prov h) e) t"
proof (induction manifest arbitrary: ledger)
  case (Cons a manifest)
  show ?case
  proof (cases "me_token_handle a = h")
    case True
    obtain t1 where t1: "map_of (ingest_entry now prov a ledger) h = Some t1"
      "same_value (ledger_entry now (map_of prov h) a) t1"
      using ingest_fresh [of now prov a ledger] Cons.prems(1) True by auto
    from ingests_keep [OF t1(1), of now prov manifest] t1(2) Cons.prems(2) True
    show ?thesis by (auto simp: same_value_def)
  next
    case False
    then have "map_of (ingest_entry now prov a ledger) h = None"
      using Cons.prems(1) by (simp add: ingest_entry_def Let_def)
    then show ?thesis using Cons.IH Cons.prems(2) by simp
  qed
qed simp

lemma map_of_evicted:
  assumes "ledger_ok ledger" and "card (me_token_handle ` set manifest) \<le> MAX_SESSION_TOKENS"
    and "h \<in> me_token_handle ` set manifest" and "map_of ledger h = Some t"
  shows "map_of (evict_tokens manifest ledger) h = Some t"
proof -
  have "(h, t) \<in> set (evict_tokens manifest ledger)"
    using assms by (intro current_survives) (auto dest: map_of_SomeD)
  moreover have "distinct (map fst (evict_tokens manifest ledger))"
    using ledger_ok_evict [OF assms(1)] by (simp add: ledger_ok_def)
  ultimately show ?thesis by (simp add: map_of_is_SomeI)
qed

lemma ledger_sightings:
  assumes "ledger_ok (mn_session_tokens m)" and "e \<in> set manifest"
    and "card (me_token_handle ` set manifest) \<le> MAX_SESSION_TOKENS"
  shows "\<exists>t. map_of (mn_session_tokens (ingest_tokens_into manifest now prov m)) (me_token_handle e) = Some t \<and>
    (case map_of (mn_session_tokens m) (me_token_handle e) of
       Some t0 \<Rightarrow> same_value t0 t
     | None \<Rightarrow> (\<exists>e'\<in>set manifest. me_token_handle e' = me_token_handle e \<and>
          same_value (ledger_entry now (map_of prov (me_token_handle e)) e') t))"
proof -
  let ?h = "me_token_handle e" and ?l = "fold (ingest_entry now prov) manifest (mn_session_tokens m)"
  obtain t where t: "map_of ?l ?h = Some t" using ingests_have [OF assms(2)] by blast
  have "map_of (evict_tokens manifest ?l) ?h = Some t"
    using assms t by (intro map_of_evicted ledger_ok_ingests) auto
  moreover have "case map_of (mn_session_tokens m) ?h of
       Some t0 \<Rightarrow> same_value t0 t
     | None \<Rightarrow> \<exists>e'\<in>set manifest. me_token_handle e' = ?h \<and> same_value (ledger_entry now (map_of prov ?h) e') t"
    using ingests_keep [of "mn_session_tokens m" ?h _ now prov manifest] ingests_fresh [OF _ t] t
    by (fastforce split: option.split)
  ultimately show ?thesis by (simp add: ingest_tokens_into_def)
qed

text \<open>
  C28: the ledger records every masked value.  After a request was ingested, every value it masked is
  in the ledger, whatever was evicted for it, unless the request alone masked more distinct values
  than the cap; a value that was there before keeps its plaintext, its class and the time it was
  first seen, and a new one has those of its first entry in the manifest, without the plaintext
  when the class is not peekable.
\<close>

theorem ledger_keeps_current:
  assumes "ledger_ok (mn_session_tokens m)" and "e \<in> set manifest"
    and "card (me_token_handle ` set manifest) \<le> MAX_SESSION_TOKENS"
  shows "\<exists>t. map_of (mn_session_tokens (ingest_tokens_into manifest now prov m)) (me_token_handle e) = Some t \<and>
    (case map_of (mn_session_tokens m) (me_token_handle e) of
       Some t0 \<Rightarrow> same_value t0 t
     | None \<Rightarrow> (\<exists>e'\<in>set manifest. me_token_handle e' = me_token_handle e \<and>
          same_value (ledger_entry now (map_of prov (me_token_handle e)) e') t))"
  using assms by (rule ledger_sightings)

definition sample_pii :: manifest_entry where
  "sample_pii = \<lparr>me_canonical_form = ''ann'', me_token_handle = ''[PERSON_1]'', me_entity_kind = ''PERSON'',
     me_arrow_origin = UserMessage, me_exposed_at = None, me_broker = False, me_local = False\<rparr>"

theorem ledger_keeps_current_witness:
  "map_of (mn_session_tokens (ingest_tokens_into [sample_pii] 7 [] monitor_new)) ''[PERSON_1]'' \<noteq> None"
  using ledger_keeps_current [of monitor_new sample_pii "[sample_pii]" 7 "[]"]
  by (auto simp: ledger_ok_def monitor_new_def sample_pii_def MAX_SESSION_TOKENS_def)

text \<open>
  A value that becomes a secret stays readable.  The ledger takes the class of a handle from its
  first sighting: when the operator of its category is changed, so that later requests mark the
  same handle as one of a secret that only its owner or the broker may read, the snapshot goes on
  carrying the plaintext.  In the other order of the two sightings the plaintext is withheld.
\<close>

lemma ledger_forgets_to_withhold:
  assumes "map_of (mn_session_tokens m) (me_token_handle e) = None" and "ledger_ok (mn_session_tokens m)"
    and "\<not> secret_entry e" and "secret_entry e'" and "me_token_handle e' = me_token_handle e"
  shows "map_option (\<lambda>t. (tl_value t, tl_peekable t))
      (map_of (mn_session_tokens (ingest_session_tokens later [e'] (ingest_session_tokens now [e] m)))
        (me_token_handle e)) = Some (me_canonical_form e, True) \<and>
    map_option (\<lambda>t. (tl_value t, tl_peekable t))
      (map_of (mn_session_tokens (ingest_session_tokens later [e] (ingest_session_tokens now [e'] m)))
        (me_token_handle e)) = Some ([], False)"
proof -
  have cap: "card (me_token_handle ` set [x]) \<le> MAX_SESSION_TOKENS" for x :: manifest_entry
    by (simp add: MAX_SESSION_TOKENS_def)
  have two: "\<exists>t. map_of (mn_session_tokens (ingest_session_tokens later [b] (ingest_session_tokens now [a] m)))
      (me_token_handle e) = Some t \<and> same_value (ledger_entry now None a) t"
    if ab: "me_token_handle a = me_token_handle e" "me_token_handle b = me_token_handle e" for a b
  proof -
    let ?m = "ingest_tokens_into [a] now [] m"
    obtain t1 where t1: "map_of (mn_session_tokens ?m) (me_token_handle a) = Some t1"
      "same_value (ledger_entry now None a) t1"
      using ledger_sightings [OF assms(2) _ cap, of a a now "[]"] assms(1) ab by auto
    have "ledger_ok (mn_session_tokens ?m)"
      using assms(2) by (simp add: ingest_tokens_into_def ledger_ok_evict ledger_ok_ingest)
    from ledger_sightings [OF this _ cap, of b b later "[]"] t1 ab
    show ?thesis by (auto simp: ingest_session_tokens_def same_value_def)
  qed
  show ?thesis
    using two [of e e'] two [of e' e] assms(3-5) by (auto simp: same_value_def ledger_entry_def)
qed

theorem ledger_forgets_to_withhold_witness:
  "map_option tl_value
     (map_of (mn_session_tokens
        (ingest_session_tokens 2 [sample_pii\<lparr>me_local := True\<rparr>] (ingest_session_tokens 1 [sample_pii] monitor_new)))
       ''[PERSON_1]'') = Some ''ann''"
proof -
  have "map_option (\<lambda>t. (tl_value t, tl_peekable t))
     (map_of (mn_session_tokens
        (ingest_session_tokens 2 [sample_pii\<lparr>me_local := True\<rparr>] (ingest_session_tokens 1 [sample_pii] monitor_new)))
       (me_token_handle sample_pii)) = Some (me_canonical_form sample_pii, True)"
    by (rule conjunct1 [OF ledger_forgets_to_withhold])
      (simp_all add: ledger_ok_def monitor_new_def sample_pii_def secret_entry_def ENTITY_CVV_def)
  then show ?thesis by (auto simp: sample_pii_def)
qed

end
