(* ===== verification/MonitorRaces.thy ===== *)
theory MonitorRaces
  imports MonitorGate
begin

text \<open>
  What the monitor does not keep: the verdict of a finished request against a decision that is
  marked late, the answer to the operator against the ring of records, and the slots of the
  approval queue against clients that leave.
\<close>

section \<open>Records in the ring\<close>

definition decision_of :: "string \<Rightarrow> world \<Rightarrow> request_decision option" where
  "decision_of i w = map_option rec_decision (find_record i (w_mon w))"

lemma find_update_first:
  "(\<And>r. rec_id (f r) = rec_id r) \<Longrightarrow>
   find (\<lambda>r. rec_id r = i) (update_first f i rs) = map_option f (find (\<lambda>r. rec_id r = i) rs)"
  by (induction rs) auto

lemma find_update_record:
  "(\<And>r. rec_id (f r) = rec_id r) \<Longrightarrow>
   find_record i (update_record now i f m) =
     map_option (\<lambda>r. (f r)\<lparr>rec_updated_ms := now\<rparr>) (find_record i m)"
  unfolding find_record_def update_record_def by (simp add: find_update_first)

lemma find_dispatched:
  "find_record i (record_dispatched now i m) = map_option (\<lambda>r.
     (if rec_decision r = AutoAccepted \<or> rec_decision r = Approved
      then r\<lparr>rec_decision := InFlight, rec_dispatched_ms := Some now\<rparr> else r)\<lparr>rec_updated_ms := now\<rparr>)
   (find_record i m)"
  unfolding record_dispatched_def by (rule find_update_record) simp

lemma find_marked:
  "find_record i (snd (decide_mark now i d m)) =
     map_option (\<lambda>r. (mark_decided d r)\<lparr>rec_updated_ms := now\<rparr>) (find_record i m)"
  unfolding decide_mark_def by (simp add: find_update_record mark_decided_def split: approval_decision.split)

lemma find_unless_terminal:
  assumes "\<And>r. rec_id (g r) = rec_id r" and "\<And>r. rec_decision (g r) = d"
  obtains f where
    "\<And>r. rec_decision (f r) = (if decision_terminal (rec_decision r) then rec_decision r else d)"
    "find_record i (update_record now i (unless_terminal g) m) = map_option f (find_record i m)"
proof (rule that [of "\<lambda>r. (unless_terminal g r)\<lparr>rec_updated_ms := now\<rparr>"])
  show "find_record i (update_record now i (unless_terminal g) m) =
      map_option (\<lambda>r. (unless_terminal g r)\<lparr>rec_updated_ms := now\<rparr>) (find_record i m)"
    by (rule find_update_record) (simp add: unless_terminal_def assms(1))
qed (simp add: unless_terminal_def assms(2))

lemma find_response:
  obtains f where "\<And>r. rec_decision (f r) = (if decision_terminal (rec_decision r) then rec_decision r else Completed)"
    "find_record i (record_response X jw now i status body manifest m) = map_option f (find_record i m)"
proof -
  obtain g where g: "record_response X jw now i status body manifest m = update_record now i (unless_terminal g) m"
    "\<And>r. rec_id (g r) = rec_id r" "\<And>r. rec_decision (g r) = Completed"
    by (rule that [unfolded record_response_def Let_def, OF refl]) simp_all
  show ?thesis
    by (rule find_unless_terminal [OF g(2,3), of i now m]) (rule that, assumption, simp only: g(1))
qed

lemma find_take [simp]: "find_record i (m\<lparr>mn_waiters := ws\<rparr>) = find_record i m"
  by (simp add: find_record_def)

section \<open>A late mark\<close>

text \<open>
  A finished request is reopened.  The operator approves a held request, which is released, sent
  and answered before the call of the operator marks the record: the dispatch does not mark it
  either, since it is still pending, and the late mark turns the completed record back into an
  approved one that was never dispatched.
\<close>

lemma late_mark_reopens:
  assumes "w_phase w i = Some Held" and "i \<in> waiters w"
    and "find_record i (w_mon w) = Some r" and "rec_decision r = Pending"
  shows "\<exists>w1 w2. run_actions X jw
      [DecideTake i Approve, Receive i, Dispatch now i, Reply later i status body manifest] w = Some w1 \<and>
    decision_of i w1 = Some Completed \<and>
    exec X jw (DecideMark now' i Approve) w1 = Some w2 \<and> decision_of i w2 = Some Approved"
proof -
  let ?m = "(w_mon w)\<lparr>mn_waiters := removeAll i (mn_waiters (w_mon w))\<rparr>"
  let ?m1 = "record_dispatched now i ?m"
  let ?m2 = "record_response X jw later i status (Some body) manifest ?m1"
  define w0 where "w0 = take_decision i Approve ?m w"
  define w1 where "w1 = to_phase i Done (on_mon (record_response X jw later i status (Some body) manifest)
    (to_phase i Sent (on_mon (record_dispatched now i)
      ((to_phase i Cleared w0)\<lparr>w_sent := i # w_sent w0\<rparr>))))"
  have m0: "decide_take i (w_mon w) = Some ?m" using assms(2) by (simp add: decide_take_def)
  have w0: "w_phase w0 = w_phase w" "w_chan w0 i = Some Approve" "w_mon w0 = ?m" "(i, Approve) \<in> set (w_late w0)"
    using assms(1) by (simp_all add: w0_def take_decision_def)
  have run: "run_actions X jw
      [DecideTake i Approve, Receive i, Dispatch now i, Reply later i status body manifest] w = Some w1"
    using assms(1) w0 by (simp add: m0 w0_def [symmetric] verdict_phase_def w1_def)
  have mon: "w_mon w1 = ?m2" "w_late w1 = w_late w0" by (simp_all add: w1_def w0)
  have d1: "map_option rec_decision (find_record i ?m1) = Some Pending"
    using assms(3,4) by (simp add: find_dispatched)
  obtain f where
    "\<And>r. rec_decision (f r) = (if decision_terminal (rec_decision r) then rec_decision r else Completed)"
    "find_record i ?m2 = map_option f (find_record i ?m1)"
    by (rule find_response) (rule that, assumption+)
  with d1 have d2: "map_option rec_decision (find_record i ?m2) = Some Completed" by auto
  then have "map_option rec_decision (find_record i (snd (decide_mark now' i Approve ?m2))) = Some Approved"
    by (auto simp: find_marked mark_decided_def)
  then show ?thesis
    using run d2 w0(4) by (intro exI [of _ w1] exI conjI) (simp_all only: exec.simps mon if_True decision_of_def world_sel refl option.sel simp_thms, simp_all add: mon)
qed

section \<open>Records that left the ring\<close>

fun is_arrival :: "action \<Rightarrow> bool" where
  "is_arrival (Arrive now endpoint method conversation body manifest) = True"
| "is_arrival _ = False"

lemma run_actions_snoc: "run_actions X jw (as @ [a]) w = Option.bind (run_actions X jw as w) (exec X jw a)"
  by (induction as arbitrary: w) (simp_all add: Option.bind_assoc cong: Option.bind_cong split: Option.bind_split)

lemma arrive_new:
  assumes "life_ok w" and w'_def: "w' = arrive X jw now ep meth conv body manifest w"
  obtains r where "mn_records (w_mon w') = push_record r (mn_records (w_mon w))"
    "w_phase w (rec_id r) = None" "waiters w \<subseteq> waiters w'" "w_chan w' = w_chan w" "w_late w' = w_late w"
    "\<And>i. w_phase w i \<noteq> None \<Longrightarrow> w_phase w' i = w_phase w i" "w_phase w' (rec_id r) \<noteq> None"
proof -
  obtain tk m' where r: "record_llm_request X jw now ep meth conv body manifest (w_mon w) = (tk, m')"
    by fastforce
  show ?thesis
  proof (cases rule: record_llm_effect [OF r])
    case (1 rec)
    have fresh: "w_phase w (tk_id tk) = None" using assms(1) 1(1) by (simp add: life_defs)
    show ?thesis
      by (rule that [of rec]) (use 1 fresh in \<open>auto simp: w'_def arrive_def r\<close>)
  qed
qed

lemma arrivals_fill:
  assumes "list_all is_arrival as" and "life_ok w" and "as \<noteq> []"
  shows "\<exists>w'. run_actions X jw as w = Some w' \<and> life_ok w' \<and>
    length (mn_records (w_mon w')) \<le> MAX_RECORDS \<and>
    (\<forall>r\<in>set (take (length as) (mn_records (w_mon w'))). w_phase w (rec_id r) = None) \<and>
    (\<forall>i. w_phase w i \<noteq> None \<longrightarrow> w_phase w' i = w_phase w i) \<and> waiters w \<subseteq> waiters w' \<and>
    w_chan w' = w_chan w \<and> w_late w' = w_late w"
  using assms
proof (induction as rule: rev_induct)
  case (snoc a as)
  have pre: "list_all is_arrival as" using snoc.prems(1) by simp
  obtain w1 where w1: "run_actions X jw as w = Some w1" "life_ok w1"
    "\<forall>r\<in>set (take (length as) (mn_records (w_mon w1))). w_phase w (rec_id r) = None"
    "\<forall>i. w_phase w i \<noteq> None \<longrightarrow> w_phase w1 i = w_phase w i" "waiters w \<subseteq> waiters w1"
    "w_chan w1 = w_chan w" "w_late w1 = w_late w"
  proof (cases "as = []")
    case True
    then show ?thesis using that [of w] snoc.prems(2) by simp
  next
    case False
    from snoc.IH [OF pre snoc.prems(2) this] show ?thesis using that by blast
  qed
  obtain now ep meth conv body manifest where a: "a = Arrive now ep meth conv body manifest"
    using snoc.prems(1) by (cases a) simp_all
  let ?w = "arrive X jw now ep meth conv body manifest w1"
  obtain r where r: "mn_records (w_mon ?w) = push_record r (mn_records (w_mon w1))"
    "w_phase w1 (rec_id r) = None" "waiters w1 \<subseteq> waiters ?w" "w_chan ?w = w_chan w1"
    "w_late ?w = w_late w1" "\<And>i. w_phase w1 i \<noteq> None \<Longrightarrow> w_phase ?w i = w_phase w1 i"
    by (rule arrive_new [OF w1(2) refl]) (rule that, assumption+)
  have "run_actions X jw (as @ [a]) w = Some ?w" by (simp add: run_actions_snoc w1(1) a)
  moreover have "\<forall>r\<in>set (take (length (as @ [a])) (mn_records (w_mon ?w))). w_phase w (rec_id r) = None"
  proof -
    have "w_phase w (rec_id r) = None" using r(2) w1(4) by (metis not_None_eq)
    moreover have "set (take (Suc n) (take k (r # l))) \<subseteq> insert r (set (take n l))" for n k l
      using set_take_subset_set_take [of "min (Suc n) k" "Suc n" "r # l"] by simp
    ultimately show ?thesis
      using w1(3) unfolding r(1) push_record_def length_append_singleton by blast
  qed
  moreover have "length (mn_records (w_mon ?w)) \<le> MAX_RECORDS" by (simp add: r(1) push_record_def)
  ultimately show ?case
    using life_ok_arrive [OF w1(2)] w1(4,5,6,7) r(3-6) by (intro exI [of _ ?w]) auto
qed simp

text \<open>
  An approval reported as an error.  A held request whose record left the ring of records
  (after as many later requests as the ring holds) still waits: the approval of the operator
  releases it and its body is sent, but the answer to the operator is that the id is unknown.
\<close>

lemma evicted_record_decided_as_unknown:
  assumes "reaches X jw w" and "w_phase w i = Some Held" and "i \<in> waiters w"
    and "list_all is_arrival as" and "MAX_RECORDS \<le> length as"
  shows "\<exists>w1 w2. run_actions X jw as w = Some w1 \<and>
    fst (decide_request now i Approve (w_mon w1)) = Inl Unknown \<and>
    run_actions X jw [DecideTake i Approve, Receive i, Dispatch later i] w1 = Some w2 \<and>
    i \<in> set (w_sent w2)"
proof -
  have ok: "life_ok w" using assms(1) by (rule life_ok_reaches)
  have "as \<noteq> []" using assms(5) by (auto simp: MAX_RECORDS_def)
  from arrivals_fill [OF assms(4) ok this, of X jw] obtain w1 where w1:
    "run_actions X jw as w = Some w1" "length (mn_records (w_mon w1)) \<le> MAX_RECORDS"
    "\<forall>r\<in>set (take (length as) (mn_records (w_mon w1))). w_phase w (rec_id r) = None"
    "w_phase w1 i = Some Held" "i \<in> waiters w1"
    using assms(2,3) by force
  have "find_record i (w_mon w1) = None"
    using w1(2,3) assms(2,5) by (auto simp: find_record_def find_None_iff)
  then have "fst (decide_request now i Approve (w_mon w1)) = Inl Unknown"
    using w1(5) by (simp add: decide_request_def decide_take_def decide_mark_def updated_def)
  then show ?thesis
    using w1(1,4,5) by (auto simp: decide_take_def take_decision_def verdict_phase_def)
qed

section \<open>Clients that leave\<close>

lemma ops_keep_max [keeps]:
  "mn_max_pending_approvals (update_record now i f m) = mn_max_pending_approvals m"
  "mn_max_pending_approvals (record_response X jw now i status body manifest m) = mn_max_pending_approvals m"
  "mn_max_pending_approvals (record_response_progress now i status preview surfaces m) = mn_max_pending_approvals m"
  "mn_max_pending_approvals (complete_response now i status prev surfaces m) = mn_max_pending_approvals m"
  "mn_max_pending_approvals (record_dispatched now i m) = mn_max_pending_approvals m"
  "mn_max_pending_approvals (record_aborted now i m) = mn_max_pending_approvals m"
  "mn_max_pending_approvals (record_upstream_error now i msg m) = mn_max_pending_approvals m"
  "mn_max_pending_approvals (snd (update_tags now i tags m)) = mn_max_pending_approvals m"
  "mn_max_pending_approvals (snd (decide_mark now i d m)) = mn_max_pending_approvals m"
  "mn_max_pending_approvals (timeout_mark now i m) = mn_max_pending_approvals m"
  "mn_max_pending_approvals (timeout_take i m) = mn_max_pending_approvals m"
  "mn_max_pending_approvals (ingest_tokens_into manifest now prov m) = mn_max_pending_approvals m"
  "mn_max_pending_approvals (ingest_session_tokens now manifest m) = mn_max_pending_approvals m"
  "mn_max_pending_approvals (snd (guard_capture X jw now key kind label t g m)) = mn_max_pending_approvals m"
  "mn_max_pending_approvals (snd (guard_complete X jw now g m)) = mn_max_pending_approvals m"
  "mn_max_pending_approvals (snd (guard_upstream_error X jw now msg g m)) = mn_max_pending_approvals m"
  "mn_max_pending_approvals (guard_drop X jw now g m) = mn_max_pending_approvals m"
  by (simp_all add: update_record_def record_response_def record_response_progress_def
      complete_response_def record_dispatched_def record_aborted_def record_upstream_error_def
      update_tags_def decide_mark_def timeout_mark_def timeout_take_def ingest_tokens_into_def
      ingest_session_tokens_def persist_partial_def guard_capture_def flush_progress_def
      guard_complete_def guard_upstream_error_def guard_drop_def Let_def case_prod_unfold
      split: option.split)

fun frees :: "string set \<Rightarrow> action \<Rightarrow> bool" where
  "frees G (DecideTake i d) = (i \<in> G)"
| "frees G (SetMode mode max_pending) = True"
| "frees G _ = False"

lemma gone_keeps_slot:
  assumes "life_ok w" and "exec X jw a w = Some w'" and "\<not> frees G a"
    and "\<forall>i\<in>G. i \<in> waiters w \<and> w_phase w i = Some Gone"
  shows "(\<forall>i\<in>G. i \<in> waiters w' \<and> w_phase w' i = Some Gone) \<and>
    mn_max_pending_approvals (w_mon w') = mn_max_pending_approvals (w_mon w)"
proof (cases a)
  case (Arrive now ep meth conv body manifest)
  obtain tk m' where r: "record_llm_request X jw now ep meth conv body manifest (w_mon w) = (tk, m')"
    by fastforce
  have fresh: "w_phase w (req_id (mn_next_seq (w_mon w))) = None" using assms(1) by (simp add: life_defs)
  show ?thesis
    by (cases rule: record_llm_effect [OF r]) (use assms(2,4) fresh in \<open>auto simp: Arrive arrive_def r\<close>)
qed (use assms(2-4) in \<open>auto simp: keeps decide_take_def take_decision_def timeout_take_def
    Let_def case_prod_unfold split: if_splits option.splits phase.splits\<close>)

text \<open>
  Slots of the approval queue are lost.  A client that leaves while its request is held keeps
  its slot: once as many requests were left as the queue has slots, every later request that is to
  be held is refused, whatever else happens, as long as the operator neither decides one of the
  requests nobody waits for nor changes the mode.
\<close>

lemma abandoned_slots_block:
  assumes "reaches X jw w" and "\<forall>i\<in>G. i \<in> waiters w \<and> w_phase w i = Some Gone"
    and "mn_max_pending_approvals (w_mon w) \<le> card G"
    and "run_actions X jw as w = Some w'" and "list_all (\<lambda>a. \<not> frees G a) as"
    and "should_hold (mn_mode (w_mon w')) manifest"
  shows "w_phase (arrive X jw now ep meth conv body manifest w') (req_id (mn_next_seq (w_mon w'))) =
    Some (Refused (pending_limit_reason (mn_max_pending_approvals (w_mon w))))"
proof -
  have kept: "(\<forall>i\<in>G. i \<in> waiters w' \<and> w_phase w' i = Some Gone) \<and>
    mn_max_pending_approvals (w_mon w') = mn_max_pending_approvals (w_mon w)"
    using life_ok_reaches [OF assms(1)] assms(2,4,5)
  proof (induction as arbitrary: w)
    case (Cons a as)
    then obtain v where v: "exec X jw a w = Some v" "run_actions X jw as v = Some w'"
      by (auto simp: bind_eq_Some_conv)
    note slot = gone_keeps_slot [OF Cons.prems(1) v(1) _ Cons.prems(2)]
    have "life_ok v" using Cons.prems(1) v(1) by (rule life_ok_exec)
    then show ?case using Cons.IH [of v] v(2) slot Cons.prems(4) by simp
  qed simp
  then have "card G \<le> card (waiters w')" by (intro card_mono) auto
  also have "\<dots> \<le> length (mn_waiters (w_mon w'))" by (rule card_length)
  finally have full: "mn_max_pending_approvals (w_mon w') \<le> length (mn_waiters (w_mon w'))"
    using assms(3) kept by simp
  obtain tk m' where r: "record_llm_request X jw now ep meth conv body manifest (w_mon w') = (tk, m')"
    by fastforce
  show ?thesis
    by (cases rule: record_llm_effect [OF r])
      (use full kept assms(6) in \<open>simp add: arrive_def r ticket_phase_def\<close>)
qed

section \<open>Concrete worlds\<close>

definition sample_json :: json_wire where
  "sample_json = \<lparr>jw_parse = (\<lambda>s. None), jw_print = (\<lambda>v. None)\<rparr>"

definition manual_world :: "nat option \<Rightarrow> world" where
  "manual_world slots = on_mon (set_mode ManualAllLlm slots) world_new"

definition held_world :: "nat option \<Rightarrow> world" where
  "held_world slots =
     arrive sample_ext sample_json 0 ''/v1/messages'' ''POST'' None ''{}'' [] (manual_world slots)"

lemma manual_world: "reaches sample_ext sample_json (manual_world slots)"
  by (rule reaches.step [OF reaches.start, where a = "SetMode ManualAllLlm slots"])
    (simp add: manual_world_def)

lemma held_world:
  assumes "slots = None \<or> slots = Some 1"
  shows "reaches sample_ext sample_json (held_world slots)"
    and "w_phase (held_world slots) ''req-1'' = Some Held" and "w_chan (held_world slots) = Map.empty"
    and "mn_waiters (w_mon (held_world slots)) = [''req-1'']"
    and "w_gated (held_world slots) = {''req-1''}" and "w_sent (held_world slots) = []"
    and "\<exists>r. find_record ''req-1'' (w_mon (held_world slots)) = Some r \<and> rec_decision r = Pending"
    and "mn_max_pending_approvals (w_mon (held_world slots)) = (case slots of None \<Rightarrow> DEFAULT_MAX_PENDING_APPROVALS | Some n \<Rightarrow> n)"
    and "mn_mode (w_mon (held_world slots)) = ManualAllLlm"
proof -
  show "reaches sample_ext sample_json (held_world slots)"
    unfolding held_world_def by (rule reaches.step [OF manual_world [of slots]]) (subst exec.simps, rule refl)
  let ?m = "w_mon (manual_world slots)"
  obtain tk m' where r: "record_llm_request sample_ext sample_json 0 ''/v1/messages'' ''POST'' None ''{}'' [] ?m = (tk, m')"
    by fastforce
  have id: "req_id 1 = ''req-1''" by code_simp
  have mw: "mn_next_seq ?m = 1" "mn_mode ?m = ManualAllLlm" "mn_waiters ?m = []" "mn_records ?m = []"
    "mn_max_pending_approvals ?m = (case slots of None \<Rightarrow> DEFAULT_MAX_PENDING_APPROVALS | Some n \<Rightarrow> n)"
    "w_chan (manual_world slots) = Map.empty" "w_gated (manual_world slots) = {}"
    "w_sent (manual_world slots) = []"
    using assms by (auto simp: manual_world_def world_new_def monitor_new_def set_mode_def Let_def)
  have free: "\<not> mn_max_pending_approvals ?m \<le> length (mn_waiters ?m)"
    using assms by (auto simp: mw DEFAULT_MAX_PENDING_APPROVALS_def)
  have hold: "should_hold (mn_mode ?m) []" by (simp add: should_hold_def mw)
  obtain rec where tk: "tk_id tk = ''req-1''" "tk_held tk" "mn_waiters m' = [''req-1'']"
      "mn_records m' = push_record rec []" "rec_id rec = ''req-1''" "rec_decision rec = Pending"
      "mn_max_pending_approvals m' = mn_max_pending_approvals ?m" "mn_mode m' = ManualAllLlm"
  proof (cases rule: record_llm_effect [OF r])
    case (1 rec)
    have "tk_held tk" using 1(3) free hold by blast
    then show ?thesis using 1 free hold that [of rec] unfolding mw(1-4) id by simp
  qed
  have held: "held_world slots = to_phase ''req-1'' Held ((manual_world slots)\<lparr>w_mon := m', w_gated := {''req-1''}\<rparr>)"
    using tk(1,2) hold by (simp add: held_world_def arrive_def r ticket_phase_def mw(7) Let_def)
  show "w_phase (held_world slots) ''req-1'' = Some Held"
    "w_chan (held_world slots) = Map.empty"
    "mn_waiters (w_mon (held_world slots)) = [''req-1'']"
    "w_gated (held_world slots) = {''req-1''}" "w_sent (held_world slots) = []"
    "mn_max_pending_approvals (w_mon (held_world slots)) = (case slots of None \<Rightarrow> DEFAULT_MAX_PENDING_APPROVALS | Some n \<Rightarrow> n)"
    "mn_mode (w_mon (held_world slots)) = ManualAllLlm"
    by (simp_all add: held tk mw)
  show "\<exists>r. find_record ''req-1'' (w_mon (held_world slots)) = Some r \<and> rec_decision r = Pending"
    by (simp add: held tk find_record_def push_record_def MAX_RECORDS_def)
qed

definition released_world :: world where
  "released_world = the (run_actions sample_ext sample_json
     [DecideTake ''req-1'' Approve, Receive ''req-1'', Dispatch 5 ''req-1''] (held_world None))"

lemma released_world:
  "run_actions sample_ext sample_json
     [DecideTake ''req-1'' Approve, Receive ''req-1'', Dispatch 5 ''req-1''] (held_world None) = Some released_world"
  "w_sent released_world = [''req-1'']" "w_gated released_world = {''req-1''}"
  unfolding released_world_def
  by (simp_all add: held_world decide_take_def take_decision_def verdict_phase_def)

theorem approval_gate_witness:
  "w_sent released_world = [''req-1''] \<and> ''req-1'' \<in> w_gated released_world \<and>
   ''req-1'' \<in> w_approved released_world"
proof -
  have "reaches sample_ext sample_json released_world"
    using reaches_run released_world(1) held_world(1) [of None] by blast
  from approval_gate [OF this] show ?thesis by (simp add: released_world)
qed

text \<open>The schedule of a held request that nobody decides.\<close>

definition timeout_acts :: "nat \<Rightarrow> action option" where
  "timeout_acts n =
     (if n = 0 then Some (Elapse ''req-1'') else if n = 1 then Some (ExpireTake ''req-1'')
      else if n = 2 then Some (ExpireMark 600 ''req-1'') else None)"

primrec timeout_worlds :: "nat \<Rightarrow> world" where
  "timeout_worlds 0 = held_world None"
| "timeout_worlds (Suc n) =
     (case timeout_acts n of
        None \<Rightarrow> timeout_worlds n
      | Some a \<Rightarrow> the (exec sample_ext sample_json a (timeout_worlds n)))"

lemma timeout_phases:
  "w_phase (timeout_worlds 0) ''req-1'' = Some Held" "w_chan (timeout_worlds 0) ''req-1'' = None"
  "w_phase (timeout_worlds (Suc 0)) ''req-1'' = Some Elapsed1"
  "w_phase (timeout_worlds (Suc (Suc 0))) ''req-1'' = Some Elapsed2"
  "w_phase (timeout_worlds (Suc (Suc (Suc n)))) ''req-1'' = Some (Refused ''approval timed out'')"
  by (induction n) (simp_all add: timeout_acts_def held_world)

lemma timeout_schedule: "schedule sample_ext sample_json timeout_acts timeout_worlds"
proof -
  have "case timeout_acts n of None \<Rightarrow> timeout_worlds (Suc n) = timeout_worlds n
      | Some a \<Rightarrow> exec sample_ext sample_json a (timeout_worlds n) = Some (timeout_worlds (Suc n))" for n
    using timeout_phases
    by (cases n; cases "n - 1"; cases "n - 2") (simp_all add: timeout_acts_def held_world numeral_2_eq_2)
  then show ?thesis by (simp add: schedule_def held_world)
qed

theorem held_request_ends_witness:
  "w_phase (timeout_worlds 0) ''req-1'' = Some Held \<and>
   (\<exists>m\<ge>0. wait_rank (w_phase (timeout_worlds m) ''req-1'') = 0)"
proof -
  have turn: "\<exists>m\<ge>n. \<exists>a. timeout_acts m = Some a \<and> waits_on ''req-1'' a"
    if "wait_rank (w_phase (timeout_worlds n) ''req-1'') > 0" for n
  proof -
    have "n < 3"
    proof (rule ccontr)
      assume "\<not> n < 3"
      then obtain k where "n = Suc (Suc (Suc k))"
        by (cases n; cases "n - 1"; cases "n - 2") auto
      with that show False by (simp only: timeout_phases wait_rank.simps)
    qed
    then show ?thesis by (intro exI [of _ n] conjI) (auto simp: timeout_acts_def)
  qed
  from held_request_ends [OF timeout_schedule turn] timeout_phases(1) show ?thesis by blast
qed

theorem late_mark_reopens_witness:
  "\<exists>w1 w2. run_actions sample_ext sample_json
      [DecideTake ''req-1'' Approve, Receive ''req-1'', Dispatch 5 ''req-1'', Reply 9 ''req-1'' 200 ''{}'' []]
      (held_world None) = Some w1 \<and>
    decision_of ''req-1'' w1 = Some Completed \<and>
    exec sample_ext sample_json (DecideMark 10 ''req-1'' Approve) w1 = Some w2 \<and>
    decision_of ''req-1'' w2 = Some Approved"
proof -
  obtain r where "find_record ''req-1'' (w_mon (held_world None)) = Some r" "rec_decision r = Pending"
    using held_world(7) [of None] by blast
  from _ _ this show ?thesis by (rule late_mark_reopens) (simp_all add: held_world)
qed

theorem evicted_record_decided_as_unknown_witness:
  "\<exists>w1 w2. run_actions sample_ext sample_json
      (replicate 500 (Arrive 1 ''/v1/messages'' ''POST'' None ''{}'' [])) (held_world None) = Some w1 \<and>
    fst (decide_request 2 ''req-1'' Approve (w_mon w1)) = Inl Unknown \<and>
    run_actions sample_ext sample_json
      [DecideTake ''req-1'' Approve, Receive ''req-1'', Dispatch 3 ''req-1''] w1 = Some w2 \<and>
    ''req-1'' \<in> set (w_sent w2)"
proof (rule evicted_record_decided_as_unknown [of _ _ "held_world None"])
  show "list_all is_arrival (replicate 500 (Arrive 1 ''/v1/messages'' ''POST'' None ''{}'' []))"
    by (simp add: list_all_iff)
qed (simp_all add: held_world MAX_RECORDS_def)

definition abandoned_world :: world where
  "abandoned_world = to_phase ''req-1'' Gone (held_world (Some 1))"

theorem abandoned_slots_block_witness:
  "w_phase (arrive sample_ext sample_json 9 ''/v1/messages'' ''POST'' None ''{}'' [] abandoned_world)
     (req_id (mn_next_seq (w_mon abandoned_world))) = Some (Refused (pending_limit_reason 1))"
proof -
  have "exec sample_ext sample_json (Leave 3 ''req-1'') (held_world (Some 1)) = Some abandoned_world"
    by (simp add: held_world abandoned_world_def)
  then have "reaches sample_ext sample_json abandoned_world"
    using held_world(1) [of "Some 1"] reaches.step by blast
  moreover have "mn_max_pending_approvals (w_mon abandoned_world) = 1"
    "mn_waiters (w_mon abandoned_world) = [''req-1'']" "mn_mode (w_mon abandoned_world) = ManualAllLlm"
    "w_phase abandoned_world ''req-1'' = Some Gone"
    using held_world [of "Some 1"] by (simp_all add: abandoned_world_def)
  ultimately show ?thesis
    using abandoned_slots_block [of sample_ext sample_json abandoned_world "{''req-1''}" "[]" abandoned_world "[]"]
    by (simp add: should_hold_def)
qed

end
