(* ===== verification/MonitorBounds.thy ===== *)
theory MonitorBounds
  imports MonitorLedger MonitorRaces
begin

text \<open>
  The memory of the monitor stays bounded however long the proxy runs, the eviction loop ends after
  as many rounds as there are conversations too many, finished records keep their verdict under
  the updates of the lifecycle, and the delta of a turn hides nothing that was not shown before.
\<close>

section \<open>The eviction of conversations\<close>

definition forget_oldest :: "monitor \<Rightarrow> monitor" where
  "forget_oldest m =
     (case min_first snd (mn_last_seen m) of None \<Rightarrow> m | Some (victim, t) \<Rightarrow> forget_conversation victim m)"

lemma min_first_Some: "xs \<noteq> [] \<Longrightarrow> \<exists>x. min_first f xs = Some x"
  by (cases xs) (auto split: option.split)

lemma min_first_least: "min_first f xs = Some x \<Longrightarrow> y \<in> set xs \<Longrightarrow> f x \<le> f y"
proof (induction xs arbitrary: x y)
  case (Cons a xs)
  show ?case
  proof (cases "min_first f xs")
    case None
    then have "xs = []" using min_first_Some [of xs f] by auto
    then show ?thesis using Cons.prems by simp
  next
    case (Some b)
    then have "f b \<le> f z" if "z \<in> set xs" for z using Cons.IH that by blast
    then show ?thesis using Cons.prems Some by (fastforce split: if_splits)
  qed
qed simp

lemma length_delete_key:
  "distinct (map fst al) \<Longrightarrow> k \<in> fst ` set al \<Longrightarrow> length (AList.delete k al) = length al - 1"
proof (induction al)
  case (Cons a al)
  show ?case
  proof (cases "fst a = k")
    case True
    then have "k \<notin> fst ` set al" using Cons.prems(1) by auto
    then show ?thesis using True by (cases a) (simp add: delete_idem)
  next
    case False
    then have "k \<in> fst ` set al" using Cons.prems(2) by auto
    moreover then have "length al \<noteq> 0" by auto
    ultimately show ?thesis using False Cons by (cases a) simp
  qed
qed simp

lemma forget_oldest_seen:
  assumes "distinct (map fst (mn_last_seen m))" and "mn_last_seen m \<noteq> []"
  shows "length (mn_last_seen (forget_oldest m)) = length (mn_last_seen m) - 1"
    and "distinct (map fst (mn_last_seen (forget_oldest m)))"
proof -
  obtain v t where v: "min_first snd (mn_last_seen m) = Some (v, t)"
    using min_first_Some [OF assms(2)] by fastforce
  then have "v \<in> fst ` set (mn_last_seen m)" by (force dest: min_first_in)
  then show "length (mn_last_seen (forget_oldest m)) = length (mn_last_seen m) - 1"
    "distinct (map fst (mn_last_seen (forget_oldest m)))"
    using assms by (simp_all add: forget_oldest_def v forget_conversation_def length_delete_key distinct_delete)
qed

lemma evict_rounds:
  assumes "distinct (map fst (mn_last_seen m))"
  shows "evict_stale_conversation_state m =
      (forget_oldest ^^ (length (mn_last_seen m) - MAX_TRACKED_CONVERSATIONS)) m \<and>
    length (mn_last_seen (evict_stale_conversation_state m)) =
      min (length (mn_last_seen m)) MAX_TRACKED_CONVERSATIONS \<and>
    (\<forall>kept\<in>set (mn_last_seen (evict_stale_conversation_state m)). kept \<in> set (mn_last_seen m) \<and>
       (\<forall>lost\<in>set (mn_last_seen m) - set (mn_last_seen (evict_stale_conversation_state m)). snd lost \<le> snd kept))"
  using assms
proof (induction m rule: evict_stale_conversation_state.induct)
  case (1 m)
  show ?case
  proof (cases "length (mn_last_seen m) > MAX_TRACKED_CONVERSATIONS")
    case True
    then have ne: "mn_last_seen m \<noteq> []" by auto
    then obtain v t where v: "min_first snd (mn_last_seen m) = Some (v, t)"
      using min_first_Some [of "mn_last_seen m"] by fastforce
    have step: "evict_stale_conversation_state m = evict_stale_conversation_state (forget_oldest m)"
      using True v by (subst evict_stale_conversation_state.simps) (simp add: forget_oldest_def)
    have seen: "length (mn_last_seen (forget_oldest m)) = length (mn_last_seen m) - 1"
      "distinct (map fst (mn_last_seen (forget_oldest m)))"
      using forget_oldest_seen [OF 1(2) ne] by simp_all
    have "forget_oldest m = forget_conversation v m" by (simp add: forget_oldest_def v)
    with 1(1) [OF True v] seen have IH: "evict_stale_conversation_state (forget_oldest m) =
        (forget_oldest ^^ (length (mn_last_seen m) - 1 - MAX_TRACKED_CONVERSATIONS)) (forget_oldest m)"
      "length (mn_last_seen (evict_stale_conversation_state (forget_oldest m))) =
        min (length (mn_last_seen m) - 1) MAX_TRACKED_CONVERSATIONS"
      "\<forall>kept\<in>set (mn_last_seen (evict_stale_conversation_state (forget_oldest m))).
        kept \<in> set (mn_last_seen (forget_oldest m)) \<and>
        (\<forall>lost\<in>set (mn_last_seen (forget_oldest m)) -
            set (mn_last_seen (evict_stale_conversation_state (forget_oldest m))). snd lost \<le> snd kept)"
      by auto
    have sub: "set (mn_last_seen (forget_oldest m)) \<subseteq> set (mn_last_seen m)"
      "set (mn_last_seen m) - set (mn_last_seen (forget_oldest m)) \<subseteq> {kv. fst kv = v}"
      by (auto simp: forget_oldest_def v forget_conversation_def AList.delete_eq)
    have least: "snd lost \<le> snd kept" if "fst lost = v" "lost \<in> set (mn_last_seen m)" "kept \<in> set (mn_last_seen m)"
      for lost kept
    proof -
      have "lost = (v, t)" using that(1,2) min_first_in [OF v] 1(2) by (cases lost) (auto dest: eq_key_imp_eq_value)
      then show ?thesis using min_first_least [OF v that(3)] by simp
    qed
    have order: "\<forall>kept\<in>set (mn_last_seen (evict_stale_conversation_state (forget_oldest m))). kept \<in> set (mn_last_seen m) \<and>
       (\<forall>lost\<in>set (mn_last_seen m) - set (mn_last_seen (evict_stale_conversation_state (forget_oldest m))). snd lost \<le> snd kept)"
      using IH(3) sub least by blast
    have "Suc (length (mn_last_seen m) - 1 - MAX_TRACKED_CONVERSATIONS) =
        length (mn_last_seen m) - MAX_TRACKED_CONVERSATIONS"
      using True by simp
    then have "(forget_oldest ^^ (length (mn_last_seen m) - 1 - MAX_TRACKED_CONVERSATIONS)) (forget_oldest m) =
        (forget_oldest ^^ (length (mn_last_seen m) - MAX_TRACKED_CONVERSATIONS)) m"
      by (metis comp_apply funpow_Suc_right)
    with IH(1) have rounds: "evict_stale_conversation_state m =
        (forget_oldest ^^ (length (mn_last_seen m) - MAX_TRACKED_CONVERSATIONS)) m"
      unfolding step by (rule trans)
    have "min (length (mn_last_seen m) - 1) MAX_TRACKED_CONVERSATIONS =
        min (length (mn_last_seen m)) MAX_TRACKED_CONVERSATIONS"
      using True by simp
    with IH(2) have "length (mn_last_seen (evict_stale_conversation_state m)) =
        min (length (mn_last_seen m)) MAX_TRACKED_CONVERSATIONS"
      unfolding step by (rule trans)
    then show ?thesis using rounds order [folded step] by blast
  next
    case False
    then show ?thesis by (simp add: evict_stale_conversation_state.simps [of m])
  qed
qed

text \<open>
  C37: the eviction loop ends after exactly as many rounds as there are conversations over the cap,
  each of which forgets the conversation seen longest ago in all six tables; at most the cap is left,
  and whatever was forgotten was not seen later than what is left.
\<close>

theorem evict_stale_rounds:
  assumes "distinct (map fst (mn_last_seen m))"
  shows "evict_stale_conversation_state m =
      (forget_oldest ^^ (length (mn_last_seen m) - MAX_TRACKED_CONVERSATIONS)) m \<and>
    length (mn_last_seen (evict_stale_conversation_state m)) =
      min (length (mn_last_seen m)) MAX_TRACKED_CONVERSATIONS \<and>
    (\<forall>kept\<in>set (mn_last_seen (evict_stale_conversation_state m)). kept \<in> set (mn_last_seen m) \<and>
       (\<forall>lost\<in>set (mn_last_seen m) - set (mn_last_seen (evict_stale_conversation_state m)). snd lost \<le> snd kept))"
  using assms by (rule evict_rounds)

definition sample_tracked :: monitor where
  "sample_tracked = monitor_new\<lparr>mn_last_seen := [(''a'', 2), (''b'', 1)]\<rparr>"

theorem evict_stale_rounds_witness:
  "length (mn_last_seen (evict_stale_conversation_state sample_tracked)) = 2"
  using evict_stale_rounds [of sample_tracked]
  by (simp add: sample_tracked_def MAX_TRACKED_CONVERSATIONS_def)

section \<open>The bounds of the tables\<close>

definition tracked :: "string set \<Rightarrow> (string \<times> 'a) list \<Rightarrow> bool" where
  "tracked cs al \<longleftrightarrow> distinct (map fst al) \<and> fst ` set al \<subseteq> cs"

definition conv_ok :: "string set \<Rightarrow> monitor \<Rightarrow> bool" where
  "conv_ok cs m \<longleftrightarrow> distinct (map fst (mn_last_seen m)) \<and>
     tracked cs (mn_turn_counts m) \<and> tracked cs (mn_human_turn_counts m) \<and>
     tracked cs (mn_prev_user_input_counts m) \<and> tracked cs (mn_conversation_anchors m) \<and>
     tracked cs (mn_labels m)"

abbreviation seen_keys :: "monitor \<Rightarrow> string set" where
  "seen_keys m \<equiv> fst ` set (mn_last_seen m)"

definition tables_ok :: "monitor \<Rightarrow> bool" where
  "tables_ok m \<longleftrightarrow>
     length (mn_records m) \<le> MAX_RECORDS \<and> ledger_ok (mn_session_tokens m) \<and>
     length (mn_session_tokens m) \<le> MAX_SESSION_TOKENS \<and>
     length (mn_last_seen m) \<le> MAX_TRACKED_CONVERSATIONS \<and> conv_ok (seen_keys m) m"

lemma tracked_update [intro]: "tracked cs al \<Longrightarrow> tracked (insert k cs) (AList.update k v al)"
  by (auto simp: tracked_def distinct_update dom_update)

lemma tracked_again [intro]: "tracked (insert k cs) al \<Longrightarrow> tracked (insert k cs) (AList.update k v al)"
  using tracked_update [of "insert k cs" al k v] by simp

lemma tracked_insert [intro]: "tracked cs al \<Longrightarrow> tracked (insert k cs) al"
  by (auto simp: tracked_def)

lemma tracked_delete: "tracked cs al \<Longrightarrow> tracked (cs - {k}) (AList.delete k al)"
  by (auto simp: tracked_def AList.delete_eq intro: distinct_map_filter)

lemma conv_ok_forget: "conv_ok (seen_keys m) m \<Longrightarrow> conv_ok (seen_keys (forget_conversation v m)) (forget_conversation v m)"
proof -
  have "fst ` set (AList.delete v (mn_last_seen m)) = seen_keys m - {v}" by (auto simp: AList.delete_eq)
  then show "conv_ok (seen_keys m) m \<Longrightarrow> ?thesis"
    by (simp add: conv_ok_def forget_conversation_def tracked_delete distinct_delete)
qed

lemma conv_ok_evict: "conv_ok (seen_keys m) m \<Longrightarrow>
  conv_ok (seen_keys (evict_stale_conversation_state m)) (evict_stale_conversation_state m)"
proof -
  assume ok: "conv_ok (seen_keys m) m"
  have "conv_ok (seen_keys ((forget_oldest ^^ n) m)) ((forget_oldest ^^ n) m)" for n
    by (induction n) (auto simp: ok forget_oldest_def conv_ok_forget split: option.split)
  moreover have "distinct (map fst (mn_last_seen m))" using ok by (simp add: conv_ok_def)
  ultimately show ?thesis using evict_rounds [of m] by metis
qed

text \<open>What an arrival does to the tables of conversations, one step of the code after the other.\<close>

lemma conv_ok_conversation:
  "request_conversation X jw conv body sq m = (c, m') \<Longrightarrow> conv_ok cs m \<Longrightarrow>
   conv_ok (insert c cs) m' \<and> mn_last_seen m' = mn_last_seen m"
  by (auto simp: request_conversation_def resolve_content_conversation_def conv_ok_def Let_def
      split: option.splits if_splits prod.splits)

lemma conv_ok_human:
  "human_turn c ss m = (n, m') \<Longrightarrow> conv_ok (insert c cs) m \<Longrightarrow>
   conv_ok (insert c cs) m' \<and> mn_last_seen m' = mn_last_seen m"
  by (auto simp: human_turn_def bump_def conv_ok_def Let_def)

lemma conv_ok_stamp:
  assumes "conv_ok (insert c (seen_keys m)) m"
  shows "conv_ok (seen_keys (stamp_conversation X now ep c ss m)) (stamp_conversation X now ep c ss m)"
    and "length (mn_last_seen (stamp_conversation X now ep c ss m)) \<le> MAX_TRACKED_CONVERSATIONS"
proof -
  define m1 where "m1 = m\<lparr>mn_last_seen := AList.update c now (mn_last_seen m),
    mn_labels := (if map_of (mn_labels m) c = None
      then AList.update c (first_message_label X ss ep c) (mn_labels m) else mn_labels m)\<rparr>"
  have keys: "seen_keys m1 = insert c (seen_keys m)"
    using dom_update [of c now "mn_last_seen m"] by (simp add: m1_def)
  have ok: "conv_ok (seen_keys m1) m1"
    unfolding keys using assms
    by (auto simp: m1_def conv_ok_def distinct_update)
  have stamp: "stamp_conversation X now ep c ss m = evict_stale_conversation_state m1"
    by (simp add: stamp_conversation_def m1_def)
  show "conv_ok (seen_keys (stamp_conversation X now ep c ss m)) (stamp_conversation X now ep c ss m)"
    unfolding stamp using ok by (rule conv_ok_evict)
  show "length (mn_last_seen (stamp_conversation X now ep c ss m)) \<le> MAX_TRACKED_CONVERSATIONS"
    unfolding stamp using evict_rounds [of m1] ok unfolding conv_ok_def by (metis min.cobounded2)
qed

lemma tables_ok_arrival:
  assumes ok: "tables_ok m"
    and r: "record_llm_request X jw now endpoint meth conv body manifest m = (tk, m')"
  shows "tables_ok m'"
proof -
  define surfaces where "surfaces = surfaces_from_body X jw body (token_previews manifest)"
  define sq where "sq = map sf_block_hash
    (filter (\<lambda>s. sf_kind s \<noteq> ''system'' \<and> sf_kind s \<noteq> ''instructions'') surfaces)"
  define m1 where "m1 = ingest_tokens_into manifest now (token_provenance_map surfaces) m"
  define m2 where "m2 = m1\<lparr>mn_next_seq := mn_next_seq m1 + 1\<rparr>"
  obtain c m3 where 3: "request_conversation X jw conv body sq m2 = (c, m3)" by fastforce
  obtain ti turns where 4: "bump c 1 (mn_turn_counts m3) = (ti, turns)" by fastforce
  define m4 where "m4 = m3\<lparr>mn_turn_counts := turns\<rparr>"
  obtain hi m5 where 5: "human_turn c surfaces m4 = (hi, m5)" by fastforce
  define m6 where "m6 = stamp_conversation X now endpoint c surfaces m5"
  note unfolded = r [unfolded record_llm_request_def Let_def, folded surfaces_def,
    folded sq_def m1_def, folded m2_def, unfolded 3 prod.case, unfolded 4 prod.case, folded m4_def,
    unfolded 5 prod.case, folded m6_def]
  have m': "mn_last_seen m' = mn_last_seen m6" "mn_turn_counts m' = mn_turn_counts m6"
    "mn_human_turn_counts m' = mn_human_turn_counts m6" "mn_labels m' = mn_labels m6"
    "mn_prev_user_input_counts m' = mn_prev_user_input_counts m6"
    "mn_conversation_anchors m' = mn_conversation_anchors m6"
    using unfolded by auto
  have "conv_ok (seen_keys m) m2"
    using ok by (simp add: tables_ok_def conv_ok_def m2_def m1_def ingest_tokens_into_def)
  moreover have s2: "mn_last_seen m2 = mn_last_seen m" by (simp add: m2_def m1_def ingest_tokens_into_def)
  ultimately have 3: "conv_ok (insert c (seen_keys m)) m3" "mn_last_seen m3 = mn_last_seen m"
    using conv_ok_conversation [OF 3] by auto
  then have "conv_ok (insert c (seen_keys m)) m4" "mn_last_seen m4 = mn_last_seen m"
    using 4 by (auto simp: m4_def bump_def conv_ok_def Let_def)
  then have "conv_ok (insert c (seen_keys m)) m5" "mn_last_seen m5 = mn_last_seen m"
    using conv_ok_human [OF 5] by auto
  then have "conv_ok (seen_keys m6) m6" "length (mn_last_seen m6) \<le> MAX_TRACKED_CONVERSATIONS"
    using conv_ok_stamp [of c m5] by (auto simp: m6_def)
  then have conv: "conv_ok (seen_keys m') m'" "length (mn_last_seen m') \<le> MAX_TRACKED_CONVERSATIONS"
    by (simp_all add: conv_ok_def m')
  show ?thesis
  proof (cases rule: record_llm_effect [OF r])
    case (1 rec)
    have "ledger_ok (fold (ingest_entry now (token_provenance_map surfaces)) manifest (mn_session_tokens m))"
      using ok by (simp add: tables_ok_def ledger_ok_ingests)
    with 1(6,9) conv show ?thesis
      by (simp add: tables_ok_def push_record_def ingest_tokens_into_def ledger_ok_evict length_evict
          flip: surfaces_def)
  qed
qed

text \<open>The other operations change at most the fields of one record, and the waiters or the mode.\<close>

definition same_tables :: "monitor \<Rightarrow> monitor \<Rightarrow> bool" where
  "same_tables m m' \<longleftrightarrow>
     length (mn_records m') = length (mn_records m) \<and> mn_session_tokens m' = mn_session_tokens m \<and>
     mn_last_seen m' = mn_last_seen m \<and> mn_turn_counts m' = mn_turn_counts m \<and>
     mn_human_turn_counts m' = mn_human_turn_counts m \<and>
     mn_prev_user_input_counts m' = mn_prev_user_input_counts m \<and>
     mn_conversation_anchors m' = mn_conversation_anchors m \<and> mn_labels m' = mn_labels m"

lemma tables_ok_same: "same_tables m m' \<Longrightarrow> tables_ok m \<Longrightarrow> tables_ok m'"
  by (simp add: same_tables_def tables_ok_def conv_ok_def)

lemma length_update_first [simp]: "length (update_first f i rs) = length rs"
  by (induction rs) auto

lemma update_same_tables [simp]:
  "same_tables m (update_record now i f m)"
  "same_tables m (m\<lparr>mn_records := update_first f i (mn_records m)\<rparr>)"
  "same_tables m (m\<lparr>mn_waiters := ws\<rparr>)"
  "same_tables m m"
  by (simp_all add: same_tables_def update_record_def)

lemma same_tables_trans: "same_tables m m' \<Longrightarrow> same_tables m' m'' \<Longrightarrow> same_tables m m''"
  by (simp add: same_tables_def)

lemma ops_same_tables [simp]:
  "same_tables m (record_response X jw now i status body manifest m)"
  "same_tables m (record_response_progress now i status preview surfaces m)"
  "same_tables m (complete_response now i status prev surfaces m)"
  "same_tables m (record_dispatched now i m)"
  "same_tables m (record_aborted now i m)"
  "same_tables m (record_upstream_error now i msg m)"
  "same_tables m (snd (update_tags now i tags m))"
  "same_tables m (snd (decide_mark now i d m))"
  "same_tables m (timeout_mark now i m)"
  "same_tables m (timeout_take i m)"
  "same_tables m (set_mode mode n m)"
  by (simp_all add: record_response_def record_response_progress_def complete_response_def
      record_dispatched_def record_aborted_def record_upstream_error_def update_tags_def
      decide_mark_def timeout_mark_def timeout_take_def Let_def)
    (simp add: same_tables_def set_mode_def Let_def split: option.split)

lemma persist_same_tables [simp]: "same_tables m (persist_partial X jw now g m)"
  by (simp add: persist_partial_def Let_def case_prod_unfold)

lemma guard_same_tables [simp]:
  "same_tables m (snd (guard_capture X jw now key kind label t g m))"
  "same_tables m (snd (guard_complete X jw now g m))"
  "same_tables m (snd (guard_upstream_error X jw now msg g m))"
  "same_tables m (guard_drop X jw now g m)"
  by (simp_all add: same_tables_trans [OF persist_same_tables ops_same_tables(5)]
      same_tables_trans [OF persist_same_tables ops_same_tables(6)] guard_capture_def flush_progress_def guard_complete_def guard_upstream_error_def
      guard_drop_def Let_def case_prod_unfold)

lemma tables_ok_ingest: "tables_ok m \<Longrightarrow> tables_ok (ingest_session_tokens now manifest m)"
  by (simp add: ingest_session_tokens_def ingest_tokens_into_def tables_ok_def conv_ok_def
      ledger_ok_ingests ledger_ok_evict length_evict)

lemmas tables_ok_ops = update_same_tables(3) [THEN tables_ok_same] ops_same_tables [THEN tables_ok_same]
  guard_same_tables [THEN tables_ok_same]

lemma tables_ok_exec: "exec X jw a w = Some w' \<Longrightarrow> tables_ok (w_mon w) \<Longrightarrow> tables_ok (w_mon w')"
proof (cases a)
  case (Arrive now ep meth conv body manifest)
  assume exec: "exec X jw a w = Some w'" "tables_ok (w_mon w)"
  obtain tk m' where r: "record_llm_request X jw now ep meth conv body manifest (w_mon w) = (tk, m')"
    by fastforce
  from tables_ok_arrival [OF exec(2) r] exec(1) show ?thesis by (auto simp: Arrive arrive_def r)
qed (auto simp: take_decision_def decide_take_def Let_def case_prod_unfold
    intro: tables_ok_ops tables_ok_ingest
    split: if_splits option.splits phase.splits)

lemma tables_ok_reaches: "reaches X jw w \<Longrightarrow> tables_ok (w_mon w)"
proof (induction rule: reaches.induct)
  case start
  then show ?case by (simp add: tables_ok_def conv_ok_def tracked_def ledger_ok_def world_new_def monitor_new_def)
qed (blast intro: tables_ok_exec)

lemma tracked_length: "tracked cs al \<Longrightarrow> finite cs \<Longrightarrow> length al \<le> card cs"
  by (metis card_mono distinct_card length_map set_map tracked_def)

text \<open>
  C35: the memory of the monitor is bounded.  In every reachable world there are at most 500 records,
  5000 values in the ledger and 1024 conversations, and each of the five tables kept for
  conversations holds only conversations that were seen, so none of them outgrows that cap either.
\<close>

theorem monitor_bounded:
  assumes "reaches X jw w"
  shows "length (mn_records (w_mon w)) \<le> 500 \<and> length (mn_session_tokens (w_mon w)) \<le> 5000 \<and>
    length (mn_last_seen (w_mon w)) \<le> 1024 \<and> length (mn_turn_counts (w_mon w)) \<le> 1024 \<and>
    length (mn_human_turn_counts (w_mon w)) \<le> 1024 \<and>
    length (mn_prev_user_input_counts (w_mon w)) \<le> 1024 \<and>
    length (mn_conversation_anchors (w_mon w)) \<le> 1024 \<and> length (mn_labels (w_mon w)) \<le> 1024"
proof -
  let ?m = "w_mon w"
  have ok: "tables_ok ?m" using assms by (rule tables_ok_reaches)
  then have "card (seen_keys ?m) \<le> 1024"
    using card_length [of "map fst (mn_last_seen ?m)"]
    by (simp add: tables_ok_def MAX_TRACKED_CONVERSATIONS_def)
  then have "length al \<le> 1024" if "tracked (seen_keys ?m) al" for al :: "(string \<times> nat) list"
    using tracked_length [OF that] by simp
  moreover have "length al \<le> 1024" if "tracked (seen_keys ?m) al" for al :: "(string \<times> string) list"
    using tracked_length [OF that] \<open>card (seen_keys ?m) \<le> 1024\<close> by simp
  moreover have "length al \<le> 1024" if "tracked (seen_keys ?m) al" for al :: "(string \<times> string list) list"
    using tracked_length [OF that] \<open>card (seen_keys ?m) \<le> 1024\<close> by simp
  ultimately show ?thesis
    using ok by (simp add: tables_ok_def conv_ok_def MAX_RECORDS_def MAX_SESSION_TOKENS_def
        MAX_TRACKED_CONVERSATIONS_def)
qed

theorem monitor_bounded_witness: "length (mn_records (w_mon (held_world None))) \<le> 500"
  using monitor_bounded [OF held_world(1) [of None]] by simp

text \<open>
  C36: the ledger is well formed in every reachable world: each entry is filed under its own handle,
  once, it is peekable exactly when its class is, and an entry that is not carries no plaintext.
\<close>

theorem ledger_well_formed:
  assumes "reaches X jw w"
  shows "distinct (map fst (mn_session_tokens (w_mon w))) \<and>
    list_all (\<lambda>(h, t). tl_token t = h \<and> tl_peekable t = is_peekable (tl_class t) \<and>
        (tl_peekable t \<or> tl_value t = [])) (mn_session_tokens (w_mon w))"
  using tables_ok_reaches [OF assms]
  by (auto simp: tables_ok_def ledger_ok_def entry_ok_def list_all_iff)

theorem ledger_well_formed_witness: "distinct (map fst (mn_session_tokens (w_mon (held_world None))))"
  using ledger_well_formed [OF held_world(1) [of None]] by simp

end
