(* ===== verification/MonitorVerdict.thy ===== *)
theory MonitorVerdict
  imports MonitorBounds
begin

text \<open>
  Finished records keep their verdict and their reply under every action but a decision that is
  marked late, and the delta of a turn hides nothing that no earlier record showed.
\<close>

section \<open>Finished records\<close>

definition outcome :: "request_record \<Rightarrow> request_decision \<times> nat option \<times> string option \<times> msurface list" where
  "outcome r = (rec_decision r, rec_response_status r, rec_response_preview r, rec_response_surfaces r)"

text \<open>An update that keeps ids and the outcome of finished records.\<close>

definition harmless :: "(request_record \<Rightarrow> request_record) \<Rightarrow> bool" where
  "harmless f \<longleftrightarrow> (\<forall>r. rec_id (f r) = rec_id r \<and>
     (decision_terminal (rec_decision r) \<longrightarrow> outcome (f r) = outcome r))"

definition keeps_outcomes :: "monitor \<Rightarrow> monitor \<Rightarrow> bool" where
  "keeps_outcomes m m' \<longleftrightarrow> map rec_id (mn_records m') = map rec_id (mn_records m) \<and>
     (\<forall>i r. find_record i m = Some r \<longrightarrow> decision_terminal (rec_decision r) \<longrightarrow>
        (\<exists>r'. find_record i m' = Some r' \<and> outcome r' = outcome r))"

lemma map_update_first:
  "(\<And>r. rec_id (f r) = rec_id r) \<Longrightarrow> map rec_id (update_first f i rs) = map rec_id rs"
  by (induction rs) auto

lemma find_update_other:
  "(\<And>r. rec_id (f r) = rec_id r) \<Longrightarrow> i \<noteq> j \<Longrightarrow>
   find (\<lambda>r. rec_id r = j) (update_first f i rs) = find (\<lambda>r. rec_id r = j) rs"
  by (induction rs) auto

lemma keeps_update_first:
  assumes "harmless f"
  shows "keeps_outcomes m (m\<lparr>mn_records := update_first f i (mn_records m)\<rparr>)"
proof -
  have id: "\<And>r. rec_id (f r) = rec_id r" using assms by (simp add: harmless_def)
  have "\<exists>r'. find (\<lambda>r. rec_id r = j) (update_first f i (mn_records m)) = Some r' \<and> outcome r' = outcome r"
    if "find_record j m = Some r" "decision_terminal (rec_decision r)" for j r
    using that assms find_update_first [of f i "mn_records m", OF id] find_update_other [of f i j "mn_records m", OF id]
    by (cases "i = j") (auto simp: find_record_def harmless_def)
  then show ?thesis by (simp add: keeps_outcomes_def map_update_first id find_record_def)
qed

lemma harmless_stamped: "harmless f \<Longrightarrow> harmless (\<lambda>r. (f r)\<lparr>rec_updated_ms := now\<rparr>)"
  by (simp add: harmless_def outcome_def)

lemma keeps_update: "harmless f \<Longrightarrow> keeps_outcomes m (update_record now i f m)"
  unfolding update_record_def by (rule keeps_update_first) (rule harmless_stamped)

lemma harmless_unless: "(\<And>r. rec_id (f r) = rec_id r) \<Longrightarrow> harmless (unless_terminal f)"
  by (simp add: harmless_def unless_terminal_def)

lemma keeps_refl [simp]: "keeps_outcomes m m"
  by (simp add: keeps_outcomes_def)

lemma keeps_trans: "keeps_outcomes m m' \<Longrightarrow> keeps_outcomes m' m'' \<Longrightarrow> keeps_outcomes m m''"
  unfolding keeps_outcomes_def by (metis outcome_def prod.inject)

lemma keeps_fields [simp]:
  "mn_records m' = mn_records m \<Longrightarrow> keeps_outcomes m m'"
  by (simp add: keeps_outcomes_def find_record_def)

lemma ops_keep_outcomes [simp]:
  "keeps_outcomes m (record_response X jw now i status body manifest m)"
  "keeps_outcomes m (record_response_progress now i status preview surfaces m)"
  "keeps_outcomes m (complete_response now i status prev surfaces m)"
  "keeps_outcomes m (record_dispatched now i m)"
  "keeps_outcomes m (record_aborted now i m)"
  "keeps_outcomes m (record_upstream_error now i msg m)"
  "keeps_outcomes m (snd (update_tags now i tags m))"
  unfolding record_response_def record_response_progress_def complete_response_def
    record_dispatched_def record_aborted_def record_upstream_error_def update_tags_def Let_def snd_conv
  by (intro keeps_update keeps_update_first harmless_unless;
      auto simp: with_response_def harmless_def outcome_def split: option.split)+

lemma others_keep_outcomes [simp]:
  "keeps_outcomes m (timeout_take i m)"
  "keeps_outcomes m (set_mode mode n m)"
  "keeps_outcomes m (ingest_session_tokens now manifest m)"
  by (simp_all add: timeout_take_def set_mode_def ingest_session_tokens_def ingest_tokens_into_def Let_def
      split: option.split)

lemma persist_keeps_outcomes [simp]: "keeps_outcomes m (persist_partial X jw now g m)"
  by (simp add: persist_partial_def Let_def case_prod_unfold)

lemma guard_keeps_outcomes [simp]:
  "keeps_outcomes m (snd (guard_capture X jw now key kind label t g m))"
  "keeps_outcomes m (snd (guard_complete X jw now g m))"
  "keeps_outcomes m (snd (guard_upstream_error X jw now msg g m))"
  "keeps_outcomes m (guard_drop X jw now g m)"
  by (simp_all add: keeps_trans [OF persist_keeps_outcomes ops_keep_outcomes(5)]
      keeps_trans [OF persist_keeps_outcomes ops_keep_outcomes(6)] guard_capture_def flush_progress_def
      guard_complete_def guard_upstream_error_def guard_drop_def Let_def case_prod_unfold)

text \<open>The marks of a decision and of the timeout are the two updates that look at nothing.\<close>

fun marks :: "action \<Rightarrow> string option" where
  "marks (DecideMark now i d) = Some i"
| "marks (ExpireMark now i) = Some i"
| "marks _ = None"

lemma exec_keeps_outcomes:
  "exec X jw a w = Some w' \<Longrightarrow> marks a = None \<Longrightarrow> \<not> is_arrival a \<Longrightarrow> keeps_outcomes (w_mon w) (w_mon w')"
  by (cases a) (auto simp: take_decision_def decide_take_def Let_def case_prod_unfold
      split: if_splits option.splits phase.splits)

lemma find_marked_other:
  "i \<noteq> j \<Longrightarrow> find_record j (snd (decide_mark now i d m)) = find_record j m"
  "i \<noteq> j \<Longrightarrow> find_record j (timeout_mark now i m) = find_record j m"
  by (auto simp: find_record_def decide_mark_def timeout_mark_def update_record_def mark_decided_def
      split: approval_decision.split intro!: find_update_other)

lemma marks_keep_ids:
  "map rec_id (mn_records (snd (decide_mark now i d m))) = map rec_id (mn_records m)"
  "map rec_id (mn_records (timeout_mark now i m)) = map rec_id (mn_records m)"
  by (auto simp: decide_mark_def timeout_mark_def update_record_def mark_decided_def
      split: approval_decision.split intro!: map_update_first)

text \<open>Every record belongs to a request that arrived, and no two share an id.\<close>

definition known :: "world \<Rightarrow> bool" where
  "known w \<longleftrightarrow> distinct (map rec_id (mn_records (w_mon w))) \<and>
     (\<forall>r\<in>set (mn_records (w_mon w)). w_phase w (rec_id r) \<noteq> None)"

lemma known_ids:
  "known w \<longleftrightarrow> distinct (map rec_id (mn_records (w_mon w))) \<and>
     (\<forall>i\<in>set (map rec_id (mn_records (w_mon w))). w_phase w i \<noteq> None)"
  by (simp add: known_def)

lemma phases_grow:
  assumes "life_ok w" and "exec X jw a w = Some w'" and "w_phase w i \<noteq> None"
  shows "w_phase w' i \<noteq> None"
proof (cases "is_arrival a")
  case True
  then obtain now ep meth conv body manifest where a: "a = Arrive now ep meth conv body manifest"
    by (cases a) simp_all
  obtain r where "\<And>i. w_phase w i \<noteq> None \<Longrightarrow>
      w_phase (arrive X jw now ep meth conv body manifest w) i = w_phase w i"
    by (rule arrive_new [OF assms(1) refl]) (rule that, assumption)
  then show ?thesis using assms(2,3) by (simp add: a)
next
  case False
  then show ?thesis using assms(2,3)
    by (cases a) (auto simp: take_decision_def Let_def case_prod_unfold split: if_splits option.splits phase.splits)
qed

lemma known_exec:
  assumes "life_ok w" and "known w" and "exec X jw a w = Some w'"
  shows "known w'"
proof (cases "is_arrival a")
  case True
  then obtain now ep meth conv body manifest where a: "a = Arrive now ep meth conv body manifest"
    by (cases a) simp_all
  let ?w = "arrive X jw now ep meth conv body manifest w"
  have w': "w' = ?w" using assms(3) by (simp add: a)
  obtain r where r: "mn_records (w_mon ?w) = push_record r (mn_records (w_mon w))"
    "w_phase w (rec_id r) = None" "w_phase ?w (rec_id r) \<noteq> None"
    by (rule arrive_new [OF assms(1) refl]) (rule that, assumption+)
  have "distinct (map rec_id (r # mn_records (w_mon w)))" using assms(2) r(2) by (force simp: known_def)
  then have "distinct (map rec_id (mn_records (w_mon ?w)))"
    by (simp add: r(1) push_record_def take_map [symmetric] distinct_take del: distinct.simps list.map)
  moreover have "w_phase ?w (rec_id q) \<noteq> None" if "q \<in> set (mn_records (w_mon ?w))" for q
  proof -
    have "q = r \<or> q \<in> set (mn_records (w_mon w))"
      using that in_set_takeD [of q _ "r # mn_records (w_mon w)"] by (auto simp: r(1) push_record_def)
    then show ?thesis
      using r(3) assms(2) phases_grow [OF assms(1,3)] by (auto simp: known_def w')
  qed
  ultimately show ?thesis by (simp add: known_def w')
next
  case False
  have ids: "map rec_id (mn_records (w_mon w')) = map rec_id (mn_records (w_mon w))"
  proof (cases "marks a")
    case None
    then show ?thesis using exec_keeps_outcomes [OF assms(3) _ False] by (simp add: keeps_outcomes_def)
  next
    case (Some i)
    then show ?thesis using assms(3) by (cases a) (auto simp: marks_keep_ids split: if_splits)
  qed
  show ?thesis
    using assms(2) phases_grow [OF assms(1,3)] unfolding known_ids ids by blast
qed

lemma known_reaches: "reaches X jw w \<Longrightarrow> known w"
proof (induction rule: reaches.induct)
  case start
  then show ?case by (simp add: known_def world_new_def monitor_new_def)
qed (blast intro: known_exec life_ok_reaches)

text \<open>
  C27: a finished record is final.  In every reachable world, whatever happens next, a record whose
  decision is terminal keeps its decision, its status and the reply captured for it as long as it
  is in the ring, unless the next action is the mark of a decision or of a timeout for this very
  request; and it leaves the ring only when a new request arrives.
\<close>

theorem finished_record_final:
  assumes "reaches X jw w" and "exec X jw a w = Some w'" and "marks a \<noteq> Some i"
    and "find_record i (w_mon w) = Some r" and "decision_terminal (rec_decision r)"
  shows "(case find_record i (w_mon w') of
      Some r' \<Rightarrow> outcome r' = outcome r
    | None \<Rightarrow> is_arrival a \<and> length (mn_records (w_mon w)) = MAX_RECORDS)"
proof (cases "is_arrival a")
  case False
  then show ?thesis
  proof (cases "marks a")
    case None
    then show ?thesis
      using exec_keeps_outcomes [OF assms(2) _ False] assms(4,5) by (fastforce simp: keeps_outcomes_def)
  next
    case (Some j)
    then have "find_record i (w_mon w') = find_record i (w_mon w)"
      using assms(2,3) by (cases a) (auto simp: find_marked_other split: if_splits)
    with assms(4) show ?thesis by simp
  qed
next
  case True
  then obtain now ep meth conv body manifest where a: "a = Arrive now ep meth conv body manifest"
    by (cases a) simp_all
  let ?w = "arrive X jw now ep meth conv body manifest w" and ?rs = "mn_records (w_mon w)"
  have w': "w' = ?w" using assms(2) by (simp add: a)
  obtain q where q: "mn_records (w_mon ?w) = push_record q ?rs" "w_phase w (rec_id q) = None"
    by (rule arrive_new [OF life_ok_reaches [OF assms(1)] refl]) (rule that, assumption+)
  have rid: "rec_id r = i" "r \<in> set ?rs" using assms(4) by (auto simp: find_record_def find_Some_iff)
  then have "rec_id q \<noteq> i" using q(2) known_reaches [OF assms(1)] by (auto simp: known_def)
  then have find: "find (\<lambda>r. rec_id r = i) (q # ?rs) = Some r" using assms(4) by (simp add: find_record_def)
  have len: "length ?rs \<le> MAX_RECORDS" using tables_ok_reaches [OF assms(1)] by (simp add: tables_ok_def)
  show ?thesis
  proof (cases "length ?rs = MAX_RECORDS")
    case True
    have "find (\<lambda>r. rec_id r = i) (take n xs) \<in> {None, find (\<lambda>r. rec_id r = i) xs}" for n xs
      by (induction xs arbitrary: n) (auto simp: take_Cons')
    with find have "find_record i (w_mon ?w) \<in> {None, Some r}"
      unfolding find_record_def q(1) push_record_def by metis
    then show ?thesis using True a w' by (auto split: option.split)
  next
    case False
    then have "mn_records (w_mon ?w) = q # ?rs" using len by (simp add: q(1) push_record_def)
    then show ?thesis using find w' by (simp add: find_record_def)
  qed
qed

section \<open>The delta of a turn\<close>

lemma max_last_Some: "xs \<noteq> [] \<Longrightarrow> \<exists>x. max_last f xs = Some x"
  by (cases xs) (auto split: option.split)

lemma max_last_None: "max_last f xs = None \<Longrightarrow> xs = []"
  using max_last_Some [of xs f] by auto

lemma max_last_in: "max_last f xs = Some x \<Longrightarrow> x \<in> set xs"
  by (induction xs arbitrary: x) (auto split: option.splits if_splits)

lemma max_last_greatest: "max_last f xs = Some x \<Longrightarrow> y \<in> set xs \<Longrightarrow> f y \<le> f x"
proof (induction xs arbitrary: x y)
  case (Cons a xs)
  show ?case
  proof (cases "max_last f xs")
    case None
    then have "xs = []" using max_last_Some [of xs f] by auto
    then show ?thesis using Cons.prems by simp
  next
    case (Some b)
    then have "f z \<le> f b" if "z \<in> set xs" for z using Cons.IH that by blast
    then show ?thesis using Cons.prems Some by (fastforce split: if_splits)
  qed
qed simp

text \<open>
  The delta hides nothing.  The delta of a turn after the first is taken against an earlier turn
  of the same conversation that is still recorded, of these one that shares the most surfaces with
  it; a surface that is not flagged as new was in the request of that turn or in the reply it got,
  and the flagged ones are in neither.  Without such a turn the delta says so.
\<close>

lemma delta_hides_nothing:
  assumes "request_delta X records c turn surfaces = d" and "turn \<ge> 1"
  shows "(td_is_first d \<longrightarrow> turn = 1) \<and>
    (td_is_first d \<or> td_prev_unavailable d \<longleftrightarrow>
       (\<forall>r\<in>set records. rec_conversation_id r = c \<longrightarrow> turn \<le> rec_turn_index r)) \<and>
    (\<not> td_is_first d \<and> \<not> td_prev_unavailable d \<longrightarrow>
       (\<exists>r\<in>set records. rec_conversation_id r = c \<and> rec_turn_index r < turn \<and>
          td_prev_turn d = Some (rec_turn_index r) \<and>
          (\<forall>r'\<in>set records. rec_conversation_id r' = c \<longrightarrow> rec_turn_index r' < turn \<longrightarrow>
             overlap (sf_block_hash ` set surfaces) r' \<le> overlap (sf_block_hash ` set surfaces) r) \<and>
          (\<forall>s\<in>set surfaces. sf_block_hash s \<in> set (td_added_surface_hashes d) \<longleftrightarrow>
             sf_block_hash s \<notin> sf_block_hash ` set (rec_request_surfaces r) \<union>
               egress_hash X ` set (rec_response_surfaces r))))"
proof (cases "max_last (\<lambda>r. (overlap (sf_block_hash ` set surfaces) r, rec_turn_index r))
    (filter (\<lambda>r. rec_conversation_id r = c \<and> rec_turn_index r < turn) records)")
  case None
  then have "filter (\<lambda>r. rec_conversation_id r = c \<and> rec_turn_index r < turn) records = []"
    by (rule max_last_None)
  then have "\<forall>r\<in>set records. rec_conversation_id r = c \<longrightarrow> turn \<le> rec_turn_index r"
    by (auto simp: filter_empty_conv)
  then show ?thesis
    using assms None by (auto simp: request_delta_def previous_turn_surfaces_def delta_first_def
        delta_prev_unavailable_def split: if_splits)
next
  case (Some r)
  note r = max_last_in [OF Some] and most = max_last_greatest [OF Some]
  have big: "overlap (sf_block_hash ` set surfaces) r' \<le> overlap (sf_block_hash ` set surfaces) r"
    if "r' \<in> set records" "rec_conversation_id r' = c" "rec_turn_index r' < turn" for r'
    using most [of r'] that by (auto simp: less_eq_prod_def)
  let ?old = "sf_block_hash ` set (rec_request_surfaces r) \<union> egress_hash X ` set (rec_response_surfaces r)"
  have d: "d = \<lparr>td_prev_turn = Some (rec_turn_index r), td_is_first = False, td_prev_unavailable = False,
      td_added_surface_hashes = added_hashes ?old {} surfaces\<rparr>"
    using assms(1) Some by (simp add: request_delta_def previous_turn_surfaces_def compute_delta_def)
  then have flags: "\<not> td_is_first d" "\<not> td_prev_unavailable d" "td_prev_turn d = Some (rec_turn_index r)"
    and new: "\<forall>s\<in>set surfaces. sf_block_hash s \<in> set (td_added_surface_hashes d) \<longleftrightarrow> sf_block_hash s \<notin> ?old"
    using added_hashes_distinct [of ?old "{}" surfaces] by simp_all
  have rec: "r \<in> set records" "rec_conversation_id r = c" "rec_turn_index r < turn" using r by simp_all
  have "\<not> (\<forall>r\<in>set records. rec_conversation_id r = c \<longrightarrow> turn \<le> rec_turn_index r)"
    using rec leD by blast
  moreover have "\<exists>r\<in>set records. rec_conversation_id r = c \<and> rec_turn_index r < turn \<and>
      td_prev_turn d = Some (rec_turn_index r) \<and>
      (\<forall>r'\<in>set records. rec_conversation_id r' = c \<longrightarrow> rec_turn_index r' < turn \<longrightarrow>
         overlap (sf_block_hash ` set surfaces) r' \<le> overlap (sf_block_hash ` set surfaces) r) \<and>
      (\<forall>s\<in>set surfaces. sf_block_hash s \<in> set (td_added_surface_hashes d) \<longleftrightarrow>
         sf_block_hash s \<notin> sf_block_hash ` set (rec_request_surfaces r) \<union>
           egress_hash X ` set (rec_response_surfaces r))"
    using rec flags(3) big new by blast
  ultimately show ?thesis using flags(1,2) by blast
qed

definition sample_turn :: request_record where
  "sample_turn = \<lparr>rec_id = ''req-1'', rec_conversation_id = ''c'', rec_endpoint = [], rec_method = [],
     rec_started_ms = 0, rec_updated_ms = 0, rec_decision = Completed, rec_request_preview = [],
     rec_request_spans = [], rec_response_preview = None, rec_response_spans = [],
     rec_response_status = None, rec_tokens = [], rec_tags = [], rec_rejection_reason = None,
     rec_turn_index = 1, rec_dispatched_ms = None,
     rec_request_surfaces = [\<lparr>sf_label = [], sf_role = None, sf_kind = ''message'', sf_provenance = ''user_input'',
       sf_runs = [], sf_block_hash = ''h1''\<rparr>],
     rec_response_surfaces = [], rec_delta = delta_first, rec_human_turn_index = 1\<rparr>"

theorem delta_hides_nothing_witness:
  "\<not> td_is_first (request_delta sample_ext [sample_turn] ''c'' 2 []) \<and>
   \<not> td_prev_unavailable (request_delta sample_ext [sample_turn] ''c'' 2 [])"
  using delta_hides_nothing [OF refl, of 2 sample_ext "[sample_turn]" "''c''" "[]"]
  by (simp add: sample_turn_def)

definition full_world :: world where
  "full_world =
     arrive sample_ext sample_json 0 ''/v1/messages'' ''POST'' None ''{}'' [] (manual_world (Some 0))"

lemma full_world:
  "reaches sample_ext sample_json full_world"
  "\<exists>r. find_record ''req-1'' (w_mon full_world) = Some r \<and> rec_decision r = BackpressureRejected"
proof -
  show "reaches sample_ext sample_json full_world"
    unfolding full_world_def by (rule reaches.step [OF manual_world [of "Some 0"]]) (subst exec.simps, rule refl)
  let ?m = "w_mon (manual_world (Some 0))"
  obtain tk m' where r: "record_llm_request sample_ext sample_json 0 ''/v1/messages'' ''POST'' None ''{}'' [] ?m = (tk, m')"
    by fastforce
  have m: "mn_next_seq ?m = 1" "mn_mode ?m = ManualAllLlm" "mn_max_pending_approvals ?m = 0" "mn_records ?m = []"
    by (simp_all add: manual_world_def world_new_def monitor_new_def set_mode_def)
  have id: "req_id 1 = ''req-1''" by code_simp
  show "\<exists>r. find_record ''req-1'' (w_mon full_world) = Some r \<and> rec_decision r = BackpressureRejected"
  proof (cases rule: record_llm_effect [OF r])
    case (1 rec)
    have "rec_id rec = ''req-1''" using 1(1,7) unfolding m(1) id by simp
    then show ?thesis using 1(6,8)
      by (simp add: full_world_def arrive_def r m should_hold_def find_record_def push_record_def MAX_RECORDS_def)
  qed
qed

theorem finished_record_final_witness:
  "\<exists>w'. exec sample_ext sample_json (Tag 12 ''req-1'' [''x'']) full_world = Some w' \<and>
     map_option rec_decision (find_record ''req-1'' (w_mon w')) = Some BackpressureRejected"
proof -
  obtain r where r: "find_record ''req-1'' (w_mon full_world) = Some r" "rec_decision r = BackpressureRejected"
    using full_world(2) by blast
  obtain w' where w': "exec sample_ext sample_json (Tag 12 ''req-1'' [''x'']) full_world = Some w'" by simp
  have "case find_record ''req-1'' (w_mon w') of Some r' \<Rightarrow> outcome r' = outcome r
    | None \<Rightarrow> is_arrival (Tag 12 ''req-1'' [''x'']) \<and> length (mn_records (w_mon full_world)) = MAX_RECORDS"
    by (rule finished_record_final [OF full_world(1) w']) (simp_all add: r)
  then show ?thesis using r(2) w' by (auto simp: outcome_def split: option.splits)
qed

end
