(* ===== verification/Toml.thy ===== *)
theory Toml
  imports Prelude
begin

text \<open>
  TOML documents as \<open>config.rs\<close> and \<open>monitor/persist.rs\<close> of the proxy see them.  The reader
  (\<open>toml::Value\<close>) has tables and arrays; the editor (\<open>toml_edit\<close>) tells a table from an inline
  table and an array of tables from an array, which is the form of a node here.  A table is a map
  from keys to values; numbers and dates keep their text.
\<close>

section \<open>Values\<close>

datatype toml_form = Inline | Block

datatype toml =
    TStr string
  | TBool bool
  | TAtom string
  | TArr toml_form "toml list"
  | TTbl toml_form "string \<Rightarrow> toml option"

fun toml_table :: "toml \<Rightarrow> (string \<rightharpoonup> toml) option" where
  "toml_table (TTbl f m) = Some m"
| "toml_table _ = None"

fun toml_array :: "toml \<Rightarrow> toml list option" where
  "toml_array (TArr f vs) = Some vs"
| "toml_array _ = None"

fun toml_str :: "toml \<Rightarrow> string option" where
  "toml_str (TStr s) = Some s"
| "toml_str _ = None"

text \<open>\<open>Value::get(key)\<close>: None on a value that is not a table.\<close>

definition toml_get :: "string \<Rightarrow> toml \<Rightarrow> toml option" where
  "toml_get k v = (case toml_table v of None \<Rightarrow> None | Some m \<Rightarrow> m k)"

lemma toml_get_simps [simp]:
  "toml_get k (TTbl f m) = m k"
  "toml_get k (TStr s) = None" "toml_get k (TBool b) = None" "toml_get k (TAtom a) = None"
  "toml_get k (TArr f vs) = None"
  by (simp_all add: toml_get_def)

text \<open>A chain of \<open>get\<close>.\<close>

fun toml_at :: "string list \<Rightarrow> toml \<Rightarrow> toml option" where
  "toml_at [] v = Some v"
| "toml_at (k # ks) v = (case toml_get k v of None \<Rightarrow> None | Some w \<Rightarrow> toml_at ks w)"

definition toml_empty :: toml where
  "toml_empty = TTbl Block Map.empty"

section \<open>The deep merge\<close>

text \<open>
  \<open>merge(base, over)\<close>: tables recurse; every other value, an array included, is replaced.  The
  recursion is on \<open>over\<close>, and the loop over its entries is pointwise.
\<close>

primrec merge_onto :: "toml \<Rightarrow> toml \<Rightarrow> toml" where
  "merge_onto (TStr s) = (\<lambda>base. TStr s)"
| "merge_onto (TBool b) = (\<lambda>base. TBool b)"
| "merge_onto (TAtom a) = (\<lambda>base. TAtom a)"
| "merge_onto (TArr f vs) = (\<lambda>base. TArr f vs)"
| "merge_onto (TTbl g over) = (\<lambda>base.
     (case base of
        TTbl f b \<Rightarrow>
          TTbl f (\<lambda>k. case map_option (\<lambda>v. (v, merge_onto v)) (over k) of
                    None \<Rightarrow> b k
                  | Some (v, onto) \<Rightarrow> Some (case b k of Some bv \<Rightarrow> onto bv | None \<Rightarrow> v))
      | _ \<Rightarrow> TTbl g over))"

definition toml_merge :: "toml \<Rightarrow> toml \<Rightarrow> toml" where
  "toml_merge base over = merge_onto over base"

text \<open>A member after the merge.\<close>

definition merged_member :: "toml option \<Rightarrow> toml option \<Rightarrow> toml option" where
  "merged_member b over =
     (case over of
        None \<Rightarrow> b
      | Some v \<Rightarrow> Some (case b of Some bv \<Rightarrow> toml_merge bv v | None \<Rightarrow> v))"

lemma toml_merge_Tbl:
  "toml_merge (TTbl f b) (TTbl g over) = TTbl f (\<lambda>k. merged_member (b k) (over k))"
  by (auto simp: toml_merge_def merged_member_def fun_eq_iff split: option.splits)

lemma toml_merge_other:
  "toml_table b = None \<or> toml_table over = None \<Longrightarrow> toml_merge b over = over"
  by (cases over; cases b) (simp_all add: toml_merge_def)

lemma toml_get_merge:
  assumes "toml_table b \<noteq> None" and "toml_table over \<noteq> None"
  shows "toml_get k (toml_merge b over) = merged_member (toml_get k b) (toml_get k over)"
  using assms by (cases b; cases over) (auto simp: toml_merge_Tbl)

lemma toml_table_merge: "toml_table (toml_merge b over) \<noteq> None \<longleftrightarrow> toml_table over \<noteq> None"
  by (cases over; cases b) (simp_all add: toml_merge_def)

text \<open>
  What the upper layer says outright wins; where it is silent the lower layer is read.  A layer is
  silent at a path when the path leaves its tables.
\<close>

fun silent_at :: "string list \<Rightarrow> toml \<Rightarrow> bool" where
  "silent_at [] v = False"
| "silent_at (k # ks) v =
     (toml_table v \<noteq> None \<and> (case toml_get k v of None \<Rightarrow> True | Some w \<Rightarrow> silent_at ks w))"

lemma toml_get_table: "toml_get k v = Some w \<Longrightarrow> toml_table v \<noteq> None"
  by (auto simp: toml_get_def split: option.splits)

lemma merge_over_wins:
  assumes "toml_at ks over = Some v" and "toml_table v = None"
  shows "toml_at ks (toml_merge b over) = Some v"
  using assms
proof (induction ks arbitrary: b over)
  case Nil
  then show ?case using toml_merge_other [of b v] by simp
next
  case (Cons k ks)
  then obtain w where w: "toml_get k over = Some w" "toml_at ks w = Some v"
    by (auto split: option.splits)
  show ?case
  proof (cases "toml_table b = None")
    case True
    then show ?thesis using toml_merge_other [of b over] w by simp
  next
    case False
    with toml_get_merge [OF False toml_get_table [OF w(1)], of k] w Cons.IH [of w] Cons.prems(2)
    show ?thesis by (auto simp: merged_member_def split: option.splits)
  qed
qed

lemma silent_None: "silent_at ks v \<Longrightarrow> toml_at ks v = None"
  by (induction ks v rule: silent_at.induct) (auto split: option.splits)

lemma merge_silent: "silent_at ks over \<Longrightarrow> toml_at ks (toml_merge b over) = toml_at ks b"
proof (induction ks arbitrary: b over)
  case Nil
  then show ?case by simp
next
  case (Cons k ks)
  show ?case
  proof (cases "toml_table b = None")
    case True
    then have "toml_at (k # ks) b = None" by (simp add: toml_get_def)
    with True silent_None [OF Cons.prems] toml_merge_other [of b over] show ?thesis
      by (simp del: toml_at.simps)
  next
    case False
    have "toml_table over \<noteq> None" using Cons.prems by simp
    note g = toml_get_merge [OF False this, of k]
    show ?thesis
    proof (cases "toml_get k over")
      case None
      with g show ?thesis by (simp add: merged_member_def)
    next
      case (Some v)
      then have "silent_at ks v" using Cons.prems by simp
      with g Some Cons.IH [OF this] silent_None [OF this] show ?thesis
        by (cases "toml_get k b") (simp_all add: merged_member_def)
    qed
  qed
qed

section \<open>Edits\<close>

text \<open>
  \<open>doc[k1][k2] = v\<close> of the editor: an index into a missing entry creates a table of the form
  \<open>auto\<close>, and one into a value that is no table panics, here None.
\<close>

fun toml_put :: "toml_form \<Rightarrow> string list \<Rightarrow> toml \<Rightarrow> toml option \<Rightarrow> toml option" where
  "toml_put auto [] v old = Some v"
| "toml_put auto (k # ks) v None =
     (case toml_put auto ks v None of
        None \<Rightarrow> None
      | Some w \<Rightarrow> Some (TTbl auto [k \<mapsto> w]))"
| "toml_put auto (k # ks) v (Some old) =
     (case old of
        TTbl f m \<Rightarrow>
          (case toml_put auto ks v (m k) of
             None \<Rightarrow> None
           | Some w \<Rightarrow> Some (TTbl f (m(k \<mapsto> w))))
      | _ \<Rightarrow> None)"

lemma toml_put_missing: "\<exists>w. toml_put auto ks v None = Some w \<and> toml_at ks w = Some v"
proof (induction ks)
  case Nil
  then show ?case by simp
next
  case (Cons k ks)
  then obtain w where "toml_put auto ks v None = Some w" "toml_at ks w = Some v" by blast
  then show ?case by simp
qed

lemma toml_at_put:
  "toml_put auto ks v old = Some d \<Longrightarrow> toml_at ks d = Some v"
proof (induction auto ks v old arbitrary: d rule: toml_put.induct)
  case (1 auto v old)
  then show ?case by simp
next
  case (2 auto k ks v)
  then obtain w where "toml_put auto ks v None = Some w" "d = TTbl auto [k \<mapsto> w]"
    by (auto split: option.splits)
  with 2(1) [of w] show ?case by simp
next
  case (3 auto k ks v old)
  then obtain f m w where "old = TTbl f m" "toml_put auto ks v (m k) = Some w" "d = TTbl f (m(k \<mapsto> w))"
    by (cases old) (auto split: option.splits)
  with 3(1) [of f m w] show ?case by simp
qed

text \<open>An edit of one path leaves the paths that part from it.\<close>

lemma toml_at_put_other:
  "toml_put auto ks v (Some old) = Some d \<Longrightarrow> \<not> prefix ks js \<Longrightarrow> \<not> prefix js ks \<Longrightarrow>
   toml_at js old \<noteq> None \<Longrightarrow> toml_at js d = toml_at js old"
proof (induction ks arbitrary: js old d)
  case Nil
  then show ?case by simp
next
  case (Cons k ks)
  from Cons.prems(1) obtain f m w where m: "old = TTbl f m"
    and w: "toml_put auto ks v (m k) = Some w" and d: "d = TTbl f (m(k \<mapsto> w))"
    by (cases old) (auto split: option.splits)
  from Cons.prems(3) obtain j js' where js: "js = j # js'" by (cases js) auto
  show ?case
  proof (cases "j = k")
    case False
    then show ?thesis by (simp add: js m d)
  next
    case True
    then obtain old' where "m k = Some old'" "toml_at js' old' \<noteq> None"
      using Cons.prems(4) by (auto simp: js m split: option.splits)
    with Cons.IH [of old' w js'] w Cons.prems(2,3) True show ?thesis by (simp add: js m d)
  qed
qed

end
