(* ===== verification/ConfigFiles.thy ===== *)
theory ConfigFiles
  imports Toml Engine
begin

text \<open>
  \<open>config.rs\<close> and \<open>monitor/persist.rs\<close> of the proxy: the layered configuration files, what is read
  from them, and the edits the monitor and the profile endpoint write back.  Reading, parsing and
  decoding failures, and a panic of the editor, are values.
\<close>

section \<open>Files\<close>

datatype file_content = FileText string | FileUnreadable

text \<open>
  A write that fails leaves at the path what \<open>fl_refuses\<close> says (a truncated file, the old one, or
  nothing); \<open>fl_no_parent\<close> holds of a file whose directory cannot be created.
\<close>

record files =
  fl_at :: "string \<rightharpoonup> file_content"
  fl_refuses :: "string \<Rightarrow> file_content option option"
  fl_no_parent :: "string \<Rightarrow> bool"

definition read_to_string :: "files \<Rightarrow> string \<Rightarrow> string option" where
  "read_to_string fs path =
     (case fl_at fs path of Some (FileText t) \<Rightarrow> Some t | _ \<Rightarrow> None)"

definition write_file :: "string \<Rightarrow> string \<Rightarrow> files \<Rightarrow> bool \<times> files" where
  "write_file path t fs =
     (case fl_refuses fs path of
        None \<Rightarrow> (True, fs\<lparr>fl_at := (fl_at fs)(path \<mapsto> FileText t)\<rparr>)
      | Some left \<Rightarrow> (False, fs\<lparr>fl_at := (fl_at fs)(path := left)\<rparr>))"

text \<open>\<open>Path::join\<close> with a relative name.\<close>

definition path_join :: "string \<Rightarrow> string \<Rightarrow> string" where
  "path_join base name =
     (if base = [] \<or> last base = CHR ''/'' then base @ name else base @ ''/'' @ name)"

section \<open>What a file says\<close>

record secret_spec =
  sp_name :: string
  sp_operator :: "string option"
  sp_from_ref :: "string option"
  sp_from_env :: "string option"
  sp_required :: bool
  sp_case_sensitive :: bool

record broker_allow_spec =
  bs_secret :: "string option"
  bs_tool :: string
  bs_param :: string
  bs_dest :: "string option"
  bs_ttl_secs :: "nat option"

record file_config =
  fc_port :: "nat option"
  fc_bind :: string
  fc_upstream_base_url :: string
  fc_engine :: engine_config
  fc_secrets :: "secret_spec list"
  fc_broker_allow :: "broker_allow_spec list"

type_synonym toml_doc = "string \<rightharpoonup> toml"

text \<open>
  What the TOML crates and serde do: the root table of a text, the text of a root table, the form
  of a table that indexing creates, the digits of a float, and the decoding of \<open>FileConfig\<close>, whose
  engine has its default allow list.
\<close>

record toml_wire =
  tw_parse :: "string \<Rightarrow> toml_doc option"
  tw_print :: "toml_doc \<Rightarrow> string"
  tw_auto :: toml_form
  tw_float :: "f32 \<Rightarrow> string"
  tw_config :: "toml_doc \<Rightarrow> file_config option"

datatype config_error =
    ReadingFile string
  | ParsingFile string
  | InlineSecret nat string
  | InvalidConfig
  | BadAllowPattern string

type_synonym 'a config_result = "config_error + 'a"

section \<open>Layers\<close>

record config_layers =
  ly_user :: string
  ly_project :: "string option"
  ly_local :: "string option"

definition read_layer :: "toml_wire \<Rightarrow> files \<Rightarrow> string \<Rightarrow> toml_doc option config_result" where
  "read_layer W fs path =
     (if fl_at fs path = None then Inr None
      else (case read_to_string fs path of
              None \<Rightarrow> Inl (ReadingFile path)
            | Some t \<Rightarrow>
                (case tw_parse W t of None \<Rightarrow> Inl (ParsingFile path) | Some d \<Rightarrow> Inr (Some d))))"

fun merge_layers :: "toml_wire \<Rightarrow> files \<Rightarrow> string list \<Rightarrow> toml \<Rightarrow> toml config_result" where
  "merge_layers W fs [] merged = Inr merged"
| "merge_layers W fs (path # paths) merged =
     (case read_layer W fs path of
        Inl e \<Rightarrow> Inl e
      | Inr None \<Rightarrow> merge_layers W fs paths merged
      | Inr (Some d) \<Rightarrow> merge_layers W fs paths (toml_merge merged (TTbl Block d)))"

fun some_of :: "'a option \<Rightarrow> 'a list" where
  "some_of None = []"
| "some_of (Some x) = [x]"

definition merged_value :: "toml_wire \<Rightarrow> files \<Rightarrow> config_layers \<Rightarrow> toml config_result" where
  "merged_value W fs layers =
     merge_layers W fs (ly_user layers # some_of (ly_project layers) @ some_of (ly_local layers))
       toml_empty"

definition forbidden_secret_keys :: "string list" where
  "forbidden_secret_keys = [''value'', ''literal'', ''secret'', ''plaintext'']"

fun inline_secret :: "nat \<Rightarrow> toml list \<Rightarrow> (nat \<times> string) option" where
  "inline_secret i [] = None"
| "inline_secret i (item # items) =
     (case find (\<lambda>k. toml_get k item \<noteq> None) forbidden_secret_keys of
        Some k \<Rightarrow> Some (i, k)
      | None \<Rightarrow> inline_secret (Suc i) items)"

definition validate_no_inline_secret_values :: "toml \<Rightarrow> unit config_result" where
  "validate_no_inline_secret_values merged =
     (case Option.bind (toml_get ''secrets'' merged) toml_array of
        None \<Rightarrow> Inr ()
      | Some items \<Rightarrow>
          (case inline_secret 0 items of
             Some (i, k) \<Rightarrow> Inl (InlineSecret i k)
           | None \<Rightarrow> Inr ()))"

definition toml_strings :: "string \<Rightarrow> toml \<Rightarrow> string list" where
  "toml_strings key al =
     (case Option.bind (toml_get key al) toml_array of
        None \<Rightarrow> []
      | Some vs \<Rightarrow> List.map_filter toml_str vs)"

definition build_allow_list :: "'x ext_scheme \<Rightarrow> toml \<Rightarrow> allow_list config_result" where
  "build_allow_list X raw =
     (case toml_at [''engine'', ''allow_list''] raw of
        None \<Rightarrow> Inr (al_with_common_words X)
      | Some al \<Rightarrow>
          (case al_from_specs X (toml_strings ''exact'' al) (toml_strings ''exact_ci'' al)
                  (toml_strings ''patterns'' al) of
             Inl e \<Rightarrow> Inl (BadAllowPattern e)
           | Inr a \<Rightarrow> Inr a))"

section \<open>Loading\<close>

text \<open>\<open>merged.try_into()\<close>.\<close>

definition decode_config :: "toml_wire \<Rightarrow> toml \<Rightarrow> file_config config_result" where
  "decode_config W merged =
     (case Option.bind (toml_table merged) (tw_config W) of
        None \<Rightarrow> Inl InvalidConfig
      | Some c \<Rightarrow> Inr c)"

definition read_config ::
  "toml_wire \<Rightarrow> files \<Rightarrow> config_layers \<Rightarrow> (toml \<times> file_config) config_result" where
  "read_config W fs layers =
     (case merged_value W fs layers of
        Inl e \<Rightarrow> Inl e
      | Inr merged \<Rightarrow>
          (case validate_no_inline_secret_values merged of
             Inl e \<Rightarrow> Inl e
           | Inr _ \<Rightarrow>
               (case decode_config W merged of
                  Inl e \<Rightarrow> Inl e
                | Inr c \<Rightarrow> Inr (merged, c))))"

definition reload_engine ::
  "'x ext_scheme \<Rightarrow> toml_wire \<Rightarrow> files \<Rightarrow> config_layers \<Rightarrow> engine_config config_result" where
  "reload_engine X W fs layers =
     (case read_config W fs layers of
        Inl e \<Rightarrow> Inl e
      | Inr (merged, c) \<Rightarrow>
          (case build_allow_list X merged of
             Inl e \<Rightarrow> Inl e
           | Inr al \<Rightarrow> Inr ((fc_engine c)\<lparr>ec_allow_list := al\<rparr>)))"

definition reload_broker_allows ::
  "toml_wire \<Rightarrow> files \<Rightarrow> config_layers \<Rightarrow> broker_allow_spec list config_result" where
  "reload_broker_allows W fs layers =
     (case read_config W fs layers of
        Inl e \<Rightarrow> Inl e
      | Inr (merged, c) \<Rightarrow> Inr (fc_broker_allow c))"

record loaded_config =
  lc_port :: "nat option"
  lc_bind :: string
  lc_upstream_base_url :: string
  lc_engine :: engine_config
  lc_secrets :: "secret_spec list"
  lc_broker_allows :: "broker_allow_spec list"
  lc_layers :: config_layers

definition load_config ::
  "'x ext_scheme \<Rightarrow> toml_wire \<Rightarrow> files \<Rightarrow> config_layers \<Rightarrow> loaded_config config_result" where
  "load_config X W fs layers =
     (case read_config W fs layers of
        Inl e \<Rightarrow> Inl e
      | Inr (merged, c) \<Rightarrow>
          (case build_allow_list X merged of
             Inl e \<Rightarrow> Inl e
           | Inr al \<Rightarrow>
               Inr \<lparr>lc_port = fc_port c, lc_bind = fc_bind c,
                    lc_upstream_base_url = fc_upstream_base_url c,
                    lc_engine = (fc_engine c)\<lparr>ec_allow_list := al\<rparr>,
                    lc_secrets = fc_secrets c, lc_broker_allows = fc_broker_allow c,
                    lc_layers = layers\<rparr>))"

section \<open>Edits of a scope file\<close>

datatype persist_error =
    NoPersistPath
  | ParsingScope string
  | EngineNotTable
  | NotArrayOfTables
  | CreatingParent string
  | WritingScope string
  | UnserializableOperator

text \<open>\<open>PersistPanic\<close> is a panic of the editor's index operations.\<close>

datatype persist_outcome = Persisted string | NotPersisted persist_error | PersistPanic

text \<open>A missing or unreadable file counts as an empty one.\<close>

definition scope_doc :: "toml_wire \<Rightarrow> files \<Rightarrow> string \<Rightarrow> toml_doc option" where
  "scope_doc W fs path =
     tw_parse W (case read_to_string fs path of Some t \<Rightarrow> t | None \<Rightarrow> [])"

definition doc_put :: "toml_wire \<Rightarrow> string list \<Rightarrow> toml \<Rightarrow> toml_doc \<Rightarrow> toml_doc option" where
  "doc_put W ks v d = Option.bind (toml_put (tw_auto W) ks v (Some (TTbl Block d))) toml_table"

definition write_doc ::
  "toml_wire \<Rightarrow> string \<Rightarrow> toml_doc \<Rightarrow> files \<Rightarrow> persist_outcome \<times> files" where
  "write_doc W path d fs =
     (case write_file path (tw_print W d) fs of
        (True, fs') \<Rightarrow> (Persisted path, fs')
      | (False, fs') \<Rightarrow> (NotPersisted (WritingScope path), fs'))"

definition save_doc ::
  "toml_wire \<Rightarrow> string \<Rightarrow> toml_doc \<Rightarrow> files \<Rightarrow> persist_outcome \<times> files" where
  "save_doc W path d fs =
     (if fl_no_parent fs path then (NotPersisted (CreatingParent path), fs)
      else write_doc W path d fs)"

definition local_scope_path :: "string \<Rightarrow> string option" where
  "local_scope_path project_root =
     (if project_root = [] then None else Some (path_join project_root ''zlauder.local.toml''))"

definition custom_replacement_table :: "custom_replacement \<Rightarrow> toml" where
  "custom_replacement_table rule =
     TTbl Block
       [''pattern'' \<mapsto> TStr (cr_pattern rule), ''entity_type'' \<mapsto> TStr (cr_entity_type rule),
        ''is_regex'' \<mapsto> TBool (cr_is_regex rule), ''case_sensitive'' \<mapsto> TBool (cr_case_sensitive rule)]"

text \<open>The document with the rule appended.\<close>

definition append_custom :: "custom_replacement \<Rightarrow> toml_doc \<Rightarrow> persist_error + toml_doc" where
  "append_custom rule d =
     (case (if d ''engine'' = None then Some (TTbl Block Map.empty) else d ''engine'') of
        Some (TTbl Block engine) \<Rightarrow>
          (case (if engine ''custom_replacements'' = None then Some (TArr Block [])
                 else engine ''custom_replacements'') of
             Some (TArr Block rules) \<Rightarrow>
               Inr (d(''engine'' \<mapsto> TTbl Block (engine(''custom_replacements'' \<mapsto>
                 TArr Block (rules @ [custom_replacement_table rule])))))
           | _ \<Rightarrow> Inl NotArrayOfTables)
      | _ \<Rightarrow> Inl EngineNotTable)"

definition persist_custom_replacement ::
  "toml_wire \<Rightarrow> string \<Rightarrow> custom_replacement \<Rightarrow> files \<Rightarrow> persist_outcome \<times> files" where
  "persist_custom_replacement W project_root rule fs =
     (case local_scope_path project_root of
        None \<Rightarrow> (NotPersisted NoPersistPath, fs)
      | Some path \<Rightarrow>
          (case scope_doc W fs path of
             None \<Rightarrow> (NotPersisted (ParsingScope path), fs)
           | Some d \<Rightarrow>
               (case append_custom rule d of
                  Inl e \<Rightarrow> (NotPersisted e, fs)
                | Inr d' \<Rightarrow> save_doc W path d' fs)))"

definition custom_matches :: "string \<Rightarrow> string \<Rightarrow> toml \<Rightarrow> bool" where
  "custom_matches pattern entity_type t \<longleftrightarrow>
     Option.bind (toml_get ''pattern'' t) toml_str = Some pattern \<and>
     Option.bind (toml_get ''entity_type'' t) toml_str = Some entity_type"

text \<open>\<open>retain\<close> with a flag: the first match goes.\<close>

fun remove_first :: "('a \<Rightarrow> bool) \<Rightarrow> 'a list \<Rightarrow> 'a list" where
  "remove_first P [] = []"
| "remove_first P (x # xs) = (if P x then xs else x # remove_first P xs)"

definition remove_custom_replacement ::
  "toml_wire \<Rightarrow> string \<Rightarrow> string \<Rightarrow> string \<Rightarrow> files \<Rightarrow> (persist_error + bool) \<times> files" where
  "remove_custom_replacement W project_root pattern entity_type fs =
     (case local_scope_path project_root of
        None \<Rightarrow> (Inr False, fs)
      | Some path \<Rightarrow>
          (case read_to_string fs path of
             None \<Rightarrow> (Inr False, fs)
           | Some t \<Rightarrow>
               (case tw_parse W t of
                  None \<Rightarrow> (Inl (ParsingScope path), fs)
                | Some d \<Rightarrow>
                    (case d ''engine'' of
                       Some (TTbl f engine) \<Rightarrow>
                         (case engine ''custom_replacements'' of
                            Some (TArr Block rules) \<Rightarrow>
                              if \<exists>r\<in>set rules. custom_matches pattern entity_type r
                              then (case write_file path
                                      (tw_print W (d(''engine'' \<mapsto> TTbl f (engine(''custom_replacements'' \<mapsto>
                                         TArr Block (remove_first (custom_matches pattern entity_type) rules))))))
                                      fs of
                                      (True, fs') \<Rightarrow> (Inr True, fs')
                                    | (False, fs') \<Rightarrow> (Inl (WritingScope path), fs'))
                              else (Inr False, fs)
                          | _ \<Rightarrow> (Inr False, fs))
                     | _ \<Rightarrow> (Inr False, fs)))))"

definition str_array :: "string list \<Rightarrow> toml" where
  "str_array items = TArr Inline (map TStr (sort items))"

definition put_allow_lists ::
  "toml_wire \<Rightarrow> string list \<Rightarrow> string list \<Rightarrow> toml_doc \<Rightarrow> toml_doc option" where
  "put_allow_lists W exact exact_ci d =
     Option.bind (doc_put W [''engine'', ''allow_list'', ''exact''] (str_array exact) d)
       (doc_put W [''engine'', ''allow_list'', ''exact_ci''] (str_array exact_ci))"

definition persist_local_allow_lists ::
  "toml_wire \<Rightarrow> string \<Rightarrow> string list \<Rightarrow> string list \<Rightarrow> files \<Rightarrow> persist_outcome \<times> files" where
  "persist_local_allow_lists W project_root exact exact_ci fs =
     (case local_scope_path project_root of
        None \<Rightarrow> (NotPersisted NoPersistPath, fs)
      | Some path \<Rightarrow>
          (case scope_doc W fs path of
             None \<Rightarrow> (NotPersisted (ParsingScope path), fs)
           | Some d \<Rightarrow>
               (case put_allow_lists W exact exact_ci d of
                  None \<Rightarrow> (PersistPanic, fs)
                | Some d' \<Rightarrow> save_doc W path d' fs)))"

section \<open>Profiles\<close>

datatype scope = ScopeSession | ScopeProject | ScopeUser | ScopeLocal

definition scope_file_path :: "config_layers \<Rightarrow> string \<Rightarrow> scope \<Rightarrow> string option" where
  "scope_file_path layers project_root scope =
     (let in_root = (\<lambda>name. if project_root = [] then None else Some (path_join project_root name))
      in case scope of
           ScopeSession \<Rightarrow> None
         | ScopeUser \<Rightarrow> Some (ly_user layers)
         | ScopeProject \<Rightarrow>
             (case ly_project layers of Some p \<Rightarrow> Some p | None \<Rightarrow> in_root ''zlauder.toml'')
         | ScopeLocal \<Rightarrow>
             (case ly_local layers of Some p \<Rightarrow> Some p | None \<Rightarrow> in_root ''zlauder.local.toml''))"

text \<open>The names serde gives to profiles, categories and operators; a skipped variant has none.\<close>

fun profile_name :: "profile \<Rightarrow> string" where
  "profile_name Strict = ''strict''"
| "profile_name Balanced = ''balanced''"
| "profile_name Minimal = ''minimal''"
| "profile_name SecretsOnly = ''secrets_only''"

definition profile_of_name :: "string \<Rightarrow> profile option" where
  "profile_of_name s =
     (if s = ''development_safe'' then Some SecretsOnly
      else find (\<lambda>p. profile_name p = s) [Strict, Balanced, Minimal, SecretsOnly])"

fun category_name :: "category \<Rightarrow> string" where
  "category_name Secrets = ''secrets''"
| "category_name Financial = ''financial''"
| "category_name Identity = ''identity''"
| "category_name Contact = ''contact''"
| "category_name Network = ''network''"
| "category_name Personal = ''personal''"

fun operator_kind :: "operator \<Rightarrow> string option" where
  "operator_kind OpToken = Some ''token''"
| "operator_kind OpRedact = Some ''redact''"
| "operator_kind (OpMask ch n) = Some ''mask''"
| "operator_kind OpHash = Some ''hash''"
| "operator_kind OpBroker = Some ''broker''"
| "operator_kind OpLocal = None"
| "operator_kind OpKeep = Some ''keep''"

definition put_profile :: "toml_wire \<Rightarrow> profile \<Rightarrow> string \<Rightarrow> toml_doc \<Rightarrow> toml_doc option" where
  "put_profile W p kind d =
     (let d0 = (if d ''engine'' = None then d(''engine'' \<mapsto> TTbl Block Map.empty) else d);
          cats = sort (map category_name (sorted_list_of_set (default_categories p)))
      in Option.bind (doc_put W [''engine'', ''profile''] (TStr (profile_name p)) d0) (\<lambda>d1.
         Option.bind (doc_put W [''engine'', ''score_threshold'']
             (TAtom (tw_float W (default_threshold p))) d1) (\<lambda>d2.
         Option.bind (doc_put W [''engine'', ''enabled_categories''] (TArr Inline (map TStr cats)) d2)
           (doc_put W [''engine'', ''default_operator''] (TTbl Inline [''kind'' \<mapsto> TStr kind])))))"

definition persist_profile ::
  "toml_wire \<Rightarrow> config_layers \<Rightarrow> string \<Rightarrow> scope \<Rightarrow> profile \<Rightarrow> files \<Rightarrow> persist_outcome \<times> files" where
  "persist_profile W layers project_root scope p fs =
     (case scope_file_path layers project_root scope of
        None \<Rightarrow> (NotPersisted NoPersistPath, fs)
      | Some path \<Rightarrow>
          (case operator_kind (default_operator_of p) of
             None \<Rightarrow> (NotPersisted UnserializableOperator, fs)
           | Some kind \<Rightarrow>
               (case scope_doc W fs path of
                  None \<Rightarrow> (NotPersisted (ParsingScope path), fs)
                | Some d \<Rightarrow>
                    (case put_profile W p kind d of
                       None \<Rightarrow> (PersistPanic, fs)
                     | Some d' \<Rightarrow> write_doc W path d' fs))))"

end
