(* ===== verification/Providers.thy ===== *)
theory Providers
  imports Json Detect
begin

text \<open>
  The crate \<open>zlauder-secrets\<close>: references to secrets, the one place that spawns a backend, the
  backends, their registry, and the classifier that picks the default operator of a secret.  The
  processes, the environment, the dotenv reader and the JSON parser are the record
  \<open>proc_world\<close>; an error keeps the case its text is formatted from.
\<close>

section \<open>Texts\<close>

definition chop_cr :: "string \<Rightarrow> string" where
  "chop_cr l = (if l \<noteq> [] \<and> last l = CHR 0x0D then butlast l else l)"

text \<open>\<open>str::lines\<close>.\<close>

function str_lines :: "string \<Rightarrow> string list" where
  "str_lines s =
     (if s = [] then []
      else (let l = takeWhile (\<lambda>c. c \<noteq> CHR 0x0A) s; r = dropWhile (\<lambda>c. c \<noteq> CHR 0x0A) s
            in if r = [] then [l] else chop_cr l # str_lines (tl r)))"
  by pat_completeness auto
termination
proof (relation "measure length")
  fix s :: string and l r
  assume "s \<noteq> []" and r: "r = dropWhile (\<lambda>c. c \<noteq> CHR 0x0A) s" "r \<noteq> []"
  have "length r \<le> length s" unfolding r(1) by (rule length_dropWhile_le)
  then show "(tl r, s) \<in> measure length" using r(2) by (cases r) simp_all
qed simp

declare str_lines.simps [simp del]

definition first_line :: "string \<Rightarrow> string" where
  "first_line s = (case str_lines s of [] \<Rightarrow> [] | l # _ \<Rightarrow> l)"

text \<open>\<open>split_once(c)\<close>.\<close>

fun split_once :: "char \<Rightarrow> string \<Rightarrow> (string \<times> string) option" where
  "split_once c [] = None"
| "split_once c (d # ds) =
     (if d = c then Some ([], ds) else map_option (map_prod ((#) d) id) (split_once c ds))"

lemma split_once_Some: "split_once c s = Some (a, b) \<longleftrightarrow> s = a @ c # b \<and> c \<notin> set a"
proof (induction s arbitrary: a)
  case (Cons d ds)
  then show ?case by (cases a) auto
qed simp

lemma split_once_None: "split_once c s = None \<longleftrightarrow> c \<notin> set s"
  by (induction s) auto

text \<open>\<open>String::from_utf8_lossy\<close>: every maximal ill-formed part is one replacement character.\<close>

definition utf8_second :: "nat \<Rightarrow> char \<Rightarrow> bool" where
  "utf8_second a b \<longleftrightarrow>
     is_cont b \<and> (a = 224 \<longrightarrow> 160 \<le> code b) \<and> (a = 237 \<longrightarrow> code b < 160) \<and>
     (a = 240 \<longrightarrow> 144 \<le> code b) \<and> (a = 244 \<longrightarrow> code b < 144)"

definition utf8_width :: "nat \<Rightarrow> nat" where
  "utf8_width a =
     (if a < 128 then 1 else if 194 \<le> a \<and> a \<le> 223 then 2 else if 224 \<le> a \<and> a \<le> 239 then 3
      else if 240 \<le> a \<and> a \<le> 244 then 4 else 0)"

text \<open>Whether the text starts with a character, and the length of it or of the ill-formed part.\<close>

definition utf8_step :: "char \<Rightarrow> string \<Rightarrow> bool \<times> nat" where
  "utf8_step a r =
     (let w = utf8_width (code a);
          good = (case r of
                    [] \<Rightarrow> 0
                  | b # r1 \<Rightarrow>
                      if utf8_second (code a) b
                      then 1 + length (takeWhile is_cont (take (w - 2) r1)) else 0)
      in if w = 0 then (False, 1)
         else if w - 1 \<le> min good (w - 1) then (True, w)
         else (False, 1 + min good (w - 1)))"

definition replacement_char :: string where
  "replacement_char = [CHR 0xEF, CHR 0xBF, CHR 0xBD]"

function utf8_lossy :: "string \<Rightarrow> string" where
  "utf8_lossy [] = []"
| "utf8_lossy (a # r) =
     (let (ok, n) = utf8_step a r
      in (if ok then take n (a # r) else replacement_char) @ utf8_lossy (drop (n - 1) r))"
  by pat_completeness auto
termination
  by (relation "measure length") auto

section \<open>References and errors\<close>

record secret_ref =
  sf_scheme :: string
  sf_path :: string
  sf_field :: "string option"
  sf_version :: "string option"

definition secret_ref_new :: "string \<Rightarrow> string \<Rightarrow> secret_ref" where
  "secret_ref_new scheme path =
     \<lparr>sf_scheme = scheme, sf_path = path, sf_field = None, sf_version = None\<rparr>"

datatype bad_ref = MissingScheme string | EmptyScheme string | EmptyField string | EmptyPath string
  | DotenvNeedsField

datatype unsupported = FieldUnsupported string | NoProvider string | ListUnsupported string

datatype bad_output = NotUtf8 | NotJson string | NotScalar string | BadDotenvLine string

datatype spawn_problem = EmptyArgv | SpawnProblem string string

datatype provider_error =
    NotFound
  | BinaryMissing string
  | Spawn spawn_problem
  | Auth string
  | ParseOutput bad_output
  | Unsupported unsupported
  | IoError string
  | BadRef bad_ref

definition secret_ref_parse :: "string \<Rightarrow> provider_error + secret_ref" where
  "secret_ref_parse s =
     (case split_once (CHR '':'') s of
        None \<Rightarrow> Inl (BadRef (MissingScheme s))
      | Some (scheme, rest) \<Rightarrow>
          if scheme = [] then Inl (BadRef (EmptyScheme s))
          else (case split_once (CHR ''#'') rest of
                  Some (p, f) \<Rightarrow>
                    if f = [] then Inl (BadRef (EmptyField s))
                    else if p = [] then Inl (BadRef (EmptyPath s))
                    else Inr \<lparr>sf_scheme = scheme, sf_path = p, sf_field = Some f, sf_version = None\<rparr>
                | None \<Rightarrow>
                    if rest = [] then Inl (BadRef (EmptyPath s))
                    else Inr (secret_ref_new scheme rest)))"

section \<open>The broker\<close>

datatype spawn_result = SpawnNotFound | SpawnFault string | Exited bool string string

record proc_world =
  pw_env :: "string \<rightharpoonup> string"
  pw_run :: "string list \<Rightarrow> (string \<rightharpoonup> string) \<Rightarrow> string option \<Rightarrow> spawn_result"
  pw_dotenv :: "string \<Rightarrow> (string + string \<times> string) list option"
  pw_json :: "string \<Rightarrow> string + json"
  pw_is_relative :: "string \<Rightarrow> bool"

definition ENV_ALLOWLIST :: "string list" where
  "ENV_ALLOWLIST =
     [''PATH'', ''HOME'', ''USER'', ''LOGNAME'', ''LANG'', ''LC_ALL'', ''TERM'', ''TMPDIR'',
      ''XDG_CONFIG_HOME'', ''XDG_DATA_HOME'', ''XDG_RUNTIME_DIR'', ''XDG_CACHE_HOME'',
      ''GNUPGHOME'', ''GPG_TTY'', ''GPG_AGENT_INFO'', ''SSH_AUTH_SOCK'', ''SSH_AGENT_PID'',
      ''DBUS_SESSION_BUS_ADDRESS'', ''DISPLAY'', ''WAYLAND_DISPLAY'', ''SOPS_AGE_KEY_FILE'',
      ''AGE_KEY_FILE'', ''AWS_PROFILE'', ''AWS_REGION'', ''AWS_CONFIG_FILE'',
      ''AWS_SHARED_CREDENTIALS_FILE'', ''PASSWORD_STORE_DIR'']"

record broker_output =
  bo_status_success :: bool
  bo_stdout :: string
  bo_stderr :: string

definition STDERR_CAP :: nat where
  "STDERR_CAP = 200"

definition sanitize_stderr :: "'x ext_scheme \<Rightarrow> string \<Rightarrow> string" where
  "sanitize_stderr X raw =
     (let chars = utf8_chars (str_trim X (first_line (utf8_lossy raw)))
      in concat (take STDERR_CAP chars) @
         (if STDERR_CAP < length chars then [CHR 0xE2, CHR 0x80, CHR 0xA6] else []))"

definition probe_process ::
  "'x ext_scheme \<Rightarrow> proc_world \<Rightarrow> string list \<Rightarrow> string option \<Rightarrow> provider_error + broker_output" where
  "probe_process X pw argv cwd =
     (case argv of
        [] \<Rightarrow> Inl (Spawn EmptyArgv)
      | bin # args \<Rightarrow>
          (case pw_run pw argv (pw_env pw |` set ENV_ALLOWLIST) cwd of
             SpawnNotFound \<Rightarrow> Inl (BinaryMissing bin)
           | SpawnFault e \<Rightarrow> Inl (Spawn (SpawnProblem bin e))
           | Exited success out err \<Rightarrow>
               Inr \<lparr>bo_status_success = success, bo_stdout = (if success then out else []),
                    bo_stderr = sanitize_stderr X err\<rparr>))"

definition run_process ::
  "'x ext_scheme \<Rightarrow> proc_world \<Rightarrow> string list \<Rightarrow> string option \<Rightarrow> provider_error + string" where
  "run_process X pw argv cwd =
     (case probe_process X pw argv cwd of
        Inl e \<Rightarrow> Inl e
      | Inr out \<Rightarrow>
          if \<not> bo_status_success out then Inl (Auth (bo_stderr out)) else Inr (bo_stdout out))"

section \<open>Backends\<close>

record cli_manifest =
  cm_scheme :: string
  cm_fields :: bool
  cm_resolve_argv :: "proc_world \<Rightarrow> secret_ref \<Rightarrow> string list"
  cm_parse_output :: "proc_world \<Rightarrow> secret_ref \<Rightarrow> string \<Rightarrow> provider_error + string"
  cm_health_argv :: "string list"
  cm_use_project_root_cwd :: bool

definition cli_cwd :: "cli_manifest \<Rightarrow> string option \<Rightarrow> string option" where
  "cli_cwd cm project_root = (if cm_use_project_root_cwd cm then project_root else None)"

datatype health = HealthOk | HealthBinaryMissing string | HealthAgentLocked | HealthNeedsUnlock
  | HealthMisconfigured provider_error

definition cli_health ::
  "'x ext_scheme \<Rightarrow> proc_world \<Rightarrow> string option \<Rightarrow> cli_manifest \<Rightarrow> health" where
  "cli_health X pw project_root cm =
     (case probe_process X pw (cm_health_argv cm) (cli_cwd cm project_root) of
        Inl (BinaryMissing b) \<Rightarrow> HealthBinaryMissing b
      | Inl e \<Rightarrow> HealthMisconfigured e
      | Inr out \<Rightarrow> if bo_status_success out then HealthOk else HealthAgentLocked)"

definition cli_resolve ::
  "'x ext_scheme \<Rightarrow> proc_world \<Rightarrow> string option \<Rightarrow> cli_manifest \<Rightarrow> secret_ref \<Rightarrow>
   provider_error + string" where
  "cli_resolve X pw project_root cm r =
     (if sf_field r \<noteq> None \<and> \<not> cm_fields cm
      then Inl (Unsupported (FieldUnsupported (cm_scheme cm)))
      else (case run_process X pw (cm_resolve_argv cm pw r) (cli_cwd cm project_root) of
              Inl e \<Rightarrow> Inl e
            | Inr out \<Rightarrow>
                (case cm_parse_output cm pw r out of
                   Inl e \<Rightarrow> Inl e
                 | Inr v \<Rightarrow> if v = [] then Inl NotFound else Inr v)))"

fun pass_field :: "'x ext_scheme \<Rightarrow> string \<Rightarrow> string list \<Rightarrow> provider_error + string" where
  "pass_field X field [] = Inl NotFound"
| "pass_field X field (line # lines) =
     (case split_once (CHR '':'') line of
        Some (key, v) \<Rightarrow>
          if map ascii_lower (str_trim X key) = map ascii_lower (str_trim X field)
          then Inr (str_trim X v) else pass_field X field lines
      | None \<Rightarrow> pass_field X field lines)"

definition pass_parse ::
  "'x ext_scheme \<Rightarrow> proc_world \<Rightarrow> secret_ref \<Rightarrow> string \<Rightarrow> provider_error + string" where
  "pass_parse X pw r out =
     (case sf_field r of
        None \<Rightarrow> Inr (first_line (utf8_lossy out))
      | Some field \<Rightarrow> pass_field X field (str_lines (utf8_lossy out)))"

definition pass_provider :: "'x ext_scheme \<Rightarrow> cli_manifest" where
  "pass_provider X =
     \<lparr>cm_scheme = ''pass'', cm_fields = True,
      cm_resolve_argv = (\<lambda>pw r. [''pass'', ''show'', sf_path r]),
      cm_parse_output = pass_parse X, cm_health_argv = [''pass'', ''ls''],
      cm_use_project_root_cwd = False\<rparr>"

definition identity_path :: "proc_world \<Rightarrow> string" where
  "identity_path pw =
     (case pw_env pw ''ZLAUDER_AGE_IDENTITY'' of
        Some p \<Rightarrow> p
      | None \<Rightarrow>
          (case pw_env pw ''AGE_KEY_FILE'' of
             Some p \<Rightarrow> p
           | None \<Rightarrow>
               (case pw_env pw ''HOME'' of Some h \<Rightarrow> h | None \<Rightarrow> []) @ ''/.config/age/keys.txt''))"

definition age_parse :: "proc_world \<Rightarrow> secret_ref \<Rightarrow> string \<Rightarrow> provider_error + string" where
  "age_parse pw r out =
     (if \<not> utf8_ok out then Inl (ParseOutput NotUtf8)
      else Inr (if out \<noteq> [] \<and> last out = CHR 0x0A then butlast out else out))"

definition age_provider :: cli_manifest where
  "age_provider =
     \<lparr>cm_scheme = ''age'', cm_fields = False,
      cm_resolve_argv = (\<lambda>pw r. [''age'', ''--decrypt'', ''--identity'', identity_path pw, sf_path r]),
      cm_parse_output = age_parse, cm_health_argv = [''age'', ''--version''],
      cm_use_project_root_cwd = False\<rparr>"

fun descend :: "string list \<Rightarrow> json \<Rightarrow> json option" where
  "descend [] v = Some v"
| "descend (k # ks) v = (case json_get k v of None \<Rightarrow> None | Some w \<Rightarrow> descend ks w)"

definition extract_dotted :: "json \<Rightarrow> string \<Rightarrow> provider_error + string" where
  "extract_dotted v field =
     (case descend (str_split (\<lambda>ch. ch = ''.'') field) v of
        None \<Rightarrow> Inl NotFound
      | Some (JStr s) \<Rightarrow> Inr s
      | Some (JNum n) \<Rightarrow> Inr n
      | Some (JBool b) \<Rightarrow> Inr (if b then ''true'' else ''false'')
      | Some _ \<Rightarrow> Inl (ParseOutput (NotScalar field)))"

definition sops_parse :: "proc_world \<Rightarrow> secret_ref \<Rightarrow> string \<Rightarrow> provider_error + string" where
  "sops_parse pw r out =
     (case pw_json pw out of
        Inl e \<Rightarrow> Inl (ParseOutput (NotJson e))
      | Inr v \<Rightarrow>
          (case sf_field r of
             None \<Rightarrow> Inr (utf8_lossy out)
           | Some field \<Rightarrow> extract_dotted v field))"

definition sops_provider :: cli_manifest where
  "sops_provider =
     \<lparr>cm_scheme = ''sops'', cm_fields = True,
      cm_resolve_argv = (\<lambda>pw r. [''sops'', ''--decrypt'', ''--output-type'', ''json'', sf_path r]),
      cm_parse_output = sops_parse, cm_health_argv = [''sops'', ''--version''],
      cm_use_project_root_cwd = True\<rparr>"

fun dotenv_find :: "string \<Rightarrow> (string + string \<times> string) list \<Rightarrow> provider_error + string" where
  "dotenv_find field [] = Inl NotFound"
| "dotenv_find field (Inl e # items) = Inl (ParseOutput (BadDotenvLine e))"
| "dotenv_find field (Inr (key, v) # items) = (if key = field then Inr v else dotenv_find field items)"

definition dotenv_file_path :: "proc_world \<Rightarrow> string option \<Rightarrow> string \<Rightarrow> string" where
  "dotenv_file_path pw project_root path =
     (case project_root of
        Some r \<Rightarrow>
          if pw_is_relative pw path
          then (if r = [] \<or> last r = CHR ''/'' then r @ path else r @ ''/'' @ path) else path
      | None \<Rightarrow> path)"

definition dotenv_resolve ::
  "proc_world \<Rightarrow> string option \<Rightarrow> secret_ref \<Rightarrow> provider_error + string" where
  "dotenv_resolve pw project_root r =
     (case sf_field r of
        None \<Rightarrow> Inl (BadRef DotenvNeedsField)
      | Some field \<Rightarrow>
          (case pw_dotenv pw (dotenv_file_path pw project_root (sf_path r)) of
             None \<Rightarrow> Inl NotFound
           | Some items \<Rightarrow> dotenv_find field items))"

definition env_resolve :: "proc_world \<Rightarrow> secret_ref \<Rightarrow> provider_error + string" where
  "env_resolve pw r =
     (if sf_field r \<noteq> None then Inl (Unsupported (FieldUnsupported ''env''))
      else (case pw_env pw (sf_path r) of Some v \<Rightarrow> Inr v | None \<Rightarrow> Inl NotFound))"

section \<open>The registry\<close>

datatype provider = CliProvider cli_manifest | DotenvProvider | EnvProvider

fun provider_scheme :: "provider \<Rightarrow> string" where
  "provider_scheme (CliProvider cm) = cm_scheme cm"
| "provider_scheme DotenvProvider = ''dotenv''"
| "provider_scheme EnvProvider = ''env''"

fun provider_resolve ::
  "'x ext_scheme \<Rightarrow> proc_world \<Rightarrow> string option \<Rightarrow> provider \<Rightarrow> secret_ref \<Rightarrow> provider_error + string"
where
  "provider_resolve X pw proj (CliProvider cm) r = cli_resolve X pw proj cm r"
| "provider_resolve X pw proj DotenvProvider r = dotenv_resolve pw proj r"
| "provider_resolve X pw proj EnvProvider r = env_resolve pw r"

fun provider_health :: "'x ext_scheme \<Rightarrow> proc_world \<Rightarrow> string option \<Rightarrow> provider \<Rightarrow> health" where
  "provider_health X pw proj (CliProvider cm) = cli_health X pw proj cm"
| "provider_health X pw proj DotenvProvider = HealthOk"
| "provider_health X pw proj EnvProvider = HealthOk"

definition registry_provider :: "provider list \<Rightarrow> string \<Rightarrow> provider option" where
  "registry_provider reg scheme = find (\<lambda>p. provider_scheme p = scheme) reg"

definition registry_resolve ::
  "'x ext_scheme \<Rightarrow> proc_world \<Rightarrow> string option \<Rightarrow> provider list \<Rightarrow> secret_ref \<Rightarrow>
   provider_error + string" where
  "registry_resolve X pw proj reg r =
     (case registry_provider reg (sf_scheme r) of
        Some p \<Rightarrow> provider_resolve X pw proj p r
      | None \<Rightarrow> Inl (Unsupported (NoProvider (sf_scheme r))))"

definition registry_health ::
  "'x ext_scheme \<Rightarrow> proc_world \<Rightarrow> string option \<Rightarrow> provider list \<Rightarrow> string \<Rightarrow> health option" where
  "registry_health X pw proj reg scheme =
     map_option (provider_health X pw proj) (registry_provider reg scheme)"

definition default_registry :: "'x ext_scheme \<Rightarrow> provider list" where
  "default_registry X =
     [CliProvider (pass_provider X), CliProvider age_provider, CliProvider sops_provider,
      DotenvProvider, EnvProvider]"

section \<open>The classifier\<close>

datatype eligible_reason = NameMatch | EntropyMatch | BothMatch

datatype skip_reason = SkipEmpty | TooShort | LowEntropy | BooleanLike | IntegerLike | EnumLike

datatype eligibility = Eligible eligible_reason operator | Skip skip_reason

definition NAME_RE :: string where
  "NAME_RE = ''(?i)(PASSWORD|PASSWD|SECRET|TOKEN|APIKEY|API_KEY|KEY|CREDENTIAL|DSN|PRIVATE|AUTH|BEARER)''"

definition MIN_LEN :: nat where
  "MIN_LEN = 8"

definition is_boolean_like :: "'x ext_scheme \<Rightarrow> string \<Rightarrow> bool" where
  "is_boolean_like X v \<longleftrightarrow>
     map ascii_lower (str_trim X v) \<in>
       {''true'', ''false'', ''yes'', ''no'', ''on'', ''off'', ''1'', ''0'', ''enabled'', ''disabled''}"

definition is_integer_like :: "'x ext_scheme \<Rightarrow> string \<Rightarrow> bool" where
  "is_integer_like X v \<longleftrightarrow> str_trim X v \<noteq> [] \<and> list_all is_digit_b (str_trim X v)"

definition is_enum_like :: "string \<Rightarrow> bool" where
  "is_enum_like v \<longleftrightarrow> length v < MIN_LEN \<and> v \<noteq> [] \<and> list_all is_alpha_b v"

definition classify_secret :: "'x ext_scheme \<Rightarrow> string \<Rightarrow> string \<Rightarrow> eligibility" where
  "classify_secret X name v =
     (if v = [] then Skip SkipEmpty
      else if is_boolean_like X v then Skip BooleanLike
      else if is_integer_like X v then Skip IntegerLike
      else if is_enum_like v then Skip EnumLike
      else
        (let name_match = x_re_find_iter X NAME_RE False name \<noteq> [];
             ent = shannon_entropy v;
             entropy_match = MIN_LEN \<le> length v \<and> 7 / 2 \<le> ent
         in if name_match \<or> entropy_match
            then Eligible
                   (if name_match \<and> entropy_match then BothMatch
                    else if name_match then NameMatch else EntropyMatch)
                   (if 4 \<le> ent then OpHash else OpRedact)
            else if length v < MIN_LEN then Skip TooShort else Skip LowEntropy))"

section \<open>What holds of them\<close>

text \<open>The text of a reference.\<close>

definition secret_ref_text :: "secret_ref \<Rightarrow> string" where
  "secret_ref_text r =
     sf_scheme r @ '':'' @ sf_path r @ (case sf_field r of None \<Rightarrow> [] | Some f \<Rightarrow> ''#'' @ f)"

text \<open>
  A text parses exactly to the references it is the text of: the scheme has no colon, the path no
  hash, and no part is empty.
\<close>

lemma secret_ref_parse_iff:
  "secret_ref_parse s = Inr r \<longleftrightarrow>
     s = secret_ref_text r \<and> sf_version r = None \<and> sf_scheme r \<noteq> [] \<and> CHR '':'' \<notin> set (sf_scheme r) \<and>
     sf_path r \<noteq> [] \<and> CHR ''#'' \<notin> set (sf_path r) \<and> sf_field r \<noteq> Some []"
proof
  assume p: "secret_ref_parse s = Inr r"
  then obtain scheme rest where 1: "split_once (CHR '':'') s = Some (scheme, rest)" "scheme \<noteq> []"
    by (auto simp: secret_ref_parse_def split: option.splits if_splits)
  note s = 1(1) [unfolded split_once_Some]
  show "s = secret_ref_text r \<and> sf_version r = None \<and> sf_scheme r \<noteq> [] \<and> CHR '':'' \<notin> set (sf_scheme r) \<and>
     sf_path r \<noteq> [] \<and> CHR ''#'' \<notin> set (sf_path r) \<and> sf_field r \<noteq> Some []"
  proof (cases "split_once (CHR ''#'') rest")
    case None
    then have "r = secret_ref_new scheme rest" "rest \<noteq> []"
      using p 1 by (auto simp: secret_ref_parse_def split: if_splits)
    then show ?thesis
      using 1(2) s None by (simp add: secret_ref_new_def secret_ref_text_def split_once_None)
  next
    case (Some pf)
    then obtain path f where "split_once (CHR ''#'') rest = Some (path, f)" by (cases pf) simp
    moreover from this p 1
    have "r = \<lparr>sf_scheme = scheme, sf_path = path, sf_field = Some f, sf_version = None\<rparr>"
      "path \<noteq> []" "f \<noteq> []"
      by (auto simp: secret_ref_parse_def split: if_splits)
    ultimately show ?thesis using 1(2) s by (simp add: secret_ref_text_def split_once_Some)
  qed
next
  assume r: "s = secret_ref_text r \<and> sf_version r = None \<and> sf_scheme r \<noteq> [] \<and> CHR '':'' \<notin> set (sf_scheme r) \<and>
     sf_path r \<noteq> [] \<and> CHR ''#'' \<notin> set (sf_path r) \<and> sf_field r \<noteq> Some []"
  define rest where "rest = sf_path r @ (case sf_field r of None \<Rightarrow> [] | Some f \<Rightarrow> ''#'' @ f)"
  have s: "split_once (CHR '':'') s = Some (sf_scheme r, rest)"
    using r by (simp add: split_once_Some secret_ref_text_def rest_def)
  show "secret_ref_parse s = Inr r"
  proof (cases "sf_field r")
    case None
    then have "split_once (CHR ''#'') rest = None" using r by (simp add: split_once_None rest_def)
    with s r None show ?thesis
      by (cases r) (simp add: secret_ref_parse_def secret_ref_new_def rest_def)
  next
    case (Some f)
    then have "split_once (CHR ''#'') rest = Some (sf_path r, f)"
      using r by (simp add: split_once_Some rest_def)
    with s r Some show ?thesis by (cases r) (simp add: secret_ref_parse_def)
  qed
qed

end
