(* ===== verification/SecretsInstall.thy ===== *)
theory SecretsInstall
  imports ConfigFiles Providers RoundTrip
begin

text \<open>
  \<open>secrets.rs\<close> of the proxy: the broker policy built from the configuration, and the resolution of
  the configured references into secret rules, which are installed as a whole next to the rule
  that protects the admin key.
\<close>

section \<open>The broker policy\<close>

datatype policy_error = UnknownDest string | EmptyHostList string | BadRule engine_error

definition parse_dest :: "'x ext_scheme \<Rightarrow> string option \<Rightarrow> policy_error + dest_rule option" where
  "parse_dest X spec =
     (case spec of
        None \<Rightarrow> Inr None
      | Some s \<Rightarrow>
          if s = ''any'' then Inr (Some AnyHost)
          else (case strip_prefix ''host_allowlist:'' s of
                  None \<Rightarrow> Inl (UnknownDest s)
                | Some rest \<Rightarrow>
                    (let hosts = filter (\<lambda>h. h \<noteq> [])
                           (map (str_trim X) (str_split (\<lambda>ch. ch = '','') rest))
                     in if hosts = [] then Inl (EmptyHostList s)
                        else Inr (Some (HostAllowList hosts)))))"

fun build_broker_policy ::
  "'x ext_scheme \<Rightarrow> broker_allow_spec list \<Rightarrow> policy_error + broker_policy" where
  "build_broker_policy X [] = Inr []"
| "build_broker_policy X (s # specs) =
     (case parse_dest X (bs_dest s) of
        Inl e \<Rightarrow> Inl e
      | Inr dest \<Rightarrow>
          (case broker_allow_new X (bs_secret s) (bs_tool s) (bs_param s) dest (bs_ttl_secs s) of
             Inl e \<Rightarrow> Inl (BadRule e)
           | Inr rule \<Rightarrow>
               (case build_broker_policy X specs of
                  Inl e \<Rightarrow> Inl e
                | Inr rules \<Rightarrow> Inr (rule # rules))))"

section \<open>The rules\<close>

definition ADMIN_KEY_SECRET_NAME :: string where
  "ADMIN_KEY_SECRET_NAME = RESERVED_NONDEREF_SECRET"

definition admin_key_rule :: "string \<Rightarrow> secret_rule" where
  "admin_key_rule admin_key =
     \<lparr>sr_name = ADMIN_KEY_SECRET_NAME, sr_value = admin_key, sr_operator = OpLocal,
      sr_case_sensitive = True, sr_apply_to_surfaces = None\<rparr>"

text \<open>The cases the messages of a status entry are formatted from.\<close>

datatype status_error =
    ReservedName
  | InvalidFromRef
  | BothRefs string
  | NoRef string
  | UnknownOperator string
  | ProviderFailed reason_code
  | InstallFailed engine_error
and reason_code =
    ReasonNotFound
  | ReasonBinaryMissing string
  | ReasonSpawn
  | ReasonAuth
  | ReasonParse
  | ReasonUnsupported
  | ReasonIo
  | ReasonBadRef

fun safe_reason :: "provider_error \<Rightarrow> reason_code" where
  "safe_reason NotFound = ReasonNotFound"
| "safe_reason (BinaryMissing b) = ReasonBinaryMissing b"
| "safe_reason (Spawn p) = ReasonSpawn"
| "safe_reason (Auth t) = ReasonAuth"
| "safe_reason (ParseOutput p) = ReasonParse"
| "safe_reason (Unsupported u) = ReasonUnsupported"
| "safe_reason (IoError t) = ReasonIo"
| "safe_reason (BadRef b) = ReasonBadRef"

record secret_status =
  se_name :: string
  se_operator :: string
  se_scheme :: string
  se_required :: bool
  se_resolved :: bool
  se_error :: "status_error option"

definition status_resolved :: "secret_status list \<Rightarrow> nat" where
  "status_resolved entries = length (filter se_resolved entries)"

definition status_required :: "secret_status list \<Rightarrow> nat" where
  "status_required entries = length (filter se_required entries)"

definition spec_to_ref :: "secret_spec \<Rightarrow> status_error + secret_ref" where
  "spec_to_ref spec =
     (case (sp_from_ref spec, sp_from_env spec) of
        (Some r, None) \<Rightarrow>
          (case secret_ref_parse r of Inl _ \<Rightarrow> Inl InvalidFromRef | Inr x \<Rightarrow> Inr x)
      | (None, Some v) \<Rightarrow> Inr (secret_ref_new ''env'' v)
      | (Some _, Some _) \<Rightarrow> Inl (BothRefs (sp_name spec))
      | (None, None) \<Rightarrow> Inl (NoRef (sp_name spec)))"

definition parse_operator :: "string \<Rightarrow> status_error + operator" where
  "parse_operator s =
     (if s = ''hash'' then Inr OpHash
      else if s = ''redact'' then Inr OpRedact
      else if s = ''broker'' then Inr OpBroker
      else if s = ''mask'' then Inr (OpMask ''*'' 4)
      else Inl (UnknownOperator s))"

definition default_secret_operator :: "'x ext_scheme \<Rightarrow> string \<Rightarrow> string \<Rightarrow> operator" where
  "default_secret_operator X name v =
     (case classify_secret X name v of Eligible reason p \<Rightarrow> p | Skip _ \<Rightarrow> OpHash)"

fun operator_name :: "operator \<Rightarrow> string" where
  "operator_name OpToken = ''token''"
| "operator_name OpRedact = ''redact''"
| "operator_name (OpMask ch n) = ''mask''"
| "operator_name OpHash = ''hash''"
| "operator_name OpBroker = ''broker''"
| "operator_name OpLocal = ''local''"
| "operator_name OpKeep = ''keep''"

text \<open>The entry of a failed resolution, \<open>push_fail\<close>.\<close>

definition failed_entry :: "secret_spec \<Rightarrow> string \<Rightarrow> status_error \<Rightarrow> secret_status" where
  "failed_entry spec scheme err =
     \<lparr>se_name = sp_name spec,
      se_operator = (case sp_operator spec of Some p \<Rightarrow> p | None \<Rightarrow> ''auto''),
      se_scheme = scheme, se_required = sp_required spec, se_resolved = False,
      se_error = Some err\<rparr>"

text \<open>One turn of the loop over the specs: the rule and the operator, or the failed entry.\<close>

definition resolve_spec ::
  "'x ext_scheme \<Rightarrow> (secret_ref \<Rightarrow> provider_error + string) \<Rightarrow> secret_spec \<Rightarrow>
   secret_status + secret_rule \<times> secret_status" where
  "resolve_spec X resolve spec =
     (if slugify (sp_name spec) = slugify ADMIN_KEY_SECRET_NAME
      then Inl (failed_entry spec [] ReservedName)
      else
        (case spec_to_ref spec of
           Inl e \<Rightarrow> Inl (failed_entry spec [] e)
         | Inr sref \<Rightarrow>
             (case resolve sref of
                Inl e \<Rightarrow> Inl (failed_entry spec (sf_scheme sref) (ProviderFailed (safe_reason e)))
              | Inr v \<Rightarrow>
                  (case (case sp_operator spec of
                           Some s \<Rightarrow> parse_operator s
                         | None \<Rightarrow> Inr (default_secret_operator X (sp_name spec) v)) of
                     Inl e \<Rightarrow> Inl (failed_entry spec (sf_scheme sref) e)
                   | Inr operator \<Rightarrow>
                       Inr (\<lparr>sr_name = sp_name spec, sr_value = v, sr_operator = operator,
                             sr_case_sensitive = sp_case_sensitive spec,
                             sr_apply_to_surfaces = None\<rparr>,
                            \<lparr>se_name = sp_name spec, se_operator = operator_name operator,
                             se_scheme = sf_scheme sref, se_required = sp_required spec,
                             se_resolved = True, se_error = None\<rparr>)))))"

text \<open>The loop: the rules, the entries, and whether every required secret resolved.\<close>

fun resolve_specs ::
  "'x ext_scheme \<Rightarrow> (secret_ref \<Rightarrow> provider_error + string) \<Rightarrow> secret_spec list \<Rightarrow>
   secret_rule list \<times> secret_status list \<times> bool" where
  "resolve_specs X resolve [] = ([], [], True)"
| "resolve_specs X resolve (spec # specs) =
     (let (rules, entries, ok) = resolve_specs X resolve specs
      in case resolve_spec X resolve spec of
           Inl entry \<Rightarrow> (rules, entry # entries, ok \<and> \<not> sp_required spec)
         | Inr (rule, entry) \<Rightarrow> (rule # rules, entry # entries, ok))"

definition install_failure :: "engine_error \<Rightarrow> secret_status" where
  "install_failure e =
     \<lparr>se_name = ''<install>'', se_operator = [], se_scheme = [], se_required = True,
      se_resolved = False, se_error = Some (InstallFailed e)\<rparr>"

definition resolve_and_install ::
  "'x ext_scheme \<Rightarrow> (secret_ref \<Rightarrow> provider_error + string) \<Rightarrow> secret_spec list \<Rightarrow> string \<Rightarrow>
   mask_engine \<Rightarrow> (secret_status list \<times> bool) \<times> mask_engine" where
  "resolve_and_install X resolve specs admin_key e =
     (let (rules, entries, ok) = resolve_specs X resolve specs
      in case set_secret_rules X (admin_key_rule admin_key # rules) e of
           (Inl err, e') \<Rightarrow> ((entries @ [install_failure err], False), e')
         | (Inr _, e') \<Rightarrow> ((entries, ok), e'))"

section \<open>Startup\<close>

text \<open>
  What \<open>main\<close> does around it: the admin rule before serving, refused when it does not install, and
  the gate, open at once when no secret is required and opened by a resolution that succeeds.
\<close>

definition startup_secrets ::
  "'x ext_scheme \<Rightarrow> string \<Rightarrow> mask_engine \<Rightarrow> unit result \<times> mask_engine" where
  "startup_secrets X admin_key e = set_secret_rules X [admin_key_rule admin_key] e"

definition gate_at_start :: "secret_spec list \<Rightarrow> bool" where
  "gate_at_start specs = (\<not> list_ex sp_required specs)"

definition background_resolve ::
  "'x ext_scheme \<Rightarrow> (secret_ref \<Rightarrow> provider_error + string) \<Rightarrow> secret_spec list \<Rightarrow> string \<Rightarrow>
   bool \<times> secret_status list \<Rightarrow> mask_engine \<Rightarrow> (bool \<times> secret_status list) \<times> mask_engine" where
  "background_resolve X resolve specs admin_key gate e =
     (if specs = [] then (gate, e)
      else
        (let ((status, ok), e') = resolve_and_install X resolve specs admin_key e
         in ((fst gate \<or> ok, status), e')))"

section \<open>What holds of it\<close>

lemma parse_operator_ok: "parse_operator s = Inr p \<Longrightarrow> secret_operator_ok p"
  by (auto simp: parse_operator_def secret_operator_ok_def split: if_splits)

lemma default_operator_ok: "secret_operator_ok (default_secret_operator X name v)"
  by (auto simp: default_secret_operator_def classify_secret_def secret_operator_ok_def Let_def)

lemma resolve_spec_rule:
  assumes "resolve_spec X resolve spec = Inr (rule, entry)"
  shows "\<exists>sref v. spec_to_ref spec = Inr sref \<and> resolve sref = Inr v \<and>
      sr_name rule = sp_name spec \<and> sr_value rule = v \<and>
      sr_case_sensitive rule = sp_case_sensitive spec \<and> sr_apply_to_surfaces rule = None"
    and "secret_operator_ok (sr_operator rule)" and "sr_operator rule \<noteq> OpLocal"
    and "slugify (sr_name rule) \<noteq> slugify ADMIN_KEY_SECRET_NAME"
    and "se_resolved entry" and "se_required entry = sp_required spec"
proof -
  have local: "default_secret_operator X n v \<noteq> OpLocal" for n v
    by (auto simp: default_secret_operator_def classify_secret_def Let_def)
  have "parse_operator s \<noteq> Inr OpLocal" for s by (simp add: parse_operator_def)
  with assms local show "sr_operator rule \<noteq> OpLocal"
    by (auto simp: resolve_spec_def split: if_splits sum.splits option.splits)
  show "secret_operator_ok (sr_operator rule)"
    using assms parse_operator_ok default_operator_ok
    by (auto simp: resolve_spec_def split: if_splits sum.splits option.splits)
  show "\<exists>sref v. spec_to_ref spec = Inr sref \<and> resolve sref = Inr v \<and>
      sr_name rule = sp_name spec \<and> sr_value rule = v \<and>
      sr_case_sensitive rule = sp_case_sensitive spec \<and> sr_apply_to_surfaces rule = None"
    "slugify (sr_name rule) \<noteq> slugify ADMIN_KEY_SECRET_NAME"
    "se_resolved entry" "se_required entry = sp_required spec"
    using assms by (auto simp: resolve_spec_def split: if_splits sum.splits option.splits)
qed

text \<open>What the loop collects.\<close>

lemma resolve_specs_spec:
  assumes "resolve_specs X resolve specs = (rules, entries, ok)"
  shows "rules = List.map_filter (\<lambda>s. case resolve_spec X resolve s of Inl _ \<Rightarrow> None | Inr (r, _) \<Rightarrow> Some r) specs"
    and "entries = map (\<lambda>s. case resolve_spec X resolve s of Inl n \<Rightarrow> n | Inr (_, n) \<Rightarrow> n) specs"
    and "ok \<longleftrightarrow> (\<forall>s\<in>set specs. sp_required s \<longrightarrow> (\<exists>r. resolve_spec X resolve s = Inr r))"
  using assms
  by (induction specs arbitrary: rules entries ok)
    (auto simp: Let_def map_filter_simps split: prod.splits sum.splits)

lemma set_secret_rules_Inr:
  "set_secret_rules X rules e = (Inr (), e') \<Longrightarrow> sset_compiled (en_secrets e') = map (compile_secret X) rules"
  by (auto simp: set_secret_rules_def Let_def compile_secrets_def compile_secrets_from_Inr_iff
      split: sum.splits prod.splits)

lemma set_secret_rules_Inl:
  "set_secret_rules X rules e = (Inl err, e') \<Longrightarrow> en_secrets e' = en_secrets e"
  by (auto simp: set_secret_rules_def Let_def split: sum.splits prod.splits)

text \<open>The admin key is protected in the engine.\<close>

definition protects_admin :: "'x ext_scheme \<Rightarrow> string \<Rightarrow> mask_engine \<Rightarrow> bool" where
  "protects_admin X admin_key e \<longleftrightarrow>
     compile_secret X (admin_key_rule admin_key) \<in> set (sset_compiled (en_secrets e))"

lemma startup_protects:
  "startup_secrets X admin_key e = (Inr (), e') \<Longrightarrow> protects_admin X admin_key e'"
  by (simp add: startup_secrets_def protects_admin_def set_secret_rules_Inr)

lemma resolve_protects:
  assumes "protects_admin X admin_key e"
    and "resolve_and_install X resolve specs admin_key e = (r, e')"
  shows "protects_admin X admin_key e'"
proof -
  obtain rules entries ok where l: "resolve_specs X resolve specs = (rules, entries, ok)"
    by (cases "resolve_specs X resolve specs") simp
  obtain i e1 where i: "set_secret_rules X (admin_key_rule admin_key # rules) e = (i, e1)" by fastforce
  have e': "e' = e1"
    using assms(2) by (auto simp: resolve_and_install_def l i split: sum.splits)
  show ?thesis
  proof (cases i)
    case (Inl err)
    from set_secret_rules_Inl [OF i [unfolded Inl]] assms(1) e' show ?thesis
      by (simp add: protects_admin_def)
  next
    case (Inr u)
    have "i = Inr ()" using Inr by simp
    from set_secret_rules_Inr [OF i [unfolded this]] e' show ?thesis
      by (simp add: protects_admin_def)
  qed
qed

lemma install_outcome:
  assumes "startup_secrets X admin_key e = (Inr (), e0)"
    and "resolve_and_install X resolve specs admin_key e0 = ((status, ok), e1)"
  shows "ok \<Longrightarrow> s \<in> set specs \<Longrightarrow> sp_required s \<Longrightarrow>
      \<exists>sref v c. spec_to_ref s = Inr sref \<and> resolve sref = Inr v \<and> v \<noteq> [] \<and>
        c \<in> set (sset_compiled (en_secrets e1)) \<and> cs_name c = sp_name s \<and> cs_value c = v \<and>
        secret_operator_ok (cs_operator c) \<and> cs_operator c \<noteq> OpLocal"
    and "protects_admin X admin_key e1"
    and "c \<in> set (sset_compiled (en_secrets e1)) \<Longrightarrow> slugify (cs_name c) = slugify ADMIN_KEY_SECRET_NAME \<Longrightarrow>
      c = compile_secret X (admin_key_rule admin_key)"
    and "\<not> ok \<Longrightarrow>
      (\<exists>s\<in>set specs. sp_required s \<and> (\<exists>n. resolve_spec X resolve s = Inl n)) \<or>
      en_secrets e1 = en_secrets e0"
proof -
  obtain rules entries all where l: "resolve_specs X resolve specs = (rules, entries, all)"
    by (cases "resolve_specs X resolve specs") simp
  note loop = resolve_specs_spec [OF l]
  let ?rules = "admin_key_rule admin_key # rules"
  obtain i e2 where i: "set_secret_rules X ?rules e0 = (i, e2)" by fastforce
  have e1: "e2 = e1" and ok: "ok \<longleftrightarrow> all \<and> i = Inr ()"
    using assms(2) by (auto simp: resolve_and_install_def l i split: sum.splits)
  have start: "sset_compiled (en_secrets e0) = [compile_secret X (admin_key_rule admin_key)]"
    using set_secret_rules_Inr [OF assms(1) [unfolded startup_secrets_def]] by simp
  have kept: "en_secrets e1 = en_secrets e0" if n: "i \<noteq> Inr ()"
  proof -
    obtain err where "i = Inl err" using n by (cases i) auto
    from set_secret_rules_Inl [OF i [unfolded this]] show ?thesis by (simp add: e1)
  qed
  have new: "sset_compiled (en_secrets e1) = map (compile_secret X) ?rules" if "i = Inr ()"
    using set_secret_rules_Inr [OF i [unfolded that]] by (simp add: e1)
  have rule: "\<exists>s\<in>set specs. \<exists>n. resolve_spec X resolve s = Inr (r, n)" if "r \<in> set rules" for r
    using that by (auto simp: loop(1) List.map_filter_def split: sum.splits) blast+
  show "protects_admin X admin_key e1"
    using startup_protects [OF assms(1)] resolve_protects assms(2) by blast
  show "c = compile_secret X (admin_key_rule admin_key)"
    if c: "c \<in> set (sset_compiled (en_secrets e1))" "slugify (cs_name c) = slugify ADMIN_KEY_SECRET_NAME"
  proof (cases "i = Inr ()")
    case False
    with c kept start show ?thesis by simp
  next
    case True
    have "slugify (cs_name (compile_secret X r)) \<noteq> slugify ADMIN_KEY_SECRET_NAME" if "r \<in> set rules" for r
      using rule [OF that] resolve_spec_rule(4) by (fastforce simp: compile_secret_def)
    with c new [OF True] show ?thesis by auto
  qed
  show "(\<exists>s\<in>set specs. sp_required s \<and> (\<exists>n. resolve_spec X resolve s = Inl n)) \<or>
      en_secrets e1 = en_secrets e0" if "\<not> ok"
  proof (cases "i = Inr ()")
    case False
    with kept show ?thesis by simp
  next
    case True
    with that ok loop(3) obtain s where "s \<in> set specs" "sp_required s"
      "\<nexists>r. resolve_spec X resolve s = Inr r" by auto
    then show ?thesis by (metis sum.exhaust)
  qed
  show "\<exists>sref v c. spec_to_ref s = Inr sref \<and> resolve sref = Inr v \<and> v \<noteq> [] \<and>
        c \<in> set (sset_compiled (en_secrets e1)) \<and> cs_name c = sp_name s \<and> cs_value c = v \<and>
        secret_operator_ok (cs_operator c) \<and> cs_operator c \<noteq> OpLocal"
    if o: "ok" and s: "s \<in> set specs" "sp_required s"
  proof -
    from ok o have k: "all" "i = Inr ()" by auto
    then obtain r n where r: "resolve_spec X resolve s = Inr (r, n)" using loop(3) s by force
    have mem: "r \<in> set rules" using r s(1) by (force simp: loop(1) List.map_filter_def)
    have "compile_secrets X ?rules \<noteq> Inl err" for err
      using i k(2) by (auto simp: set_secret_rules_def)
    then obtain out where "compile_secrets_from X {} ?rules = Inr out"
      by (cases "compile_secrets X ?rules") (auto simp: compile_secrets_def)
    from this [unfolded compile_secrets_from_Inr_iff] mem have "sr_value r \<noteq> []" by auto
    moreover obtain sref v where "spec_to_ref s = Inr sref" "resolve sref = Inr v"
      "sr_name r = sp_name s" "sr_value r = v"
      using resolve_spec_rule(1) [OF r] by blast
    moreover have "compile_secret X r \<in> set (sset_compiled (en_secrets e1))"
      using new [OF k(2)] mem by simp
    moreover have "cs_name (compile_secret X r) = sr_name r" "cs_value (compile_secret X r) = sr_value r"
      "cs_operator (compile_secret X r) = sr_operator r"
      by (simp_all add: compile_secret_def)
    ultimately show ?thesis using resolve_spec_rule(2,3) [OF r] by metis
  qed
qed

text \<open>
  C11: the secrets gate is fail-closed.  When the background resolution reports success, every
  required secret was resolved through its reference and is a rule of the engine under its name,
  with a sealing operator, next to the rule of the admin key, and no configured secret shares the
  slug of the admin key or its reveal class; when it reports failure, a required secret did not
  resolve or the whole set was refused, the secrets in force are those from before, and the admin
  key stays protected either way.
\<close>

theorem secrets_gate_fail_closed:
  assumes "startup_secrets X admin_key e = (Inr (), e0)"
    and "resolve_and_install X resolve specs admin_key e0 = ((status, ok), e1)"
  shows "(ok \<longrightarrow> (\<forall>s\<in>set specs. sp_required s \<longrightarrow>
        (\<exists>sref v c. spec_to_ref s = Inr sref \<and> resolve sref = Inr v \<and> v \<noteq> [] \<and>
          c \<in> set (sset_compiled (en_secrets e1)) \<and> cs_name c = sp_name s \<and> cs_value c = v \<and>
          secret_operator_ok (cs_operator c) \<and> cs_operator c \<noteq> OpLocal))) \<and>
    (\<not> ok \<longrightarrow> (\<exists>s\<in>set specs. sp_required s \<and> (\<exists>n. resolve_spec X resolve s = Inl n)) \<or>
      en_secrets e1 = en_secrets e0) \<and>
    protects_admin X admin_key e1 \<and>
    (\<forall>c\<in>set (sset_compiled (en_secrets e1)). slugify (cs_name c) = slugify ADMIN_KEY_SECRET_NAME \<longrightarrow>
      c = compile_secret X (admin_key_rule admin_key))"
  using install_outcome [OF assms] by blast

definition sample_spec :: "string \<Rightarrow> string \<Rightarrow> bool \<Rightarrow> secret_spec" where
  "sample_spec name var required =
     \<lparr>sp_name = name, sp_operator = Some ''redact'', sp_from_ref = None, sp_from_env = Some var,
      sp_required = required, sp_case_sensitive = True\<rparr>"

definition sample_proc :: "(string \<rightharpoonup> string) \<Rightarrow> proc_world" where
  "sample_proc env =
     \<lparr>pw_env = env, pw_run = (\<lambda>argv env cwd. SpawnNotFound), pw_dotenv = (\<lambda>p. None),
      pw_json = (\<lambda>s. Inl []), pw_is_relative = (\<lambda>p. True)\<rparr>"

abbreviation sample_resolve :: "(string \<rightharpoonup> string) \<Rightarrow> secret_ref \<Rightarrow> provider_error + string" where
  "sample_resolve env \<equiv>
     registry_resolve sample_ext (sample_proc env) None (default_registry sample_ext)"

lemma sample_resolve_env:
  "sample_resolve env (secret_ref_new ''env'' var) =
     (case env var of Some v \<Rightarrow> Inr v | None \<Rightarrow> Inl NotFound)"
  by (simp add: registry_resolve_def registry_provider_def default_registry_def secret_ref_new_def
      pass_provider_def age_provider_def sops_provider_def env_resolve_def sample_proc_def)

lemma sample_resolve_spec:
  assumes "env var = Some v" and "slugify name \<noteq> slugify ADMIN_KEY_SECRET_NAME"
  shows "\<exists>n. resolve_spec sample_ext (sample_resolve env) (sample_spec name var required) =
      Inr (\<lparr>sr_name = name, sr_value = v, sr_operator = OpRedact, sr_case_sensitive = True,
            sr_apply_to_surfaces = None\<rparr>, n) \<and> se_resolved n"
  using assms
  by (simp add: resolve_spec_def sample_spec_def spec_to_ref_def sample_resolve_env parse_operator_def)

section \<open>The environment of a backend\<close>

lemma probe_env:
  "env |` set ENV_ALLOWLIST = pw_env pw |` set ENV_ALLOWLIST \<Longrightarrow>
   probe_process X (pw\<lparr>pw_env := env\<rparr>) argv cwd = probe_process X pw argv cwd"
  by (cases argv) (simp_all add: probe_process_def)

lemma cli_resolve_env:
  assumes "\<And>argv cwd. probe_process X (pw\<lparr>pw_env := env\<rparr>) argv cwd = probe_process X pw argv cwd"
    and "cm_resolve_argv cm (pw\<lparr>pw_env := env\<rparr>) r = cm_resolve_argv cm pw r"
    and "\<And>out. cm_parse_output cm (pw\<lparr>pw_env := env\<rparr>) r out = cm_parse_output cm pw r out"
  shows "cli_resolve X (pw\<lparr>pw_env := env\<rparr>) proj cm r = cli_resolve X pw proj cm r"
  using assms by (simp add: cli_resolve_def run_process_def cong: sum.case_cong)

text \<open>
  The environment of the proxy does not reach a backend.  What a reference to pass, age or sops
  resolves to depends on the environment of the proxy only through the variables of the allow
  list and the path of the age identity: any other variable, the raw key of sops included, can
  change without changing the value, the error, or what the process is run with.
\<close>

lemma backend_env_scrubbed:
  assumes "sf_scheme r \<in> {''pass'', ''age'', ''sops''}"
    and "\<And>v. v \<in> set ENV_ALLOWLIST \<Longrightarrow> env v = pw_env pw v"
    and "env ''ZLAUDER_AGE_IDENTITY'' = pw_env pw ''ZLAUDER_AGE_IDENTITY''"
  shows "registry_resolve X (pw\<lparr>pw_env := env\<rparr>) proj (default_registry X) r =
    registry_resolve X pw proj (default_registry X) r"
proof -
  have "env |` set ENV_ALLOWLIST = pw_env pw |` set ENV_ALLOWLIST"
    using assms(2) by (auto simp: restrict_map_def)
  note p = probe_env [OF this]
  have "env ''AGE_KEY_FILE'' = pw_env pw ''AGE_KEY_FILE''" "env ''HOME'' = pw_env pw ''HOME''"
    by (rule assms(2), simp add: ENV_ALLOWLIST_def)+
  with assms(3) have i: "identity_path (pw\<lparr>pw_env := env\<rparr>) = identity_path pw"
    by (simp add: identity_path_def split: option.split)
  note find = registry_resolve_def registry_provider_def default_registry_def
  from assms(1) consider "sf_scheme r = ''pass''" | "sf_scheme r = ''age''" | "sf_scheme r = ''sops''"
    by blast
  then show ?thesis
  proof cases
    case 1
    then show ?thesis
      by (simp add: find pass_provider_def cli_resolve_env [OF p] pass_parse_def)
  next
    case 2
    then show ?thesis
      by (simp add: find pass_provider_def age_provider_def cli_resolve_env [OF p] age_parse_def i)
  next
    case 3
    then show ?thesis
      by (simp add: find pass_provider_def age_provider_def sops_provider_def cli_resolve_env [OF p]
          sops_parse_def)
  qed
qed

lemma backend_env_scrubbed_witness:
  "registry_resolve sample_ext (sample_proc [''HOME'' \<mapsto> ''/h'', ''SOPS_AGE_KEY'' \<mapsto> ''k''])
     None (default_registry sample_ext) (secret_ref_new ''sops'' ''f'') =
   registry_resolve sample_ext (sample_proc [''HOME'' \<mapsto> ''/h'']) None (default_registry sample_ext)
     (secret_ref_new ''sops'' ''f'')"
proof -
  have "registry_resolve sample_ext ((sample_proc [''HOME'' \<mapsto> ''/h''])\<lparr>pw_env :=
        [''HOME'' \<mapsto> ''/h'', ''SOPS_AGE_KEY'' \<mapsto> ''k'']\<rparr>) None (default_registry sample_ext)
        (secret_ref_new ''sops'' ''f'') =
      registry_resolve sample_ext (sample_proc [''HOME'' \<mapsto> ''/h'']) None (default_registry sample_ext)
        (secret_ref_new ''sops'' ''f'')"
    by (rule backend_env_scrubbed) (auto simp: secret_ref_new_def sample_proc_def ENV_ALLOWLIST_def)
  then show ?thesis by (simp add: sample_proc_def)
qed

section \<open>An empty variable\<close>

text \<open>
  C38: one empty variable undoes the secrets.  When the variable of any configured secret, required
  or not, is set but empty, the whole set is refused: the resolution reports failure, and no
  configured secret is a rule of the engine, although the status calls all of them resolved; when
  no secret is required, the gate is open all the same.
\<close>

theorem empty_variable_undoes_secrets:
  assumes "startup_secrets X admin_key e = (Inr (), e0)"
    and "s \<in> set specs" and "resolve_spec X resolve s = Inr (r, n)" and "sr_value r = []"
    and "background_resolve X resolve specs admin_key (gate_at_start specs, []) e0 = ((gate, status), e1)"
  shows "sset_compiled (en_secrets e1) = [compile_secret X (admin_key_rule admin_key)] \<and>
    gate = gate_at_start specs \<and>
    (\<forall>t\<in>set specs. \<forall>r n. resolve_spec X resolve t = Inr (r, n) \<longrightarrow> n \<in> set status \<and> se_resolved n)"
proof -
  obtain rules entries all where l: "resolve_specs X resolve specs = (rules, entries, all)"
    by (cases "resolve_specs X resolve specs") simp
  note loop = resolve_specs_spec [OF l]
  let ?rules = "admin_key_rule admin_key # rules"
  have mem: "r \<in> set rules" using assms(2,3) by (force simp: loop(1) List.map_filter_def)
  obtain i e2 where i: "set_secret_rules X ?rules e0 = (i, e2)" by fastforce
  have "compile_secrets X ?rules \<noteq> Inr out" for out
  proof
    assume "compile_secrets X ?rules = Inr out"
    then have "compile_secrets_from X {} ?rules = Inr out" by (simp add: compile_secrets_def)
    from this [unfolded compile_secrets_from_Inr_iff] mem assms(4) show False by auto
  qed
  then obtain err where "compile_secrets X ?rules = Inl err" by (cases "compile_secrets X ?rules") auto
  with i have ii: "i = Inl err" "e2 = e0" by (auto simp: set_secret_rules_def)
  have "specs \<noteq> []" using assms(2) by auto
  then have "e1 = e0" "gate = gate_at_start specs" "status = entries @ [install_failure err]"
    using assms(5) by (auto simp: background_resolve_def resolve_and_install_def l i ii)
  moreover have "n \<in> set entries \<and> se_resolved n"
    if "t \<in> set specs" "resolve_spec X resolve t = Inr (r, n)" for t r n
    using that resolve_spec_rule(5) [OF that(2)] by (force simp: loop(2))
  ultimately show ?thesis
    using set_secret_rules_Inr [OF assms(1) [unfolded startup_secrets_def]] by auto
qed

definition sample_vars :: "string \<rightharpoonup> string" where
  "sample_vars = [''DB'' \<mapsto> ''hunter2'', ''OPT'' \<mapsto> []]"

lemma sample_intern_locals: "\<exists>s'. intern_locals sample_ext cs s = (Inr (), s')"
proof (induction cs arbitrary: s)
  case Nil
  then show ?case by simp
next
  case (Cons c cs)
  have "\<exists>t s1. intern_local sample_ext (cs_name c) (cs_value c) s = (Inr t, s1)"
    by (auto simp: intern_local_def insert_if_absent_def store_encrypt_def Let_def with_token_def)
  then obtain t s1 where "intern_local sample_ext (cs_name c) (cs_value c) s = (Inr t, s1)" by blast
  with Cons.IH show ?case by simp
qed

lemma sample_set_secret_rules:
  assumes "\<forall>r\<in>set rules. secret_operator_ok (sr_operator r) \<and> sr_value r \<noteq> []"
    and "broker_slugs rules = []"
  obtains e' where "set_secret_rules sample_ext rules e = (Inr (), e')"
proof -
  have "compile_secrets sample_ext rules = Inr (map (compile_secret sample_ext) rules)"
    using assms by (simp add: compile_secrets_def compile_secrets_from_Inr_iff sample_ext_def)
  moreover obtain s' where "intern_locals sample_ext (map (compile_secret sample_ext) rules) (en_store e) = (Inr (), s')"
    using sample_intern_locals by blast
  ultimately show ?thesis using that by (simp add: set_secret_rules_def Let_def)
qed

definition sample_started :: mask_engine where
  "sample_started = snd (startup_secrets sample_ext ''k1'' sample_engine)"

lemma sample_startup: "startup_secrets sample_ext ''k1'' sample_engine = (Inr (), sample_started)"
proof -
  obtain e where "startup_secrets sample_ext ''k1'' sample_engine = (Inr (), e)"
    unfolding startup_secrets_def
    by (rule sample_set_secret_rules [of "[admin_key_rule ''k1'']" sample_engine])
      (auto simp: admin_key_rule_def secret_operator_ok_def broker_slugs_def)
  then show ?thesis by (simp add: sample_started_def)
qed

definition sample_background :: "secret_spec list \<Rightarrow> (bool \<times> secret_status list) \<times> mask_engine" where
  "sample_background specs =
     background_resolve sample_ext (sample_resolve sample_vars) specs ''k1''
       (gate_at_start specs, []) sample_started"

lemma sample_slugs:
  "slugify ''db'' \<noteq> slugify ADMIN_KEY_SECRET_NAME" "slugify ''opt'' \<noteq> slugify ADMIN_KEY_SECRET_NAME"
  by code_simp+

theorem empty_variable_undoes_secrets_witness:
  "sset_compiled (en_secrets (snd (sample_background [sample_spec ''db'' ''DB'' False, sample_spec ''opt'' ''OPT'' False]))) =
     [compile_secret sample_ext (admin_key_rule ''k1'')] \<and>
   fst (fst (sample_background [sample_spec ''db'' ''DB'' False, sample_spec ''opt'' ''OPT'' False]))"
proof -
  let ?specs = "[sample_spec ''db'' ''DB'' False, sample_spec ''opt'' ''OPT'' False]"
  obtain gate status e1 where b: "sample_background ?specs = ((gate, status), e1)"
    by (metis surj_pair)
  obtain n where "resolve_spec sample_ext (sample_resolve sample_vars) (sample_spec ''opt'' ''OPT'' False) =
      Inr (\<lparr>sr_name = ''opt'', sr_value = [], sr_operator = OpRedact, sr_case_sensitive = True,
            sr_apply_to_surfaces = None\<rparr>, n)"
    using sample_resolve_spec [of sample_vars "''OPT''" "[]" "''opt''" False] sample_slugs
    by (auto simp: sample_vars_def)
  from empty_variable_undoes_secrets [OF sample_startup _ this _ b [unfolded sample_background_def]]
  show ?thesis by (simp add: b) (simp add: gate_at_start_def sample_spec_def)
qed

theorem secrets_gate_fail_closed_witness:
  "\<exists>c\<in>set (sset_compiled (en_secrets (snd (resolve_and_install sample_ext (sample_resolve sample_vars)
      [sample_spec ''db'' ''DB'' True] ''k1'' sample_started)))).
     cs_name c = ''db'' \<and> cs_value c = ''hunter2''"
proof -
  let ?specs = "[sample_spec ''db'' ''DB'' True]"
  let ?rule = "\<lparr>sr_name = ''db'', sr_value = ''hunter2'', sr_operator = OpRedact,
    sr_case_sensitive = True, sr_apply_to_surfaces = None\<rparr>"
  obtain n where r: "resolve_spec sample_ext (sample_resolve sample_vars) (sample_spec ''db'' ''DB'' True) =
      Inr (?rule, n)"
    using sample_resolve_spec [of sample_vars "''DB''" "''hunter2''" "''db''" True] sample_slugs
    by (auto simp: sample_vars_def)
  obtain e1 where s: "set_secret_rules sample_ext [admin_key_rule ''k1'', ?rule] sample_started = (Inr (), e1)"
    by (rule sample_set_secret_rules [of "[admin_key_rule ''k1'', ?rule]" sample_started])
      (auto simp: admin_key_rule_def secret_operator_ok_def broker_slugs_def)
  have i: "resolve_and_install sample_ext (sample_resolve sample_vars) ?specs ''k1'' sample_started =
      (([n], True), e1)"
    by (simp add: resolve_and_install_def r s)
  have "sp_required (sample_spec ''db'' ''DB'' True)" "sp_name (sample_spec ''db'' ''DB'' True) = ''db''"
    "spec_to_ref (sample_spec ''db'' ''DB'' True) = Inr (secret_ref_new ''env'' ''DB'')"
    "sample_resolve sample_vars (secret_ref_new ''env'' ''DB'') = Inr ''hunter2''"
    by (simp_all add: sample_spec_def spec_to_ref_def sample_resolve_env sample_vars_def)
  with secrets_gate_fail_closed [OF sample_startup i] show ?thesis by (auto simp: i)
qed

end
