(* ===== verification/ControlPlane.thy ===== *)
theory ControlPlane
  imports SecretsInstall BrokerWalk "HOL-Library.AList"
begin

text \<open>
  The control plane of the proxy: \<open>admin.rs\<close>, the policy writers of \<open>monitor/http.rs\<close>, the audit
  reveal of \<open>routes.rs\<close>, and \<open>ml.rs\<close>.  Every writer holds the lock \<open>config_control\<close> for the whole
  of its work, so a request is one step; a panic under the lock poisons it.  Background loads of the
  recognizer complete in steps of their own.
\<close>

section \<open>JSON\<close>

text \<open>\<open>merge_json\<close>: objects recurse, every other value is replaced.\<close>

fun json_merge :: "json \<Rightarrow> json \<Rightarrow> json"
  and json_merge_members :: "(string \<times> json) list \<Rightarrow> (string \<times> json) list \<Rightarrow> (string \<times> json) list" where
  "json_merge (JObj b) (JObj over) = JObj (json_merge_members b over)"
| "json_merge base over = over"
| "json_merge_members b [] = b"
| "json_merge_members b ((k, v) # over) =
     json_merge_members
       (AList.update k (case map_of b k of Some bv \<Rightarrow> json_merge bv v | None \<Rightarrow> v) b) over"

section \<open>The wire form of the configuration\<close>

record wire_allow_list =
  wa_exact :: "string list"
  wa_exact_ci :: "string list"
  wa_patterns :: "string list"

record wire_config =
  wc_engine :: engine_config
  wc_allow_list :: wire_allow_list

definition wire_allow_of :: "allow_list \<Rightarrow> wire_allow_list" where
  "wire_allow_of a =
     \<lparr>wa_exact = sorted_list_of_set (al_exact a), wa_exact_ci = sorted_list_of_set (al_exact_ci a),
      wa_patterns = al_patterns a\<rparr>"

definition wire_from_engine :: "engine_config \<Rightarrow> wire_config" where
  "wire_from_engine cfg = \<lparr>wc_engine = cfg, wc_allow_list = wire_allow_of (ec_allow_list cfg)\<rparr>"

definition wire_into_engine :: "'x ext_scheme \<Rightarrow> wire_config \<Rightarrow> string + engine_config" where
  "wire_into_engine X w =
     (let a = wc_allow_list w
      in case al_from_specs X (wa_exact a) (wa_exact_ci a) (wa_patterns a) of
           Inl e \<Rightarrow> Inl e
         | Inr al \<Rightarrow> Inr ((wc_engine w)\<lparr>ec_allow_list := al\<rparr>))"

text \<open>What serde does with the bodies.\<close>

record control_wire =
  cw_toml :: toml_wire
  cw_json :: "string \<Rightarrow> json option"
  cw_of_wire :: "wire_config \<Rightarrow> json option"
  cw_to_wire :: "json \<Rightarrow> wire_config option"
  cw_resolve_body :: "string \<Rightarrow> (string \<times> json) option"
  cw_mask_body :: "string \<Rightarrow> string option"

section \<open>State\<close>

record policy_view =
  pv_enabled :: bool
  pv_project_root :: string
  pv_port :: nat
  pv_token_count :: nat
  pv_config :: wire_config
  pv_ml_required :: bool
  pv_ml_snapshot :: ml_snapshot_t
  pv_secrets_ready :: bool
  pv_secrets :: "secret_status list"

record control_env =
  cv_admin_key :: string
  cv_layers :: config_layers
  cv_project_root :: string
  cv_port :: nat

record control_state =
  ct_engine :: mask_engine
  ct_files :: files
  ct_poisoned :: bool
  ct_frames :: "(string option \<times> policy_view) list"
  ct_loads :: "(nat \<times> ml_config) list"
  ct_secrets_ready :: bool
  ct_secrets :: "secret_status list"

record headers =
  hd_key :: "string option"
  hd_write_id :: "string option"

abbreviation live_config :: "control_state \<Rightarrow> engine_config" where
  "live_config st \<equiv> po_config (en_policy (ct_engine st))"

definition authed :: "control_env \<Rightarrow> headers \<Rightarrow> bool" where
  "authed env hdrs =
     (let provided = (case hd_key hdrs of Some k \<Rightarrow> k | None \<Rightarrow> [])
      in provided \<noteq> [] \<and> provided = cv_admin_key env)"

definition policy_snapshot :: "control_env \<Rightarrow> control_state \<Rightarrow> policy_view" where
  "policy_snapshot env st =
     \<lparr>pv_enabled = ec_enabled (live_config st), pv_project_root = cv_project_root env,
      pv_port = cv_port env, pv_token_count = token_count (ct_engine st),
      pv_config = wire_from_engine (live_config st),
      pv_ml_required = required_effective (ec_ml (live_config st)),
      pv_ml_snapshot = ml_snapshot (en_ml (ct_engine st)),
      pv_secrets_ready = ct_secrets_ready st, pv_secrets = ct_secrets st\<rparr>"

definition push_policy :: "control_env \<Rightarrow> headers \<Rightarrow> control_state \<Rightarrow> control_state" where
  "push_policy env hdrs st =
     st\<lparr>ct_frames := (hd_write_id hdrs, policy_snapshot env st) # ct_frames st\<rparr>"

section \<open>Requests and replies\<close>

datatype control_request =
    GetConfig
  | PutConfig string
  | ApplyProfile string "string option"
  | MlEnable
  | MlDisable
  | Enable
  | Disable
  | Reload
  | BrokerResolve string
  | DiagMask string
  | CustomMask string "string option" bool
  | CustomMasksList
  | CustomMasksRemove string "string option"
  | RevealKeyphrase string "string option" "string option"
  | RemaskKeyphrase string
  | RevealToken string

datatype control_error =
    InvalidJson
  | NotAnObject
  | SerializingConfig
  | InvalidMerged
  | InvalidAllowRegex string
  | ThresholdOutOfRange f32
  | UnknownEntities "string list"
  | ConfigRejected engine_error
  | UnknownProfile string
  | UnknownScope string
  | ReloadFailed config_error
  | BlankField
  | MaskFailed engine_error
  | BrokerHandle "string option"
  | UnknownHandle

datatype control_reply =
    Forbidden
  | Failed nat control_error
  | Panicked
  | PolicyReply policy_view
  | ProfileReply policy_view string scope "persist_outcome option"
  | ResolvedReply json nat "(string \<times> string) list"
  | MaskedReply string bool
  | CustomReply wire_config persist_outcome
  | CustomListReply "custom_replacement list"
  | RemovedReply bool bool wire_config
  | RevealReply wire_config bool persist_outcome
  | RemaskReply wire_config bool persist_outcome
  | RevealedReply string

section \<open>The recognizer\<close>

definition set_ml :: "ml_runtime \<Rightarrow> control_state \<Rightarrow> control_state" where
  "set_ml rt st = st\<lparr>ct_engine := (ct_engine st)\<lparr>en_ml := rt\<rparr>\<rparr>"

definition spawn_ml_load :: "'x ext_scheme \<Rightarrow> ml_config \<Rightarrow> control_state \<Rightarrow> control_state" where
  "spawn_ml_load X ml st =
     (let (generation, rt) = ml_begin_load X ml (en_ml (ct_engine st))
      in set_ml rt (st\<lparr>ct_loads := (generation, ml) # ct_loads st\<rparr>))"

text \<open>The end of the background task; Inl is the error of the load, or of a panic in it.\<close>

definition load_done ::
  "'x ext_scheme \<Rightarrow> nat \<Rightarrow> string + ml_recognizer \<Rightarrow> control_state \<Rightarrow> control_state" where
  "load_done X generation res st =
     set_ml (case res of
               Inr rec \<Rightarrow> ml_set_ready X generation rec (en_ml (ct_engine st))
             | Inl e \<Rightarrow> ml_set_failed X generation e (en_ml (ct_engine st)))
       (st\<lparr>ct_loads := filter (\<lambda>(g, ml). g \<noteq> generation) (ct_loads st)\<rparr>)"

definition reconcile_ml :: "'x ext_scheme \<Rightarrow> ml_config \<Rightarrow> bool \<Rightarrow> control_state \<Rightarrow> control_state" where
  "reconcile_ml X new_ml retry_failed st =
     (let rt = en_ml (ct_engine st); snap = ml_snapshot rt in
      if \<not> mc_enabled new_ml
      then (if sn_status snap \<noteq> MlDisabled then set_ml (ml_disable X rt) st else st)
      else
        (let params_changed =
               (case sn_desired snap of Some d \<Rightarrow> \<not> same_model_params d new_ml | None \<Rightarrow> True);
             needs_load =
               (case sn_status snap of
                  MlDisabled \<Rightarrow> True
                | MlFailed \<Rightarrow> retry_failed \<or> params_changed
                | MlLoading \<Rightarrow> params_changed
                | MlReady \<Rightarrow> params_changed)
         in if needs_load then spawn_ml_load X new_ml st
            else set_ml (ml_update_required (mc_required new_ml) rt) st))"

section \<open>Writers\<close>

definition install_config ::
  "'x ext_scheme \<Rightarrow> engine_config \<Rightarrow> control_state \<Rightarrow> unit result \<times> control_state" where
  "install_config X cfg st =
     (let (r, e) = set_config X cfg (ct_engine st) in (r, st\<lparr>ct_engine := e\<rparr>))"

definition set_policy :: "broker_policy \<Rightarrow> control_state \<Rightarrow> control_state" where
  "set_policy p st = st\<lparr>ct_engine := set_broker_policy p (ct_engine st)\<rparr>"

definition ml_on :: "control_state \<Rightarrow> bool" where
  "ml_on st \<longleftrightarrow> sn_status (ml_snapshot (en_ml (ct_engine st))) \<noteq> MlDisabled"

definition new_unknown_entity_keys ::
  "'x ext_scheme \<Rightarrow> engine_config \<Rightarrow> engine_config \<Rightarrow> string list" where
  "new_unknown_entity_keys X current merged =
     (let unknown = set (unknown_entity_types X merged)
      in map fst (filter (\<lambda>(k, v). k \<in> unknown \<and> map_of (ec_entity_operators current) k \<noteq> Some v)
           (ec_entity_operators merged)))"

text \<open>The part of \<open>put_config\<close> up to the swap: the configuration a body asks for.\<close>

definition merged_config ::
  "'x ext_scheme \<Rightarrow> control_wire \<Rightarrow> engine_config \<Rightarrow> json \<Rightarrow> nat \<times> control_error + engine_config" where
  "merged_config X W current over =
     (case cw_of_wire W (wire_from_engine current) of
        None \<Rightarrow> Inl (500, SerializingConfig)
      | Some base \<Rightarrow>
          (case cw_to_wire W (json_merge base over) of
             None \<Rightarrow> Inl (400, InvalidMerged)
           | Some wire \<Rightarrow>
               (case wire_into_engine X wire of
                  Inl e \<Rightarrow> Inl (400, InvalidAllowRegex e)
                | Inr cfg \<Rightarrow>
                    if \<not> (f32_le 0 (ec_score_threshold cfg) \<and> f32_le (ec_score_threshold cfg) f32_one)
                    then Inl (400, ThresholdOutOfRange (ec_score_threshold cfg))
                    else if new_unknown_entity_keys X current cfg \<noteq> []
                    then Inl (400, UnknownEntities (new_unknown_entity_keys X current cfg))
                    else Inr cfg)))"

definition put_config ::
  "'x ext_scheme \<Rightarrow> control_wire \<Rightarrow> control_env \<Rightarrow> headers \<Rightarrow> json \<Rightarrow> control_state \<Rightarrow>
   control_reply \<times> control_state" where
  "put_config X W env hdrs over st =
     (case merged_config X W (live_config st) over of
        Inl (status, e) \<Rightarrow> (Failed status e, st)
      | Inr cfg \<Rightarrow>
          (let cfg = cfg\<lparr>ec_ml := (ec_ml cfg)\<lparr>mc_enabled := ml_on st\<rparr>\<rparr>
           in case install_config X cfg st of
                (Inl e, st') \<Rightarrow> (Failed 400 (ConfigRejected e), st')
              | (Inr _, st') \<Rightarrow>
                  (let st'' = push_policy env hdrs (reconcile_ml X (ec_ml cfg) False st')
                   in (PolicyReply (policy_snapshot env st''), st''))))"

definition scope_of :: "string option \<Rightarrow> scope option" where
  "scope_of q =
     (case q of
        None \<Rightarrow> Some ScopeSession
      | Some s \<Rightarrow>
          if s = ''session'' then Some ScopeSession
          else if s = ''project'' then Some ScopeProject
          else if s = ''user'' then Some ScopeUser
          else if s = ''local'' then Some ScopeLocal
          else None)"

definition with_profile :: "'x ext_scheme \<Rightarrow> profile \<Rightarrow> engine_config \<Rightarrow> engine_config" where
  "with_profile X p cfg =
     (let defaults = for_profile X p
      in cfg\<lparr>ec_profile := p, ec_score_threshold := ec_score_threshold defaults,
             ec_enabled_categories := ec_enabled_categories defaults,
             ec_default_operator := ec_default_operator defaults\<rparr>)"

definition apply_profile ::
  "'x ext_scheme \<Rightarrow> control_wire \<Rightarrow> control_env \<Rightarrow> headers \<Rightarrow> string \<Rightarrow> profile \<Rightarrow> scope \<Rightarrow>
   control_state \<Rightarrow> control_reply \<times> control_state" where
  "apply_profile X W env hdrs name p scope st =
     (case install_config X (with_profile X p (live_config st)) st of
        (Inl e, st') \<Rightarrow> (Failed 400 (ConfigRejected e), st')
      | (Inr _, st') \<Rightarrow>
          if scope = ScopeSession
          then (let st'' = push_policy env hdrs st'
                in (ProfileReply (policy_snapshot env st'') name scope None, st''))
          else
            (let (out, fs) = persist_profile (cw_toml W) (cv_layers env) (cv_project_root env) scope p
                   (ct_files st');
                 st'' = st'\<lparr>ct_files := fs\<rparr>
             in if out = PersistPanic then (Panicked, st''\<lparr>ct_poisoned := True\<rparr>)
                else (let st'' = push_policy env hdrs st''
                      in (ProfileReply (policy_snapshot env st'') name scope (Some out), st''))))"

definition ml_enable_handler ::
  "'x ext_scheme \<Rightarrow> control_env \<Rightarrow> headers \<Rightarrow> control_state \<Rightarrow> control_reply \<times> control_state" where
  "ml_enable_handler X env hdrs st =
     (let cfg = (live_config st)\<lparr>ec_ml := (ec_ml (live_config st))\<lparr>mc_enabled := True\<rparr>\<rparr>
      in case install_config X cfg st of
           (Inl e, st') \<Rightarrow> (Failed 400 (ConfigRejected e), st')
         | (Inr _, st') \<Rightarrow>
             (let st'' = push_policy env hdrs (reconcile_ml X (ec_ml cfg) True st')
              in (PolicyReply (policy_snapshot env st''), st'')))"

definition ml_disable_handler ::
  "'x ext_scheme \<Rightarrow> control_env \<Rightarrow> headers \<Rightarrow> control_state \<Rightarrow> control_reply \<times> control_state" where
  "ml_disable_handler X env hdrs st =
     (let cfg = (live_config st)\<lparr>ec_ml := (ec_ml (live_config st))\<lparr>mc_enabled := False\<rparr>\<rparr>
      in case install_config X cfg st of
           (Inl e, st') \<Rightarrow> (Failed 400 (ConfigRejected e), st')
         | (Inr _, st') \<Rightarrow>
             (let st'' = push_policy env hdrs (set_ml (ml_disable X (en_ml (ct_engine st'))) st')
              in (PolicyReply (policy_snapshot env st''), st'')))"

definition set_enabled_handler ::
  "control_env \<Rightarrow> bool \<Rightarrow> control_state \<Rightarrow> control_reply \<times> control_state" where
  "set_enabled_handler env on st =
     (let st' = st\<lparr>ct_engine := set_enabled on (ct_engine st)\<rparr>
      in (PolicyReply (policy_snapshot env st'), st'))"

text \<open>An error of the broker section swaps to the default-deny policy.\<close>

definition reloaded_broker ::
  "'x ext_scheme \<Rightarrow> control_wire \<Rightarrow> control_env \<Rightarrow> files \<Rightarrow> broker_policy" where
  "reloaded_broker X W env fs =
     (case reload_broker_allows (cw_toml W) fs (cv_layers env) of
        Inl _ \<Rightarrow> []
      | Inr allows \<Rightarrow> (case build_broker_policy X allows of Inl _ \<Rightarrow> [] | Inr p \<Rightarrow> p))"

definition reload_handler ::
  "'x ext_scheme \<Rightarrow> control_wire \<Rightarrow> control_env \<Rightarrow> headers \<Rightarrow> control_state \<Rightarrow>
   control_reply \<times> control_state" where
  "reload_handler X W env hdrs st =
     (case reload_engine X (cw_toml W) (ct_files st) (cv_layers env) of
        Inl e \<Rightarrow> (Failed 500 (ReloadFailed e), set_policy [] st)
      | Inr cfg \<Rightarrow>
          (let cfg = cfg\<lparr>ec_enabled := ec_enabled (live_config st),
                         ec_ml := (ec_ml cfg)\<lparr>mc_enabled := ml_on st\<rparr>\<rparr>
           in case install_config X cfg st of
                (Inl e, st') \<Rightarrow> (Failed 400 (ConfigRejected e), set_policy [] st')
              | (Inr _, st') \<Rightarrow>
                  (let st'' = push_policy env hdrs
                         (set_policy (reloaded_broker X W env (ct_files st'))
                           (reconcile_ml X (ec_ml cfg) False st'))
                   in (PolicyReply (policy_snapshot env st''), st''))))"

section \<open>Custom masks and reveals\<close>

definition entity_or_default :: "'x ext_scheme \<Rightarrow> string option \<Rightarrow> string" where
  "entity_or_default X e =
     (case e of
        Some s \<Rightarrow> if str_trim X s = [] then ''CUSTOM_KEYWORD'' else s
      | None \<Rightarrow> ''CUSTOM_KEYWORD'')"

definition custom_rule :: "'x ext_scheme \<Rightarrow> string \<Rightarrow> string option \<Rightarrow> bool \<Rightarrow> custom_replacement" where
  "custom_rule X pattern entity_type case_sensitive =
     \<lparr>cr_pattern = pattern, cr_entity_type = entity_or_default X entity_type, cr_is_regex = False,
      cr_case_sensitive = case_sensitive, cr_priority = 0, cr_literal_token = False,
      cr_token = None, cr_apply_to_surfaces = None\<rparr>"

definition rule_is :: "string \<Rightarrow> string \<Rightarrow> custom_replacement \<Rightarrow> bool" where
  "rule_is pattern entity_type c \<longleftrightarrow> cr_pattern c = pattern \<and> cr_entity_type c = entity_type"

definition custom_mask_handler ::
  "'x ext_scheme \<Rightarrow> control_wire \<Rightarrow> control_env \<Rightarrow> headers \<Rightarrow> custom_replacement \<Rightarrow> control_state \<Rightarrow>
   control_reply \<times> control_state" where
  "custom_mask_handler X W env hdrs rule st =
     (let cfg = (live_config st)\<lparr>ec_custom_replacements :=
            ec_custom_replacements (live_config st) @ [rule]\<rparr>
      in case install_config X cfg st of
           (Inl e, st') \<Rightarrow> (Failed 400 (ConfigRejected e), st')
         | (Inr _, st') \<Rightarrow>
             (let (out, fs) = persist_custom_replacement (cw_toml W) (cv_project_root env) rule
                    (ct_files st');
                  st'' = push_policy env hdrs (st'\<lparr>ct_files := fs\<rparr>)
              in (CustomReply (wire_from_engine (live_config st'')) out, st'')))"

definition custom_masks_remove_handler ::
  "'x ext_scheme \<Rightarrow> control_wire \<Rightarrow> control_env \<Rightarrow> headers \<Rightarrow> string \<Rightarrow> string \<Rightarrow> control_state \<Rightarrow>
   control_reply \<times> control_state" where
  "custom_masks_remove_handler X W env hdrs pattern entity_type st =
     (let rules = ec_custom_replacements (live_config st);
          removed = (\<exists>c\<in>set rules. rule_is pattern entity_type c);
          cfg = (live_config st)\<lparr>ec_custom_replacements := remove_first (rule_is pattern entity_type) rules\<rparr>
      in case (if removed then install_config X cfg st else (Inr (), st)) of
           (Inl e, st') \<Rightarrow> (Failed 400 (ConfigRejected e), st')
         | (Inr _, st') \<Rightarrow>
             (let (out, fs) = remove_custom_replacement (cw_toml W) (cv_project_root env) pattern
                    entity_type (ct_files st');
                  st'' = st'\<lparr>ct_files := fs\<rparr>;
                  st'' = (if removed then push_policy env hdrs st'' else st'')
              in (RemovedReply removed (case out of Inr b \<Rightarrow> b | Inl _ \<Rightarrow> False)
                    (wire_from_engine (live_config st'')), st'')))"

definition DEFAULT_ALLOW_EXACT :: "string list" where
  "DEFAULT_ALLOW_EXACT = [''Anthropic'', ''Claude'', ''127.0.0.1'']"

definition DEFAULT_ALLOW_EXACT_CI :: "string list" where
  "DEFAULT_ALLOW_EXACT_CI = [''localhost'']"

definition non_default_exact :: "allow_list \<Rightarrow> string list" where
  "non_default_exact al =
     filter (\<lambda>v. v \<notin> set DEFAULT_ALLOW_EXACT) (sorted_list_of_set (al_exact al))"

definition non_default_exact_ci :: "allow_list \<Rightarrow> string list" where
  "non_default_exact_ci al =
     filter (\<lambda>v. v \<notin> set DEFAULT_ALLOW_EXACT_CI) (sorted_list_of_set (al_exact_ci al))"

definition persist_allow_lists ::
  "control_wire \<Rightarrow> control_env \<Rightarrow> control_state \<Rightarrow> persist_outcome \<times> control_state" where
  "persist_allow_lists W env st =
     (let al = ec_allow_list (live_config st);
          (out, fs) = persist_local_allow_lists (cw_toml W) (cv_project_root env)
            (non_default_exact al) (non_default_exact_ci al) (ct_files st)
      in (out, st\<lparr>ct_files := fs\<rparr>))"

text \<open>The backing rule of a reveal: its pattern, when one is given that is not blank.\<close>

definition backing_pattern :: "'x ext_scheme \<Rightarrow> string option \<Rightarrow> string option" where
  "backing_pattern X p =
     (case p of
        None \<Rightarrow> None
      | Some s \<Rightarrow> if str_trim X s = [] then None else Some (str_trim X s))"

definition reveal_handler ::
  "'x ext_scheme \<Rightarrow> control_wire \<Rightarrow> control_env \<Rightarrow> headers \<Rightarrow> string \<Rightarrow> string option \<Rightarrow>
   string option \<Rightarrow> control_state \<Rightarrow> control_reply \<times> control_state" where
  "reveal_handler X W env hdrs v pattern entity_type st =
     (let backing = backing_pattern X pattern;
          backing_entity = entity_or_default X entity_type;
          rules = ec_custom_replacements (live_config st);
          removed = (case backing of
                       None \<Rightarrow> False
                     | Some p \<Rightarrow> \<exists>c\<in>set rules. rule_is p backing_entity c);
          rules' = (case backing of
                      None \<Rightarrow> rules
                    | Some p \<Rightarrow> remove_first (rule_is p backing_entity) rules);
          cfg = (live_config st)\<lparr>ec_custom_replacements := rules',
                  ec_allow_list := al_add_exact v (ec_allow_list (live_config st))\<rparr>
      in case install_config X cfg st of
           (Inl e, st') \<Rightarrow> (Failed 400 (ConfigRejected e), st')
         | (Inr _, st') \<Rightarrow>
             (let st1 =
                    (case backing of
                       None \<Rightarrow> st'
                     | Some p \<Rightarrow>
                         if removed
                         then st'\<lparr>ct_files := snd (remove_custom_replacement (cw_toml W)
                                 (cv_project_root env) p backing_entity (ct_files st'))\<rparr>
                         else st');
                  (out, st2) = persist_allow_lists W env st1
              in if out = PersistPanic then (Panicked, st2\<lparr>ct_poisoned := True\<rparr>)
                 else (let st3 = push_policy env hdrs st2
                       in (RevealReply (wire_from_engine (live_config st3)) removed out, st3))))"

definition remask_handler ::
  "'x ext_scheme \<Rightarrow> control_wire \<Rightarrow> control_env \<Rightarrow> headers \<Rightarrow> string \<Rightarrow> control_state \<Rightarrow>
   control_reply \<times> control_state" where
  "remask_handler X W env hdrs v st =
     (let al = ec_allow_list (live_config st);
          removed = (v \<in> al_exact al \<or> x_to_lowercase X v \<in> al_exact_ci al);
          cfg = (live_config st)\<lparr>ec_allow_list :=
            al\<lparr>al_exact := al_exact al - {v}, al_exact_ci := al_exact_ci al - {x_to_lowercase X v}\<rparr>\<rparr>
      in case (if removed then install_config X cfg st else (Inr (), st)) of
           (Inl e, st') \<Rightarrow> (Failed 400 (ConfigRejected e), st')
         | (Inr _, st') \<Rightarrow>
             (let (out, st2) = persist_allow_lists W env st'
              in if out = PersistPanic then (Panicked, st2\<lparr>ct_poisoned := True\<rparr>)
                 else (let st3 = (if removed then push_policy env hdrs st2 else st2)
                       in (RemaskReply (wire_from_engine (live_config st3)) removed out, st3))))"

section \<open>Startup\<close>

text \<open>
  \<open>main\<close>: the engine with the salt of the environment, the broker policy, the rule of the
  control key and the first load of the recognizer.
\<close>

datatype start_error =
    BadSalt
  | SaltPanic
  | EngineRejected engine_error
  | AdminRuleRejected engine_error

definition hex_value :: "char \<Rightarrow> nat option" where
  "hex_value c =
     (let n = of_char c
      in if 48 \<le> n \<and> n \<le> 57 then Some (n - 48)
         else if 97 \<le> n \<and> n \<le> 102 then Some (n - 87)
         else if 65 \<le> n \<and> n \<le> 70 then Some (n - 55)
         else None)"

text \<open>\<open>u8::from_str_radix\<close> on two bytes takes a leading plus sign.\<close>

definition hex_byte :: "char \<Rightarrow> char \<Rightarrow> char option" where
  "hex_byte a b =
     (if a = CHR ''+'' then map_option char_of (hex_value b)
      else (case (hex_value a, hex_value b) of
              (Some h, Some l) \<Rightarrow> Some (char_of (16 * h + l))
            | _ \<Rightarrow> None))"

text \<open>A slice that ends inside a character panics.\<close>

fun decode_pairs :: "string \<Rightarrow> start_error + string" where
  "decode_pairs (a # b # rest) =
     (if rest \<noteq> [] \<and> is_cont (hd rest) then Inl SaltPanic
      else (case hex_byte a b of
              None \<Rightarrow> Inl BadSalt
            | Some v \<Rightarrow>
                (case decode_pairs rest of Inl e \<Rightarrow> Inl e | Inr out \<Rightarrow> Inr (v # out))))"
| "decode_pairs _ = Inr []"

definition decode_hex_array :: "'x ext_scheme \<Rightarrow> nat \<Rightarrow> string \<Rightarrow> start_error + string" where
  "decode_hex_array X n s =
     (let s = str_trim X s in if length s \<noteq> 2 * n then Inl BadSalt else decode_pairs s)"

definition build_engine ::
  "'x ext_scheme \<Rightarrow> nat \<Rightarrow> string option \<Rightarrow> engine_config \<Rightarrow> start_error + mask_engine" where
  "build_engine X draws salt cfg =
     (case salt of
        Some s \<Rightarrow>
          (case decode_hex_array X 16 s of
             Inl e \<Rightarrow> Inl e
           | Inr bytes \<Rightarrow>
               (case engine_with_salt X draws cfg bytes of
                  Inl e \<Rightarrow> Inl (EngineRejected e)
                | Inr e \<Rightarrow> Inr e))
      | None \<Rightarrow>
          (case engine_new X draws cfg of Inl e \<Rightarrow> Inl (EngineRejected e) | Inr e \<Rightarrow> Inr e))"

definition start_broker ::
  "'x ext_scheme \<Rightarrow> broker_allow_spec list \<Rightarrow> mask_engine \<Rightarrow> mask_engine" where
  "start_broker X allows e =
     (if allows = [] then e
      else (case build_broker_policy X allows of Inl _ \<Rightarrow> e | Inr p \<Rightarrow> set_broker_policy p e))"

definition start ::
  "'x ext_scheme \<Rightarrow> nat \<Rightarrow> string option \<Rightarrow> loaded_config \<Rightarrow> files \<Rightarrow>
   start_error + string \<times> control_state" where
  "start X draws salt loaded fs =
     (case build_engine X draws salt (lc_engine loaded) of
        Inl e \<Rightarrow> Inl e
      | Inr e0 \<Rightarrow>
          (let e1 = start_broker X (lc_broker_allows loaded) e0;
               key = control_token X e1
           in case startup_secrets X key e1 of
                (Inl err, _) \<Rightarrow> Inl (AdminRuleRejected err)
              | (Inr _, e2) \<Rightarrow>
                  (let st = \<lparr>ct_engine = e2, ct_files = fs, ct_poisoned = False, ct_frames = [],
                             ct_loads = [], ct_secrets_ready = gate_at_start (lc_secrets loaded),
                             ct_secrets = []\<rparr>;
                       ml = ec_ml (lc_engine loaded)
                   in Inr (key, if mc_enabled ml then spawn_ml_load X ml st else st))))"

section \<open>The tool boundary and the canary\<close>

fun deny_reason_label :: "deny_reason \<Rightarrow> string" where
  "deny_reason_label NoRule = ''no matching [[broker.allow]] rule for this secret + tool + param''"
| "deny_reason_label EgressBoundary =
     ''tool is an egress boundary (MCP / sub-agent) '' @ [CHR 0xE2, CHR 0x80, CHR 0x94] @ '' never brokered''"
| "deny_reason_label OpaqueCommand =
     ''tool runs a free-form shell command '' @ [CHR 0xE2, CHR 0x80, CHR 0x94] @
     '' use a structured tool instead''"
| "deny_reason_label (HostNotAllowed h) =
     ''the destination host is not on the rule's allow-list''"
| "deny_reason_label HostUnparsed =
     ''the rule requires a host allow-list but no host could be parsed''"

definition broker_resolve_handler ::
  "'x ext_scheme \<Rightarrow> nat \<Rightarrow> string \<Rightarrow> json \<Rightarrow> control_state \<Rightarrow> control_reply" where
  "broker_resolve_handler X now tool_name tool_input st =
     (case broker_resolve_pointers X now (ct_engine st) tool_name tool_input of
        None \<Rightarrow> Panicked
      | Some (input, report) \<Rightarrow>
          ResolvedReply input (br_resolved report)
            (map (\<lambda>(pointer, reason). (pointer, deny_reason_label reason)) (br_denied report)))"

definition diag_mask_handler ::
  "'x ext_scheme \<Rightarrow> string \<Rightarrow> control_state \<Rightarrow> control_reply \<times> control_state" where
  "diag_mask_handler X t st =
     (case mask X t UserMessage (ct_engine st) of
        (Inl e, e') \<Rightarrow> (Failed 500 (MaskFailed e), st\<lparr>ct_engine := e'\<rparr>)
      | (Inr out, e') \<Rightarrow>
          (MaskedReply (mo_masked_text out) (mo_masked_text out \<noteq> t), st\<lparr>ct_engine := e'\<rparr>))"

section \<open>A request\<close>

text \<open>A writer takes the lock; on a poisoned one it panics.\<close>

definition locked ::
  "(control_state \<Rightarrow> control_reply \<times> control_state) \<Rightarrow> control_state \<Rightarrow> control_reply \<times> control_state" where
  "locked h st = (if ct_poisoned st then (Panicked, st) else h st)"

text \<open>
  Every handler tests the key for itself, before it looks at its body.  (A body that the JSON
  extractor of a monitor route refuses never reaches the handler; the requests carry what it
  extracted.)
\<close>

fun serve ::
  "'x ext_scheme \<Rightarrow> control_wire \<Rightarrow> control_env \<Rightarrow> nat \<Rightarrow> headers \<Rightarrow> control_request \<Rightarrow> control_state \<Rightarrow>
   control_reply \<times> control_state" where
  "serve X W env now hdrs GetConfig st =
     (if \<not> authed env hdrs then (Forbidden, st) else
       (PolicyReply (policy_snapshot env st), st))"
| "serve X W env now hdrs (PutConfig body) st =
     (if \<not> authed env hdrs then (Forbidden, st) else
       (case cw_json W body of
          None \<Rightarrow> (Failed 400 InvalidJson, st)
        | Some (JObj over) \<Rightarrow> locked (put_config X W env hdrs (JObj over)) st
        | Some _ \<Rightarrow> (Failed 400 NotAnObject, st)))"
| "serve X W env now hdrs (ApplyProfile name q) st =
     (if \<not> authed env hdrs then (Forbidden, st) else
       (case profile_of_name name of
          None \<Rightarrow> (Failed 400 (UnknownProfile name), st)
        | Some p \<Rightarrow>
            (case scope_of q of
               None \<Rightarrow> (Failed 400 (UnknownScope (the q)), st)
             | Some scope \<Rightarrow> locked (apply_profile X W env hdrs name p scope) st)))"
| "serve X W env now hdrs MlEnable st =
     (if \<not> authed env hdrs then (Forbidden, st) else
       locked (ml_enable_handler X env hdrs) st)"
| "serve X W env now hdrs MlDisable st =
     (if \<not> authed env hdrs then (Forbidden, st) else
       locked (ml_disable_handler X env hdrs) st)"
| "serve X W env now hdrs Enable st =
     (if \<not> authed env hdrs then (Forbidden, st) else
       locked (set_enabled_handler env True) st)"
| "serve X W env now hdrs Disable st =
     (if \<not> authed env hdrs then (Forbidden, st) else
       locked (set_enabled_handler env False) st)"
| "serve X W env now hdrs Reload st =
     (if \<not> authed env hdrs then (Forbidden, st) else
       locked (reload_handler X W env hdrs) st)"
| "serve X W env now hdrs (BrokerResolve body) st =
     (if \<not> authed env hdrs then (Forbidden, st) else
       (case cw_resolve_body W body of
          None \<Rightarrow> (Failed 400 InvalidJson, st)
        | Some (tool, input) \<Rightarrow> (broker_resolve_handler X now tool input st, st)))"
| "serve X W env now hdrs (DiagMask body) st =
     (if \<not> authed env hdrs then (Forbidden, st) else
       (case cw_mask_body W body of
          None \<Rightarrow> (Failed 400 InvalidJson, st)
        | Some t \<Rightarrow> diag_mask_handler X t st))"
| "serve X W env now hdrs (CustomMask pattern entity_type case_sensitive) st =
     (if \<not> authed env hdrs then (Forbidden, st) else
       (let p = str_trim X pattern
        in if p = [] then (Failed 400 BlankField, st)
           else locked (custom_mask_handler X W env hdrs (custom_rule X p entity_type case_sensitive)) st))"
| "serve X W env now hdrs CustomMasksList st =
     (if \<not> authed env hdrs then (Forbidden, st) else
       (CustomListReply (ec_custom_replacements (live_config st)), st))"
| "serve X W env now hdrs (CustomMasksRemove pattern entity_type) st =
     (if \<not> authed env hdrs then (Forbidden, st) else
       (let p = str_trim X pattern
        in if p = [] then (Failed 400 BlankField, st)
           else locked (custom_masks_remove_handler X W env hdrs p (entity_or_default X entity_type)) st))"
| "serve X W env now hdrs (RevealKeyphrase v pattern entity_type) st =
     (if \<not> authed env hdrs then (Forbidden, st) else
       (let v = str_trim X v
        in if v = [] then (Failed 400 BlankField, st)
           else locked (reveal_handler X W env hdrs v pattern entity_type) st))"
| "serve X W env now hdrs (RemaskKeyphrase v) st =
     (if \<not> authed env hdrs then (Forbidden, st) else
       (let v = str_trim X v
        in if v = [] then (Failed 400 BlankField, st)
           else locked (remask_handler X W env hdrs v) st))"
| "serve X W env now hdrs (RevealToken token) st =
     (if \<not> authed env hdrs then (Forbidden, st) else
       (case reveal_audit X now (ct_engine st) token of
          AuditPii plain \<Rightarrow> RevealedReply plain
        | AuditLocal plain \<Rightarrow> RevealedReply plain
        | AuditBroker name \<Rightarrow> Failed 409 (BrokerHandle name)
        | AuditUnknown \<Rightarrow> Failed 404 UnknownHandle, st))"

lemma serve_forbidden: "\<not> authed env hdrs \<Longrightarrow> serve X W env now hdrs req st = (Forbidden, st)"
  by (cases req) simp_all

end
