(* ===== verification/ControlCorrect.thy ===== *)
theory ControlCorrect
  imports ControlPlane
begin

text \<open>
  The control plane as a machine: its actions, what no action without the key changes, how the
  recognizer follows the configuration, who owns the master switch, and what the files decide.
\<close>

section \<open>What masking leaves alone\<close>

definition engine_core ::
  "mask_engine \<Rightarrow> policy \<times> secret_set \<times> broker_policy \<times> ml_status \<times> ml_config option \<times> nat" where
  "engine_core e =
     (en_policy e, en_secrets e, en_broker_policy e, rt_status (en_ml e), rt_desired (en_ml e),
      rt_generation (en_ml e))"

lemma engine_core_simps [simp]:
  "engine_core (e\<lparr>en_store := s\<rparr>) = engine_core e"
  "engine_core (e\<lparr>en_cache := c\<rparr>) = engine_core e"
  "engine_core (e\<lparr>en_ml := ml_clear_runtime_failure g (en_ml e)\<rparr>) = engine_core e"
  "engine_core (e\<lparr>en_ml := ml_note_runtime_failure g err (en_ml e)\<rparr>) = engine_core e"
  by (simp_all add: engine_core_def ml_clear_runtime_failure_def ml_note_runtime_failure_def)

lemma apply_engine_core [simp]: "engine_core (snd (apply_engine X t surface dets stats e)) = engine_core e"
  by (auto simp: apply_engine_def split: prod.splits sum.splits)

lemma cache_get_core [simp]: "engine_core (snd (engine_cache_get key e)) = engine_core e"
  by (simp add: engine_cache_get_def case_prod_unfold Let_def)

lemma detect_core [simp]:
  "engine_core (snd (detect_and_cache X ml g t surface key stats e)) = engine_core e"
  by (auto simp: detect_and_cache_def Let_def split: sum.splits)

lemma find_core [simp]: "engine_core (snd (find_detections X ml g t surface key e)) = engine_core e"
  by (auto simp: find_detections_def Let_def case_prod_unfold split: option.splits)

lemma mask_leaf_core [simp]: "engine_core (snd (mask_leaf X t surface e)) = engine_core e"
proof -
  have "engine_core (snd (mask_enabled X t surface e)) = engine_core e"
    using find_core [of X _ _ _ surface _ e]
    by (auto simp: mask_enabled_def Let_def case_prod_unfold split: option.splits sum.splits prod.splits)
  moreover have "engine_core (snd (mask_disabled X t surface e)) = engine_core e"
    by (simp add: mask_disabled_def Let_def)
  ultimately show ?thesis by (simp add: mask_leaf_def Let_def)
qed

lemma mask_bypassed_core [simp]: "engine_core (snd (mask_bypassed X t e)) = engine_core e"
  by (simp add: mask_bypassed_def Let_def)

lemma mask_core: "engine_core (snd (mask X t surface e)) = engine_core e"
  and "engine_core (snd (mask_segments X segs acc e)) = engine_core e"
proof (induction X t surface e and X segs acc e rule: mask_mask_segments.induct)
  case (1 X t surface e)
  then show ?case by (subst mask.simps) (auto split: option.splits)
next
  case (2 X acc e)
  then show ?case by simp
next
  case (3 X s segs acc e)
  then show ?case by (auto split: prod.splits sum.splits)
next
  case (4 X s segs acc e)
  obtain r e' where "mask_bypassed X s e = (r, e')" by (cases "mask_bypassed X s e")
  then show ?case using 4 mask_bypassed_core [of X s e] by (auto split: sum.splits)
qed

section \<open>Installing a configuration\<close>

definition sealed_config :: "engine_config \<Rightarrow> engine_config" where
  "sealed_config cfg = cfg\<lparr>ec_fail_closed := True\<rparr>"

lemma policy_new_config: "policy_new X cfg = Inr p \<Longrightarrow> po_config p = sealed_config cfg"
  by (auto simp: policy_new_def Let_def bind_r_Inr_iff sealed_config_def split: if_splits)

lemma install_config_cases:
  obtains (Rejected) err where "install_config X cfg st = (Inl err, st)"
  | (Installed) p where "policy_new X cfg = Inr p" "po_config p = sealed_config cfg"
      "install_config X cfg st = (Inr (), st\<lparr>ct_engine := (ct_engine st)\<lparr>en_policy := p,
         en_cache := cache_set_cap (ec_detection_cache_cap cfg) (en_cache (ct_engine st))\<rparr>\<rparr>)"
proof (cases "policy_new X cfg")
  case (Inl err)
  then show ?thesis by (intro Rejected) (simp add: install_config_def set_config_def)
next
  case (Inr p)
  then show ?thesis
    by (intro Installed [OF Inr policy_new_config [OF Inr]]) (simp add: install_config_def set_config_def)
qed

section \<open>Runs\<close>

text \<open>
  What happens to a running proxy: requests to the control plane, the end of a load of the
  recognizer, a mask call of the traffic, the background resolution of the secrets, and edits of
  the files by anyone.
\<close>

datatype control_action =
    Serve nat headers control_request
  | LoadDone nat "string + ml_recognizer"
  | MaskCall string surface
  | ResolveSecrets "secret_ref \<Rightarrow> provider_error + string" "secret_spec list"
  | EditFiles files

fun control_step ::
  "'x ext_scheme \<Rightarrow> control_wire \<Rightarrow> control_env \<Rightarrow> control_action \<Rightarrow> control_state \<Rightarrow> control_state" where
  "control_step X W env (Serve now hdrs req) st = snd (serve X W env now hdrs req st)"
| "control_step X W env (LoadDone g res) st =
     (if g \<in> fst ` set (ct_loads st) then load_done X g res st else st)"
| "control_step X W env (MaskCall t surface) st =
     st\<lparr>ct_engine := snd (mask X t surface (ct_engine st))\<rparr>"
| "control_step X W env (ResolveSecrets resolve specs) st =
     (let ((ready, status), e) = background_resolve X resolve specs (cv_admin_key env)
            (ct_secrets_ready st, ct_secrets st) (ct_engine st)
      in st\<lparr>ct_engine := e, ct_secrets_ready := ready, ct_secrets := status\<rparr>)"
| "control_step X W env (EditFiles fs) st = st\<lparr>ct_files := fs\<rparr>"

definition control_run ::
  "'x ext_scheme \<Rightarrow> control_wire \<Rightarrow> control_env \<Rightarrow> control_action list \<Rightarrow> control_state \<Rightarrow> control_state" where
  "control_run X W env acts st = fold (control_step X W env) acts st"

lemma control_run_simps [simp]:
  "control_run X W env [] st = st"
  "control_run X W env (a # acts) st = control_run X W env acts (control_step X W env a st)"
  by (simp_all add: control_run_def)

lemma run_preserves:
  assumes "P st" and "\<And>a s. a \<in> set acts \<Longrightarrow> P s \<Longrightarrow> P (control_step X W env a s)"
  shows "P (control_run X W env acts st)"
  using assms by (induction acts arbitrary: st) auto

section \<open>Frames\<close>

lemma push_policy_frame [simp]:
  "ct_engine (push_policy env hdrs st) = ct_engine st"
  "ct_files (push_policy env hdrs st) = ct_files st"
  "ct_loads (push_policy env hdrs st) = ct_loads st"
  "ct_poisoned (push_policy env hdrs st) = ct_poisoned st"
  by (simp_all add: push_policy_def)

lemma set_policy_frame [simp]:
  "en_policy (ct_engine (set_policy p st)) = en_policy (ct_engine st)"
  "en_ml (ct_engine (set_policy p st)) = en_ml (ct_engine st)"
  "en_broker_policy (ct_engine (set_policy p st)) = p"
  "ct_loads (set_policy p st) = ct_loads st"
  "ct_files (set_policy p st) = ct_files st"
  by (simp_all add: set_policy_def set_broker_policy_def)

lemma set_ml_frame [simp]:
  "en_policy (ct_engine (set_ml rt st)) = en_policy (ct_engine st)"
  "en_ml (ct_engine (set_ml rt st)) = rt"
  "ct_loads (set_ml rt st) = ct_loads st"
  "ct_files (set_ml rt st) = ct_files st"
  by (simp_all add: set_ml_def)

lemma reconcile_frame [simp]:
  "en_policy (ct_engine (reconcile_ml X m retry st)) = en_policy (ct_engine st)"
  "ct_files (reconcile_ml X m retry st) = ct_files st"
  by (simp_all add: reconcile_ml_def spawn_ml_load_def Let_def case_prod_unfold)

lemma frames_push [simp]:
  "ct_frames (push_policy env hdrs st) = (hd_write_id hdrs, policy_snapshot env st) # ct_frames st"
  "policy_snapshot env (push_policy env hdrs st) = policy_snapshot env st"
  "ct_frames (set_policy p st) = ct_frames st"
  "ct_frames (reconcile_ml X m retry st) = ct_frames st"
  by (simp_all add: push_policy_def policy_snapshot_def set_policy_def reconcile_ml_def
      spawn_ml_load_def set_ml_def Let_def case_prod_unfold)

lemma set_enabled_frame [simp]:
  "en_ml (set_enabled on e) = en_ml e"
  "ec_ml (po_config (en_policy (set_enabled on e))) = ec_ml (po_config (en_policy e))"
  "ec_enabled (po_config (en_policy (set_enabled on e))) = on"
  by (auto simp: set_enabled_def)

lemma secret_rules_frame [simp]:
  "en_policy (snd (set_secret_rules X rules e)) = en_policy e"
  "en_ml (snd (set_secret_rules X rules e)) = en_ml e"
  "en_broker_policy (snd (set_secret_rules X rules e)) = en_broker_policy e"
  by (auto simp: set_secret_rules_def Let_def split: sum.splits prod.splits)

lemma resolve_install_frame [simp]:
  "en_policy (snd (resolve_and_install X resolve specs key e)) = en_policy e"
  "en_ml (snd (resolve_and_install X resolve specs key e)) = en_ml e"
  "en_broker_policy (snd (resolve_and_install X resolve specs key e)) = en_broker_policy e"
  using secret_rules_frame [of X _ e]
  by (auto simp: resolve_and_install_def Let_def case_prod_unfold split: sum.splits prod.splits)

lemma background_frame [simp]:
  "en_policy (snd (background_resolve X resolve specs key gate e)) = en_policy e"
  "en_ml (snd (background_resolve X resolve specs key gate e)) = en_ml e"
  "en_broker_policy (snd (background_resolve X resolve specs key gate e)) = en_broker_policy e"
  by (simp_all add: background_resolve_def Let_def case_prod_unfold)

lemma sealed_config_simps [simp]:
  "ec_ml (sealed_config cfg) = ec_ml cfg" "ec_enabled (sealed_config cfg) = ec_enabled cfg"
  by (simp_all add: sealed_config_def)

section \<open>The recognizer follows the configuration\<close>

definition ml_sound :: "ml_runtime \<Rightarrow> (nat \<times> ml_config) list \<Rightarrow> bool" where
  "ml_sound rt loads \<longleftrightarrow>
     (rt_status rt = MlDisabled \<longleftrightarrow> rt_desired rt = None) \<and>
     (\<forall>d. rt_desired rt = Some d \<longrightarrow> mc_enabled d) \<and>
     (\<forall>g\<in>fst ` set loads. g \<le> rt_generation rt \<and>
        (g = rt_generation rt \<longrightarrow> rt_status rt \<noteq> MlDisabled))"

definition ml_agrees :: "ml_config \<Rightarrow> ml_runtime \<Rightarrow> bool" where
  "ml_agrees m rt \<longleftrightarrow>
     (case rt_desired rt of
        None \<Rightarrow> \<not> mc_enabled m
      | Some d \<Rightarrow> mc_enabled m \<and> mc_required d = mc_required m \<and> (d = m \<or> same_model_params d m))"

definition tracks :: "control_state \<Rightarrow> bool" where
  "tracks st \<longleftrightarrow>
     ml_sound (en_ml (ct_engine st)) (ct_loads st) \<and>
     ml_agrees (ec_ml (live_config st)) (en_ml (ct_engine st))"

lemma sound_core:
  assumes "engine_core e = engine_core e'"
  shows "ml_sound (en_ml e) loads \<longleftrightarrow> ml_sound (en_ml e') loads"
    and "ml_agrees m (en_ml e) \<longleftrightarrow> ml_agrees m (en_ml e')"
  using assms by (simp_all add: engine_core_def ml_sound_def ml_agrees_def)

lemma same_params_enabled [simp]:
  "same_model_params d (m\<lparr>mc_enabled := b\<rparr>) = same_model_params d m"
  "same_model_params (d\<lparr>mc_required := r\<rparr>) m = same_model_params d m"
  by (simp_all add: same_model_params_def cong: ml_backend.case_cong)

lemma disable_tracks:
  assumes "ml_sound rt loads" and "\<not> mc_enabled m"
  shows "ml_sound (ml_disable X rt) loads" and "ml_agrees m (ml_disable X rt)"
  using assms by (force simp: ml_sound_def ml_agrees_def ml_disable_def refresh_fp_def)+

lemma spawn_tracks:
  assumes "ml_sound (en_ml (ct_engine st)) (ct_loads st)" and "mc_enabled m"
  shows "ml_sound (en_ml (ct_engine (spawn_ml_load X m st))) (ct_loads (spawn_ml_load X m st))"
    and "ml_agrees m (en_ml (ct_engine (spawn_ml_load X m st)))"
  using assms
  by (force simp: ml_sound_def ml_agrees_def spawn_ml_load_def ml_begin_load_def refresh_fp_def
      Let_def set_ml_def)+

lemma reconcile_shape:
  assumes "mc_enabled m"
  shows "reconcile_ml X m retry st = spawn_ml_load X m st \<or>
    reconcile_ml X m retry st =
      set_ml (ml_update_required (mc_required m) (en_ml (ct_engine st))) st \<and>
    rt_status (en_ml (ct_engine st)) \<noteq> MlDisabled \<and>
    (\<exists>d. rt_desired (en_ml (ct_engine st)) = Some d \<and> same_model_params d m)"
proof (cases "rt_desired (en_ml (ct_engine st))")
  case None
  with assms show ?thesis
    by (cases "rt_status (en_ml (ct_engine st))") (simp_all add: reconcile_ml_def ml_snapshot_def)
next
  case (Some d)
  with assms show ?thesis
    by (cases "rt_status (en_ml (ct_engine st))"; cases "same_model_params d m")
       (simp_all add: reconcile_ml_def ml_snapshot_def)
qed

lemma reconcile_tracks:
  assumes "ml_sound (en_ml (ct_engine st)) (ct_loads st)"
  shows "ml_sound (en_ml (ct_engine (reconcile_ml X m retry st))) (ct_loads (reconcile_ml X m retry st)) \<and>
    ml_agrees m (en_ml (ct_engine (reconcile_ml X m retry st)))"
proof (cases "mc_enabled m")
  case False
  show ?thesis
  proof (cases "rt_status (en_ml (ct_engine st)) = MlDisabled")
    case True
    with assms False show ?thesis
      by (simp add: reconcile_ml_def ml_snapshot_def ml_sound_def ml_agrees_def)
  next
    case off: False
    from disable_tracks [OF assms False, of X] show ?thesis
      by (simp add: reconcile_ml_def ml_snapshot_def False off)
  qed
next
  case True
  define rt where "rt = en_ml (ct_engine st)"
  show ?thesis
  proof (cases "reconcile_ml X m retry st = spawn_ml_load X m st")
    case True
    with spawn_tracks [OF assms \<open>mc_enabled m\<close>, of X] show ?thesis by simp
  next
    case False
    with reconcile_shape [OF \<open>mc_enabled m\<close>, of X retry st]
    have r: "reconcile_ml X m retry st = set_ml (ml_update_required (mc_required m) rt) st"
      and d: "rt_status rt \<noteq> MlDisabled" "\<exists>d. rt_desired rt = Some d \<and> same_model_params d m"
      by (simp_all add: rt_def)
    from d(2) assms True show ?thesis
      by (auto simp: r ml_update_required_def ml_sound_def ml_agrees_def rt_def)
  qed
qed

lemma load_done_tracks:
  assumes "tracks st" and "g \<in> fst ` set (ct_loads st)"
  shows "tracks (load_done X g res st)"
  using assms
  by (fastforce simp: tracks_def load_done_def ml_sound_def ml_agrees_def ml_set_ready_def
      ml_set_failed_def refresh_fp_def set_ml_def split: sum.splits)

lemma tracks_frame:
  assumes "tracks st" and "ec_ml (live_config st') = ec_ml (live_config st)"
    and "en_ml (ct_engine st') = en_ml (ct_engine st)" and "ct_loads st' = ct_loads st"
  shows "tracks st'"
  using assms by (simp add: tracks_def)

section \<open>What the writers keep\<close>

text \<open>The part of the state that only the recognizer's and the switch's own requests change.\<close>

definition live_frame :: "control_state \<Rightarrow> control_state \<Rightarrow> bool" where
  "live_frame st st' \<longleftrightarrow>
     ec_ml (live_config st') = ec_ml (live_config st) \<and>
     ec_enabled (live_config st') = ec_enabled (live_config st) \<and>
     en_ml (ct_engine st') = en_ml (ct_engine st) \<and> ct_loads st' = ct_loads st"

lemma live_frame_refl [simp]: "live_frame st st"
  by (simp add: live_frame_def)

lemma live_frame_tracks: "live_frame st st' \<Longrightarrow> tracks st \<Longrightarrow> tracks st'"
  by (simp add: live_frame_def tracks_def)

lemma live_frame_more [simp]:
  "live_frame st (push_policy env hdrs st') = live_frame st st'"
  "live_frame st (set_policy p st') = live_frame st st'"
  "live_frame st (st'\<lparr>ct_files := fs\<rparr>) = live_frame st st'"
  "live_frame st (st'\<lparr>ct_poisoned := b\<rparr>) = live_frame st st'"
  by (simp_all add: live_frame_def)

lemma install_frame [simp]:
  assumes "ec_ml cfg = ec_ml (live_config st)" and "ec_enabled cfg = ec_enabled (live_config st)"
  shows "live_frame st (snd (install_config X cfg st))"
  using assms by (cases rule: install_config_cases [of X cfg st]) (auto simp: live_frame_def)

lemma persist_allow_frame [simp]:
  "live_frame st (snd (persist_allow_lists W env st')) = live_frame st st'"
  by (simp add: persist_allow_lists_def case_prod_unfold Let_def)

lemma with_profile_simps [simp]:
  "ec_ml (with_profile X p cfg) = ec_ml cfg" "ec_enabled (with_profile X p cfg) = ec_enabled cfg"
  by (simp_all add: with_profile_def Let_def)

lemmas step_unfold = Let_def case_prod_unfold

lemma apply_profile_frame: "live_frame st (snd (apply_profile X W env hdrs name p scope st))"
  by (simp add: apply_profile_def step_unfold split: sum.splits)

lemma custom_mask_frame: "live_frame st (snd (custom_mask_handler X W env hdrs rule st))"
  by (simp add: custom_mask_handler_def step_unfold split: sum.splits)

lemma custom_remove_frame: "live_frame st (snd (custom_masks_remove_handler X W env hdrs p ent st))"
  by (simp add: custom_masks_remove_handler_def step_unfold split: sum.splits)

lemma reveal_frame: "live_frame st (snd (reveal_handler X W env hdrs v pat ent st))"
  by (simp add: reveal_handler_def step_unfold split: sum.splits option.splits)

lemma remask_frame: "live_frame st (snd (remask_handler X W env hdrs v st))"
  by (simp add: remask_handler_def step_unfold split: sum.splits)

lemma diag_mask_frame:
  shows "tracks (snd (diag_mask_handler X t st)) = tracks st"
    and "en_policy (ct_engine (snd (diag_mask_handler X t st))) = en_policy (ct_engine st)"
proof -
  obtain r e where m: "mask X t UserMessage (ct_engine st) = (r, e)" by fastforce
  have e: "engine_core e = engine_core (ct_engine st)" using mask_core [of X t UserMessage "ct_engine st"] m by simp
  from e sound_core [OF e] m
  show "tracks (snd (diag_mask_handler X t st)) = tracks st"
    and "en_policy (ct_engine (snd (diag_mask_handler X t st))) = en_policy (ct_engine st)"
    by (auto simp: diag_mask_handler_def tracks_def engine_core_def split: sum.splits)
qed

lemma put_config_tracks: "tracks st \<Longrightarrow> tracks (snd (put_config X W env hdrs over st))"
proof (cases "merged_config X W (live_config st) over")
  case (Inr cfg)
  let ?cfg = "cfg\<lparr>ec_ml := (ec_ml cfg)\<lparr>mc_enabled := ml_on st\<rparr>\<rparr>"
  assume t: "tracks st"
  show ?thesis
  proof (cases rule: install_config_cases [of X ?cfg st])
    case (Rejected err)
    with t Inr show ?thesis by (simp add: put_config_def)
  next
    case (Installed p)
    with t Inr reconcile_tracks [of "snd (install_config X ?cfg st)" X "ec_ml ?cfg" False]
    show ?thesis by (simp add: put_config_def tracks_def Let_def)
  qed
qed (auto simp: put_config_def)

lemma ml_enable_tracks: "tracks st \<Longrightarrow> tracks (snd (ml_enable_handler X env hdrs st))"
proof -
  let ?cfg = "(live_config st)\<lparr>ec_ml := (ec_ml (live_config st))\<lparr>mc_enabled := True\<rparr>\<rparr>"
  assume t: "tracks st"
  show ?thesis
  proof (cases rule: install_config_cases [of X ?cfg st])
    case (Rejected err)
    with t show ?thesis by (simp add: ml_enable_handler_def)
  next
    case (Installed p)
    with t reconcile_tracks [of "snd (install_config X ?cfg st)" X "ec_ml ?cfg" True]
    show ?thesis by (simp add: ml_enable_handler_def tracks_def Let_def)
  qed
qed

lemma ml_disable_tracks: "tracks st \<Longrightarrow> tracks (snd (ml_disable_handler X env hdrs st))"
proof -
  let ?cfg = "(live_config st)\<lparr>ec_ml := (ec_ml (live_config st))\<lparr>mc_enabled := False\<rparr>\<rparr>"
  assume t: "tracks st"
  show ?thesis
  proof (cases rule: install_config_cases [of X ?cfg st])
    case (Rejected err)
    with t show ?thesis by (simp add: ml_disable_handler_def)
  next
    case (Installed p)
    with t disable_tracks [of "en_ml (ct_engine st)" "ct_loads st" "ec_ml ?cfg" X]
    show ?thesis by (simp add: ml_disable_handler_def tracks_def Let_def)
  qed
qed

lemma reload_tracks: "tracks st \<Longrightarrow> tracks (snd (reload_handler X W env hdrs st))"
proof (cases "reload_engine X (cw_toml W) (ct_files st) (cv_layers env)")
  case (Inr cfg)
  let ?cfg = "cfg\<lparr>ec_enabled := ec_enabled (live_config st), ec_ml := (ec_ml cfg)\<lparr>mc_enabled := ml_on st\<rparr>\<rparr>"
  assume t: "tracks st"
  show ?thesis
  proof (cases rule: install_config_cases [of X ?cfg st])
    case (Rejected err)
    with t Inr show ?thesis by (simp add: reload_handler_def tracks_def)
  next
    case (Installed p)
    with t Inr reconcile_tracks [of "snd (install_config X ?cfg st)" X "ec_ml ?cfg" False]
    show ?thesis by (simp add: reload_handler_def tracks_def Let_def)
  qed
qed (auto simp: reload_handler_def tracks_def)

lemma set_enabled_tracks: "tracks (snd (set_enabled_handler env on st)) = tracks st"
  by (simp add: set_enabled_handler_def tracks_def Let_def)

text \<open>What every handler keeps, a request keeps.\<close>

lemma serve_preserves:
  assumes st: "P st"
    and "\<And>body over. req = PutConfig body \<Longrightarrow> cw_json W body = Some (JObj over) \<Longrightarrow>
      P (snd (put_config X W env hdrs (JObj over) st))"
    and "\<And>name q p scope. req = ApplyProfile name q \<Longrightarrow> P (snd (apply_profile X W env hdrs name p scope st))"
    and "req = MlEnable \<Longrightarrow> P (snd (ml_enable_handler X env hdrs st))"
    and "req = MlDisable \<Longrightarrow> P (snd (ml_disable_handler X env hdrs st))"
    and "\<And>on. req = (if on then Enable else Disable) \<Longrightarrow> P (snd (set_enabled_handler env on st))"
    and "req = Reload \<Longrightarrow> P (snd (reload_handler X W env hdrs st))"
    and "\<And>t. P (snd (diag_mask_handler X t st))"
    and "\<And>rule. P (snd (custom_mask_handler X W env hdrs rule st))"
    and "\<And>p ent. P (snd (custom_masks_remove_handler X W env hdrs p ent st))"
    and "\<And>v p ent. P (snd (reveal_handler X W env hdrs v p ent st))"
    and "\<And>v. P (snd (remask_handler X W env hdrs v st))"
  shows "P (snd (serve X W env now hdrs req st))"
proof (cases "authed env hdrs")
  case False
  with st show ?thesis by (simp add: serve_forbidden)
next
  case True
  then show ?thesis
  proof (cases req)
    case Enable
    with st assms(6) [of True] True show ?thesis by (simp add: locked_def)
  next
    case Disable
    with st assms(6) [of False] True show ?thesis by (simp add: locked_def)
  qed (simp_all add: True locked_def Let_def assms(1-5,7-12) split: option.splits json.splits)
qed

lemmas frame_tracks =
  apply_profile_frame [THEN live_frame_tracks] custom_mask_frame [THEN live_frame_tracks]
  custom_remove_frame [THEN live_frame_tracks] reveal_frame [THEN live_frame_tracks]
  remask_frame [THEN live_frame_tracks]

lemma serve_tracks: "tracks st \<Longrightarrow> tracks (snd (serve X W env now hdrs req st))"
  by (rule serve_preserves)
     (simp_all add: put_config_tracks ml_enable_tracks ml_disable_tracks reload_tracks frame_tracks
       set_enabled_tracks diag_mask_frame)

lemma step_tracks: "tracks st \<Longrightarrow> tracks (control_step X W env a st)"
proof (cases a)
  case (Serve now hdrs req)
  assume "tracks st"
  from serve_tracks [OF this] Serve show ?thesis by simp
next
  case (LoadDone g res)
  assume "tracks st"
  with LoadDone load_done_tracks [of st g X res] show ?thesis by simp
next
  case (MaskCall t surface)
  assume "tracks st"
  with MaskCall mask_core [of X t surface "ct_engine st"]
    sound_core [OF mask_core [of X t surface "ct_engine st"]]
  show ?thesis by (simp add: tracks_def engine_core_def)
qed (simp_all add: tracks_def step_unfold)

lemma run_tracks: "tracks st \<Longrightarrow> tracks (control_run X W env acts st)"
  by (rule run_preserves) (auto intro: step_tracks)

lemma engine_from_parts_Inr:
  assumes "engine_from_parts X cfg store = Inr e"
  shows "po_config (en_policy e) = sealed_config cfg" and "en_ml e = ml_default X"
  using assms policy_new_config [of X cfg] by (auto simp: engine_from_parts_def bind_r_Inr_iff)

lemma build_engine_Inr:
  assumes "build_engine X draws salt cfg = Inr e"
  shows "po_config (en_policy e) = sealed_config cfg" and "en_ml e = ml_default X"
  using assms
  by (auto simp: build_engine_def engine_with_salt_def engine_new_def
      dest: engine_from_parts_Inr split: option.splits sum.splits)

lemma start_broker_frame [simp]:
  "en_policy (start_broker X allows e) = en_policy e" "en_ml (start_broker X allows e) = en_ml e"
  by (simp_all add: start_broker_def set_broker_policy_def split: sum.splits)

lemma spawn_frame [simp]:
  "en_policy (ct_engine (spawn_ml_load X m st)) = en_policy (ct_engine st)"
  "ct_files (spawn_ml_load X m st) = ct_files st"
  "ct_poisoned (spawn_ml_load X m st) = ct_poisoned st"
  by (simp_all add: spawn_ml_load_def set_ml_def step_unfold)

lemma start_Inr:
  assumes "start X draws salt loaded fs = Inr (key, st)"
  shows "live_config st = sealed_config (lc_engine loaded)" and "tracks st"
    and "ct_files st = fs" and "\<not> ct_poisoned st"
proof -
  obtain e0 where e0: "build_engine X draws salt (lc_engine loaded) = Inr e0"
    using assms by (auto simp: start_def split: sum.splits)
  let ?e1 = "start_broker X (lc_broker_allows loaded) e0"
  obtain r e2 where s: "set_secret_rules X [admin_key_rule (control_token X ?e1)] ?e1 = (r, e2)"
    by fastforce
  have f: "en_policy e2 = en_policy e0" "en_ml e2 = en_ml e0"
    using secret_rules_frame(1,2) [of X "[admin_key_rule (control_token X ?e1)]" ?e1] by (simp_all add: s)
  note b = build_engine_Inr [OF e0]
  let ?st = "\<lparr>ct_engine = e2, ct_files = fs, ct_poisoned = False, ct_frames = [], ct_loads = [],
    ct_secrets_ready = gate_at_start (lc_secrets loaded), ct_secrets = []\<rparr>"
  have st: "st = (if mc_enabled (ec_ml (lc_engine loaded)) then spawn_ml_load X (ec_ml (lc_engine loaded)) ?st else ?st)"
    using assms by (auto simp: start_def e0 Let_def startup_secrets_def s split: sum.splits)
  show "live_config st = sealed_config (lc_engine loaded)" "ct_files st = fs" "\<not> ct_poisoned st"
    by (simp_all add: st f b)
  have "ml_sound (en_ml (ct_engine ?st)) (ct_loads ?st)"
    by (simp add: f b ml_sound_def ml_default_def refresh_fp_def)
  from spawn_tracks [OF this, of "ec_ml (lc_engine loaded)" X] this
  show "tracks st"
    by (simp add: st tracks_def f b) (simp add: ml_agrees_def ml_default_def refresh_fp_def)
qed

text \<open>
  C10: the recognizer follows the configuration.  In every state a started proxy reaches, whatever
  requests, loads (late, failed or superseded), mask calls, secret resolutions and file edits came
  before, the recognizer is off exactly when the live configuration has it off, and a mask call is
  refused for want of it exactly when the configuration has it on, requires it (by its own flag or
  its backend's default), and it is not ready.
\<close>

theorem ml_follows_config:
  assumes "start X draws salt loaded fs = Inr (key, st0)" and "st = control_run X W env acts st0"
  shows "(mc_enabled (ec_ml (live_config st)) \<longleftrightarrow> rt_status (en_ml (ct_engine st)) \<noteq> MlDisabled) \<and>
    (ml_refusal (en_ml (ct_engine st)) \<noteq> None \<longleftrightarrow>
       mc_enabled (ec_ml (live_config st)) \<and> required_effective (ec_ml (live_config st)) \<and>
       rt_status (en_ml (ct_engine st)) \<noteq> MlReady)"
proof -
  have "tracks st" using run_tracks start_Inr(2) [OF assms(1)] assms(2) by blast
  moreover have "required_effective d = required_effective m"
    if "mc_required d = mc_required m" "same_model_params d m" for d m
    using that by (auto simp: required_effective_def same_model_params_def split: if_splits option.splits)
  ultimately show ?thesis
    by (cases "rt_desired (en_ml (ct_engine st))")
       (auto simp: tracks_def ml_sound_def ml_agrees_def ml_refusal_def)
qed

section \<open>The switches\<close>

text \<open>
  The requests that may turn masking, or the recognizer, on or off.  A PUT is one only when what it
  asks for, merged over the live configuration, is accepted and has masking the other way round.
\<close>

fun flips_masking ::
  "'x ext_scheme \<Rightarrow> control_wire \<Rightarrow> control_env \<Rightarrow> control_action \<Rightarrow> control_state \<Rightarrow> bool" where
  "flips_masking X W env (Serve now hdrs req) st \<longleftrightarrow>
     authed env hdrs \<and>
     (req = Enable \<or> req = Disable \<or>
      (\<exists>body over cfg. req = PutConfig body \<and> cw_json W body = Some (JObj over) \<and>
         merged_config X W (live_config st) (JObj over) = Inr cfg \<and>
         ec_enabled cfg \<noteq> ec_enabled (live_config st)))"
| "flips_masking X W env _ st \<longleftrightarrow> False"

text \<open>No action of a run is one, in the state it meets.\<close>

fun never ::
  "(control_action \<Rightarrow> control_state \<Rightarrow> bool) \<Rightarrow> 'x ext_scheme \<Rightarrow> control_wire \<Rightarrow> control_env \<Rightarrow>
   control_action list \<Rightarrow> control_state \<Rightarrow> bool" where
  "never P X W env [] st \<longleftrightarrow> True"
| "never P X W env (a # acts) st \<longleftrightarrow> \<not> P a st \<and> never P X W env acts (control_step X W env a st)"

lemma never_preserves:
  assumes "Q st" and "never P X W env acts st"
    and "\<And>a s. \<not> P a s \<Longrightarrow> Q s \<Longrightarrow> Q (control_step X W env a s)"
  shows "Q (control_run X W env acts st)"
  using assms(1,2)
proof (induction acts arbitrary: st)
  case (Cons a acts)
  from Cons.IH [of "control_step X W env a st"] Cons.prems assms(3) show ?case by simp
qed simp

fun flips_ml :: "control_env \<Rightarrow> control_action \<Rightarrow> bool" where
  "flips_ml env (Serve now hdrs req) \<longleftrightarrow> authed env hdrs \<and> (req = MlEnable \<or> req = MlDisable)"
| "flips_ml env _ \<longleftrightarrow> False"

lemma tracks_ml_on: "tracks st \<Longrightarrow> ml_on st \<longleftrightarrow> mc_enabled (ec_ml (live_config st))"
  by (auto simp: tracks_def ml_on_def ml_snapshot_def ml_sound_def ml_agrees_def split: option.splits)

lemma reload_enabled:
  "ec_enabled (live_config (snd (reload_handler X W env hdrs st))) = ec_enabled (live_config st)"
proof (cases "reload_engine X (cw_toml W) (ct_files st) (cv_layers env)")
  case (Inr cfg)
  show ?thesis
    by (cases rule: install_config_cases [of X "cfg\<lparr>ec_enabled := ec_enabled (live_config st),
        ec_ml := (ec_ml cfg)\<lparr>mc_enabled := ml_on st\<rparr>\<rparr>" st]) (simp_all add: reload_handler_def Inr Let_def)
qed (simp add: reload_handler_def)

lemma reload_ml_enabled:
  assumes "tracks st"
  shows "mc_enabled (ec_ml (live_config (snd (reload_handler X W env hdrs st)))) =
    mc_enabled (ec_ml (live_config st))"
proof (cases "reload_engine X (cw_toml W) (ct_files st) (cv_layers env)")
  case (Inr cfg)
  show ?thesis
    by (cases rule: install_config_cases [of X "cfg\<lparr>ec_enabled := ec_enabled (live_config st),
        ec_ml := (ec_ml cfg)\<lparr>mc_enabled := ml_on st\<rparr>\<rparr>" st])
      (simp_all add: reload_handler_def Inr Let_def tracks_ml_on [OF assms])
qed (simp add: reload_handler_def)

lemma put_config_ml_enabled:
  assumes "tracks st"
  shows "mc_enabled (ec_ml (live_config (snd (put_config X W env hdrs over st)))) =
    mc_enabled (ec_ml (live_config st))"
proof (cases "merged_config X W (live_config st) over")
  case (Inr cfg)
  show ?thesis
    by (cases rule: install_config_cases [of X "cfg\<lparr>ec_ml := (ec_ml cfg)\<lparr>mc_enabled := ml_on st\<rparr>\<rparr>" st])
      (simp_all add: put_config_def Inr Let_def tracks_ml_on [OF assms])
qed (auto simp: put_config_def)

lemma put_config_masking:
  assumes "\<And>cfg. merged_config X W (live_config st) over = Inr cfg \<Longrightarrow>
    ec_enabled cfg = ec_enabled (live_config st)"
  shows "ec_enabled (live_config (snd (put_config X W env hdrs over st))) = ec_enabled (live_config st)"
proof (cases "merged_config X W (live_config st) over")
  case (Inr cfg)
  show ?thesis
    by (cases rule: install_config_cases [of X "cfg\<lparr>ec_ml := (ec_ml cfg)\<lparr>mc_enabled := ml_on st\<rparr>\<rparr>" st])
      (simp_all add: put_config_def Inr Let_def assms [OF Inr])
qed (auto simp: put_config_def)

lemma ml_switch_masking:
  "ec_enabled (live_config (snd (ml_enable_handler X env hdrs st))) = ec_enabled (live_config st)"
  "ec_enabled (live_config (snd (ml_disable_handler X env hdrs st))) = ec_enabled (live_config st)"
proof -
  show "ec_enabled (live_config (snd (ml_enable_handler X env hdrs st))) = ec_enabled (live_config st)"
    by (cases rule: install_config_cases [of X "(live_config st)\<lparr>ec_ml := (ec_ml (live_config st))\<lparr>mc_enabled := True\<rparr>\<rparr>" st])
      (simp_all add: ml_enable_handler_def Let_def)
  show "ec_enabled (live_config (snd (ml_disable_handler X env hdrs st))) = ec_enabled (live_config st)"
    by (cases rule: install_config_cases [of X "(live_config st)\<lparr>ec_ml := (ec_ml (live_config st))\<lparr>mc_enabled := False\<rparr>\<rparr>" st])
      (simp_all add: ml_disable_handler_def Let_def)
qed

lemma live_frame_switches:
  "live_frame st st' \<Longrightarrow> ec_enabled (live_config st') = ec_enabled (live_config st)"
  "live_frame st st' \<Longrightarrow> mc_enabled (ec_ml (live_config st')) = mc_enabled (ec_ml (live_config st))"
  by (simp_all add: live_frame_def)

lemmas frame_masking =
  apply_profile_frame [THEN live_frame_switches(1)] custom_mask_frame [THEN live_frame_switches(1)]
  custom_remove_frame [THEN live_frame_switches(1)] reveal_frame [THEN live_frame_switches(1)]
  remask_frame [THEN live_frame_switches(1)]

lemmas frame_ml =
  apply_profile_frame [THEN live_frame_switches(2)] custom_mask_frame [THEN live_frame_switches(2)]
  custom_remove_frame [THEN live_frame_switches(2)] reveal_frame [THEN live_frame_switches(2)]
  remask_frame [THEN live_frame_switches(2)]

lemma mask_policy: "en_policy (snd (mask X t surface e)) = en_policy e"
  using mask_core [of X t surface e] by (simp add: engine_core_def)

lemma load_done_policy [simp]: "en_policy (ct_engine (load_done X g res st)) = en_policy (ct_engine st)"
  by (simp add: load_done_def)

lemma serve_masking:
  assumes "\<not> flips_masking X W env (Serve now hdrs req) st"
  shows "ec_enabled (live_config (snd (serve X W env now hdrs req st))) = ec_enabled (live_config st)"
proof (cases "authed env hdrs")
  case True
  have put: "ec_enabled (live_config (snd (put_config X W env hdrs (JObj over) st))) = ec_enabled (live_config st)"
    if "req = PutConfig body" "cw_json W body = Some (JObj over)" for body over
    by (rule put_config_masking) (use assms True that in auto)
  show ?thesis
    by (rule serve_preserves [of "\<lambda>s. ec_enabled (live_config s) = ec_enabled (live_config st)"])
      (use assms True put in \<open>simp_all add: frame_masking reload_enabled ml_switch_masking diag_mask_frame
        split: if_splits\<close>)
qed (simp add: serve_forbidden)

lemma serve_ml:
  assumes "tracks st" and "\<not> flips_ml env (Serve now hdrs req)"
  shows "mc_enabled (ec_ml (live_config (snd (serve X W env now hdrs req st)))) =
    mc_enabled (ec_ml (live_config st))"
proof (cases "authed env hdrs")
  case True
  show ?thesis
    by (rule serve_preserves [of "\<lambda>s. mc_enabled (ec_ml (live_config s)) = mc_enabled (ec_ml (live_config st))"])
      (use assms True in \<open>simp_all add: frame_ml reload_ml_enabled put_config_ml_enabled
        diag_mask_frame set_enabled_handler_def Let_def\<close>)
qed (simp add: serve_forbidden)

lemma step_masking:
  "\<not> flips_masking X W env a st \<Longrightarrow>
   ec_enabled (live_config (control_step X W env a st)) = ec_enabled (live_config st)"
  by (cases a) (simp_all add: serve_masking mask_policy step_unfold del: flips_masking.simps(1))

lemma step_ml:
  "tracks st \<Longrightarrow> \<not> flips_ml env a \<Longrightarrow>
   mc_enabled (ec_ml (live_config (control_step X W env a st))) = mc_enabled (ec_ml (live_config st))"
  by (cases a) (simp_all add: serve_ml mask_policy step_unfold del: flips_ml.simps(1))

text \<open>
  C9: the switches belong to the key holder.  A started proxy keeps masking as its configuration had
  it until an authenticated enable or disable, or an authenticated PUT of the configuration that is
  accepted and has masking the other way round; and it keeps the recognizer until an authenticated
  enable or disable of it, which no PUT can replace.  No edit of any configuration file, followed by
  any number of reloads, and no profile, no load and no traffic turns either off.
\<close>

theorem switches_live_owned:
  assumes "start X draws salt loaded fs = Inr (key, st0)" and "st = control_run X W env acts st0"
  shows "(never (flips_masking X W env) X W env acts st0 \<longrightarrow>
      ec_enabled (live_config st) = ec_enabled (lc_engine loaded)) \<and>
    (never (\<lambda>a _. flips_ml env a) X W env acts st0 \<longrightarrow>
      mc_enabled (ec_ml (live_config st)) = mc_enabled (ec_ml (lc_engine loaded)))"
proof (intro conjI impI)
  assume "never (flips_masking X W env) X W env acts st0"
  then show "ec_enabled (live_config st) = ec_enabled (lc_engine loaded)"
    unfolding assms(2)
    by (rule never_preserves [where Q = "\<lambda>s. ec_enabled (live_config s) = ec_enabled (lc_engine loaded)", rotated])
       (simp_all add: start_Inr(1) [OF assms(1)] step_masking)
next
  assume "never (\<lambda>a _. flips_ml env a) X W env acts st0"
  then have "tracks st \<and> mc_enabled (ec_ml (live_config st)) = mc_enabled (ec_ml (lc_engine loaded))"
    unfolding assms(2)
    by (rule never_preserves [where Q = "\<lambda>s. tracks s \<and>
          mc_enabled (ec_ml (live_config s)) = mc_enabled (ec_ml (lc_engine loaded))", rotated])
       (simp_all add: start_Inr [OF assms(1)] step_tracks step_ml)
  then show "mc_enabled (ec_ml (live_config st)) = mc_enabled (ec_ml (lc_engine loaded))" ..
qed

section \<open>Without the key\<close>

text \<open>What anyone can cause: requests without the control key, traffic, and loads running out.\<close>

fun outsider :: "control_env \<Rightarrow> control_action \<Rightarrow> bool" where
  "outsider env (Serve now hdrs req) \<longleftrightarrow> hd_key hdrs \<noteq> Some (cv_admin_key env)"
| "outsider env (LoadDone g res) \<longleftrightarrow> True"
| "outsider env (MaskCall t surface) \<longleftrightarrow> True"
| "outsider env _ \<longleftrightarrow> False"

definition guarded ::
  "control_state \<Rightarrow> policy \<times> secret_set \<times> broker_policy \<times> ml_config option \<times> files \<times> bool \<times>
   (string option \<times> policy_view) list" where
  "guarded st =
     (en_policy (ct_engine st), en_secrets (ct_engine st), en_broker_policy (ct_engine st),
      rt_desired (en_ml (ct_engine st)), ct_files st, ct_poisoned st, ct_frames st)"

lemma unauthed: "hd_key hdrs \<noteq> Some (cv_admin_key env) \<Longrightarrow> \<not> authed env hdrs"
  by (auto simp: authed_def split: option.splits)

lemma load_done_guarded: "guarded (load_done X g res st) = guarded st"
  by (simp add: guarded_def load_done_def set_ml_def ml_set_ready_def ml_set_failed_def refresh_fp_def
      split: sum.splits)

lemma mask_guarded: "guarded (st\<lparr>ct_engine := snd (mask X t surface (ct_engine st))\<rparr>) = guarded st"
  using mask_core [of X t surface "ct_engine st"] by (simp add: guarded_def engine_core_def)

lemma outsider_step: "outsider env a \<Longrightarrow> guarded (control_step X W env a st) = guarded st"
  by (cases a) (simp_all add: serve_forbidden unauthed load_done_guarded mask_guarded)

section \<open>Reload\<close>

lemma empty_policy_denies [simp]: "decide X [] secret_name tool pointer v \<noteq> Resolve"
  by (simp add: decide_def)

lemma reload_installs:
  assumes "reload_handler X W env hdrs st = (PolicyReply v, st')"
  obtains cfg where "reload_engine X (cw_toml W) (ct_files st) (cv_layers env) = Inr cfg"
    and "live_config st' = sealed_config (cfg\<lparr>ec_enabled := ec_enabled (live_config st),
      ec_ml := (ec_ml cfg)\<lparr>mc_enabled := ml_on st\<rparr>\<rparr>)"
proof (cases "reload_engine X (cw_toml W) (ct_files st) (cv_layers env)")
  case (Inl e)
  with assms show ?thesis by (simp add: reload_handler_def)
next
  case (Inr cfg)
  show ?thesis
    by (cases rule: install_config_cases [of X "cfg\<lparr>ec_enabled := ec_enabled (live_config st),
        ec_ml := (ec_ml cfg)\<lparr>mc_enabled := ml_on st\<rparr>\<rparr>" st])
      (use assms Inr in \<open>auto simp: reload_handler_def Let_def intro!: that\<close>)
qed

text \<open>
  C12: a reload fails closed.  When the files cannot be read, parsed or decoded, or hold an inline
  secret, a bad allow pattern or an operator only a secret may have, the live configuration and the
  recognizer stay as they were and no broker secret resolves anywhere afterwards.  A reload that
  succeeds installs what the files say, less the two switches, with the files' broker policy; and
  an error in the broker section alone leaves no broker secret resolvable.
\<close>

theorem reload_fails_closed:
  assumes "authed env hdrs" and "\<not> ct_poisoned st"
    and "serve X W env now hdrs Reload st = (reply, st')"
  shows "(case reply of
      PolicyReply v \<Rightarrow>
        (\<exists>cfg. reload_engine X (cw_toml W) (ct_files st) (cv_layers env) = Inr cfg \<and>
          live_config st' = sealed_config (cfg\<lparr>ec_enabled := ec_enabled (live_config st),
            ec_ml := (ec_ml cfg)\<lparr>mc_enabled := ml_on st\<rparr>\<rparr>)) \<and>
        en_broker_policy (ct_engine st') = reloaded_broker X W env (ct_files st) \<and>
        ct_frames st' = (hd_write_id hdrs, v) # ct_frames st
    | _ \<Rightarrow>
        live_config st' = live_config st \<and> en_ml (ct_engine st') = en_ml (ct_engine st) \<and>
        (\<forall>secret_name tool pointer v.
          decide X (en_broker_policy (ct_engine st')) secret_name tool pointer v \<noteq> Resolve)) \<and>
    ((\<exists>e. Inl e = reload_broker_allows (cw_toml W) (ct_files st) (cv_layers env)) \<or>
     (\<exists>allows e. Inr allows = reload_broker_allows (cw_toml W) (ct_files st) (cv_layers env) \<and>
        build_broker_policy X allows = Inl e) \<longrightarrow>
      decide X (en_broker_policy (ct_engine st')) secret_name tool pointer v \<noteq> Resolve)"
proof -
  have h: "reload_handler X W env hdrs st = (reply, st')" using assms by (simp add: locked_def)
  have bad: "Inl e = reload_broker_allows (cw_toml W) (ct_files st) (cv_layers env) \<Longrightarrow>
      reloaded_broker X W env (ct_files st) = []"
    "Inr allows = reload_broker_allows (cw_toml W) (ct_files st) (cv_layers env) \<Longrightarrow>
      build_broker_policy X allows = Inl e' \<Longrightarrow> reloaded_broker X W env (ct_files st) = []" for e e' allows
    by (auto simp: reloaded_broker_def split: sum.splits)
  show ?thesis
  proof (cases "reload_engine X (cw_toml W) (ct_files st) (cv_layers env)")
    case (Inl e)
    with h show ?thesis by (auto simp: reload_handler_def)
  next
    case (Inr cfg)
    show ?thesis
    proof (cases rule: install_config_cases [of X "cfg\<lparr>ec_enabled := ec_enabled (live_config st),
        ec_ml := (ec_ml cfg)\<lparr>mc_enabled := ml_on st\<rparr>\<rparr>" st])
      case (Rejected err)
      with Inr h show ?thesis by (auto simp: reload_handler_def Let_def)
    next
      case (Installed p)
      from Installed Inr h show ?thesis
        by (auto simp: reload_handler_def Let_def dest!: bad)
    qed
  qed
qed

section \<open>A proxy\<close>

lemma sample_customs: "\<exists>out. compile_customs_loop sample_ext rules = Inr out"
  by (induction rules) (auto simp: sample_ext_def bind_r_def)

lemma sample_policy_new:
  assumes "ec_default_operator cfg = OpToken" and "ec_entity_operators cfg = []"
  obtains p where "policy_new sample_ext cfg = Inr p"
proof -
  obtain out where "compile_customs_loop sample_ext (ec_custom_replacements cfg) = Inr out"
    using sample_customs by blast
  with assms that show ?thesis by (auto simp: policy_new_def compile_customs_def bind_r_def Let_def)
qed

definition ctl_layers :: config_layers where
  "ctl_layers = \<lparr>ly_user = ''/u'', ly_project = Some ''/r/p'', ly_local = Some ''/r/zlauder.local.toml''\<rparr>"

definition ctl_file_config :: file_config where
  "ctl_file_config =
     \<lparr>fc_port = None, fc_bind = ''127.0.0.1'', fc_upstream_base_url = ''https://a'',
      fc_engine = default_config sample_ext, fc_secrets = [], fc_broker_allow = []\<rparr>"

definition ctl_loaded :: loaded_config where
  "ctl_loaded =
     \<lparr>lc_port = None, lc_bind = ''127.0.0.1'', lc_upstream_base_url = ''https://a'',
      lc_engine = (default_config sample_ext)\<lparr>ec_ml := default_ml_config\<lparr>mc_enabled := True\<rparr>\<rparr>,
      lc_secrets = [], lc_broker_allows = [], lc_layers = ctl_layers\<rparr>"

definition no_files :: files where
  "no_files = \<lparr>fl_at = Map.empty, fl_refuses = (\<lambda>p. None), fl_no_parent = (\<lambda>p. False)\<rparr>"

text \<open>A printer that tells only whether there is an allow list, and a parser of its three texts.\<close>

definition doc_rules :: "string \<Rightarrow> toml_doc" where
  "doc_rules p =
     [''engine'' \<mapsto> TTbl Block [''custom_replacements'' \<mapsto>
        TArr Block [custom_replacement_table (custom_rule sample_ext p None True)]]]"

definition doc_allow :: "string \<Rightarrow> toml_doc" where
  "doc_allow v =
     [''engine'' \<mapsto> TTbl Inline [''allow_list'' \<mapsto>
        TTbl Inline [''exact'' \<mapsto> TArr Inline [TStr v], ''exact_ci'' \<mapsto> TArr Inline []]]]"

definition ctl_toml :: toml_wire where
  "ctl_toml =
     \<lparr>tw_parse = (\<lambda>t.
        if t = [] then Some Map.empty
        else if t = ''P'' then Some (doc_rules ''one'')
        else if t = ''M'' then Some (doc_rules ''two'')
        else if t = ''A'' then Some [''engine'' \<mapsto> TTbl Block [''allow_list'' \<mapsto> TArr Inline [TStr ''x'']]]
        else Some (doc_allow ''bob'')),
      tw_print = (\<lambda>d. if Option.bind (d ''engine'') (toml_get ''allow_list'') = None then ''M'' else ''L''),
      tw_auto = Inline, tw_float = (\<lambda>f. ''0.5''), tw_config = (\<lambda>d. Some ctl_file_config)\<rparr>"

definition ctl_wire :: control_wire where
  "ctl_wire =
     \<lparr>cw_toml = ctl_toml, cw_json = (\<lambda>t. None), cw_of_wire = (\<lambda>w. None), cw_to_wire = (\<lambda>j. None),
      cw_resolve_body = (\<lambda>t. None), cw_mask_body = (\<lambda>t. None)\<rparr>"

definition ctl_env :: "string \<Rightarrow> control_env" where
  "ctl_env key = \<lparr>cv_admin_key = key, cv_layers = ctl_layers, cv_project_root = ''/r'', cv_port = 1\<rparr>"

definition with_key :: "string \<Rightarrow> headers" where
  "with_key key = \<lparr>hd_key = Some key, hd_write_id = None\<rparr>"

definition ctl_state :: "files \<Rightarrow> control_state" where
  "ctl_state fs =
     \<lparr>ct_engine = sample_engine, ct_files = fs, ct_poisoned = False, ct_frames = [], ct_loads = [],
      ct_secrets_ready = True, ct_secrets = []\<rparr>"

lemma ctl_start: "\<exists>key st. start sample_ext 0 None ctl_loaded no_files = Inr (key, st)"
proof -
  obtain p where p: "policy_new sample_ext (lc_engine ctl_loaded) = Inr p"
    by (rule sample_policy_new [of "lc_engine ctl_loaded"]) (simp_all add: ctl_loaded_def default_config_def)
  obtain e where e: "build_engine sample_ext 0 None (lc_engine ctl_loaded) = Inr e"
    by (simp add: build_engine_def engine_new_def engine_from_parts_def bind_r_def p)
  let ?e = "start_broker sample_ext [] e"
  have "x_blake3 sample_ext t \<noteq> []" for t by (simp add: sample_ext_def)
  then have "control_token sample_ext ?e \<noteq> []"
    by (metis control_token_def length_0_conv length_to_hex mult_eq_0_iff zero_neq_numeral)
  then obtain e' where "set_secret_rules sample_ext [admin_key_rule (control_token sample_ext ?e)] ?e = (Inr (), e')"
    by (rule_tac sample_set_secret_rules [of "[admin_key_rule (control_token sample_ext ?e)]" ?e])
       (auto simp: admin_key_rule_def secret_operator_ok_def broker_slugs_def)
  moreover have "lc_broker_allows ctl_loaded = []" by (simp add: ctl_loaded_def)
  ultimately show ?thesis by (simp add: start_def e startup_secrets_def Let_def)
qed

theorem ml_follows_config_witness:
  "\<exists>key st0. start sample_ext 0 None ctl_loaded no_files = Inr (key, st0) \<and>
    (let st = control_run sample_ext ctl_wire (ctl_env key)
       [LoadDone 1 (Inl ''gone''), Serve 0 (with_key key) MlDisable, LoadDone 1 (Inl ''late'')] st0
     in mc_enabled (ec_ml (live_config st)) \<longleftrightarrow> rt_status (en_ml (ct_engine st)) \<noteq> MlDisabled)"
proof -
  obtain key st0 where s: "start sample_ext 0 None ctl_loaded no_files = Inr (key, st0)"
    using ctl_start by blast
  show ?thesis
    by (intro exI [of _ key] exI [of _ st0]) (simp only: Let_def s ml_follows_config [OF s refl] simp_thms)
qed

definition no_headers :: headers where
  "no_headers = \<lparr>hd_key = None, hd_write_id = None\<rparr>"

theorem switches_live_owned_witness:
  "\<exists>key st0. start sample_ext 0 None ctl_loaded no_files = Inr (key, st0) \<and>
    ec_enabled (live_config (control_run sample_ext ctl_wire (ctl_env key)
      [EditFiles no_files, Serve 0 (with_key key) Reload, Serve 0 no_headers Disable] st0))"
proof -
  obtain key st0 where s: "start sample_ext 0 None ctl_loaded no_files = Inr (key, st0)"
    using ctl_start by blast
  have "ec_enabled (lc_engine ctl_loaded)" by (simp add: ctl_loaded_def default_config_def)
  with switches_live_owned [OF s refl, where W = ctl_wire and env = "ctl_env key" and
      acts = "[EditFiles no_files, Serve 0 (with_key key) Reload, Serve 0 no_headers Disable]"]
  have "ec_enabled (live_config (control_run sample_ext ctl_wire (ctl_env key)
      [EditFiles no_files, Serve 0 (with_key key) Reload, Serve 0 no_headers Disable] st0))"
    by (simp add: no_headers_def authed_def del: control_run_simps)
  with s show ?thesis by blast
qed

lemma ctl_authed [simp]: "authed (ctl_env ''k'') (with_key ''k'')"
  by (simp add: authed_def ctl_env_def with_key_def)

theorem reload_fails_closed_witness:
  "decide sample_ext (en_broker_policy (ct_engine (snd (serve sample_ext ctl_wire (ctl_env ''k'') 0
     (with_key ''k'') Reload (ctl_state (no_files\<lparr>fl_at := [''/u'' \<mapsto> FileUnreadable]\<rparr>))))))
     ''db'' ''psql'' ''/uri'' ''x'' \<noteq> Resolve"
proof -
  let ?st = "ctl_state (no_files\<lparr>fl_at := [''/u'' \<mapsto> FileUnreadable]\<rparr>)"
  obtain reply st' where s: "serve sample_ext ctl_wire (ctl_env ''k'') 0 (with_key ''k'') Reload ?st = (reply, st')"
    by fastforce
  have "Inl (ReadingFile ''/u'') = reload_broker_allows (cw_toml ctl_wire) (ct_files ?st) (cv_layers (ctl_env ''k''))"
    by (simp add: reload_broker_allows_def read_config_def merged_value_def read_layer_def read_to_string_def
        ctl_state_def ctl_env_def ctl_layers_def)
  with reload_fails_closed [OF ctl_authed _ s, of "''db''" "''psql''" "''/uri''" "''x''"] s
  show ?thesis by (auto simp: ctl_state_def)
qed

end
