(* ===== verification/PersistCorrect.thy ===== *)
theory PersistCorrect
  imports ControlCorrect
begin

text \<open>
  What the control plane writes to the files, and what a later reload reads of it.
\<close>

section \<open>The local layer\<close>

lemma merge_layers_append:
  "merge_layers W fs (xs @ ys) m =
     (case merge_layers W fs xs m of Inl e \<Rightarrow> Inl e | Inr m' \<Rightarrow> merge_layers W fs ys m')"
proof (induction xs arbitrary: m)
  case Nil
  then show ?case by simp
next
  case (Cons x xs)
  then show ?case by (simp split: sum.splits option.splits)
qed

text \<open>The local file is merged last, so what it says outright is what the merged value says.\<close>

lemma merged_local:
  assumes "merged_value W fs layers = Inr merged" and "ly_local layers = Some path"
    and "fl_at fs path = Some (FileText t)" and "tw_parse W t = Some d"
  obtains base where "merged = toml_merge base (TTbl Block d)"
proof -
  have "merge_layers W fs ((ly_user layers # some_of (ly_project layers)) @ [path]) toml_empty = Inr merged"
    using assms(1,2) by (simp add: merged_value_def)
  then have "\<exists>m. merge_layers W fs [path] m = Inr merged"
    unfolding merge_layers_append by (auto split: sum.splits)
  with assms(3,4) that show ?thesis by (auto simp: read_layer_def read_to_string_def)
qed

lemma local_wins:
  assumes "merged_value W fs layers = Inr merged" and "ly_local layers = Some path"
    and "fl_at fs path = Some (FileText t)" and "tw_parse W t = Some d"
    and "toml_at ks (TTbl Block d) = Some v" and "toml_table v = None"
  shows "toml_at ks merged = Some v"
proof -
  obtain base where "merged = toml_merge base (TTbl Block d)" using merged_local [OF assms(1-4)] by blast
  with merge_over_wins [OF assms(5,6)] show ?thesis by simp
qed

section \<open>The allow lists\<close>

lemma compile_patterns_exact:
  "al_compile_patterns X ps al = Inr a \<Longrightarrow> al_exact a = al_exact al \<and> al_exact_ci a = al_exact_ci al"
  by (induction ps arbitrary: al) (auto simp: al_add_pattern_def split: option.splits)

lemma fold_add_exact:
  "al_exact (fold al_add_exact vs al) = al_exact al \<union> set vs \<and>
   al_exact_ci (fold al_add_exact vs al) = al_exact_ci al"
  by (induction vs arbitrary: al) (auto simp: al_add_exact_def)

lemma fold_add_exact_ci:
  "al_exact_ci (fold (al_add_exact_ci X) vs al) = al_exact_ci al \<union> x_to_lowercase X ` set vs \<and>
   al_exact (fold (al_add_exact_ci X) vs al) = al_exact al"
  by (induction vs arbitrary: al) (auto simp: al_add_exact_ci_def)

lemma from_specs_sets:
  assumes "al_from_specs X exact exact_ci patterns = Inr a"
  shows "al_exact a = set exact \<union> set DEFAULT_ALLOW_EXACT"
    and "al_exact_ci a = x_to_lowercase X ` (set exact_ci \<union> set DEFAULT_ALLOW_EXACT_CI)"
  using compile_patterns_exact [OF assms [unfolded al_from_specs_def]]
  by (auto simp: fold_add_exact fold_add_exact_ci al_with_common_words_def al_add_exact_ci_def
      al_add_exact_def al_empty_def DEFAULT_ALLOW_EXACT_def DEFAULT_ALLOW_EXACT_CI_def)

lemma toml_strings_array [simp]: "toml_get key al = Some (str_array vs) \<Longrightarrow> toml_strings key al = sort vs"
  by (simp add: toml_strings_def str_array_def List.map_filter_def comp_def)

lemma doc_put_at: "doc_put W ks v d = Some d' \<Longrightarrow> ks \<noteq> [] \<Longrightarrow> toml_at ks (TTbl Block d') = Some v"
  by (cases ks) (auto simp: doc_put_def bind_eq_Some_conv dest!: toml_at_put split: option.splits)

lemma doc_put_other:
  assumes "doc_put W ks v d = Some d'" and "ks \<noteq> []"
    and "\<not> prefix ks js" "\<not> prefix js ks" "toml_at js (TTbl Block d) \<noteq> None"
  shows "toml_at js (TTbl Block d') = toml_at js (TTbl Block d)"
proof -
  from assms(1,2) have "toml_put (tw_auto W) ks v (Some (TTbl Block d)) = Some (TTbl Block d')"
    by (cases ks) (auto simp: doc_put_def bind_eq_Some_conv split: option.splits)
  from toml_at_put_other [OF this assms(3-5)] show ?thesis .
qed

lemma put_allow_lists_at:
  assumes "put_allow_lists W exact exact_ci d = Some d'"
  shows "toml_at [''engine'', ''allow_list'', ''exact''] (TTbl Block d') = Some (str_array exact)"
    and "toml_at [''engine'', ''allow_list'', ''exact_ci''] (TTbl Block d') = Some (str_array exact_ci)"
proof -
  obtain d1 where d1: "doc_put W [''engine'', ''allow_list'', ''exact''] (str_array exact) d = Some d1"
    and d2: "doc_put W [''engine'', ''allow_list'', ''exact_ci''] (str_array exact_ci) d1 = Some d'"
    using assms by (auto simp: put_allow_lists_def bind_eq_Some_conv)
  from doc_put_at [OF d1] doc_put_other [OF d2, of "[''engine'', ''allow_list'', ''exact'']"]
  show "toml_at [''engine'', ''allow_list'', ''exact''] (TTbl Block d') = Some (str_array exact)"
    by (simp del: toml_at.simps)
  from doc_put_at [OF d2]
  show "toml_at [''engine'', ''allow_list'', ''exact_ci''] (TTbl Block d') = Some (str_array exact_ci)"
    by (simp del: toml_at.simps)
qed

lemma save_doc_persisted:
  "save_doc W path d fs = (Persisted p, fs') \<Longrightarrow>
   p = path \<and> fl_at fs' path = Some (FileText (tw_print W d))"
  by (auto simp: save_doc_def write_doc_def write_file_def split: if_splits option.splits)

text \<open>A document that the reader takes back from its own text.\<close>

definition reads_back :: "toml_wire \<Rightarrow> toml_doc \<Rightarrow> bool" where
  "reads_back W d \<longleftrightarrow> tw_parse W (tw_print W d) = Some d"

lemma reload_engine_Inr:
  assumes "reload_engine X W fs layers = Inr cfg"
  shows "\<exists>merged c al. merged_value W fs layers = Inr merged \<and> decode_config W merged = Inr c \<and>
    build_allow_list X merged = Inr al \<and> cfg = (fc_engine c)\<lparr>ec_allow_list := al\<rparr>"
  using assms by (auto simp: reload_engine_def read_config_def split: sum.splits)

lemma reload_after_persist:
  assumes "persist_local_allow_lists W proj exact exact_ci fs = (Persisted path, fs1)"
    and "\<And>d d'. scope_doc W fs path = Some d \<Longrightarrow> put_allow_lists W exact exact_ci d = Some d' \<Longrightarrow> reads_back W d'"
    and "ly_local layers = Some path" and "fl_at fs2 path = fl_at fs1 path"
    and "reload_engine X W fs2 layers = Inr cfg"
  shows "al_exact (ec_allow_list cfg) = set exact \<union> set DEFAULT_ALLOW_EXACT"
    and "al_exact_ci (ec_allow_list cfg) = x_to_lowercase X ` (set exact_ci \<union> set DEFAULT_ALLOW_EXACT_CI)"
proof -
  obtain d d' where d: "scope_doc W fs path = Some d" "put_allow_lists W exact exact_ci d = Some d'"
    and p: "save_doc W path d' fs = (Persisted path, fs1)"
    using assms(1) by (auto simp: persist_local_allow_lists_def dest: save_doc_persisted split: option.splits)
  from save_doc_persisted [OF p] assms(4) have at: "fl_at fs2 path = Some (FileText (tw_print W d'))" by simp
  obtain merged and c :: file_config and al where m: "merged_value W fs2 layers = Inr merged"
    and al: "build_allow_list X merged = Inr al" "cfg = (fc_engine c)\<lparr>ec_allow_list := al\<rparr>"
    using reload_engine_Inr [OF assms(5)] by blast
  have l: "toml_at ks merged = Some v" if "toml_at ks (TTbl Block d') = Some v" "toml_table v = None" for ks v
    by (rule local_wins [OF m assms(3) at assms(2) [OF d, unfolded reads_back_def] that])
  note l [OF put_allow_lists_at(1) [OF d(2)]] l [OF put_allow_lists_at(2) [OF d(2)]]
  then obtain t where t: "toml_at [''engine'', ''allow_list''] merged = Some t"
    and g: "toml_get ''exact'' t = Some (str_array exact)" "toml_get ''exact_ci'' t = Some (str_array exact_ci)"
    by (auto simp: str_array_def split: option.splits)
  from al(1) t g have "al_from_specs X (sort exact) (sort exact_ci) (toml_strings ''patterns'' t) = Inr al"
    by (auto simp: build_allow_list_def split: sum.splits)
  from from_specs_sets [OF this]
  show "al_exact (ec_allow_list cfg) = set exact \<union> set DEFAULT_ALLOW_EXACT"
    and "al_exact_ci (ec_allow_list cfg) = x_to_lowercase X ` (set exact_ci \<union> set DEFAULT_ALLOW_EXACT_CI)"
    by (simp_all add: al(2))
qed

section \<open>Reveal, remask, reload\<close>

fun persisted_at :: "control_reply \<Rightarrow> string option" where
  "persisted_at (RevealReply w removed (Persisted p)) = Some p"
| "persisted_at (RemaskReply w removed (Persisted p)) = Some p"
| "persisted_at _ = None"

lemma install_files [simp]:
  "ct_files (snd (install_config X cfg st)) = ct_files st"
  by (cases rule: install_config_cases [of X cfg st]) simp_all

lemma install_allow:
  "install_config X cfg st = (Inr u, st') \<Longrightarrow> ec_allow_list (live_config st') = ec_allow_list cfg"
  by (cases rule: install_config_cases [of X cfg st]) (auto simp: sealed_config_def)

lemma persist_allow_out:
  assumes "persist_allow_lists W env st = (Persisted p, st')"
  shows "persist_local_allow_lists (cw_toml W) (cv_project_root env)
      (non_default_exact (ec_allow_list (live_config st)))
      (non_default_exact_ci (ec_allow_list (live_config st))) (ct_files st) = (Persisted p, ct_files st')"
    and "ct_engine st' = ct_engine st"
  using assms by (auto simp: persist_allow_lists_def Let_def split: prod.splits)

lemma persisted_at_iff [simp]:
  "persisted_at (RevealReply w removed out) = Some p \<longleftrightarrow> out = Persisted p"
  "persisted_at (RemaskReply w removed out) = Some p \<longleftrightarrow> out = Persisted p"
  by (cases out; simp)+

text \<open>The files as an edit of the allow lists finds them.\<close>

definition edit_base :: "control_wire \<Rightarrow> control_env \<Rightarrow> control_state \<Rightarrow> files \<Rightarrow> bool" where
  "edit_base W env st fs \<longleftrightarrow>
     fs = ct_files st \<or>
     (\<exists>p ent. fs = snd (remove_custom_replacement (cw_toml W) (cv_project_root env) p ent (ct_files st)))"

lemma install_Inr:
  assumes "install_config X cfg st = (Inr u, st')"
  shows "ec_allow_list (live_config st') = ec_allow_list cfg" and "ct_files st' = ct_files st"
  using install_allow [OF assms] install_files [of X cfg st] assms by simp_all

lemma reveal_persists:
  assumes "reveal_handler X W env hdrs v pat ent st = (reply, st1)" and "persisted_at reply = Some path"
  obtains st' st2 where "edit_base W env st (ct_files st')"
    and "ec_allow_list (live_config st') = al_add_exact v (ec_allow_list (live_config st))"
    and "persist_allow_lists W env st' = (Persisted path, st2)" and "st1 = push_policy env hdrs st2"
proof -
  define pre where "pre st' = (case backing_pattern X pat of
      None \<Rightarrow> st'
    | Some p \<Rightarrow>
        if \<exists>c\<in>set (ec_custom_replacements (live_config st)). rule_is p (entity_or_default X ent) c
        then st'\<lparr>ct_files := snd (remove_custom_replacement (cw_toml W) (cv_project_root env) p
               (entity_or_default X ent) (ct_files st'))\<rparr>
        else st')" for st' :: control_state
  let ?cfg = "(live_config st)\<lparr>ec_custom_replacements :=
      (case backing_pattern X pat of None \<Rightarrow> ec_custom_replacements (live_config st)
       | Some p \<Rightarrow> remove_first (rule_is p (entity_or_default X ent)) (ec_custom_replacements (live_config st))),
      ec_allow_list := al_add_exact v (ec_allow_list (live_config st))\<rparr>"
  obtain r st' where i: "install_config X ?cfg st = (r, st')" by fastforce
  obtain u where u: "r = Inr u" using assms i by (cases r) (auto simp: reveal_handler_def Let_def)
  note st' = install_Inr [OF i [unfolded u]]
  obtain out st2 where o: "persist_allow_lists W env (pre st') = (out, st2)" by fastforce
  have "out = Persisted path" "st1 = push_policy env hdrs st2"
    using assms i u o
    by (cases "backing_pattern X pat"; auto simp: reveal_handler_def Let_def pre_def split: if_splits)+
  moreover have "edit_base W env st (ct_files (pre st'))"
    unfolding pre_def edit_base_def using st'(2) by (cases "backing_pattern X pat") auto
  moreover have "ct_engine (pre st') = ct_engine st'"
    by (cases "backing_pattern X pat") (simp_all add: pre_def)
  ultimately show ?thesis using that [of "pre st'" st2] o st'(1) by simp
qed

text \<open>
  The contract of the editor: the document an edit of the allow lists writes is read back as it was.
\<close>

definition edit_reads_back ::
  "control_wire \<Rightarrow> control_env \<Rightarrow> control_state \<Rightarrow> allow_list \<Rightarrow> string \<Rightarrow> bool" where
  "edit_reads_back W env st al path \<longleftrightarrow>
     (\<forall>fs d d'. edit_base W env st fs \<longrightarrow> scope_doc (cw_toml W) fs path = Some d \<longrightarrow>
       put_allow_lists (cw_toml W) (non_default_exact al) (non_default_exact_ci al) d = Some d' \<longrightarrow>
       reads_back (cw_toml W) d')"

lemma remask_persists:
  assumes "remask_handler X W env hdrs v st = (reply, st1)" and "persisted_at reply = Some path"
  obtains st' st2 where "ct_files st' = ct_files st"
    and "al_exact (ec_allow_list (live_config st')) = al_exact (ec_allow_list (live_config st)) - {v}"
    and "al_exact_ci (ec_allow_list (live_config st')) =
      al_exact_ci (ec_allow_list (live_config st)) - {x_to_lowercase X v}"
    and "persist_allow_lists W env st' = (Persisted path, st2)"
    and "ct_engine st1 = ct_engine st2" and "ct_files st1 = ct_files st2"
proof -
  define al where "al = ec_allow_list (live_config st)"
  define gone where "gone \<longleftrightarrow> v \<in> al_exact al \<or> x_to_lowercase X v \<in> al_exact_ci al"
  let ?cfg = "(live_config st)\<lparr>ec_allow_list :=
      al\<lparr>al_exact := al_exact al - {v}, al_exact_ci := al_exact_ci al - {x_to_lowercase X v}\<rparr>\<rparr>"
  obtain r st' where i: "(if gone then install_config X ?cfg st else (Inr (), st)) = (r, st')" by fastforce
  note h = assms(1) [unfolded remask_handler_def Let_def, folded al_def, folded gone_def, unfolded i]
  obtain u where u: "r = Inr u" using h assms(2) by (cases r) auto
  obtain out st2 where o: "persist_allow_lists W env st' = (out, st2)" by fastforce
  have s: "out = Persisted path" "ct_engine st1 = ct_engine st2" "ct_files st1 = ct_files st2"
    using h assms(2) u o by (auto split: if_splits)
  have e: "ct_files st' = ct_files st \<and> al_exact (ec_allow_list (live_config st')) = al_exact al - {v} \<and>
      al_exact_ci (ec_allow_list (live_config st')) = al_exact_ci al - {x_to_lowercase X v}"
  proof (cases gone)
    case True
    with install_Inr [of X ?cfg st u st'] i u show ?thesis by simp
  next
    case False
    with i u show ?thesis by (auto simp: al_def gone_def)
  qed
  show ?thesis by (rule that [of st' st2]) (use e o s in \<open>simp_all add: al_def\<close>)
qed

lemma allow_edit_request:
  assumes "req = RevealKeyphrase v pat ent \<or> req = RemaskKeyphrase v"
    and "serve X W env now hdrs req st = (reply, st1)" and "persisted_at reply = Some path"
  obtains st' :: control_state where "edit_base W env st (ct_files st')"
    and "persist_local_allow_lists (cw_toml W) (cv_project_root env)
      (non_default_exact (ec_allow_list (live_config st1)))
      (non_default_exact_ci (ec_allow_list (live_config st1))) (ct_files st') = (Persisted path, ct_files st1)"
    and "req = RevealKeyphrase v pat ent \<longrightarrow>
      ec_allow_list (live_config st1) = al_add_exact (str_trim X v) (ec_allow_list (live_config st))"
    and "req = RemaskKeyphrase v \<longrightarrow>
      al_exact (ec_allow_list (live_config st1)) = al_exact (ec_allow_list (live_config st)) - {str_trim X v} \<and>
      al_exact_ci (ec_allow_list (live_config st1)) =
        al_exact_ci (ec_allow_list (live_config st)) - {x_to_lowercase X (str_trim X v)}"
proof -
  consider (Reveal) "req = RevealKeyphrase v pat ent"
      "reveal_handler X W env hdrs (str_trim X v) pat ent st = (reply, st1)"
    | (Remask) "req = RemaskKeyphrase v" "remask_handler X W env hdrs (str_trim X v) st = (reply, st1)"
    using assms by (auto simp: locked_def Let_def split: if_splits)
  then show ?thesis
  proof cases
    case Reveal
    obtain st' st2 where f: "edit_base W env st (ct_files st')"
      "ec_allow_list (live_config st') = al_add_exact (str_trim X v) (ec_allow_list (live_config st))"
      "persist_allow_lists W env st' = (Persisted path, st2)" "st1 = push_policy env hdrs st2"
      using reveal_persists [OF Reveal(2) assms(3)] by blast
    with persist_allow_out [OF f(3)] Reveal(1) show ?thesis by (intro that [of st']) simp_all
  next
    case Remask
    obtain st' st2 where f: "ct_files st' = ct_files st"
      "al_exact (ec_allow_list (live_config st')) = al_exact (ec_allow_list (live_config st)) - {str_trim X v}"
      "al_exact_ci (ec_allow_list (live_config st')) =
        al_exact_ci (ec_allow_list (live_config st)) - {x_to_lowercase X (str_trim X v)}"
      "persist_allow_lists W env st' = (Persisted path, st2)"
      "ct_engine st1 = ct_engine st2" "ct_files st1 = ct_files st2"
      using remask_persists [OF Remask(2) assms(3)] by metis
    with persist_allow_out [OF f(4)] Remask(1) show ?thesis
      by (intro that [of st']) (simp_all add: edit_base_def)
  qed
qed

lemma non_default_sets:
  assumes "finite (al_exact al)" and "finite (al_exact_ci al)"
  shows "set (non_default_exact al) = al_exact al - set DEFAULT_ALLOW_EXACT"
    and "set (non_default_exact_ci al) = al_exact_ci al - set DEFAULT_ALLOW_EXACT_CI"
  using assms by (auto simp: non_default_exact_def non_default_exact_ci_def)

text \<open>
  C13: a persisted reveal or remask is what later reloads read.  When the file the monitor edits is
  the local layer, no one edits that file in between, and the document written reads back, a reload
  that succeeds, whatever happened to the other layers and to the live state, restores the allow
  list of the reply, with the built-in words added back: a revealed value passes again, and a
  remasked one is masked again unless it is a built-in word, which no remask can outlast.
\<close>

theorem allow_edits_survive_reload:
  assumes "req = RevealKeyphrase v pat ent \<or> req = RemaskKeyphrase v"
    and "serve X W env now hdrs req st = (reply, st1)" and "persisted_at reply = Some path"
    and "ly_local (cv_layers env) = Some path"
    and "finite (al_exact (ec_allow_list (live_config st)))"
    and "finite (al_exact_ci (ec_allow_list (live_config st)))"
    and "edit_reads_back W env st (ec_allow_list (live_config st1)) path"
    and "fl_at (ct_files st2) path = fl_at (ct_files st1) path"
    and "serve X W env now2 hdrs2 Reload st2 = (PolicyReply view, st3)"
  shows "al_exact (ec_allow_list (live_config st3)) =
      al_exact (ec_allow_list (live_config st1)) \<union> set DEFAULT_ALLOW_EXACT \<and>
    al_exact_ci (ec_allow_list (live_config st3)) =
      x_to_lowercase X ` (al_exact_ci (ec_allow_list (live_config st1)) \<union> set DEFAULT_ALLOW_EXACT_CI) \<and>
    (req = RevealKeyphrase v pat ent \<longrightarrow> is_allowed X (ec_allow_list (live_config st3)) (str_trim X v)) \<and>
    (req = RemaskKeyphrase v \<longrightarrow>
      (str_trim X v \<in> al_exact (ec_allow_list (live_config st3)) \<longleftrightarrow> str_trim X v \<in> set DEFAULT_ALLOW_EXACT))"
proof -
  let ?al = "ec_allow_list (live_config st1)"
  obtain st' :: control_state where e: "edit_base W env st (ct_files st')"
    and p: "persist_local_allow_lists (cw_toml W) (cv_project_root env) (non_default_exact ?al)
      (non_default_exact_ci ?al) (ct_files st') = (Persisted path, ct_files st1)"
    and reveal: "req = RevealKeyphrase v pat ent \<longrightarrow> ?al = al_add_exact (str_trim X v) (ec_allow_list (live_config st))"
    and remask: "req = RemaskKeyphrase v \<longrightarrow>
      al_exact ?al = al_exact (ec_allow_list (live_config st)) - {str_trim X v} \<and>
      al_exact_ci ?al = al_exact_ci (ec_allow_list (live_config st)) - {x_to_lowercase X (str_trim X v)}"
    by (rule allow_edit_request [OF assms(1-3)]) (rule that)
  have "finite (al_exact ?al) \<and> finite (al_exact_ci ?al)"
    using assms(1)
  proof
    assume "req = RevealKeyphrase v pat ent"
    with reveal assms(5,6) show ?thesis by (simp add: al_add_exact_def)
  next
    assume "req = RemaskKeyphrase v"
    with remask assms(5,6) show ?thesis by simp
  qed
  then have fin: "finite (al_exact ?al)" "finite (al_exact_ci ?al)" by blast+
  have "reload_handler X W env hdrs2 st2 = (PolicyReply view, st3)"
    using assms(9) by (auto simp: locked_def split: if_splits)
  then obtain cfg where r: "reload_engine X (cw_toml W) (ct_files st2) (cv_layers env) = Inr cfg"
    and live: "ec_allow_list (live_config st3) = ec_allow_list cfg"
    by (rule reload_installs) (simp add: sealed_config_def)
  from e assms(7) have rb: "reads_back (cw_toml W) d'"
    if "scope_doc (cw_toml W) (ct_files st') path = Some d"
      "put_allow_lists (cw_toml W) (non_default_exact ?al) (non_default_exact_ci ?al) d = Some d'" for d d'
    using that unfolding edit_reads_back_def by blast
  note sets = reload_after_persist [OF p rb assms(4,8) r] non_default_sets [OF fin]
  have ex: "al_exact (ec_allow_list (live_config st3)) = al_exact ?al \<union> set DEFAULT_ALLOW_EXACT"
    using sets(1,3) by (auto simp: live)
  moreover have "al_exact_ci (ec_allow_list (live_config st3)) =
      x_to_lowercase X ` (al_exact_ci ?al \<union> set DEFAULT_ALLOW_EXACT_CI)"
    using sets(2,4) by (auto simp: live)
  moreover have "is_allowed X (ec_allow_list (live_config st3)) (str_trim X v)"
    if "req = RevealKeyphrase v pat ent"
    using ex reveal that by (simp add: is_allowed_def al_add_exact_def)
  moreover have "str_trim X v \<in> al_exact (ec_allow_list (live_config st3)) \<longleftrightarrow>
      str_trim X v \<in> set DEFAULT_ALLOW_EXACT" if "req = RemaskKeyphrase v"
    using ex remask that by simp
  ultimately show ?thesis by blast
qed

section \<open>A panic under the lock\<close>

lemma poisoned_serve:
  assumes "ct_poisoned st"
  shows "ct_poisoned (snd (serve X W env now hdrs req st)) \<and>
    en_policy (ct_engine (snd (serve X W env now hdrs req st))) = en_policy (ct_engine st) \<and>
    en_broker_policy (ct_engine (snd (serve X W env now hdrs req st))) = en_broker_policy (ct_engine st)"
proof -
  have "engine_core (ct_engine (snd (diag_mask_handler X t st))) = engine_core (ct_engine st) \<and>
      ct_poisoned (snd (diag_mask_handler X t st))" for t
    using mask_core [of X t UserMessage "ct_engine st"] assms
    by (auto simp: diag_mask_handler_def split: prod.splits sum.splits)
  then show ?thesis
    using assms
    by (cases req)
       (simp_all add: locked_def Let_def engine_core_def split: option.splits json.splits)
qed

lemma mask_broker_policy: "en_broker_policy (snd (mask X t surface e)) = en_broker_policy e"
  using mask_core [of X t surface e] by (simp add: engine_core_def)

lemma poisoned_step:
  assumes "ct_poisoned st"
  shows "ct_poisoned (control_step X W env a st) \<and>
   en_policy (ct_engine (control_step X W env a st)) = en_policy (ct_engine st) \<and>
   en_broker_policy (ct_engine (control_step X W env a st)) = en_broker_policy (ct_engine st)"
  using assms poisoned_serve [OF assms, of X W env]
  by (cases a) (simp_all add: load_done_def set_ml_def mask_policy mask_broker_policy step_unfold)

lemma poisoned_run:
  assumes "ct_poisoned st"
  shows "ct_poisoned (control_run X W env acts st) \<and>
    en_policy (ct_engine (control_run X W env acts st)) = en_policy (ct_engine st) \<and>
    en_broker_policy (ct_engine (control_run X W env acts st)) = en_broker_policy (ct_engine st)"
  by (rule run_preserves [of "\<lambda>s. ct_poisoned s \<and> en_policy (ct_engine s) = en_policy (ct_engine st) \<and>
      en_broker_policy (ct_engine s) = en_broker_policy (ct_engine st)"])
     (simp_all add: assms poisoned_step)

text \<open>The writers that take the lock whatever their arguments.\<close>

definition plain_writers :: "control_request set" where
  "plain_writers = {MlEnable, MlDisable, Enable, Disable, Reload}"

text \<open>
  A panic while a reveal is persisted cannot be taken back.  The value is live at once, on no
  frame and in no reply; the lock is poisoned, and from then on no request, remask and reload
  included, changes the policy or the broker policy again: every authenticated switch or reload
  panics in its turn, and the value passes unmasked as long as the proxy runs.
\<close>

lemma panicking_reveal_is_final:
  assumes "serve X W env now hdrs (RevealKeyphrase v pat ent) st = (Panicked, st1)" and "\<not> ct_poisoned st"
    and "st' = control_run X W env acts st1"
  shows "is_allowed X (ec_allow_list (live_config st')) (str_trim X v) \<and>
    ct_frames st1 = ct_frames st \<and> en_policy (ct_engine st') = en_policy (ct_engine st1) \<and>
    (\<forall>now hdrs req. authed env hdrs \<longrightarrow> req \<in> plain_writers \<longrightarrow>
      serve X W env now hdrs req st' = (Panicked, st'))"
proof -
  have h: "reveal_handler X W env hdrs (str_trim X v) pat ent st = (Panicked, st1)"
    using assms(1,2) by (auto simp: locked_def Let_def split: if_splits)
  let ?cfg = "(live_config st)\<lparr>ec_custom_replacements :=
      (case backing_pattern X pat of None \<Rightarrow> ec_custom_replacements (live_config st)
       | Some p \<Rightarrow> remove_first (rule_is p (entity_or_default X ent)) (ec_custom_replacements (live_config st))),
      ec_allow_list := al_add_exact (str_trim X v) (ec_allow_list (live_config st))\<rparr>"
  obtain r s where i: "install_config X ?cfg st = (r, s)" by fastforce
  have r: "\<exists>u. r = Inr u" using h i by (cases r) (auto simp: reveal_handler_def Let_def)
  then obtain u where u: "r = Inr u" ..
  have fr: "ct_frames s = ct_frames st"
    using i by (cases rule: install_config_cases [of X ?cfg st]) auto
  have st1: "ct_engine st1 = ct_engine s \<and> ct_poisoned st1 \<and> ct_frames st1 = ct_frames s"
    using h i u
    by (cases "backing_pattern X pat")
       (auto simp: reveal_handler_def persist_allow_lists_def Let_def split: if_splits prod.splits)
  with install_Inr(1) [OF i [unfolded u]]
  have "is_allowed X (ec_allow_list (live_config st1)) (str_trim X v)"
    by (simp add: is_allowed_def al_add_exact_def)
  moreover note poisoned_run [of st1 X W env acts, folded assms(3)]
  moreover have "serve X W env now hdrs req st' = (Panicked, st')"
    if "authed env hdrs" "req \<in> plain_writers" "ct_poisoned st'" for now hdrs req
    using that by (auto simp: locked_def plain_writers_def)
  ultimately show ?thesis using st1 fr by auto
qed

section \<open>Which files are read and which are written\<close>

definition layer_paths :: "config_layers \<Rightarrow> string list" where
  "layer_paths layers = ly_user layers # some_of (ly_project layers) @ some_of (ly_local layers)"

lemma read_layer_cong: "fl_at fs p = fl_at fs' p \<Longrightarrow> read_layer W fs p = read_layer W fs' p"
  by (simp add: read_layer_def read_to_string_def)

lemma merge_layers_cong:
  "(\<And>p. p \<in> set ps \<Longrightarrow> fl_at fs p = fl_at fs' p) \<Longrightarrow> merge_layers W fs ps m = merge_layers W fs' ps m"
proof (induction ps arbitrary: m)
  case Nil
  then show ?case by simp
next
  case (Cons p ps)
  have "read_layer W fs p = read_layer W fs' p" by (rule read_layer_cong) (simp add: Cons.prems)
  moreover have "merge_layers W fs ps m = merge_layers W fs' ps m" for m
    by (rule Cons.IH) (simp add: Cons.prems)
  ultimately show ?case by (simp split: sum.split option.split)
qed

lemma reload_engine_cong:
  assumes "\<And>p. p \<in> set (layer_paths layers) \<Longrightarrow> fl_at fs p = fl_at fs' p"
  shows "reload_engine X W fs layers = reload_engine X W fs' layers"
  using merge_layers_cong [of "layer_paths layers" fs fs'] assms
  by (simp add: reload_engine_def read_config_def merged_value_def layer_paths_def)

lemma write_file_other: "q \<noteq> path \<Longrightarrow> fl_at (snd (write_file path t fs)) q = fl_at fs q"
  by (simp add: write_file_def split: option.splits)

lemma write_doc_other: "q \<noteq> path \<Longrightarrow> fl_at (snd (write_doc W path d fs)) q = fl_at fs q"
  using write_file_other [of q path "tw_print W d" fs] by (auto simp: write_doc_def split: prod.splits bool.splits)

lemma save_doc_other: "q \<noteq> path \<Longrightarrow> fl_at (snd (save_doc W path d fs)) q = fl_at fs q"
  by (simp add: save_doc_def write_doc_other)

lemma monitor_edits_other:
  assumes "local_scope_path proj \<noteq> Some q"
  shows "fl_at (snd (persist_custom_replacement W proj rule fs)) q = fl_at fs q"
    and "fl_at (snd (persist_local_allow_lists W proj exact exact_ci fs)) q = fl_at fs q"
    and "fl_at (snd (remove_custom_replacement W proj p ent fs)) q = fl_at fs q"
proof -
  show "fl_at (snd (persist_custom_replacement W proj rule fs)) q = fl_at fs q"
    using assms by (auto simp: persist_custom_replacement_def save_doc_other split: option.splits sum.splits)
  show "fl_at (snd (persist_local_allow_lists W proj exact exact_ci fs)) q = fl_at fs q"
    using assms by (auto simp: persist_local_allow_lists_def save_doc_other split: option.splits)
  have w: "fl_at (snd (case write_file path t fs of (True, fs') \<Rightarrow> (Inr True, fs') | (False, fs') \<Rightarrow> (Inl e, fs'))) q
      = fl_at fs q" if "path \<noteq> q" for path t and e :: persist_error
    using write_file_other [OF that [symmetric], of t fs] by (auto split: prod.splits bool.splits)
  show "fl_at (snd (remove_custom_replacement W proj p ent fs)) q = fl_at fs q"
    using assms w
    by (auto simp: remove_custom_replacement_def split: option.splits toml.splits toml_form.splits)
qed

lemma allow_lists_other:
  "local_scope_path (cv_project_root env) \<noteq> Some q \<Longrightarrow>
   fl_at (ct_files (snd (persist_allow_lists W env st))) q = fl_at (ct_files st) q"
  by (simp add: persist_allow_lists_def step_unfold monitor_edits_other)

text \<open>
  The monitor writes a file that a reload need not read.  No request but a profile change
  touches any file except \<open>zlauder.local.toml\<close> of the project root; when that file is not one of the
  layers, as in a proxy started without a project file, a reload after any such request, one that
  reports its edit persisted included, reads exactly the configuration it would have read before.
\<close>

lemma monitor_edits_outside_layers:
  assumes "\<forall>name q. req \<noteq> ApplyProfile name q"
    and "\<forall>p\<in>set (layer_paths layers). local_scope_path (cv_project_root env) \<noteq> Some p"
    and "serve X W env now hdrs req st = (reply, st1)"
  shows "reload_engine X T (ct_files st1) layers = reload_engine X T (ct_files st) layers \<and>
    (\<forall>q. local_scope_path (cv_project_root env) \<noteq> Some q \<longrightarrow> fl_at (ct_files st1) q = fl_at (ct_files st) q)"
proof -
  have other: "fl_at (ct_files st1) q = fl_at (ct_files st) q"
    if q: "local_scope_path (cv_project_root env) \<noteq> Some q" for q
  proof -
    note edits = monitor_edits_other [OF q] allow_lists_other [OF q]
    have "fl_at (ct_files (snd (serve X W env now hdrs req st))) q = fl_at (ct_files st) q"
      by (rule serve_preserves [of "\<lambda>s. fl_at (ct_files s) q = fl_at (ct_files st) q"])
         (use assms(1) in \<open>simp_all add: put_config_def ml_enable_handler_def ml_disable_handler_def
           set_enabled_handler_def reload_handler_def diag_mask_handler_def custom_mask_handler_def
           custom_masks_remove_handler_def reveal_handler_def remask_handler_def step_unfold edits
           split: sum.splits option.splits\<close>)
    then show ?thesis by (simp add: assms(3))
  qed
  from assms(2) other have "reload_engine X T (ct_files st1) layers = reload_engine X T (ct_files st) layers"
    by (intro reload_engine_cong) blast
  with other show ?thesis by blast
qed

section \<open>Custom masks and the layers\<close>

text \<open>The rules in the document's own array.\<close>

definition own_rules :: "toml_doc \<Rightarrow> toml list" where
  "own_rules d =
     (case toml_at [''engine'', ''custom_replacements''] (TTbl Block d) of
        Some (TArr f rules) \<Rightarrow> rules
      | _ \<Rightarrow> [])"

lemma append_custom_at:
  "append_custom rule d = Inr d' \<Longrightarrow>
   toml_at [''engine'', ''custom_replacements''] (TTbl Block d') =
     Some (TArr Block (own_rules d @ [custom_replacement_table rule]))"
  by (auto simp: append_custom_def own_rules_def
      split: if_splits option.splits toml.splits toml_form.splits)

lemma persist_custom_out:
  assumes "persist_custom_replacement W proj rule fs = (Persisted path, fs')"
  shows "\<exists>d d'. scope_doc W fs path = Some d \<and> append_custom rule d = Inr d' \<and>
    save_doc W path d' fs = (Persisted path, fs')"
proof -
  obtain q d d' where q: "scope_doc W fs q = Some d" "append_custom rule d = Inr d'"
    "save_doc W q d' fs = (Persisted path, fs')"
    using assms by (auto simp: persist_custom_replacement_def split: option.splits sum.splits)
  with save_doc_persisted [OF q(3)] show ?thesis by auto
qed

text \<open>
  A persisted custom mask replaces the rules of the layers below.  Live, the rule is added to all
  the rules there are; in the local file it makes an array of that file's own rules and itself, and
  since arrays are merged wholesale, after the next reload that array is all there is: a rule of the
  user's or the project's file, masking until then, is gone.
\<close>

lemma custom_mask_drops_lower_layers:
  assumes "serve X W env now hdrs (CustomMask pattern ent cs) st = (CustomReply wc (Persisted path), st1)"
    and "ly_local layers = Some path" and "scope_doc (cw_toml W) (ct_files st) path = Some d"
    and "\<forall>d'. append_custom (custom_rule X (str_trim X pattern) ent cs) d = Inr d' \<longrightarrow> reads_back (cw_toml W) d'"
    and "fl_at fs path = fl_at (ct_files st1) path"
    and "merged_value (cw_toml W) fs layers = Inr merged"
  shows "ec_custom_replacements (live_config st1) =
      ec_custom_replacements (live_config st) @ [custom_rule X (str_trim X pattern) ent cs] \<and>
    toml_at [''engine'', ''custom_replacements''] merged =
      Some (TArr Block (own_rules d @ [custom_replacement_table (custom_rule X (str_trim X pattern) ent cs)]))"
proof -
  define rule where "rule = custom_rule X (str_trim X pattern) ent cs"
  have h: "custom_mask_handler X W env hdrs rule st = (CustomReply wc (Persisted path), st1)"
    using assms(1) by (auto simp: locked_def Let_def rule_def split: if_splits)
  let ?cfg = "(live_config st)\<lparr>ec_custom_replacements := ec_custom_replacements (live_config st) @ [rule]\<rparr>"
  obtain p where i: "install_config X ?cfg st = (Inr (), st\<lparr>ct_engine := (ct_engine st)\<lparr>en_policy := p,
      en_cache := cache_set_cap (ec_detection_cache_cap ?cfg) (en_cache (ct_engine st))\<rparr>\<rparr>)"
    and cfg: "po_config p = sealed_config ?cfg"
    using h by (cases rule: install_config_cases [of X ?cfg st]) (auto simp: custom_mask_handler_def)
  have p: "persist_custom_replacement (cw_toml W) (cv_project_root env) rule (ct_files st) =
      (Persisted path, ct_files st1)"
    and live: "live_config st1 = sealed_config ?cfg"
    using h by (auto simp: custom_mask_handler_def i cfg Let_def split: prod.splits)
  obtain d' where d': "append_custom rule d = Inr d'" and s: "save_doc (cw_toml W) path d' (ct_files st) = (Persisted path, ct_files st1)"
    using persist_custom_out [OF p] assms(3) by auto
  have rb: "tw_parse (cw_toml W) (tw_print (cw_toml W) d') = Some d'"
    using assms(4) d' by (simp add: rule_def reads_back_def)
  have at: "fl_at fs path = Some (FileText (tw_print (cw_toml W) d'))"
    using save_doc_persisted [OF s] assms(5) by simp
  from local_wins [OF assms(6,2) at rb append_custom_at [OF d']] live show ?thesis
    by (simp add: rule_def sealed_config_def)
qed

text \<open>
  A first reveal into a file without an engine table leaves an inline table there when indexing
  creates inline tables, and then no custom mask can be persisted.
\<close>

lemma inline_engine_refuses:
  assumes "put_allow_lists W exact exact_ci d = Some d'" and "tw_auto W = Inline" and "d ''engine'' = None"
  shows "append_custom rule d' = Inl EngineNotTable"
  using assms by (auto simp: put_allow_lists_def doc_put_def append_custom_def)

section \<open>Runs on files\<close>

abbreviation ctl_serve ::
  "control_request \<Rightarrow> control_state \<Rightarrow> control_reply \<times> control_state" where
  "ctl_serve \<equiv> serve sample_ext ctl_wire (ctl_env ''k'') 0 (with_key ''k'')"

abbreviation ctl_local :: string where
  "ctl_local \<equiv> ''/r/zlauder.local.toml''"

lemma ctl_simps [simp]:
  "cw_toml ctl_wire = ctl_toml" "cv_project_root (ctl_env k) = ''/r''" "cv_layers (ctl_env k) = ctl_layers"
  "local_scope_path ''/r'' = Some ctl_local" "ct_files (ctl_state fs) = fs" "\<not> ct_poisoned (ctl_state fs)"
  "ec_allow_list (live_config (ctl_state fs)) = al_with_common_words sample_ext"
  "ec_custom_replacements (live_config (ctl_state fs)) = []"
  "ly_local ctl_layers = Some ctl_local" "tw_auto ctl_toml = Inline" "tw_parse ctl_toml [] = Some Map.empty"
  by (simp_all add: ctl_wire_def ctl_env_def local_scope_path_def path_join_def ctl_state_def sample_engine_def
      sample_config_def default_config_def ctl_layers_def ctl_toml_def)

lemma no_files_sel [simp]:
  "fl_at no_files = Map.empty" "fl_refuses no_files p = None" "fl_no_parent no_files p = False"
  by (simp_all add: no_files_def)

lemma ctl_trim [simp]: "str_trim sample_ext ''bob'' = ''bob''" "str_trim sample_ext ''two'' = ''two''"
  by code_simp+

lemma sample_install:
  assumes "ec_default_operator cfg = OpToken" and "ec_entity_operators cfg = []"
  obtains st' where "install_config sample_ext cfg st = (Inr (), st')" and "live_config st' = sealed_config cfg"
    and "ct_files st' = ct_files st" and "ct_poisoned st' = ct_poisoned st"
proof (cases rule: install_config_cases [of sample_ext cfg st])
  case (Rejected err)
  obtain p where "policy_new sample_ext cfg = Inr p" using sample_policy_new [OF assms] by blast
  with Rejected show ?thesis by (simp add: install_config_def set_config_def)
next
  case (Installed p)
  with that show ?thesis by simp
qed

lemma ctl_operators:
  "ec_default_operator (live_config (ctl_state fs)) = OpToken"
  "ec_entity_operators (live_config (ctl_state fs)) = []"
  by (simp_all add: ctl_state_def sample_engine_def sample_config_def default_config_def)

lemma distinct_single: "distinct xs \<Longrightarrow> set xs = {x} \<Longrightarrow> xs = [x]"
  by (cases xs; cases "tl xs") (auto simp: insert_eq_iff split: if_splits)

lemma lower_localhost: "x_to_lowercase sample_ext ''localhost'' = ''localhost''"
proof -
  have "map ascii_lower ''localhost'' = ''localhost''" by code_simp
  then show ?thesis by (simp add: sample_ext_def)
qed

lemma ctl_words:
  "al_exact (al_with_common_words sample_ext) = set DEFAULT_ALLOW_EXACT"
  "al_exact_ci (al_with_common_words sample_ext) = set DEFAULT_ALLOW_EXACT_CI"
  by (simp_all add: al_with_common_words_def al_add_exact_ci_def al_add_exact_def al_empty_def
      DEFAULT_ALLOW_EXACT_def DEFAULT_ALLOW_EXACT_CI_def lower_localhost insert_commute)

lemma ctl_non_default:
  "non_default_exact (al_add_exact ''bob'' (al_with_common_words sample_ext)) = [''bob'']"
  "non_default_exact_ci (al_add_exact ''bob'' (al_with_common_words sample_ext)) = []"
proof -
  let ?al = "al_add_exact ''bob'' (al_with_common_words sample_ext)"
  have al: "al_exact ?al = insert ''bob'' (set DEFAULT_ALLOW_EXACT)" "al_exact_ci ?al = set DEFAULT_ALLOW_EXACT_CI"
    by (simp_all add: al_add_exact_def ctl_words)
  have "finite (al_exact ?al)" "finite (al_exact_ci ?al)" by (simp_all add: al)
  note sets = non_default_sets [OF this]
  have "''bob'' \<notin> set DEFAULT_ALLOW_EXACT" by (simp add: DEFAULT_ALLOW_EXACT_def)
  with sets(1) have "set (non_default_exact ?al) = {''bob''}" by (simp only: al) blast
  moreover have "distinct (non_default_exact ?al)" by (simp add: non_default_exact_def)
  ultimately show "non_default_exact ?al = [''bob'']" by (rule distinct_single [rotated])
  from sets(2) show "non_default_exact_ci ?al = []" by (simp only: al) simp
qed

lemma ctl_put: "put_allow_lists ctl_toml [''bob''] [] Map.empty = Some (doc_allow ''bob'')"
  by (simp add: put_allow_lists_def doc_put_def str_array_def doc_allow_def fun_eq_iff)

lemma ctl_reload:
  assumes "\<not> ct_poisoned st" and "reload_engine sample_ext ctl_toml (ct_files st) ctl_layers = Inr cfg"
    and "ec_default_operator cfg = OpToken" and "ec_entity_operators cfg = []"
  obtains v st' where "ctl_serve Reload st = (PolicyReply v, st')"
proof -
  obtain st' where "install_config sample_ext (cfg\<lparr>ec_enabled := ec_enabled (live_config st),
      ec_ml := (ec_ml cfg)\<lparr>mc_enabled := ml_on st\<rparr>\<rparr>) st = (Inr (), st')"
    by (rule sample_install [of "cfg\<lparr>ec_enabled := ec_enabled (live_config st),
      ec_ml := (ec_ml cfg)\<lparr>mc_enabled := ml_on st\<rparr>\<rparr>" st]) (simp_all add: assms)
  with assms that show ?thesis by (simp add: locked_def reload_handler_def Let_def)
qed

lemma ctl_reads_back: "reads_back ctl_toml (doc_allow v) \<longleftrightarrow> v = ''bob''"
  by (auto simp: reads_back_def ctl_toml_def doc_allow_def fun_eq_iff dest: spec [of _ "''engine''"])

lemma ctl_reveal_config:
  obtains st1 where "ctl_serve (RevealKeyphrase ''bob'' None None) (ctl_state no_files) =
      (RevealReply (wire_from_engine (live_config st1)) False (Persisted ctl_local), st1)"
    and "ct_files st1 = no_files\<lparr>fl_at := [ctl_local \<mapsto> FileText (tw_print ctl_toml (doc_allow ''bob''))]\<rparr>"
    and "ec_allow_list (live_config st1) = al_add_exact ''bob'' (al_with_common_words sample_ext)"
    and "\<not> ct_poisoned st1"
proof -
  let ?st = "ctl_state no_files"
  let ?cfg = "(live_config ?st)\<lparr>ec_custom_replacements := [],
      ec_allow_list := al_add_exact ''bob'' (al_with_common_words sample_ext)\<rparr>"
  obtain st' where i: "install_config sample_ext ?cfg ?st = (Inr (), st')"
    and live: "live_config st' = sealed_config ?cfg" and f: "ct_files st' = no_files" "\<not> ct_poisoned st'"
    by (rule sample_install [of ?cfg ?st]) (simp_all add: ctl_operators)
  have al: "ec_allow_list (live_config st') = al_add_exact ''bob'' (al_with_common_words sample_ext)"
    by (simp add: live sealed_config_def)
  have d: "scope_doc ctl_toml no_files ctl_local = Some Map.empty"
    by (simp add: scope_doc_def no_files_def read_to_string_def)
  have p: "persist_allow_lists ctl_wire (ctl_env ''k'') st' = (Persisted ctl_local,
      st'\<lparr>ct_files := no_files\<lparr>fl_at := [ctl_local \<mapsto> FileText (tw_print ctl_toml (doc_allow ''bob''))]\<rparr>\<rparr>)"
    unfolding persist_allow_lists_def Let_def al ctl_non_default f persist_local_allow_lists_def
    by (simp add: d ctl_put save_doc_def write_doc_def write_file_def del: no_files_sel(1))
       (simp)
  show ?thesis
    by (rule that [of "push_policy (ctl_env ''k'') (with_key ''k'')
          (st'\<lparr>ct_files := no_files\<lparr>fl_at := [ctl_local \<mapsto> FileText (tw_print ctl_toml (doc_allow ''bob''))]\<rparr>\<rparr>)"])
       (simp_all add: locked_def reveal_handler_def backing_pattern_def i p al f Let_def)
qed

lemma ctl_no_layers: "p \<noteq> ctl_local \<Longrightarrow> read_layer ctl_toml (no_files\<lparr>fl_at := [ctl_local \<mapsto> c]\<rparr>) p = Inr None"
  by (simp add: read_layer_def)

lemma sample_patterns: "\<exists>a. al_compile_patterns sample_ext ps al = Inr a"
  by (induction ps arbitrary: al) (simp_all add: sample_ext_def)

lemma ctl_reload_engine:
  assumes "merged_value ctl_toml fs ctl_layers = Inr merged" and "toml_get ''secrets'' merged = None"
    and "toml_table merged \<noteq> None"
  obtains al where "reload_engine sample_ext ctl_toml fs ctl_layers = Inr ((default_config sample_ext)\<lparr>ec_allow_list := al\<rparr>)"
proof -
  obtain al where "build_allow_list sample_ext merged = Inr al"
  proof (cases "toml_at [''engine'', ''allow_list''] merged")
    case None
    then show ?thesis using that by (simp add: build_allow_list_def del: toml_at.simps)
  next
    case (Some t)
    obtain a where "al_from_specs sample_ext (toml_strings ''exact'' t) (toml_strings ''exact_ci'' t)
        (toml_strings ''patterns'' t) = Inr a"
      unfolding al_from_specs_def using sample_patterns by blast
    with Some show ?thesis using that by (simp add: build_allow_list_def del: toml_at.simps)
  qed
  with assms that show ?thesis
    by (auto simp: reload_engine_def read_config_def validate_no_inline_secret_values_def decode_config_def
        ctl_toml_def ctl_file_config_def)
qed

theorem allow_edits_survive_reload_witness:
  "is_allowed sample_ext (ec_allow_list (live_config (snd (ctl_serve Reload
     (snd (ctl_serve (RevealKeyphrase ''bob'' None None) (ctl_state no_files))))))) ''bob''"
proof -
  obtain st1 where r: "ctl_serve (RevealKeyphrase ''bob'' None None) (ctl_state no_files) =
      (RevealReply (wire_from_engine (live_config st1)) False (Persisted ctl_local), st1)"
    and f: "ct_files st1 = no_files\<lparr>fl_at := [ctl_local \<mapsto> FileText (tw_print ctl_toml (doc_allow ''bob''))]\<rparr>"
    and al: "ec_allow_list (live_config st1) = al_add_exact ''bob'' (al_with_common_words sample_ext)"
    and np: "\<not> ct_poisoned st1"
    by (rule ctl_reveal_config)
  have rb: "edit_reads_back ctl_wire (ctl_env ''k'') (ctl_state no_files) (ec_allow_list (live_config st1)) ctl_local"
  proof -
    have base: "fs = no_files" if "edit_base ctl_wire (ctl_env ''k'') (ctl_state no_files) fs" for fs
      using that by (auto simp: edit_base_def remove_custom_replacement_def read_to_string_def)
    show ?thesis
      by (auto simp: edit_reads_back_def dest!: base) (auto simp: al ctl_non_default scope_doc_def read_to_string_def
          ctl_put ctl_reads_back)
  qed
  have "merged_value ctl_toml (ct_files st1) ctl_layers = Inr (toml_merge toml_empty (TTbl Block (doc_allow ''bob'')))"
    by (simp add: merged_value_def ctl_layers_def f ctl_no_layers)
       (simp add: read_layer_def read_to_string_def ctl_toml_def doc_allow_def)
  from ctl_reload_engine [OF this] obtain a where
    c: "reload_engine sample_ext ctl_toml (ct_files st1) ctl_layers = Inr ((default_config sample_ext)\<lparr>ec_allow_list := a\<rparr>)"
    by (auto simp: toml_empty_def toml_merge_Tbl merged_member_def doc_allow_def)
  obtain v st3 where r3: "ctl_serve Reload st1 = (PolicyReply v, st3)"
    by (rule ctl_reload [OF np c]) (simp_all add: default_config_def)
  from allow_edits_survive_reload [OF _ r _ _ _ _ rb refl r3, of "''bob''" None None]
  show ?thesis by (simp add: r r3 ctl_words del: serve.simps)
qed

theorem monitor_edits_outside_layers_witness:
  "reload_engine sample_ext ctl_toml (ct_files (snd (ctl_serve (RevealKeyphrase ''bob'' None None) (ctl_state no_files))))
     (ctl_layers\<lparr>ly_local := None\<rparr>) =
   reload_engine sample_ext ctl_toml no_files (ctl_layers\<lparr>ly_local := None\<rparr>) \<and>
   persisted_at (fst (ctl_serve (RevealKeyphrase ''bob'' None None) (ctl_state no_files))) = Some ctl_local"
proof -
  obtain st1 where r: "ctl_serve (RevealKeyphrase ''bob'' None None) (ctl_state no_files) =
      (RevealReply (wire_from_engine (live_config st1)) False (Persisted ctl_local), st1)"
    by (rule ctl_reveal_config)
  have "\<forall>p\<in>set (layer_paths (ctl_layers\<lparr>ly_local := None\<rparr>)).
      local_scope_path (cv_project_root (ctl_env ''k'')) \<noteq> Some p"
    by (simp add: layer_paths_def ctl_layers_def)
  from monitor_edits_outside_layers [OF _ this r, where T = ctl_toml] r show ?thesis by simp
qed

text \<open>An allow list that is an array loads, and makes the next reveal panic.\<close>

definition array_files :: files where
  "array_files = no_files\<lparr>fl_at := [ctl_local \<mapsto> FileText ''A'']\<rparr>"

theorem panicking_reveal_is_final_witness:
  "\<exists>st1. ctl_serve (RevealKeyphrase ''bob'' None None) (ctl_state array_files) = (Panicked, st1) \<and>
    ctl_serve (RemaskKeyphrase ''bob'') st1 = (Panicked, st1) \<and>
    is_allowed sample_ext (ec_allow_list (live_config (control_run sample_ext ctl_wire (ctl_env ''k'')
      [Serve 0 (with_key ''k'') (RemaskKeyphrase ''bob''), Serve 0 (with_key ''k'') Reload] st1))) ''bob''"
proof -
  let ?st = "ctl_state array_files"
  let ?cfg = "(live_config ?st)\<lparr>ec_custom_replacements := [],
      ec_allow_list := al_add_exact ''bob'' (al_with_common_words sample_ext)\<rparr>"
  obtain st' where i: "install_config sample_ext ?cfg ?st = (Inr (), st')"
    and live: "live_config st' = sealed_config ?cfg" and f: "ct_files st' = array_files"
    by (rule sample_install [of ?cfg ?st]) (simp_all add: ctl_operators)
  have al: "ec_allow_list (live_config st') = al_add_exact ''bob'' (al_with_common_words sample_ext)"
    by (simp add: live sealed_config_def)
  have "fst (persist_allow_lists ctl_wire (ctl_env ''k'') st') = PersistPanic"
    unfolding persist_allow_lists_def Let_def al ctl_non_default f persist_local_allow_lists_def
    by (simp add: case_prod_unfold scope_doc_def read_to_string_def array_files_def)
       (simp add: ctl_toml_def put_allow_lists_def doc_put_def)
  then obtain st2 where p: "persist_allow_lists ctl_wire (ctl_env ''k'') st' = (PersistPanic, st2)"
    by (metis prod.collapse)
  let ?st1 = "st2\<lparr>ct_poisoned := True\<rparr>"
  have r: "ctl_serve (RevealKeyphrase ''bob'' None None) ?st = (Panicked, ?st1)"
    by (simp add: locked_def reveal_handler_def backing_pattern_def i p Let_def)
  moreover have "ctl_serve (RemaskKeyphrase ''bob'') ?st1 = (Panicked, ?st1)"
    by (simp add: locked_def Let_def)
  moreover have "is_allowed sample_ext (ec_allow_list (live_config (control_run sample_ext ctl_wire (ctl_env ''k'')
      [Serve 0 (with_key ''k'') (RemaskKeyphrase ''bob''), Serve 0 (with_key ''k'') Reload] ?st1))) ''bob''"
    using panicking_reveal_is_final [OF r _ refl, THEN conjunct1] by (simp del: control_run_simps)
  ultimately show ?thesis by blast
qed

text \<open>The project's rule for \<open>one\<close> is gone once the monitor has added one for \<open>two\<close>.\<close>

definition rule_files :: files where
  "rule_files = no_files\<lparr>fl_at := [''/r/p'' \<mapsto> FileText ''P'']\<rparr>"

definition ctl_rule :: custom_replacement where
  "ctl_rule = custom_rule sample_ext ''two'' None True"

lemma ctl_append: "append_custom ctl_rule Map.empty = Inr (doc_rules ''two'')"
  by (simp add: append_custom_def doc_rules_def ctl_rule_def)

theorem custom_mask_drops_lower_layers_witness:
  "\<exists>wc st1 merged. ctl_serve (CustomMask ''two'' None True) (ctl_state rule_files) =
      (CustomReply wc (Persisted ctl_local), st1) \<and>
    merged_value ctl_toml rule_files ctl_layers =
      Inr (toml_merge toml_empty (TTbl Block (doc_rules ''one''))) \<and>
    merged_value ctl_toml (ct_files st1) ctl_layers = Inr merged \<and>
    toml_at [''engine'', ''custom_replacements''] merged =
      Some (TArr Block [custom_replacement_table ctl_rule])"
proof -
  let ?st = "ctl_state rule_files"
  let ?cfg = "(live_config ?st)\<lparr>ec_custom_replacements := [ctl_rule]\<rparr>"
  obtain st' where i: "install_config sample_ext ?cfg ?st = (Inr (), st')"
    and f: "ct_files st' = rule_files"
    by (rule sample_install [of ?cfg ?st]) (simp_all add: ctl_operators)
  let ?fs = "rule_files\<lparr>fl_at := [''/r/p'' \<mapsto> FileText ''P'', ctl_local \<mapsto> FileText (tw_print ctl_toml (doc_rules ''two''))]\<rparr>"
  have d: "scope_doc ctl_toml rule_files ctl_local = Some Map.empty"
    by (simp add: scope_doc_def rule_files_def read_to_string_def)
  have p: "persist_custom_replacement ctl_toml ''/r'' ctl_rule rule_files = (Persisted ctl_local, ?fs)"
    by (simp add: persist_custom_replacement_def d ctl_append)
       (simp add: save_doc_def write_doc_def write_file_def rule_files_def)
  let ?st1 = "push_policy (ctl_env ''k'') (with_key ''k'') (st'\<lparr>ct_files := ?fs\<rparr>)"
  have s: "ctl_serve (CustomMask ''two'' None True) ?st = (CustomReply (wire_from_engine (live_config ?st1)) (Persisted ctl_local), ?st1)"
    by (simp add: locked_def custom_mask_handler_def i f p Let_def ctl_rule_def [symmetric])
  have rules: "read_layer ctl_toml rule_files ''/u'' = Inr None"
    "read_layer ctl_toml rule_files ''/r/p'' = Inr (Some (doc_rules ''one''))"
    "read_layer ctl_toml rule_files ctl_local = Inr None"
    by (simp_all add: read_layer_def read_to_string_def rule_files_def) (simp add: ctl_toml_def)
  have added: "read_layer ctl_toml ?fs ''/u'' = Inr None"
    "read_layer ctl_toml ?fs ''/r/p'' = Inr (Some (doc_rules ''one''))"
    "read_layer ctl_toml ?fs ctl_local = Inr (Some (doc_rules ''two''))"
    by (simp_all add: read_layer_def read_to_string_def rule_files_def) (simp_all add: ctl_toml_def doc_rules_def)
  have before: "merged_value ctl_toml rule_files ctl_layers = Inr (toml_merge toml_empty (TTbl Block (doc_rules ''one'')))"
    using rules by (simp add: merged_value_def ctl_layers_def)
  obtain merged where after: "merged_value ctl_toml ?fs ctl_layers = Inr merged"
    using added by (simp add: merged_value_def ctl_layers_def)
  have "reads_back ctl_toml (doc_rules ''two'')"
    by (simp add: reads_back_def ctl_toml_def doc_rules_def)
  then have "toml_at [''engine'', ''custom_replacements''] merged =
      Some (TArr Block [custom_replacement_table ctl_rule])"
    using custom_mask_drops_lower_layers [OF s, of ctl_layers Map.empty ?fs merged] after
    by (simp add: d ctl_append ctl_rule_def [symmetric] own_rules_def)
  with s before after show ?thesis by fastforce
qed

end
