(* ===== verification/ProxyHttp.thy ===== *)
theory ProxyHttp
  imports ControlCorrect MonitorRaces
begin

text \<open>
  The keyed routes of the proxy together (\<open>router\<close> of \<open>routes.rs\<close>): the control plane, the handlers
  of \<open>monitor/http.rs\<close> on the monitor, and \<open>session_routed\<close> of \<open>admin.rs\<close>.  Every handler tests the
  control key for itself; the event stream also takes it from the query.
\<close>

section \<open>Requests\<close>

definition ROUTED_RECENTLY_WINDOW_MS :: nat where
  "ROUTED_RECENTLY_WINDOW_MS = 10 * 60 * 1000"

datatype proxy_request =
    Control control_request
  | SessionRouted string
  | MonitorSnapshot
  | MonitorEvents "string option"
  | MonitorMode monitor_mode "nat option"
  | MonitorApprove string
  | MonitorReject string string
  | MonitorTags string "string list"

datatype proxy_reply =
    ControlReply control_reply
  | Refusal
  | RoutedReply bool "nat option"
  | SnapshotReply monitor_snapshot
  | RecordReply request_record
  | NotFound

record proxy =
  px_control :: control_state
  px_world :: world

section \<open>The handlers of the monitor\<close>

text \<open>
  \<open>decide\<close> takes the waiter and then marks the record; the steps of other requests that may come in
  between are those of \<open>MonitorLife\<close>.
\<close>

definition found :: "decide_error + request_record \<Rightarrow> proxy_reply" where
  "found r = (case r of Inl _ \<Rightarrow> NotFound | Inr rec \<Rightarrow> RecordReply rec)"

definition monitor_decide ::
  "nat \<Rightarrow> string \<Rightarrow> approval_decision \<Rightarrow> world \<Rightarrow> proxy_reply \<times> world" where
  "monitor_decide now i d w =
     (case decide_take i (w_mon w) of
        None \<Rightarrow> (NotFound, w)
      | Some m \<Rightarrow>
          (let w' = take_decision i d m w; (r, m') = decide_mark now i d (w_mon w')
           in (found r, w'\<lparr>w_mon := m', w_late := remove1 (i, d) (w_late w')\<rparr>)))"

definition reject_reason :: "'x ext_scheme \<Rightarrow> string \<Rightarrow> string" where
  "reject_reason X reason = (if str_trim X reason = [] then ''rejected by monitor'' else reason)"

definition session_routed ::
  "control_env \<Rightarrow> nat \<Rightarrow> headers \<Rightarrow> string \<Rightarrow> proxy \<Rightarrow> proxy_reply" where
  "session_routed env now hdrs conversation px =
     (if \<not> authed env hdrs then Refusal
      else (case routed_recently now conversation ROUTED_RECENTLY_WINDOW_MS (w_mon (px_world px)) of
              (recent, last_seen) \<Rightarrow> RoutedReply recent last_seen))"

text \<open>The event stream starts with a snapshot.\<close>

definition monitor_events ::
  "'x ext_scheme \<Rightarrow> control_env \<Rightarrow> headers \<Rightarrow> string option \<Rightarrow> proxy \<Rightarrow> proxy_reply" where
  "monitor_events X env hdrs key px =
     (if \<not> authed env hdrs \<and> key \<noteq> Some (cv_admin_key env) then Refusal
      else SnapshotReply (monitor_snapshot_of X (w_mon (px_world px))))"

text \<open>Every handler, with the time it is served at.\<close>

fun proxy_serve ::
  "'x ext_scheme \<Rightarrow> control_wire \<Rightarrow> control_env \<Rightarrow> nat \<Rightarrow> headers \<Rightarrow> proxy_request \<Rightarrow> proxy \<Rightarrow>
   proxy_reply \<times> proxy" where
  "proxy_serve X W env now hdrs (Control req) px =
     (let (reply, st) = serve X W env now hdrs req (px_control px)
      in (ControlReply reply, px\<lparr>px_control := st\<rparr>))"
| "proxy_serve X W env now hdrs (SessionRouted conversation) px =
     (session_routed env now hdrs conversation px, px)"
| "proxy_serve X W env now hdrs MonitorSnapshot px =
     (if \<not> authed env hdrs then (Refusal, px)
      else (SnapshotReply (monitor_snapshot_of X (w_mon (px_world px))), px))"
| "proxy_serve X W env now hdrs (MonitorEvents key) px =
     (monitor_events X env hdrs key px, px)"
| "proxy_serve X W env now hdrs (MonitorMode mode max_pending) px =
     (if \<not> authed env hdrs then (Refusal, px)
      else
        (let w = on_mon (set_mode mode max_pending) (px_world px)
         in (SnapshotReply (monitor_snapshot_of X (w_mon w)), px\<lparr>px_world := w\<rparr>)))"
| "proxy_serve X W env now hdrs (MonitorApprove i) px =
     (if \<not> authed env hdrs then (Refusal, px)
      else (let (reply, w) = monitor_decide now i Approve (px_world px) in (reply, px\<lparr>px_world := w\<rparr>)))"
| "proxy_serve X W env now hdrs (MonitorReject i reason) px =
     (if \<not> authed env hdrs then (Refusal, px)
      else
        (let (reply, w) = monitor_decide now i (Reject (reject_reason X reason)) (px_world px)
         in (reply, px\<lparr>px_world := w\<rparr>)))"
| "proxy_serve X W env now hdrs (MonitorTags i tags) px =
     (if \<not> authed env hdrs then (Refusal, px)
      else
        (let (r, m) = update_tags now i tags (w_mon (px_world px))
         in (found r, px\<lparr>px_world := (px_world px)\<lparr>w_mon := m\<rparr>\<rparr>)))"

text \<open>The operator's actions of \<open>MonitorLife\<close> are these handlers.\<close>

lemma monitor_decide_exec:
  "snd (monitor_decide now i d w) =
     (case exec X jw (DecideTake i d) w of
        None \<Rightarrow> w
      | Some v \<Rightarrow> (case exec X jw (DecideMark now i d) v of None \<Rightarrow> v | Some u \<Rightarrow> u))"
  by (auto simp: monitor_decide_def take_decision_def on_mon_def Let_def split: option.splits prod.splits)

lemma monitor_mode_exec:
  "authed env hdrs \<Longrightarrow>
   exec X jw (SetMode mode max_pending) (px_world px) =
     Some (px_world (snd (proxy_serve X W env now hdrs (MonitorMode mode max_pending) px)))"
  "authed env hdrs \<Longrightarrow>
   exec X jw (Tag now i tags) (px_world px) =
     Some (px_world (snd (proxy_serve X W env now hdrs (MonitorTags i tags) px)))"
  by (simp_all add: on_mon_def Let_def split: prod.splits)

section \<open>Runs\<close>

text \<open>
  What happens to the proxy: requests to its keyed routes, the background and the traffic of the
  control plane, and the steps of the requests the monitor follows.
\<close>

datatype proxy_action =
    Ask nat headers proxy_request
  | Background control_action
  | Live action

fun proxy_step ::
  "'x ext_scheme \<Rightarrow> control_wire \<Rightarrow> json_wire \<Rightarrow> control_env \<Rightarrow> proxy_action \<Rightarrow> proxy \<Rightarrow> proxy" where
  "proxy_step X W jw env (Ask now hdrs req) px = snd (proxy_serve X W env now hdrs req px)"
| "proxy_step X W jw env (Background a) px = px\<lparr>px_control := control_step X W env a (px_control px)\<rparr>"
| "proxy_step X W jw env (Live a) px =
     (case exec X jw a (px_world px) of None \<Rightarrow> px | Some w \<Rightarrow> px\<lparr>px_world := w\<rparr>)"

definition proxy_run ::
  "'x ext_scheme \<Rightarrow> control_wire \<Rightarrow> json_wire \<Rightarrow> control_env \<Rightarrow> proxy_action list \<Rightarrow> proxy \<Rightarrow> proxy" where
  "proxy_run X W jw env acts px = fold (proxy_step X W jw env) acts px"

section \<open>Without the key\<close>

definition keyless :: "control_env \<Rightarrow> headers \<Rightarrow> proxy_request \<Rightarrow> bool" where
  "keyless env hdrs req \<longleftrightarrow>
     hd_key hdrs \<noteq> Some (cv_admin_key env) \<and> req \<noteq> MonitorEvents (Some (cv_admin_key env))"

text \<open>The steps of followed requests that are not a handler of the operator's.\<close>

fun unattended :: "action \<Rightarrow> bool" where
  "unattended (DecideTake i d) \<longleftrightarrow> False"
| "unattended (SetMode mode max_pending) \<longleftrightarrow> False"
| "unattended (Tag now i tags) \<longleftrightarrow> False"
| "unattended _ \<longleftrightarrow> True"

text \<open>
  What happens when nobody has the key: requests without it, traffic, loads of the recognizer that
  end, and followed requests that come, wait, time out and are answered.
\<close>

fun nobody :: "control_env \<Rightarrow> proxy_action \<Rightarrow> bool" where
  "nobody env (Ask now hdrs req) \<longleftrightarrow> keyless env hdrs req"
| "nobody env (Background a) \<longleftrightarrow> (\<exists>g res. a = LoadDone g res) \<or> (\<exists>t surface. a = MaskCall t surface)"
| "nobody env (Live a) \<longleftrightarrow> unattended a"

text \<open>What the operator has decided: the mode, the limit, and the requests approved and rejected.\<close>

definition decided :: "world \<Rightarrow> monitor_mode \<times> nat \<times> string set \<times> string set" where
  "decided w =
     (mn_mode (w_mon w), mn_max_pending_approvals (w_mon w), w_approved w, w_rejected w)"

definition refused :: "proxy_reply \<Rightarrow> bool" where
  "refused reply \<longleftrightarrow> reply = Refusal \<or> reply = ControlReply Forbidden"

lemma keyless_refused:
  assumes "keyless env hdrs req"
  shows "refused (fst (proxy_serve X W env now hdrs req px)) \<and> snd (proxy_serve X W env now hdrs req px) = px"
proof -
  have "\<not> authed env hdrs" using assms by (intro unauthed) (simp add: keyless_def)
  with assms show ?thesis
    by (cases req) (auto simp: refused_def keyless_def serve_forbidden session_routed_def monitor_events_def)
qed

lemma ops_keep_mode:
  "mn_mode (update_record now i f m) = mn_mode m"
  "mn_mode (record_response X jw now i status body manifest m) = mn_mode m"
  "mn_mode (record_dispatched now i m) = mn_mode m"
  "mn_mode (record_upstream_error now i msg m) = mn_mode m"
  "mn_mode (snd (decide_mark now i d m)) = mn_mode m"
  "mn_mode (timeout_mark now i m) = mn_mode m"
  "mn_mode (timeout_take i m) = mn_mode m"
  "mn_mode (ingest_session_tokens now manifest m) = mn_mode m"
  "mn_mode (snd (guard_capture X jw now key kind label t g m)) = mn_mode m"
  "mn_mode (snd (guard_complete X jw now g m)) = mn_mode m"
  "mn_mode (snd (guard_upstream_error X jw now msg g m)) = mn_mode m"
  "mn_mode (guard_drop X jw now g m) = mn_mode m"
  by (simp_all add: update_record_def record_response_def record_response_progress_def
      complete_response_def record_dispatched_def record_aborted_def record_upstream_error_def
      update_tags_def decide_mark_def timeout_mark_def timeout_take_def ingest_tokens_into_def
      ingest_session_tokens_def persist_partial_def guard_capture_def flush_progress_def
      guard_complete_def guard_upstream_error_def guard_drop_def Let_def case_prod_unfold
      split: option.split)

lemma unattended_keeps:
  assumes "unattended a" and "exec X jw a w = Some w'"
  shows "decided w' = decided w"
proof (cases a)
  case (Arrive now ep meth conv body manifest)
  obtain tk m' where r: "record_llm_request X jw now ep meth conv body manifest (w_mon w) = (tk, m')"
    by fastforce
  show ?thesis
    by (cases rule: record_llm_effect [OF r])
      (use assms(2) in \<open>auto simp: Arrive arrive_def r decided_def to_phase_def\<close>)
qed (use assms in \<open>auto simp: decided_def keeps ops_keep_mode to_phase_def on_mon_def Let_def
    case_prod_unfold split: if_splits option.splits phase.splits\<close>)

lemma nobody_step:
  assumes "nobody env a"
  shows "guarded (px_control (proxy_step X W jw env a px)) = guarded (px_control px) \<and>
    decided (px_world (proxy_step X W jw env a px)) = decided (px_world px)"
proof (cases a)
  case (Ask now hdrs req)
  with assms keyless_refused [of env hdrs req X W now px] show ?thesis by simp
next
  case (Background b)
  with assms have "outsider env b" by auto
  with Background outsider_step [of env b X W "px_control px"] show ?thesis by simp
next
  case (Live b)
  with assms unattended_keeps [of b X jw "px_world px"] show ?thesis by (auto split: option.splits)
qed

text \<open>
  C14: without the key nothing moves.  Requests to any keyed route of the proxy, from callers whose
  header does not hold exactly the control key and, for the event stream, whose query does not
  either, in any order with traffic, with loads of the recognizer that end, and with followed
  requests that arrive, wait, time out, stream and end, leave as they were: the policy, the
  registered secrets, the broker policy, the desired recognizer, the files, the lock and the policy
  frames; and the monitor's mode, its limit and which requests the operator approved and rejected.
  After any such run each such request is answered with the bare refusal and changes nothing at all.
\<close>

theorem stranger_changes_nothing:
  assumes "\<forall>a\<in>set acts. nobody env a" and "px' = proxy_run X W jw env acts px"
    and "keyless env hdrs req"
  shows "guarded (px_control px') = guarded (px_control px) \<and>
    decided (px_world px') = decided (px_world px) \<and>
    refused (fst (proxy_serve X W env now hdrs req px')) \<and>
    snd (proxy_serve X W env now hdrs req px') = px'"
proof -
  have "guarded (px_control (proxy_run X W jw env acts px)) = guarded (px_control px) \<and>
      decided (px_world (proxy_run X W jw env acts px)) = decided (px_world px)"
    using assms(1)
  proof (induction acts arbitrary: px)
    case (Cons a acts)
    with nobody_step [of env a X W jw px] show ?case by (simp add: proxy_run_def)
  qed (simp add: proxy_run_def)
  with assms(2) keyless_refused [OF assms(3)] show ?thesis by blast
qed

text \<open>
  A held request, a stranger who approves it, switches the monitor off and asks for the events with
  another key, and the request's timeout.
\<close>

theorem stranger_changes_nothing_witness:
  "let px = \<lparr>px_control = ctl_state no_files, px_world = held_world None\<rparr>;
       px' = proxy_run sample_ext ctl_wire sample_json (ctl_env ''k'')
         [Ask 0 no_headers (MonitorApprove (req_id 1)), Ask 0 no_headers (MonitorMode MonitorOff None),
          Ask 0 no_headers (MonitorEvents (Some ''x'')), Ask 0 no_headers (Control Disable),
          Live (Elapse (req_id 1)), Background (MaskCall ''hi bob'' UserMessage)] px
   in guarded (px_control px') = guarded (ctl_state no_files) \<and>
      decided (px_world px') = decided (held_world None) \<and>
      refused (fst (proxy_serve sample_ext ctl_wire (ctl_env ''k'') 0 no_headers (Control (RevealToken ''[X]'')) px'))"
proof -
  have "\<forall>a\<in>set [Ask 0 no_headers (MonitorApprove (req_id 1)), Ask 0 no_headers (MonitorMode MonitorOff None),
      Ask 0 no_headers (MonitorEvents (Some ''x'')), Ask 0 no_headers (Control Disable),
      Live (Elapse (req_id 1)), Background (MaskCall ''hi bob'' UserMessage)]. nobody (ctl_env ''k'') a"
    "keyless (ctl_env ''k'') no_headers (Control (RevealToken ''[X]''))"
    by (simp_all add: keyless_def no_headers_def ctl_env_def)
  from stranger_changes_nothing [OF this(1) refl this(2), of sample_ext ctl_wire sample_json
      "\<lparr>px_control = ctl_state no_files, px_world = held_world None\<rparr>" 0]
  show ?thesis unfolding Let_def by simp
qed

end
