(* ===== verification/Paths.thy ===== *)
theory Paths
  imports Prelude
begin

text \<open>
  The operations of \<open>std::path\<close> on file names that the state files and the transcript scrubber use.
  Paths do not end in a slash.
\<close>

text \<open>\<open>Path::extension\<close> and \<open>Path::with_extension\<close>: what follows the last dot of the file name,
  unless the name starts with its only dot or is the parent directory.\<close>

definition file_name :: "string \<Rightarrow> string" where
  "file_name path = rev (takeWhile (\<lambda>c. c \<noteq> CHR ''/'') (rev path))"

definition path_extension :: "string \<Rightarrow> string option" where
  "path_extension path =
     (let name = file_name path; ext = rev (takeWhile (\<lambda>c. c \<noteq> CHR ''.'') (rev name)) in
        if name = ''..'' \<or> length name \<le> Suc (length ext) then None else Some ext)"

definition with_extension :: "string \<Rightarrow> string \<Rightarrow> string" where
  "with_extension ext path =
     (case path_extension path of
        None \<Rightarrow> path
      | Some e \<Rightarrow> take (length path - Suc (length e)) path) @ ''.'' @ ext"

text \<open>\<open>Path::with_file_name\<close>.\<close>

definition with_file_name :: "string \<Rightarrow> string \<Rightarrow> string" where
  "with_file_name name path = take (length path - length (file_name path)) path @ name"

lemma path_extension_length: "path_extension path = Some e \<Longrightarrow> Suc (length e) \<le> length path"
  using length_takeWhile_le [of "\<lambda>c. c \<noteq> CHR ''/''" "rev path"]
  by (auto simp: path_extension_def Let_def file_name_def split: if_splits)

lemma path_extension_of_name:
  assumes "CHR ''/'' \<notin> set stem" and "CHR ''/'' \<notin> set ext" and "CHR ''.'' \<notin> set ext" and "stem \<noteq> []"
    and "ext \<noteq> []"
  shows "path_extension (stem @ ''.'' @ ext) = Some ext"
proof -
  have "takeWhile (\<lambda>c. c \<noteq> CHR ''/'') (rev (stem @ ''.'' @ ext)) = rev (stem @ ''.'' @ ext)"
    using assms(1,2) by (subst takeWhile_eq_all_conv) auto
  then have name: "file_name (stem @ ''.'' @ ext) = stem @ ''.'' @ ext"
    unfolding file_name_def by (simp only: rev_rev_ident)
  have "takeWhile (\<lambda>c. c \<noteq> CHR ''.'') (rev ext @ CHR ''.'' # rev stem) = rev ext"
    using assms(3) by (subst takeWhile_append2) auto
  then have "rev (takeWhile (\<lambda>c. c \<noteq> CHR ''.'') (rev (stem @ ''.'' @ ext))) = ext" by simp
  moreover have "stem @ ''.'' @ ext \<noteq> ''..''" using assms(3-5) by (cases stem; cases ext) auto
  ultimately show ?thesis
    using assms(4) unfolding path_extension_def name Let_def by (cases stem) auto
qed

end
