(* ===== verification/Transcript.thy ===== *)
theory Transcript
  imports Json ConfigFiles Paths
begin

text \<open>
  The transcript scrubber of the hooks program (crates/zlauder-hooks/src/transcript.rs): it
  replaces registered values in the string leaves of a JSON-lines transcript, removes the thinking
  records that follow the first replacement, and moves the surviving records' \<open>parentUuid\<close> past
  the removed ones.
\<close>

section \<open>Options, report and records\<close>

text \<open>\<open>serde_json::from_str\<close> and \<open>to_string\<close>.\<close>

record jsonl_wire =
  jl_parse :: "string \<Rightarrow> json option"
  jl_print :: "json \<Rightarrow> string option"

record scrub_options =
  so_values :: "string list"
  so_replacement :: string
  so_drop_thinking :: bool

record scrub_report =
  sr_redactions :: nat
  sr_removed_thinking_records :: nat
  sr_relinked_records :: nat
  sr_backup_path :: "string option"

record transcript_record =
  tr_value :: json
  tr_uuid :: "string option"
  tr_parent_uuid :: "string option"

datatype scrub_error =
    NoScrubValue
  | NoReplacement
  | BadLine nat
  | NoRecords
  | UnprintableRecord
  | CannotReadTranscript
  | EmptyTranscript
  | CannotBackUp
  | CannotWriteTranscript
  | CannotReplaceTranscript

type_synonym 'a scrub_result = "scrub_error + 'a"

definition validate_options :: "scrub_options \<Rightarrow> unit scrub_result" where
  "validate_options opts =
     (if list_all (\<lambda>v. v = []) (so_values opts) then Inl NoScrubValue
      else if so_replacement opts = [] then Inl NoReplacement
      else Inr ())"

section \<open>Reading the records\<close>

text \<open>\<open>str::lines\<close>: a line ends at a line feed, whose carriage return goes with it.\<close>

fun split_inclusive :: "string \<Rightarrow> string list" where
  "split_inclusive [] = []"
| "split_inclusive (c # cs) =
     (if c = CHR 0x0A then [c] # split_inclusive cs
      else (case split_inclusive cs of [] \<Rightarrow> [[c]] | l # ls \<Rightarrow> (c # l) # ls))"

definition strip_suffix_char :: "char \<Rightarrow> string \<Rightarrow> string option" where
  "strip_suffix_char c s = (if s \<noteq> [] \<and> last s = c then Some (butlast s) else None)"

definition line_of :: "string \<Rightarrow> string" where
  "line_of l =
     (case strip_suffix_char (CHR 0x0A) l of
        None \<Rightarrow> l
      | Some l' \<Rightarrow> (case strip_suffix_char (CHR 0x0D) l' of None \<Rightarrow> l' | Some l'' \<Rightarrow> l''))"

definition text_lines :: "string \<Rightarrow> string list" where
  "text_lines t = map line_of (split_inclusive t)"

definition record_of :: "json \<Rightarrow> transcript_record" where
  "record_of v =
     \<lparr>tr_value = v, tr_uuid = Option.bind (json_get ''uuid'' v) json_str,
      tr_parent_uuid = Option.bind (json_get ''parentUuid'' v) json_str\<rparr>"

fun parse_lines ::
  "'x ext_scheme \<Rightarrow> jsonl_wire \<Rightarrow> nat \<Rightarrow> string list \<Rightarrow> transcript_record list scrub_result" where
  "parse_lines X J n [] = Inr []"
| "parse_lines X J n (l # ls) =
     (if str_trim X l = [] then parse_lines X J (Suc n) ls
      else (case jl_parse J l of
              None \<Rightarrow> Inl (BadLine (n + 1))
            | Some v \<Rightarrow> bind_r (parse_lines X J (Suc n) ls) (\<lambda>rs. Inr (record_of v # rs))))"

definition parse_records ::
  "'x ext_scheme \<Rightarrow> jsonl_wire \<Rightarrow> string \<Rightarrow> transcript_record list scrub_result" where
  "parse_records X J input =
     bind_r (parse_lines X J 0 (text_lines input)) (\<lambda>rs. if rs = [] then Inl NoRecords else Inr rs)"

section \<open>Redaction\<close>

text \<open>\<open>str::matches\<close> counted, for a non-empty needle.\<close>

function str_matches :: "string \<Rightarrow> string \<Rightarrow> nat" where
  "str_matches p [] = 0"
| "str_matches p (c # cs) =
     (if prefix p (c # cs) then Suc (str_matches p (drop (length p - 1) cs)) else str_matches p cs)"
  by pat_completeness auto
termination
  by (relation "measure (\<lambda>(p, t). length t)") auto

fun redact_text :: "string list \<Rightarrow> string \<Rightarrow> string \<Rightarrow> string \<times> nat" where
  "redact_text [] r s = (s, 0)"
| "redact_text (n # ns) r s =
     (if n = [] then redact_text ns r s
      else let hits = str_matches n s in
        if 0 < hits
        then (let (s', k) = redact_text ns r (str_replace n r s) in (s', hits + k))
        else redact_text ns r s)"

primrec redact_strings :: "string list \<Rightarrow> string \<Rightarrow> json \<Rightarrow> json \<times> nat" where
  "redact_strings ns r JNull = (JNull, 0)"
| "redact_strings ns r (JBool b) = (JBool b, 0)"
| "redact_strings ns r (JNum n) = (JNum n, 0)"
| "redact_strings ns r (JStr s) = (let (s', k) = redact_text ns r s in (JStr s', k))"
| "redact_strings ns r (JArr vs) =
     (let rs = map (redact_strings ns r) vs in (JArr (map fst rs), sum_list (map snd rs)))"
| "redact_strings ns r (JObj kvs) =
     (let rs = map (map_prod id (redact_strings ns r)) kvs in
        (JObj (map (map_prod id fst) rs), sum_list (map (snd \<circ> snd) rs)))"

definition redact_record ::
  "string list \<Rightarrow> string \<Rightarrow> transcript_record \<Rightarrow> transcript_record \<times> nat" where
  "redact_record ns r rec =
     (let (v, k) = redact_strings ns r (tr_value rec) in (rec\<lparr>tr_value := v\<rparr>, k))"

section \<open>Thinking records\<close>

definition json_array :: "json \<Rightarrow> json list option" where
  "json_array v = (case v of JArr vs \<Rightarrow> Some vs | _ \<Rightarrow> None)"

definition is_thinking_block :: "json \<Rightarrow> bool" where
  "is_thinking_block block \<longleftrightarrow>
     Option.bind (json_get ''type'' block) json_str \<in> {Some ''thinking'', Some ''redacted_thinking''}"

definition is_standalone_thinking_record :: "json \<Rightarrow> bool" where
  "is_standalone_thinking_record v =
     (case json_get ''message'' v of
        None \<Rightarrow> False
      | Some message \<Rightarrow>
          if Option.bind (json_get ''role'' message) json_str \<noteq> Some ''assistant'' then False
          else (case Option.bind (json_get ''content'' message) json_array of
                  None \<Rightarrow> False
                | Some content \<Rightarrow> content \<noteq> [] \<and> list_all is_thinking_block content))"

text \<open>The index of the first record a value was replaced in, and the indices to remove.\<close>

definition earliest_redacted :: "nat list \<Rightarrow> nat option" where
  "earliest_redacted counts = find (\<lambda>i. 0 < counts ! i) [0..<length counts]"

definition thinking_after :: "nat option \<Rightarrow> transcript_record list \<Rightarrow> nat list" where
  "thinking_after earliest recs =
     (let start = (case earliest of None \<Rightarrow> length recs | Some i \<Rightarrow> i) in
        filter (\<lambda>i. start \<le> i \<and> is_standalone_thinking_record (tr_value (recs ! i))) [0..<length recs])"

section \<open>Relinking\<close>

text \<open>\<open>uuid_to_idx\<close>: of two records with one uuid, the later is kept by the map.\<close>

definition uuid_to_idx :: "transcript_record list \<Rightarrow> (string \<times> nat) list" where
  "uuid_to_idx recs =
     rev (concat (map (\<lambda>i. case tr_uuid (recs ! i) of None \<Rightarrow> [] | Some u \<Rightarrow> [(u, i)])
       [0..<length recs]))"

function nearest_surviving_parent ::
  "transcript_record list \<Rightarrow> (string \<times> nat) list \<Rightarrow> nat list \<Rightarrow> string list \<Rightarrow> string \<Rightarrow> string option" where
  "nearest_surviving_parent recs ix removed seen current =
     (if current \<in> set seen then None
      else (case map_of ix current of
              None \<Rightarrow> Some current
            | Some i \<Rightarrow>
                if i \<notin> set removed then Some current
                else (case tr_parent_uuid (recs ! i) of
                        None \<Rightarrow> None
                      | Some next_parent \<Rightarrow>
                          nearest_surviving_parent recs ix removed (current # seen) next_parent)))"
  by pat_completeness auto
termination
proof (relation "measure (\<lambda>(recs, ix, removed, seen, current). card (fst ` set ix - set seen))", goal_cases)
  case (2 recs ix removed seen current i next_parent)
  then have "current \<in> fst ` set ix - set seen"
    by (force dest: map_of_SomeD)
  then have "fst ` set ix - set (current # seen) \<subset> fst ` set ix - set seen" by auto
  then show ?case by (simp add: psubset_card_mono)
qed simp

declare nearest_surviving_parent.simps [simp del]

text \<open>\<open>Map::insert\<close> of a \<open>serde_json\<close> map in insertion order.\<close>

fun json_insert :: "string \<Rightarrow> json \<Rightarrow> (string \<times> json) list \<Rightarrow> (string \<times> json) list" where
  "json_insert k v [] = [(k, v)]"
| "json_insert k v ((k', v') # kvs) =
     (if k' = k then (k, v) # kvs else (k', v') # json_insert k v kvs)"

definition set_parent :: "string \<Rightarrow> transcript_record \<Rightarrow> transcript_record" where
  "set_parent p rec =
     rec\<lparr>tr_parent_uuid := Some p,
         tr_value := (case tr_value rec of
                        JObj kvs \<Rightarrow> JObj (json_insert ''parentUuid'' (JStr p) kvs)
                      | v \<Rightarrow> v)\<rparr>"

definition relink_one ::
  "(string \<times> nat) list \<Rightarrow> nat list \<Rightarrow> nat \<Rightarrow> transcript_record list \<times> nat \<Rightarrow>
   transcript_record list \<times> nat" where
  "relink_one ix removed i = (\<lambda>(recs, changed).
     if i \<in> set removed then (recs, changed)
     else (case tr_parent_uuid (recs ! i) of
             None \<Rightarrow> (recs, changed)
           | Some parent \<Rightarrow>
               (case nearest_surviving_parent recs ix removed [] parent of
                  None \<Rightarrow> (recs, changed)
                | Some p \<Rightarrow>
                    if p \<noteq> parent then (recs[i := set_parent p (recs ! i)], changed + 1)
                    else (recs, changed))))"

definition relink_parents ::
  "transcript_record list \<Rightarrow> nat list \<Rightarrow> transcript_record list \<times> nat" where
  "relink_parents recs removed =
     fold (relink_one (uuid_to_idx recs) removed) [0..<length recs] (recs, 0)"

section \<open>Scrubbing a transcript\<close>

definition scrub_records ::
  "scrub_options \<Rightarrow> transcript_record list \<Rightarrow> json list \<times> scrub_report" where
  "scrub_records opts recs0 =
     (let values = filter (\<lambda>v. v \<noteq> []) (so_values opts);
          redacted = map (redact_record values (so_replacement opts)) recs0;
          recs = map fst redacted; counts = map snd redacted;
          removed = (if so_drop_thinking opts then thinking_after (earliest_redacted counts) recs else []);
          (recs', relinked) = (if removed = [] then (recs, 0) else relink_parents recs removed)
      in (map (\<lambda>i. tr_value (recs' ! i)) (filter (\<lambda>i. i \<notin> set removed) [0..<length recs']),
          \<lparr>sr_redactions = sum_list counts, sr_removed_thinking_records = length removed,
           sr_relinked_records = relinked, sr_backup_path = None\<rparr>))"

fun print_values :: "jsonl_wire \<Rightarrow> json list \<Rightarrow> string scrub_result" where
  "print_values J [] = Inr []"
| "print_values J (v # vs) =
     (case jl_print J v of
        None \<Rightarrow> Inl UnprintableRecord
      | Some l \<Rightarrow> bind_r (print_values J vs) (\<lambda>out. Inr (l @ [CHR 0x0A] @ out)))"

definition scrub_jsonl ::
  "'x ext_scheme \<Rightarrow> jsonl_wire \<Rightarrow> string \<Rightarrow> scrub_options \<Rightarrow> (string \<times> scrub_report) scrub_result" where
  "scrub_jsonl X J input opts =
     bind_r (validate_options opts) (\<lambda>_.
     bind_r (parse_records X J input) (\<lambda>recs.
       let (values, report) = scrub_records opts recs in
       bind_r (print_values J values) (\<lambda>out. Inr (out, report))))"

section \<open>Scrubbing the file\<close>

definition backup_candidate :: "string \<Rightarrow> nat \<Rightarrow> string" where
  "backup_candidate path n =
     path @ ''.'' @ (if n = 0 then ''bak'' else ''bak.'' @ dec_string n)"

definition backup_path :: "files \<Rightarrow> string \<Rightarrow> string" where
  "backup_path fs path =
     (case find (\<lambda>n. fl_at fs (backup_candidate path n) = None) [0..<1000] of
        Some n \<Rightarrow> backup_candidate path n
      | None \<Rightarrow> with_extension ''bak'' path)"

text \<open>
  \<open>refuses_rename\<close> says that the rename onto the transcript fails.  The text is read once and read
  again by the copy.
\<close>

definition scrub_file ::
  "'x ext_scheme \<Rightarrow> jsonl_wire \<Rightarrow> bool \<Rightarrow> string \<Rightarrow> scrub_options \<Rightarrow> bool \<Rightarrow> files \<Rightarrow>
   scrub_report scrub_result \<times> files" where
  "scrub_file X J refuses_rename path opts dry_run fs =
     (case validate_options opts of
        Inl e \<Rightarrow> (Inl e, fs)
      | Inr _ \<Rightarrow>
     (case read_to_string fs path of
        None \<Rightarrow> (Inl CannotReadTranscript, fs)
      | Some original \<Rightarrow>
     (case scrub_jsonl X J original opts of
        Inl e \<Rightarrow> (Inl e, fs)
      | Inr (output, report) \<Rightarrow>
          if dry_run then (Inr report, fs)
          else if output = [] then (Inl EmptyTranscript, fs)
          else
            let output = (if last output = CHR 0x0A then output else output @ [CHR 0x0A]);
                backup = backup_path fs path;
                (copied, fs1) = write_file backup original fs in
            if \<not> copied then (Inl CannotBackUp, fs1)
            else
              let tmp = with_extension
                    ((case path_extension path of None \<Rightarrow> ''jsonl'' | Some e \<Rightarrow> e) @ ''.tmp'') path;
                  (written, fs2) = write_file tmp output fs1 in
              if \<not> written then (Inl CannotWriteTranscript, fs2)
              else if refuses_rename then (Inl CannotReplaceTranscript, fs2)
              else (Inr (report\<lparr>sr_backup_path := Some backup\<rparr>),
                    fs2\<lparr>fl_at := (fl_at fs2)(path := fl_at fs2 tmp, tmp := None)\<rparr>))))"

end
