(* ===== verification/TranscriptCorrect.thy ===== *)
theory TranscriptCorrect
  imports Transcript
begin

text \<open>
  What the transcript scrubber removes, what it leaves, and where it points the surviving records.
\<close>

section \<open>Replacement removes the needle\<close>

text \<open>A needle that shares no byte with the replacement cannot straddle it.\<close>

lemma sublist_past:
  assumes "q \<noteq> []" and "set q \<inter> set r = {}" and "sublist q (r @ t)"
  shows "sublist q t"
  using assms(2,3)
proof (induction r)
  case (Cons c r)
  then have "\<not> prefix q (c # r @ t)" using assms(1) by (cases q) auto
  with Cons show ?case by (auto simp: sublist_Cons_right)
qed simp

lemma str_replace_ne_prefix:
  "r \<noteq> [] \<Longrightarrow> set q \<inter> set r = {} \<Longrightarrow> prefix q (str_replace_ne p r t) \<Longrightarrow> prefix q t"
proof (induction p r t arbitrary: q rule: str_replace_ne.induct)
  case (2 p r c cs)
  show ?case
  proof (cases q)
    case (Cons a q')
    show ?thesis
    proof (cases "prefix p (c # cs)")
      case True
      with "2.prems" Cons have "prefix q (r @ str_replace_ne p r (drop (length p - 1) cs))" by simp
      with Cons "2.prems"(1,2) show ?thesis by (cases r) auto
    next
      case False
      with "2.prems" Cons have "a = c" "prefix q' (str_replace_ne p r cs)" "set q' \<inter> set r = {}"
        by auto
      with "2.IH"(2) [OF False "2.prems"(1)] Cons show ?thesis by simp
    qed
  qed simp
qed simp

lemma str_replace_ne_sublist:
  assumes "r \<noteq> []" and "p \<noteq> []" and "q \<noteq> []" and "set q \<inter> set r = {}"
  shows "sublist q (str_replace_ne p r t) \<Longrightarrow> sublist q t"
  using assms
proof (induction p r t rule: str_replace_ne.induct)
  case (2 p r c cs)
  show ?case
  proof (cases "prefix p (c # cs)")
    case True
    with 2 have "sublist q (str_replace_ne p r (drop (length p - 1) cs))"
      by (auto dest: sublist_past)
    with 2 True have "sublist q (drop (length p - 1) cs)" by blast
    then show ?thesis
      by (meson sublist_drop sublist_Cons_right sublist_order.order_trans)
  next
    case False
    have "prefix q (str_replace_ne p r (c # cs)) \<Longrightarrow> prefix q (c # cs)"
      by (rule str_replace_ne_prefix [where p = p and r = r]) (use 2 in auto)
    with False 2 show ?thesis by (auto simp: sublist_Cons_right)
  qed
qed simp

lemma str_replace_ne_removes:
  assumes "r \<noteq> []" and "p \<noteq> []" and "set p \<inter> set r = {}"
  shows "\<not> sublist p (str_replace_ne p r t)"
  using assms
proof (induction p r t rule: str_replace_ne.induct)
  case (2 p r c cs)
  show ?case
  proof (cases "prefix p (c # cs)")
    case True
    with 2 show ?thesis by (auto dest: sublist_past)
  next
    case False
    have "\<not> prefix p (str_replace_ne p r (c # cs))"
      using str_replace_ne_prefix [of r p p "c # cs"] "2.prems" False by blast
    moreover have "\<not> sublist p (str_replace_ne p r cs)"
      using "2.IH"(2) [OF False] "2.prems" by blast
    ultimately show ?thesis using False by (simp add: sublist_Cons_right)
  qed
qed simp

lemma str_matches_zero: "p \<noteq> [] \<Longrightarrow> str_matches p t = 0 \<longleftrightarrow> \<not> sublist p t"
  by (induction p t rule: str_matches.induct) (auto simp: sublist_Cons_right)

text \<open>The values the scrubber is told of, and a replacement none of them shares a byte with.\<close>

definition scrubbable :: "string list \<Rightarrow> string \<Rightarrow> bool" where
  "scrubbable ns r \<longleftrightarrow> r \<noteq> [] \<and> list_all (\<lambda>n. set n \<inter> set r = {}) ns"

lemma str_replace_sublist:
  "r \<noteq> [] \<Longrightarrow> p \<noteq> [] \<Longrightarrow> q \<noteq> [] \<Longrightarrow> set q \<inter> set r = {} \<Longrightarrow> sublist q (str_replace p r t) \<Longrightarrow> sublist q t"
  unfolding str_replace_def by (simp del: str_replace_ne.simps) (rule str_replace_ne_sublist)

lemma redact_text_sublist:
  "r \<noteq> [] \<Longrightarrow> q \<noteq> [] \<Longrightarrow> set q \<inter> set r = {} \<Longrightarrow> sublist q (fst (redact_text ns r s)) \<Longrightarrow> sublist q s"
proof (induction ns r s rule: redact_text.induct)
  case (2 n ns r s)
  show ?case
  proof (cases "n = [] \<or> str_matches n s = 0")
    case True
    then have "redact_text (n # ns) r s = redact_text ns r s" by (auto simp: Let_def)
    with "2.prems"(4) have "sublist q (fst (redact_text ns r s))" by simp
    with True "2.IH"(1) "2.IH"(3) [OF _ refl] "2.prems"(1-3) show ?thesis by (cases "n = []") simp_all
  next
    case False
    with "2.prems"(4) have "sublist q (fst (redact_text ns r (str_replace n r s)))"
      by (simp add: Let_def case_prod_unfold)
    with False "2.IH"(2) "2.prems"(1-3) have "sublist q (str_replace n r s)" by simp
    with False "2.prems"(1-3) show ?thesis by (auto intro: str_replace_sublist)
  qed
qed simp

lemma redact_text_removes:
  "scrubbable ns r \<Longrightarrow> n \<in> set ns \<Longrightarrow> n \<noteq> [] \<Longrightarrow> \<not> sublist n (fst (redact_text ns r s))"
proof (induction ns r s rule: redact_text.induct)
  case (2 m ns r s)
  then have r: "r \<noteq> []" "set n \<inter> set r = {}" "scrubbable ns r"
    by (auto simp: scrubbable_def list_all_iff)
  have keep: "\<not> sublist n (fst (redact_text ns r t))" if "\<not> sublist n t" for t
    using redact_text_sublist [of r n ns t] r "2.prems"(3) that by blast
  show ?case
  proof (cases "n \<in> set ns")
    case True
    with "2.IH" "2.prems"(3) r(3) show ?thesis
      by (cases "m = []"; cases "0 < str_matches m s") (auto simp: Let_def split: prod.splits)
  next
    case False
    with "2.prems" have m: "m = n" by simp
    show ?thesis
    proof (cases "0 < str_matches n s")
      case True
      have "\<not> sublist n (str_replace n r s)"
        using "2.prems"(3) r by (simp add: str_replace_def str_replace_ne_removes)
      with True m "2.prems"(3) keep show ?thesis by (simp add: Let_def case_prod_unfold)
    next
      case False
      with m "2.prems"(3) have "str_matches m s = 0" "\<not> sublist n s"
        by (simp_all add: str_matches_zero)
      with m keep "2.prems"(3) show ?thesis by (simp add: Let_def)
    qed
  qed
qed simp

lemma redact_strings_map:
  "fst (redact_strings ns r v) = json_map (\<lambda>s. fst (redact_text ns r s)) v"
  by (induction v) (auto simp: Let_def case_prod_unfold map_prod_def)

lemma redact_strings_removes:
  assumes "scrubbable ns r" and "n \<in> set ns" and "n \<noteq> []"
    and "s \<in> set (json_leaves (fst (redact_strings ns r v)))"
  shows "\<not> sublist n s"
  using assms by (auto simp: redact_strings_map json_map_leaves dest: redact_text_removes)

text \<open>Counting: the report's number is zero exactly where nothing is rewritten.\<close>

lemma redact_text_count:
  "snd (redact_text ns r s) = 0 \<longleftrightarrow> (\<forall>n \<in> set ns. n \<noteq> [] \<longrightarrow> \<not> sublist n s)"
proof (induction ns r s rule: redact_text.induct)
  case (2 m ns r s)
  then show ?case
    by (cases "m = []") (auto simp: Let_def str_matches_zero [symmetric] split: prod.splits)
qed simp

section \<open>The nearest surviving ancestor\<close>

text \<open>
  \<open>climbs\<close> walks the parents of removed records, counting them, up to the first name that no
  removed record has: a survivor's, or one the transcript does not define.
\<close>

inductive climbs ::
  "transcript_record list \<Rightarrow> (string \<times> nat) list \<Rightarrow> nat list \<Rightarrow> string \<Rightarrow> nat \<Rightarrow> string \<Rightarrow> bool"
  for recs ix removed where
  climbs_here:
    "(\<And>i. map_of ix p = Some i \<Longrightarrow> i \<notin> set removed) \<Longrightarrow> climbs recs ix removed p 0 p"
| climbs_past:
    "map_of ix p = Some i \<Longrightarrow> i \<in> set removed \<Longrightarrow> tr_parent_uuid (recs ! i) = Some q \<Longrightarrow>
     climbs recs ix removed q n s \<Longrightarrow> climbs recs ix removed p (Suc n) s"

inductive_cases climbsE: "climbs recs ix removed p n s"

lemma climbs_unique:
  "climbs recs ix removed p n s \<Longrightarrow> climbs recs ix removed p m t \<Longrightarrow> n = m \<and> s = t"
proof (induction arbitrary: m t rule: climbs.induct)
  case (climbs_here p)
  from climbs_here(2) show ?case by (rule climbsE) (use climbs_here(1) in auto)
next
  case (climbs_past p i q n s)
  from climbs_past.prems obtain k where k: "m = Suc k" "climbs recs ix removed q k t"
    by (rule climbsE) (use climbs_past.hyps in auto)
  from climbs_past.IH [OF k(2)] k(1) show ?case by simp
qed

lemma nearest_sound:
  "nearest_surviving_parent recs ix removed seen p = Some s \<Longrightarrow> \<exists>n. climbs recs ix removed p n s"
proof (induction recs ix removed seen p rule: nearest_surviving_parent.induct)
  case (1 recs ix removed seen p)
  show ?case
  proof (cases "\<exists>i. map_of ix p = Some i \<and> i \<in> set removed")
    case False
    with 1(2) have "s = p"
      by (subst (asm) nearest_surviving_parent.simps) (auto split: if_splits option.splits)
    moreover have "climbs recs ix removed p 0 p" by (rule climbs_here) (use False in auto)
    ultimately show ?thesis by blast
  next
    case True
    then obtain i where i: "map_of ix p = Some i" "i \<in> set removed" by blast
    with 1(2) obtain q where q: "p \<notin> set seen" "tr_parent_uuid (recs ! i) = Some q"
        "nearest_surviving_parent recs ix removed (p # seen) q = Some s"
      by (subst (asm) nearest_surviving_parent.simps) (auto split: if_splits option.splits)
    with 1(1) [OF q(1) i(1) _ q(2)] i obtain n where "climbs recs ix removed q n s" by auto
    with i q(2) show ?thesis by (blast intro: climbs_past)
  qed
qed

text \<open>
  The set of names seen cuts off cycles only: every name seen is further from the survivor than the
  name at hand.
\<close>

lemma nearest_complete:
  "climbs recs ix removed p n s \<Longrightarrow> (\<And>u. u \<in> set seen \<Longrightarrow> \<exists>m > n. climbs recs ix removed u m s) \<Longrightarrow>
   nearest_surviving_parent recs ix removed seen p = Some s"
proof (induction arbitrary: seen rule: climbs.induct)
  case (climbs_here p)
  then have "p \<notin> set seen"
    using climbs_unique [OF climbs.climbs_here [of ix p removed recs]] by blast
  with climbs_here(1) show ?case
    by (subst nearest_surviving_parent.simps) (auto split: option.splits)
next
  case (climbs_past p i q n s)
  have here: "climbs recs ix removed p (Suc n) s"
    by (rule climbs.climbs_past) (use climbs_past in auto)
  then have "p \<notin> set seen"
    using climbs_unique [OF here] climbs_past(6) [of p] by blast
  moreover have "\<exists>m > n. climbs recs ix removed u m s" if "u \<in> set (p # seen)" for u
    using that here climbs_past(6) [of u] by (auto intro: Suc_lessD)
  then have "nearest_surviving_parent recs ix removed (p # seen) q = Some s"
    by (rule climbs_past.IH)
  ultimately show ?case
    using climbs_past(1-3) by (subst nearest_surviving_parent.simps) simp
qed

lemma nearest_iff:
  "nearest_surviving_parent recs ix removed [] p = Some s \<longleftrightarrow> (\<exists>n. climbs recs ix removed p n s)"
  using nearest_sound nearest_complete [where seen = "[]"] by fastforce

lemma nearest_cong:
  "(\<And>i. i \<in> set removed \<Longrightarrow> tr_parent_uuid (recs' ! i) = tr_parent_uuid (recs ! i)) \<Longrightarrow>
   nearest_surviving_parent recs' ix removed seen p = nearest_surviving_parent recs ix removed seen p"
proof (induction recs ix removed seen p rule: nearest_surviving_parent.induct)
  case (1 recs ix removed seen p)
  then show ?case
    by (subst (1 2) nearest_surviving_parent.simps) (auto split: option.splits)
qed

section \<open>Relinking\<close>

text \<open>What the loop does to each record on its own.\<close>

definition relinked ::
  "transcript_record list \<Rightarrow> (string \<times> nat) list \<Rightarrow> nat list \<Rightarrow> nat \<Rightarrow> transcript_record" where
  "relinked recs ix removed i =
     (if i \<in> set removed then recs ! i
      else (case tr_parent_uuid (recs ! i) of
              None \<Rightarrow> recs ! i
            | Some parent \<Rightarrow>
                (case nearest_surviving_parent recs ix removed [] parent of
                   None \<Rightarrow> recs ! i
                 | Some p \<Rightarrow> if p \<noteq> parent then set_parent p (recs ! i) else recs ! i)))"

lemma relink_loop:
  assumes "k \<le> length recs" and "\<And>i. i \<in> set removed \<Longrightarrow> i < length recs"
  shows "fst (fold (relink_one ix removed) [0..<k] (recs, c)) =
           map (\<lambda>i. if i < k then relinked recs ix removed i else recs ! i) [0..<length recs]"
  using assms(1)
proof (induction k)
  case 0
  then show ?case by (simp add: map_nth)
next
  case (Suc k)
  define now where
    "now = map (\<lambda>i. if i < k then relinked recs ix removed i else recs ! i) [0..<length recs]"
  obtain c' where now: "fold (relink_one ix removed) [0..<k] (recs, c) = (now, c')"
    using Suc by (cases "fold (relink_one ix removed) [0..<k] (recs, c)") (simp add: now_def)
  have k: "now ! k = recs ! k" "k < length now" using Suc.prems by (simp_all add: now_def)
  have "nearest_surviving_parent now ix removed [] p = nearest_surviving_parent recs ix removed [] p" for p
    using assms(2) by (intro nearest_cong) (auto simp: now_def relinked_def)
  moreover have "now[k := recs ! k] = now" by (simp add: k(1) [symmetric])
  ultimately have "fst (relink_one ix removed k (now, c')) = now[k := relinked recs ix removed k]"
    using k by (auto simp: relink_one_def relinked_def split: option.splits)
  also have "\<dots> = map (\<lambda>i. if i < Suc k then relinked recs ix removed i else recs ! i) [0..<length recs]"
    by (rule nth_equalityI) (auto simp: now_def nth_list_update less_Suc_eq)
  finally show ?case by (simp add: now)
qed

lemma relink_parents_relinked:
  assumes "\<And>i. i \<in> set removed \<Longrightarrow> i < length recs"
  shows "fst (relink_parents recs removed) =
           map (relinked recs (uuid_to_idx recs) removed) [0..<length recs]"
  using relink_loop [of "length recs" recs removed "uuid_to_idx recs" 0] assms
  by (simp add: relink_parents_def cong: map_cong)

lemma map_of_json_insert: "map_of (json_insert k v kvs) = (map_of kvs)(k \<mapsto> v)"
  by (induction k v kvs rule: json_insert.induct) auto

lemma set_parent_get:
  assumes "tr_value r = JObj kvs"
  shows "json_get key (tr_value (set_parent p r)) =
           (if key = ''parentUuid'' then Some (JStr p) else json_get key (tr_value r))"
  using assms by (simp add: set_parent_def json_get_def map_of_json_insert)

lemma json_insert_leaves:
  "set (json_leaves (JObj (json_insert k v kvs))) \<subseteq> set (json_leaves v) \<union> set (json_leaves (JObj kvs))"
  by (induction k v kvs rule: json_insert.induct) auto

lemma json_str_at: "Option.bind w json_str = Some u \<longleftrightarrow> w = Some (JStr u)"
  by (cases w) (auto simp: json_str_def split: json.splits)

lemma set_parent_leaves:
  "set (json_leaves (tr_value (set_parent p r))) \<subseteq> insert p (set (json_leaves (tr_value r)))"
proof (cases "tr_value r")
  case (JObj kvs)
  with json_insert_leaves [of "''parentUuid''" "JStr p" kvs] show ?thesis
    by (simp add: set_parent_def del: json_leaves_Obj)
qed (auto simp: set_parent_def)

text \<open>A relinked name is the parent some record had when the transcript was read.\<close>

lemma climbs_target:
  "climbs recs ix removed p n s \<Longrightarrow> s = p \<or> (\<exists>i \<in> set removed. tr_parent_uuid (recs ! i) = Some s)"
  by (induction rule: climbs.induct) auto

text \<open>
  C32: relinking moves the parent of every surviving record past the removed ones, to the nearest
  name no removed record has, and ends on every transcript, cyclic ones included.  A record whose
  chain of removed parents ends without such a name (a removed root, or a cycle) keeps the parent it
  had; a record whose parent was not removed is unchanged, and no member but \<open>parentUuid\<close> ever is.
\<close>

theorem relinking_follows_removed_parents:
  assumes "\<forall>j \<in> set removed. j < length recs"
    and "i < length recs" and "i \<notin> set removed"
    and "tr_value (recs ! i) = JObj kvs" and "tr_parent_uuid (recs ! i) = Some p"
  shows "length (fst (relink_parents recs removed)) = length recs \<and>
         (let ix = uuid_to_idx recs; rec = fst (relink_parents recs removed) ! i in
            (\<forall>k s. climbs recs ix removed p k s \<longrightarrow>
               (if s = p then rec = recs ! i
                else tr_parent_uuid rec = Some s \<and>
                     json_get ''parentUuid'' (tr_value rec) = Some (JStr s))) \<and>
            ((\<nexists>k s. climbs recs ix removed p k s) \<longrightarrow> rec = recs ! i) \<and>
            (\<forall>key. key \<noteq> ''parentUuid'' \<longrightarrow>
               json_get key (tr_value rec) = json_get key (tr_value (recs ! i))))"
proof -
  let ?ix = "uuid_to_idx recs"
  have loop: "fst (relink_parents recs removed) = map (relinked recs ?ix removed) [0..<length recs]"
    by (rule relink_parents_relinked) (use assms(1) in blast)
  then have rec: "fst (relink_parents recs removed) ! i = relinked recs ?ix removed i"
    using assms(2) by simp
  have unchanged: "relinked recs ?ix removed i = recs ! i" if "\<nexists>k s. climbs recs ?ix removed p k s"
    using that assms(3,5) nearest_iff [of recs ?ix removed p]
    by (cases "nearest_surviving_parent recs ?ix removed [] p") (auto simp: relinked_def)
  have moved: "relinked recs ?ix removed i = (if s = p then recs ! i else set_parent s (recs ! i))"
    if "climbs recs ?ix removed p k s" for k s
    using that assms(3,5) nearest_iff [of recs ?ix removed p s] by (auto simp: relinked_def)
  have new: "tr_parent_uuid (set_parent s r) = Some s" for s r by (simp add: set_parent_def)
  have "json_get key (tr_value (relinked recs ?ix removed i)) = json_get key (tr_value (recs ! i))"
    if "key \<noteq> ''parentUuid''" for key
    using unchanged moved set_parent_get [OF assms(4)] that
    by (cases "\<exists>k s. climbs recs ?ix removed p k s") (auto split: if_splits)
  moreover have "length (fst (relink_parents recs removed)) = length recs" by (simp add: loop)
  ultimately show ?thesis
    unfolding Let_def rec using unchanged moved new set_parent_get [OF assms(4)] by auto
qed

theorem relinking_follows_removed_parents_witness:
  "let recs = map record_of
         [JObj [(''uuid'', JStr ''u1'')],
          JObj [(''uuid'', JStr ''t1''), (''parentUuid'', JStr ''u1'')],
          JObj [(''uuid'', JStr ''a1''), (''parentUuid'', JStr ''t1'')]] in
     json_get ''parentUuid'' (tr_value (fst (relink_parents recs [1]) ! 2)) = Some (JStr ''u1'')"
proof -
  define recs where "recs = map record_of
         [JObj [(''uuid'', JStr ''u1'')],
          JObj [(''uuid'', JStr ''t1''), (''parentUuid'', JStr ''u1'')],
          JObj [(''uuid'', JStr ''a1''), (''parentUuid'', JStr ''t1'')]]"
  then have recs: "recs =
      [\<lparr>tr_value = JObj [(''uuid'', JStr ''u1'')], tr_uuid = Some ''u1'', tr_parent_uuid = None\<rparr>,
       \<lparr>tr_value = JObj [(''uuid'', JStr ''t1''), (''parentUuid'', JStr ''u1'')], tr_uuid = Some ''t1'',
        tr_parent_uuid = Some ''u1''\<rparr>,
       \<lparr>tr_value = JObj [(''uuid'', JStr ''a1''), (''parentUuid'', JStr ''t1'')], tr_uuid = Some ''a1'',
        tr_parent_uuid = Some ''t1''\<rparr>]"
    by (simp add: record_of_def json_get_def json_str_def)
  have index: "map_of (uuid_to_idx recs) ''t1'' = Some 1" "map_of (uuid_to_idx recs) ''u1'' = Some 0"
    by (simp_all add: recs uuid_to_idx_def upt_conv_Cons)
  have "climbs recs (uuid_to_idx recs) [1] ''u1'' 0 ''u1''"
    by (rule climbs_here) (simp add: index)
  with index have "climbs recs (uuid_to_idx recs) [1] ''t1'' (Suc 0) ''u1''"
    by (intro climbs_past [where i = 1]) (simp_all add: recs)
  moreover note relinking_follows_removed_parents
    [of "[1]" recs 2 "[(''uuid'', JStr ''a1''), (''parentUuid'', JStr ''t1'')]" "''t1''",
      THEN conjunct2, unfolded Let_def, THEN conjunct1, rule_format, of "Suc 0" "''u1''"]
  ultimately have "json_get ''parentUuid'' (tr_value (fst (relink_parents recs [1]) ! 2)) = Some (JStr ''u1'')"
    by (simp add: recs)
  then show ?thesis by (simp only: Let_def recs_def [symmetric])
qed

section \<open>What is left of the values\<close>

lemma thinking_after_less: "i \<in> set (thinking_after e recs) \<Longrightarrow> i < length recs"
  by (simp add: thinking_after_def Let_def)

text \<open>
  C33: no registered value is left in any string of a scrubbed transcript, when the replacement
  shares no byte with the values and, where thinking records are dropped, no value occurs in the
  name of a parent.
\<close>

theorem scrub_leaves_no_value:
  assumes "scrubbable (so_values opts) (so_replacement opts)"
    and "so_drop_thinking opts \<longrightarrow>
           (\<forall>v \<in> set vs. \<forall>u n. json_get ''parentUuid'' v = Some (JStr u) \<longrightarrow> n \<in> set (so_values opts) \<longrightarrow>
              n \<noteq> [] \<longrightarrow> \<not> sublist n u)"
    and "v \<in> set (fst (scrub_records opts (map record_of vs)))"
    and "s \<in> set (json_leaves v)" and "n \<in> set (so_values opts)" and "n \<noteq> []"
  shows "\<not> sublist n s"
proof -
  let ?ns = "filter (\<lambda>v. v \<noteq> []) (so_values opts)" and ?r = "so_replacement opts"
  define red where "red = map (redact_record ?ns ?r) (map record_of vs)"
  define recs where "recs = map fst red"
  define removed where "removed =
    (if so_drop_thinking opts then thinking_after (earliest_redacted (map snd red)) recs else [])"
  have ns: "scrubbable ?ns ?r" "n \<in> set ?ns"
    using assms(1,5,6) by (auto simp: scrubbable_def list_all_iff)
  have clean: "\<not> sublist n t" if "rec \<in> set recs" "t \<in> set (json_leaves (tr_value rec))" for rec t
    using that redact_strings_removes [OF ns assms(6)]
    by (auto simp: recs_def red_def redact_record_def Let_def case_prod_unfold)
  have parent: "\<not> sublist n u" if "so_drop_thinking opts" "rec \<in> set recs" "tr_parent_uuid rec = Some u" for rec u
    using that assms(2,5,6)
    by (auto simp: recs_def red_def redact_record_def Let_def case_prod_unfold record_of_def
        json_str_at)
  have "\<not> sublist n s" if i: "i < length recs" and s: "s \<in> set (json_leaves (tr_value (relinked recs ix removed i)))" for i ix
  proof (cases "relinked recs ix removed i = recs ! i")
    case True
    with i s clean [of "recs ! i" s] show ?thesis by simp
  next
    case False
    then obtain p q where pq: "tr_parent_uuid (recs ! i) = Some p"
        "nearest_surviving_parent recs ix removed [] p = Some q" "p \<noteq> q"
        "relinked recs ix removed i = set_parent q (recs ! i)"
      by (auto simp: relinked_def split: if_splits option.splits)
    from nearest_sound [OF pq(2)] climbs_target pq(3)
    obtain j where j: "j \<in> set removed" "tr_parent_uuid (recs ! j) = Some q" by metis
    then have "so_drop_thinking opts" "j < length recs"
      by (auto simp: removed_def thinking_after_less split: if_splits)
    with parent [of "recs ! j" q] j have "\<not> sublist n q" by simp
    with i s pq(4) set_parent_leaves [of q "recs ! i"] clean [of "recs ! i"] show ?thesis by auto
  qed
  moreover have "\<exists>i < length recs. v = tr_value (recs ! i) \<or>
      v = tr_value (relinked recs (uuid_to_idx recs) removed i)"
  proof -
    have "fst (relink_parents recs removed) = map (relinked recs (uuid_to_idx recs) removed) [0..<length recs]"
      by (rule relink_parents_relinked) (auto simp: removed_def thinking_after_less split: if_splits)
    moreover have "fst (scrub_records opts (map record_of vs)) =
        (let recs' = fst (if removed = [] then (recs, 0) else relink_parents recs removed) in
           map (\<lambda>i. tr_value (recs' ! i)) (filter (\<lambda>i. i \<notin> set removed) [0..<length recs']))"
      by (simp only: scrub_records_def Let_def red_def recs_def removed_def case_prod_unfold fst_conv)
    ultimately show ?thesis
      using assms(3) by (auto simp: Let_def split: if_splits)
  qed
  ultimately show ?thesis using assms(4) clean by (meson nth_mem)
qed

theorem scrub_leaves_no_value_witness:
  "\<not> sublist ''bob'' (''hi '' @ ''[REDACTED]'')"
proof -
  let ?opts = "\<lparr>so_values = [''bob''], so_replacement = ''[REDACTED]'', so_drop_thinking = False\<rparr>"
  let ?vs = "[JObj [(''content'', JStr ''hi bob'')]]"
  have "JObj [(''content'', JStr (''hi '' @ ''[REDACTED]''))] \<in> set (fst (scrub_records ?opts (map record_of ?vs)))"
    by (simp add: scrub_records_def redact_record_def record_of_def Let_def str_replace_def)
  then show ?thesis
    using scrub_leaves_no_value [of ?opts ?vs "JObj [(''content'', JStr (''hi '' @ ''[REDACTED]''))]"
        "''hi '' @ ''[REDACTED]''" "''bob''"]
    by (simp add: scrubbable_def)
qed

text \<open>
  The two places where a value stays.  The names of object members are never looked at; and a
  value inside a record's own name is written back when a surviving child is relinked to it, since
  the names are noted before the redaction: the child then names a record whose own name the
  redaction has changed.
\<close>

lemma scrub_blind_spots:
  "fst (scrub_records
     \<lparr>so_values = [''bob''], so_replacement = ''X'', so_drop_thinking = True\<rparr>
     (map record_of [JObj [(''bob'', JStr ''bob'')]])) = [JObj [(''bob'', JStr ''X'')]] \<and>
   fst (scrub_records
     \<lparr>so_values = [''bob''], so_replacement = ''X'', so_drop_thinking = True\<rparr>
     (map record_of
       [JObj [(''uuid'', JStr ''bob-1'')],
        JObj [(''uuid'', JStr ''t''), (''parentUuid'', JStr ''bob-1''),
              (''message'', JObj [(''role'', JStr ''assistant''),
                 (''content'', JArr [JObj [(''type'', JStr ''thinking'')]])])],
        JObj [(''uuid'', JStr ''a''), (''parentUuid'', JStr ''t'')]])) =
     [JObj [(''uuid'', JStr ''X-1'')],
      JObj [(''uuid'', JStr ''a''), (''parentUuid'', JStr ''bob-1'')]]"
  apply (rule conjI)
  subgoal
    by (simp add: scrub_records_def redact_record_def record_of_def Let_def str_replace_def
        thinking_after_def earliest_redacted_def is_standalone_thinking_record_def json_get_def)
  subgoal
    by code_simp
  done

section \<open>The file\<close>

lemma digit_last: "dec_string n \<noteq> [] \<and> last (dec_string n) \<noteq> CHR ''p''"
proof -
  have "char_of (48 + n mod 10) \<noteq> CHR ''p''"
  proof
    assume "char_of (48 + n mod 10) = CHR ''p''"
    then have "code (char_of (48 + n mod 10)) = code (CHR ''p'')" by simp
    moreover have "48 + n mod 10 < 58" by simp
    ultimately show False by (simp add: code_def)
  qed
  then show ?thesis by (subst (1 2) dec_string.simps) auto
qed

lemma backup_free:
  assumes "\<exists>n < 1000. fl_at fs (backup_candidate path n) = None"
  shows "\<exists>n. backup_path fs path = backup_candidate path n \<and> fl_at fs (backup_path fs path) = None"
proof -
  have "find (\<lambda>n. fl_at fs (backup_candidate path n) = None) [0..<1000] \<noteq> None"
    using assms by (auto simp: find_None_iff)
  then obtain n where n: "find (\<lambda>n. fl_at fs (backup_candidate path n) = None) [0..<1000] = Some n"
    by blast
  then have "fl_at fs (backup_candidate path n) = None" by (auto simp: find_Some_iff)
  with n show ?thesis by (auto simp: backup_path_def)
qed

lemma scrub_names_differ:
  fixes path :: string
  defines "tmp \<equiv> with_extension
    ((case path_extension path of None \<Rightarrow> ''jsonl'' | Some e \<Rightarrow> e) @ ''.tmp'') path"
  shows "tmp \<noteq> path" and "backup_candidate path n \<noteq> path" and "backup_candidate path n \<noteq> tmp"
proof -
  have "length tmp > length path"
    using path_extension_length [of path]
    by (auto simp: tmp_def with_extension_def split: option.splits)
  then show "tmp \<noteq> path" by blast
  show "backup_candidate path n \<noteq> path" by (simp add: backup_candidate_def)
  have "last tmp = CHR ''p''" by (simp add: tmp_def with_extension_def)
  moreover have "last (backup_candidate path n) \<noteq> CHR ''p''"
    using digit_last [of n] by (simp add: backup_candidate_def)
  ultimately show "backup_candidate path n \<noteq> tmp" by metis
qed

text \<open>
  C31: scrubbing a file never loses the transcript.  Whatever fails (the reading, a line, a write
  that leaves a torn file, the rename), the transcript still says what it said; and when the scrub
  is made, the report names a backup, at a name that was free, that says what the transcript said,
  and the transcript holds the scrubbed text.
\<close>

theorem scrub_file_keeps_original:
  assumes "read_to_string fs path = Some original"
    and "\<exists>n < 1000. fl_at fs (backup_candidate path n) = None"
    and "scrub_file X J refuses_rename path opts dry_run fs = (res, fs')"
  shows "fl_at fs' path = Some (FileText original) \<or>
         (\<exists>report backup out report'.
            res = Inr report \<and> sr_backup_path report = Some backup \<and> fl_at fs backup = None \<and>
            fl_at fs' backup = Some (FileText original) \<and>
            scrub_jsonl X J original opts = Inr (out, report') \<and> out \<noteq> [] \<and>
            fl_at fs' path =
              Some (FileText (if last out = CHR 0x0A then out else out @ [CHR 0x0A])))"
    (is "?kept \<or> ?replaced")
proof -
  obtain n where n: "backup_path fs path = backup_candidate path n"
      "fl_at fs (backup_candidate path n) = None"
    using backup_free [OF assms(2)] by auto
  have at: "fl_at fs path = Some (FileText original)"
    using assms(1) by (auto simp: read_to_string_def split: option.splits file_content.splits)
  have "backup_path fs path \<noteq> path" using n(1) scrub_names_differ(2) by simp
  note differ = this this [symmetric] scrub_names_differ [of path]
    scrub_names_differ(2,3) [of path, symmetric]
  show ?thesis
  proof (cases "fst (scrub_file X J refuses_rename path opts dry_run fs)")
    case (Inl e)
    then have "?kept"
      using assms(1,3) at differ
      by (auto simp: scrub_file_def write_file_def Let_def split: sum.splits option.splits prod.splits if_splits)
    then show ?thesis ..
  next
    case (Inr r)
    then show ?thesis
      using assms(1,3) at differ n
      by (auto simp: scrub_file_def write_file_def Let_def split: sum.splits option.splits prod.splits if_splits)
  qed
qed

theorem scrub_file_keeps_original_witness:
  "let fs = \<lparr>fl_at = [''t.jsonl'' \<mapsto> FileText ''bob''], fl_refuses = (\<lambda>_. None), fl_no_parent = (\<lambda>_. False)\<rparr>;
       fs' = snd (scrub_file sample_ext
         \<lparr>jl_parse = (\<lambda>_. Some (JStr ''bob'')), jl_print = (\<lambda>_. Some ''X'')\<rparr> False ''t.jsonl''
         \<lparr>so_values = [''bob''], so_replacement = ''X'', so_drop_thinking = True\<rparr> False fs) in
   \<exists>path. fl_at fs' path = Some (FileText ''bob'')"
proof -
  let ?fs = "\<lparr>fl_at = [''t.jsonl'' \<mapsto> FileText ''bob''], fl_refuses = (\<lambda>_. None), fl_no_parent = (\<lambda>_. False)\<rparr>"
  have "\<exists>n < 1000. fl_at ?fs (backup_candidate ''t.jsonl'' n) = None"
    by (rule exI [of _ 0]) (simp add: backup_candidate_def)
  from scrub_file_keeps_original [OF _ this prod.collapse [symmetric], of "''bob''"]
  show ?thesis by (fastforce simp: read_to_string_def Let_def)
qed

end
