(* ===== verification/LaunchLock.thy ===== *)
theory LaunchLock
  imports Prelude
begin

text \<open>
  The launch lock of crates/zlauder-state/src/lib.rs: one file per project, created by a hard link
  that fails when it exists, read and judged when it does, renamed aside when its holder is dead or
  it is past its term, and removed when the guard is dropped.  Each file operation is one step, so
  that launchers interleave between them.
\<close>

section \<open>The lock file\<close>

definition launch_lock_ttl_secs :: nat where
  "launch_lock_ttl_secs = 30"

record lock_body =
  lb_pid :: nat
  lb_nonce :: string
  lb_started_unix :: nat

text \<open>What is at the lock's path: a body, or bytes that are not one.\<close>

datatype lock_file = LockOf lock_body | NotALock

definition read_lock :: "lock_file option \<Rightarrow> lock_body option" where
  "read_lock f = (case f of Some (LockOf b) \<Rightarrow> Some b | _ \<Rightarrow> None)"

text \<open>
  \<open>try_create_lock\<close>: the body is written to a name of this process's own and linked to the path.
\<close>

definition try_create_lock :: "lock_file option \<Rightarrow> lock_body \<Rightarrow> bool \<times> lock_file option" where
  "try_create_lock f body =
     (case f of None \<Rightarrow> (True, Some (LockOf body)) | Some _ \<Rightarrow> (False, f))"

definition expired :: "nat \<Rightarrow> lock_body \<Rightarrow> bool" where
  "expired now b \<longleftrightarrow> launch_lock_ttl_secs < now - lb_started_unix b"

text \<open>\<open>pid_alive\<close> refuses pid 0; otherwise the system is asked.\<close>

definition pid_alive :: "(nat \<Rightarrow> bool) \<Rightarrow> nat \<Rightarrow> bool" where
  "pid_alive alive pid \<longleftrightarrow> pid \<noteq> 0 \<and> alive pid"

definition reclaimable :: "(nat \<Rightarrow> bool) \<Rightarrow> nat \<Rightarrow> lock_body \<Rightarrow> bool" where
  "reclaimable alive now b \<longleftrightarrow> \<not> pid_alive alive (lb_pid b) \<or> expired now b"

section \<open>One launcher\<close>

text \<open>
  Where a launcher is: before its next file operation (\<open>Linking\<close>, \<open>Reading\<close>, \<open>Relinking\<close>,
  \<open>Renaming\<close>, \<open>Claimed\<close>, \<open>Dropping\<close>, \<open>Removing\<close>), holding the guard, or done with the
  answer that another holds it or that an operation failed.  A removal carries what the drop's check
  read.
\<close>

datatype launcher =
    Idle
  | Linking lock_body
  | Reading lock_body
  | Relinking lock_body
  | Renaming lock_body lock_body
  | Claimed lock_body
  | Holder lock_body
  | Dropping lock_body
  | Removing lock_body "lock_file option"
  | Yielded
  | Failed
  | Released

definition won :: "lock_body \<Rightarrow> bool \<times> lock_file option \<Rightarrow> launcher \<Rightarrow> launcher \<times> lock_file option" where
  "won body r otherwise = (if fst r then Holder body else otherwise, snd r)"

text \<open>
  The next file operation of \<open>try_launch_lock\<close>, or of the guard's \<open>drop\<close>, with the clock and the
  process table it sees.  A guard is held for as long as its owner likes.
\<close>

fun launch_next ::
  "(nat \<Rightarrow> bool) \<Rightarrow> nat \<Rightarrow> lock_file option \<Rightarrow> launcher \<Rightarrow> launcher \<times> lock_file option" where
  "launch_next alive now f (Linking body) = won body (try_create_lock f body) (Reading body)"
| "launch_next alive now f (Reading body) =
     (case read_lock f of
        None \<Rightarrow> (Relinking body, f)
      | Some existing \<Rightarrow>
          if reclaimable alive now existing then (Renaming body existing, f) else (Yielded, f))"
| "launch_next alive now f (Relinking body) = won body (try_create_lock f body) Yielded"
| "launch_next alive now f (Renaming body existing) =
     (case f of None \<Rightarrow> (Yielded, f) | Some _ \<Rightarrow> (Claimed body, None))"
| "launch_next alive now f (Claimed body) = won body (try_create_lock f body) Yielded"
| "launch_next alive now f (Dropping body) =
     ((if map_option lb_nonce (read_lock f) = Some (lb_nonce body) then Removing body f else Released), f)"
| "launch_next alive now f (Removing body seen) = (Released, None)"
| "launch_next alive now f pc = (pc, f)"

text \<open>The call undisturbed by other launchers: at most five operations.\<close>

fun launch_run ::
  "nat \<Rightarrow> (nat \<Rightarrow> bool) \<Rightarrow> nat \<Rightarrow> lock_file option \<Rightarrow> launcher \<Rightarrow> launcher \<times> lock_file option" where
  "launch_run 0 alive now f pc = (pc, f)"
| "launch_run (Suc n) alive now f pc =
     (let (pc', f') = launch_next alive now f pc in launch_run n alive now f' pc')"

definition try_launch_lock ::
  "(nat \<Rightarrow> bool) \<Rightarrow> nat \<Rightarrow> nat \<Rightarrow> string \<Rightarrow> lock_file option \<Rightarrow> launcher \<times> lock_file option" where
  "try_launch_lock alive now pid nonce f =
     launch_run 4 alive now f
       (Linking \<lparr>lb_pid = pid, lb_nonce = nonce, lb_started_unix = now\<rparr>)"

definition drop_guard :: "lock_body \<Rightarrow> lock_file option \<Rightarrow> lock_file option" where
  "drop_guard body f = snd (launch_run 2 (\<lambda>_. True) 0 f (Dropping body))"

section \<open>Launchers together\<close>

text \<open>
  Launchers are numbered; \<open>pid\<close> and \<open>nonce\<close> name them.  The clock does not go back, and the
  process table may change in any way that keeps the launchers that are running alive.  An operation
  may fail, which ends the call.  A launcher that crashes leaves what it wrote.
\<close>

record lock_world =
  lw_file :: "lock_file option"
  lw_clock :: nat
  lw_alive :: "nat \<Rightarrow> bool"
  lw_at :: "nat \<Rightarrow> launcher"

definition running :: "launcher \<Rightarrow> bool" where
  "running pc \<longleftrightarrow> pc \<notin> {Idle, Yielded, Failed, Released}"

inductive launch_step :: "(nat \<Rightarrow> nat) \<Rightarrow> (nat \<Rightarrow> string) \<Rightarrow> lock_world \<Rightarrow> lock_world \<Rightarrow> bool"
  for pid nonce where
  step_call:
    "lw_at w i = Idle \<Longrightarrow> pid_alive (lw_alive w) (pid i) \<Longrightarrow>
     launch_step pid nonce w
       (w\<lparr>lw_at := (lw_at w)(i := Linking
          \<lparr>lb_pid = pid i, lb_nonce = nonce i, lb_started_unix = lw_clock w\<rparr>)\<rparr>)"
| step_next:
    "launch_next (lw_alive w) (lw_clock w) (lw_file w) (lw_at w i) = (pc, f) \<Longrightarrow>
     launch_step pid nonce w (w\<lparr>lw_at := (lw_at w)(i := pc), lw_file := f\<rparr>)"
| step_drop:
    "lw_at w i = Holder body \<Longrightarrow>
     launch_step pid nonce w (w\<lparr>lw_at := (lw_at w)(i := Dropping body)\<rparr>)"
| step_fail:
    "launch_step pid nonce w (w\<lparr>lw_at := (lw_at w)(i := Failed)\<rparr>)"
| step_system:
    "lw_clock w \<le> now \<Longrightarrow> (\<And>i. running (lw_at w i) \<Longrightarrow> pid_alive alive (pid i)) \<Longrightarrow>
     launch_step pid nonce w (w\<lparr>lw_clock := now, lw_alive := alive\<rparr>)"

text \<open>
  A step is undisturbed when nothing came between a launcher's reading of the file and its taking it
  away: a reclaim renames the lock it judged, and a drop removes the content its check read, whatever
  that is, or finds it gone.
\<close>

definition undisturbed :: "lock_world \<Rightarrow> lock_world \<Rightarrow> bool" where
  "undisturbed v w \<longleftrightarrow>
     (\<forall>i body existing. lw_at v i = Renaming body existing \<longrightarrow> lw_at w i = Claimed body \<longrightarrow>
        lw_file v = Some (LockOf existing)) \<and>
     (\<forall>i body seen. lw_at v i = Removing body seen \<longrightarrow> lw_at w i = Released \<longrightarrow>
        lw_file v = seen \<or> lw_file v = None)"

inductive launches :: "(nat \<Rightarrow> nat) \<Rightarrow> (nat \<Rightarrow> string) \<Rightarrow> lock_world \<Rightarrow> lock_world \<Rightarrow> bool"
  for pid nonce where
  launches_none: "launches pid nonce w w"
| launches_step: "launches pid nonce u v \<Longrightarrow> launch_step pid nonce v w \<Longrightarrow> launches pid nonce u w"

inductive calm_launches :: "(nat \<Rightarrow> nat) \<Rightarrow> (nat \<Rightarrow> string) \<Rightarrow> lock_world \<Rightarrow> lock_world \<Rightarrow> bool"
  for pid nonce where
  calm_none: "calm_launches pid nonce w w"
| calm_step:
    "calm_launches pid nonce u v \<Longrightarrow> launch_step pid nonce v w \<Longrightarrow> undisturbed v w \<Longrightarrow>
     calm_launches pid nonce u w"

text \<open>Before the launchers: none has called, and the file, if any, is no launcher's.\<close>

definition lock_start :: "(nat \<Rightarrow> string) \<Rightarrow> lock_world \<Rightarrow> bool" where
  "lock_start nonce w \<longleftrightarrow>
     (\<forall>i. lw_at w i = Idle) \<and> (\<forall>i b. lw_file w = Some (LockOf b) \<longrightarrow> lb_nonce b \<noteq> nonce i)"

section \<open>The invariant\<close>

fun own_body :: "launcher \<Rightarrow> lock_body option" where
  "own_body (Linking b) = Some b"
| "own_body (Reading b) = Some b"
| "own_body (Relinking b) = Some b"
| "own_body (Renaming b e) = Some b"
| "own_body (Claimed b) = Some b"
| "own_body (Holder b) = Some b"
| "own_body (Dropping b) = Some b"
| "own_body (Removing b s) = Some b"
| "own_body _ = None"

fun before_win :: "launcher \<Rightarrow> bool" where
  "before_win Idle = True"
| "before_win (Linking b) = True"
| "before_win (Reading b) = True"
| "before_win (Relinking b) = True"
| "before_win (Renaming b e) = True"
| "before_win (Claimed b) = True"
| "before_win _ = False"

text \<open>
  A launcher's body carries its name and its live process; the bodies seen at the path, or read
  there, are of no launcher that has still to win; a guard's body is at the path, or is expired; a
  guard whose body a reclaim is about to move is expired; and a drop that is about to remove read its
  own name.
\<close>

definition bodies_named :: "(nat \<Rightarrow> nat) \<Rightarrow> (nat \<Rightarrow> string) \<Rightarrow> lock_world \<Rightarrow> bool" where
  "bodies_named pid nonce w \<longleftrightarrow>
     (\<forall>i b. own_body (lw_at w i) = Some b \<longrightarrow> lb_nonce b = nonce i \<and> lb_pid b = pid i)"

definition runners_alive :: "(nat \<Rightarrow> nat) \<Rightarrow> lock_world \<Rightarrow> bool" where
  "runners_alive pid w \<longleftrightarrow> (\<forall>i. running (lw_at w i) \<longrightarrow> pid_alive (lw_alive w) (pid i))"

definition seen_are_winners :: "(nat \<Rightarrow> string) \<Rightarrow> lock_world \<Rightarrow> bool" where
  "seen_are_winners nonce w \<longleftrightarrow>
     (\<forall>j. before_win (lw_at w j) \<longrightarrow>
        (\<forall>b. lw_file w = Some (LockOf b) \<longrightarrow> lb_nonce b \<noteq> nonce j) \<and>
        (\<forall>i b e. lw_at w i = Renaming b e \<longrightarrow> lb_nonce e \<noteq> nonce j))"

definition guards_hold :: "lock_world \<Rightarrow> bool" where
  "guards_hold w \<longleftrightarrow>
     (\<forall>i b. lw_at w i = Holder b \<longrightarrow> lw_file w = Some (LockOf b) \<or> expired (lw_clock w) b)"

definition reclaims_expired :: "lock_world \<Rightarrow> bool" where
  "reclaims_expired w \<longleftrightarrow>
     (\<forall>i j b e. lw_at w i = Renaming b e \<longrightarrow> lw_at w j = Holder e \<longrightarrow> expired (lw_clock w) e)"

definition removals_own :: "lock_world \<Rightarrow> bool" where
  "removals_own w \<longleftrightarrow>
     (\<forall>i b seen. lw_at w i = Removing b seen \<longrightarrow>
        (\<exists>own. seen = Some (LockOf own) \<and> lb_nonce own = lb_nonce b))"

lemmas lock_inv_defs = bodies_named_def runners_alive_def seen_are_winners_def guards_hold_def
  reclaims_expired_def removals_own_def

definition lock_inv :: "(nat \<Rightarrow> nat) \<Rightarrow> (nat \<Rightarrow> string) \<Rightarrow> lock_world \<Rightarrow> bool" where
  "lock_inv pid nonce w \<longleftrightarrow>
     bodies_named pid nonce w \<and> runners_alive pid w \<and> seen_are_winners nonce w \<and> guards_hold w \<and>
     reclaims_expired w \<and> removals_own w"

lemma expired_mono: "expired now b \<Longrightarrow> now \<le> now' \<Longrightarrow> expired now' b"
  by (auto simp: expired_def)

lemma lock_inv_start: "lock_start nonce w \<Longrightarrow> lock_inv pid nonce w"
  by (auto simp: lock_inv_def lock_inv_defs lock_start_def running_def)

text \<open>The states a launcher's move leads to, and what it does to the file.\<close>

lemma launch_next_cases:
  assumes "launch_next alive now f pc = (pc', f')"
  obtains (same) "pc' = pc" "f' = f"
  | (wins) body where "own_body pc = Some body" "before_win pc" "pc' = Holder body"
      "f = None" "f' = Some (LockOf body)"
  | (moves) body where "own_body pc = Some body" "before_win pc" "pc' = Reading body \<or> pc' = Relinking body" "f' = f"
  | (ends) "pc' = Yielded \<or> pc' = Released" "f' = f"
  | (judges) body existing where "pc = Reading body" "f = Some (LockOf existing)"
      "reclaimable alive now existing" "pc' = Renaming body existing" "f' = f"
  | (claims) body existing where "pc = Renaming body existing" "pc' = Claimed body" "f' = None"
  | (checks) body own where "pc = Dropping body" "pc' = Removing body f" "f' = f"
      "f = Some (LockOf own)" "lb_nonce own = lb_nonce body"
  | (removes) body seen where "pc = Removing body seen" "pc' = Released" "f' = None"
  using assms
  by (cases pc) (auto simp: won_def try_create_lock_def read_lock_def
      split: option.splits lock_file.splits if_splits)

lemma launch_next_own:
  assumes "launch_next alive now f pc = (pc', f')"
  shows "own_body pc' = Some b \<Longrightarrow> own_body pc = Some b"
    and "running pc' \<Longrightarrow> running pc" and "before_win pc' \<Longrightarrow> before_win pc"
  by (rule launch_next_cases [OF assms]; auto simp: running_def split: if_splits)+

text \<open>Each conjunct is kept by a launcher's move.\<close>

lemma next_keeps_names:
  assumes "launch_next (lw_alive w) (lw_clock w) (lw_file w) (lw_at w i) = (pc, f)"
    and "bodies_named pid nonce w" and "runners_alive pid w"
  shows "bodies_named pid nonce (w\<lparr>lw_at := (lw_at w)(i := pc), lw_file := f\<rparr>)"
    and "runners_alive pid (w\<lparr>lw_at := (lw_at w)(i := pc), lw_file := f\<rparr>)"
  using assms(2,3) launch_next_own [OF assms(1)] by (auto simp: bodies_named_def runners_alive_def)

lemma next_keeps_winners:
  assumes move: "launch_next (lw_alive w) (lw_clock w) (lw_file w) (lw_at w i) = (pc, f)"
    and "inj nonce" and names: "bodies_named pid nonce w" and winners: "seen_are_winners nonce w"
  shows "seen_are_winners nonce (w\<lparr>lw_at := (lw_at w)(i := pc), lw_file := f\<rparr>)"
proof (rule launch_next_cases [OF move])
  fix body
  assume wins: "own_body (lw_at w i) = Some body" "before_win (lw_at w i)" "pc = Holder body"
    "lw_file w = None" "f = Some (LockOf body)"
  then have "lb_nonce body = nonce i" using names by (auto simp: bodies_named_def)
  then have "lb_nonce body \<noteq> nonce j" if "j \<noteq> i" for j using that \<open>inj nonce\<close> by (auto dest: injD)
  with wins winners show ?thesis by (auto simp: seen_are_winners_def)
next
  fix body existing
  assume "lw_at w i = Reading body" "lw_file w = Some (LockOf existing)" "pc = Renaming body existing" "f = lw_file w"
  then show ?thesis using winners by (auto simp: seen_are_winners_def)
qed (use winners in \<open>auto simp: seen_are_winners_def dest: launch_next_own(3) [OF move] split: if_splits\<close>)

lemma next_keeps_guards:
  assumes move: "launch_next (lw_alive w) (lw_clock w) (lw_file w) (lw_at w i) = (pc, f)"
    and "inj nonce" and names: "bodies_named pid nonce w" and guards: "guards_hold w"
    and reclaims: "reclaims_expired w" and own: "removals_own w"
    and calm: "undisturbed w (w\<lparr>lw_at := (lw_at w)(i := pc), lw_file := f\<rparr>)"
  shows "guards_hold (w\<lparr>lw_at := (lw_at w)(i := pc), lw_file := f\<rparr>)"
proof (rule launch_next_cases [OF move])
  fix body existing
  assume claims: "lw_at w i = Renaming body existing" "pc = Claimed body" "f = None"
  with calm have "lw_file w = Some (LockOf existing)" by (auto simp: undisturbed_def)
  with guards reclaims claims(1) have "expired (lw_clock w) b" if "lw_at w j = Holder b" for j b
    using that by (cases "b = existing") (auto simp: guards_hold_def reclaims_expired_def)
  with claims show ?thesis by (auto simp: guards_hold_def)
next
  fix body seen
  assume removes: "lw_at w i = Removing body seen" "pc = Released" "f = None"
  have "expired (lw_clock w) b" if "lw_at w j = Holder b" "j \<noteq> i" for j b
  proof (rule ccontr)
    assume "\<not> expired (lw_clock w) b"
    with that guards have "lw_file w = Some (LockOf b)" by (auto simp: guards_hold_def)
    with calm removes have "seen = Some (LockOf b)" by (auto simp: undisturbed_def)
    with own removes(1) have "lb_nonce b = lb_nonce body" by (auto simp: removals_own_def)
    moreover have "lb_nonce b = nonce j" "lb_nonce body = nonce i"
      using names that removes by (auto simp: bodies_named_def)
    ultimately show False using that \<open>inj nonce\<close> by (auto dest: injD)
  qed
  with removes show ?thesis by (auto simp: guards_hold_def)
qed (use guards in \<open>auto simp: guards_hold_def split: if_splits\<close>)

lemma next_keeps_reclaims:
  assumes move: "launch_next (lw_alive w) (lw_clock w) (lw_file w) (lw_at w i) = (pc, f)"
    and "inj nonce" and names: "bodies_named pid nonce w" and alive: "runners_alive pid w"
    and winners: "seen_are_winners nonce w" and reclaims: "reclaims_expired w"
  shows "reclaims_expired (w\<lparr>lw_at := (lw_at w)(i := pc), lw_file := f\<rparr>)"
proof (rule launch_next_cases [OF move])
  fix body
  assume wins: "own_body (lw_at w i) = Some body" "before_win (lw_at w i)" "pc = Holder body"
  have "lw_at w j \<noteq> Renaming b body" for j b
  proof
    assume "lw_at w j = Renaming b body"
    then have "lb_nonce body \<noteq> nonce i" using winners wins(2) unfolding seen_are_winners_def by blast
    then show False using names wins(1) by (simp add: bodies_named_def)
  qed
  with wins reclaims show ?thesis by (auto simp: reclaims_expired_def)
next
  fix body existing
  assume judges: "lw_at w i = Reading body" "reclaimable (lw_alive w) (lw_clock w) existing"
    "pc = Renaming body existing"
  have "expired (lw_clock w) existing" if "lw_at w j = Holder existing" for j
  proof -
    have "own_body (lw_at w j) = Some existing" "running (lw_at w j)"
      using that by (simp_all add: running_def)
    with names alive have "pid_alive (lw_alive w) (lb_pid existing)"
      unfolding bodies_named_def runners_alive_def by metis
    with judges(2) show ?thesis by (simp add: reclaimable_def)
  qed
  with judges reclaims show ?thesis by (auto simp: reclaims_expired_def)
qed (use reclaims in \<open>auto simp: reclaims_expired_def split: if_splits\<close>)

lemma next_keeps_removals:
  assumes move: "launch_next (lw_alive w) (lw_clock w) (lw_file w) (lw_at w i) = (pc, f)"
    and own: "removals_own w"
  shows "removals_own (w\<lparr>lw_at := (lw_at w)(i := pc), lw_file := f\<rparr>)"
  by (rule launch_next_cases [OF move]; use own in \<open>auto simp: removals_own_def split: if_splits\<close>)

lemma lock_inv_step:
  assumes "launch_step pid nonce v w" and "undisturbed v w" and "inj nonce" and "lock_inv pid nonce v"
  shows "lock_inv pid nonce w"
  using assms
proof (induction rule: launch_step.induct)
  case (step_call w i)
  then show ?case by (auto simp: lock_inv_def lock_inv_defs running_def)
next
  case (step_next w i pc f)
  note moved = step_next.hyps
  from step_next.prems have inv: "bodies_named pid nonce w" "runners_alive pid w"
      "seen_are_winners nonce w" "guards_hold w" "reclaims_expired w" "removals_own w"
    by (simp_all add: lock_inv_def)
  show ?case
    unfolding lock_inv_def
    using next_keeps_names [OF moved inv(1,2)] next_keeps_winners [OF moved step_next.prems(2) inv(1,3)]
      next_keeps_guards [OF moved step_next.prems(2) inv(1,4,5,6) step_next.prems(1)]
      next_keeps_reclaims [OF moved step_next.prems(2) inv(1,2,3,5)]
      next_keeps_removals [OF moved inv(6)]
    by blast
next
  case (step_drop w i body)
  then show ?case by (auto simp: lock_inv_def lock_inv_defs running_def)
next
  case (step_fail w i)
  then show ?case by (auto simp: lock_inv_def lock_inv_defs running_def)
next
  case (step_system w now alive)
  have later: "expired (lw_clock w) b \<Longrightarrow> expired now b" for b
    using step_system.hyps(1) by (rule expired_mono [rotated])
  have "bodies_named pid nonce (w\<lparr>lw_clock := now, lw_alive := alive\<rparr>)"
    "runners_alive pid (w\<lparr>lw_clock := now, lw_alive := alive\<rparr>)"
    "seen_are_winners nonce (w\<lparr>lw_clock := now, lw_alive := alive\<rparr>)"
    using step_system.prems(3) step_system.hyps(2)
    by (simp_all add: lock_inv_def bodies_named_def runners_alive_def seen_are_winners_def)
  moreover have "guards_hold (w\<lparr>lw_clock := now, lw_alive := alive\<rparr>)"
    using step_system.prems(3) later by (simp add: lock_inv_def guards_hold_def) blast
  moreover have "reclaims_expired (w\<lparr>lw_clock := now, lw_alive := alive\<rparr>)"
    using step_system.prems(3) later by (simp add: lock_inv_def reclaims_expired_def)
  moreover have "removals_own (w\<lparr>lw_clock := now, lw_alive := alive\<rparr>)"
    using step_system.prems(3) by (simp add: lock_inv_def removals_own_def)
  ultimately show ?case by (simp add: lock_inv_def)
qed

lemma calm_lock_inv:
  "calm_launches pid nonce w0 w \<Longrightarrow> inj nonce \<Longrightarrow> lock_start nonce w0 \<Longrightarrow> lock_inv pid nonce w"
  by (induction rule: calm_launches.induct) (auto intro: lock_inv_start lock_inv_step)

section \<open>Exclusion\<close>

text \<open>
  C30: a launcher that holds the guard within its term has its own lock at the path, and every other
  holder is past its term, whatever launchers call, crash, fail, reclaim and drop, in whatever order,
  and however process numbers are reused, as long as nothing changes the file between a launcher's
  reading of it and the rename or removal that follows.
\<close>

theorem launch_lock_exclusive:
  assumes "inj nonce" and "lock_start nonce w0" and "calm_launches pid nonce w0 w"
    and "lw_at w i = Holder b" and "\<not> expired (lw_clock w) b"
  shows "lw_file w = Some (LockOf b) \<and> lb_nonce b = nonce i \<and>
    (\<forall>j b'. lw_at w j = Holder b' \<and> j \<noteq> i \<longrightarrow> expired (lw_clock w) b')"
proof (intro conjI allI impI)
  have inv: "lock_inv pid nonce w" by (rule calm_lock_inv) (use assms in auto)
  then show at: "lw_file w = Some (LockOf b)" and named: "lb_nonce b = nonce i"
    using assms(4,5) by (auto simp: lock_inv_def guards_hold_def bodies_named_def)
  fix j b' assume other: "lw_at w j = Holder b' \<and> j \<noteq> i"
  then have "lb_nonce b' = nonce j" using inv by (auto simp: lock_inv_def bodies_named_def)
  moreover have "lw_file w = Some (LockOf b') \<or> expired (lw_clock w) b'"
    using inv other by (auto simp: lock_inv_def guards_hold_def)
  ultimately show "expired (lw_clock w) b'" using at named other assms(1) by (auto dest: injD)
qed

section \<open>Two reclaimers\<close>

text \<open>The launchers of a schedule make their next operation in turn.\<close>

definition advance :: "nat \<Rightarrow> lock_world \<Rightarrow> lock_world" where
  "advance i w =
     (let (pc, f) = launch_next (lw_alive w) (lw_clock w) (lw_file w) (lw_at w i) in
        w\<lparr>lw_at := (lw_at w)(i := pc), lw_file := f\<rparr>)"

definition call :: "(nat \<Rightarrow> nat) \<Rightarrow> (nat \<Rightarrow> string) \<Rightarrow> nat \<Rightarrow> lock_world \<Rightarrow> lock_world" where
  "call pid nonce i w =
     w\<lparr>lw_at := (lw_at w)(i := Linking
       \<lparr>lb_pid = pid i, lb_nonce = nonce i, lb_started_unix = lw_clock w\<rparr>)\<rparr>"

lemma launches_schedule:
  "launches pid nonce u v \<Longrightarrow> launches pid nonce u (fold advance is v)"
proof (induction "is" arbitrary: v)
  case (Cons i "is")
  have "launch_step pid nonce v (advance i v)"
    by (cases "launch_next (lw_alive v) (lw_clock v) (lw_file v) (lw_at v i)")
      (auto simp: advance_def intro: step_next)
  with Cons show ?case by (auto intro: launches_step)
qed simp

text \<open>
  C39: two launchers can hold the lock at once, both alive and neither past its term.  Both read the
  stale lock before either renames; the first reclaims it and creates its own; the rename of the
  second, which goes by the path, then takes that fresh lock away.
\<close>

theorem launch_lock_admits_two:
  assumes "i \<noteq> j" and "lw_at w0 i = Idle" and "lw_at w0 j = Idle"
    and "pid_alive (lw_alive w0) (pid i)" and "pid_alive (lw_alive w0) (pid j)"
    and "lw_file w0 = Some (LockOf stale)" and "reclaimable (lw_alive w0) (lw_clock w0) stale"
  shows "\<exists>w b b'. launches pid nonce w0 w \<and> lw_at w i = Holder b \<and> lw_at w j = Holder b' \<and>
           lw_clock w = lw_clock w0 \<and> lw_alive w = lw_alive w0 \<and>
           \<not> reclaimable (lw_alive w) (lw_clock w) b \<and> \<not> reclaimable (lw_alive w) (lw_clock w) b' \<and>
           lw_file w = Some (LockOf b')"
proof -
  let ?w = "fold advance [i, j, i, j, i, i, j, j] (call pid nonce j (call pid nonce i w0))"
  have "launches pid nonce w0 (call pid nonce i w0)"
    unfolding call_def by (rule launches_step, rule launches_none, rule step_call) (use assms in auto)
  then have "launches pid nonce w0 (call pid nonce j (call pid nonce i w0))"
    unfolding call_def by (rule launches_step, intro step_call) (use assms in auto)
  then have "launches pid nonce w0 ?w" by (rule launches_schedule)
  moreover have "lw_at ?w i = Holder \<lparr>lb_pid = pid i, lb_nonce = nonce i, lb_started_unix = lw_clock w0\<rparr> \<and>
      lw_at ?w j = Holder \<lparr>lb_pid = pid j, lb_nonce = nonce j, lb_started_unix = lw_clock w0\<rparr> \<and>
      lw_clock ?w = lw_clock w0 \<and> lw_alive ?w = lw_alive w0 \<and>
      lw_file ?w = Some (LockOf \<lparr>lb_pid = pid j, lb_nonce = nonce j, lb_started_unix = lw_clock w0\<rparr>)"
    using assms by (simp add: advance_def call_def won_def try_create_lock_def read_lock_def)
  ultimately show ?thesis using assms(4,5) by (auto simp: reclaimable_def expired_def)
qed

text \<open>
  A launcher alone gets the lock exactly when there is none or its holder is dead or past its
  term, and the lock is then its own; otherwise it yields and the file is as it was.  A file that
  does not parse is never reclaimed, however old.
\<close>

lemma try_launch_lock_alone:
  "try_launch_lock alive now pid nonce f =
     (let body = \<lparr>lb_pid = pid, lb_nonce = nonce, lb_started_unix = now\<rparr> in
      case f of
        None \<Rightarrow> (Holder body, Some (LockOf body))
      | Some NotALock \<Rightarrow> (Yielded, f)
      | Some (LockOf b) \<Rightarrow>
          if reclaimable alive now b then (Holder body, Some (LockOf body)) else (Yielded, f))"
proof (cases f)
  case None
  then show ?thesis
    by (simp add: try_launch_lock_def eval_nat_numeral won_def try_create_lock_def Let_def)
next
  case (Some a)
  then show ?thesis
    by (cases a)
      (simp_all add: try_launch_lock_def eval_nat_numeral won_def try_create_lock_def read_lock_def Let_def)
qed

lemma drop_guard_own:
  "drop_guard b f = (if map_option lb_nonce (read_lock f) = Some (lb_nonce b) then None else f)"
  by (auto simp: drop_guard_def eval_nat_numeral Let_def)

lemma calm_advance:
  assumes "calm_launches pid nonce u v"
    and "\<And>b e. lw_at v i = Renaming b e \<Longrightarrow> lw_file v = Some (LockOf e)"
    and "\<And>b seen. lw_at v i = Removing b seen \<Longrightarrow> lw_file v = seen"
  shows "calm_launches pid nonce u (advance i v)"
proof -
  have "launch_step pid nonce v (advance i v)"
    by (cases "launch_next (lw_alive v) (lw_clock v) (lw_file v) (lw_at v i)")
      (auto simp: advance_def intro: step_next)
  moreover have "undisturbed v (advance i v)"
    using assms(2,3) by (auto simp: undisturbed_def advance_def split: prod.splits if_splits)
  ultimately show ?thesis using assms(1) by (rule calm_step [rotated])
qed

text \<open>
  The first launcher outstays its term and the second reclaims its lock: both hold, and the lock at
  the path is the second's.
\<close>

theorem launch_lock_exclusive_witness:
  "\<exists>w b b'. calm_launches Suc (\<lambda>i. replicate i (CHR ''n''))
       \<lparr>lw_file = None, lw_clock = 0, lw_alive = (\<lambda>_. True), lw_at = (\<lambda>_. Idle)\<rparr> w \<and>
     lw_at w 0 = Holder b \<and> lw_at w 1 = Holder b' \<and> \<not> expired (lw_clock w) b' \<and>
     lw_file w = Some (LockOf b') \<and> expired (lw_clock w) b"
proof -
  let ?n = "\<lambda>i. replicate i (CHR ''n'')"
  define w0 where "w0 = \<lparr>lw_file = None, lw_clock = 0, lw_alive = (\<lambda>_. True), lw_at = (\<lambda>_. Idle)\<rparr>"
  define w1 where "w1 = advance 0 (call Suc ?n 0 w0)"
  define w2 where "w2 = call Suc ?n 1 (w1\<lparr>lw_clock := 31, lw_alive := (\<lambda>_. True)\<rparr>)"
  define w where "w = advance 1 (advance 1 (advance 1 (advance 1 w2)))"
  note run = w0_def w1_def w2_def advance_def call_def won_def try_create_lock_def read_lock_def
    reclaimable_def expired_def launch_lock_ttl_secs_def
  have "calm_launches Suc ?n w0 (call Suc ?n 0 w0)"
    unfolding call_def
    by (rule calm_step, rule calm_none, rule step_call) (auto simp: w0_def pid_alive_def undisturbed_def)
  then have "calm_launches Suc ?n w0 w1"
    unfolding w1_def by (rule calm_advance) (simp_all add: call_def)
  then have "calm_launches Suc ?n w0 (w1\<lparr>lw_clock := 31, lw_alive := (\<lambda>_. True)\<rparr>)"
    by (rule calm_step, intro step_system) (auto simp: run pid_alive_def undisturbed_def)
  then have "calm_launches Suc ?n w0 w2"
    unfolding w2_def call_def
    by (rule calm_step, intro step_call) (auto simp: run pid_alive_def undisturbed_def split: if_splits)
  then have "calm_launches Suc ?n w0 (advance 1 w2)"
    by (rule calm_advance) (simp_all add: w2_def call_def)
  then have "calm_launches Suc ?n w0 (advance 1 (advance 1 w2))"
    by (rule calm_advance) (simp_all add: run)
  then have "calm_launches Suc ?n w0 (advance 1 (advance 1 (advance 1 w2)))"
    by (rule calm_advance) (simp_all add: run pid_alive_def)
  then have calm: "calm_launches Suc ?n w0 w"
    unfolding w_def by (rule calm_advance) (simp_all add: run pid_alive_def)
  have first: "lw_at w 0 = Holder \<lparr>lb_pid = 1, lb_nonce = [], lb_started_unix = 0\<rparr>"
    and second: "lw_at w 1 = Holder \<lparr>lb_pid = 2, lb_nonce = ''n'', lb_started_unix = 31\<rparr>"
    and clock: "lw_clock w = 31"
    by (simp_all add: w_def run pid_alive_def)
  from clock have live: "\<not> expired (lw_clock w) \<lparr>lb_pid = 2, lb_nonce = ''n'', lb_started_unix = 31\<rparr>"
    by (simp add: expired_def launch_lock_ttl_secs_def)
  have "inj ?n" by (auto intro!: injI dest: arg_cong [where f = length])
  moreover have "lock_start ?n w0" by (simp add: lock_start_def w0_def)
  ultimately have "lw_file w = Some (LockOf \<lparr>lb_pid = 2, lb_nonce = ''n'', lb_started_unix = 31\<rparr>)"
    "expired (lw_clock w) \<lparr>lb_pid = 1, lb_nonce = [], lb_started_unix = 0\<rparr>"
    using launch_lock_exclusive [OF _ _ calm second live] first
    by (blast, metis One_nat_def zero_neq_one)
  with calm first second live show ?thesis unfolding w0_def by blast
qed

theorem launch_lock_admits_two_witness:
  "\<exists>w b b'. launches Suc (\<lambda>i. replicate i (CHR ''n''))
     \<lparr>lw_file = Some (LockOf \<lparr>lb_pid = 0, lb_nonce = ''stale'', lb_started_unix = 0\<rparr>), lw_clock = 100,
      lw_alive = (\<lambda>_. True), lw_at = (\<lambda>_. Idle)\<rparr> w \<and>
     lw_at w 0 = Holder b \<and> lw_at w 1 = Holder b' \<and> lw_clock w = 100"
proof -
  let ?w0 = "\<lparr>lw_file = Some (LockOf \<lparr>lb_pid = 0, lb_nonce = ''stale'', lb_started_unix = 0\<rparr>),
    lw_clock = 100, lw_alive = (\<lambda>_. True), lw_at = (\<lambda>_. Idle)\<rparr>"
  from launch_lock_admits_two
    [of 0 1 ?w0 Suc "\<lparr>lb_pid = 0, lb_nonce = ''stale'', lb_started_unix = 0\<rparr>" "\<lambda>i. replicate i (CHR ''n'')"]
  show ?thesis by (simp add: pid_alive_def reclaimable_def) blast
qed

end
