(* ===== verification/Settings.thy ===== *)
theory Settings
  imports Transcript BrokerWalk
begin

text \<open>
  The edits the hooks program makes to the assistant's settings of a project
  (crates/zlauder-hooks/src/main.rs): enabling routes the project through the proxy, takes over the
  status line and adds permission rules and a note; disabling takes out what is ours and puts the
  status line back.  The settings are JSON objects in the order of insertion.
\<close>

section \<open>Objects\<close>

text \<open>\<open>Map::remove\<close> of a \<open>serde_json\<close> map in insertion order: the last entry takes the place.\<close>

fun swap_remove :: "string \<Rightarrow> (string \<times> json) list \<Rightarrow> (string \<times> json) list" where
  "swap_remove k [] = []"
| "swap_remove k ((k', v) # kvs) =
     (if k' = k then (if kvs = [] then [] else last kvs # butlast kvs)
      else (k', v) # swap_remove k kvs)"

definition json_object :: "json \<Rightarrow> (string \<times> json) list option" where
  "json_object v = (case v of JObj kvs \<Rightarrow> Some kvs | _ \<Rightarrow> None)"

text \<open>\<open>Value::pointer\<close> with two names.\<close>

definition pointer2 :: "string \<Rightarrow> string \<Rightarrow> json \<Rightarrow> json option" where
  "pointer2 k k' v = Option.bind (json_get k v) (json_get k')"

definition str_at :: "string \<Rightarrow> string \<Rightarrow> json \<Rightarrow> string option" where
  "str_at k k' v = Option.bind (pointer2 k k' v) json_str"

text \<open>\<open>ensure_object\<close>: the object at a name, an empty one where there is none.\<close>

definition object_at :: "string \<Rightarrow> (string \<times> json) list \<Rightarrow> (string \<times> json) list" where
  "object_at k kvs = (case Option.bind (map_of kvs k) json_object of Some o' \<Rightarrow> o' | None \<Rightarrow> [])"

section \<open>What is ours\<close>

definition DENY_RULES :: "string list" where
  "DENY_RULES = [''Bash(zlauder-hooks:*)'', ''Bash(zlauder-proxy:*)'', ''Bash(*/zlauder-hooks:*)'',
     ''Bash(*/zlauder-proxy:*)'']"

definition ASK_RULES :: "string list" where
  "ASK_RULES = [''Edit(/zlauder.toml)'', ''Edit(/zlauder.local.toml)'']"

definition AUTOMODE_ENV_NOTE :: string where
  "AUTOMODE_ENV_NOTE =
     ''ZlauDeR is a local PII-masking proxy the user installed and enabled for this project. '' @
     ''Its `/zlauder:` commands (and the scripts under the zlauder plugin directory) are a '' @
     ''loopback-only (127.0.0.1) control plane: read-only status/health checks (verify, status, '' @
     ''doctor, secrets) or edits to this project's own ZlauDeR settings (enable, disable, privacy). '' @
     ''They make no outbound network requests and perform no destructive actions. '' @
     ''Treat them as trusted local infrastructure.''"

definition permission_rule_sets :: "(string \<times> string list) list" where
  "permission_rule_sets = [(''deny'', DENY_RULES), (''ask'', ASK_RULES)]"

text \<open>\<open>is_zlauder_statusline\<close>: an occurrence at the start or after a path separator.\<close>

fun occurs_as_basename :: "string \<Rightarrow> bool \<Rightarrow> string \<Rightarrow> bool" where
  "occurs_as_basename needle at_name [] = (at_name \<and> needle = [])"
| "occurs_as_basename needle at_name (c # cs) =
     (at_name \<and> prefix needle (c # cs) \<or>
      occurs_as_basename needle (c = CHR ''/'' \<or> c = CHR 0x5C) cs)"

definition is_zlauder_statusline :: "string \<Rightarrow> bool" where
  "is_zlauder_statusline cmd \<longleftrightarrow>
     occurs_as_basename ''zlauder-hooks statusline'' True cmd \<or>
     occurs_as_basename ''zlauder-hooks.exe statusline'' True cmd"

text \<open>\<open>str::parse::<u16>\<close>, and \<open>Value::as_u64\<close> narrowed.\<close>

definition parse_u16 :: "string \<Rightarrow> nat option" where
  "parse_u16 s =
     (let ds = (if s \<noteq> [] \<and> hd s = CHR ''+'' then tl s else s) in
        if ds \<noteq> [] \<and> list_all is_digit_b ds \<and> dec_value ds < 65536 then Some (dec_value ds) else None)"

definition json_u16 :: "json \<Rightarrow> nat option" where
  "json_u16 v =
     (case v of
        JNum t \<Rightarrow> if t \<noteq> [] \<and> list_all is_digit_b t \<and> dec_value t < 65536 then Some (dec_value t) else None
      | _ \<Rightarrow> None)"

definition trim_end_slashes :: "string \<Rightarrow> string" where
  "trim_end_slashes s = rev (dropWhile (\<lambda>c. c = CHR ''/'') (rev s))"

text \<open>\<open>str::rsplit_once\<close> with a byte.\<close>

definition rsplit_once :: "char \<Rightarrow> string \<Rightarrow> (string \<times> string) option" where
  "rsplit_once c s =
     (let after = rev (takeWhile (\<lambda>x. x \<noteq> c) (rev s)) in
        if length after = length s then None
        else Some (take (length s - Suc (length after)) s, after))"

definition loopback_url_port :: "'x ext_scheme \<Rightarrow> string \<Rightarrow> nat option" where
  "loopback_url_port X url =
     (case strip_prefix ''http://'' (trim_end_slashes (str_trim X url)) of
        None \<Rightarrow> None
      | Some authority \<Rightarrow>
          (case rsplit_once (CHR '':'') authority of
             None \<Rightarrow> None
           | Some (host, port) \<Rightarrow>
               if host \<noteq> ''127.0.0.1'' \<and> host \<noteq> ''localhost'' \<or> CHR ''/'' \<in> set port then None
               else parse_u16 port))"

definition is_zlauder_base_url :: "'x ext_scheme \<Rightarrow> string \<Rightarrow> nat option \<Rightarrow> bool" where
  "is_zlauder_base_url X url co_key =
     (case loopback_url_port X url of None \<Rightarrow> False | Some p \<Rightarrow> co_key = Some p)"

definition base_url_matches :: "string \<Rightarrow> string \<Rightarrow> bool" where
  "base_url_matches have_url want_url =
     (let h = trim_end_slashes have_url; w = trim_end_slashes want_url in
        h = w \<or> prefix (w @ ''/'') h)"

section \<open>Rules and note\<close>

datatype settings_error =
    BadSettingsFile
  | SettingsNotObject
  | RulesNotArray string
  | EnvironmentNotArray
  | CannotWriteSettings
  | CannotWriteSidecar
  | CannotMakeSettingsDir

definition add_missing :: "string list \<Rightarrow> json list \<Rightarrow> json list" where
  "add_missing wanted a = fold (\<lambda>w a. if JStr w \<in> set a then a else a @ [JStr w]) wanted a"

fun merge_rule_sets ::
  "(string \<times> string list) list \<Rightarrow> (string \<times> json) list \<Rightarrow> settings_error + (string \<times> json) list" where
  "merge_rule_sets [] perms = Inr perms"
| "merge_rule_sets ((key, wanted) # sets) perms =
     (case (case map_of perms key of None \<Rightarrow> JArr [] | Some v \<Rightarrow> v) of
        JArr a \<Rightarrow> merge_rule_sets sets (json_insert key (JArr (add_missing wanted a)) perms)
      | _ \<Rightarrow> Inl (RulesNotArray key))"

definition merge_permission_rules ::
  "(string \<times> json) list \<Rightarrow> settings_error + (string \<times> json) list" where
  "merge_permission_rules kvs =
     bind_r (merge_rule_sets permission_rule_sets (object_at ''permissions'' kvs))
       (\<lambda>perms. Inr (json_insert ''permissions'' (JObj perms) kvs))"

definition rules_at :: "string \<Rightarrow> json \<Rightarrow> json list" where
  "rules_at key v =
     (case Option.bind (pointer2 ''permissions'' key v) json_array of Some a \<Rightarrow> a | None \<Rightarrow> [])"

definition permission_rules_present :: "json \<Rightarrow> bool" where
  "permission_rules_present v \<longleftrightarrow>
     list_all (\<lambda>(key, wanted). list_all (\<lambda>w. JStr w \<in> set (rules_at key v)) wanted) permission_rule_sets"

definition any_permission_rule_present :: "json \<Rightarrow> bool" where
  "any_permission_rule_present v \<longleftrightarrow>
     list_ex (\<lambda>(key, wanted). list_ex (\<lambda>w. JStr w \<in> set (rules_at key v)) wanted) permission_rule_sets"

definition retain_rules :: "string \<times> string list \<Rightarrow> (string \<times> json) list \<Rightarrow> (string \<times> json) list" where
  "retain_rules = (\<lambda>(key, ours) perms.
     (case Option.bind (map_of perms key) json_array of
        None \<Rightarrow> perms
      | Some a \<Rightarrow>
          let a' = filter (\<lambda>x. x \<notin> JStr ` set ours) a in
            if a' = [] then swap_remove key perms else json_insert key (JArr a') perms))"

definition remove_permission_rules :: "(string \<times> json) list \<Rightarrow> (string \<times> json) list" where
  "remove_permission_rules kvs =
     (case Option.bind (map_of kvs ''permissions'') json_object of
        None \<Rightarrow> kvs
      | Some perms \<Rightarrow>
          let perms' = fold retain_rules permission_rule_sets perms in
            if perms' = [] then swap_remove ''permissions'' kvs
            else json_insert ''permissions'' (JObj perms') kvs)"

definition merge_automode_environment ::
  "(string \<times> json) list \<Rightarrow> settings_error + (string \<times> json) list" where
  "merge_automode_environment kvs =
     (let auto = object_at ''autoMode'' kvs in
        case (case map_of auto ''environment'' of None \<Rightarrow> JArr [JStr ''$defaults''] | Some v \<Rightarrow> v) of
          JArr a \<Rightarrow> Inr (json_insert ''autoMode'' (JObj (json_insert ''environment''
                     (JArr (add_missing [AUTOMODE_ENV_NOTE] a)) auto)) kvs)
        | _ \<Rightarrow> Inl EnvironmentNotArray)"

definition automode_note_present :: "json \<Rightarrow> bool" where
  "automode_note_present v \<longleftrightarrow>
     (case Option.bind (pointer2 ''autoMode'' ''environment'' v) json_array of
        None \<Rightarrow> False | Some a \<Rightarrow> JStr AUTOMODE_ENV_NOTE \<in> set a)"

definition remove_automode_environment :: "(string \<times> json) list \<Rightarrow> (string \<times> json) list" where
  "remove_automode_environment kvs =
     (case Option.bind (map_of kvs ''autoMode'') json_object of
        None \<Rightarrow> kvs
      | Some auto \<Rightarrow>
          let auto' =
            (case Option.bind (map_of auto ''environment'') json_array of
               None \<Rightarrow> auto
             | Some a \<Rightarrow>
                 let a' = filter (\<lambda>x. x \<noteq> JStr AUTOMODE_ENV_NOTE) a in
                   if length a' \<noteq> length a \<and> list_all (\<lambda>x. x = JStr ''$defaults'') a'
                   then swap_remove ''environment'' auto
                   else json_insert ''environment'' (JArr a') auto)
          in if auto' = [] then swap_remove ''autoMode'' kvs
             else json_insert ''autoMode'' (JObj auto') kvs)"

section \<open>Taking out what is ours\<close>

definition baked_zport :: "json \<Rightarrow> nat option" where
  "baked_zport v =
     (case pointer2 ''env'' ''ZLAUDER_PORT'' v of
        None \<Rightarrow> None
      | Some z \<Rightarrow>
          (case Option.bind (json_str z) parse_u16 of Some n \<Rightarrow> Some n | None \<Rightarrow> json_u16 z))"

definition statusline_is_ours :: "json \<Rightarrow> bool" where
  "statusline_is_ours v \<longleftrightarrow>
     is_zlauder_statusline (case str_at ''statusLine'' ''command'' v of None \<Rightarrow> [] | Some c \<Rightarrow> c)"

definition base_url_is_ours :: "'x ext_scheme \<Rightarrow> json \<Rightarrow> bool" where
  "base_url_is_ours X v =
     (case str_at ''env'' ''ANTHROPIC_BASE_URL'' v of
        None \<Rightarrow> False
      | Some u \<Rightarrow> is_zlauder_base_url X u (baked_zport v))"

definition has_wiring :: "'x ext_scheme \<Rightarrow> json \<Rightarrow> bool" where
  "has_wiring X v \<longleftrightarrow>
     base_url_is_ours X v \<or> pointer2 ''env'' ''ZLAUDER_PORT'' v \<noteq> None \<or> statusline_is_ours v \<or>
     any_permission_rule_present v \<or> automode_note_present v"

definition strip_env :: "bool \<Rightarrow> (string \<times> json) list \<Rightarrow> (string \<times> json) list" where
  "strip_env url_is_ours kvs =
     (case Option.bind (map_of kvs ''env'') json_object of
        None \<Rightarrow> kvs
      | Some env \<Rightarrow>
          let env1 = swap_remove ''ZLAUDER_PORT'' env;
              env2 = (if url_is_ours then swap_remove ''ANTHROPIC_BASE_URL'' env1 else env1)
          in if env2 = [] then swap_remove ''env'' kvs else json_insert ''env'' (JObj env2) kvs)"

definition strip_statusline ::
  "json option \<Rightarrow> bool \<Rightarrow> (string \<times> json) list \<Rightarrow> (string \<times> json) list \<times> bool" where
  "strip_statusline saved ours kvs =
     (if \<not> ours then (kvs, False)
      else (case saved of
              Some line \<Rightarrow> (json_insert ''statusLine'' line kvs, True)
            | None \<Rightarrow> (swap_remove ''statusLine'' kvs, False)))"

text \<open>
  \<open>strip_routing_from\<close> on a value: None when nothing of ours is in it.  A value with wiring is an
  object.
\<close>

definition strip_value :: "'x ext_scheme \<Rightarrow> json option \<Rightarrow> json \<Rightarrow> (json \<times> bool) option" where
  "strip_value X saved v =
     (if \<not> has_wiring X v then None
      else
        let kvs = (case v of JObj kvs \<Rightarrow> kvs | _ \<Rightarrow> []);
            (kvs1, restored) = strip_statusline saved (statusline_is_ours v)
              (strip_env (base_url_is_ours X v) kvs)
        in Some (JObj (remove_automode_environment (remove_permission_rules kvs1)), restored))"

section \<open>Enabling and disabling a project\<close>

datatype settings_doc = Doc json | NotJson

text \<open>
  The two files and the sidecar that keeps the wrapped status line; None is a missing file.  A write
  that fails leaves the file as it was.  The \<open>.gitignore\<close> written beside them is left out.
\<close>

record settings_files =
  st_local :: "settings_doc option"
  st_committed :: "settings_doc option"
  st_sidecar :: "json option"

record settings_faults =
  sq_no_dir :: bool
  sq_sidecar :: bool
  sq_committed :: bool
  sq_local :: bool

datatype settings_outcome = SettingsChanged | SettingsNoOp

definition load_settings_or_empty :: "settings_doc option \<Rightarrow> settings_error + json" where
  "load_settings_or_empty f =
     (case f of None \<Rightarrow> Inr (JObj []) | Some (Doc v) \<Rightarrow> Inr v | Some NotJson \<Rightarrow> Inl BadSettingsFile)"

fun effective_user_statusline :: "json list \<Rightarrow> json option" where
  "effective_user_statusline [] = None"
| "effective_user_statusline (v # vs) =
     (if statusline_is_ours v then None
      else (case json_get ''statusLine'' v of
              None \<Rightarrow> effective_user_statusline vs
            | Some line \<Rightarrow> if line = JNull then effective_user_statusline vs else Some line))"

definition strip_routing_from ::
  "'x ext_scheme \<Rightarrow> bool \<Rightarrow> json option \<Rightarrow> settings_doc option \<Rightarrow>
   settings_error + (bool \<times> bool \<times> settings_doc option)" where
  "strip_routing_from X write_fails saved f =
     (case f of
        None \<Rightarrow> Inr (False, False, None)
      | Some NotJson \<Rightarrow> Inl BadSettingsFile
      | Some (Doc v) \<Rightarrow>
          (case strip_value X saved v of
             None \<Rightarrow> Inr (False, False, f)
           | Some (v', restored) \<Rightarrow>
               if write_fails then Inl CannotWriteSettings else Inr (True, restored, Some (Doc v'))))"

text \<open>The value enabling writes to the local file.\<close>

definition enabled_value ::
  "string \<Rightarrow> string \<Rightarrow> string \<Rightarrow> (string \<times> json) list \<Rightarrow> settings_error + (string \<times> json) list" where
  "enabled_value url zport statusline kvs =
     (let env = json_insert ''ZLAUDER_PORT'' (JStr zport)
            (json_insert ''ANTHROPIC_BASE_URL'' (JStr url) (object_at ''env'' kvs));
          kvs1 = json_insert ''env'' (JObj env) kvs;
          kvs2 = json_insert ''statusLine''
            (JObj [(''type'', JStr ''command''), (''command'', JStr statusline)]) kvs1
      in bind_r (merge_permission_rules kvs2) merge_automode_environment)"

definition already_enabled :: "string \<Rightarrow> string \<Rightarrow> json \<Rightarrow> bool" where
  "already_enabled url zport v \<longleftrightarrow>
     base_url_matches (case str_at ''env'' ''ANTHROPIC_BASE_URL'' v of None \<Rightarrow> [] | Some u \<Rightarrow> u) url \<and>
     (case str_at ''env'' ''ZLAUDER_PORT'' v of None \<Rightarrow> [] | Some p \<Rightarrow> p) = zport \<and>
     permission_rules_present v \<and> automode_note_present v"

definition settings_enable ::
  "'x ext_scheme \<Rightarrow> settings_faults \<Rightarrow> string \<Rightarrow> string \<Rightarrow> string \<Rightarrow> settings_files \<Rightarrow>
   (settings_error + settings_outcome) \<times> settings_files" where
  "settings_enable X faults url zport statusline fs =
     (if sq_no_dir faults then (Inl CannotMakeSettingsDir, fs)
      else (case load_settings_or_empty (st_local fs) of
        Inl e \<Rightarrow> (Inl e, fs)
      | Inr local_v \<Rightarrow>
      (case json_object local_v of
        None \<Rightarrow> (Inl SettingsNotObject, fs)
      | Some kvs \<Rightarrow>
      (case load_settings_or_empty (st_committed fs) of
        Inl e \<Rightarrow> (Inl e, fs)
      | Inr committed_v \<Rightarrow>
          let original = effective_user_statusline [local_v, committed_v] in
          if original \<noteq> None \<and> sq_sidecar faults then (Inl CannotWriteSidecar, fs)
          else
            let fs1 = (case original of None \<Rightarrow> fs | Some line \<Rightarrow> fs\<lparr>st_sidecar := Some line\<rparr>) in
            case strip_routing_from X (sq_committed faults) None (st_committed fs1) of
              Inl e \<Rightarrow> (Inl e, fs1)
            | Inr (_, _, committed') \<Rightarrow>
                let fs2 = fs1\<lparr>st_committed := committed'\<rparr> in
                case enabled_value url zport statusline kvs of
                  Inl e \<Rightarrow> (Inl e, fs2)
                | Inr kvs' \<Rightarrow>
                    if sq_local faults then (Inl CannotWriteSettings, fs2)
                    else (Inr (if already_enabled url zport local_v then SettingsNoOp else SettingsChanged),
                          fs2\<lparr>st_local := Some (Doc (JObj kvs'))\<rparr>)))))"

definition settings_disable_at ::
  "'x ext_scheme \<Rightarrow> settings_faults \<Rightarrow> settings_files \<Rightarrow>
   (settings_error + settings_outcome) \<times> settings_files" where
  "settings_disable_at X faults fs =
     (case strip_routing_from X (sq_local faults) (st_sidecar fs) (st_local fs) of
        Inl e \<Rightarrow> (Inl e, fs)
      | Inr (did, restored, local') \<Rightarrow>
          let fs1 = fs\<lparr>st_local := local'\<rparr>;
              saved = (if restored then None else st_sidecar fs) in
          case strip_routing_from X (sq_committed faults) saved (st_committed fs1) of
            Inl e \<Rightarrow> (Inl e, fs1)
          | Inr (did', _, committed') \<Rightarrow>
              let fs2 = fs1\<lparr>st_committed := committed'\<rparr> in
              if \<not> did \<and> \<not> did' then (Inr SettingsNoOp, fs2)
              else (Inr SettingsChanged,
                    if sq_sidecar faults then fs2 else fs2\<lparr>st_sidecar := None\<rparr>))"

end
