(* ===== verification/SettingsCorrect.thy ===== *)
theory SettingsCorrect
  imports Settings TranscriptCorrect
begin

text \<open>
  What disabling takes out of the settings, and that it puts back what enabling changed.
\<close>

section \<open>Objects as maps\<close>

lemma json_insert_names: "set (map fst (json_insert k v kvs)) = insert k (set (map fst kvs))"
  by (induction k v kvs rule: json_insert.induct) auto

lemma json_insert_distinct [simp]:
  "distinct (map fst (json_insert k v kvs)) \<longleftrightarrow> distinct (map fst kvs)"
proof (induction k v kvs rule: json_insert.induct)
  case (2 k v k' v' kvs)
  then show ?case using json_insert_names [of k v kvs] by auto
qed simp

lemma json_insert_nonempty [simp]: "json_insert k v kvs \<noteq> []"
  by (cases kvs) (auto split: prod.splits if_splits)

lemma last_first:
  assumes "kvs \<noteq> []" and "distinct (map fst kvs)"
  shows "distinct (map fst (last kvs # butlast kvs)) \<and> map_of (last kvs # butlast kvs) = map_of kvs"
proof -
  obtain ys y where kvs: "kvs = ys @ [y]" using assms(1) by (metis append_butlast_last_id)
  have "map_of (y # ys) = map_of (ys @ [y])"
    by (subst map_of_inject_set) (use assms(2) kvs in auto)
  with kvs assms(2) show ?thesis by auto
qed

lemma swap_remove_names: "set (map fst (swap_remove k kvs)) \<subseteq> set (map fst kvs)"
proof (induction k kvs rule: swap_remove.induct)
  case (2 k k' v kvs)
  then show ?case by (auto dest: in_set_butlastD)
qed simp

lemma swap_remove_map:
  assumes "distinct (map fst kvs)"
  shows "distinct (map fst (swap_remove k kvs)) \<and> map_of (swap_remove k kvs) = (map_of kvs)(k := None)"
  using assms
proof (induction k kvs rule: swap_remove.induct)
  case (2 k k' v kvs)
  show ?case
  proof (cases "k' = k")
    case True
    with 2 have "map_of kvs k = None" by (auto simp: map_of_eq_None_iff)
    then have same: "(map_of ((k', v) # kvs))(k := None) = map_of kvs" using True by auto
    show ?thesis
    proof (cases "kvs = []")
      case False
      then have removed: "swap_remove k ((k', v) # kvs) = last kvs # butlast kvs" using True by simp
      have "distinct (map fst kvs)" using "2.prems" by simp
      then show ?thesis unfolding removed same by (rule last_first [OF False])
    qed (use True in auto)
  next
    case False
    with 2 swap_remove_names [of k kvs] show ?thesis by auto
  qed
qed simp

lemmas swap_remove_simps [simp] = swap_remove_map [THEN conjunct1] swap_remove_map [THEN conjunct2]

lemma empty_object: "kvs = [] \<longleftrightarrow> map_of kvs = Map.empty"
  by (cases kvs) auto

text \<open>Storing an object, or dropping its name when it is empty.\<close>

definition put_or_drop :: "string \<Rightarrow> (string \<times> json) list \<Rightarrow> (string \<times> json) list \<Rightarrow> (string \<times> json) list" where
  "put_or_drop k o' kvs = (if o' = [] then swap_remove k kvs else json_insert k (JObj o') kvs)"

lemma put_or_drop_map [simp]:
  assumes "distinct (map fst kvs)"
  shows "distinct (map fst (put_or_drop k o' kvs))"
    and "map_of (put_or_drop k o' kvs) = (map_of kvs)(k := if o' = [] then None else Some (JObj o'))"
  using assms by (simp_all add: put_or_drop_def map_of_json_insert)

lemma strip_env_put:
  "strip_env ours kvs =
     (case Option.bind (map_of kvs ''env'') json_object of
        None \<Rightarrow> kvs
      | Some env \<Rightarrow> put_or_drop ''env''
          (if ours then swap_remove ''ANTHROPIC_BASE_URL'' (swap_remove ''ZLAUDER_PORT'' env)
           else swap_remove ''ZLAUDER_PORT'' env) kvs)"
  by (simp add: strip_env_def put_or_drop_def Let_def split: option.splits)

lemma remove_rules_put:
  "remove_permission_rules kvs =
     (case Option.bind (map_of kvs ''permissions'') json_object of
        None \<Rightarrow> kvs
      | Some perms \<Rightarrow> put_or_drop ''permissions'' (fold retain_rules permission_rule_sets perms) kvs)"
  by (simp add: remove_permission_rules_def put_or_drop_def Let_def split: option.splits)

section \<open>Rules\<close>

lemma add_missing_fresh:
  "distinct wanted \<Longrightarrow> JStr ` set wanted \<inter> set a = {} \<Longrightarrow> add_missing wanted a = a @ map JStr wanted"
  unfolding add_missing_def
proof (induction wanted arbitrary: a)
  case (Cons w wanted)
  then have "JStr ` set wanted \<inter> set (a @ [JStr w]) = {}" by auto
  with Cons show ?case by simp
qed simp

lemma our_rules_distinct: "distinct DENY_RULES" "distinct ASK_RULES" "DENY_RULES \<noteq> []" "ASK_RULES \<noteq> []"
  by (simp_all add: DENY_RULES_def ASK_RULES_def)

definition our_rules :: "string \<Rightarrow> string list" where
  "our_rules key = (if key = ''deny'' then DENY_RULES else if key = ''ask'' then ASK_RULES else [])"

text \<open>The user's rules at a name: none of ours, and not an empty list.\<close>

definition own_rules :: "string \<Rightarrow> (string \<times> json) list \<Rightarrow> bool" where
  "own_rules key perms \<longleftrightarrow>
     (\<forall>v. map_of perms key = Some v \<longrightarrow>
        (\<exists>a. v = JArr a \<and> a \<noteq> [] \<and> JStr ` set (our_rules key) \<inter> set a = {}))"

text \<open>Adding our rules and taking them out again leaves the rules at every name.\<close>

lemma rules_round:
  assumes "distinct (map fst perms)" and "own_rules ''deny'' perms" and "own_rules ''ask'' perms"
  obtains perms' where "merge_rule_sets permission_rule_sets perms = Inr perms'"
    and "distinct (map fst perms')" and "perms' \<noteq> []"
    and "map_of (fold retain_rules permission_rule_sets perms') = map_of perms"
    and "\<exists>a. map_of perms' ''deny'' = Some (JArr a) \<and> JStr ` set DENY_RULES \<subseteq> set a"
proof -
  define arr where "arr key = (case map_of perms key of Some (JArr a) \<Rightarrow> a | _ \<Rightarrow> [])" for key
  have fresh: "JStr ` set (our_rules key) \<inter> set (arr key) = {}" if "own_rules key perms" for key
  proof (cases "map_of perms key")
    case None
    then show ?thesis by (simp add: arr_def)
  next
    case (Some v)
    with that obtain a where "v = JArr a" "JStr ` set (our_rules key) \<inter> set a = {}"
      by (auto simp: own_rules_def)
    with Some show ?thesis by (simp add: arr_def)
  qed
  have fresh: "JStr ` set DENY_RULES \<inter> set (arr ''deny'') = {}" "JStr ` set ASK_RULES \<inter> set (arr ''ask'') = {}"
    using fresh [OF assms(2)] fresh [OF assms(3)] by (simp_all add: our_rules_def)
  have entry: "(case map_of perms key of None \<Rightarrow> JArr [] | Some v \<Rightarrow> v) = JArr (arr key)"
    if "own_rules key perms" for key
    using that by (auto simp: own_rules_def arr_def split: option.splits)
  have gone: "map_of perms key = (if arr key = [] then None else Some (JArr (arr key)))"
    if "own_rules key perms" for key
    using that by (auto simp: own_rules_def arr_def split: option.splits)
  define p1 where "p1 = json_insert ''deny'' (JArr (arr ''deny'' @ map JStr DENY_RULES)) perms"
  define p2 where "p2 = json_insert ''ask'' (JArr (arr ''ask'' @ map JStr ASK_RULES)) p1"
  have p1: "map_of p1 ''ask'' = map_of perms ''ask''" by (simp add: p1_def map_of_json_insert)
  have "merge_rule_sets permission_rule_sets perms = Inr p2"
    using entry assms(2,3) fresh our_rules_distinct p1
    by (simp add: permission_rule_sets_def add_missing_fresh p1_def [symmetric] p2_def)
  moreover have d: "distinct (map fst p2)" using assms(1) by (simp add: p2_def p1_def)
  moreover have "p2 \<noteq> []" by (simp add: p2_def)
  moreover have "map_of (fold retain_rules permission_rule_sets p2) = map_of perms"
  proof -
    have kept: "filter (\<lambda>x. x \<notin> JStr ` set ours) (a @ map JStr ours) = a" if "JStr ` set ours \<inter> set a = {}" for ours a
      using that by (auto simp: filter_id_conv filter_empty_conv)
    define q where "q = retain_rules (''deny'', DENY_RULES) p2"
    have p2: "map_of p2 = (map_of perms)(''deny'' \<mapsto> JArr (arr ''deny'' @ map JStr DENY_RULES),
        ''ask'' \<mapsto> JArr (arr ''ask'' @ map JStr ASK_RULES))"
      by (simp add: p2_def p1_def map_of_json_insert)
    have q: "distinct (map fst q)"
      "map_of q = (map_of p2)(''deny'' := if arr ''deny'' = [] then None else Some (JArr (arr ''deny'')))"
      using d p2 kept [OF fresh(1)]
      by (simp_all add: q_def retain_rules_def json_array_def Let_def map_of_json_insert)
    then have "map_of (retain_rules (''ask'', ASK_RULES) q) =
        (map_of q)(''ask'' := if arr ''ask'' = [] then None else Some (JArr (arr ''ask'')))"
      using p2 kept [OF fresh(2)]
      by (simp add: retain_rules_def json_array_def Let_def map_of_json_insert)
    with q(2) p2 gone [OF assms(2)] gone [OF assms(3)] show ?thesis
      by (auto simp: permission_rule_sets_def q_def [symmetric] fun_eq_iff)
  qed
  moreover have "\<exists>a. map_of p2 ''deny'' = Some (JArr a) \<and> JStr ` set DENY_RULES \<subseteq> set a"
    by (auto simp: p2_def p1_def map_of_json_insert)
  ultimately show ?thesis by (rule that)
qed

section \<open>The note\<close>

definition own_environment :: "(string \<times> json) list \<Rightarrow> bool" where
  "own_environment auto \<longleftrightarrow>
     (\<forall>v. map_of auto ''environment'' = Some v \<longrightarrow>
        (\<exists>a. v = JArr a \<and> JStr AUTOMODE_ENV_NOTE \<notin> set a \<and> \<not> list_all (\<lambda>x. x = JStr ''$defaults'') a))"

text \<open>The object of the note, with and without it.\<close>

definition noted :: "(string \<times> json) list \<Rightarrow> (string \<times> json) list" where
  "noted auto = json_insert ''environment''
     (JArr ((case map_of auto ''environment'' of Some (JArr a) \<Rightarrow> a | _ \<Rightarrow> [JStr ''$defaults'']) @
            [JStr AUTOMODE_ENV_NOTE])) auto"

definition unnoted :: "(string \<times> json) list \<Rightarrow> (string \<times> json) list" where
  "unnoted auto =
     (case Option.bind (map_of auto ''environment'') json_array of
        None \<Rightarrow> auto
      | Some a \<Rightarrow>
          let a' = filter (\<lambda>x. x \<noteq> JStr AUTOMODE_ENV_NOTE) a in
            if length a' \<noteq> length a \<and> list_all (\<lambda>x. x = JStr ''$defaults'') a'
            then swap_remove ''environment'' auto else json_insert ''environment'' (JArr a') auto)"

lemma remove_note_put:
  "remove_automode_environment kvs =
     (case Option.bind (map_of kvs ''autoMode'') json_object of
        None \<Rightarrow> kvs | Some auto \<Rightarrow> put_or_drop ''autoMode'' (unnoted auto) kvs)"
  by (simp add: remove_automode_environment_def unnoted_def put_or_drop_def Let_def split: option.splits)

lemma note_not_defaults: "AUTOMODE_ENV_NOTE \<noteq> ''$defaults''"
  by (simp add: AUTOMODE_ENV_NOTE_def)

lemma merge_note:
  assumes "own_environment (object_at ''autoMode'' kvs)"
  shows "merge_automode_environment kvs =
    Inr (json_insert ''autoMode'' (JObj (noted (object_at ''autoMode'' kvs))) kvs)"
  using assms note_not_defaults
  by (auto simp: merge_automode_environment_def own_environment_def noted_def Let_def add_missing_def
      split: option.splits)

lemma note_round:
  assumes "distinct (map fst auto)" and "own_environment auto"
  shows "map_of (unnoted (noted auto)) = map_of auto"
proof (cases "map_of auto ''environment''")
  case None
  then have "(map_of auto)(''environment'' := None) = map_of auto" by auto
  with None assms(1) note_not_defaults show ?thesis
    by (simp add: noted_def unnoted_def map_of_json_insert json_array_def Let_def)
next
  case (Some v)
  with assms(2) obtain a where a: "v = JArr a" "JStr AUTOMODE_ENV_NOTE \<notin> set a"
      "\<not> list_all (\<lambda>x. x = JStr ''$defaults'') a"
    by (auto simp: own_environment_def)
  then have "filter (\<lambda>x. x \<noteq> JStr AUTOMODE_ENV_NOTE) a = a" by (auto simp: filter_id_conv)
  with Some a show ?thesis
    by (auto simp: noted_def unnoted_def map_of_json_insert json_array_def Let_def fun_eq_iff)
qed

section \<open>Enabling and disabling\<close>

text \<open>The member at a name is missing or an object that is not empty.\<close>

definition own_object :: "string \<Rightarrow> (string \<times> json) list \<Rightarrow> bool" where
  "own_object k kvs \<longleftrightarrow>
     distinct (map fst (object_at k kvs)) \<and>
     map_of kvs k = (if object_at k kvs = [] then None else Some (JObj (object_at k kvs)))"

text \<open>Settings the user wrote: nothing of ours, no empty object or rule list where we write.\<close>

definition users_own :: "(string \<times> json) list \<Rightarrow> bool" where
  "users_own kvs \<longleftrightarrow>
     distinct (map fst kvs) \<and>
     own_object ''env'' kvs \<and> own_object ''permissions'' kvs \<and> own_object ''autoMode'' kvs \<and>
     map_of (object_at ''env'' kvs) ''ZLAUDER_PORT'' = None \<and>
     own_rules ''deny'' (object_at ''permissions'' kvs) \<and> own_rules ''ask'' (object_at ''permissions'' kvs) \<and>
     own_environment (object_at ''autoMode'' kvs) \<and>
     \<not> statusline_is_ours (JObj kvs) \<and> map_of kvs ''statusLine'' \<noteq> Some JNull"

text \<open>The settings less a base URL.\<close>

definition without_url :: "(string \<times> json) list \<Rightarrow> (string \<times> json) list" where
  "without_url kvs =
     put_or_drop ''env'' (swap_remove ''ANTHROPIC_BASE_URL'' (object_at ''env'' kvs)) kvs"

text \<open>Two objects say the same of a member; the order of an object's members is not looked at.\<close>

definition same_member :: "json option \<Rightarrow> json option \<Rightarrow> bool" where
  "same_member x y \<longleftrightarrow> x = y \<or> (\<exists>a b. x = Some (JObj a) \<and> y = Some (JObj b) \<and> map_of a = map_of b)"

lemma object_at_other: "k \<noteq> k' \<Longrightarrow> object_at k (json_insert k' v kvs) = object_at k kvs"
  by (simp add: object_at_def map_of_json_insert)

lemma same_member_put:
  assumes "map_of o' = map_of (object_at k kvs)" and "own_object k kvs"
  shows "same_member (map_of kvs k) (if o' = [] then None else Some (JObj o'))"
proof -
  have "o' = [] \<longleftrightarrow> object_at k kvs = []" by (simp only: empty_object assms(1))
  with assms show ?thesis by (cases "o' = []") (simp_all add: own_object_def same_member_def)
qed

lemma enabled_round:
  assumes own: "users_own kvs" and url: "is_zlauder_base_url X url (parse_u16 zport)"
    and sl: "is_zlauder_statusline statusline"
  obtains kvs1 kvs2 where "enabled_value url zport statusline kvs = Inr kvs1"
    and "strip_value X saved (JObj kvs1) = Some (JObj kvs2, saved \<noteq> None)"
    and "\<And>k. same_member (((map_of (without_url kvs))(''statusLine'' := saved)) k) (map_of kvs2 k)"
proof -
  define env where "env = json_insert ''ZLAUDER_PORT'' (JStr zport)
    (json_insert ''ANTHROPIC_BASE_URL'' (JStr url) (object_at ''env'' kvs))"
  define line where "line = JObj [(''type'', JStr ''command''), (''command'', JStr statusline)]"
  define a where "a = json_insert ''statusLine'' line (json_insert ''env'' (JObj env) kvs)"
  have at: "object_at ''permissions'' a = object_at ''permissions'' kvs"
    by (simp add: a_def object_at_other)
  obtain perms where perms: "merge_rule_sets permission_rule_sets (object_at ''permissions'' kvs) = Inr perms"
      "map_of (fold retain_rules permission_rule_sets perms) = map_of (object_at ''permissions'' kvs)"
  proof (rule rules_round)
    show "distinct (map fst (object_at ''permissions'' kvs))" "own_rules ''deny'' (object_at ''permissions'' kvs)"
      "own_rules ''ask'' (object_at ''permissions'' kvs)"
      using own by (simp_all add: users_own_def own_object_def)
  qed
  define b where "b = json_insert ''permissions'' (JObj perms) a"
  have auto: "object_at ''autoMode'' b = object_at ''autoMode'' kvs"
    by (simp add: b_def a_def object_at_other)
  define c where "c = json_insert ''autoMode'' (JObj (noted (object_at ''autoMode'' kvs))) b"
  have "merge_automode_environment b = Inr c"
    using merge_note [of b] own by (simp add: auto c_def users_own_def)
  then have enabled: "enabled_value url zport statusline kvs = Inr c"
    by (simp add: enabled_value_def merge_permission_rules_def Let_def env_def [symmetric]
        line_def [symmetric] a_def [symmetric] at perms(1) b_def [symmetric])
  have d: "distinct (map fst c)" using own by (simp add: c_def b_def a_def users_own_def)
  have m: "map_of c = (map_of kvs)(''env'' \<mapsto> JObj env, ''statusLine'' \<mapsto> line,
      ''permissions'' \<mapsto> JObj perms, ''autoMode'' \<mapsto> JObj (noted (object_at ''autoMode'' kvs)))"
    by (simp add: c_def b_def a_def map_of_json_insert)
  obtain port where port: "parse_u16 zport = Some port"
    using url by (auto simp: is_zlauder_base_url_def split: option.splits)
  have env_at: "map_of env ''ZLAUDER_PORT'' = Some (JStr zport)" "map_of env ''ANTHROPIC_BASE_URL'' = Some (JStr url)"
    by (simp_all add: env_def map_of_json_insert)
  have ours: "base_url_is_ours X (JObj c)" "statusline_is_ours (JObj c)" "has_wiring X (JObj c)"
    using env_at url sl port
    by (simp_all add: has_wiring_def base_url_is_ours_def statusline_is_ours_def baked_zport_def str_at_def
        pointer2_def json_get_def m json_str_def line_def)
  define e where "e = swap_remove ''ANTHROPIC_BASE_URL'' (swap_remove ''ZLAUDER_PORT'' env)"
  have e: "map_of e = map_of (swap_remove ''ANTHROPIC_BASE_URL'' (object_at ''env'' kvs))"
    using own by (auto simp: e_def env_def users_own_def own_object_def map_of_json_insert fun_eq_iff)
  define c1 where "c1 = put_or_drop ''env'' e c"
  have c1: "strip_env True c = c1" by (simp add: strip_env_put m json_object_def e_def c1_def)
  define c2 where "c2 = (case saved of Some l \<Rightarrow> json_insert ''statusLine'' l c1 | None \<Rightarrow> swap_remove ''statusLine'' c1)"
  have c2: "strip_statusline saved True c1 = (c2, saved \<noteq> None)"
    by (simp add: strip_statusline_def c2_def split: option.splits)
  have dm2: "distinct (map fst c2)"
    "map_of c2 = (map_of c)(''env'' := if e = [] then None else Some (JObj e), ''statusLine'' := saved)"
    using d by (simp_all add: c2_def c1_def map_of_json_insert split: option.splits)
  define c3 where "c3 = put_or_drop ''permissions'' (fold retain_rules permission_rule_sets perms) c2"
  have c3: "remove_permission_rules c2 = c3"
    by (simp add: remove_rules_put dm2 m json_object_def c3_def)
  define c4 where "c4 = put_or_drop ''autoMode'' (unnoted (noted (object_at ''autoMode'' kvs))) c3"
  have c4: "remove_automode_environment c3 = c4"
    using dm2 by (simp add: remove_note_put m json_object_def c3_def c4_def)
  have strip: "strip_value X saved (JObj c) = Some (JObj c4, saved \<noteq> None)"
    using ours by (simp add: strip_value_def c1 c2 c3 c4)
  have empty: "e = [] \<longleftrightarrow> swap_remove ''ANTHROPIC_BASE_URL'' (object_at ''env'' kvs) = []"
    by (simp only: empty_object e)
  have "same_member (((map_of (without_url kvs))(''statusLine'' := saved)) k) (map_of c4 k)" for k
  proof -
    have "map_of c4 = (map_of kvs)
        (''env'' := if e = [] then None else Some (JObj e), ''statusLine'' := saved,
         ''permissions'' := let p = fold retain_rules permission_rule_sets perms in
            if p = [] then None else Some (JObj p),
         ''autoMode'' := let n = unnoted (noted (object_at ''autoMode'' kvs)) in
            if n = [] then None else Some (JObj n))"
      using dm2 by (simp add: c4_def c3_def m Let_def fun_eq_iff)
    moreover have "same_member x x" for x by (simp add: same_member_def)
    ultimately show ?thesis
      using same_member_put [OF perms(2)] same_member_put [OF note_round] own e empty
      by (auto simp: users_own_def own_object_def without_url_def Let_def) (auto simp: same_member_def)
  qed
  with enabled strip show ?thesis by (rule that)
qed

definition no_faults :: settings_faults where
  "no_faults = \<lparr>sq_no_dir = False, sq_sidecar = False, sq_committed = False, sq_local = False\<rparr>"

lemma strip_nothing:
  assumes "load_settings_or_empty f = Inr v" and "\<not> has_wiring X v"
  shows "strip_routing_from X fails saved f = Inr (False, False, f)"
  using assms
  by (auto simp: load_settings_or_empty_def strip_routing_from_def strip_value_def
      split: option.splits settings_doc.splits)

lemma parse_u16_nonempty: "parse_u16 s = Some n \<Longrightarrow> s \<noteq> []"
  by (auto simp: parse_u16_def Let_def split: if_splits)

text \<open>
  C29: disabling undoes enabling.  On settings of the user's own, with none of ours in the committed
  file, enabling and then disabling leaves the committed file as it was and in the local file every
  member the user had, saying what it said (the user's permission rules, environment entries and
  environment variables included), with none of ours and no sidecar; the status line of the local
  file is then the one that was in effect, so a line of the committed file has been copied there.
  The exception is a base URL of the user's own in the local file: enabling overwrites it, no copy is
  kept, and disabling leaves none.
\<close>

theorem disable_undoes_enable:
  assumes "load_settings_or_empty (st_local fs) = Inr (JObj kvs)" and own: "users_own kvs"
    and committed: "load_settings_or_empty (st_committed fs) = Inr vc" "\<not> has_wiring X vc"
    and "st_sidecar fs = None"
    and url: "is_zlauder_base_url X url (parse_u16 zport)" and sl: "is_zlauder_statusline statusline"
  shows "\<exists>fs1 fs2 kvs2.
           settings_enable X no_faults url zport statusline fs = (Inr SettingsChanged, fs1) \<and>
           settings_disable_at X no_faults fs1 = (Inr SettingsChanged, fs2) \<and>
           st_committed fs2 = st_committed fs \<and> st_sidecar fs2 = None \<and>
           st_local fs2 = Some (Doc (JObj kvs2)) \<and>
           (\<forall>k. same_member
              (((map_of (without_url kvs))(''statusLine'' := effective_user_statusline [JObj kvs, vc])) k) (map_of kvs2 k))"
proof -
  define saved where "saved = effective_user_statusline [JObj kvs, vc]"
  obtain kvs1 kvs2 where round: "enabled_value url zport statusline kvs = Inr kvs1"
      "strip_value X saved (JObj kvs1) = Some (JObj kvs2, saved \<noteq> None)"
      "\<And>k. same_member (((map_of (without_url kvs))(''statusLine'' := saved)) k) (map_of kvs2 k)"
    using enabled_round [OF own url sl] by metis
  have "map_of (object_at ''env'' kvs) ''ZLAUDER_PORT'' = None" using own by (simp add: users_own_def)
  then have "str_at ''env'' ''ZLAUDER_PORT'' (JObj kvs) = None"
    by (auto simp: str_at_def pointer2_def json_get_def object_at_def json_object_def bind_eq_None_conv
        split: option.splits json.splits)
  moreover have "zport \<noteq> []"
    using url parse_u16_nonempty by (auto simp: is_zlauder_base_url_def split: option.splits)
  ultimately have fresh: "\<not> already_enabled url zport (JObj kvs)" by (simp add: already_enabled_def)
  define fs1 where "fs1 = fs\<lparr>st_sidecar := saved, st_local := Some (Doc (JObj kvs1))\<rparr>"
  have "settings_enable X no_faults url zport statusline fs =
      (Inr SettingsChanged, (case saved of None \<Rightarrow> fs | Some line \<Rightarrow> fs\<lparr>st_sidecar := Some line\<rparr>)
         \<lparr>st_committed := st_committed fs, st_local := Some (Doc (JObj kvs1))\<rparr>)"
    using assms(1) round(1) fresh strip_nothing [OF committed]
    by (cases saved) (simp_all add: settings_enable_def no_faults_def json_object_def committed(1) Let_def
        saved_def [symmetric] del: effective_user_statusline.simps)
  moreover have "(case saved of None \<Rightarrow> fs | Some line \<Rightarrow> fs\<lparr>st_sidecar := Some line\<rparr>)
      \<lparr>st_committed := st_committed fs, st_local := Some (Doc (JObj kvs1))\<rparr> = fs1"
    using assms(5) by (cases fs; cases saved) (simp_all add: fs1_def)
  ultimately have "settings_enable X no_faults url zport statusline fs = (Inr SettingsChanged, fs1)"
    by simp
  moreover have "settings_disable_at X no_faults fs1 =
      (Inr SettingsChanged, fs1\<lparr>st_local := Some (Doc (JObj kvs2)), st_sidecar := None\<rparr>)"
  proof -
    have "strip_routing_from X False saved (Some (Doc (JObj kvs1))) = Inr (True, saved \<noteq> None, Some (Doc (JObj kvs2)))"
      using round(2) by (simp add: strip_routing_from_def)
    then show ?thesis
      using strip_nothing [OF committed]
      by (cases fs) (simp add: settings_disable_at_def no_faults_def fs1_def Let_def)
  qed
  ultimately show ?thesis
    using round(3) unfolding saved_def [symmetric] by (auto simp: fs1_def)
qed

theorem disable_undoes_enable_witness:
  "let fs = \<lparr>st_local = Some (Doc (JObj [(''env'', JObj [(''ANTHROPIC_BASE_URL'', JStr ''https://gw'')])])),
             st_committed = None, st_sidecar = None\<rparr> in
   \<exists>fs1 fs2 kvs2.
     settings_enable sample_ext no_faults ''http://127.0.0.1:4000'' ''4000'' ''zlauder-hooks statusline'' fs =
       (Inr SettingsChanged, fs1) \<and>
     settings_disable_at sample_ext no_faults fs1 = (Inr SettingsChanged, fs2) \<and>
     st_local fs2 = Some (Doc (JObj kvs2)) \<and> map_of kvs2 ''env'' = None"
proof -
  let ?kvs = "[(''env'', JObj [(''ANTHROPIC_BASE_URL'', JStr ''https://gw'')])]"
  let ?fs = "\<lparr>st_local = Some (Doc (JObj ?kvs)), st_committed = None, st_sidecar = None\<rparr>"
  have at: "object_at ''env'' ?kvs = [(''ANTHROPIC_BASE_URL'', JStr ''https://gw'')]"
    "object_at ''permissions'' ?kvs = []" "object_at ''autoMode'' ?kvs = []"
    by (simp_all add: object_at_def json_object_def)
  have own: "users_own ?kvs"
    unfolding users_own_def own_object_def at
    by (simp add: own_rules_def own_environment_def statusline_is_ours_def str_at_def pointer2_def json_get_def
        is_zlauder_statusline_def)
  have trim: "str_trim sample_ext ''http://127.0.0.1:4000'' = ''http://127.0.0.1:4000''"
    by (simp add: str_trim_def sample_ext_def is_cont_def code_def)
  have authority: "strip_prefix ''http://'' (trim_end_slashes ''http://127.0.0.1:4000'') = Some ''127.0.0.1:4000''"
    by (simp add: strip_prefix_def trim_end_slashes_def)
  have parts: "rsplit_once (CHR '':'') ''127.0.0.1:4000'' = Some (''127.0.0.1'', ''4000'')"
    by (simp add: rsplit_once_def Let_def)
  have "is_digit_b (CHR ''4'')" "is_digit_b (CHR ''0'')" by (simp_all add: is_digit_b_def code_def)
  moreover have "dec_value ''4000'' = 4000" by (simp add: dec_value_def code_def)
  ultimately have port: "parse_u16 ''4000'' = Some 4000" by (simp add: parse_u16_def)
  have url: "is_zlauder_base_url sample_ext ''http://127.0.0.1:4000'' (parse_u16 ''4000'')"
    by (simp add: is_zlauder_base_url_def loopback_url_port_def trim authority parts port)
  have sl: "is_zlauder_statusline ''zlauder-hooks statusline''"
    by (simp add: is_zlauder_statusline_def)
  have none: "\<not> has_wiring sample_ext (JObj [])"
    by (simp add: has_wiring_def base_url_is_ours_def str_at_def pointer2_def json_get_def
        statusline_is_ours_def is_zlauder_statusline_def any_permission_rule_present_def
        permission_rule_sets_def rules_at_def automode_note_present_def list_ex_iff)
  have gone: "map_of (without_url ?kvs) ''env'' = None"
    unfolding without_url_def at by (simp add: put_or_drop_def)
  obtain fs1 fs2 kvs2 where run:
      "settings_enable sample_ext no_faults ''http://127.0.0.1:4000'' ''4000'' ''zlauder-hooks statusline'' ?fs =
        (Inr SettingsChanged, fs1)"
      "settings_disable_at sample_ext no_faults fs1 = (Inr SettingsChanged, fs2)"
      "st_local fs2 = Some (Doc (JObj kvs2))"
      "\<And>k. same_member (((map_of (without_url ?kvs))
         (''statusLine'' := effective_user_statusline [JObj ?kvs, JObj []])) k) (map_of kvs2 k)"
    using disable_undoes_enable [of ?fs ?kvs "JObj []", OF _ own _ none _ url sl]
    by (auto simp: load_settings_or_empty_def simp del: effective_user_statusline.simps)
  have "map_of kvs2 ''env'' = None" using run(4) [of "''env''"] gone by (simp add: same_member_def)
  with run show ?thesis by (auto simp: Let_def)
qed

end
