(* ===== verification/StateFiles.thy ===== *)
theory StateFiles
  imports Externals Paths
begin

text \<open>
  The files of crates/zlauder-state/src/lib.rs that say which projects are plumbed and where each
  project's proxy is: one file per project, named by a digest of the project's root, replaced by a
  rename of a file written beside it.
\<close>

section \<open>Where the files are\<close>

text \<open>The environment, on Unix.\<close>

type_synonym environment = "string \<rightharpoonup> string"

definition join :: "string \<Rightarrow> string \<Rightarrow> string" where
  "join base name =
     (if name \<noteq> [] \<and> hd name = CHR ''/'' then name
      else if base = [] \<or> last base = CHR ''/'' then base @ name
      else base @ ''/'' @ name)"

definition or_else :: "'a option \<Rightarrow> 'a option \<Rightarrow> 'a option" where
  "or_else x y = (case x of None \<Rightarrow> y | Some _ \<Rightarrow> x)"

definition user_config_path :: "environment \<Rightarrow> string" where
  "user_config_path env =
     (case env ''ZLAUDER_USER_CONFIG'' of
        Some p \<Rightarrow> p
      | None \<Rightarrow>
          let base = (case or_else (env ''XDG_CONFIG_HOME'')
                (map_option (\<lambda>h. join h ''.config'') (env ''HOME'')) of
                  None \<Rightarrow> ''.config'' | Some b \<Rightarrow> b) in
            join (join base ''zlauder'') ''config.toml'')"

definition registry_dir :: "environment \<Rightarrow> string" where
  "registry_dir env = with_file_name ''plumbed'' (user_config_path env)"

text \<open>The name of a project's file in its directory, and of the file written beside it.\<close>

definition project_key :: "'x ext_scheme \<Rightarrow> string \<Rightarrow> string" where
  "project_key X proj = to_hex (x_blake3 X proj)"

definition entry_name :: "'x ext_scheme \<Rightarrow> string \<Rightarrow> string" where
  "entry_name X proj = project_key X proj @ ''.json''"

definition temp_sibling :: "nat \<Rightarrow> string \<Rightarrow> string" where
  "temp_sibling process name = ''.'' @ name @ ''.tmp.'' @ dec_string process"

section \<open>A directory\<close>

text \<open>
  A directory is its listing, each name once.  What an operation meets: the directory cannot be
  made, a write stops with something else at the path (or nothing), a rename, a removal fails.
\<close>

type_synonym 'f dir = "(string \<times> 'f) list"

definition dir_put :: "string \<Rightarrow> 'f \<Rightarrow> 'f dir \<Rightarrow> 'f dir" where
  "dir_put name c d = filter (\<lambda>(n, _). n \<noteq> name) d @ [(name, c)]"

definition dir_remove :: "string \<Rightarrow> 'f dir \<Rightarrow> 'f dir" where
  "dir_remove name d = filter (\<lambda>(n, _). n \<noteq> name) d"

definition dir_rename :: "string \<Rightarrow> string \<Rightarrow> 'f dir \<Rightarrow> 'f dir" where
  "dir_rename source target d =
     (case map_of d source of None \<Rightarrow> d | Some c \<Rightarrow> dir_put target c (dir_remove source d))"

datatype 'f write_fault = NoFault | TornWrite "'f option"

record 'f dir_faults =
  df_no_dir :: bool
  df_write :: "'f write_fault"
  df_rename :: bool
  df_remove :: bool

datatype state_error =
    CannotMakeDir
  | CannotWriteTemp
  | CannotRename
  | CannotRemove

type_synonym 'f dir_result = "(state_error option) \<times> 'f dir"

section \<open>The registry of plumbed projects\<close>

datatype plumb_state = Plumbed | Optout

record registry_entry =
  re_root :: string
  re_state :: plumb_state

datatype registry_file = RegistryEntry registry_entry | RegistryGarbage

type_synonym registry = "registry_file dir"

definition registry_get :: "'x ext_scheme \<Rightarrow> registry \<Rightarrow> string \<Rightarrow> plumb_state option" where
  "registry_get X d proj =
     (case map_of d (entry_name X proj) of
        Some (RegistryEntry e) \<Rightarrow> if re_root e = proj then Some (re_state e) else None
      | _ \<Rightarrow> None)"

definition registry_set ::
  "'x ext_scheme \<Rightarrow> nat \<Rightarrow> registry_file dir_faults \<Rightarrow> string \<Rightarrow> plumb_state \<Rightarrow> registry \<Rightarrow>
   registry_file dir_result" where
  "registry_set X process faults proj state d =
     (if df_no_dir faults then (Some CannotMakeDir, d)
      else
        let name = entry_name X proj; tmp = temp_sibling process name;
            entry = RegistryEntry \<lparr>re_root = proj, re_state = state\<rparr> in
        case df_write faults of
          TornWrite None \<Rightarrow> (Some CannotWriteTemp, dir_remove tmp d)
        | TornWrite (Some c) \<Rightarrow> (Some CannotWriteTemp, dir_put tmp c d)
        | NoFault \<Rightarrow>
            let d1 = dir_put tmp entry d in
            if df_rename faults then (Some CannotRename, d1) else (None, dir_rename tmp name d1))"

definition registry_remove ::
  "'x ext_scheme \<Rightarrow> registry_file dir_faults \<Rightarrow> string \<Rightarrow> registry \<Rightarrow> registry_file dir_result" where
  "registry_remove X faults proj d =
     (if map_of d (entry_name X proj) = None then (None, d)
      else if df_remove faults then (Some CannotRemove, d)
      else (None, dir_remove (entry_name X proj) d))"

definition plumbed_root :: "'x ext_scheme \<Rightarrow> string \<times> registry_file \<Rightarrow> string option" where
  "plumbed_root X = (\<lambda>(name, f).
     if path_extension name \<noteq> Some ''json'' then None
     else (case f of
             RegistryGarbage \<Rightarrow> None
           | RegistryEntry e \<Rightarrow>
               if name \<noteq> entry_name X (re_root e) then None
               else if re_state e = Plumbed then Some (re_root e)
               else None))"

definition registry_plumbed_roots :: "'x ext_scheme \<Rightarrow> registry \<Rightarrow> string list" where
  "registry_plumbed_roots X d = List.map_filter (plumbed_root X) d"

section \<open>The rendezvous records\<close>

record rendezvous =
  rv_project_root :: string
  rv_port :: nat
  rv_admin_key :: string
  rv_salt :: string
  rv_base_url :: string
  rv_pid :: nat
  rv_bind :: string
  rv_last_port :: nat
  rv_build_id :: string
  rv_started_unix :: nat
  rv_nonce :: string

text \<open>A file of the directory: its permission bits, its owner, and the record, if it parses.\<close>

record rendezvous_file =
  rf_mode :: nat
  rf_uid :: nat
  rf_record :: "rendezvous option"

definition owner_only_readable :: "nat \<Rightarrow> rendezvous_file \<Rightarrow> bool" where
  "owner_only_readable euid f \<longleftrightarrow> rf_mode f mod 64 = 0 \<and> rf_uid f = euid"

definition read_rendezvous ::
  "'x ext_scheme \<Rightarrow> nat \<Rightarrow> rendezvous_file dir \<Rightarrow> string \<Rightarrow> rendezvous option" where
  "read_rendezvous X euid d proj =
     (case map_of d (entry_name X proj) of
        None \<Rightarrow> None
      | Some f \<Rightarrow>
          if \<not> owner_only_readable euid f then None
          else (case rf_record f of
                  None \<Rightarrow> None
                | Some r \<Rightarrow> if rv_project_root r = proj then Some r else None))"

text \<open>A failed write, and a failed rename, remove the file written beside.\<close>

definition write_rendezvous ::
  "'x ext_scheme \<Rightarrow> nat \<Rightarrow> nat \<Rightarrow> rendezvous_file dir_faults \<Rightarrow> rendezvous \<Rightarrow> rendezvous_file dir \<Rightarrow>
   rendezvous_file dir_result" where
  "write_rendezvous X euid process faults r d =
     (if df_no_dir faults then (Some CannotMakeDir, d)
      else
        let name = entry_name X (rv_project_root r); tmp = temp_sibling process name;
            f = \<lparr>rf_mode = 384, rf_uid = euid, rf_record = Some r\<rparr> in
        case df_write faults of
          TornWrite c \<Rightarrow> (Some CannotWriteTemp,
            if df_remove faults \<and> c \<noteq> None then dir_put tmp (the c) d else dir_remove tmp d)
        | NoFault \<Rightarrow>
            if df_rename faults
            then (Some CannotRename, if df_remove faults then dir_put tmp f d else dir_remove tmp d)
            else (None, dir_rename tmp name (dir_put tmp f d)))"

definition rendezvous_remove ::
  "'x ext_scheme \<Rightarrow> rendezvous_file dir_faults \<Rightarrow> string \<Rightarrow> rendezvous_file dir \<Rightarrow>
   rendezvous_file dir_result" where
  "rendezvous_remove X faults proj d =
     (if df_no_dir faults then (Some CannotMakeDir, d)
      else if map_of d (entry_name X proj) = None then (None, d)
      else if df_remove faults then (Some CannotRemove, d)
      else (None, dir_remove (entry_name X proj) d))"

definition rendezvous_remove_if_owned ::
  "'x ext_scheme \<Rightarrow> nat \<Rightarrow> rendezvous_file dir_faults \<Rightarrow> string \<Rightarrow> string \<Rightarrow> nat \<Rightarrow>
   rendezvous_file dir \<Rightarrow> rendezvous_file dir_result" where
  "rendezvous_remove_if_owned X euid faults proj nonce process d =
     (if df_no_dir faults then (None, d)
      else (case read_rendezvous X euid d proj of
              Some r \<Rightarrow>
                if rv_nonce r = nonce \<and> rv_pid r = process then rendezvous_remove X faults proj d
                else (None, d)
            | None \<Rightarrow> (None, d)))"

definition live_port ::
  "'x ext_scheme \<Rightarrow> nat \<Rightarrow> (nat \<Rightarrow> bool) \<Rightarrow> rendezvous_file dir \<Rightarrow> string \<Rightarrow> (nat \<times> rendezvous) option" where
  "live_port X euid alive d proj =
     (case read_rendezvous X euid d proj of
        None \<Rightarrow> None
      | Some r \<Rightarrow>
          if rv_port r \<noteq> 0 \<and> rv_pid r \<noteq> 0 \<and> alive (rv_pid r) then Some (rv_port r, r) else None)"

end
