(* ===== verification/StateFilesCorrect.thy ===== *)
theory StateFilesCorrect
  imports StateFiles Instances
begin

text \<open>
  The registry is a map from projects to states, whatever the crashed writers left beside it, and
  the rendezvous records are read back as they were written.
\<close>

section \<open>Names\<close>

lemma project_key_chars: "list_all is_lhex (project_key X proj)"
  by (simp add: project_key_def list_all_to_hex)

lemma lhex_not_special: "is_lhex c \<Longrightarrow> c \<noteq> CHR ''.'' \<and> c \<noteq> CHR ''/''"
  by (auto simp: is_lhex_def is_digit_b_def code_def)

lemma project_key_nonempty: "blake3_ok X \<Longrightarrow> project_key X proj \<noteq> []"
proof
  assume "blake3_ok X" "project_key X proj = []"
  moreover have "length (project_key X proj) = 2 * length (x_blake3 X proj)"
    by (simp add: project_key_def)
  ultimately show False by (simp add: blake3_ok_def)
qed

lemma entry_name_not_temp:
  assumes "blake3_ok X"
  shows "entry_name X proj \<noteq> temp_sibling process name"
proof
  assume same: "entry_name X proj = temp_sibling process name"
  obtain c cs where key: "project_key X proj = c # cs"
    using project_key_nonempty [OF assms, of proj] by (cases "project_key X proj") auto
  with same have "c = CHR ''.''" by (simp add: entry_name_def temp_sibling_def)
  then show False
    using key project_key_chars [of X proj] lhex_not_special [of c] by simp
qed

lemma entry_name_eq [simp]: "entry_name X r = entry_name X s \<longleftrightarrow> project_key X r = project_key X s"
  by (simp add: entry_name_def)

lemma entry_name_extension:
  assumes "blake3_ok X"
  shows "path_extension (entry_name X proj) = Some ''json''"
proof -
  have "CHR ''/'' \<notin> set (project_key X proj)"
    using project_key_chars [of X proj] lhex_not_special by (auto simp: list_all_iff)
  then show ?thesis
    using path_extension_of_name [of "project_key X proj" "''json''"] project_key_nonempty [OF assms]
    by (simp add: entry_name_def)
qed

section \<open>Directories\<close>

lemma map_of_dir_remove [simp]: "map_of (dir_remove n d) = (map_of d)(n := None)"
  by (rule ext) (induction d, auto simp: dir_remove_def)

lemma map_of_dir_put [simp]: "map_of (dir_put n c d) = (map_of d)(n \<mapsto> c)"
proof -
  have "dir_put n c d = dir_remove n d @ [(n, c)]" by (simp add: dir_put_def dir_remove_def)
  then show ?thesis by (auto simp: map_add_def split: option.splits)
qed

lemma map_of_dir_rename [simp]:
  "map_of d source = Some c \<Longrightarrow> map_of (dir_rename source target d) = (map_of d)(source := None, target \<mapsto> c)"
  by (simp add: dir_rename_def)

section \<open>The registry\<close>

text \<open>The project's file name decides what is read; a file written beside it is never read.\<close>

lemma registry_get_put:
  "registry_get X (dir_put (entry_name X p) (RegistryEntry e) d) r =
     (if project_key X r = project_key X p then (if re_root e = r then Some (re_state e) else None)
      else registry_get X d r)"
  by (simp add: registry_get_def)

lemma registry_get_beside:
  "blake3_ok X \<Longrightarrow> map_of d' = (map_of d)(temp_sibling process name := f) \<Longrightarrow>
   registry_get X d' r = registry_get X d r"
  by (simp add: registry_get_def entry_name_not_temp)

lemma registry_get_iff:
  "registry_get X d r = Some s \<longleftrightarrow>
     map_of d (entry_name X r) = Some (RegistryEntry \<lparr>re_root = r, re_state = s\<rparr>)"
proof -
  have "re_root e = r \<and> re_state e = s \<longleftrightarrow> e = \<lparr>re_root = r, re_state = s\<rparr>" for e :: registry_entry
    by (cases e) simp
  then show ?thesis by (auto simp: registry_get_def split: option.splits registry_file.splits)
qed

text \<open>
  The registry is a map from projects to states.  Recording a state changes the entry of that
  project alone (a project whose digest collides loses its own), removing one clears it alone, and
  an operation that fails, at whatever file operation and whatever it leaves beside, changes no
  entry.
\<close>

lemma registry_is_a_map:
  assumes "blake3_ok X"
  shows "(case registry_set X process faults p state d of
            (None, d') \<Rightarrow> registry_get X d' r =
              (if r = p then Some state
               else if project_key X r = project_key X p then None else registry_get X d r)
          | (Some e, d') \<Rightarrow> registry_get X d' r = registry_get X d r) \<and>
         (case registry_remove X faults p d of
            (None, d') \<Rightarrow> registry_get X d' r =
              (if project_key X r = project_key X p then None else registry_get X d r)
          | (Some e, d') \<Rightarrow> registry_get X d' r = registry_get X d r)"
proof -
  have differ: "entry_name X q \<noteq> temp_sibling process n" "temp_sibling process n \<noteq> entry_name X q" for q n
    using entry_name_not_temp [OF assms] by metis+
  have same: "entry_name X r = entry_name X p" if "project_key X r = project_key X p"
    using that by simp
  show ?thesis
    by (cases "project_key X r = project_key X p")
      (auto simp: registry_set_def registry_remove_def registry_get_def Let_def differ dest: same
        split: write_fault.splits option.splits)
qed

lemma plumbed_root_iff:
  assumes "blake3_ok X"
  shows "plumbed_root X (name, f) = Some r \<longleftrightarrow>
         name = entry_name X r \<and> f = RegistryEntry \<lparr>re_root = r, re_state = Plumbed\<rparr>"
  using entry_name_extension [OF assms]
  by (auto simp: plumbed_root_def split: registry_file.splits if_splits)

lemma map_filter_distinct:
  "distinct xs \<Longrightarrow> (\<And>x y r. f x = Some r \<Longrightarrow> f y = Some r \<Longrightarrow> x = y) \<Longrightarrow> distinct (List.map_filter f xs)"
proof (induction xs)
  case (Cons a xs)
  have "r \<notin> set (List.map_filter f xs)" if "f a = Some r" for r
  proof
    assume "r \<in> set (List.map_filter f xs)"
    then obtain x where "x \<in> set xs" "f x = Some r" by (auto simp: List.map_filter_def)
    with Cons.prems that show False by fastforce
  qed
  with Cons show ?case by (auto simp: map_filter_simps split: option.splits)
qed (simp add: map_filter_simps)

text \<open>
  The roots the registry lists are, once each, exactly the projects whose recorded state is plumbed:
  the files half-written or left by a crash, those under a wrong name and those that do not parse
  neither hide a project nor add one.
\<close>

lemma plumbed_roots_exact:
  assumes "blake3_ok X" and "distinct (map fst d)"
  shows "distinct (registry_plumbed_roots X d) \<and>
         set (registry_plumbed_roots X d) = {r. registry_get X d r = Some Plumbed}"
proof
  have "distinct d" using assms(2) by (simp add: distinct_map)
  moreover have "x = y" if "plumbed_root X x = Some r" "plumbed_root X y = Some r" for x y r
    using that plumbed_root_iff [OF assms(1)] by (cases x; cases y) auto
  ultimately show "distinct (registry_plumbed_roots X d)"
    unfolding registry_plumbed_roots_def by (rule map_filter_distinct)
  have "r \<in> set (registry_plumbed_roots X d) \<longleftrightarrow>
      (entry_name X r, RegistryEntry \<lparr>re_root = r, re_state = Plumbed\<rparr>) \<in> set d" for r
  proof -
    have "r \<in> set (registry_plumbed_roots X d) \<longleftrightarrow> (\<exists>name f. (name, f) \<in> set d \<and> plumbed_root X (name, f) = Some r)"
      by (force simp: registry_plumbed_roots_def List.map_filter_def image_iff)
    then show ?thesis by (auto simp: plumbed_root_iff [OF assms(1)])
  qed
  then show "set (registry_plumbed_roots X d) = {r. registry_get X d r = Some Plumbed}"
    using map_of_eq_Some_iff [OF assms(2)] by (auto simp: registry_get_iff)
qed

lemma registry_is_a_map_witness:
  "blake3_ok sample_ext \<and>
   (case registry_set sample_ext 7 \<lparr>df_no_dir = False, df_write = NoFault, df_rename = False, df_remove = False\<rparr>
      ''/p'' Optout [] of (res, d') \<Rightarrow> registry_get sample_ext d' ''/p'' = Some Optout)"
proof -
  have ok: "blake3_ok sample_ext" by (rule sample_blake3_ok)
  have "fst (registry_set sample_ext 7
      \<lparr>df_no_dir = False, df_write = NoFault, df_rename = False, df_remove = False\<rparr> ''/p'' Optout []) = None"
    by (simp add: registry_set_def Let_def)
  with registry_is_a_map [OF ok, where process = 7 and p = "''/p''" and r = "''/p''" and state = Optout
      and d = "[]" and faults = "\<lparr>df_no_dir = False, df_write = NoFault, df_rename = False, df_remove = False\<rparr>"]
  show ?thesis using ok by (auto split: prod.splits)
qed

section \<open>The rendezvous records\<close>

text \<open>
  What a proxy publishes is what the next reader of its project finds, and no other project's
  record changes, unless its digest collides and it then reads none; a publication that fails changes
  no record and, when its clean-up works, leaves no file beside.  A proxy that stops after a successor
  has published leaves the successor's record as it is.
\<close>

lemma rendezvous_roundtrip:
  assumes "blake3_ok X"
  shows "(case write_rendezvous X euid process faults r d of
            (None, d') \<Rightarrow>
              read_rendezvous X euid d' q =
                (if q = rv_project_root r then Some r
                 else if project_key X q = project_key X (rv_project_root r) then None
                 else read_rendezvous X euid d q) \<and>
              (rv_nonce r \<noteq> nonce \<or> rv_pid r \<noteq> stopping \<longrightarrow>
                 rendezvous_remove_if_owned X euid faults' (rv_project_root r) nonce stopping d' = (None, d'))
          | (Some e, d') \<Rightarrow>
              read_rendezvous X euid d' q = read_rendezvous X euid d q \<and>
              (e \<noteq> CannotMakeDir \<and> \<not> df_remove faults \<longrightarrow>
                 map_of d' (temp_sibling process (entry_name X (rv_project_root r))) = None))"
proof -
  have differ: "entry_name X q \<noteq> temp_sibling process n" "temp_sibling process n \<noteq> entry_name X q" for q n
    using entry_name_not_temp [OF assms] by metis+
  have same: "entry_name X q = entry_name X p" if "project_key X q = project_key X p" for p
    using that by simp
  show ?thesis
    by (cases "project_key X q = project_key X (rv_project_root r)")
      (auto simp: write_rendezvous_def read_rendezvous_def rendezvous_remove_if_owned_def Let_def
        owner_only_readable_def differ dest: same split: write_fault.splits option.splits)
qed

lemma rendezvous_roundtrip_witness:
  "let r = \<lparr>rv_project_root = ''/p'', rv_port = 4000, rv_admin_key = [], rv_salt = [], rv_base_url = [],
        rv_pid = 9, rv_bind = [], rv_last_port = 4000, rv_build_id = [], rv_started_unix = 0, rv_nonce = ''n''\<rparr>;
       faults = \<lparr>df_no_dir = False, df_write = NoFault, df_rename = False, df_remove = False\<rparr> in
   read_rendezvous sample_ext 0 (snd (write_rendezvous sample_ext 0 9 faults r [])) ''/p'' = Some r"
proof -
  let ?faults = "\<lparr>df_no_dir = False, df_write = NoFault, df_rename = False, df_remove = False\<rparr>"
  let ?r = "\<lparr>rv_project_root = ''/p'', rv_port = 4000, rv_admin_key = [], rv_salt = [], rv_base_url = [],
        rv_pid = 9, rv_bind = [], rv_last_port = 4000, rv_build_id = [], rv_started_unix = 0, rv_nonce = ''n''\<rparr>"
  have "blake3_ok sample_ext" by (rule sample_blake3_ok)
  note written = rendezvous_roundtrip [OF this, where euid = 0 and process = 9 and faults = ?faults and r = ?r
      and d = "[]" and q = "''/p''"]
  obtain d' where w: "write_rendezvous sample_ext 0 9 ?faults ?r [] = (None, d')"
    by (auto simp: write_rendezvous_def Let_def)
  from written have "read_rendezvous sample_ext 0 d' ''/p'' = Some ?r" unfolding w by simp
  then show ?thesis unfolding Let_def w by simp
qed

end
