(* ===== verification/Sweep.thy ===== *)
theory Sweep
  imports SettingsCorrect StateFilesCorrect
begin

text \<open>
  The sweep of \<open>/zlauder:disable --all\<close> (\<open>settings_disable_all\<close> of
  crates/zlauder-hooks/src/main.rs): it disables the projects the registry has as plumbed and those
  of the session logs whose settings carry a route of ours, and says whether the plugin can be
  uninstalled.
\<close>

section \<open>Which projects\<close>

text \<open>\<open>project_baked_route\<close>; a file that cannot be read as JSON is passed over.\<close>

definition baked_in :: "'x ext_scheme \<Rightarrow> settings_doc option \<Rightarrow> nat option" where
  "baked_in X f =
     (case f of
        Some (Doc v) \<Rightarrow>
          (case (str_at ''env'' ''ANTHROPIC_BASE_URL'' v,
                 Option.bind (str_at ''env'' ''ZLAUDER_PORT'' v) parse_u16) of
             (Some url, Some zp) \<Rightarrow> if loopback_url_port X url = Some zp then Some zp else None
           | _ \<Rightarrow> None)
      | _ \<Rightarrow> None)"

definition project_baked_route :: "'x ext_scheme \<Rightarrow> settings_files \<Rightarrow> nat option" where
  "project_baked_route X fs = or_else (baked_in X (st_local fs)) (baked_in X (st_committed fs))"

text \<open>
  The settings of a project by its root, and the registry.  The roots the session logs name are a
  list given to the sweep; two names of one directory are two projects here.
\<close>

type_synonym projects = "string \<Rightarrow> settings_files"

fun sweep_discovered :: "'x ext_scheme \<Rightarrow> projects \<Rightarrow> string list \<Rightarrow> string list \<Rightarrow> string list" where
  "sweep_discovered X ps roots [] = roots"
| "sweep_discovered X ps roots (r # rs) =
     sweep_discovered X ps
       (if r \<notin> set roots \<and> project_baked_route X (ps r) \<noteq> None then roots @ [r] else roots) rs"

section \<open>The sweep\<close>

text \<open>What is printed at the end: the projects done and those left, none at all being its own report.\<close>

datatype sweep_report = NothingToSweep | Swept nat nat

definition sweep_exit :: "sweep_report \<Rightarrow> nat" where
  "sweep_exit rep = (case rep of NothingToSweep \<Rightarrow> 0 | Swept done_n failed \<Rightarrow> if failed = 0 then 0 else 1)"

text \<open>
  What the file operations meet, by project.  A registry entry that cannot be removed is passed over
  in silence.
\<close>

record sweep_faults =
  sf_settings :: "string \<Rightarrow> settings_faults"
  sf_registry :: "string \<Rightarrow> registry_file dir_faults"

fun sweep_each ::
  "'x ext_scheme \<Rightarrow> sweep_faults \<Rightarrow> string list \<Rightarrow> nat \<Rightarrow> projects \<Rightarrow> registry \<Rightarrow>
   nat \<times> projects \<times> registry" where
  "sweep_each X F [] n ps d = (n, ps, d)"
| "sweep_each X F (r # rs) n ps d =
     (case settings_disable_at X (sf_settings F r) (ps r) of
        (Inr _, fs) \<Rightarrow> sweep_each X F rs (Suc n) (ps(r := fs)) (snd (registry_remove X (sf_registry F r) r d))
      | (Inl _, fs) \<Rightarrow> sweep_each X F rs n (ps(r := fs)) d)"

definition settings_disable_all ::
  "'x ext_scheme \<Rightarrow> sweep_faults \<Rightarrow> string list \<Rightarrow> projects \<Rightarrow> registry \<Rightarrow>
   sweep_report \<times> projects \<times> registry" where
  "settings_disable_all X F discovered ps d =
     (let roots = sweep_discovered X ps (registry_plumbed_roots X d) discovered in
        if roots = [] then (NothingToSweep, ps, d)
        else (case sweep_each X F roots 0 ps d of
                (n, ps', d') \<Rightarrow> (Swept n (length roots - n), ps', d')))"

section \<open>What a route is\<close>

text \<open>
  A loopback URL of a port, and settings that route through us: the base URL is a loopback URL of the
  very port recorded beside it.
\<close>

definition loops_to :: "'x ext_scheme \<Rightarrow> string \<Rightarrow> nat \<Rightarrow> bool" where
  "loops_to X url p \<longleftrightarrow>
     (\<exists>host port n. str_trim X url = ''http://'' @ host @ '':'' @ port @ replicate n (CHR ''/'') \<and>
        (host = ''127.0.0.1'' \<or> host = ''localhost'') \<and> parse_u16 port = Some p)"

definition routes :: "'x ext_scheme \<Rightarrow> json \<Rightarrow> bool" where
  "routes X v \<longleftrightarrow>
     (\<exists>url port p. pointer2 ''env'' ''ANTHROPIC_BASE_URL'' v = Some (JStr url) \<and>
        pointer2 ''env'' ''ZLAUDER_PORT'' v = Some (JStr port) \<and>
        parse_u16 port = Some p \<and> loops_to X url p)"

definition routed :: "'x ext_scheme \<Rightarrow> settings_files \<Rightarrow> bool" where
  "routed X fs \<longleftrightarrow> (\<exists>v. (st_local fs = Some (Doc v) \<or> st_committed fs = Some (Doc v)) \<and> routes X v)"

lemma parse_u16_chars:
  assumes "parse_u16 s = Some n"
  shows "s \<noteq> [] \<and> CHR '':'' \<notin> set s \<and> CHR ''/'' \<notin> set s"
proof -
  have "c \<noteq> CHR '':'' \<and> c \<noteq> CHR ''/''" if "is_digit_b c" for c
    using that by (auto simp: is_digit_b_def code_def)
  with assms show ?thesis
    by (cases s) (auto simp: parse_u16_def Let_def list_all_iff split: if_splits)
qed

lemma trim_end_slashes_split: "\<exists>n. s = trim_end_slashes s @ replicate n (CHR ''/'')"
proof -
  have "rev s = takeWhile (\<lambda>c. c = CHR ''/'') (rev s) @ dropWhile (\<lambda>c. c = CHR ''/'') (rev s)" by simp
  moreover have "takeWhile (\<lambda>c. c = CHR ''/'') (rev s) =
      replicate (length (takeWhile (\<lambda>c. c = CHR ''/'') (rev s))) (CHR ''/'')"
    by (rule replicate_eqI) (auto dest: set_takeWhileD)
  ultimately show ?thesis unfolding trim_end_slashes_def by (metis rev_append rev_replicate rev_rev_ident)
qed

lemma trim_end_slashes_append:
  "s \<noteq> [] \<Longrightarrow> last s \<noteq> CHR ''/'' \<Longrightarrow> trim_end_slashes (s @ replicate n (CHR ''/'')) = s"
proof -
  assume "s \<noteq> []" "last s \<noteq> CHR ''/''"
  then obtain c cs where "rev s = c # cs" "c \<noteq> CHR ''/''"
    by (cases "rev s") (auto simp: last_conv_nth hd_rev [symmetric])
  moreover from this have "s = rev (c # cs)" by (metis rev_rev_ident)
  moreover have "dropWhile P (replicate n x @ ys) = dropWhile P ys" if "P x" for P and x :: char and ys
    using that by (induction n) auto
  ultimately show "trim_end_slashes (s @ replicate n (CHR ''/'')) = s"
    by (simp add: trim_end_slashes_def)
qed

lemma rsplit_once_iff:
  "rsplit_once c s = Some (a, b) \<longleftrightarrow> s = a @ [c] @ b \<and> c \<notin> set b"
proof
  assume split: "rsplit_once c s = Some (a, b)"
  define w where "w = takeWhile (\<lambda>x. x \<noteq> c) (rev s)"
  define u where "u = dropWhile (\<lambda>x. x \<noteq> c) (rev s)"
  have s: "rev s = w @ u" by (simp add: w_def u_def)
  then have s': "s = rev u @ rev w" by (metis rev_append rev_rev_ident)
  from split have "length w \<noteq> length s" and b: "b = rev w" and a: "a = take (length s - Suc (length w)) s"
    by (auto simp: rsplit_once_def Let_def w_def split: if_splits)
  with s' have "u \<noteq> []" by auto
  then obtain us where u: "u = c # us" using hd_dropWhile [of "\<lambda>x. x \<noteq> c" "rev s"] by (cases u) (auto simp: u_def)
  have "s = rev us @ [c] @ rev w" using s' u by simp
  moreover from this have "a = rev us" using a by simp
  moreover have "c \<notin> set w" unfolding w_def by (auto dest: set_takeWhileD)
  ultimately show "s = a @ [c] @ b \<and> c \<notin> set b" using b by simp
next
  assume "s = a @ [c] @ b \<and> c \<notin> set b"
  then have s: "s = a @ [c] @ b" and b: "c \<notin> set b" by auto
  have "takeWhile (\<lambda>x. x \<noteq> c) (rev b @ c # rev a) = rev b"
    using b by (subst takeWhile_append2) auto
  then show "rsplit_once c s = Some (a, b)" by (simp add: rsplit_once_def s Let_def)
qed

lemma loopback_iff: "loopback_url_port X url = Some p \<longleftrightarrow> loops_to X url p"
proof
  assume "loopback_url_port X url = Some p"
  then obtain host port where
      authority: "trim_end_slashes (str_trim X url) = ''http://'' @ host @ '':'' @ port"
      and host: "host = ''127.0.0.1'' \<or> host = ''localhost''" and port: "parse_u16 port = Some p"
    by (auto simp: loopback_url_port_def strip_prefix_def rsplit_once_iff prefix_def
        split: option.splits if_splits prod.splits)
  obtain n where "str_trim X url = trim_end_slashes (str_trim X url) @ replicate n (CHR ''/'')"
    using trim_end_slashes_split by blast
  then show "loops_to X url p"
    unfolding loops_to_def authority using host port by (intro exI [of _ host] exI [of _ port] exI [of _ n]) simp
next
  assume "loops_to X url p"
  then obtain host port n where
      url: "str_trim X url = ''http://'' @ host @ '':'' @ port @ replicate n (CHR ''/'')"
      and host: "host = ''127.0.0.1'' \<or> host = ''localhost''" and port: "parse_u16 port = Some p"
    by (auto simp: loops_to_def)
  note chars = parse_u16_chars [OF port]
  then have "last port \<noteq> CHR ''/''" by (metis last_in_set)
  then have trim: "trim_end_slashes (str_trim X url) = ''http://'' @ host @ '':'' @ port"
    using trim_end_slashes_append [of "''http://'' @ host @ '':'' @ port" n] chars by (simp add: url)
  have "strip_prefix ''http://'' (''http://'' @ host @ '':'' @ port) = Some (host @ '':'' @ port)"
    by (simp add: strip_prefix_def)
  moreover have "rsplit_once (CHR '':'') (host @ '':'' @ port) = Some (host, port)"
    using chars by (simp add: rsplit_once_iff)
  ultimately show "loopback_url_port X url = Some p"
    using host port chars by (auto simp: loopback_url_port_def trim)
qed

lemma str_at_iff: "str_at k k' v = Some s \<longleftrightarrow> pointer2 k k' v = Some (JStr s)"
  by (cases "pointer2 k k' v") (auto simp: str_at_def json_str_def split: json.splits)

lemma baked_iff: "project_baked_route X fs \<noteq> None \<longleftrightarrow> routed X fs"
proof -
  have "baked_in X f \<noteq> None \<longleftrightarrow> (\<exists>v. f = Some (Doc v) \<and> routes X v)" for f
  proof (cases f)
    case (Some c)
    then show ?thesis
    proof (cases c)
      case (Doc v)
      have "baked_in X f \<noteq> None \<longleftrightarrow> (\<exists>url port p. str_at ''env'' ''ANTHROPIC_BASE_URL'' v = Some url \<and>
          str_at ''env'' ''ZLAUDER_PORT'' v = Some port \<and> parse_u16 port = Some p \<and> loopback_url_port X url = Some p)"
        by (auto simp: baked_in_def Some Doc bind_eq_Some_conv split: option.splits)
      then show ?thesis by (auto simp: Some Doc routes_def str_at_iff loopback_iff)
    qed (simp add: baked_in_def)
  qed (simp add: baked_in_def)
  note each = this [of "st_local fs"] this [of "st_committed fs"]
  show ?thesis
    using each by (cases "baked_in X (st_local fs)") (auto simp: project_baked_route_def or_else_def routed_def)
qed

end
