(* ===== verification/SweepCorrect.thy ===== *)
theory SweepCorrect
  imports Sweep
begin

text \<open>
  The sweep disables the plumbed and the routed projects and no other, and its report says whether a
  route is left.
\<close>

section \<open>Disabling takes the route out\<close>

text \<open>Objects as the parser makes them: no name twice, in the settings nor in their environment.\<close>

definition keyed :: "json \<Rightarrow> bool" where
  "keyed v \<longleftrightarrow>
     (\<forall>kvs. v = JObj kvs \<longrightarrow> distinct (map fst kvs)) \<and>
     (\<forall>env. json_get ''env'' v = Some (JObj env) \<longrightarrow> distinct (map fst env))"

definition keyed_files :: "settings_files \<Rightarrow> bool" where
  "keyed_files fs \<longleftrightarrow>
     (\<forall>v. st_local fs = Some (Doc v) \<or> st_committed fs = Some (Doc v) \<longrightarrow> keyed v)"

definition portless :: "(string \<times> json) list \<Rightarrow> bool" where
  "portless kvs \<longleftrightarrow> distinct (map fst kvs) \<and> pointer2 ''env'' ''ZLAUDER_PORT'' (JObj kvs) = None"

lemma portless_put [simp]: "k \<noteq> ''env'' \<Longrightarrow> portless kvs \<Longrightarrow> portless (put_or_drop k o' kvs)"
  by (simp add: portless_def pointer2_def json_get_def)

lemma portless_insert [simp]: "k \<noteq> ''env'' \<Longrightarrow> portless kvs \<Longrightarrow> portless (json_insert k v kvs)"
  by (simp add: portless_def pointer2_def json_get_def map_of_json_insert)

lemma portless_remove [simp]: "k \<noteq> ''env'' \<Longrightarrow> portless kvs \<Longrightarrow> portless (swap_remove k kvs)"
  by (simp add: portless_def pointer2_def json_get_def)

lemma strip_env_portless:
  assumes "keyed (JObj kvs)"
  shows "portless (strip_env ours kvs)"
proof (cases "Option.bind (map_of kvs ''env'') json_object")
  case None
  have "json_get k v = None" if "json_object v = None" for k v
    using that by (cases v) (simp_all add: json_get_def json_object_def)
  with None have "pointer2 ''env'' ''ZLAUDER_PORT'' (JObj kvs) = None"
    by (cases "map_of kvs ''env''") (simp_all add: pointer2_def json_get_def [of _ "JObj kvs"])
  with None assms show ?thesis by (simp add: strip_env_put portless_def keyed_def)
next
  case (Some env)
  have "json_object v = Some env \<longleftrightarrow> v = JObj env" for v by (cases v) (simp_all add: json_object_def)
  with Some have env: "map_of kvs ''env'' = Some (JObj env)" by (simp add: bind_eq_Some_conv)
  then have "distinct (map fst kvs)" "distinct (map fst env)"
    using assms by (auto simp: keyed_def json_get_def)
  with Some show ?thesis
    by (auto simp: strip_env_put portless_def pointer2_def json_get_def)
qed

lemma strip_value_portless:
  assumes "keyed v" and "strip_value X saved v = Some (v', restored)"
  shows "pointer2 ''env'' ''ZLAUDER_PORT'' v' = None"
proof -
  define kvs where "kvs = (case v of JObj kvs \<Rightarrow> kvs | _ \<Rightarrow> [])"
  define line where "line = strip_statusline saved (statusline_is_ours v) (strip_env (base_url_is_ours X v) kvs)"
  have "v = JObj kvs \<or> kvs = []" by (cases v) (simp_all add: kvs_def)
  moreover have "keyed (JObj [])" by (simp add: keyed_def json_get_def)
  ultimately have "keyed (JObj kvs)" using assms(1) by metis
  then have "portless (strip_env (base_url_is_ours X v) kvs)" by (rule strip_env_portless)
  then have "portless (fst line)"
    by (auto simp: line_def strip_statusline_def split: option.splits)
  moreover have "portless (remove_automode_environment (remove_permission_rules kvs'))" if "portless kvs'" for kvs'
    using that by (simp add: remove_note_put remove_rules_put split: option.splits)
  moreover have "v' = JObj (remove_automode_environment (remove_permission_rules (fst line)))"
    using assms(2) unfolding strip_value_def Let_def kvs_def [symmetric] line_def [symmetric]
    by (cases line) (simp split: if_splits)
  ultimately show ?thesis by (simp add: portless_def)
qed

lemma portless_not_routing: "pointer2 ''env'' ''ZLAUDER_PORT'' v = None \<Longrightarrow> \<not> routes X v"
  by (simp add: routes_def)

lemma strip_routing_unroutes:
  assumes "strip_routing_from X fails saved f = Inr (did, restored, f')"
    and "\<And>v. f = Some (Doc v) \<Longrightarrow> keyed v" and "f' = Some (Doc v')"
  shows "\<not> routes X v'"
proof (cases "f = Some (Doc v') \<and> \<not> has_wiring X v'")
  case True
  then have "pointer2 ''env'' ''ZLAUDER_PORT'' v' = None" by (simp add: has_wiring_def)
  then show ?thesis by (rule portless_not_routing)
next
  case False
  then obtain v r where "f = Some (Doc v)" "strip_value X saved v = Some (v', r)"
    using assms by (auto simp: strip_routing_from_def strip_value_def
        split: option.splits settings_doc.splits if_splits prod.splits)
  then show ?thesis using assms(2) by (metis portless_not_routing strip_value_portless)
qed

lemma disabled_unrouted:
  assumes "settings_disable_at X F fs = (Inr res, fs')" and "keyed_files fs"
  shows "\<not> routed X fs'"
proof -
  obtain did r l did' r' c where
      l: "strip_routing_from X (sq_local F) (st_sidecar fs) (st_local fs) = Inr (did, r, l)" and
      c: "strip_routing_from X (sq_committed F) (if r then None else st_sidecar fs) (st_committed fs) = Inr (did', r', c)" and
      fs': "st_local fs' = l" "st_committed fs' = c"
    using assms(1) by (auto simp: settings_disable_at_def Let_def split: sum.splits if_splits)
  have "\<not> routes X v" if "l = Some (Doc v)" for v
    using strip_routing_unroutes [OF l _ that] assms(2) by (auto simp: keyed_files_def)
  moreover have "\<not> routes X v" if "c = Some (Doc v)" for v
    using strip_routing_unroutes [OF c _ that] assms(2) by (auto simp: keyed_files_def)
  ultimately show ?thesis using fs' by (auto simp: routed_def)
qed

section \<open>The loops\<close>

lemma sweep_discovered_set:
  "set (sweep_discovered X ps roots rs) = set roots \<union> {r \<in> set rs. routed X (ps r)}"
  by (induction rs arbitrary: roots) (auto simp: baked_iff [symmetric])

lemma sweep_discovered_distinct: "distinct roots \<Longrightarrow> distinct (sweep_discovered X ps roots rs)"
  by (induction rs arbitrary: roots) auto

text \<open>A project is cleaned when its disabling works.\<close>

definition cleans :: "'x ext_scheme \<Rightarrow> sweep_faults \<Rightarrow> projects \<Rightarrow> string \<Rightarrow> bool" where
  "cleans X F ps r \<longleftrightarrow> (\<exists>res. fst (settings_disable_at X (sf_settings F r) (ps r)) = Inr res)"

lemma cleans_later [simp]: "r \<noteq> q \<Longrightarrow> cleans X F (ps(q := fs)) r = cleans X F ps r"
  by (simp add: cleans_def)

lemma sweep_each_projects:
  assumes "distinct rs" and "sweep_each X F rs n ps d = (n', ps', d')"
  shows "ps' p = (if p \<in> set rs then snd (settings_disable_at X (sf_settings F p) (ps p)) else ps p)"
    and "n' = n + card {r \<in> set rs. cleans X F ps r}"
proof -
  have "ps' p = (if p \<in> set rs then snd (settings_disable_at X (sf_settings F p) (ps p)) else ps p) \<and>
      n' = n + card {r \<in> set rs. cleans X F ps r}"
    using assms
  proof (induction rs arbitrary: n ps d)
    case (Cons r rs)
    obtain res fs where run: "settings_disable_at X (sf_settings F r) (ps r) = (res, fs)" by force
    have later: "{q \<in> set rs. cleans X F (ps(r := fs)) q} = {q \<in> set rs. cleans X F ps q}"
      using Cons.prems(1) by (metis (lifting) cleans_later distinct.simps(2))
    have here: "{q \<in> set (r # rs). cleans X F ps q} =
        (if cleans X F ps r then insert r {q \<in> set rs. cleans X F ps q} else {q \<in> set rs. cleans X F ps q})"
      by auto
    have count: "card {q \<in> set (r # rs). cleans X F ps q} =
        (if cleans X F ps r then Suc (card {q \<in> set rs. cleans X F ps q}) else card {q \<in> set rs. cleans X F ps q})"
      using Cons.prems(1) unfolding here by (simp add: card_insert_if)
    show ?case
    proof (cases res)
      case (Inl e)
      with Cons.prems run have "sweep_each X F rs n (ps(r := fs)) d = (n', ps', d')" by simp
      from Cons.IH [OF _ this] Cons.prems(1) run Inl count later show ?thesis by (auto simp: cleans_def)
    next
      case (Inr a)
      with Cons.prems run have
        "sweep_each X F rs (Suc n) (ps(r := fs)) (snd (registry_remove X (sf_registry F r) r d)) = (n', ps', d')"
        by simp
      from Cons.IH [OF _ this] Cons.prems(1) run Inr count later show ?thesis by (auto simp: cleans_def)
    qed
  qed simp
  then show "ps' p = (if p \<in> set rs then snd (settings_disable_at X (sf_settings F p) (ps p)) else ps p)"
    and "n' = n + card {r \<in> set rs. cleans X F ps r}" by blast+
qed

lemma registry_remove_get:
  "registry_get X (snd (registry_remove X faults p d)) q =
     (if project_key X p = project_key X q \<and> \<not> df_remove faults then None else registry_get X d q)"
  by (auto simp: registry_remove_def registry_get_def entry_name_def)

lemma sweep_each_registry:
  assumes "distinct rs" and "sweep_each X F rs n ps d = (n', ps', d')"
  shows "registry_get X d' q =
     (if \<exists>p\<in>set rs. cleans X F ps p \<and> \<not> df_remove (sf_registry F p) \<and> project_key X p = project_key X q
      then None else registry_get X d q)"
  using assms
proof (induction rs arbitrary: n ps d)
  case (Cons r rs)
  obtain res fs where run: "settings_disable_at X (sf_settings F r) (ps r) = (res, fs)" by force
  have later: "cleans X F (ps(r := fs)) p = cleans X F ps p" if "p \<in> set rs" for p
    using Cons.prems(1) that by (metis cleans_later distinct.simps(2))
  show ?case
  proof (cases res)
    case (Inl e)
    with Cons.prems run have "sweep_each X F rs n (ps(r := fs)) d = (n', ps', d')" by simp
    from Cons.IH [OF _ this] Cons.prems(1) run Inl later show ?thesis by (auto simp: cleans_def)
  next
    case (Inr a)
    with Cons.prems run have
      "sweep_each X F rs (Suc n) (ps(r := fs)) (snd (registry_remove X (sf_registry F r) r d)) = (n', ps', d')"
      by simp
    from Cons.IH [OF _ this] Cons.prems(1) run Inr later
    show ?thesis by (auto simp: cleans_def registry_remove_get)
  qed
qed simp

lemma sound_files_clean:
  assumes "\<not> sq_local (sf_settings F p)" "\<not> sq_committed (sf_settings F p)"
    and "st_local (ps p) \<noteq> Some NotJson" "st_committed (ps p) \<noteq> Some NotJson"
  shows "cleans X F ps p"
proof -
  have strips: "\<exists>did restored f'. strip_routing_from X False saved f = Inr (did, restored, f')"
    if "f \<noteq> Some NotJson" for saved f
    using that by (auto simp: strip_routing_from_def split: option.splits settings_doc.splits)
  obtain did restored l where l:
    "strip_routing_from X False (st_sidecar (ps p)) (st_local (ps p)) = Inr (did, restored, l)"
    using strips [OF assms(3)] by blast
  obtain did' restored' c where c: "strip_routing_from X False
      (if restored then None else st_sidecar (ps p)) (st_committed (ps p)) = Inr (did', restored', c)"
    using strips [OF assms(4)] by blast
  from assms(1,2) l c show ?thesis by (simp add: cleans_def settings_disable_at_def Let_def)
qed

section \<open>The sweep\<close>


text \<open>A plumbed project without settings, a routed one of the session logs, and one that is neither.\<close>

definition two_projects :: projects where
  "two_projects = (\<lambda>_. \<lparr>st_local = None, st_committed = None, st_sidecar = None\<rparr>)
     (''/q'' := \<lparr>st_local = Some (Doc (JObj [(''env'', JObj [(''ANTHROPIC_BASE_URL'', JStr ''http://127.0.0.1:4000''),
        (''ZLAUDER_PORT'', JStr ''4000'')])])), st_committed = None, st_sidecar = None\<rparr>)"

definition calm_sweep :: sweep_faults where
  "calm_sweep = \<lparr>sf_settings = \<lambda>_. no_faults,
     sf_registry = \<lambda>_. \<lparr>df_no_dir = False, df_write = NoFault, df_rename = False, df_remove = False\<rparr>\<rparr>"

lemma two_projects_routed: "routed sample_ext (two_projects p) \<longleftrightarrow> p = ''/q''"
proof -
  have "is_digit_b (CHR ''4'')" "is_digit_b (CHR ''0'')" by (simp_all add: is_digit_b_def code_def)
  moreover have "dec_value ''4000'' = 4000" by (simp add: dec_value_def code_def)
  ultimately have "parse_u16 ''4000'' = Some 4000" by (simp add: parse_u16_def)
  moreover have "str_trim sample_ext ''http://127.0.0.1:4000'' =
      ''http://'' @ ''127.0.0.1'' @ '':'' @ ''4000'' @ replicate 0 (CHR ''/'')"
    by (simp add: str_trim_def sample_ext_def is_cont_def code_def)
  ultimately have "loops_to sample_ext ''http://127.0.0.1:4000'' 4000" unfolding loops_to_def by blast
  with \<open>parse_u16 ''4000'' = Some 4000\<close> show ?thesis
    by (auto simp: routed_def routes_def two_projects_def pointer2_def json_get_def)
qed


end
