(* ===== verification/Spec2Isabelle.thy ===== *)
theory Spec2Isabelle
  imports Residuals Plausibility BrokerPolicyCorrect BrokerWalk RequestMask OpenAiMask SseCorrect
    ChatStreamCorrect RespStreamCorrect SurfacesCorrect MonitorVerdict PersistCorrect ProxyHttp
    TranscriptCorrect LaunchLock SweepCorrect
begin

text \<open>
  A verification development for ZlauDeR, a privacy proxy between a coding assistant and the API
  of its model.  The proxy replaces personal data and registered secrets in a request by tokens
  such as \<open>[EMAIL_ADDRESS_0123456789ab]\<close>, and puts the values back into the reply.

  \<^bold>\<open>The program.\<close>  The engine (\<open>crates/zlauder-engine\<close>) detects spans in a text, renders each by
  the operator of its entity (token, hash, mask, redact, keep, local or broker token), keeps the
  plaintext of tokens encrypted in a session store and caches detections by content.  The proxy
  (\<open>crates/zlauder-proxy\<close>) walks the JSON of a request and masks its text leaves, walks or
  streams the response and unmasks it, and shows both to a monitor.  Hooks resolve broker secrets
  at the tool boundary under a policy.

  \<^bold>\<open>Conventions.\<close>  A Rust string is its UTF-8 byte string, a \<open>string\<close> of HOL; spans are byte
  offsets; an \<open>f32\<close> is its bit pattern; a \<open>HashMap\<close> or LRU map is an association list; an error is
  the \<open>Inl\<close> of a sum, with a constructor of its own for a panic of the slicing operations; a mutex
  is explicit state passing, the lock being held for the whole operation modelled.  What is not in
  the repository is the argument \<open>X\<close> of the definitions that use it (record \<open>ext\<close> of Externals:
  digest, cipher, random source, regex and Aho-Corasick engines, presidio analyzer, glob, url,
  shlex, Unicode tables), and the record \<open>wire\<close>, \<open>event_wire\<close> or \<open>chunk_wire\<close> for the JSON of the
  wire types, \<open>toml_wire\<close> and \<open>control_wire\<close> for TOML and the bodies of the control plane, and
  \<open>proc_world\<close> for processes and their environment.  Hypotheses about it are named (\<open>blake3_ok\<close>,
  \<open>cipher_ok\<close>, \<open>analyzer_ok\<close>, \<open>batch_contract\<close> and so on) and hold for the concrete \<open>sample_ext\<close>
  of Instances, on which the witnesses evaluate.

  \<^bold>\<open>The theories\<close>, each with the file it models.
  \<^item> Prelude: byte strings, searches, boundaries, slices, sorting, the result type.
  \<^item> Externals and Instances: the external functions and a concrete choice of them.
  \<^item> Config (\<open>config.rs\<close>, \<open>surface.rs\<close>, \<open>error.rs\<close>): surfaces, profiles, categories, operators, the
    allow list, the reveal marker, the configuration.
  \<^item> Fingerprint (\<open>config.rs\<close>, \<open>lib.rs\<close>): the bytes hashed into cache keys, and what they identify.
  \<^item> Tokens (\<open>token.rs\<close>): minting, slugs, and the token pattern as a left-to-right scan \<open>token_scan\<close>,
    with the law that lets a scan be cut where no token straddles the cut.
  \<^item> Manifest (\<open>manifest.rs\<close>), Store (\<open>store.rs\<close>), Cache (\<open>cache.rs\<close>): the state of a session.  Store
    refines an abstract table from tokens to values; Cache interprets the interface of a bounded
    memo table.
  \<^item> SecretRules (\<open>secrets.rs\<close>), Detect and Plausibility (\<open>detect.rs\<close>): the rules and the detection
    run, its overlap resolution, its allow list and its entropy floor.
  \<^item> MlSlot (\<open>lib.rs\<close>): the slot of the background recognizer as a step relation over generations.
  \<^item> Splice, Engine (\<open>lib.rs\<close>), ApplyCorrect: the mask path; splicing back to front is assembly.
  \<^item> Unmask (\<open>lib.rs\<close>), RoundTrip, Residuals: prewarm, unmask, reveal; the round trip, what is never
    revealed, and two behaviours the documentation rules out.
  \<^item> MaskSpec, Session: masking without cache, prewarm or counters, and the simulation.
  \<^item> BrokerPolicy (\<open>broker.rs\<close>), BrokerPolicyCorrect, Json, BrokerWalk (\<open>lib.rs\<close>): the default-deny
    policy, what its parsers of destinations and its rules amount to, and the resolution of broker
    tokens in a tool input.
  \<^item> Walk (\<open>walk.rs\<close>), WalkCorrect, RequestMask: the request walk in its collecting and masking modes,
    the fallback for bodies of unknown shape, the response walk; both modes are one traversal.
  \<^item> SafeWalk, OpenAiMask (\<open>openai_chat.rs\<close>, \<open>openai_responses.rs\<close>): the request and response walks of
    the two OpenAI APIs; each request walk is a list of leaves and a function that fills them in.
  \<^item> Split, Sse, SseCorrect (\<open>sse.rs\<close>): the cut of a stream buffer, the interface \<open>stream_scan\<close> of a
    relay, the streaming unmasker of Anthropic replies.
  \<^item> ChatStream, ChatStreamCorrect (\<open>openai_chat.rs\<close>), RespStream, RespStreamCorrect
    (\<open>openai_responses.rs\<close>): the streaming unmaskers of Chat Completions and of Responses, the other
    clients of that interface.
  \<^item> MonitorModel, Spans, Surfaces, SurfacesCorrect, Capture (\<open>monitor/model.rs\<close>, \<open>spans.rs\<close>,
    \<open>surfaces.rs\<close>, \<open>delta.rs\<close>, \<open>capture.rs\<close>): the records of the monitor, the scrub of secret
    values, the text surfaces of a body and their runs, the delta of a turn, the captured reply.
  \<^item> MonitorStore, MonitorOps (\<open>monitor/store.rs\<close>): the state behind the mutex of the monitor and the
    operations on it, with the time of a call as an argument.
  \<^item> MonitorLife (\<open>routes.rs\<close>, \<open>monitor/store.rs\<close>): the handlers of many requests, the operator and
    the timeouts as interleaved actions on a world, cut where the code gives up the mutex or
    awaits, with the reachable worlds.
  \<^item> MonitorGate, MonitorRaces, MonitorLedger, MonitorBounds, MonitorVerdict: the invariant of the
    reachable worlds, the gate and its progress; what the interleavings break; the ledger; the
    bounds of all tables; final verdicts and deltas.
  \<^item> Toml, ConfigFiles (\<open>config.rs\<close>, \<open>monitor/persist.rs\<close>): TOML documents as the reader and the
    editor see them, the merge of the layers, what is read from the files and written to them.
  \<^item> Providers (\<open>crates/zlauder-secrets\<close>), SecretsInstall (\<open>secrets.rs\<close>, \<open>main.rs\<close>): the backends of
    the secrets and their scrubbed environment, the resolution and installation of the configured
    secrets, the readiness gate.
  \<^item> ControlPlane (\<open>admin.rs\<close>, \<open>ml.rs\<close>, \<open>monitor/http.rs\<close>, \<open>main.rs\<close>), ControlCorrect, PersistCorrect:
    the requests that change the live configuration and the files, each one step under the lock and
    behind its own test of the key; runs of requests, loads, mask calls and file edits from the
    startup on; what a reload reads of what was written.
  \<^item> ProxyHttp (\<open>routes.rs\<close>, \<open>monitor/http.rs\<close>, \<open>admin.rs\<close>): all keyed routes of the proxy on the
    control state and the world of the monitor together, and what callers without the key can do.
  \<^item> Paths, StateFiles, StateFilesCorrect (\<open>crates/zlauder-state\<close>): the files that name the plumbed
    projects and the live proxies, one per project under a digest of its root, each replaced by a
    rename, with the failures of every file operation.
  \<^item> LaunchLock (\<open>crates/zlauder-state\<close>): the lock of a project's launchers, each file operation one
    step of an interleaving, with crashes, the clock and the process table as steps of their own.
  \<^item> Transcript, TranscriptCorrect (\<open>transcript.rs\<close> of the hooks): the scrubber of transcripts, which
    redacts the string leaves, drops thinking records and relinks the records after them.
  \<^item> Settings, SettingsCorrect (\<open>main.rs\<close> of the hooks): the edits of a project's settings when it is
    enabled and disabled, on the two settings files and the file of the wrapped status line.
  \<^item> Sweep, SweepCorrect (\<open>main.rs\<close> of the hooks): the sweep that disables every plumbed project of
    the registry and every routed one of the session logs, before the plugin is uninstalled.

  \<^bold>\<open>What the lemmas show.\<close>  A session over the engine, and a masked request, are those of detection
  run afresh on every leaf.  A masked text unmasks to itself; sealed values do not influence what
  the unmask path returns; tombstoned tokens stay dead.  Detections are in bounds, disjoint and
  best first, and the batched run agrees with the single one.  A body leaves only when all of its
  leaves were masked on the engine of the request, and differs from it in its leaves alone.  A streamed reply is the
  whole reply unmasked, however it is cut.  A broker value reaches exactly the leaves the policy
  permits.  In every interleaving a held request goes upstream only after its approval, and leaves
  the gate when its handler runs; the tables of the monitor stay bounded, its ledger keeps what was
  masked last and withholds secrets, a finished record is final, and a delta hides nothing that was
  not shown before.  In every run of the control plane and of the monitor nothing of the operator's
  moves without the key; masking is switched by an authenticated enable, disable or configuration
  alone, and by no file edit; the recognizer follows the configuration, a failed reload denies the
  broker, the intake opens only with all required secrets installed, and a persisted reveal or remask
  is what reloads read back.  The registry reads as a map whatever crashed writers left beside it, and
  a proxy's record is read back as published; a sweep that ends with success leaves no route in any
  project of the registry or the session logs, and touches no project without one.  A launcher that
  holds the launch lock within its term is the only one to, and the lock at the path is its own,
  unless another process changes the file between a reclaimer's or a dropper's reading of it and its
  rename or removal.  A scrubbed transcript keeps none of the values in its strings, its records
  point past the removed ones where a record is left to point at, and the original is never lost.
  Disabling a project puts its settings back.  Where the code does otherwise than its comments say,
  a theorem shows the behaviour: stale detections after a change of rules, a secret exposed by an empty match, a deleted token
  that resolves in its turn, arguments the fallback walk leaves in the clear, unescaped tool
  arguments in streams, half a token released by another choice, texts that a reply reveals
  and the next request does not mask again, verdicts marked late, approvals reported as errors,
  approval slots lost to clients that leave, ledger entries that stay readable, secrets lost to one
  empty variable, custom rules lost to a persisted one, edits persisted where no reload looks,
  reveals that a panic makes final, launch locks held twice or never reclaimed, a base URL lost by
  enabling, and values that a scrub leaves in member names or writes back.

  \<^bold>\<open>Bounds.\<close>  There is no fuel: every function terminates, by structure or by a measure (the length
  of the text for the scanners and the user bypass, the size of the JSON value for the walks).  The
  stream theorems assume \<open>short_tokens\<close>: no token of the text is longer than \<open>MAX_TOKEN_LEN\<close>, which
  minted tokens of an entity of at most 48 bytes satisfy (\<open>make_token_bound\<close>).  They fix the clock
  and the engine for the time of a reply, and ask for a manifest of tokens of the grammar, since
  custom literal tokens are replaced within a chunk only.

  \<^bold>\<open>Not modelled.\<close>  The recognizer tables
  (\<open>recognizers.rs\<close>) are patterns for the analyzer; model download and inference (\<open>ml.rs\<close> of the
  engine), sockets and HTTP serving, and the hooks' command line, prompt hooks, Codex configuration,
  process launching and status line are input and output.  The clock of the launch lock does not go
  back, and the model of paths is that of Unix.  The roots that the sweep finds in session logs are
  given to it.  Logging, the text of error messages and the frames for subscribers of the monitor's
  records are left out of the operations that do them; the relays and the capture of what they emit
  are modelled apart.
\<close>

end
